(* ===== verification/Prelude.thy ===== *)
theory Prelude
  imports Main "HOL-Library.Word" "HOL-Library.Signed_Division"
begin

unbundle bit_operations_syntax

text \<open>
  Shared vocabulary of the development: machine types, the result type of
  operations that can stop in an assertion or a panic, the collections of
  facts the component theories extend, and generic lemmas on functions used
  as arrays.
\<close>

type_synonym u8 = "8 word"
type_synonym u16 = "16 word"
type_synonym u32 = "32 word"
type_synonym u64 = "64 word"

named_theorems frame_simps \<open>what an operation leaves unchanged\<close>
named_theorems array_simps \<open>reading an array after writing it\<close>

section \<open>How a kernel operation can fail\<close>

text \<open>
  \<open>assert\<close> (\<open>include/stdio.h\<close>) calls \<open>assertion_failure\<close>, which prints and
  spins for ever; \<open>panic\<close> (\<open>kernel/main.c\<close>) prints and executes \<open>ud2\<close>.
  Neither returns, so both end the operation.  An assertion is recorded with
  the source file and the line of the \<open>assert\<close>.  \<open>Hang\<close> is a loop of the
  source that never ends, \<open>Bad_access\<close> an index outside a table or a null
  pointer that the code would follow.
\<close>

datatype kfail =
    Assertion string nat
  | Panic string
  | Bad_access string
  | Hang

type_synonym 'a kres = "kfail + 'a"

abbreviation (input) ensure :: "bool \<Rightarrow> kfail \<Rightarrow> 'a kres \<Rightarrow> 'a kres" where
  "ensure c e k \<equiv> (if c then k else Inl e)"

abbreviation (input) rbind :: "'a kres \<Rightarrow> ('a \<Rightarrow> 'b kres) \<Rightarrow> 'b kres" where
  "rbind r f \<equiv> (case r of Inl e \<Rightarrow> Inl e | Inr x \<Rightarrow> f x)"

text \<open>A loop modelled by a partial function: \<open>None\<close> is \<open>the loop does not end\<close>.\<close>

abbreviation (input) run_loop :: "'a option \<Rightarrow> ('a \<Rightarrow> 'b kres) \<Rightarrow> 'b kres" where
  "run_loop r f \<equiv> (case r of None \<Rightarrow> Inl Hang | Some x \<Rightarrow> f x)"

definition succeeds :: "'a kres \<Rightarrow> bool" where
  "succeeds r \<longleftrightarrow> (case r of Inl _ \<Rightarrow> False | Inr _ \<Rightarrow> True)"

lemma succeeds_simps [simp]: "succeeds (Inr x)" "\<not> succeeds (Inl e)"
  by (simp_all add: succeeds_def)

lemma succeeds_iff: "succeeds r \<longleftrightarrow> (\<exists>x. r = Inr x)"
  by (cases r) simp_all

lemma rbind_Inr_iff:
  "(case r of Inl e \<Rightarrow> Inl e | Inr x \<Rightarrow> f x) = Inr y \<longleftrightarrow> (\<exists>x. r = Inr x \<and> f x = Inr y)"
  by (cases r) simp_all

section \<open>C arithmetic on int\<close>

text \<open>
  \<open>/\<close> and \<open>%\<close> of C truncate towards zero: \<open>sdiv\<close> and \<open>smod\<close> of
  HOL-Library.  On operands that are not negative they are \<open>div\<close> and \<open>mod\<close>.
\<close>

lemma sdiv_nonneg [simp]: "0 \<le> a \<Longrightarrow> 0 < b \<Longrightarrow> (a::int) sdiv b = a div b"
  by (cases "a = 0") (simp_all add: signed_divide_int_def sgn_if)

lemma smod_nonneg [simp]: "0 \<le> a \<Longrightarrow> 0 < b \<Longrightarrow> (a::int) smod b = a mod b"
  by (cases "a = 0") (simp_all add: signed_modulo_int_def)

text \<open>A C int after an operation that may leave its range.\<close>

definition cint :: "int \<Rightarrow> int" where
  "cint x = sint (word_of_int x :: u32)"

lemma cint_small: "- (2 ^ 31) \<le> x \<Longrightarrow> x < 2 ^ 31 \<Longrightarrow> cint x = x"
  unfolding cint_def by (simp add: signed_of_int signed_take_bit_int_eq_self)

abbreviation (input) cmin :: "'a::linorder \<Rightarrow> 'a \<Rightarrow> 'a" where
  "cmin a b \<equiv> (if a < b then a else b)"

section \<open>Writing a block into an array\<close>

text \<open>\<open>blit dst d src n\<close>: \<open>dst\<close> with its cells \<open>d ..< d + n\<close> replaced by \<open>src 0 ..< src n\<close>.\<close>

definition blit :: "(nat \<Rightarrow> 'a) \<Rightarrow> nat \<Rightarrow> (nat \<Rightarrow> 'a) \<Rightarrow> nat \<Rightarrow> (nat \<Rightarrow> 'a)" where
  "blit dst d src n = (\<lambda>i. if d \<le> i \<and> i < d + n then src (i - d) else dst i)"

lemma blit_inside [array_simps]: "d \<le> i \<Longrightarrow> i < d + n \<Longrightarrow> blit dst d src n i = src (i - d)"
  by (simp add: blit_def)

lemma blit_outside [array_simps]: "i < d \<or> d + n \<le> i \<Longrightarrow> blit dst d src n i = dst i"
  by (auto simp: blit_def)

lemma blit_0 [simp]: "blit dst d src 0 = dst"
  by (auto simp: blit_def fun_eq_iff)

lemma blit_same [simp]: "blit (blit dst d s1 n) d s2 n = blit dst d s2 n"
  by (rule ext) (simp add: blit_def)

section \<open>Masks of words\<close>

lemma word_and_masks:
  fixes x :: "'a::len word"
  shows "x AND 65535 = take_bit 16 x" and "x AND 255 = take_bit 8 x"
    and "x AND 15 = take_bit 4 x" and "x AND 31 = take_bit 5 x" and "x AND 1 = take_bit 1 x"
  using take_bit_eq_mask [of 16 x] take_bit_eq_mask [of 8 x] take_bit_eq_mask [of 4 x]
    take_bit_eq_mask [of 5 x] take_bit_eq_mask [of 1 x]
  by (simp_all add: mask_eq_exp_minus_1)

lemma bit_240_iff: "bit (240 :: 'a::len word) n \<longleftrightarrow> 4 \<le> n \<and> n < 8 \<and> n < LENGTH('a)"
proof -
  have *: "(240 :: 'a word) = push_bit 4 (mask 4)"
    by (simp add: mask_eq_exp_minus_1 push_bit_eq_mult)
  show ?thesis unfolding * by (auto simp: bit_simps)
qed

lemma bit_240_nat_iff: "bit (240 :: nat) n \<longleftrightarrow> 4 \<le> n \<and> n < 8"
proof -
  have *: "(240 :: nat) = push_bit 4 (mask 4)"
    by (simp add: mask_eq_exp_minus_1 push_bit_eq_mult)
  show ?thesis unfolding * by (auto simp: bit_simps)
qed

lemma bit_240_int_iff: "bit (240 :: int) n \<longleftrightarrow> 4 \<le> n \<and> n < 8"
proof -
  have *: "(240 :: int) = push_bit 4 (mask 4)"
    by (simp add: mask_eq_exp_minus_1 push_bit_eq_mult)
  show ?thesis unfolding * by (auto simp: bit_simps)
qed

text \<open>Testing a single-bit flag.\<close>

lemma word_and_flags:
  fixes x :: "'a::len word"
  shows "x AND 1 = 0 \<longleftrightarrow> \<not> bit x 0" and "x AND 2 = 0 \<longleftrightarrow> \<not> bit x 1"
    and "x AND 4 = 0 \<longleftrightarrow> \<not> bit x 2" and "x AND 8 = 0 \<longleftrightarrow> \<not> bit x 3"
    and "x AND 16 = 0 \<longleftrightarrow> \<not> bit x 4" and "x AND 32 = 0 \<longleftrightarrow> \<not> bit x 5"
    and "x AND 64 = 0 \<longleftrightarrow> \<not> bit x 6" and "x AND 128 = 0 \<longleftrightarrow> \<not> bit x 7"
    and "x AND 256 = 0 \<longleftrightarrow> \<not> bit x 8"
  using and_exp_eq_0_iff_not_bit [of x 0] and_exp_eq_0_iff_not_bit [of x 1]
    and_exp_eq_0_iff_not_bit [of x 2] and_exp_eq_0_iff_not_bit [of x 3]
    and_exp_eq_0_iff_not_bit [of x 4] and_exp_eq_0_iff_not_bit [of x 5]
    and_exp_eq_0_iff_not_bit [of x 6] and_exp_eq_0_iff_not_bit [of x 7]
    and_exp_eq_0_iff_not_bit [of x 8]
  by (simp_all only: power_0 power_one_right) (simp_all only: power2_eq_square numeral_eq_Suc power_Suc | simp)+

lemma unat_2_power_le: "unat (2 ^ k :: u32) \<le> 2 ^ k"
  using unat_of_nat [of "2 ^ k", where ?'a = 32] by simp

lemma bit_word_less_exp: "x < 2 ^ k \<Longrightarrow> bit x n \<Longrightarrow> n < k" for x :: u32
proof (rule ccontr)
  assume "x < 2 ^ k" "bit x n" "\<not> n < k"
  moreover from this have "(2::nat) ^ k \<le> 2 ^ n" by (intro power_increasing) simp_all
  moreover have "bit (unat x) n" using \<open>bit x n\<close> by (simp add: bit_unsigned_iff)
  then have "2 ^ n \<le> unat x" by (metis bit_iff_odd div_less even_zero not_le)
  moreover have "unat x < 2 ^ k" 
    using \<open>x < 2 ^ k\<close> by (metis unat_2_power_le word_less_nat_alt order_less_le_trans)
  ultimately show False by simp
qed

section \<open>The first index with a property\<close>

lemma find_upt: "find P [0..<n] = Some i \<longleftrightarrow> i < n \<and> P i \<and> (\<forall>j < i. \<not> P j)"
  by (auto simp: find_Some_iff)

lemma find_upt_None: "find P [0..<n] = None \<longleftrightarrow> (\<forall>i < n. \<not> P i)"
  by (auto simp: find_None_iff)

lemma find_upt_range: "find P [a..<b] = Some k \<Longrightarrow> a \<le> k \<and> k < b \<and> P k"
  by (auto simp: find_Some_iff)

end
