(* ===== verification/Consts.thy ===== *)
theory Consts
  imports Prelude
begin

text \<open>
  The constants of \<open>include/sys/const.h\<close>, \<open>include/sys/proc.h\<close>,
  \<open>include/sys/fs.h\<close> and \<open>include/stdio.h\<close>, under their names.
\<close>

section \<open>Process table\<close>

abbreviation (input) NR_TASKS :: "'a::numeral" where "NR_TASKS \<equiv> 5"
abbreviation (input) NR_PROCS :: "'a::numeral" where "NR_PROCS \<equiv> 32"
abbreviation (input) NR_NATIVE_PROCS :: "'a::numeral" where "NR_NATIVE_PROCS \<equiv> 4"

text \<open>\<open>NR_TASKS + NR_PROCS\<close>, the length of \<open>proc_table\<close>.\<close>

abbreviation (input) NPROC :: "'a::numeral" where "NPROC \<equiv> 37"

abbreviation (input) PROCS_BASE :: "'a::numeral" where "PROCS_BASE \<equiv> 0xA00000"
abbreviation (input) PROC_IMAGE_SIZE_DEFAULT :: "'a::numeral" where
  "PROC_IMAGE_SIZE_DEFAULT \<equiv> 0x100000"
abbreviation (input) PROC_ORIGIN_STACK :: "'a::numeral" where "PROC_ORIGIN_STACK \<equiv> 0x400"

section \<open>Process flags\<close>

abbreviation (input) SENDING :: u32 where "SENDING \<equiv> 0x02"
abbreviation (input) RECEIVING :: u32 where "RECEIVING \<equiv> 0x04"
abbreviation (input) WAITING :: u32 where "WAITING \<equiv> 0x08"
abbreviation (input) HANGING :: u32 where "HANGING \<equiv> 0x10"
abbreviation (input) FREE_SLOT :: u32 where "FREE_SLOT \<equiv> 0x20"

section \<open>Tasks and IPC partners\<close>

abbreviation (input) INVALID_DRIVER :: int where "INVALID_DRIVER \<equiv> -20"
abbreviation (input) INTERRUPT :: int where "INTERRUPT \<equiv> -10"
abbreviation (input) TASK_TTY :: "'a::zero" where "TASK_TTY \<equiv> 0"
abbreviation (input) TASK_SYS :: "'a::one" where "TASK_SYS \<equiv> 1"
abbreviation (input) TASK_HD :: "'a::numeral" where "TASK_HD \<equiv> 2"
abbreviation (input) TASK_FS :: "'a::numeral" where "TASK_FS \<equiv> 3"
abbreviation (input) TASK_MM :: "'a::numeral" where "TASK_MM \<equiv> 4"
abbreviation (input) INIT :: "'a::numeral" where "INIT \<equiv> 5"
abbreviation (input) ANY :: int where "ANY \<equiv> 47"
abbreviation (input) NO_TASK :: int where "NO_TASK \<equiv> 57"

abbreviation (input) SEND :: int where "SEND \<equiv> 1"
abbreviation (input) RECEIVE :: int where "RECEIVE \<equiv> 2"
abbreviation (input) BOTH :: int where "BOTH \<equiv> 3"

abbreviation (input) MAX_TICKS :: int where "MAX_TICKS \<equiv> 0x7FFFABCD"

section \<open>Message types (\<open>enum msgtype\<close>)\<close>

abbreviation (input) HARD_INT :: int where "HARD_INT \<equiv> 1"
abbreviation (input) GET_TICKS :: int where "GET_TICKS \<equiv> 2"
abbreviation (input) GET_PID :: int where "GET_PID \<equiv> 3"
abbreviation (input) OPEN :: int where "OPEN \<equiv> 4"
abbreviation (input) CLOSE :: int where "CLOSE \<equiv> 5"
abbreviation (input) READ :: int where "READ \<equiv> 6"
abbreviation (input) WRITE :: int where "WRITE \<equiv> 7"
abbreviation (input) LSEEK :: int where "LSEEK \<equiv> 8"
abbreviation (input) STAT :: int where "STAT \<equiv> 9"
abbreviation (input) UNLINK :: int where "UNLINK \<equiv> 10"
abbreviation (input) SYSCALL_RET :: int where "SYSCALL_RET \<equiv> 11"
abbreviation (input) SUSPEND_PROC :: int where "SUSPEND_PROC \<equiv> 12"
abbreviation (input) RESUME_PROC :: int where "RESUME_PROC \<equiv> 13"
abbreviation (input) FORK :: int where "FORK \<equiv> 14"
abbreviation (input) EXIT :: int where "EXIT \<equiv> 15"
abbreviation (input) WAIT :: int where "WAIT \<equiv> 16"
abbreviation (input) EXEC :: int where "EXEC \<equiv> 17"
abbreviation (input) DEV_OPEN :: int where "DEV_OPEN \<equiv> 1001"
abbreviation (input) DEV_CLOSE :: int where "DEV_CLOSE \<equiv> 1002"
abbreviation (input) DEV_READ :: int where "DEV_READ \<equiv> 1003"
abbreviation (input) DEV_WRITE :: int where "DEV_WRITE \<equiv> 1004"
abbreviation (input) DEV_IOCTL :: int where "DEV_IOCTL \<equiv> 1005"
abbreviation (input) DISK_LOG :: int where "DISK_LOG \<equiv> 1006"

section \<open>Disk, devices and files\<close>

abbreviation (input) SECTOR_SIZE :: "'a::numeral" where "SECTOR_SIZE \<equiv> 512"
abbreviation (input) SECTOR_SIZE_SHIFT :: nat where "SECTOR_SIZE_SHIFT \<equiv> 9"
abbreviation (input) NO_DEV :: int where "NO_DEV \<equiv> 0"
abbreviation (input) DEV_HD :: int where "DEV_HD \<equiv> 3"
abbreviation (input) DEV_CHAR_TTY :: int where "DEV_CHAR_TTY \<equiv> 4"

abbreviation (input) MAX_DRIVES :: "'a::numeral" where "MAX_DRIVES \<equiv> 2"
abbreviation (input) NR_PART_PER_DRIVE :: "'a::numeral" where "NR_PART_PER_DRIVE \<equiv> 4"
abbreviation (input) NR_SUB_PER_PART :: "'a::numeral" where "NR_SUB_PER_PART \<equiv> 16"
abbreviation (input) NR_SUB_PER_DRIVE :: "'a::numeral" where "NR_SUB_PER_DRIVE \<equiv> 64"
abbreviation (input) NR_PRIM_PER_DRIVE :: "'a::numeral" where "NR_PRIM_PER_DRIVE \<equiv> 5"
abbreviation (input) MAX_PRIM :: "'a::numeral" where "MAX_PRIM \<equiv> 9"
abbreviation (input) MINOR_hd1a :: "'a::numeral" where "MINOR_hd1a \<equiv> 0x10"

text \<open>\<open>MAKE_DEV(a,b)\<close>, \<open>MAJOR(x)\<close>, \<open>MINOR(x)\<close>, and \<open>ROOT_DEV\<close> with \<open>MINOR_BOOT = MINOR_hd2a\<close> (\<open>config.h\<close>).\<close>

definition MAKE_DEV :: "int \<Rightarrow> int \<Rightarrow> int" where
  "MAKE_DEV a b = (push_bit 8 a OR b)"

definition MAJOR :: "int \<Rightarrow> int" where
  "MAJOR x = (drop_bit 8 x AND 0xFF)"

definition MINOR :: "int \<Rightarrow> int" where
  "MINOR x = (x AND 0xFF)"

abbreviation (input) ROOT_DEV :: int where "ROOT_DEV \<equiv> 0x320"

abbreviation (input) INVALID_INODE :: int where "INVALID_INODE \<equiv> 0"
abbreviation (input) ROOT_INODE :: int where "ROOT_INODE \<equiv> 1"
abbreviation (input) NR_FILES :: nat where "NR_FILES \<equiv> 64"
abbreviation (input) NR_FILE_DESC :: nat where "NR_FILE_DESC \<equiv> 64"
abbreviation (input) NR_INODE :: nat where "NR_INODE \<equiv> 64"
abbreviation (input) NR_SUPER_BLOCK :: nat where "NR_SUPER_BLOCK \<equiv> 8"
abbreviation (input) NR_DEFAULT_FILE_SECTS :: "'a::numeral" where "NR_DEFAULT_FILE_SECTS \<equiv> 512"
abbreviation (input) MAX_FILENAME_LEN :: nat where "MAX_FILENAME_LEN \<equiv> 12"
abbreviation (input) MAX_PATH :: "'a::numeral" where "MAX_PATH \<equiv> 128"
abbreviation (input) INODE_SIZE :: "'a::numeral" where "INODE_SIZE \<equiv> 32"
abbreviation (input) DIR_ENTRY_SIZE :: "'a::numeral" where "DIR_ENTRY_SIZE \<equiv> 16"
abbreviation (input) MAGIC_V1 :: u32 where "MAGIC_V1 \<equiv> 0x111"
abbreviation (input) FSBUF_SIZE :: "'a::numeral" where "FSBUF_SIZE \<equiv> 0x40000"

abbreviation (input) I_TYPE_MASK :: u32 where "I_TYPE_MASK \<equiv> 0xF000"
abbreviation (input) I_REGULAR :: u32 where "I_REGULAR \<equiv> 0x8000"
abbreviation (input) I_BLOCK_SPECIAL :: u32 where "I_BLOCK_SPECIAL \<equiv> 0x6000"
abbreviation (input) I_DIRECTORY :: u32 where "I_DIRECTORY \<equiv> 0x4000"
abbreviation (input) I_CHAR_SPECIAL :: u32 where "I_CHAR_SPECIAL \<equiv> 0x2000"

abbreviation (input) O_CREAT :: int where "O_CREAT \<equiv> 1"
abbreviation (input) O_RDWR :: int where "O_RDWR \<equiv> 2"
abbreviation (input) SEEK_SET :: int where "SEEK_SET \<equiv> 1"
abbreviation (input) SEEK_CUR :: int where "SEEK_CUR \<equiv> 2"
abbreviation (input) SEEK_END :: int where "SEEK_END \<equiv> 3"

section \<open>Properties of device numbers\<close>

lemma and_255_mod: "(x::int) AND 255 = x mod 256"
  using take_bit_eq_mask [of 8 x] by (simp add: mask_eq_exp_minus_1 take_bit_eq_mod)

lemma MINOR_mod: "MINOR x = x mod 256"
  by (simp add: MINOR_def and_255_mod)

lemma MAJOR_mod: "MAJOR x = x div 256 mod 256"
  by (simp add: MAJOR_def and_255_mod drop_bit_eq_div)

lemma MAKE_DEV_add: "0 \<le> a \<Longrightarrow> 0 \<le> b \<Longrightarrow> b < 256 \<Longrightarrow> MAKE_DEV a b = a * 256 + b"
  using concat_bit_eq [of 8 b a] concat_bit_def [of 8 b a]
  by (simp add: MAKE_DEV_def take_bit_eq_mod push_bit_eq_mult or.commute)

lemma MAJOR_MAKE_DEV: "0 \<le> a \<Longrightarrow> a < 256 \<Longrightarrow> 0 \<le> b \<Longrightarrow> b < 256 \<Longrightarrow> MAJOR (MAKE_DEV a b) = a"
  by (simp add: MAJOR_mod MAKE_DEV_add)

lemma MINOR_MAKE_DEV: "0 \<le> a \<Longrightarrow> 0 \<le> b \<Longrightarrow> b < 256 \<Longrightarrow> MINOR (MAKE_DEV a b) = b"
  by (simp add: MINOR_mod MAKE_DEV_add)

end
