(* ===== verification/Memory.thy ===== *)
theory Memory
  imports Consts
begin

unbundle bit_operations_syntax

text \<open>
  Linear memory as a function from 32-bit addresses to bytes, the copying
  routines of \<open>lib/string.asm\<close> (\<open>phys_copy\<close> is \<open>memcpy\<close>, \<open>include/string.h\<close>),
  32-bit loads and stores, and the layout of \<open>MESSAGE\<close> (\<open>include/type.h\<close>).
\<close>

type_synonym memory = "u32 \<Rightarrow> u8"

section \<open>Copying and filling\<close>

text \<open>The byte loop of \<open>memcpy\<close>: destination, source, count.\<close>

fun memcpy :: "memory \<Rightarrow> u32 \<Rightarrow> u32 \<Rightarrow> nat \<Rightarrow> memory" where
  "memcpy m dst src 0 = m"
| "memcpy m dst src (Suc n) = memcpy (m(dst := m src)) (dst + 1) (src + 1) n"

fun memset :: "memory \<Rightarrow> u32 \<Rightarrow> u8 \<Rightarrow> nat \<Rightarrow> memory" where
  "memset m dst ch 0 = m"
| "memset m dst ch (Suc n) = memset (m(dst := ch)) (dst + 1) ch n"

lemma unat_pred: "(x::u32) \<noteq> 0 \<Longrightarrow> unat (x - 1) = unat x - 1"
  by (simp add: unat_minus_one)

lemma unat_minus_1_max: "unat (- 1 :: u32) = 2 ^ 32 - 1"
  by (simp add: unsigned_minus_1_eq_mask mask_eq_exp_minus_1)

text \<open>
  \<open>memcpy\<close> copies the block when the destination does not start inside the
  part of the source that is still to be read.
\<close>

lemma memcpy_spec:
  "n \<le> 2 ^ 32 \<Longrightarrow> d = s \<or> n \<le> unat (d - s) \<Longrightarrow>
   memcpy m d s n a = (if unat (a - d) < n then m (s + (a - d)) else m a)"
proof (induction n arbitrary: m d s)
  case 0
  then show ?case by simp
next
  case (Suc n)
  have shift: "a - (d + 1) = (a - d) - 1" and src: "s + 1 + (a - (d + 1)) = s + (a - d)"
    by simp_all
  have "d + 1 = s + 1 \<or> n \<le> unat (d + 1 - (s + 1))"
    using Suc.prems(2) by auto
  then have "memcpy (m(d := m s)) (d + 1) (s + 1) n a =
      (if unat (a - (d + 1)) < n then (m(d := m s)) (s + 1 + (a - (d + 1))) else (m(d := m s)) a)"
    using Suc.IH Suc.prems(1) by simp
  then have IH: "memcpy (m(d := m s)) (d + 1) (s + 1) n a =
      (if unat ((a - d) - 1) < n then (m(d := m s)) (s + (a - d)) else (m(d := m s)) a)"
    unfolding shift src [unfolded shift] .
  show ?case
  proof (cases "a = d")
    case True
    then show ?thesis using IH Suc.prems(1) by (auto simp: unat_minus_1_max)
  next
    case False
    then have pos: "0 < unat (a - d)" and pred: "unat ((a - d) - 1) = unat (a - d) - 1"
      by (auto simp: unat_gt_0 unat_pred)
    have "s + (a - d) \<noteq> d" if "unat (a - d) < Suc n"
    proof
      assume "s + (a - d) = d"
      then have "d - s = a - d" by (metis add_diff_cancel_left')
      with Suc.prems(2) that False show False by auto
    qed
    then show ?thesis using IH False pos pred by auto
  qed
qed

lemma memset_spec:
  "n \<le> 2 ^ 32 \<Longrightarrow> memset m d ch n a = (if unat (a - d) < n then ch else m a)"
proof (induction n arbitrary: m d)
  case 0
  then show ?case by simp
next
  case (Suc n)
  have shift: "a - (d + 1) = (a - d) - 1" by simp
  show ?case
  proof (cases "a = d")
    case True
    then show ?thesis using Suc by (auto simp: shift unat_minus_1_max)
  next
    case False
    then have "0 < unat (a - d)" "unat ((a - d) - 1) = unat (a - d) - 1"
      by (auto simp: unat_gt_0 unat_pred)
    then show ?thesis using Suc False by (auto simp: shift)
  qed
qed

section \<open>32-bit loads and stores (little endian)\<close>

definition ld32 :: "memory \<Rightarrow> u32 \<Rightarrow> u32" where
  "ld32 m a = ucast (m a) OR push_bit 8 (ucast (m (a + 1)))
     OR push_bit 16 (ucast (m (a + 2))) OR push_bit 24 (ucast (m (a + 3)))"

definition st32 :: "memory \<Rightarrow> u32 \<Rightarrow> u32 \<Rightarrow> memory" where
  "st32 m a v = m(a := ucast v, a + 1 := ucast (drop_bit 8 v),
     a + 2 := ucast (drop_bit 16 v), a + 3 := ucast (drop_bit 24 v))"

lemma word32_bytes:
  fixes v :: u32
  shows "ucast (ucast v :: u8) OR push_bit 8 (ucast (ucast (drop_bit 8 v) :: u8))
     OR push_bit 16 (ucast (ucast (drop_bit 16 v) :: u8))
     OR push_bit 24 (ucast (ucast (drop_bit 24 v) :: u8)) = v"
proof (rule bit_word_eqI)
  fix n assume "n < LENGTH(32)"
  then consider "n < 8" | "8 \<le> n" "n < 16" | "16 \<le> n" "n < 24" | "24 \<le> n" "n < 32"
    by fastforce
  then show "bit (ucast (ucast v :: u8) OR push_bit 8 (ucast (ucast (drop_bit 8 v) :: u8))
     OR push_bit 16 (ucast (ucast (drop_bit 16 v) :: u8))
     OR push_bit 24 (ucast (ucast (drop_bit 24 v) :: u8)) :: u32) n = bit v n"
    by cases (auto simp: bit_simps)
qed

lemma ld32_st32_same [simp]: "ld32 (st32 m a v) a = v"
  by (simp add: ld32_def st32_def word32_bytes)

lemma ld32_cong:
  "m a = m' a' \<Longrightarrow> m (a + 1) = m' (a' + 1) \<Longrightarrow> m (a + 2) = m' (a' + 2) \<Longrightarrow>
   m (a + 3) = m' (a' + 3) \<Longrightarrow> ld32 m a = ld32 m' a'"
  by (simp add: ld32_def)

lemma st32_other: "4 \<le> unat (b - a) \<Longrightarrow> st32 m a v b = m b"
  by (auto simp: st32_def)

lemma memcpy_ld32:
  assumes "k + 4 \<le> n" and "n \<le> 2 ^ 32" and "d = s \<or> n \<le> unat (d - s)"
  shows "ld32 (memcpy m d s n) (d + word_of_nat k) = ld32 m (s + word_of_nat k)"
proof -
  have byte: "memcpy m d s n (d + word_of_nat j) = m (s + word_of_nat j)" if "j < n" for j
  proof -
    have "unat (word_of_nat j :: u32) = j"
      using that assms(2) by (simp add: unat_of_nat)
    with that show ?thesis using memcpy_spec [OF assms(2,3), of m "d + word_of_nat j"] by simp
  qed
  have "memcpy m d s n (d + word_of_nat k + word_of_nat j) = m (s + word_of_nat k + word_of_nat j)"
    if "j < 4" for j
    using byte [of "k + j"] that assms(1) by (simp add: add.assoc)
  from this [of 0] this [of 1] this [of 2] this [of 3] show ?thesis
    by (intro ld32_cong) simp_all
qed

section \<open>MESSAGE\<close>

text \<open>
  The C union holds three overlaid structs; every user of it goes through the
  \<open>mess3\<close> view, so the record has its fields.  On the i386 ABI the 64-bit
  members are 4-aligned: \<open>source\<close> is at offset 0, \<open>type\<close> at 4, \<open>m3i1\<close> to \<open>m3i4\<close>
  at 8, 12, 16, 20, \<open>m3l1\<close> and \<open>m3l2\<close> at 24 and 32, the pointers at 40 and 44;
  the whole is 48 bytes.
\<close>

record message =
  source :: int
  msgtype :: int
  m3i1 :: int
  m3i2 :: int
  m3i3 :: int
  m3i4 :: int
  m3l1 :: u64
  m3l2 :: u64
  m3p1 :: u32
  m3p2 :: u32

abbreviation (input) MESSAGE_SIZE :: nat where "MESSAGE_SIZE \<equiv> 48"

definition ld64 :: "memory \<Rightarrow> u32 \<Rightarrow> u64" where
  "ld64 m a = ucast (ld32 m a) OR push_bit 32 (ucast (ld32 m (a + 4)))"

definition read_message :: "memory \<Rightarrow> u32 \<Rightarrow> message" where
  "read_message m a =
    \<lparr>source = sint (ld32 m a), msgtype = sint (ld32 m (a + 4)),
     m3i1 = sint (ld32 m (a + 8)), m3i2 = sint (ld32 m (a + 12)),
     m3i3 = sint (ld32 m (a + 16)), m3i4 = sint (ld32 m (a + 20)),
     m3l1 = ld64 m (a + 24), m3l2 = ld64 m (a + 32),
     m3p1 = ld32 m (a + 40), m3p2 = ld32 m (a + 44)\<rparr>"

text \<open>\<open>reset_msg\<close> of \<open>kernel/proc.c\<close>.\<close>

definition reset_msg :: "memory \<Rightarrow> u32 \<Rightarrow> memory" where
  "reset_msg m p = memset m p 0 MESSAGE_SIZE"

text \<open>Copying the 48 bytes of a message copies the message.\<close>

lemma read_message_memcpy:
  assumes "d = s \<or> MESSAGE_SIZE \<le> unat (d - s)"
  shows "read_message (memcpy m d s MESSAGE_SIZE) d = read_message m s"
proof -
  have w: "ld32 (memcpy m d s MESSAGE_SIZE) (d + word_of_nat k) = ld32 m (s + word_of_nat k)"
    if "k + 4 \<le> MESSAGE_SIZE" for k
    using memcpy_ld32 [OF that _ assms] by simp
  show ?thesis
    using w [of 0] w [of 4] w [of 8] w [of 12] w [of 16] w [of 20] w [of 24] w [of 28]
      w [of 32] w [of 36] w [of 40] w [of 44]
    by (simp add: read_message_def ld64_def add.assoc)
qed

text \<open>Storing the sender's number in a message changes its \<open>source\<close> only.\<close>

lemma ld32_st32_other:
  assumes "4 \<le> k" and "k + 4 \<le> 48"
  shows "ld32 (st32 m a v) (a + word_of_nat k) = ld32 m (a + word_of_nat k)"
proof -
  have "st32 m a v (a + word_of_nat k + word_of_nat j) = m (a + word_of_nat k + word_of_nat j)" if "j < 4" for j
  proof (rule st32_other)
    have eq: "a + word_of_nat k + word_of_nat j - a = (word_of_nat (k + j) :: u32)" by simp
    have "k + j < 2 ^ 32" using that assms by simp
    then have "unat (word_of_nat (k + j) :: u32) = k + j" by (simp add: unat_of_nat del: of_nat_add)
    then show "4 \<le> unat (a + word_of_nat k + word_of_nat j - a)" using assms(1) eq by simp
  qed
  from this [of 0] this [of 1] this [of 2] this [of 3] show ?thesis by (intro ld32_cong) simp_all
qed

lemma read_message_stamp: "read_message (st32 m a v) a = (read_message m a)\<lparr>source := sint v\<rparr>"
  using ld32_st32_other [of 4 m a v] ld32_st32_other [of 8 m a v] ld32_st32_other [of 12 m a v]
    ld32_st32_other [of 16 m a v] ld32_st32_other [of 20 m a v] ld32_st32_other [of 24 m a v]
    ld32_st32_other [of 28 m a v] ld32_st32_other [of 32 m a v] ld32_st32_other [of 36 m a v]
    ld32_st32_other [of 40 m a v] ld32_st32_other [of 44 m a v]
  by (simp add: read_message_def ld64_def add.assoc)

lemma sint_pid: "p < 37 \<Longrightarrow> sint (word_of_nat p :: u32) = int p"
  by (simp add: signed_of_nat signed_take_bit_int_eq_self)

section \<open>Strings\<close>

text \<open>\<open>strcpy\<close>: the characters and a 0.\<close>

definition store_str :: "memory \<Rightarrow> u32 \<Rightarrow> string \<Rightarrow> memory" where
  "store_str st off t = (\<lambda>a. if unat (a - off) < length t then of_char (t ! unat (a - off))
     else if unat (a - off) = length t then 0 else st a)"

end
