(* ===== verification/Protect.thy ===== *)
theory Protect
  imports Memory
begin

unbundle bit_operations_syntax

text \<open>
  Segment descriptors and interrupt gates: the structs of
  \<open>include/sys/protect.h\<close> and the routines of \<open>kernel/protect.c\<close> that build
  and read them.
\<close>

record descriptor =
  limit_low :: u16
  base_low :: u16
  base_mid :: u8
  attr1 :: u8
  limit_high_attr2 :: u8
  base_high :: u8

record gate =
  offset_low :: u16
  selector :: u16
  dcount :: u8
  attr :: u8
  offset_high :: u16

abbreviation (input) INDEX_LDT_C :: nat where "INDEX_LDT_C \<equiv> 0"
abbreviation (input) INDEX_LDT_RW :: nat where "INDEX_LDT_RW \<equiv> 1"
abbreviation (input) SELECTOR_KERNEL_CS :: u16 where "SELECTOR_KERNEL_CS \<equiv> 0x08"
abbreviation (input) SELECTOR_KERNEL_DS :: u16 where "SELECTOR_KERNEL_DS \<equiv> 0x10"
abbreviation (input) SELECTOR_LDT_FIRST :: u16 where "SELECTOR_LDT_FIRST \<equiv> 0x28"
abbreviation (input) INDEX_LDT_FIRST :: nat where "INDEX_LDT_FIRST \<equiv> 5"
abbreviation (input) DA_32 :: "'a::numeral" where "DA_32 \<equiv> 0x4000"
abbreviation (input) DA_LIMIT_4K :: "'a::numeral" where "DA_LIMIT_4K \<equiv> 0x8000"
abbreviation (input) DA_C :: "'a::numeral" where "DA_C \<equiv> 0x98"
abbreviation (input) DA_DRW :: "'a::numeral" where "DA_DRW \<equiv> 0x92"
abbreviation (input) DA_LDT :: "'a::numeral" where "DA_LDT \<equiv> 0x82"
abbreviation (input) DA_386IGate :: "'a::numeral" where "DA_386IGate \<equiv> 0x8E"
abbreviation (input) LIMIT_4K_SHIFT :: nat where "LIMIT_4K_SHIFT \<equiv> 12"

definition init_descriptor :: "u32 \<Rightarrow> u32 \<Rightarrow> u16 \<Rightarrow> descriptor" where
  "init_descriptor base limit attribute =
    \<lparr>limit_low = ucast (limit AND 0xffff),
     base_low = ucast (base AND 0xffff),
     base_mid = ucast (drop_bit 16 base AND 0xff),
     attr1 = ucast (attribute AND 0xff),
     limit_high_attr2 = ucast ((drop_bit 16 limit AND 0xf) OR (ucast (drop_bit 8 attribute) AND 0xf0)),
     base_high = ucast (drop_bit 24 base AND 0xff)\<rparr>"

definition init_idt_desc :: "u8 \<Rightarrow> u32 \<Rightarrow> u8 \<Rightarrow> gate" where
  "init_idt_desc desc_type base privilege =
    \<lparr>offset_low = ucast (base AND 0xffff),
     selector = SELECTOR_KERNEL_CS,
     dcount = 0,
     attr = desc_type OR push_bit 5 privilege,
     offset_high = ucast (drop_bit 16 base AND 0xffff)\<rparr>"

text \<open>The base address of a descriptor, as \<open>seg2linear\<close> and \<open>ldt_seg_linear\<close> assemble it.\<close>

definition desc_base :: "descriptor \<Rightarrow> u32" where
  "desc_base d = push_bit 24 (ucast (base_high d)) OR push_bit 16 (ucast (base_mid d))
     OR ucast (base_low d)"

definition seg2linear :: "(nat \<Rightarrow> descriptor) \<Rightarrow> u16 \<Rightarrow> u32" where
  "seg2linear gdt seg = desc_base (gdt (unat (drop_bit 3 seg)))"

text \<open>The macro \<open>reassembly\<close> of \<open>protect.h\<close>, on 32-bit values.\<close>

definition reassembly :: "u32 \<Rightarrow> nat \<Rightarrow> u32 \<Rightarrow> nat \<Rightarrow> u32 \<Rightarrow> u32" where
  "reassembly high high_shift mid mid_shift low =
     push_bit high_shift high + push_bit mid_shift mid + low"

section \<open>Descriptors say what they were built from\<close>

lemma desc_base_init [simp]: "desc_base (init_descriptor base limit a) = base"
proof (rule bit_word_eqI)
  fix n assume "n < LENGTH(32)"
  then consider "n < 16" | "16 \<le> n" "n < 24" | "24 \<le> n" "n < 32"
    by fastforce
  then show "bit (desc_base (init_descriptor base limit a)) n = bit base n"
    by cases (auto simp: desc_base_def init_descriptor_def word_and_masks bit_simps)
qed

lemma reassembly_base:
  "reassembly (ucast (base_high d)) 24 (ucast (base_mid d)) 16 (ucast (base_low d)) = desc_base d"
proof -
  have hm: "push_bit 24 (ucast h) AND push_bit 16 (ucast m) = (0::u32)" for h m :: u8
    by (rule bit_word_eqI) (auto simp: bit_simps dest: bit_imp_le_length)
  have hml: "(push_bit 24 (ucast h) OR push_bit 16 (ucast m)) AND ucast l = (0::u32)"
    for h m :: u8 and l :: u16
    by (rule bit_word_eqI) (auto simp: bit_simps dest: bit_imp_le_length)
  show ?thesis
    by (simp only: reassembly_def desc_base_def disjunctive_add_eq_or hm hml or.assoc)
qed

text \<open>The 20-bit limit, the granularity bit and the attribute byte.\<close>

definition desc_limit :: "descriptor \<Rightarrow> u32" where
  "desc_limit d = reassembly 0 0 (ucast (limit_high_attr2 d) AND 0xF) 16 (ucast (limit_low d))"

definition desc_4k :: "descriptor \<Rightarrow> bool" where
  "desc_4k d \<longleftrightarrow> (ucast (limit_high_attr2 d) :: u32) AND (0x8000 div 256) \<noteq> 0"

lemma desc_limit_init: "limit < 2 ^ 20 \<Longrightarrow> desc_limit (init_descriptor base limit a) = limit"
proof -
  let ?d = "init_descriptor base limit a"
  assume lim: "limit < 2 ^ 20"
  have le: "\<not> bit limit n" if "20 \<le> n" for n
    using bit_word_less_exp [OF lim, of n] that by auto
  have "push_bit 16 (ucast h AND 0xF) AND ucast l = (0::u32)" for h :: u8 and l :: u16
    by (rule bit_word_eqI) (auto simp: bit_simps dest: bit_imp_le_length)
  then have "desc_limit ?d = push_bit 16 (ucast (limit_high_attr2 ?d) AND 0xF) OR ucast (limit_low ?d)"
    by (simp add: desc_limit_def reassembly_def disjunctive_add_eq_or)
  also have "\<dots> = limit"
  proof (rule bit_word_eqI)
    fix n assume "n < LENGTH(32)"
    then consider "n < 16" | "16 \<le> n" "n < 20" | "20 \<le> n"
      by fastforce
    then show "bit (push_bit 16 (ucast (limit_high_attr2 ?d) AND 0xF) OR ucast (limit_low ?d) :: u32) n
        = bit limit n"
      by cases (auto simp: init_descriptor_def word_and_masks bit_simps bit_240_iff
          bit_240_nat_iff bit_240_int_iff le)
  qed
  finally show ?thesis .
qed

lemma desc_4k_init: "desc_4k (init_descriptor base limit a) \<longleftrightarrow> bit a 15"
  by (simp add: desc_4k_def init_descriptor_def word_and_masks word_and_flags bit_simps bit_240_iff
          bit_240_nat_iff bit_240_int_iff)

lemma attr1_init: "attr1 (init_descriptor base limit a) = ucast a"
  by (rule bit_word_eqI) (auto simp: init_descriptor_def word_and_masks bit_simps)

text \<open>A gate holds its handler's address, its privilege in bits 5 and 6.\<close>

lemma gate_offset:
  "push_bit 16 (ucast (offset_high (init_idt_desc t base p))) OR
   (ucast (offset_low (init_idt_desc t base p)) :: u32) = base"
proof (rule bit_word_eqI)
  fix n assume "n < LENGTH(32)"
  then consider "n < 16" | "16 \<le> n" "n < 32"
    by fastforce
  then show "bit (push_bit 16 (ucast (offset_high (init_idt_desc t base p))) OR
      (ucast (offset_low (init_idt_desc t base p)) :: u32)) n = bit base n"
    by cases (auto simp: init_idt_desc_def word_and_masks bit_simps)
qed

end
