(* ===== verification/Proc.thy ===== *)
theory Proc
  imports Protect
begin

unbundle bit_operations_syntax

text \<open>
  The process table (\<open>include/sys/proc.h\<close>), the kernel's global state
  (\<open>include/sys/global.h\<close>) and the address translation of \<open>kernel/proc.c\<close>.
  A pointer to a process is its index in \<open>proc_table\<close> (so \<open>proc2pid\<close> is the
  identity), a null process pointer is \<open>None\<close>; \<open>proc_pid\<close> is the field \<open>pid\<close>.  Tables are functions from
  their index; the loops of the code bound the indices.
\<close>

record stackframe =
  gs :: u32
  fs :: u32
  es :: u32
  ds :: u32
  edi :: u32
  esi :: u32
  ebp :: u32
  kernel_esp :: u32
  ebx :: u32
  edx :: u32
  ecx :: u32
  eax :: u32
  retaddr :: u32
  eip :: u32
  cs :: u32
  eflags :: u32
  esp :: u32
  ss :: u32

record proc =
  regs :: stackframe
  ldt_sel :: u16
  ldts :: "nat \<Rightarrow> descriptor"
  ticks :: int
  priority :: int
  proc_pid :: u32
  p_name :: string
  p_flags :: u32
  p_msg :: u32
  p_recvfrom :: int
  p_sendto :: int
  has_int_msg :: int
  q_sending :: "nat option"
  next_sending :: "nat option"
  nr_tty :: int
  p_parent :: int
  exit_status :: int
  filp :: "nat \<Rightarrow> nat option"

type_synonym proctab = "nat \<Rightarrow> proc"

record kstate =
  proc_table :: proctab
  p_proc_ready :: nat
  sys_ticks :: int
  k_reenter :: int
  key_pressed :: int
  mem :: memory

text \<open>Updating one process.\<close>

definition upd_proc :: "nat \<Rightarrow> (proc \<Rightarrow> proc) \<Rightarrow> proctab \<Rightarrow> proctab" where
  "upd_proc i f pt = pt(i := f (pt i))"

lemma upd_proc_same [simp]: "upd_proc i f pt i = f (pt i)"
  by (simp add: upd_proc_def)

lemma upd_proc_other [simp]: "i \<noteq> j \<Longrightarrow> upd_proc i f pt j = pt j"
  by (simp add: upd_proc_def)

lemma upd_proc_apply: "upd_proc i f pt j = (if j = i then f (pt i) else pt j)"
  by (simp add: upd_proc_def)

text \<open>A flag test \<open>p->p_flags & f\<close>.\<close>

definition has_flag :: "proc \<Rightarrow> u32 \<Rightarrow> bool" where
  "has_flag p f \<longleftrightarrow> p_flags p AND f \<noteq> 0"

section \<open>Address translation\<close>

definition ldt_seg_linear :: "proc \<Rightarrow> nat \<Rightarrow> u32" where
  "ldt_seg_linear p idx = desc_base (ldts p idx)"

definition va2la :: "proctab \<Rightarrow> nat \<Rightarrow> u32 \<Rightarrow> u32 kres" where
  "va2la pt pid va =
     (let seg_base = ldt_seg_linear (pt pid) INDEX_LDT_RW;
          la = seg_base + va
      in ensure (pid < NR_TASKS + NR_NATIVE_PROCS \<longrightarrow> la = va) (Assertion ''kernel/proc.c'' 227)
           (Inr la))"

text \<open>The linear address without the check, and the condition under which the check holds.\<close>

definition lin :: "proctab \<Rightarrow> nat \<Rightarrow> u32 \<Rightarrow> u32" where
  "lin pt pid va = ldt_seg_linear (pt pid) INDEX_LDT_RW + va"

definition flat_tasks :: "proctab \<Rightarrow> bool" where
  "flat_tasks pt \<longleftrightarrow> (\<forall>p < NR_TASKS + NR_NATIVE_PROCS. ldt_seg_linear (pt p) INDEX_LDT_RW = 0)"

lemma va2la_lin: "flat_tasks pt \<Longrightarrow> va2la pt pid va = Inr (lin pt pid va)"
  by (auto simp: va2la_def lin_def flat_tasks_def Let_def)

lemma va2la_Inr: "va2la pt pid va = Inr la \<Longrightarrow> la = lin pt pid va"
  by (auto simp: va2la_def lin_def Let_def split: if_splits)

lemma lin_upd [simp]:
  "(\<And>p. ldts (f p) = ldts p) \<Longrightarrow> lin (upd_proc i f pt) pid va = lin pt pid va"
  by (simp add: lin_def ldt_seg_linear_def upd_proc_apply)

lemma flat_tasks_cong:
  "(\<And>p. ldts (pt' p) = ldts (pt p)) \<Longrightarrow> flat_tasks pt' = flat_tasks pt"
  by (simp add: flat_tasks_def ldt_seg_linear_def)

end
