(* ===== verification/Sched.thy ===== *)
theory Sched
  imports Proc
begin

text \<open>
  The scheduler, \<open>schedule\<close> of \<open>kernel/proc.c\<close>: it picks the runnable
  process (\<open>p_flags == 0\<close>) with the most ticks left, the first of them in the
  table; when none has ticks left it gives every runnable process its priority
  in ticks and looks again, for ever if need be.
\<close>

section \<open>The code\<close>

text \<open>The \<open>for\<close> loop over \<open>FIRST_PROC .. LAST_PROC\<close>: steps left, index, \<open>greatest_ticks\<close>, \<open>p_proc_ready\<close>.\<close>

fun sched_scan :: "proctab \<Rightarrow> nat \<Rightarrow> nat \<Rightarrow> int \<Rightarrow> nat \<Rightarrow> int \<times> nat" where
  "sched_scan pt 0 p greatest_ticks ready = (greatest_ticks, ready)"
| "sched_scan pt (Suc n) p greatest_ticks ready =
     (if p_flags (pt p) = 0 \<and> ticks (pt p) > greatest_ticks
      then sched_scan pt n (Suc p) (ticks (pt p)) p
      else sched_scan pt n (Suc p) greatest_ticks ready)"

definition reset_ticks :: "proctab \<Rightarrow> proctab" where
  "reset_ticks pt = (\<lambda>p. if p < NPROC \<and> p_flags (pt p) = 0
     then (pt p)\<lparr>ticks := priority (pt p)\<rparr> else pt p)"

partial_function (option) sched_loop :: "proctab \<Rightarrow> nat \<Rightarrow> (proctab \<times> nat) option" where
  "sched_loop pt ready =
     (case sched_scan pt NPROC 0 0 ready of (greatest_ticks, ready') \<Rightarrow>
        if greatest_ticks \<noteq> 0 then Some (pt, ready')
        else sched_loop (reset_ticks pt) ready')"

definition schedule :: "kstate \<Rightarrow> kstate option" where
  "schedule s = map_option (\<lambda>(pt, ready). s\<lparr>proc_table := pt, p_proc_ready := ready\<rparr>)
     (sched_loop (proc_table s) (p_proc_ready s))"

section \<open>What a scan finds\<close>

abbreviation (input) runnable :: "proctab \<Rightarrow> nat \<Rightarrow> bool" where
  "runnable pt p \<equiv> p < NPROC \<and> p_flags (pt p) = 0"

lemma sched_scan_mono: "sched_scan pt n p g r = (g', r') \<Longrightarrow> g \<le> g'"
  by (induction pt n p g r rule: sched_scan.induct) (force split: if_splits)+

lemma sched_scan_bound:
  "sched_scan pt n p g r = (g', r') \<Longrightarrow> p \<le> q \<Longrightarrow> q < p + n \<Longrightarrow> p_flags (pt q) = 0 \<Longrightarrow>
   ticks (pt q) \<le> g'"
proof (induction pt n p g r rule: sched_scan.induct)
  case (1 pt p g r)
  then show ?case by simp
next
  case (2 pt n p g r)
  show ?case
  proof (cases "q = p")
    case True
    with 2(3,6) show ?thesis by (auto dest!: sched_scan_mono split: if_splits)
  next
    case False
    with 2 show ?thesis by (auto split: if_splits)
  qed
qed

lemma sched_scan_found:
  "sched_scan pt n p g r = (g', r') \<Longrightarrow>
   (g' = g \<and> r' = r) \<or>
   (g < g' \<and> p \<le> r' \<and> r' < p + n \<and> p_flags (pt r') = 0 \<and> ticks (pt r') = g' \<and>
    (\<forall>q. p \<le> q \<and> q < r' \<and> p_flags (pt q) = 0 \<longrightarrow> ticks (pt q) < g'))"
proof (induction pt n p g r rule: sched_scan.induct)
  case (1 pt p g r)
  then show ?case by simp
next
  case (2 pt n p g r)
  show ?case
  proof (cases "p_flags (pt p) = 0 \<and> ticks (pt p) > g")
    case True
    with 2(1,3) have "(g' = ticks (pt p) \<and> r' = p) \<or>
        (ticks (pt p) < g' \<and> Suc p \<le> r' \<and> r' < Suc p + n \<and> p_flags (pt r') = 0 \<and> ticks (pt r') = g' \<and>
         (\<forall>q. Suc p \<le> q \<and> q < r' \<and> p_flags (pt q) = 0 \<longrightarrow> ticks (pt q) < g'))"
      by simp
    with True show ?thesis by (auto simp: le_eq_less_or_eq [of p] Suc_le_eq)
  next
    case False
    with 2(2,3) have "(g' = g \<and> r' = r) \<or>
        (g < g' \<and> Suc p \<le> r' \<and> r' < Suc p + n \<and> p_flags (pt r') = 0 \<and> ticks (pt r') = g' \<and>
         (\<forall>q. Suc p \<le> q \<and> q < r' \<and> p_flags (pt q) = 0 \<longrightarrow> ticks (pt q) < g'))"
      by simp
    with False show ?thesis by (auto simp: le_eq_less_or_eq [of p] Suc_le_eq)
  qed
qed

lemma sched_scan_zero_iff:
  assumes "sched_scan pt NPROC 0 0 r = (g, r')"
  shows "g = 0 \<longleftrightarrow> (\<forall>q. runnable pt q \<longrightarrow> ticks (pt q) \<le> 0)"
  using sched_scan_found [OF assms] sched_scan_bound [OF assms] by fastforce

section \<open>Termination and the choice\<close>

lemma reset_ticks_flags [simp]: "p_flags (reset_ticks pt q) = p_flags (pt q)"
  and reset_ticks_priority [simp]: "priority (reset_ticks pt q) = priority (pt q)"
  by (simp_all add: reset_ticks_def)

lemma reset_ticks_runnable: "runnable pt q \<Longrightarrow> ticks (reset_ticks pt q) = priority (pt q)"
  by (simp add: reset_ticks_def)

text \<open>Some runnable process can be given ticks.\<close>

definition can_schedule :: "proctab \<Rightarrow> bool" where
  "can_schedule pt \<longleftrightarrow> (\<exists>q. runnable pt q \<and> (0 < ticks (pt q) \<or> 0 < priority (pt q)))"

lemma sched_loop_cases:
  assumes "can_schedule pt"
  shows "\<exists>pt' r'. sched_loop pt r = Some (pt', r') \<and> (pt' = pt \<or> pt' = reset_ticks pt) \<and>
    runnable pt' r' \<and> 0 < ticks (pt' r') \<and>
    (\<forall>q. runnable pt' q \<longrightarrow> ticks (pt' q) \<le> ticks (pt' r')) \<and>
    (\<forall>q < r'. runnable pt' q \<longrightarrow> ticks (pt' q) < ticks (pt' r'))"
proof -
  have stop: "sched_loop pt1 r1 = Some (pt1, r2) \<and> runnable pt1 r2 \<and> 0 < ticks (pt1 r2) \<and>
      (\<forall>q. runnable pt1 q \<longrightarrow> ticks (pt1 q) \<le> ticks (pt1 r2)) \<and>
      (\<forall>q < r2. runnable pt1 q \<longrightarrow> ticks (pt1 q) < ticks (pt1 r2))"
    if "sched_scan pt1 NPROC 0 0 r1 = (g, r2)" "g \<noteq> 0" for pt1 r1 g r2
    using sched_scan_found [OF that(1)] sched_scan_bound [OF that(1)] that
    by (auto simp: sched_loop.simps [of pt1 r1])
  obtain g r1 where scan: "sched_scan pt NPROC 0 0 r = (g, r1)" by (metis surj_pair)
  show ?thesis
  proof (cases "g = 0")
    case False
    from stop [OF scan this] show ?thesis by blast
  next
    case True
    obtain g2 r2 where scan2: "sched_scan (reset_ticks pt) NPROC 0 0 r1 = (g2, r2)"
      by (metis surj_pair)
    from True sched_scan_zero_iff [OF scan] assms
    obtain q where "runnable pt q" "0 < priority (pt q)"
      by (auto simp: can_schedule_def not_less [symmetric])
    then have "g2 \<noteq> 0"
      using sched_scan_zero_iff [OF scan2] by (auto simp: reset_ticks_runnable intro!: exI [of _ q])
    from stop [OF scan2 this] True scan show ?thesis
      by (auto simp: sched_loop.simps [of pt r])
  qed
qed

lemma sched_loop_only_if: "sched_loop pt r = Some x \<Longrightarrow> can_schedule pt"
proof (rule sched_loop.raw_induct [where P = "\<lambda>pt r x. can_schedule pt"])
  fix loop pt r x
  assume IH: "\<And>pt r x. loop pt r = Some x \<Longrightarrow> can_schedule pt"
    and eq: "(case sched_scan pt NPROC 0 0 r of (g, r') \<Rightarrow>
       if g \<noteq> 0 then Some (pt, r') else loop (reset_ticks pt) r') = Some x"
  obtain g r1 where scan: "sched_scan pt NPROC 0 0 r = (g, r1)" by (metis surj_pair)
  show "can_schedule pt"
  proof (cases "g = 0")
    case True
    with eq scan have "can_schedule (reset_ticks pt)" by (auto intro: IH)
    then show ?thesis by (auto simp: can_schedule_def reset_ticks_runnable)
  next
    case False
    with sched_scan_zero_iff [OF scan] show ?thesis by (auto simp: can_schedule_def not_le)
  qed
qed

text \<open>\<open>schedule\<close> changes nothing but ticks and the ready pointer.\<close>

lemma reset_ticks_frame [frame_simps]:
  "p_msg (reset_ticks pt q) = p_msg (pt q)" "p_recvfrom (reset_ticks pt q) = p_recvfrom (pt q)"
  "p_sendto (reset_ticks pt q) = p_sendto (pt q)" "has_int_msg (reset_ticks pt q) = has_int_msg (pt q)"
  "q_sending (reset_ticks pt q) = q_sending (pt q)"
  "next_sending (reset_ticks pt q) = next_sending (pt q)"
  "ldts (reset_ticks pt q) = ldts (pt q)" "p_parent (reset_ticks pt q) = p_parent (pt q)"
  "filp (reset_ticks pt q) = filp (pt q)" "exit_status (reset_ticks pt q) = exit_status (pt q)"
  by (simp_all add: reset_ticks_def)

lemma schedule_max:
  assumes "can_schedule (proc_table s)"
  obtains pt r where "schedule s = Some (s\<lparr>proc_table := pt, p_proc_ready := r\<rparr>)"
    and "pt = proc_table s \<or> pt = reset_ticks (proc_table s)"
    and "runnable pt r" and "0 < ticks (pt r)"
    and "\<forall>q. runnable pt q \<longrightarrow> ticks (pt q) \<le> ticks (pt r)"
    and "\<forall>q < r. runnable pt q \<longrightarrow> ticks (pt q) < ticks (pt r)"
proof -
  obtain pt r where h: "sched_loop (proc_table s) (p_proc_ready s) = Some (pt, r)"
    and rest: "pt = proc_table s \<or> pt = reset_ticks (proc_table s)" "runnable pt r" "0 < ticks (pt r)"
      "\<forall>q. runnable pt q \<longrightarrow> ticks (pt q) \<le> ticks (pt r)"
      "\<forall>q < r. runnable pt q \<longrightarrow> ticks (pt q) < ticks (pt r)"
    using sched_loop_cases [OF assms] by blast
  have "schedule s = Some (s\<lparr>proc_table := pt, p_proc_ready := r\<rparr>)"
    by (simp add: schedule_def h)
  from that [OF this rest] show thesis .
qed

lemma schedule_only_if: "schedule s = Some s' \<Longrightarrow> can_schedule (proc_table s)"
  by (auto simp: schedule_def dest: sched_loop_only_if)

lemma schedule_cases:
  assumes "can_schedule (proc_table s)"
  obtains pt r where "schedule s = Some (s\<lparr>proc_table := pt, p_proc_ready := r\<rparr>)"
    and "pt = proc_table s \<or> pt = reset_ticks (proc_table s)"
    and "runnable pt r" and "0 < ticks (pt r)"
  using schedule_max [OF assms] by metis

end
