(* ===== verification/Ipc.thy ===== *)
theory Ipc
  imports Sched
begin

unbundle bit_operations_syntax

text \<open>
  Synchronous message passing, \<open>kernel/proc.c\<close>: \<open>msg_send\<close>, \<open>msg_receive\<close>,
  \<open>deadlock\<close>, \<open>inform_int\<close> and the system call \<open>sys_sendrec\<close>.  A process that
  waits to send hangs in the linked list of its destination (\<open>q_sending\<close>,
  \<open>next_sending\<close>) until it is received from.  Assertions carry their line.
\<close>

abbreviation (input) A :: "nat \<Rightarrow> kfail" where "A \<equiv> Assertion ''kernel/proc.c''"

section \<open>Blocking\<close>

definition block :: "kstate \<Rightarrow> nat \<Rightarrow> kstate kres" where
  "block s p = ensure (p_flags (proc_table s p) \<noteq> 0) (A 181) (run_loop (schedule s) Inr)"

definition unblock :: "kstate \<Rightarrow> nat \<Rightarrow> kstate kres" where
  "unblock s p = ensure (p_flags (proc_table s p) = 0) (A 186) (Inr s)"

section \<open>Deadlock detection\<close>

text \<open>
  The \<open>while(1)\<close> walk along \<open>p_sendto\<close>: whether it comes back to \<open>src\<close>.
\<close>

partial_function (option) deadlock_walk :: "proctab \<Rightarrow> nat \<Rightarrow> nat \<Rightarrow> bool option" where
  "deadlock_walk pt src p =
     (if has_flag (pt p) SENDING
      then if p_sendto (pt p) = int src then Some True
           else deadlock_walk pt src (nat (p_sendto (pt p)))
      else Some False)"

text \<open>
  On a cycle the code prints its members.  The first name goes out with \<open>printl\<close>, the
  next with \<open>printf\<close> (line 199), which is \<open>write\<close>: a second \<open>sendrec\<close>, from inside the
  kernel, where \<open>k_reenter\<close> is 1, one more than in the call that runs.  \<open>sys_sendrec\<close>
  asserts that it is 0 (line 276), so that \<open>return 1\<close> is never reached.
\<close>

definition trace_cycle :: "proctab \<Rightarrow> nat \<Rightarrow> bool kres" where
  "trace_cycle pt dest = ensure (p_msg (pt dest) \<noteq> 0) (A 197) (Inl (A 276))"

definition deadlock :: "proctab \<Rightarrow> nat \<Rightarrow> nat \<Rightarrow> bool kres option" where
  "deadlock pt src dest =
     map_option (\<lambda>cycle. if cycle then trace_cycle pt dest else Inr False) (deadlock_walk pt src dest)"

section \<open>The queue of senders\<close>

partial_function (option) queue_last :: "proctab \<Rightarrow> nat \<Rightarrow> nat option" where
  "queue_last pt p =
     (case next_sending (pt p) of None \<Rightarrow> Some p | Some q \<Rightarrow> queue_last pt q)"

definition enqueue_sender :: "proctab \<Rightarrow> nat \<Rightarrow> nat \<Rightarrow> proctab option" where
  "enqueue_sender pt dest sender =
     map_option (upd_proc sender (\<lambda>p. p\<lparr>next_sending := None\<rparr>))
      (case q_sending (pt dest) of
         Some h \<Rightarrow> map_option (\<lambda>l. upd_proc l (\<lambda>p. p\<lparr>next_sending := Some sender\<rparr>) pt) (queue_last pt h)
       | None \<Rightarrow> Some (upd_proc dest (\<lambda>p. p\<lparr>q_sending := Some sender\<rparr>) pt))"

text \<open>
  The search for the node before \<open>src\<close>: \<open>prev\<close> and \<open>p\<close> are the loop variables,
  \<open>p\<close> is not null at the start (line 123).
\<close>

partial_function (option) find_prev :: "proctab \<Rightarrow> nat \<Rightarrow> nat option \<Rightarrow> nat \<Rightarrow> nat option option" where
  "find_prev pt src prev p =
     (if p = src then Some prev
      else case next_sending (pt p) of
        None \<Rightarrow> Some (Some p)
      | Some q \<Rightarrow> find_prev pt src (Some p) q)"

definition unlink_sender :: "proctab \<Rightarrow> nat \<Rightarrow> nat \<Rightarrow> nat option \<Rightarrow> proctab kres" where
  "unlink_sender pt who from prev =
     (if q_sending (pt who) = Some from
      then ensure (prev = None) (A 146)
        (Inr (upd_proc from (\<lambda>p. p\<lparr>next_sending := None\<rparr>)
               (upd_proc who (\<lambda>p. p\<lparr>q_sending := next_sending (pt from)\<rparr>) pt)))
      else (case prev of
          None \<Rightarrow> Inl (A 150)
        | Some pr \<Rightarrow> Inr (upd_proc from (\<lambda>p. p\<lparr>next_sending := None\<rparr>)
               (upd_proc pr (\<lambda>p. p\<lparr>next_sending := next_sending (pt from)\<rparr>) pt))))"

section \<open>Sending\<close>

definition deliver :: "kstate \<Rightarrow> nat \<Rightarrow> nat \<Rightarrow> u32 \<Rightarrow> kstate kres" where
  "deliver s sender dest m =
    (let pt = proc_table s in
     ensure (p_msg (pt dest) \<noteq> 0) (A 30) (
     ensure (m \<noteq> 0) (A 31) (
     rbind (va2la pt dest (p_msg (pt dest))) (\<lambda>dst.
     rbind (va2la pt sender m) (\<lambda>src.
     let s1 = s\<lparr>mem := memcpy (mem s) dst src MESSAGE_SIZE,
                proc_table := upd_proc dest (\<lambda>p. p\<lparr>p_msg := 0,
                  p_flags := p_flags p AND NOT RECEIVING, p_recvfrom := NO_TASK\<rparr>) pt\<rparr> in
     rbind (unblock s1 dest) (\<lambda>s2.
     let d = proc_table s2 dest; q = proc_table s2 sender in
     ensure (p_flags d = 0) (A 40) (
     ensure (p_msg d = 0) (A 41) (
     ensure (p_recvfrom d = NO_TASK) (A 42) (
     ensure (p_sendto d = NO_TASK) (A 43) (
     ensure (p_flags q = 0) (A 44) (
     ensure (p_msg q = 0) (A 45) (
     ensure (p_recvfrom q = NO_TASK) (A 46) (
     ensure (p_sendto q = NO_TASK) (A 47) (
     Inr s2))))))))))))))"

definition wait_to_send :: "kstate \<Rightarrow> nat \<Rightarrow> nat \<Rightarrow> u32 \<Rightarrow> kstate kres" where
  "wait_to_send s sender dest m =
    (let pt1 = upd_proc sender (\<lambda>p. p\<lparr>p_flags := p_flags p OR SENDING\<rparr>) (proc_table s) in
     ensure (p_flags (pt1 sender) = SENDING) (A 50) (
     let pt2 = upd_proc sender (\<lambda>p. p\<lparr>p_sendto := int dest, p_msg := m\<rparr>) pt1 in
     run_loop (enqueue_sender pt2 dest sender) (\<lambda>pt3.
     rbind (block (s\<lparr>proc_table := pt3\<rparr>) sender) (\<lambda>s4.
     let q = proc_table s4 sender in
     ensure (p_flags q = SENDING) (A 68) (
     ensure (p_msg q \<noteq> 0) (A 69) (
     ensure (p_recvfrom q = NO_TASK) (A 70) (
     ensure (p_sendto q = int dest) (A 71) (
     Inr s4))))))))"

text \<open>
  \<open>proc_table + dest\<close> is only inside the table for a destination below
  \<open>NPROC\<close>; \<open>sys_sendrec\<close> lets \<open>ANY\<close> and \<open>INTERRUPT\<close> through.
\<close>

definition msg_send :: "kstate \<Rightarrow> nat \<Rightarrow> int \<Rightarrow> u32 \<Rightarrow> kstate kres" where
  "msg_send s current dest m =
    (let pt = proc_table s; d = nat dest in
     ensure (int current \<noteq> dest) (A 23) (
     ensure (0 \<le> dest \<and> dest < NPROC) (Bad_access ''proc_table'') (
     run_loop (deadlock pt current d) (\<lambda>r. rbind r (\<lambda>dl.
     if dl then Inl (Panic ''>>DEADLOCK<<'')
     else if has_flag (pt d) RECEIVING \<and>
             (p_recvfrom (pt d) = int current \<or> p_recvfrom (pt d) = ANY)
     then deliver s current d m
     else wait_to_send s current d m)))))"

section \<open>Receiving\<close>

text \<open>The message of an interrupt: zero but for \<open>source\<close> and \<open>type\<close>.\<close>

definition int_message :: "memory \<Rightarrow> u32 \<Rightarrow> memory" where
  "int_message m la =
     st32 (st32 (memset m la 0 MESSAGE_SIZE) la (word_of_int INTERRUPT)) (la + 4) (word_of_int HARD_INT)"

definition receive_interrupt :: "kstate \<Rightarrow> nat \<Rightarrow> u32 \<Rightarrow> kstate kres" where
  "receive_interrupt s who m =
     ensure (m \<noteq> 0) (A 90) (
     rbind (va2la (proc_table s) who m) (\<lambda>la.
     let s1 = s\<lparr>mem := int_message (mem s) la,
                proc_table := upd_proc who (\<lambda>p. p\<lparr>has_int_msg := 0\<rparr>) (proc_table s)\<rparr>;
         w = proc_table s1 who in
     ensure (p_flags w = 0) (A 97) (
     ensure (p_msg w = 0) (A 98) (
     ensure (p_sendto w = NO_TASK) (A 99) (
     ensure (has_int_msg w = 0) (A 100) (
     Inr s1))))))"

definition rendezvous_asserts :: "proctab \<Rightarrow> nat \<Rightarrow> nat \<Rightarrow> nat \<Rightarrow> unit kres" where
  "rendezvous_asserts pt who from l =
     ensure (p_flags (pt who) = 0) (A l) (
     ensure (p_msg (pt who) = 0) (A (l + 1)) (
     ensure (p_recvfrom (pt who) = NO_TASK) (A (l + 2)) (
     ensure (p_sendto (pt who) = NO_TASK) (A (l + 3)) (
     ensure (q_sending (pt who) \<noteq> None) (A (l + 4)) (
     ensure (p_flags (pt from) = SENDING) (A (l + 5)) (
     ensure (p_msg (pt from) \<noteq> 0) (A (l + 6)) (
     ensure (p_recvfrom (pt from) = NO_TASK) (A (l + 7)) (
     ensure (p_sendto (pt from) = int who) (A (l + 8)) (
     Inr ())))))))))"

text \<open>
  Who to receive from: the head of the queue for \<open>ANY\<close>, the named process if
  it waits to send to us; \<open>None\<close> if there is no such sender.
\<close>

definition select_sender :: "proctab \<Rightarrow> nat \<Rightarrow> int \<Rightarrow> (nat \<times> nat option) option kres" where
  "select_sender pt who src =
    (if src = ANY then
       (case q_sending (pt who) of
          None \<Rightarrow> Inr None
        | Some f \<Rightarrow> rbind (rendezvous_asserts pt who f 108) (\<lambda>_. Inr (Some (f, None))))
     else if 0 \<le> src \<and> src < NPROC then
       (let f = nat src in
        if has_flag (pt f) SENDING \<and> p_sendto (pt f) = int who then
          (case q_sending (pt who) of
             None \<Rightarrow> Inl (A 123)
           | Some h \<Rightarrow> run_loop (find_prev pt f None h) (\<lambda>prev.
               rbind (rendezvous_asserts pt who f 133) (\<lambda>_. Inr (Some (f, prev)))))
        else Inr None)
     else Inr None)"

definition take_message :: "kstate \<Rightarrow> nat \<Rightarrow> nat \<Rightarrow> nat option \<Rightarrow> u32 \<Rightarrow> kstate kres" where
  "take_message s who from prev m =
     rbind (unlink_sender (proc_table s) who from prev) (\<lambda>pt1.
     ensure (m \<noteq> 0) (A 154) (
     ensure (p_msg (pt1 from) \<noteq> 0) (A 155) (
     rbind (va2la pt1 who m) (\<lambda>dst.
     rbind (va2la pt1 from (p_msg (pt1 from))) (\<lambda>src.
     unblock (s\<lparr>mem := memcpy (mem s) dst src MESSAGE_SIZE,
                proc_table := upd_proc from (\<lambda>p. p\<lparr>p_msg := 0, p_sendto := NO_TASK,
                  p_flags := p_flags p AND NOT SENDING\<rparr>) pt1\<rparr>) from)))))"

text \<open>
  Line 171 reads \<open>assert(p_who_wanna_recv->p_flags = RECEIVING)\<close>: an assignment,
  which always passes and drops any other flag.
\<close>

definition wait_to_receive :: "kstate \<Rightarrow> nat \<Rightarrow> int \<Rightarrow> u32 \<Rightarrow> kstate kres" where
  "wait_to_receive s who src m =
    (let pt1 = upd_proc who (\<lambda>p. p\<lparr>p_flags := p_flags p OR RECEIVING, p_msg := m,
                 p_recvfrom := src\<rparr>) (proc_table s) in
     rbind (block (s\<lparr>proc_table := pt1\<rparr>) who) (\<lambda>s2.
     let pt3 = upd_proc who (\<lambda>p. p\<lparr>p_flags := RECEIVING\<rparr>) (proc_table s2); w = pt3 who in
     ensure (p_flags w \<noteq> 0) (A 171) (
     ensure (p_msg w \<noteq> 0) (A 172) (
     ensure (p_recvfrom w \<noteq> NO_TASK) (A 173) (
     ensure (p_sendto w = NO_TASK) (A 174) (
     ensure (has_int_msg w = 0) (A 175) (
     Inr (s2\<lparr>proc_table := pt3\<rparr>))))))))"

definition msg_receive :: "kstate \<Rightarrow> nat \<Rightarrow> int \<Rightarrow> u32 \<Rightarrow> kstate kres" where
  "msg_receive s current src m =
    (let pt = proc_table s in
     ensure (int current \<noteq> src) (A 82) (
     if has_int_msg (pt current) \<noteq> 0 \<and> (src = ANY \<or> src = INTERRUPT)
     then receive_interrupt s current m
     else rbind (select_sender pt current src) (\<lambda>sel.
       case sel of
         Some (from, prev) \<Rightarrow> take_message s current from prev m
       | None \<Rightarrow> wait_to_receive s current src m)))"

section \<open>The system call and the interrupt side\<close>

definition sys_sendrec :: "kstate \<Rightarrow> int \<Rightarrow> int \<Rightarrow> u32 \<Rightarrow> nat \<Rightarrow> kstate kres" where
  "sys_sendrec s fn src_dest m p =
     ensure (k_reenter s = 0) (A 276) (
     ensure ((0 \<le> src_dest \<and> src_dest < NPROC) \<or> src_dest = ANY \<or> src_dest = INTERRUPT) (A 277) (
     rbind (va2la (proc_table s) p m) (\<lambda>mla.
     let s1 = s\<lparr>mem := st32 (mem s) mla (word_of_nat p)\<rparr> in
     ensure (int p \<noteq> src_dest) (A 285) (
     if fn = SEND then msg_send s1 p src_dest m
     else if fn = RECEIVE then msg_receive s1 p src_dest m
     else Inl (Panic ''{sys_sendrec} invalid function'')))))"

definition inform_int :: "kstate \<Rightarrow> nat \<Rightarrow> kstate kres" where
  "inform_int s task_nr =
    (let p = proc_table s task_nr in
     if has_flag p RECEIVING \<and> (p_recvfrom p = INTERRUPT \<or> p_recvfrom p = ANY) then
       (let s1 = s\<lparr>mem := st32 (st32 (mem s) (p_msg p) (word_of_int INTERRUPT))
                      (p_msg p + 4) (word_of_int HARD_INT),
                  proc_table := upd_proc task_nr (\<lambda>p. p\<lparr>p_msg := 0, has_int_msg := 0,
                    p_flags := p_flags p AND NOT RECEIVING, p_recvfrom := NO_TASK\<rparr>) (proc_table s)\<rparr>;
            q = proc_table s1 task_nr in
        ensure (p_flags q = 0) (A 313) (
        rbind (unblock s1 task_nr) (\<lambda>s2.
        ensure (p_flags q = 0) (A 316) (
        ensure (p_msg q = 0) (A 317) (
        ensure (p_recvfrom q = NO_TASK) (A 318) (
        ensure (p_sendto q = NO_TASK) (A 319) (
        Inr s2)))))))
     else Inr (s\<lparr>proc_table := upd_proc task_nr (\<lambda>p. p\<lparr>has_int_msg := 1\<rparr>) (proc_table s)\<rparr>))"

section \<open>The clock interrupt (\<open>kernel/clock.c\<close>)\<close>

definition clock_handler :: "kstate \<Rightarrow> kstate kres" where
  "clock_handler s =
    (let s1 = s\<lparr>sys_ticks := (if sys_ticks s + 1 \<ge> MAX_TICKS then 0 else sys_ticks s + 1)\<rparr>;
         r = p_proc_ready s1;
         s2 = (if ticks (proc_table s1 r) \<noteq> 0
               then s1\<lparr>proc_table := upd_proc r (\<lambda>p. p\<lparr>ticks := ticks p - 1\<rparr>) (proc_table s1)\<rparr>
               else s1) in
     rbind (if key_pressed s2 \<noteq> 0 then inform_int s2 TASK_TTY else Inr s2) (\<lambda>s3.
     if k_reenter s3 \<noteq> 0 then Inr s3
     else if 0 < ticks (proc_table s3 (p_proc_ready s3)) then Inr s3
     else run_loop (schedule s3) Inr))"

end
