(* ===== verification/IpcQueue.thy ===== *)
theory IpcQueue
  imports Ipc
begin

unbundle bit_operations_syntax

text \<open>
  The linked lists of senders seen as lists of process numbers, and what the
  queue operations of \<open>msg_send\<close> and \<open>msg_receive\<close> do to them.
\<close>

section \<open>A linked list of processes\<close>

fun chain :: "proctab \<Rightarrow> nat option \<Rightarrow> nat list \<Rightarrow> bool" where
  "chain pt h [] = (h = None)"
| "chain pt h (x # xs) = (h = Some x \<and> chain pt (next_sending (pt x)) xs)"

lemma chain_cong:
  "(\<And>x. x \<in> set xs \<Longrightarrow> next_sending (pt' x) = next_sending (pt x)) \<Longrightarrow> chain pt' h xs = chain pt h xs"
  by (induction xs arbitrary: h) auto

lemma chain_head: "chain pt h xs \<Longrightarrow> h = (case xs of [] \<Rightarrow> None | x # _ \<Rightarrow> Some x)"
  by (cases xs) auto

lemma queue_last_chain: "chain pt (Some h) xs \<Longrightarrow> queue_last pt h = Some (last xs)"
proof (induction xs arbitrary: h)
  case Nil
  then show ?case by simp
next
  case (Cons x xs)
  show ?case
  proof (cases xs)
    case Nil
    with Cons.prems show ?thesis by (simp add: queue_last.simps [of pt x])
  next
    case (Cons y ys)
    with Cons.prems Cons.IH [of y] show ?thesis by (simp add: queue_last.simps [of pt x])
  qed
qed

lemma chain_append_last:
  assumes "chain pt h xs" and "xs \<noteq> []" and "distinct xs" and "z \<notin> set xs"
    and "next_sending (pt' (last xs)) = Some z" and "next_sending (pt' z) = None"
    and "\<And>x. x \<in> set xs \<Longrightarrow> x \<noteq> last xs \<Longrightarrow> next_sending (pt' x) = next_sending (pt x)"
  shows "chain pt' h (xs @ [z])"
  using assms
proof (induction xs arbitrary: h)
  case Nil
  then show ?case by simp
next
  case (Cons x xs)
  show ?case
  proof (cases "xs = []")
    case True
    with Cons.prems show ?thesis by simp
  next
    case False
    then have "x \<noteq> last xs" using Cons.prems(3) by auto
    with False Cons.prems have "next_sending (pt' x) = next_sending (pt x)" by simp
    moreover have "chain pt' (next_sending (pt x)) (xs @ [z])"
      using Cons.prems False by (intro Cons.IH) auto
    ultimately show ?thesis using Cons.prems(1) by simp
  qed
qed

lemma find_prev_chain:
  "chain pt (Some h) (xs @ f # ys) \<Longrightarrow> f \<notin> set xs \<Longrightarrow>
   find_prev pt f prev h = Some (if xs = [] then prev else Some (last xs))"
proof (induction xs arbitrary: h prev)
  case Nil
  then show ?case by (simp add: find_prev.simps [of pt f prev])
next
  case (Cons x xs)
  from Cons.prems have h: "h = x" and ne: "x \<noteq> f"
    and rest: "chain pt (next_sending (pt x)) (xs @ f # ys)" by auto
  then obtain y where y: "next_sending (pt x) = Some y" by (cases xs) auto
  with rest Cons have "find_prev pt f (Some x) y = Some (if xs = [] then Some x else Some (last xs))"
    by auto
  with h ne y show ?case by (simp add: find_prev.simps [of pt f prev])
qed

lemma chain_unlink:
  assumes "chain pt h (xs @ f # ys)" and "xs \<noteq> []" and "distinct (xs @ f # ys)"
    and "next_sending (pt' (last xs)) = next_sending (pt f)"
    and "\<And>x. x \<in> set (xs @ ys) \<Longrightarrow> x \<noteq> last xs \<Longrightarrow> next_sending (pt' x) = next_sending (pt x)"
  shows "chain pt' h (xs @ ys)"
  using assms
proof (induction xs arbitrary: h)
  case Nil
  then show ?case by simp
next
  case (Cons x xs)
  show ?case
  proof (cases "xs = []")
    case True
    with Cons.prems have "chain pt (next_sending (pt f)) ys" by simp
    moreover have "chain pt' (next_sending (pt f)) ys = chain pt (next_sending (pt f)) ys"
      using Cons.prems True by (intro chain_cong) auto
    ultimately show ?thesis using Cons.prems True by simp
  next
    case False
    then have "x \<noteq> last xs" using Cons.prems(3) by auto
    with False Cons.prems have "next_sending (pt' x) = next_sending (pt x)" by simp
    moreover have "chain pt' (next_sending (pt x)) (xs @ ys)"
      using Cons.prems False by (intro Cons.IH) auto
    ultimately show ?thesis using Cons.prems(1) by simp
  qed
qed

section \<open>The queues of all processes\<close>

type_synonym queues = "nat \<Rightarrow> nat list"

definition repr :: "proctab \<Rightarrow> queues \<Rightarrow> bool" where
  "repr pt Q \<longleftrightarrow>
     (\<forall>d < NPROC. chain pt (q_sending (pt d)) (Q d) \<and> distinct (Q d)) \<and>
     (\<forall>d < NPROC. \<forall>p. p \<in> set (Q d) \<longleftrightarrow>
        p < NPROC \<and> has_flag (pt p) SENDING \<and> p_sendto (pt p) = int d)"

lemma reprD:
  assumes "repr pt Q" and "d < NPROC"
  shows repr_chain: "chain pt (q_sending (pt d)) (Q d)"
    and repr_distinct: "distinct (Q d)"
    and repr_mem: "p \<in> set (Q d) \<longleftrightarrow> p < NPROC \<and> has_flag (pt p) SENDING \<and> p_sendto (pt p) = int d"
  using assms by (simp_all add: repr_def)

text \<open>Two tables that agree on all but some fields.\<close>

definition links_only :: "proctab \<Rightarrow> proctab \<Rightarrow> bool" where
  "links_only pt pt' \<longleftrightarrow>
     (\<forall>x. pt' x = (pt x)\<lparr>q_sending := q_sending (pt' x), next_sending := next_sending (pt' x)\<rparr>)"

lemma links_only_fields:
  assumes "links_only pt pt'"
  shows "p_flags (pt' x) = p_flags (pt x)" "p_msg (pt' x) = p_msg (pt x)"
    "p_recvfrom (pt' x) = p_recvfrom (pt x)" "p_sendto (pt' x) = p_sendto (pt x)"
    "has_int_msg (pt' x) = has_int_msg (pt x)" "ldts (pt' x) = ldts (pt x)"
    "ticks (pt' x) = ticks (pt x)" "priority (pt' x) = priority (pt x)"
    "p_parent (pt' x) = p_parent (pt x)" "filp (pt' x) = filp (pt x)"
  by (subst assms [unfolded links_only_def, rule_format], simp)+

text \<open>Queues are disjoint: a sender waits in one queue.\<close>

lemma repr_disjoint:
  "repr pt Q \<Longrightarrow> d < NPROC \<Longrightarrow> d' < NPROC \<Longrightarrow> p \<in> set (Q d) \<Longrightarrow> p \<in> set (Q d') \<Longrightarrow> d = d'"
  by (auto simp: repr_mem)

lemma repr_cong:
  assumes "\<And>x. next_sending (pt' x) = next_sending (pt x)" "\<And>x. q_sending (pt' x) = q_sending (pt x)"
    and "\<And>x. p_flags (pt' x) = p_flags (pt x)" "\<And>x. p_sendto (pt' x) = p_sendto (pt x)"
  shows "repr pt' Q = repr pt Q"
proof -
  have "chain pt' h xs = chain pt h xs" for h xs by (rule chain_cong) (simp add: assms)
  then show ?thesis by (simp add: repr_def has_flag_def assms)
qed

section \<open>Enqueueing\<close>

text \<open>
  \<open>enqueue_sender\<close> appends the sender to the destination's queue and touches
  only links; the sender must have been marked as sending to \<open>dest\<close> (table
  \<open>pt2\<close>) and must not have been waiting before (table \<open>pt\<close>).
\<close>

lemma enqueue_repr:
  assumes Q: "repr pt Q" and d: "dest < NPROC" and snd: "sender < NPROC" "sender \<noteq> dest"
    and idle: "\<not> has_flag (pt sender) SENDING"
    and pt2: "pt2 = upd_proc sender f pt"
    and f: "\<And>p. p_flags (f p) = SENDING" "\<And>p. p_sendto (f p) = int dest"
      "\<And>p. next_sending (f p) = next_sending p" "\<And>p. q_sending (f p) = q_sending p"
  obtains pt3 where "enqueue_sender pt2 dest sender = Some pt3"
    and "repr pt3 (Q(dest := Q dest @ [sender]))" and "links_only pt2 pt3"
proof -
  let ?qs = "Q dest"
  have links: "next_sending (pt2 x) = next_sending (pt x)" "q_sending (pt2 x) = q_sending (pt x)" for x
    by (simp_all add: pt2 upd_proc_apply f)
  have chains: "chain pt2 (q_sending (pt2 e)) (Q e)" if "e < NPROC" for e
  proof -
    have "chain pt2 h xs = chain pt h xs" for h xs by (rule chain_cong) (simp add: links)
    then show ?thesis using repr_chain [OF Q that] by (simp add: links)
  qed
  have notin: "sender \<notin> set (Q e)" if "e < NPROC" for e
    using repr_mem [OF Q that] idle by simp
  have mem2: "p < NPROC \<and> has_flag (pt2 p) SENDING \<and> p_sendto (pt2 p) = int e \<longleftrightarrow>
      p \<in> set ((Q(dest := ?qs @ [sender])) e)" if "e < NPROC" for p e
    using repr_mem [OF Q that, of p] notin [OF that] snd idle
    by (auto simp: pt2 upd_proc_apply has_flag_def f)
  define node where "node = (case q_sending (pt2 dest) of None \<Rightarrow> dest | Some h \<Rightarrow> last ?qs)"
  define pt3 where "pt3 = upd_proc sender (\<lambda>p. p\<lparr>next_sending := None\<rparr>)
    (if q_sending (pt2 dest) = None then upd_proc dest (\<lambda>p. p\<lparr>q_sending := Some sender\<rparr>) pt2
     else upd_proc (last ?qs) (\<lambda>p. p\<lparr>next_sending := Some sender\<rparr>) pt2)"
  have enq: "enqueue_sender pt2 dest sender = Some pt3"
    using chains [OF d] by (auto simp: enqueue_sender_def pt3_def queue_last_chain split: option.splits)
  have only: "links_only pt2 pt3"
    by (simp add: links_only_def pt3_def upd_proc_apply)
  have "chain pt3 (q_sending (pt3 e)) ((Q(dest := ?qs @ [sender])) e) \<and>
      distinct ((Q(dest := ?qs @ [sender])) e)" if e: "e < NPROC" for e
  proof (cases "e = dest")
    case False
    have "next_sending (pt3 x) = next_sending (pt2 x)" if "x \<in> set (Q e)" for x
    proof -
      have "x \<noteq> sender" using notin [OF e] that by auto
      moreover have "x \<noteq> last ?qs" if "?qs \<noteq> []"
        using repr_disjoint [OF Q e d \<open>x \<in> set (Q e)\<close>] False that by auto
      moreover have "?qs \<noteq> []" if "q_sending (pt2 dest) \<noteq> None"
        using chains [OF d] that by auto
      ultimately show ?thesis by (auto simp: pt3_def upd_proc_apply)
    qed
    then have "chain pt3 h (Q e) = chain pt2 h (Q e)" for h by (rule chain_cong)
    moreover have "q_sending (pt3 e) = q_sending (pt2 e)"
      using False by (auto simp: pt3_def upd_proc_apply)
    ultimately show ?thesis using False chains [OF e] repr_distinct [OF Q e] by simp
  next
    case True
    have dist: "distinct (?qs @ [sender])" using repr_distinct [OF Q d] notin [OF d] by simp
    have "chain pt3 (q_sending (pt3 dest)) (?qs @ [sender])"
    proof (cases "q_sending (pt2 dest)")
      case None
      then have "?qs = []" using chains [OF d] chain_head by (cases ?qs) auto
      with None snd show ?thesis by (simp add: pt3_def upd_proc_apply)
    next
      case (Some h)
      then have ne: "?qs \<noteq> []" using chains [OF d] by auto
      have "chain pt3 (Some h) (?qs @ [sender])"
        using chains [OF d] Some ne repr_distinct [OF Q d] notin [OF d]
        by (intro chain_append_last [of pt2]) (auto simp: pt3_def upd_proc_apply)
      moreover have "q_sending (pt3 dest) = Some h"
        using Some snd by (simp add: pt3_def upd_proc_apply)
      ultimately show ?thesis by simp
    qed
    with True dist show ?thesis by simp
  qed
  moreover have "has_flag (pt3 p) SENDING = has_flag (pt2 p) SENDING" "p_sendto (pt3 p) = p_sendto (pt2 p)" for p
    using links_only_fields [OF only] by (simp_all add: has_flag_def)
  ultimately have "repr pt3 (Q(dest := ?qs @ [sender]))"
    unfolding repr_def using mem2 by simp
  with enq only that show thesis by blast
qed

section \<open>Unlinking\<close>

lemma unlink_repr:
  assumes Q: "repr pt Q" and w: "who < NPROC" and qs: "Q who = xs @ from # ys"
    and prev: "prev = (if xs = [] then None else Some (last xs))"
  obtains pt1 where "unlink_sender pt who from prev = Inr pt1"
    and "links_only pt pt1"
    and "\<And>pt2. (\<And>x. next_sending (pt2 x) = next_sending (pt1 x)) \<Longrightarrow>
        (\<And>x. q_sending (pt2 x) = q_sending (pt1 x)) \<Longrightarrow>
        (\<And>x. x \<noteq> from \<Longrightarrow> p_flags (pt2 x) = p_flags (pt x)) \<Longrightarrow>
        (\<And>x. x \<noteq> from \<Longrightarrow> p_sendto (pt2 x) = p_sendto (pt x)) \<Longrightarrow>
        \<not> has_flag (pt2 from) SENDING \<Longrightarrow> repr pt2 (Q(who := xs @ ys))"
proof -
  note ch = repr_chain [OF Q w, unfolded qs] and dist = repr_distinct [OF Q w, unfolded qs]
  have head: "q_sending (pt who) = Some from \<longleftrightarrow> xs = []"
    using chain_head [OF ch] dist by (cases xs) auto
  define pt1 where "pt1 = upd_proc from (\<lambda>p. p\<lparr>next_sending := None\<rparr>)
    (if xs = [] then upd_proc who (\<lambda>p. p\<lparr>q_sending := next_sending (pt from)\<rparr>) pt
     else upd_proc (last xs) (\<lambda>p. p\<lparr>next_sending := next_sending (pt from)\<rparr>) pt)"
  have un: "unlink_sender pt who from prev = Inr pt1"
    by (simp add: unlink_sender_def head prev pt1_def)
  have only: "links_only pt pt1"
    by (simp add: links_only_def pt1_def upd_proc_apply)
  have fromQ: "from \<in> set (Q who)" by (simp add: qs)
  have "repr pt2 (Q(who := xs @ ys))"
    if nx: "\<And>x. next_sending (pt2 x) = next_sending (pt1 x)"
      and qx: "\<And>x. q_sending (pt2 x) = q_sending (pt1 x)"
      and fx: "\<And>x. x \<noteq> from \<Longrightarrow> p_flags (pt2 x) = p_flags (pt x)"
      and sx: "\<And>x. x \<noteq> from \<Longrightarrow> p_sendto (pt2 x) = p_sendto (pt x)"
      and nf: "\<not> has_flag (pt2 from) SENDING" for pt2
  proof -
    have "chain pt2 (q_sending (pt2 e)) ((Q(who := xs @ ys)) e) \<and> distinct ((Q(who := xs @ ys)) e)"
      if e: "e < NPROC" for e
    proof (cases "e = who")
      case False
      have "next_sending (pt2 x) = next_sending (pt x)" if x: "x \<in> set (Q e)" for x
      proof -
        have "x \<notin> set (Q who)" using repr_disjoint [OF Q e w x] False by auto
        then have "x \<noteq> from" "xs \<noteq> [] \<Longrightarrow> x \<noteq> last xs" by (auto simp: qs)
        then show ?thesis by (auto simp: nx pt1_def upd_proc_apply)
      qed
      then have "chain pt2 h (Q e) = chain pt h (Q e)" for h by (rule chain_cong)
      moreover have "q_sending (pt2 e) = q_sending (pt e)"
        using False by (auto simp: qx pt1_def upd_proc_apply)
      ultimately show ?thesis using False repr_chain [OF Q e] repr_distinct [OF Q e] by simp
    next
      case True
      have "chain pt2 (q_sending (pt2 who)) (xs @ ys)"
      proof (cases "xs = []")
        case xs: True
        with ch have "chain pt (next_sending (pt from)) ys" by simp
        moreover have "chain pt2 h ys = chain pt h ys" for h
          using dist xs by (intro chain_cong) (auto simp: nx pt1_def upd_proc_apply)
        moreover have "q_sending (pt2 who) = next_sending (pt from)"
          using xs by (simp add: qx pt1_def upd_proc_apply)
        ultimately show ?thesis using xs by simp
      next
        case ne: False
        then have lf: "last xs \<noteq> from" using dist by auto
        have "chain pt2 (q_sending (pt who)) (xs @ ys)"
          using ch ne dist lf
          by - (rule chain_unlink [of pt _ xs "from"]; auto simp: nx pt1_def upd_proc_apply)
        moreover have "q_sending (pt2 who) = q_sending (pt who)"
          using ne by (simp add: qx pt1_def upd_proc_apply)
        ultimately show ?thesis by simp
      qed
      with True dist show ?thesis by simp
    qed
    moreover have "p \<in> set ((Q(who := xs @ ys)) e) \<longleftrightarrow>
        p < NPROC \<and> has_flag (pt2 p) SENDING \<and> p_sendto (pt2 p) = int e" if e: "e < NPROC" for p e
    proof (cases "p = from")
      case True
      have "from \<notin> set (Q e)" if "e \<noteq> who" using repr_disjoint [OF Q e w _ fromQ] that by auto
      with True nf dist show ?thesis by auto
    next
      case False
      then have "has_flag (pt2 p) SENDING = has_flag (pt p) SENDING" "p_sendto (pt2 p) = p_sendto (pt p)"
        using fx sx by (simp_all add: has_flag_def)
      moreover have "p \<in> set ((Q(who := xs @ ys)) e) \<longleftrightarrow> p \<in> set (Q e)"
        using False by (cases "e = who") (simp_all add: qs)
      ultimately show ?thesis using repr_mem [OF Q e, of p] by simp
    qed
    ultimately show ?thesis unfolding repr_def by simp
  qed
  with un only that show thesis by blast
qed

end
