(* ===== verification/IpcInv.thy ===== *)
theory IpcInv
  imports IpcQueue
begin

unbundle bit_operations_syntax

text \<open>
  The invariant of the process table under message passing, and what each
  operation of \<open>Ipc\<close> does to a table that satisfies it.
\<close>

section \<open>The invariant\<close>

text \<open>
  What the assertions of \<open>msg_send\<close> and \<open>msg_receive\<close> expect of one process.
\<close>

definition proc_ok :: "proc \<Rightarrow> bool" where
  "proc_ok p \<longleftrightarrow>
     (p_flags p = 0 \<longrightarrow> p_msg p = 0 \<and> p_recvfrom p = NO_TASK \<and> p_sendto p = NO_TASK) \<and>
     (has_flag p SENDING \<longrightarrow> p_flags p = SENDING \<and> p_msg p \<noteq> 0 \<and> p_recvfrom p = NO_TASK \<and>
        0 \<le> p_sendto p \<and> p_sendto p < NPROC) \<and>
     (has_flag p RECEIVING \<longrightarrow> p_msg p \<noteq> 0 \<and> p_recvfrom p \<noteq> NO_TASK \<and> p_sendto p = NO_TASK)"

text \<open>\<open>p\<close> waits to send to \<open>q\<close>.\<close>

definition waits_for :: "proctab \<Rightarrow> (nat \<times> nat) set" where
  "waits_for pt = {(p, q). p < NPROC \<and> has_flag (pt p) SENDING \<and> p_sendto (pt p) = int q}"

text \<open>
  \<open>TestA\<close>, process 6, is a bare \<open>while(1)\<close> and never leaves the runnable state,
  so \<open>schedule\<close> always has a choice.
\<close>

abbreviation (input) TEST_A :: nat where "TEST_A \<equiv> 6"

definition idle_ok :: "proctab \<Rightarrow> bool" where
  "idle_ok pt \<longleftrightarrow> p_flags (pt TEST_A) = 0 \<and> 0 < priority (pt TEST_A)"

definition ipc_inv :: "proctab \<Rightarrow> queues \<Rightarrow> bool" where
  "ipc_inv pt Q \<longleftrightarrow> flat_tasks pt \<and> (\<forall>p < NPROC. proc_ok (pt p)) \<and> repr pt Q \<and>
     acyclic (waits_for pt) \<and> idle_ok pt"

lemma ipc_invD:
  assumes "ipc_inv pt Q"
  shows inv_flat: "flat_tasks pt" and inv_ok: "p < NPROC \<Longrightarrow> proc_ok (pt p)"
    and inv_repr: "repr pt Q" and inv_acyclic: "acyclic (waits_for pt)" and inv_idle: "idle_ok pt"
  using assms by (simp_all add: ipc_inv_def)

lemma idle_can_schedule: "idle_ok pt \<Longrightarrow> can_schedule pt"
  unfolding idle_ok_def can_schedule_def by (intro exI [of _ TEST_A]) simp

text \<open>The scheduler keeps it: it only rewrites ticks.\<close>

lemma ipc_inv_reset [simp]: "ipc_inv (reset_ticks pt) Q = ipc_inv pt Q"
proof -
  have "repr (reset_ticks pt) Q = repr pt Q" by (rule repr_cong) (simp_all add: frame_simps)
  moreover have "flat_tasks (reset_ticks pt) = flat_tasks pt"
    by (rule flat_tasks_cong) (simp add: frame_simps)
  moreover have "proc_ok (reset_ticks pt p) = proc_ok (pt p)" for p
    by (simp add: proc_ok_def has_flag_def frame_simps)
  ultimately show ?thesis
    by (simp add: ipc_inv_def waits_for_def has_flag_def idle_ok_def frame_simps)
qed

section \<open>Flags as sets of bits\<close>

lemma flag_simps [simp]:
  "has_flag p SENDING \<longleftrightarrow> bit (p_flags p) 1" "has_flag p RECEIVING \<longleftrightarrow> bit (p_flags p) 2"
  "has_flag p WAITING \<longleftrightarrow> bit (p_flags p) 3" "has_flag p HANGING \<longleftrightarrow> bit (p_flags p) 4"
  "has_flag p FREE_SLOT \<longleftrightarrow> bit (p_flags p) 5"
  by (simp_all add: has_flag_def word_and_flags)

section \<open>Deadlock detection terminates and is exact\<close>

lemma waits_for_functional: "(p, q) \<in> waits_for pt \<Longrightarrow> (p, q') \<in> waits_for pt \<Longrightarrow> q = q'"
  by (simp add: waits_for_def)

lemma finite_waits_for:
  assumes "\<And>p. p < NPROC \<Longrightarrow> proc_ok (pt p)"
  shows "finite (waits_for pt)"
proof (rule finite_subset)
  show "waits_for pt \<subseteq> {..<NPROC} \<times> {..<NPROC}"
    using assms by (fastforce simp: waits_for_def proc_ok_def)
qed simp

lemma deadlock_exact:
  assumes inv: "ipc_inv pt Q" and p: "p < NPROC"
  shows "deadlock pt src p = Some (if (p, src) \<in> (waits_for pt)\<^sup>+ then Inl (A 276) else Inr False)"
proof -
  let ?W = "waits_for pt"
  have "wf (?W\<inverse>)"
    using finite_waits_for inv_ok [OF inv] inv_acyclic [OF inv] by (intro finite_acyclic_wf_converse) auto
  then have "p < NPROC \<longrightarrow> deadlock_walk pt src p = Some ((p, src) \<in> ?W\<^sup>+)"
  proof (induction p rule: wf_induct_rule)
    case (less p)
    show ?case
    proof
      assume p: "p < NPROC"
      show "deadlock_walk pt src p = Some ((p, src) \<in> ?W\<^sup>+)"
      proof (cases "has_flag (pt p) SENDING")
        case False
        then have "(p, src) \<notin> ?W\<^sup>+" by (auto simp: waits_for_def dest: tranclD)
        with False show ?thesis by (simp add: deadlock_walk.simps [of pt src p])
      next
        case True
        with inv_ok [OF inv p] have range: "0 \<le> p_sendto (pt p)" "p_sendto (pt p) < NPROC"
          by (simp_all add: proc_ok_def)
        define q where "q = nat (p_sendto (pt p))"
        have edge: "(p, q) \<in> ?W" using p True range by (simp add: waits_for_def q_def)
        have q: "q < NPROC" using range by (simp add: q_def)
        have split: "(p, src) \<in> ?W\<^sup>+ \<longleftrightarrow> q = src \<or> (q, src) \<in> ?W\<^sup>+"
          using edge waits_for_functional [OF edge]
          by (metis r_into_trancl rtranclD trancl_into_trancl2 tranclD)
        have "deadlock_walk pt src q = Some ((q, src) \<in> ?W\<^sup>+)"
          using less.IH [of q] edge q by simp
        moreover have "p_sendto (pt p) = int src \<longleftrightarrow> q = src" using range by (auto simp: q_def)
        ultimately show ?thesis
          using True split by (simp add: deadlock_walk.simps [of pt src p] q_def [symmetric])
      qed
    qed
  qed
  moreover have "p_msg (pt p) \<noteq> 0" if "(p, src) \<in> ?W\<^sup>+"
    using that inv_ok [OF inv p] by (auto simp: waits_for_def proc_ok_def dest: tranclD)
  ultimately show ?thesis using p by (simp add: deadlock_def trace_cycle_def)
qed

section \<open>Blocking\<close>

lemma block_ok:
  assumes "p_flags (proc_table s p) \<noteq> 0" and "idle_ok (proc_table s)"
  obtains pt r where "block s p = Inr (s\<lparr>proc_table := pt, p_proc_ready := r\<rparr>)"
    and "pt = proc_table s \<or> pt = reset_ticks (proc_table s)"
    and "runnable pt r" and "0 < ticks (pt r)"
proof -
  obtain pt r where "schedule s = Some (s\<lparr>proc_table := pt, p_proc_ready := r\<rparr>)"
    and rest: "pt = proc_table s \<or> pt = reset_ticks (proc_table s)"
      "runnable pt r" "0 < ticks (pt r)"
    using schedule_cases [OF idle_can_schedule [OF assms(2)]] by blast
  with assms(1) have "block s p = Inr (s\<lparr>proc_table := pt, p_proc_ready := r\<rparr>)"
    by (simp add: block_def)
  with rest that show thesis by blast
qed

section \<open>Sending\<close>

text \<open>The receiver's entry after a delivery.\<close>

definition wake_receiver :: "proc \<Rightarrow> proc" where
  "wake_receiver p = p\<lparr>p_msg := 0, p_flags := 0, p_recvfrom := NO_TASK\<rparr>"

lemma waits_for_wake:
  "\<not> has_flag (pt d) SENDING \<Longrightarrow> waits_for (upd_proc d wake_receiver pt) = waits_for pt"
  by (auto simp: waits_for_def upd_proc_apply wake_receiver_def split: if_splits)

lemma ipc_inv_wake:
  assumes inv: "ipc_inv pt Q" and d: "d < NPROC" and fl: "p_flags (pt d) = RECEIVING"
  shows "ipc_inv (upd_proc d wake_receiver pt) Q"
proof -
  let ?pt = "upd_proc d wake_receiver pt"
  have ns: "\<not> has_flag (pt d) SENDING" using fl by simp
  have sendto: "p_sendto (pt d) = NO_TASK" using inv_ok [OF inv d] fl by (simp add: proc_ok_def)
  have "repr ?pt Q"
  proof -
    have "chain ?pt h xs = chain pt h xs" for h xs
      by (rule chain_cong) (simp add: upd_proc_apply wake_receiver_def)
    moreover have "p < NPROC \<and> has_flag (?pt p) SENDING \<and> p_sendto (?pt p) = int e \<longleftrightarrow>
        p < NPROC \<and> has_flag (pt p) SENDING \<and> p_sendto (pt p) = int e" for p e
      using ns by (simp add: upd_proc_apply wake_receiver_def)
    moreover have "q_sending (?pt e) = q_sending (pt e)" for e
      by (simp add: upd_proc_apply wake_receiver_def)
    ultimately show ?thesis using inv_repr [OF inv] by (simp only: repr_def)
  qed
  moreover have "flat_tasks ?pt = flat_tasks pt"
    by (rule flat_tasks_cong) (simp add: upd_proc_apply wake_receiver_def)
  moreover have "proc_ok (?pt p)" if "p < NPROC" for p
    using inv_ok [OF inv that] sendto
    by (auto simp: proc_ok_def upd_proc_apply wake_receiver_def)
  moreover have "idle_ok ?pt"
    using inv_idle [OF inv] fl by (auto simp: idle_ok_def upd_proc_apply wake_receiver_def)
  ultimately show ?thesis
    using inv waits_for_wake [of pt d] ns by (simp add: ipc_inv_def)
qed

lemma deliver_eq:
  assumes inv: "ipc_inv (proc_table s) Q" and snd: "sender < NPROC" "sender \<noteq> dest" and d: "dest < NPROC"
    and fs: "p_flags (proc_table s sender) = 0" and fd: "p_flags (proc_table s dest) = RECEIVING"
    and m: "m \<noteq> 0"
  shows "deliver s sender dest m = Inr (s\<lparr>
      mem := memcpy (mem s) (lin (proc_table s) dest (p_msg (proc_table s dest)))
               (lin (proc_table s) sender m) MESSAGE_SIZE,
      proc_table := upd_proc dest wake_receiver (proc_table s)\<rparr>)"
proof -
  have "proc_ok (proc_table s dest)" "proc_ok (proc_table s sender)"
    using inv_ok [OF inv] snd d by simp_all
  with fs fd m snd show ?thesis
    by (simp add: deliver_def Let_def va2la_lin [OF inv_flat [OF inv]] unblock_def proc_ok_def
        upd_proc_apply wake_receiver_def cong: if_cong) (simp add: upd_proc_def wake_receiver_def)
qed

text \<open>Two entries that differ at most in their links and ticks.\<close>

definition same_ipc :: "proc \<Rightarrow> proc \<Rightarrow> bool" where
  "same_ipc p p' \<longleftrightarrow> p_flags p' = p_flags p \<and> p_msg p' = p_msg p \<and> p_recvfrom p' = p_recvfrom p \<and>
     p_sendto p' = p_sendto p \<and> has_int_msg p' = has_int_msg p \<and> ldts p' = ldts p \<and>
     priority p' = priority p"

lemma same_ipcD:
  assumes "same_ipc p p'"
  shows "p_flags p' = p_flags p" "p_msg p' = p_msg p" "p_recvfrom p' = p_recvfrom p"
    "p_sendto p' = p_sendto p" "has_int_msg p' = has_int_msg p" "ldts p' = ldts p"
    "priority p' = priority p"
  using assms by (simp_all add: same_ipc_def)

lemma same_ipc_links: "links_only pt pt' \<Longrightarrow> same_ipc (pt x) (pt' x)"
  by (simp add: same_ipc_def links_only_fields)

lemma same_ipc_reset: "same_ipc (pt x) (reset_ticks pt x)"
  by (simp add: same_ipc_def frame_simps)

lemma same_ipc_refl [simp]: "same_ipc p p"
  by (simp add: same_ipc_def)

lemma same_ipc_trans: "same_ipc p q \<Longrightarrow> same_ipc q r \<Longrightarrow> same_ipc p r"
  by (simp add: same_ipc_def)

lemma proc_ok_same: "same_ipc p p' \<Longrightarrow> proc_ok p' = proc_ok p"
  by (simp add: same_ipc_def proc_ok_def)

text \<open>An invariant table whose entries are rewritten in links and ticks only.\<close>

lemma ipc_inv_same:
  assumes "\<And>x. same_ipc (pt x) (pt' x)" and "repr pt' Q" and "flat_tasks pt"
    and "\<And>p. p < NPROC \<Longrightarrow> proc_ok (pt p)" and "acyclic (waits_for pt)" and "idle_ok pt"
  shows "ipc_inv pt' Q"
proof -
  have "waits_for pt' = waits_for pt"
    using same_ipcD [OF assms(1)] by (simp add: waits_for_def)
  moreover have "flat_tasks pt' = flat_tasks pt"
    by (rule flat_tasks_cong) (rule same_ipcD [OF assms(1)])
  ultimately show ?thesis
    using assms proc_ok_same [OF assms(1)] same_ipcD [OF assms(1)]
    by (simp add: ipc_inv_def idle_ok_def)
qed

definition mark_sender :: "nat \<Rightarrow> u32 \<Rightarrow> proc \<Rightarrow> proc" where
  "mark_sender dest m p = p\<lparr>p_flags := SENDING, p_sendto := int dest, p_msg := m\<rparr>"

lemma waits_for_mark:
  "\<not> has_flag (pt q) SENDING \<Longrightarrow> q < NPROC \<Longrightarrow>
   waits_for (upd_proc q (mark_sender d m) pt) = insert (q, d) (waits_for pt)"
  by (auto simp: waits_for_def upd_proc_apply mark_sender_def split: if_splits)

lemma wait_to_send_ok:
  assumes inv: "ipc_inv (proc_table s) Q"
    and snd: "sender < NPROC" "sender \<noteq> dest" "sender \<noteq> TEST_A" and d: "dest < NPROC"
    and fl: "p_flags (proc_table s sender) = 0" and m: "m \<noteq> 0"
    and nocycle: "(dest, sender) \<notin> (waits_for (proc_table s))\<^sup>+"
  obtains pt r where "wait_to_send s sender dest m = Inr (s\<lparr>proc_table := pt, p_proc_ready := r\<rparr>)"
    and "ipc_inv pt (Q(dest := Q dest @ [sender]))" and "runnable pt r"
    and "same_ipc (mark_sender dest m (proc_table s sender)) (pt sender)"
    and "\<And>x. x \<noteq> sender \<Longrightarrow> same_ipc (proc_table s x) (pt x)"
proof -
  let ?pt = "proc_table s" and ?Q = "Q(dest := Q dest @ [sender])"
  define pt2 where "pt2 = upd_proc sender (mark_sender dest m) ?pt"
  have pt2': "upd_proc sender (\<lambda>p. p\<lparr>p_sendto := int dest, p_msg := m\<rparr>)
      (upd_proc sender (\<lambda>p. p\<lparr>p_flags := p_flags p OR SENDING\<rparr>) ?pt) = pt2"
    by (rule ext) (simp add: pt2_def upd_proc_apply mark_sender_def fl)
  obtain pt3 where enq: "enqueue_sender pt2 dest sender = Some pt3"
    and rep: "repr pt3 ?Q" and only: "links_only pt2 pt3"
    by (rule enqueue_repr [OF inv_repr [OF inv] d snd(1,2) _ pt2_def])
       (auto simp: mark_sender_def fl)
  have ok2: "proc_ok (pt2 p)" if "p < NPROC" for p
    using inv_ok [OF inv that] inv_ok [OF inv snd(1)] fl m d
    by (auto simp: pt2_def upd_proc_apply mark_sender_def proc_ok_def)
  have acyc: "acyclic (waits_for pt2)"
    using inv_acyclic [OF inv] nocycle snd fl
    by (auto simp: pt2_def waits_for_mark acyclic_insert rtrancl_eq_or_trancl)
  have idle2: "idle_ok pt2"
    using inv_idle [OF inv] snd(3) by (simp add: idle_ok_def pt2_def)
  have flat2: "flat_tasks pt2"
    using inv_flat [OF inv] flat_tasks_cong [of pt2 ?pt]
    by (simp add: pt2_def upd_proc_apply mark_sender_def)
  have inv3: "ipc_inv pt3 ?Q"
    by (rule ipc_inv_same [OF same_ipc_links [OF only] rep flat2 ok2 acyc idle2])
  have same3: "same_ipc (pt2 x) (pt3 x)" for x by (rule same_ipc_links [OF only])
  have "p_flags (proc_table (s\<lparr>proc_table := pt3\<rparr>) sender) \<noteq> 0"
    using same_ipcD(1) [OF same3, of sender] by (simp add: pt2_def mark_sender_def)
  then obtain pt r where blk: "block (s\<lparr>proc_table := pt3\<rparr>) sender =
      Inr (s\<lparr>proc_table := pt, p_proc_ready := r\<rparr>)"
    and which: "pt = pt3 \<or> pt = reset_ticks pt3" and run: "runnable pt r" and "0 < ticks (pt r)"
    by (rule block_ok [of "s\<lparr>proc_table := pt3\<rparr>" sender])
       (use inv_idle [OF inv3] in simp_all)
  have same: "same_ipc (pt2 x) (pt x)" for x
    using which same3 same_ipc_reset same_ipc_trans by metis
  have "wait_to_send s sender dest m = Inr (s\<lparr>proc_table := pt, p_proc_ready := r\<rparr>)"
    using same_ipcD [OF same, of sender] inv_ok [OF inv snd(1)] fl m
    by (simp add: wait_to_send_def Let_def pt2' [unfolded fl] enq blk)
       (simp add: pt2_def mark_sender_def proc_ok_def)
  moreover have "ipc_inv pt ?Q" using which inv3 by auto
  moreover have "same_ipc (mark_sender dest m (?pt sender)) (pt sender)"
    using same [of sender] by (simp add: pt2_def)
  moreover have "same_ipc (?pt x) (pt x)" if "x \<noteq> sender" for x
    using same [of x] that by (simp add: pt2_def)
  ultimately show thesis using run that by blast
qed

text \<open>
  \<open>msg_send\<close> on a table that satisfies the invariant: it stops exactly when
  the new wait would close a cycle, delivers when the destination is waiting
  for the sender, and queues the sender otherwise; no assertion of it fails.
\<close>

definition ready_for :: "proctab \<Rightarrow> nat \<Rightarrow> nat \<Rightarrow> bool" where
  "ready_for pt sender dest \<longleftrightarrow> has_flag (pt dest) RECEIVING \<and>
     (p_recvfrom (pt dest) = int sender \<or> p_recvfrom (pt dest) = ANY)"

lemma msg_send_cases:
  assumes inv: "ipc_inv (proc_table s) Q"
    and snd: "sender < NPROC" "sender \<noteq> dest" and d: "dest < NPROC"
  shows "msg_send s sender (int dest) m =
    (if (dest, sender) \<in> (waits_for (proc_table s))\<^sup>+ then Inl (A 276)
     else if ready_for (proc_table s) sender dest then deliver s sender dest m
     else wait_to_send s sender dest m)"
  using snd d deadlock_exact [OF inv d, of sender]
  by (simp add: msg_send_def Let_def ready_for_def)

end
