(* ===== verification/IpcRecv.thy ===== *)
theory IpcRecv
  imports IpcInv
begin

unbundle bit_operations_syntax

text \<open>
  The receiving side: every branch of \<open>msg_receive\<close> on a table that satisfies
  the invariant, \<open>inform_int\<close>, and the message transfer seen from both ends.
\<close>

section \<open>Taking a message from a waiting sender\<close>

definition wake_sender :: "proc \<Rightarrow> proc" where
  "wake_sender p = p\<lparr>p_msg := 0, p_sendto := NO_TASK, p_flags := 0\<rparr>"

text \<open>A receiver that passes the assertions before it takes a message.\<close>

lemma rendezvous_asserts_ok:
  assumes inv: "ipc_inv pt Q" and w: "who < NPROC" and fl: "p_flags (pt who) = 0" and frm: "from \<in> set (Q who)"
  shows "rendezvous_asserts pt who from l = Inr ()"
proof -
  have f: "from < NPROC" "has_flag (pt from) SENDING" "p_sendto (pt from) = int who"
    using repr_mem [OF inv_repr [OF inv] w, of "from"] frm by auto
  have "q_sending (pt who) \<noteq> None"
    using chain_head [OF repr_chain [OF inv_repr [OF inv] w]] frm by (cases "Q who") auto
  with f inv_ok [OF inv w] inv_ok [OF inv f(1)] fl show ?thesis
    by (simp add: rendezvous_asserts_def proc_ok_def)
qed

lemma select_any:
  assumes inv: "ipc_inv pt Q" and w: "who < NPROC" and fl: "p_flags (pt who) = 0"
  shows "select_sender pt who ANY = Inr (case Q who of [] \<Rightarrow> None | f # _ \<Rightarrow> Some (f, None))"
proof (cases "Q who")
  case Nil
  then show ?thesis
    using chain_head [OF repr_chain [OF inv_repr [OF inv] w]] by (simp add: select_sender_def)
next
  case (Cons f qs)
  then show ?thesis
    using chain_head [OF repr_chain [OF inv_repr [OF inv] w]] rendezvous_asserts_ok [OF assms, of f]
    by (simp add: select_sender_def)
qed

lemma select_named:
  assumes inv: "ipc_inv pt Q" and w: "who < NPROC" and fl: "p_flags (pt who) = 0" and f: "f < NPROC"
  shows "f \<notin> set (Q who) \<Longrightarrow> select_sender pt who (int f) = Inr None"
    and "Q who = xs @ f # ys \<Longrightarrow>
      select_sender pt who (int f) = Inr (Some (f, if xs = [] then None else Some (last xs)))"
proof -
  have mem: "f \<in> set (Q who) \<longleftrightarrow> has_flag (pt f) SENDING \<and> p_sendto (pt f) = int who"
    using repr_mem [OF inv_repr [OF inv] w, of f] f by auto
  show "select_sender pt who (int f) = Inr None" if "f \<notin> set (Q who)"
    using that mem f by (auto simp: select_sender_def Let_def)
  assume Q: "Q who = xs @ f # ys"
  have ch: "chain pt (q_sending (pt who)) (xs @ f # ys)" and dist: "f \<notin> set xs"
    using repr_chain [OF inv_repr [OF inv] w] repr_distinct [OF inv_repr [OF inv] w] by (auto simp: Q)
  obtain h where h: "q_sending (pt who) = Some h"
    using chain_head [OF ch] by (cases xs) auto
  have "find_prev pt f None h = Some (if xs = [] then None else Some (last xs))"
    using find_prev_chain [of pt h xs f ys None] ch dist h by simp
  moreover have "rendezvous_asserts pt who f 133 = Inr ()"
    using rendezvous_asserts_ok [OF inv w fl] Q by simp
  ultimately show "select_sender pt who (int f) = Inr (Some (f, if xs = [] then None else Some (last xs)))"
    using mem Q f h by (simp add: select_sender_def Let_def)
qed

lemma waits_for_mono:
  assumes "\<And>x. has_flag (pt' x) SENDING \<Longrightarrow> has_flag (pt x) SENDING \<and> p_sendto (pt' x) = p_sendto (pt x)"
    and "acyclic (waits_for pt)"
  shows "acyclic (waits_for pt')"
  by (rule acyclic_subset [OF assms(2)]) (use assms(1) in \<open>auto simp: waits_for_def\<close>)

lemma take_message_ok:
  assumes inv: "ipc_inv (proc_table s) Q" and w: "who < NPROC" and m: "m \<noteq> 0"
    and qs: "Q who = xs @ from # ys" and prev: "prev = (if xs = [] then None else Some (last xs))"
  obtains pt where "take_message s who from prev m =
      Inr (s\<lparr>mem := memcpy (mem s) (lin (proc_table s) who m)
               (lin (proc_table s) from (p_msg (proc_table s from))) MESSAGE_SIZE,
             proc_table := pt\<rparr>)"
    and "ipc_inv pt (Q(who := xs @ ys))"
    and "same_ipc (wake_sender (proc_table s from)) (pt from)"
    and "\<And>x. x \<noteq> from \<Longrightarrow> same_ipc (proc_table s x) (pt x)"
proof -
  let ?pt = "proc_table s" and ?Q = "Q(who := xs @ ys)"
  have f: "from < NPROC" "has_flag (?pt from) SENDING"
    using repr_mem [OF inv_repr [OF inv] w, of "from"] by (auto simp: qs)
  with inv_ok [OF inv f(1)] have pf: "p_flags (?pt from) = SENDING" "p_msg (?pt from) \<noteq> 0"
    "p_recvfrom (?pt from) = NO_TASK" by (simp_all add: proc_ok_def)
  obtain pt1 where un: "unlink_sender ?pt who from prev = Inr pt1" and only: "links_only ?pt pt1"
    and rep: "\<And>pt2. (\<And>x. next_sending (pt2 x) = next_sending (pt1 x)) \<Longrightarrow>
        (\<And>x. q_sending (pt2 x) = q_sending (pt1 x)) \<Longrightarrow>
        (\<And>x. x \<noteq> from \<Longrightarrow> p_flags (pt2 x) = p_flags (?pt x)) \<Longrightarrow>
        (\<And>x. x \<noteq> from \<Longrightarrow> p_sendto (pt2 x) = p_sendto (?pt x)) \<Longrightarrow>
        \<not> has_flag (pt2 from) SENDING \<Longrightarrow> repr pt2 ?Q"
  proof (rule unlink_repr [OF inv_repr [OF inv] w qs prev], goal_cases)
    case (1 pt1)
    show ?case by (rule 1(1) [OF 1(2,3,4)])
  qed
  note flds = links_only_fields [OF only]
  define pt where "pt = upd_proc from wake_sender pt1"
  have pt_eq: "upd_proc from (\<lambda>p. p\<lparr>p_msg := 0, p_sendto := NO_TASK,
      p_flags := p_flags p AND NOT SENDING\<rparr>) pt1 = pt"
    by (rule ext) (simp add: pt_def upd_proc_apply wake_sender_def flds pf)
  have same: "same_ipc (?pt x) (pt x)" if "x \<noteq> from" for x
    using that same_ipc_links [OF only] by (simp add: pt_def)
  have woken: "same_ipc (wake_sender (?pt from)) (pt from)"
    using same_ipc_links [OF only, of "from"] by (simp add: pt_def same_ipc_def wake_sender_def)
  have lin1: "lin pt1 pid va = lin ?pt pid va" for pid va
    by (simp add: lin_def ldt_seg_linear_def flds)
  have flat1: "flat_tasks pt1" using inv_flat [OF inv] flat_tasks_cong flds(6) by metis
  have "take_message s who from prev m =
      Inr (s\<lparr>mem := memcpy (mem s) (lin ?pt who m) (lin ?pt from (p_msg (?pt from))) MESSAGE_SIZE,
             proc_table := pt\<rparr>)"
    using m pf pt_eq [symmetric]
    by (simp add: take_message_def un va2la_lin [OF flat1] lin1 flds unblock_def Let_def)
  moreover have "ipc_inv pt ?Q"
  proof -
    have "repr pt ?Q"
      by (rule rep) (auto simp: pt_def upd_proc_apply wake_sender_def flds)
    moreover have "flat_tasks pt"
      using flat1 flat_tasks_cong [of pt pt1] by (simp add: pt_def upd_proc_apply wake_sender_def)
    moreover have "proc_ok (pt p)" if "p < NPROC" for p
    proof (cases "p = from")
      case True
      with proc_ok_same [OF woken] pf show ?thesis by (simp add: proc_ok_def wake_sender_def)
    qed (use proc_ok_same [OF same] inv_ok [OF inv that] in simp)
    moreover have "acyclic (waits_for pt)"
      by (rule waits_for_mono [OF _ inv_acyclic [OF inv]])
         (auto simp: pt_def upd_proc_apply wake_sender_def flds split: if_splits)
    moreover have "idle_ok pt"
      using inv_idle [OF inv] by (simp add: idle_ok_def pt_def upd_proc_apply wake_sender_def flds)
    ultimately show ?thesis by (simp add: ipc_inv_def)
  qed
  ultimately show thesis using woken same that by blast
qed

section \<open>Receiving from an interrupt\<close>

lemma ipc_inv_has_int:
  "ipc_inv (upd_proc p (\<lambda>q. q\<lparr>has_int_msg := v\<rparr>) pt) Q = ipc_inv pt Q"
proof -
  let ?pt = "upd_proc p (\<lambda>q. q\<lparr>has_int_msg := v\<rparr>) pt"
  have "repr ?pt Q = repr pt Q" by (rule repr_cong) (simp_all add: upd_proc_apply)
  moreover have "flat_tasks ?pt = flat_tasks pt" by (rule flat_tasks_cong) (simp add: upd_proc_apply)
  moreover have "proc_ok (?pt x) = proc_ok (pt x)" for x by (simp add: proc_ok_def upd_proc_apply)
  moreover have "waits_for ?pt = waits_for pt"
    by (auto simp: waits_for_def upd_proc_apply split: if_splits)
  moreover have "idle_ok ?pt = idle_ok pt" by (simp add: idle_ok_def upd_proc_apply)
  ultimately show ?thesis by (simp add: ipc_inv_def)
qed

lemma receive_interrupt_eq:
  assumes inv: "ipc_inv (proc_table s) Q" and w: "who < NPROC"
    and fl: "p_flags (proc_table s who) = 0" and m: "m \<noteq> 0"
  shows "receive_interrupt s who m = Inr (s\<lparr>mem := int_message (mem s) (lin (proc_table s) who m),
     proc_table := upd_proc who (\<lambda>p. p\<lparr>has_int_msg := 0\<rparr>) (proc_table s)\<rparr>)"
  using inv_ok [OF inv w] fl m
  by (simp add: receive_interrupt_def va2la_lin [OF inv_flat [OF inv]] Let_def proc_ok_def)

section \<open>Waiting to receive\<close>

definition mark_receiver :: "int \<Rightarrow> u32 \<Rightarrow> proc \<Rightarrow> proc" where
  "mark_receiver src m p = p\<lparr>p_flags := RECEIVING, p_msg := m, p_recvfrom := src\<rparr>"

lemma wait_to_receive_cases:
  assumes inv: "ipc_inv (proc_table s) Q" and w: "who < NPROC" "who \<noteq> TEST_A"
    and fl: "p_flags (proc_table s who) = 0" and m: "m \<noteq> 0" and src: "src \<noteq> NO_TASK"
  obtains pt r where "wait_to_receive s who src m =
      (if has_int_msg (proc_table s who) = 0
       then Inr (s\<lparr>proc_table := pt, p_proc_ready := r\<rparr>) else Inl (A 175))"
    and "ipc_inv pt Q" and "runnable pt r"
    and "same_ipc (mark_receiver src m (proc_table s who)) (pt who)"
    and "\<And>x. x \<noteq> who \<Longrightarrow> same_ipc (proc_table s x) (pt x)"
proof -
  let ?pt = "proc_table s"
  define pt1 where "pt1 = upd_proc who (mark_receiver src m) ?pt"
  have pt1': "upd_proc who (\<lambda>p. p\<lparr>p_flags := p_flags p OR RECEIVING, p_msg := m,
      p_recvfrom := src\<rparr>) ?pt = pt1"
    by (rule ext) (simp add: pt1_def upd_proc_apply mark_receiver_def fl)
  have ok: "proc_ok (?pt who)" by (rule inv_ok [OF inv w(1)])
  have inv1: "ipc_inv pt1 Q"
  proof -
    have "chain pt1 h xs = chain ?pt h xs" for h xs
      by (rule chain_cong) (simp add: pt1_def upd_proc_apply mark_receiver_def)
    moreover have "q_sending (pt1 x) = q_sending (?pt x)" for x
      by (simp add: pt1_def upd_proc_apply mark_receiver_def)
    moreover have snd: "has_flag (pt1 x) SENDING \<longleftrightarrow> has_flag (?pt x) SENDING"
      "p_sendto (pt1 x) = p_sendto (?pt x)" for x
      using fl by (simp_all add: pt1_def upd_proc_apply mark_receiver_def)
    ultimately have "repr pt1 Q" using inv_repr [OF inv] by (simp only: repr_def)
    moreover have "flat_tasks pt1"
      using inv_flat [OF inv] flat_tasks_cong [of pt1 ?pt]
      by (simp add: pt1_def upd_proc_apply mark_receiver_def)
    moreover have "proc_ok (pt1 p)" if "p < NPROC" for p
      using inv_ok [OF inv that] ok fl m src
      by (auto simp: pt1_def upd_proc_apply mark_receiver_def proc_ok_def)
    moreover have "acyclic (waits_for pt1)"
      by (rule waits_for_mono [OF _ inv_acyclic [OF inv]]) (use snd in auto)
    moreover have "idle_ok pt1"
      using inv_idle [OF inv] w(2) by (simp add: idle_ok_def pt1_def)
    ultimately show ?thesis by (simp add: ipc_inv_def)
  qed
  have "p_flags (proc_table (s\<lparr>proc_table := pt1\<rparr>) who) \<noteq> 0"
    by (simp add: pt1_def mark_receiver_def)
  then obtain pt r where blk: "block (s\<lparr>proc_table := pt1\<rparr>) who = Inr (s\<lparr>proc_table := pt, p_proc_ready := r\<rparr>)"
    and which: "pt = pt1 \<or> pt = reset_ticks pt1" and run: "runnable pt r" "0 < ticks (pt r)"
    by (rule block_ok) (use inv_idle [OF inv1] in simp_all)
  have same: "same_ipc (pt1 x) (pt x)" for x using which same_ipc_reset by auto
  have fields: "p_flags (pt who) = RECEIVING" "p_msg (pt who) = m" "p_recvfrom (pt who) = src"
    "p_sendto (pt who) = p_sendto (?pt who)" "has_int_msg (pt who) = has_int_msg (?pt who)"
    using same_ipcD [OF same, of who] by (simp_all add: pt1_def mark_receiver_def)
  have again: "upd_proc who (\<lambda>p. p\<lparr>p_flags := RECEIVING\<rparr>) pt = pt"
    by (rule ext) (simp add: upd_proc_apply fields(1) [symmetric])
  have "wait_to_receive s who src m = (if has_int_msg (?pt who) = 0
      then Inr (s\<lparr>proc_table := pt, p_proc_ready := r\<rparr>) else Inl (A 175))"
    using ok m src fl
    by (simp add: wait_to_receive_def Let_def pt1' [unfolded fl] blk again fields proc_ok_def)
  moreover have "ipc_inv pt Q" using which inv1 by auto
  moreover have "same_ipc (mark_receiver src m (?pt who)) (pt who)"
    using same [of who] by (simp add: pt1_def)
  moreover have "same_ipc (?pt x) (pt x)" if "x \<noteq> who" for x
    using same [of x] that by (simp add: pt1_def)
  ultimately show thesis using run that by blast
qed

section \<open>Interrupts\<close>

lemma inform_int_wakes:
  assumes inv: "ipc_inv (proc_table s) Q" and t: "t < NPROC"
    and fl: "p_flags (proc_table s t) = RECEIVING"
    and frm: "p_recvfrom (proc_table s t) = INTERRUPT \<or> p_recvfrom (proc_table s t) = ANY"
  shows "inform_int s t = Inr (s\<lparr>
      mem := st32 (st32 (mem s) (p_msg (proc_table s t)) (word_of_int INTERRUPT))
               (p_msg (proc_table s t) + 4) (word_of_int HARD_INT),
      proc_table := upd_proc t (\<lambda>p. (wake_receiver p)\<lparr>has_int_msg := 0\<rparr>) (proc_table s)\<rparr>)"
proof -
  have "proc_ok (proc_table s t)" by (rule inv_ok [OF inv t])
  with fl frm show ?thesis
    by (simp add: inform_int_def Let_def unblock_def proc_ok_def)
       (cases "proc_table s t", simp add: upd_proc_def wake_receiver_def)
qed

lemma ipc_inv_wake_int:
  assumes "ipc_inv pt Q" "d < NPROC" "p_flags (pt d) = RECEIVING"
  shows "ipc_inv (upd_proc d (\<lambda>p. (wake_receiver p)\<lparr>has_int_msg := v\<rparr>) pt) Q"
proof -
  have "upd_proc d (\<lambda>p. (wake_receiver p)\<lparr>has_int_msg := v\<rparr>) pt =
      upd_proc d (\<lambda>p. p\<lparr>has_int_msg := v\<rparr>) (upd_proc d wake_receiver pt)"
    by (rule ext) (simp add: upd_proc_apply)
  then show ?thesis using ipc_inv_wake [OF assms] by (simp add: ipc_inv_has_int)
qed

end
