(* ===== verification/IpcSpec.thy ===== *)
theory IpcSpec
  imports IpcRecv
begin

unbundle bit_operations_syntax

text \<open>
  The abstract specification of message passing and the refinement: a state
  holds for every process whether it is ready, waits to send or waits to
  receive, whether an interrupt is pending, and for every destination the
  queue of senders in order of arrival.  No flag bits, links or ticks are left.
\<close>

section \<open>The specification\<close>

datatype status = Ready | Sending nat | Receiving int | Stopped

record ipc_state =
  stat :: "nat \<Rightarrow> status"
  pending :: "nat \<Rightarrow> bool"
  queue :: "nat \<Rightarrow> nat list"

text \<open>What a step does besides changing the state.\<close>

datatype ipc_event =
    Transfer nat nat      \<comment> \<open>the message of the first goes to the second\<close>
  | Interrupted nat       \<comment> \<open>the process gets the interrupt message\<close>
  | Waits nat             \<comment> \<open>the process blocks\<close>
  | Noted nat             \<comment> \<open>an interrupt is remembered\<close>

definition wait_graph :: "ipc_state \<Rightarrow> (nat \<times> nat) set" where
  "wait_graph a = {(p, q). p < NPROC \<and> stat a p = Sending q}"

definition accepts :: "ipc_state \<Rightarrow> nat \<Rightarrow> nat \<Rightarrow> bool" where
  "accepts a d p \<longleftrightarrow> stat a d = Receiving (int p) \<or> stat a d = Receiving ANY"

definition spec_send :: "ipc_state \<Rightarrow> nat \<Rightarrow> nat \<Rightarrow> ipc_event \<times> ipc_state" where
  "spec_send a p d =
    (if accepts a d p then (Transfer p d, a\<lparr>stat := (stat a)(d := Ready)\<rparr>)
     else (Waits p, a\<lparr>stat := (stat a)(p := Sending d), queue := (queue a)(d := queue a d @ [p])\<rparr>))"

text \<open>The sender a receive chooses: the oldest one for \<open>ANY\<close>, the named one otherwise.\<close>

definition chosen :: "ipc_state \<Rightarrow> nat \<Rightarrow> int \<Rightarrow> nat option" where
  "chosen a p src =
    (if src = ANY then (case queue a p of [] \<Rightarrow> None | f # _ \<Rightarrow> Some f)
     else if 0 \<le> src \<and> nat src \<in> set (queue a p) then Some (nat src) else None)"

definition spec_receive :: "ipc_state \<Rightarrow> nat \<Rightarrow> int \<Rightarrow> ipc_event \<times> ipc_state" where
  "spec_receive a p src =
    (if pending a p \<and> (src = ANY \<or> src = INTERRUPT)
     then (Interrupted p, a\<lparr>pending := (pending a)(p := False)\<rparr>)
     else case chosen a p src of
       Some f \<Rightarrow> (Transfer f p, a\<lparr>stat := (stat a)(f := Ready),
                      queue := (queue a)(p := remove1 f (queue a p))\<rparr>)
     | None \<Rightarrow> (Waits p, a\<lparr>stat := (stat a)(p := Receiving src)\<rparr>))"

definition spec_interrupt :: "ipc_state \<Rightarrow> nat \<Rightarrow> ipc_event \<times> ipc_state" where
  "spec_interrupt a t =
    (if stat a t = Receiving INTERRUPT \<or> stat a t = Receiving ANY
     then (Interrupted t, a\<lparr>stat := (stat a)(t := Ready), pending := (pending a)(t := False)\<rparr>)
     else (Noted t, a\<lparr>pending := (pending a)(t := True)\<rparr>))"

section \<open>The abstraction\<close>

definition status_of :: "proc \<Rightarrow> status" where
  "status_of p =
    (if p_flags p = 0 then Ready
     else if has_flag p SENDING then Sending (nat (p_sendto p))
     else if p_flags p = RECEIVING then Receiving (p_recvfrom p)
     else Stopped)"

definition ipc_abs :: "proctab \<Rightarrow> queues \<Rightarrow> ipc_state" where
  "ipc_abs pt Q = \<lparr>stat = (\<lambda>p. status_of (pt p)), pending = (\<lambda>p. has_int_msg (pt p) \<noteq> 0), queue = Q\<rparr>"

text \<open>
  Outside the memory manager a process is in one of four plain states: no
  other flag is combined with \<open>RECEIVING\<close>.
\<close>

definition plain :: "proctab \<Rightarrow> bool" where
  "plain pt \<longleftrightarrow> (\<forall>p. has_flag (pt p) RECEIVING \<longrightarrow> p_flags (pt p) = RECEIVING)"

lemma status_same: "same_ipc p p' \<Longrightarrow> status_of p' = status_of p"
  by (simp add: status_of_def same_ipc_def)

lemma ipc_abs_eqI:
  assumes "same_ipc q (pt' p)" and "\<And>x. x \<noteq> p \<Longrightarrow> same_ipc (pt x) (pt' x)"
  shows "ipc_abs pt' Q = \<lparr>stat = (stat (ipc_abs pt Q))(p := status_of q),
     pending = (pending (ipc_abs pt Q))(p := has_int_msg q \<noteq> 0), queue = Q\<rparr>"
  using assms status_same same_ipcD(5) by (fastforce simp: ipc_abs_def fun_eq_iff)

lemma wait_graph_abs: "(\<And>p. p < NPROC \<Longrightarrow> proc_ok (pt p)) \<Longrightarrow> wait_graph (ipc_abs pt Q) = waits_for pt"
  by (fastforce simp: wait_graph_def waits_for_def ipc_abs_def status_of_def proc_ok_def split: if_splits)

lemma accepts_abs: "plain pt \<Longrightarrow> accepts (ipc_abs pt Q) d p \<longleftrightarrow> ready_for pt p d"
  by (auto simp: accepts_def ready_for_def ipc_abs_def status_of_def plain_def split: if_splits)

lemma status_marks [simp]:
  "status_of (mark_sender d m p) = Sending d" "status_of (mark_receiver src m p) = Receiving src"
  "status_of (wake_sender p) = Ready" "status_of (wake_receiver p) = Ready"
  "has_int_msg (mark_sender d m p) = has_int_msg p" "has_int_msg (mark_receiver src m p) = has_int_msg p"
  "has_int_msg (wake_sender p) = has_int_msg p" "has_int_msg (wake_receiver p) = has_int_msg p"
  by (simp_all add: status_of_def mark_sender_def mark_receiver_def wake_sender_def wake_receiver_def)

lemma plain_step:
  assumes "plain pt" and "same_ipc q (pt' p)" and "\<And>x. x \<noteq> p \<Longrightarrow> same_ipc (pt x) (pt' x)"
    and "has_flag q RECEIVING \<longrightarrow> p_flags q = RECEIVING"
  shows "plain pt'"
proof -
  have "has_flag (pt' x) RECEIVING \<longrightarrow> p_flags (pt' x) = RECEIVING" for x
    using assms(1,4) same_ipcD(1) [OF assms(2)] same_ipcD(1) [OF assms(3), of x]
    by (cases "x = p") (auto simp: plain_def)
  then show ?thesis by (simp add: plain_def)
qed

lemma plain_marks [simp]:
  "p_flags (mark_sender d m p) = SENDING" "p_flags (mark_receiver src m p) = RECEIVING"
  "p_flags (wake_sender p) = 0" "p_flags (wake_receiver p) = 0"
  by (simp_all add: mark_sender_def mark_receiver_def wake_sender_def wake_receiver_def)

section \<open>The refinement\<close>

text \<open>
  What a finished step has done to the memory: a transfer copies the 48 bytes
  of the sender's message to the receiver's buffer, both taken from the state
  before the step, with the running process's own buffer given as argument.
\<close>

definition effect :: "kstate \<Rightarrow> nat \<Rightarrow> u32 \<Rightarrow> ipc_event \<Rightarrow> memory" where
  "effect s p m e =
    (let pt = proc_table s; buf = (\<lambda>q. lin pt q (if q = p then m else p_msg (pt q))) in
     case e of
       Transfer f d \<Rightarrow> memcpy (mem s) (buf d) (buf f) MESSAGE_SIZE
     | Interrupted d \<Rightarrow> int_message (mem s) (buf d)
     | _ \<Rightarrow> mem s)"

definition running_ok :: "kstate \<Rightarrow> bool" where
  "running_ok s \<longleftrightarrow> p_proc_ready s < NPROC \<and> p_flags (proc_table s (p_proc_ready s)) = 0"

text \<open>
  One step of the code (from \<open>s\<close> to \<open>s'\<close>) implements a step of the specification
  to \<open>a'\<close>: the invariant holds of the new queues, the abstraction commutes, and
  the process to run next can run.
\<close>

definition implements :: "kstate \<Rightarrow> kstate \<Rightarrow> ipc_state \<Rightarrow> bool" where
  "implements s s' a' \<longleftrightarrow> ipc_inv (proc_table s') (queue a') \<and> plain (proc_table s') \<and>
     ipc_abs (proc_table s') (queue a') = a' \<and> k_reenter s' = k_reenter s \<and>
     (running_ok s \<longrightarrow> running_ok s')"

lemma msg_send_refines:
  assumes inv: "ipc_inv (proc_table s) Q" and plain: "plain (proc_table s)"
    and p: "p < NPROC" "p \<noteq> d" "p \<noteq> TEST_A" "p_flags (proc_table s p) = 0" and d: "d < NPROC" and m: "m \<noteq> 0"
    and a: "a = ipc_abs (proc_table s) Q" and nocycle: "(d, p) \<notin> (wait_graph a)\<^sup>+"
    and e: "spec_send a p d = (e, a')"
  shows "\<exists>s'. msg_send s p (int d) m = Inr s' \<and> implements s s' a' \<and> mem s' = effect s p m e"
proof (cases "accepts a d p")
  case True
  have nc: "(d, p) \<notin> (waits_for (proc_table s))\<^sup>+"
    using nocycle wait_graph_abs [OF inv_ok [OF inv]] by (simp add: a)
  from True have ready: "ready_for (proc_table s) p d" by (simp add: a accepts_abs [OF plain])
  with plain have fl: "p_flags (proc_table s d) = RECEIVING" by (auto simp: plain_def ready_for_def)
  let ?pt = "upd_proc d wake_receiver (proc_table s)"
  have "ipc_abs ?pt Q = a'" "queue a' = Q" "e = Transfer p d"
    using e True by (auto simp: spec_send_def a ipc_abs_def upd_proc_apply fun_eq_iff)
  moreover have "plain ?pt"
    using plain by (rule plain_step [where q = "wake_receiver (proc_table s d)" and p = d]) simp_all
  ultimately show ?thesis
    using msg_send_cases [OF inv p(1,2) d, of m] nc ready deliver_eq [OF inv p(1,2) d p(4) fl m]
      ipc_inv_wake [OF inv d fl] p
    by (simp add: effect_def Let_def implements_def running_ok_def upd_proc_apply)
next
  case False
  have nc: "(d, p) \<notin> (waits_for (proc_table s))\<^sup>+"
    using nocycle wait_graph_abs [OF inv_ok [OF inv]] by (simp add: a)
  obtain pt r where w: "wait_to_send s p d m = Inr (s\<lparr>proc_table := pt, p_proc_ready := r\<rparr>)"
    and i: "ipc_inv pt (Q(d := Q d @ [p]))" and run: "runnable pt r"
    and sp: "same_ipc (mark_sender d m (proc_table s p)) (pt p)"
    and so: "\<And>x. x \<noteq> p \<Longrightarrow> same_ipc (proc_table s x) (pt x)"
    using wait_to_send_ok [OF inv p(1,2,3) d p(4) m nc] by metis
  have "a' = a\<lparr>stat := (stat a)(p := Sending d), queue := Q(d := Q d @ [p])\<rparr>" "e = Waits p"
    using e False by (auto simp: spec_send_def a ipc_abs_def)
  moreover have "ipc_abs pt (Q(d := Q d @ [p])) = a\<lparr>stat := (stat a)(p := Sending d), queue := Q(d := Q d @ [p])\<rparr>"
    using ipc_abs_eqI [where pt = "proc_table s" and pt' = pt, OF sp so] by (auto simp: a ipc_abs_def fun_eq_iff)
  moreover have "plain pt" using plain_step [where pt = "proc_table s" and pt' = pt, OF plain sp so] by simp
  ultimately show ?thesis
    using msg_send_cases [OF inv p(1,2) d, of m] nc False w i run
    by (simp add: accepts_abs [OF plain] a effect_def implements_def running_ok_def)
qed

lemma msg_send_deadlock:
  assumes inv: "ipc_inv (proc_table s) Q" and "p < NPROC" "p \<noteq> d" "d < NPROC"
    and "(d, p) \<in> (wait_graph (ipc_abs (proc_table s) Q))\<^sup>+"
  shows "msg_send s p (int d) m = Inl (A 276)"
  using assms msg_send_cases [of s Q p d m] wait_graph_abs [OF inv_ok [OF inv]] by simp

lemma chosen_select:
  assumes inv: "ipc_inv pt Q" and p: "p < NPROC" and fl: "p_flags (pt p) = 0"
    and src: "src = ANY \<or> src = INTERRUPT \<or> (0 \<le> src \<and> src < NPROC)"
  shows "case chosen (ipc_abs pt Q) p src of
      None \<Rightarrow> select_sender pt p src = Inr None
    | Some f \<Rightarrow> \<exists>xs ys. Q p = xs @ f # ys \<and> f \<notin> set xs \<and>
        select_sender pt p src = Inr (Some (f, if xs = [] then None else Some (last xs)))"
proof (cases "0 \<le> src \<and> src < NPROC")
  case False
  with src consider "src = ANY" | "src = INTERRUPT" by blast
  then show ?thesis
  proof cases
    case 1
    then show ?thesis
      using select_any [OF inv p fl] by (cases "Q p") (auto simp: chosen_def ipc_abs_def)
  next
    case 2
    then show ?thesis by (simp add: chosen_def select_sender_def)
  qed
next
  case True
  then obtain f where f: "src = int f" "f < NPROC" by (metis nonneg_int_cases of_nat_less_numeral_iff)
  show ?thesis
  proof (cases "f \<in> set (Q p)")
    case True
    then obtain xs ys where Q: "Q p = xs @ f # ys" "f \<notin> set xs" by (meson split_list_first)
    then show ?thesis
      using select_named(2) [OF inv p fl f(2) Q(1)] f
      by (auto simp: chosen_def ipc_abs_def simp del: split_paired_Ex)
  next
    case False
    then show ?thesis using select_named(1) [OF inv p fl f(2)] f by (simp add: chosen_def ipc_abs_def)
  qed
qed

lemma msg_receive_refines:
  assumes inv: "ipc_inv (proc_table s) Q" and plain: "plain (proc_table s)"
    and p: "p < NPROC" "int p \<noteq> src" "p \<noteq> TEST_A" "p_flags (proc_table s p) = 0" and m: "m \<noteq> 0"
    and src: "src = ANY \<or> src = INTERRUPT \<or> (0 \<le> src \<and> src < NPROC)"
    and a: "a = ipc_abs (proc_table s) Q" and nolost: "pending a p \<Longrightarrow> e \<noteq> Waits p"
    and e: "spec_receive a p src = (e, a')"
  shows "\<exists>s'. msg_receive s p src m = Inr s' \<and> implements s s' a' \<and> mem s' = effect s p m e"
proof -
  let ?pt = "proc_table s"
  have pend: "pending a p \<longleftrightarrow> has_int_msg (?pt p) \<noteq> 0" by (simp add: a ipc_abs_def)
  show ?thesis
  proof (cases "pending a p \<and> (src = ANY \<or> src = INTERRUPT)")
    case True
    let ?pt' = "upd_proc p (\<lambda>q. q\<lparr>has_int_msg := 0\<rparr>) ?pt"
    have "ipc_abs ?pt' Q = a'" "queue a' = Q" "e = Interrupted p"
      using e True by (auto simp: spec_receive_def a ipc_abs_def upd_proc_apply fun_eq_iff status_of_def)
    moreover have "plain ?pt'" using plain by (auto simp: plain_def upd_proc_apply)
    ultimately show ?thesis
      using receive_interrupt_eq [OF inv p(1,4) m] inv True p(2)
      by (simp add: msg_receive_def Let_def pend ipc_inv_has_int effect_def implements_def running_ok_def
            upd_proc_apply)
  next
    case False
    then have rcv: "msg_receive s p src m = (case select_sender ?pt p src of Inl e \<Rightarrow> Inl e
        | Inr None \<Rightarrow> wait_to_receive s p src m | Inr (Some (f, prev)) \<Rightarrow> take_message s p f prev m)"
      using p(2) by (auto simp: msg_receive_def Let_def pend split: sum.splits option.splits)
    note sel = chosen_select [OF inv p(1,4) src]
    show ?thesis
    proof (cases "chosen a p src")
      case None
      have ev: "e = Waits p" "a' = a\<lparr>stat := (stat a)(p := Receiving src)\<rparr>"
        using e False None by (auto simp: spec_receive_def)
      have none: "has_int_msg (?pt p) = 0" using nolost pend ev by auto
      have "src \<noteq> NO_TASK" using src by auto
      from wait_to_receive_cases [OF inv p(1,3,4) m this]
      obtain pt r where "wait_to_receive s p src m = Inr (s\<lparr>proc_table := pt, p_proc_ready := r\<rparr>)"
        and i: "ipc_inv pt Q" and run: "runnable pt r" and sp: "same_ipc (mark_receiver src m (?pt p)) (pt p)"
        and so: "\<And>x. x \<noteq> p \<Longrightarrow> same_ipc (?pt x) (pt x)"
        using none by metis
      moreover have "ipc_abs pt Q = a'"
        using ipc_abs_eqI [where pt = "proc_table s" and pt' = pt, OF sp so] by (auto simp: ev a ipc_abs_def fun_eq_iff)
      moreover have "plain pt" using plain_step [where pt = "proc_table s" and pt' = pt, OF plain sp so] by simp
      moreover have "queue a' = Q" by (simp add: ev a ipc_abs_def)
      ultimately show ?thesis using rcv sel None run by (simp add: a ev effect_def implements_def running_ok_def)
    next
      case (Some f)
      then obtain xs ys where Q: "Q p = xs @ f # ys" "f \<notin> set xs"
        and s: "select_sender ?pt p src = Inr (Some (f, if xs = [] then None else Some (last xs)))"
        using sel by (auto simp: a)
      have ev: "e = Transfer f p" "a' = a\<lparr>stat := (stat a)(f := Ready), queue := Q(p := xs @ ys)\<rparr>"
        using e False Some Q by (auto simp: spec_receive_def a ipc_abs_def remove1_append)
      have ne: "f \<noteq> p"
      proof
        assume "f = p"
        then have "has_flag (?pt p) SENDING" using repr_mem [OF inv_repr [OF inv] p(1), of p] Q by simp
        with p(4) show False by simp
      qed
      obtain pt where "take_message s p f (if xs = [] then None else Some (last xs)) m =
          Inr (s\<lparr>mem := memcpy (mem s) (lin ?pt p m) (lin ?pt f (p_msg (?pt f))) MESSAGE_SIZE,
             proc_table := pt\<rparr>)"
        and i: "ipc_inv pt (Q(p := xs @ ys))" and sp: "same_ipc (wake_sender (?pt f)) (pt f)"
        and so: "\<And>x. x \<noteq> f \<Longrightarrow> same_ipc (?pt x) (pt x)"
        using take_message_ok [OF inv p(1) m Q(1) refl] by metis
      moreover have "ipc_abs pt (Q(p := xs @ ys)) = a'"
        using ipc_abs_eqI [where pt = "proc_table s" and pt' = pt, OF sp so] by (auto simp: ev a ipc_abs_def fun_eq_iff)
      moreover have "plain pt" using plain_step [where pt = "proc_table s" and pt' = pt, OF plain sp so] by simp
      moreover have "p_flags (?pt x) = 0 \<Longrightarrow> p_flags (pt x) = 0" for x
        using same_ipcD(1) [OF sp] same_ipcD(1) [OF so, of x] by (cases "x = f") simp_all
      ultimately show ?thesis
        using rcv s ne by (simp add: ev effect_def Let_def implements_def running_ok_def)
    qed
  qed
qed

lemma msg_receive_pending_fails:
  assumes inv: "ipc_inv (proc_table s) Q"
    and p: "p < NPROC" "int p \<noteq> src" "p \<noteq> TEST_A" "p_flags (proc_table s p) = 0" and m: "m \<noteq> 0"
    and src: "0 \<le> src" "src < NPROC" and pend: "has_int_msg (proc_table s p) \<noteq> 0"
    and none: "nat src \<notin> set (Q p)"
  shows "msg_receive s p src m = Inl (A 175)"
proof -
  have "select_sender (proc_table s) p src = Inr None"
    using select_named(1) [OF inv p(1,4), of "nat src"] src none by simp
  moreover have "wait_to_receive s p src m = Inl (A 175)"
  proof (rule wait_to_receive_cases [OF inv p(1,3,4) m])
    show "src \<noteq> NO_TASK" using src by simp
  qed (use pend in simp)
  ultimately show ?thesis using p(2) src by (simp add: msg_receive_def Let_def)
qed

lemma inform_int_refines:
  assumes inv: "ipc_inv (proc_table s) Q" and plain: "plain (proc_table s)" and t: "t < NPROC"
    and a: "a = ipc_abs (proc_table s) Q" and e: "spec_interrupt a t = (e, a')"
  shows "\<exists>s'. inform_int s t = Inr s' \<and> implements s s' a' \<and> p_proc_ready s' = p_proc_ready s"
proof -
  let ?p = "proc_table s t"
  have guard: "stat a t = Receiving INTERRUPT \<or> stat a t = Receiving ANY \<longleftrightarrow>
      has_flag ?p RECEIVING \<and> (p_recvfrom ?p = INTERRUPT \<or> p_recvfrom ?p = ANY)"
    using plain by (auto simp: a ipc_abs_def status_of_def plain_def split: if_splits)
  show ?thesis
  proof (cases "stat a t = Receiving INTERRUPT \<or> stat a t = Receiving ANY")
    case True
    let ?f = "\<lambda>p. (wake_receiver p)\<lparr>has_int_msg := 0\<rparr>"
    let ?pt = "upd_proc t ?f (proc_table s)"
    from True guard plain have fl: "p_flags ?p = RECEIVING" and frm: "p_recvfrom ?p = INTERRUPT \<or> p_recvfrom ?p = ANY"
      by (auto simp: plain_def)
    have st: "status_of (?f q) = Ready" for q by (simp add: status_of_def)
    have "queue a' = Q" "ipc_abs ?pt Q = a'"
      using e True st by (auto simp: spec_interrupt_def a ipc_abs_def upd_proc_apply fun_eq_iff)
    moreover have "plain ?pt" using plain by (auto simp: plain_def upd_proc_apply)
    ultimately show ?thesis
      using inform_int_wakes [OF inv t fl frm] ipc_inv_wake_int [OF inv t fl]
      by (simp add: implements_def running_ok_def upd_proc_apply)
  next
    case False
    let ?pt = "upd_proc t (\<lambda>p. p\<lparr>has_int_msg := 1\<rparr>) (proc_table s)"
    have "queue a' = Q" "ipc_abs ?pt Q = a'"
      using e False by (auto simp: spec_interrupt_def a ipc_abs_def upd_proc_apply fun_eq_iff status_of_def)
    moreover have "plain ?pt" using plain by (auto simp: plain_def upd_proc_apply)
    moreover have "inform_int s t = Inr (s\<lparr>proc_table := ?pt\<rparr>)"
      using False [unfolded guard] unfolding inform_int_def Let_def by (rule if_not_P)
    ultimately show ?thesis
      using inv by (simp add: ipc_inv_has_int implements_def running_ok_def upd_proc_apply)
  qed
qed

end
