(* ===== verification/Boot.thy ===== *)
theory Boot
  imports IpcSpec
begin

unbundle bit_operations_syntax

text \<open>
  The boot of the process table: \<open>kernel_main\<close> of \<open>kernel/main.c\<close>, the tables of
  \<open>kernel/global.c\<close>, the loop of \<open>init_prot\<close> (\<open>kernel/protect.c\<close>) over the
  process table, and \<open>get_kernel_map\<close> of \<open>kernel/klib.c\<close>.  The addresses the
  linker gives to entry points and the descriptors that the boot loader
  leaves in the GDT are arguments.
\<close>

section \<open>The tables of tasks\<close>

record task =
  initial_eip :: u32
  stacksize :: u32
  task_name :: string

definition task_table :: "(nat \<Rightarrow> u32) \<Rightarrow> task list" where
  "task_table entry =
    [\<lparr>initial_eip = entry 0, stacksize = 0x8000, task_name = ''tty''\<rparr>,
     \<lparr>initial_eip = entry 1, stacksize = 0x8000, task_name = ''sys''\<rparr>,
     \<lparr>initial_eip = entry 2, stacksize = 0x8000, task_name = ''hd''\<rparr>,
     \<lparr>initial_eip = entry 3, stacksize = 0x8000, task_name = ''fs''\<rparr>,
     \<lparr>initial_eip = entry 4, stacksize = 0x8000, task_name = ''mm''\<rparr>]"

definition user_proc_table :: "(nat \<Rightarrow> u32) \<Rightarrow> task list" where
  "user_proc_table entry =
    [\<lparr>initial_eip = entry 5, stacksize = 0x8000, task_name = ''INIT''\<rparr>,
     \<lparr>initial_eip = entry 6, stacksize = 0x8000, task_name = ''TestA''\<rparr>,
     \<lparr>initial_eip = entry 7, stacksize = 0x8000, task_name = ''TestB''\<rparr>,
     \<lparr>initial_eip = entry 8, stacksize = 0x8000, task_name = ''TestC''\<rparr>]"

abbreviation (input) STACK_SIZE_TOTAL :: u32 where "STACK_SIZE_TOTAL \<equiv> 9 * 0x8000"

section \<open>The extent of the kernel\<close>

text \<open>
  The loop of \<open>get_kernel_map\<close> over the section headers: each is given by its
  \<open>SHF_ALLOC\<close> bit, \<open>sh_addr\<close> and \<open>sh_size\<close>.  The comparisons of an unsigned with
  an int are unsigned.
\<close>

type_synonym section_header = "bool \<times> u32 \<times> u32"

fun kernel_extent :: "section_header list \<Rightarrow> u32 \<Rightarrow> u32 \<Rightarrow> u32 \<times> u32" where
  "kernel_extent [] b t = (b, t)"
| "kernel_extent ((alloc, sh_addr, sh_size) # hs) b t =
    (if alloc
     then kernel_extent hs (if b > sh_addr then sh_addr else b)
            (if t < sh_addr + sh_size then sh_addr + sh_size else t)
     else kernel_extent hs b t)"

definition get_kernel_map :: "section_header list \<Rightarrow> (u32 \<times> u32) kres" where
  "get_kernel_map hs =
    (case kernel_extent hs (NOT 0) 0 of (b, t) \<Rightarrow>
       ensure (b < t) (Assertion ''kernel/klib.c'' 67) (Inr (b, t - b - 1)))"

section \<open>One entry of the process table\<close>

abbreviation (input) SELECTOR_KERNEL_GS :: u32 where "SELECTOR_KERNEL_GS \<equiv> 0x1B"

definition boot_regs :: "u32 \<Rightarrow> u32 \<Rightarrow> u32 \<Rightarrow> u32 \<Rightarrow> stackframe \<Rightarrow> stackframe" where
  "boot_regs rpl eip0 stk fl r =
    (let rw = push_bit 3 (word_of_nat INDEX_LDT_RW) OR 4 OR rpl in
     r\<lparr>cs := push_bit 3 (word_of_nat INDEX_LDT_C) OR 4 OR rpl,
       ds := rw, es := rw, fs := rw, ss := rw,
       gs := (SELECTOR_KERNEL_GS AND 0xFFFC) OR rpl,
       eip := eip0, esp := stk, eflags := fl\<rparr>)"

definition boot_ldts ::
    "(nat \<Rightarrow> descriptor) \<Rightarrow> u32 \<times> u32 \<Rightarrow> string \<Rightarrow> u8 \<Rightarrow> (nat \<Rightarrow> descriptor) \<Rightarrow> nat \<Rightarrow> descriptor" where
  "boot_ldts gdt kmap name priv l =
    (if name \<noteq> ''INIT''
     then l(INDEX_LDT_C := (gdt (unat (drop_bit 3 SELECTOR_KERNEL_CS)))\<lparr>attr1 := DA_C OR push_bit 5 priv\<rparr>,
            INDEX_LDT_RW := (gdt (unat (drop_bit 3 SELECTOR_KERNEL_DS)))\<lparr>attr1 := DA_DRW OR push_bit 5 priv\<rparr>)
     else (case kmap of (k_base, k_limit) \<Rightarrow>
       l(INDEX_LDT_C := init_descriptor 0 (drop_bit LIMIT_4K_SHIFT (k_base + k_limit))
            (DA_32 OR DA_LIMIT_4K OR DA_C OR push_bit 5 (ucast priv)),
         INDEX_LDT_RW := init_descriptor 0 (drop_bit LIMIT_4K_SHIFT (k_base + k_limit))
            (DA_32 OR DA_LIMIT_4K OR DA_DRW OR push_bit 5 (ucast priv)))))"

definition boot_proc ::
    "(nat \<Rightarrow> descriptor) \<Rightarrow> u32 \<times> u32 \<Rightarrow> task \<Rightarrow> nat \<Rightarrow> u32 \<Rightarrow> proc \<Rightarrow> proc" where
  "boot_proc gdt kmap t i stk p =
    (let is_task = i < NR_TASKS;
         priv = (if is_task then 1 else 3);
         rpl = (if is_task then 1 else 3);
         fl = (if is_task then 0x1202 else 0x202);
         prio = (if is_task then 15 else 5) in
     p\<lparr>p_name := task_name t,
       p_parent := NO_TASK,
       ldts := boot_ldts gdt kmap (task_name t) priv (ldts p),
       regs := boot_regs rpl (initial_eip t) stk fl (regs p),
       ticks := prio, priority := prio,
       p_flags := 0, p_msg := 0, p_recvfrom := NO_TASK, p_sendto := NO_TASK,
       has_int_msg := 0, q_sending := None, next_sending := None,
       filp := (\<lambda>j. if j < NR_FILES then None else filp p j)\<rparr>)"

text \<open>The loop: steps left, index, stack pointer, table.\<close>

fun boot_loop ::
    "(nat \<Rightarrow> descriptor) \<Rightarrow> u32 \<times> u32 \<Rightarrow> (nat \<Rightarrow> u32) \<Rightarrow> nat \<Rightarrow> nat \<Rightarrow> u32 \<Rightarrow> proctab \<Rightarrow> proctab" where
  "boot_loop gdt kmap entry 0 i stk pt = pt"
| "boot_loop gdt kmap entry (Suc n) i stk pt =
    (if NR_TASKS + NR_NATIVE_PROCS \<le> i
     then boot_loop gdt kmap entry n (Suc i) stk (upd_proc i (\<lambda>p. p\<lparr>p_flags := FREE_SLOT\<rparr>) pt)
     else let t = (if i < NR_TASKS then task_table entry ! i else user_proc_table entry ! (i - NR_TASKS)) in
       boot_loop gdt kmap entry n (Suc i) (stk - stacksize t) (upd_proc i (boot_proc gdt kmap t i stk) pt))"

text \<open>
  \<open>init_prot\<close> clears the table (\<open>memset\<close>) and numbers the LDT selectors.
\<close>

definition zero_desc :: descriptor where
  "zero_desc = \<lparr>limit_low = 0, base_low = 0, base_mid = 0, attr1 = 0, limit_high_attr2 = 0, base_high = 0\<rparr>"

definition zero_frame :: stackframe where
  "zero_frame = \<lparr>gs = 0, fs = 0, es = 0, ds = 0, edi = 0, esi = 0, ebp = 0, kernel_esp = 0, ebx = 0,
     edx = 0, ecx = 0, eax = 0, retaddr = 0, eip = 0, cs = 0, eflags = 0, esp = 0, ss = 0\<rparr>"

definition init_prot_proc :: "nat \<Rightarrow> proc" where
  "init_prot_proc i =
    \<lparr>regs = zero_frame, ldt_sel = SELECTOR_LDT_FIRST + word_of_nat (i * 8), ldts = (\<lambda>_. zero_desc),
     ticks = 0, priority = 0, proc_pid = 0, p_name = '''', p_flags = 0, p_msg = 0, p_recvfrom = 0, p_sendto = 0,
     has_int_msg = 0, q_sending = None, next_sending = None, nr_tty = 0, p_parent = 0, exit_status = 0,
     filp = (\<lambda>_. None)\<rparr>"

text \<open>
  \<open>kernel_main\<close> up to \<open>restart()\<close>, on the table that \<open>init_prot\<close> left;
  \<open>task_stack\<close> is the address of the stack area.
\<close>

definition kernel_main ::
    "(nat \<Rightarrow> descriptor) \<Rightarrow> u32 \<times> u32 \<Rightarrow> (nat \<Rightarrow> u32) \<Rightarrow> u32 \<Rightarrow> memory \<Rightarrow> kstate" where
  "kernel_main gdt kmap entry task_stack m =
    \<lparr>proc_table = boot_loop gdt kmap entry NPROC 0 (task_stack + STACK_SIZE_TOTAL) init_prot_proc,
     p_proc_ready = 0, sys_ticks = 0, k_reenter = 0, key_pressed = 0, mem = m\<rparr>"

section \<open>The table after boot\<close>

definition native_task :: "(nat \<Rightarrow> u32) \<Rightarrow> nat \<Rightarrow> task" where
  "native_task entry i = (if i < NR_TASKS then task_table entry ! i else user_proc_table entry ! (i - NR_TASKS))"

lemma stacksize_native: "i < 9 \<Longrightarrow> stacksize (native_task entry i) = 0x8000"
  by (auto simp: native_task_def task_table_def user_proc_table_def less_Suc_eq numeral_eq_Suc)

lemma name_native: "i < 9 \<Longrightarrow> task_name (native_task entry i) = ''INIT'' \<longleftrightarrow> i = INIT"
  by (auto simp: native_task_def task_table_def user_proc_table_def less_Suc_eq numeral_eq_Suc)

text \<open>A pass leaves the entries outside its range alone.\<close>

lemma boot_loop_apply:
  "boot_loop gdt kmap entry n i stk pt j =
    (if j < i \<or> i + n \<le> j then pt j
     else if 9 \<le> j then (pt j)\<lparr>p_flags := FREE_SLOT\<rparr>
     else boot_proc gdt kmap (native_task entry j) j (stk - of_nat (j - i) * 0x8000) (pt j))"
proof (induction n arbitrary: i j stk pt)
  case 0
  then show ?case by auto
next
  case (Suc n)
  show ?case
  proof (cases "j = i")
    case True
    then show ?thesis by (auto simp: Suc Let_def native_task_def upd_proc_apply)
  next
    case False
    have step: "stk - 0x8000 - of_nat (j - Suc i) * 0x8000 = stk - of_nat (j - i) * (0x8000 :: u32)" if "i < j"
    proof -
      have "of_nat (j - i) = of_nat (j - Suc i) + (1 :: u32)"
        using that by (metis Suc_diff_Suc add.commute of_nat_Suc)
      then show ?thesis by (simp add: algebra_simps)
    qed
    show ?thesis
    proof (cases "9 \<le> i")
      case True
      then show ?thesis using False by (auto simp: Suc upd_proc_apply)
    next
      case False': False
      then have "stacksize (native_task entry i) = 0x8000" by (simp add: stacksize_native)
      then show ?thesis using False False' step
        by (auto simp: Suc Let_def native_task_def [symmetric] upd_proc_apply algebra_simps)
    qed
  qed
qed

lemma boot_entry:
  assumes "j < 9"
  shows "proc_table (kernel_main gdt kmap entry stk m) j =
    boot_proc gdt kmap (native_task entry j) j (stk + STACK_SIZE_TOTAL - of_nat j * 0x8000) (init_prot_proc j)"
  using assms by (simp add: kernel_main_def boot_loop_apply)

lemma boot_free:
  assumes "9 \<le> j" "j < NPROC"
  shows "proc_table (kernel_main gdt kmap entry stk m) j = (init_prot_proc j)\<lparr>p_flags := FREE_SLOT\<rparr>"
  using assms by (simp add: kernel_main_def boot_loop_apply)

lemma boot_outside: "NPROC \<le> j \<Longrightarrow> proc_table (kernel_main gdt kmap entry stk m) j = init_prot_proc j"
  by (simp add: kernel_main_def boot_loop_apply)

lemma boot_flags:
  "p_flags (proc_table (kernel_main gdt kmap entry stk m) j) = (if 9 \<le> j \<and> j < NPROC then FREE_SLOT else 0)"
proof -
  consider "j < 9" | "9 \<le> j \<and> j < NPROC" | "NPROC \<le> j" by linarith
  then show ?thesis
    by cases (simp_all add: boot_entry boot_free boot_outside boot_proc_def Let_def init_prot_proc_def)
qed

lemma boot_links:
  "q_sending (proc_table (kernel_main gdt kmap entry stk m) j) = None"
  "has_int_msg (proc_table (kernel_main gdt kmap entry stk m) j) = 0"
proof -
  consider "j < 9" | "9 \<le> j \<and> j < NPROC" | "NPROC \<le> j" by linarith
  then show "q_sending (proc_table (kernel_main gdt kmap entry stk m) j) = None"
    "has_int_msg (proc_table (kernel_main gdt kmap entry stk m) j) = 0"
    by (cases; simp add: boot_entry boot_free boot_outside boot_proc_def Let_def init_prot_proc_def)+
qed

text \<open>The loader's data segment starts at 0, and so does every native process.\<close>

lemma boot_flat:
  assumes "desc_base (gdt 2) = 0"
  shows "flat_tasks (proc_table (kernel_main gdt kmap entry stk m))"
proof -
  have "ldt_seg_linear (proc_table (kernel_main gdt kmap entry stk m) j) INDEX_LDT_RW = 0" if "j < 9" for j
    using that assms
    by (simp add: boot_entry boot_proc_def Let_def ldt_seg_linear_def boot_ldts_def split: prod.splits)
       (simp add: desc_base_def)
  then show ?thesis by (simp add: flat_tasks_def)
qed

lemma boot_ipc_inv:
  assumes "desc_base (gdt 2) = 0"
  shows "ipc_inv (proc_table (kernel_main gdt kmap entry stk m)) (\<lambda>_. [])"
proof -
  let ?pt = "proc_table (kernel_main gdt kmap entry stk m)"
  have nosend: "\<not> has_flag (?pt j) SENDING" for j by (simp add: boot_flags)
  have "proc_ok (?pt p)" if "p < NPROC" for p
  proof (cases "p < 9")
    case True
    then show ?thesis by (simp add: boot_entry boot_proc_def Let_def proc_ok_def)
  next
    case False
    with that show ?thesis using boot_flags [of gdt kmap entry stk m p] by (simp add: proc_ok_def)
  qed
  moreover have "repr ?pt (\<lambda>_. [])" using nosend by (simp add: repr_def boot_links)
  moreover have "acyclic (waits_for ?pt)"
  proof -
    have "waits_for ?pt = {}" using nosend by (auto simp: waits_for_def)
    then show ?thesis by (simp add: acyclic_def)
  qed
  moreover have "idle_ok ?pt"
    by (simp add: idle_ok_def boot_flags) (simp add: boot_entry boot_proc_def Let_def)
  ultimately show ?thesis using boot_flat [of gdt, OF assms] by (simp add: ipc_inv_def)
qed

lemma boot_plain: "plain (proc_table (kernel_main gdt kmap entry stk m))"
  by (auto simp: plain_def boot_flags split: if_splits)

section \<open>The extent covers every allocated section\<close>

lemma kernel_extent_le:
  "kernel_extent hs b t = (b', t') \<Longrightarrow> b' \<le> b \<and> t \<le> t'"
  by (induction hs b t rule: kernel_extent.induct) (fastforce simp: not_less split: if_splits)+

lemma kernel_extent_covers:
  "kernel_extent hs b t = (b', t') \<Longrightarrow> (True, addr, sz) \<in> set hs \<Longrightarrow> b' \<le> addr \<and> addr + sz \<le> t'"
proof (induction hs b t rule: kernel_extent.induct)
  case (2 alloc sa sl hs b t)
  then show ?case by (fastforce dest: kernel_extent_le split: if_splits)
qed simp

end
