(* ===== verification/KStep.thy ===== *)
theory KStep
  imports Boot
begin

unbundle bit_operations_syntax

text \<open>
  The kernel as a transition system: system calls of the running process and
  interrupts, from the state \<open>kernel_main\<close> leaves.  Each step is a whole call of the
  code's own routine: interrupts come between calls.  (\<open>sys_call\<close> of \<open>kernel.asm\<close>
  enables them during a call as well, which is not safe: \<open>interrupt_breaks_send\<close>.)
  What the code of a process does between two kernel entries is a change of memory and of
  \<open>key_pressed\<close> (the keyboard and terminal tasks); the flags \<open>WAITING\<close>, \<open>HANGING\<close> and
  \<open>FREE_SLOT\<close>, which the memory manager writes into the table, stay as booted.
\<close>

section \<open>The system call on a good state\<close>

text \<open>\<open>mla->source = caller\<close> at the start of \<open>sys_sendrec\<close>.\<close>

definition stamp :: "kstate \<Rightarrow> nat \<Rightarrow> u32 \<Rightarrow> kstate" where
  "stamp s p m = s\<lparr>mem := st32 (mem s) (lin (proc_table s) p m) (word_of_nat p)\<rparr>"

lemma stamp_simps [simp]:
  "proc_table (stamp s p m) = proc_table s" "k_reenter (stamp s p m) = k_reenter s"
  "p_proc_ready (stamp s p m) = p_proc_ready s" "key_pressed (stamp s p m) = key_pressed s"
  by (simp_all add: stamp_def)

lemma sys_send_eq:
  "flat_tasks (proc_table s) \<Longrightarrow> k_reenter s = 0 \<Longrightarrow> d < NPROC \<Longrightarrow> p \<noteq> d \<Longrightarrow>
   sys_sendrec s SEND (int d) m p = msg_send (stamp s p m) p (int d) m"
  by (simp add: sys_sendrec_def va2la_lin Let_def stamp_def)

lemma sys_receive_eq:
  "flat_tasks (proc_table s) \<Longrightarrow> k_reenter s = 0 \<Longrightarrow> int p \<noteq> src \<Longrightarrow>
   src = ANY \<or> src = INTERRUPT \<or> (0 \<le> src \<and> src < NPROC) \<Longrightarrow>
   sys_sendrec s RECEIVE src m p = msg_receive (stamp s p m) p src m"
  by (auto simp: sys_sendrec_def va2la_lin Let_def stamp_def)

section \<open>The clock\<close>

definition tick :: "kstate \<Rightarrow> kstate" where
  "tick s = (let s1 = s\<lparr>sys_ticks := (if sys_ticks s + 1 \<ge> MAX_TICKS then 0 else sys_ticks s + 1)\<rparr> in
     if ticks (proc_table s (p_proc_ready s)) \<noteq> 0
     then s1\<lparr>proc_table := upd_proc (p_proc_ready s) (\<lambda>p. p\<lparr>ticks := ticks p - 1\<rparr>) (proc_table s)\<rparr>
     else s1)"

lemma tick_simps [simp]:
  "p_proc_ready (tick s) = p_proc_ready s" "k_reenter (tick s) = k_reenter s"
  "key_pressed (tick s) = key_pressed s" "mem (tick s) = mem s"
  by (simp_all add: tick_def Let_def)

lemma tick_same: "same_ipc (proc_table s x) (proc_table (tick s) x)"
  by (simp add: tick_def Let_def upd_proc_apply same_ipc_def)

lemma tick_links:
  "q_sending (proc_table (tick s) x) = q_sending (proc_table s x)"
  "next_sending (proc_table (tick s) x) = next_sending (proc_table s x)"
  by (simp_all add: tick_def Let_def upd_proc_apply)

lemma clock_handler_tick:
  "clock_handler s =
    (case (if key_pressed s \<noteq> 0 then inform_int (tick s) TASK_TTY else Inr (tick s)) of
       Inl e \<Rightarrow> Inl e
     | Inr s3 \<Rightarrow> if k_reenter s3 \<noteq> 0 \<or> 0 < ticks (proc_table s3 (p_proc_ready s3)) then Inr s3
                else run_loop (schedule s3) Inr)"
  by (simp add: clock_handler_def tick_def Let_def split: sum.splits)

lemma ipc_inv_rewrite:
  assumes inv: "ipc_inv pt Q" and same: "\<And>x. same_ipc (pt x) (pt' x)"
    and links: "\<And>x. q_sending (pt' x) = q_sending (pt x)" "\<And>x. next_sending (pt' x) = next_sending (pt x)"
  shows "ipc_inv pt' Q" and "plain pt \<Longrightarrow> plain pt'" and "ipc_abs pt' Q = ipc_abs pt Q"
proof -
  have "repr pt' Q = repr pt Q"
    by (rule repr_cong) (simp_all add: links same_ipcD [OF same])
  then show "ipc_inv pt' Q"
    using inv by (intro ipc_inv_same [OF same]) (simp_all add: ipc_inv_def)
  show "plain pt \<Longrightarrow> plain pt'" by (simp add: plain_def has_flag_def same_ipcD [OF same])
  show "ipc_abs pt' Q = ipc_abs pt Q"
    using status_same [OF same] same_ipcD(5) [OF same] by (simp add: ipc_abs_def)
qed

section \<open>Good states\<close>

definition good :: "kstate \<Rightarrow> queues \<Rightarrow> bool" where
  "good s Q \<longleftrightarrow> ipc_inv (proc_table s) Q \<and> plain (proc_table s) \<and> running_ok s \<and> k_reenter s = 0"

lemma goodD:
  assumes "good s Q"
  shows good_inv: "ipc_inv (proc_table s) Q" and good_plain: "plain (proc_table s)"
    and good_run: "p_proc_ready s < NPROC" "p_flags (proc_table s (p_proc_ready s)) = 0"
    and good_enter: "k_reenter s = 0"
  using assms by (simp_all add: good_def running_ok_def)

lemma good_cong:
  "proc_table s' = proc_table s \<Longrightarrow> p_proc_ready s' = p_proc_ready s \<Longrightarrow> k_reenter s' = k_reenter s \<Longrightarrow>
   good s' Q = good s Q"
  by (simp add: good_def running_ok_def)

lemma good_stamp [simp]: "good (stamp s p m) Q = good s Q"
  by (rule good_cong) simp_all

lemma good_implements: "good s Q \<Longrightarrow> implements s s' a' \<Longrightarrow> good s' (queue a')"
  by (simp add: good_def implements_def)

lemma good_tick: "good s Q \<Longrightarrow> good (tick s) Q"
  using ipc_inv_rewrite(1,2) [of "proc_table s" Q "proc_table (tick s)"] tick_same [of s] tick_links [of s]
    same_ipcD(1) [OF tick_same, of s]
  by (simp add: good_def running_ok_def)

lemma good_schedule:
  assumes "good s Q"
  obtains s' where "schedule s = Some s'" and "good s' Q"
    and "ipc_abs (proc_table s') Q = ipc_abs (proc_table s) Q"
proof -
  note inv = good_inv [OF assms]
  obtain pt r where s: "schedule s = Some (s\<lparr>proc_table := pt, p_proc_ready := r\<rparr>)"
    and pt: "pt = proc_table s \<or> pt = reset_ticks (proc_table s)" and r: "runnable pt r" "0 < ticks (pt r)"
    by (rule schedule_cases [OF idle_can_schedule [OF inv_idle [OF inv]]])
  have "ipc_inv pt Q" "plain pt" "ipc_abs pt Q = ipc_abs (proc_table s) Q"
    using pt inv good_plain [OF assms] ipc_inv_rewrite [OF inv, of "reset_ticks (proc_table s)"]
    by (auto simp: same_ipc_reset frame_simps)
  with s r good_enter [OF assms] show thesis
    by (intro that [OF s]) (simp_all add: good_def running_ok_def)
qed

lemma clock_good:
  assumes g: "good s Q"
  obtains s' where "clock_handler s = Inr s'" and "good s' Q"
proof -
  note gt = good_tick [OF g]
  obtain s3 where s3: "(if key_pressed s \<noteq> 0 then inform_int (tick s) TASK_TTY else Inr (tick s)) = Inr s3"
    and g3: "good s3 Q"
  proof (cases "key_pressed s = 0")
    case True
    with that gt show thesis by simp
  next
    case False
    obtain e a' where e: "spec_interrupt (ipc_abs (proc_table (tick s)) Q) TASK_TTY = (e, a')"
      by (metis surj_pair)
    then have Q: "queue a' = Q" by (auto simp: spec_interrupt_def ipc_abs_def split: if_splits)
    have "\<exists>s'. inform_int (tick s) TASK_TTY = Inr s' \<and> implements (tick s) s' a' \<and>
        p_proc_ready s' = p_proc_ready (tick s)"
      by (rule inform_int_refines [OF good_inv [OF gt] good_plain [OF gt] _ refl e]) simp
    then show thesis using that False good_implements [OF gt] Q by auto
  qed
  show thesis
  proof (cases "k_reenter s3 \<noteq> 0 \<or> 0 < ticks (proc_table s3 (p_proc_ready s3))")
    case True
    with s3 g3 that show thesis by (simp add: clock_handler_tick)
  next
    case False
    obtain s' where "schedule s3 = Some s'" "good s' Q" by (rule good_schedule [OF g3])
    with False s3 that show thesis by (simp add: clock_handler_tick)
  qed
qed

section \<open>The transition system\<close>

text \<open>
  \<open>TestA\<close> makes no system call, and programs pass a message buffer that is not
  null and a partner other than themselves.
\<close>

inductive kstep :: "kstate \<Rightarrow> kstate \<Rightarrow> bool" where
  send: "p_proc_ready s = p \<Longrightarrow> p \<noteq> TEST_A \<Longrightarrow> m \<noteq> 0 \<Longrightarrow> d < NPROC \<Longrightarrow> p \<noteq> d \<Longrightarrow>
    sys_sendrec s SEND (int d) m p = Inr s' \<Longrightarrow> kstep s s'"
| receive: "p_proc_ready s = p \<Longrightarrow> p \<noteq> TEST_A \<Longrightarrow> m \<noteq> 0 \<Longrightarrow> int p \<noteq> src \<Longrightarrow>
    src = ANY \<or> src = INTERRUPT \<or> (0 \<le> src \<and> src < NPROC) \<Longrightarrow>
    sys_sendrec s RECEIVE src m p = Inr s' \<Longrightarrow> kstep s s'"
| clock: "clock_handler s = Inr s' \<Longrightarrow> kstep s s'"
| hd_irq: "inform_int s TASK_HD = Inr s' \<Longrightarrow> kstep s s'"
| user: "kstep s (s\<lparr>mem := m, key_pressed := k\<rparr>)"

inductive_cases kstepE: "kstep s s'"

inductive reachable :: "kstate \<Rightarrow> kstate \<Rightarrow> bool" for s0 where
  start: "reachable s0 s0"
| step: "reachable s0 s \<Longrightarrow> kstep s s' \<Longrightarrow> reachable s0 s'"

lemma good_send:
  assumes g: "good s Q" and p: "p_proc_ready s = p" "p \<noteq> TEST_A" and m: "m \<noteq> 0" and d: "d < NPROC" "p \<noteq> d"
  shows "sys_sendrec s SEND (int d) m p =
       (if (d, p) \<in> (waits_for (proc_table s))\<^sup>+ then Inl (A 276)
        else msg_send (stamp s p m) p (int d) m)"
    and "(d, p) \<notin> (waits_for (proc_table s))\<^sup>+ \<Longrightarrow>
       \<exists>s' Q'. sys_sendrec s SEND (int d) m p = Inr s' \<and> good s' Q'"
proof -
  note gs = g [folded good_stamp [of s p m]]
  have run: "p < NPROC" "p_flags (proc_table s p) = 0" using good_run [OF g] p by auto
  have eq: "sys_sendrec s SEND (int d) m p = msg_send (stamp s p m) p (int d) m"
    using sys_send_eq [OF inv_flat [OF good_inv [OF g]] good_enter [OF g] d] .
  have graph: "wait_graph (ipc_abs (proc_table s) Q) = waits_for (proc_table s)"
    by (rule wait_graph_abs) (rule inv_ok [OF good_inv [OF g]])
  show "sys_sendrec s SEND (int d) m p =
       (if (d, p) \<in> (waits_for (proc_table s))\<^sup>+ then Inl (A 276)
        else msg_send (stamp s p m) p (int d) m)"
    using eq msg_send_deadlock [OF good_inv [OF gs] run(1) d(2,1)] graph by simp
  assume "(d, p) \<notin> (waits_for (proc_table s))\<^sup>+"
  moreover obtain e a' where e: "spec_send (ipc_abs (proc_table (stamp s p m)) Q) p d = (e, a')"
    by (metis surj_pair)
  ultimately have "\<exists>s'. msg_send (stamp s p m) p (int d) m = Inr s' \<and> implements (stamp s p m) s' a' \<and>
      mem s' = effect (stamp s p m) p m e"
    using run graph
    by (intro msg_send_refines [OF good_inv [OF gs] good_plain [OF gs] run(1) d(2) p(2) _ d(1) m refl _ e]) simp_all
  with eq good_implements [OF gs] show "\<exists>s' Q'. sys_sendrec s SEND (int d) m p = Inr s' \<and> good s' Q'"
    by metis
qed

lemma good_receive:
  assumes g: "good s Q" and p: "p_proc_ready s = p" "p \<noteq> TEST_A" and m: "m \<noteq> 0" and src: "int p \<noteq> src"
    "src = ANY \<or> src = INTERRUPT \<or> (0 \<le> src \<and> src < NPROC)"
  shows "(\<exists>s' Q'. sys_sendrec s RECEIVE src m p = Inr s' \<and> good s' Q') \<or>
     (sys_sendrec s RECEIVE src m p = Inl (A 175) \<and> has_int_msg (proc_table s p) \<noteq> 0 \<and> 0 \<le> src \<and> src < NPROC)"
proof -
  note gs = g [folded good_stamp [of s p m]]
  have run: "p < NPROC" "p_flags (proc_table s p) = 0" using good_run [OF g] p by auto
  have eq: "sys_sendrec s RECEIVE src m p = msg_receive (stamp s p m) p src m"
    using sys_receive_eq [OF inv_flat [OF good_inv [OF g]] good_enter [OF g] src] .
  let ?a = "ipc_abs (proc_table (stamp s p m)) Q"
  obtain e a' where e: "spec_receive ?a p src = (e, a')" by (metis surj_pair)
  show ?thesis
  proof (cases "pending ?a p \<and> e = Waits p")
    case False
    then have "\<exists>s'. msg_receive (stamp s p m) p src m = Inr s' \<and> implements (stamp s p m) s' a' \<and>
        mem s' = effect (stamp s p m) p m e"
      using run by (intro msg_receive_refines [OF good_inv [OF gs] good_plain [OF gs] run(1) src(1) p(2) _ m src(2) refl _ e]) auto
    with eq good_implements [OF gs] show ?thesis by metis
  next
    case True
    then have "has_int_msg (proc_table s p) \<noteq> 0" "0 \<le> src" "src < NPROC" "nat src \<notin> set (Q p)"
      using e src by (auto simp: spec_receive_def ipc_abs_def chosen_def split: if_splits option.splits list.splits)
    then show ?thesis
      using eq msg_receive_pending_fails [OF good_inv [OF gs] run(1) src(1) p(2) _ m] run by simp
  qed
qed

lemma good_irq:
  assumes g: "good s Q" and t: "t < NPROC"
  obtains s' where "inform_int s t = Inr s'" and "good s' Q"
proof -
  obtain e a' where e: "spec_interrupt (ipc_abs (proc_table s) Q) t = (e, a')"
    by (metis surj_pair)
  then have Q: "queue a' = Q" by (auto simp: spec_interrupt_def ipc_abs_def split: if_splits)
  have "\<exists>s'. inform_int s t = Inr s' \<and> implements s s' a' \<and> p_proc_ready s' = p_proc_ready s"
    by (rule inform_int_refines [OF good_inv [OF g] good_plain [OF g] t refl e])
  then show thesis using that good_implements [OF g] Q by auto
qed

lemma kstep_good: "kstep s s' \<Longrightarrow> good s Q \<Longrightarrow> \<exists>Q'. good s' Q'"
proof (induction rule: kstep.induct)
  case (send s p m d s')
  show ?case
  proof (cases "(d, p) \<in> (waits_for (proc_table s))\<^sup>+")
    case True
    with good_send(1) [OF send.prems send.hyps(1-5)] send.hyps(6) show ?thesis by simp
  next
    case False
    from good_send(2) [OF send.prems send.hyps(1-5) False] send.hyps(6) show ?thesis by auto
  qed
next
  case (receive s p m src s')
  from good_receive [OF receive.prems receive.hyps(1-5)] receive.hyps(6) show ?case by auto
next
  case (clock s s')
  then show ?case using clock_good [of s Q] by (metis Inr_inject)
next
  case (hd_irq s s')
  have "(TASK_HD :: nat) < NPROC" by simp
  from good_irq [OF hd_irq.prems this] show ?case using hd_irq.hyps by (metis Inr_inject)
next
  case (user s k m)
  then show ?case using good_cong [of "s\<lparr>mem := m, key_pressed := k\<rparr>" s] by auto
qed

lemma reachable_good: "reachable s0 s \<Longrightarrow> good s0 Q \<Longrightarrow> \<exists>Q'. good s Q'"
  by (induction rule: reachable.induct) (auto dest: kstep_good)

lemma boot_good:
  assumes "desc_base (gdt 2) = 0"
  shows "good (kernel_main gdt kmap entry stk m) (\<lambda>_. [])"
  using boot_ipc_inv [of gdt, OF assms] boot_plain boot_flags [of gdt kmap entry stk m 0]
  by (simp add: good_def running_ok_def kernel_main_def)

end
