(* ===== verification/KernelProps.thy ===== *)
theory KernelProps
  imports KStep
begin

unbundle bit_operations_syntax

text \<open>
  The properties of the kernel proper: message passing, scheduling, the clock
  and the boot state.  First the helper states on which they are applied to
  concrete inputs.
\<close>

section \<open>Sample states\<close>

definition sample_boot :: kstate where
  "sample_boot = kernel_main (\<lambda>_. zero_desc) (0x30000, 0x20000) (\<lambda>i. 0x30400 + of_nat i * 64) 0x40000 (\<lambda>_. 0)"

lemma zero_desc_base [simp]: "desc_base zero_desc = 0"
  by (simp add: zero_desc_def desc_base_def)

lemma sample_good: "good sample_boot (\<lambda>_. [])"
  unfolding sample_boot_def by (rule boot_good) simp

lemma sample_fields [simp]:
  "p_proc_ready sample_boot = 0" "k_reenter sample_boot = 0"
  "p_flags (proc_table sample_boot j) = (if 9 \<le> j \<and> j < NPROC then FREE_SLOT else 0)"
  "has_int_msg (proc_table sample_boot j) = 0"
  by (simp_all add: sample_boot_def boot_flags boot_links) (simp_all add: kernel_main_def)

lemma sample_graph [simp]: "waits_for (proc_table sample_boot) = {}"
  by (auto simp: waits_for_def)

lemma sample_abs:
  "stat (ipc_abs (proc_table sample_boot) Q) p = (if 9 \<le> p \<and> p < NPROC then Stopped else Ready)"
  "queue (ipc_abs (proc_table sample_boot) Q) = Q" "pending (ipc_abs (proc_table sample_boot) Q) p = False"
  by (auto simp: ipc_abs_def status_of_def)

text \<open>
  The terminal task has sent to the disk task, which runs next.
\<close>

lemma sample_queued:
  obtains s where "good s (\<lambda>d. if d = 2 then [0] else [])" and "p_proc_ready s = 2"
    and "waits_for (proc_table s) = {(0, 2)}" and "has_int_msg (proc_table s 2) = 0"
    and "p_msg (proc_table s 0) = 64" and "\<And>p va. lin (proc_table s) p va = lin (proc_table sample_boot) p va"
proof -
  let ?s = "stamp sample_boot 0 64" and ?Q = "(\<lambda>_. [])(2 := [] @ [0]) :: queues"
  have g: "good ?s (\<lambda>_. [])" using sample_good by simp
  obtain pt r where inv: "ipc_inv pt ?Q"
    and sp: "same_ipc (mark_sender 2 64 (proc_table ?s 0)) (pt 0)"
    and so: "\<And>x. x \<noteq> 0 \<Longrightarrow> same_ipc (proc_table ?s x) (pt x)"
  proof (rule wait_to_send_ok [OF good_inv [OF g], of 0 2 64], goal_cases)
    case (8 pt r)
    show ?case by (rule 8(1) [OF 8(3,5,6)])
  qed simp_all
  let ?s2 = "?s\<lparr>proc_table := pt, p_proc_ready := 2\<rparr>"
  have flags: "p_flags (pt x) = (if x = 0 then SENDING else p_flags (proc_table sample_boot x))" for x
    using same_ipcD(1) [OF sp] same_ipcD(1) [OF so, of x] by simp
  have "plain pt" by (auto simp: plain_def flags split: if_splits)
  then have "good ?s2 (\<lambda>d. if d = 2 then [0] else [])"
    using inv by (simp add: good_def running_ok_def flags fun_upd_def)
  moreover have "waits_for (proc_table ?s2) = {(0, 2)}"
    using same_ipcD(4) [OF sp] by (auto simp: waits_for_def flags mark_sender_def split: if_splits)
  moreover have "has_int_msg (proc_table ?s2 2) = 0" "p_msg (proc_table ?s2 0) = 64"
    using same_ipcD(2) [OF sp] same_ipcD(5) [OF so, of 2] by (simp_all add: mark_sender_def)
  moreover have "lin (proc_table ?s2) p va = lin (proc_table sample_boot) p va" for p va
    using same_ipcD(6) [OF sp] same_ipcD(6) [OF so, of p]
    by (cases "p = 0") (simp_all add: lin_def ldt_seg_linear_def mark_sender_def)
  ultimately show thesis using that [of ?s2] by simp
qed

text \<open>
  The disk task waits for any message in the buffer at 256.
\<close>

lemma sample_waiting:
  obtains s where "good s (\<lambda>_. [])" and "p_proc_ready s = 0" and "stat (ipc_abs (proc_table s) Q) 2 = Receiving ANY"
    and "p_msg (proc_table s 2) = 256" and "\<And>p va. p < 9 \<Longrightarrow> lin (proc_table s) p va = va"
proof -
  let ?s = "sample_boot"
  obtain pt where inv: "ipc_inv pt (\<lambda>_. [])"
    and sp: "same_ipc (mark_receiver ANY 256 (proc_table ?s 2)) (pt 2)"
    and so: "\<And>x. x \<noteq> 2 \<Longrightarrow> same_ipc (proc_table ?s x) (pt x)"
  proof (rule wait_to_receive_cases [OF good_inv [OF sample_good], of 2 256 ANY], goal_cases)
    case (6 pt r)
    show ?case by (rule 6(1) [OF 6(3,5,6)])
  qed simp_all
  let ?s2 = "?s\<lparr>proc_table := pt, p_proc_ready := 0\<rparr>"
  have flags: "p_flags (pt x) = (if x = 2 then RECEIVING else p_flags (proc_table sample_boot x))" for x
    using same_ipcD(1) [OF sp] same_ipcD(1) [OF so, of x] by simp
  have "plain pt" by (auto simp: plain_def flags split: if_splits)
  then have "good ?s2 (\<lambda>_. [])"
    using inv by (simp add: good_def running_ok_def flags)
  moreover have "stat (ipc_abs (proc_table ?s2) Q) 2 = Receiving ANY"
    using same_ipcD(3) [OF sp] by (simp add: ipc_abs_def status_of_def flags mark_receiver_def)
  moreover have "p_msg (proc_table ?s2 2) = 256"
    using same_ipcD(2) [OF sp] by (simp add: mark_receiver_def)
  moreover have "lin (proc_table ?s2) p va = va" if "p < 9" for p va
    using inv_flat [OF inv] that by (simp add: flat_tasks_def lin_def)
  ultimately show thesis using that [of ?s2] by simp
qed

section \<open>Properties\<close>

text \<open>
  C1: between boot and the first table write of the memory manager, and as long as no
  interrupt is served while a system call runs, message passing stops only where the
  theorem says.  In every state that whole system calls, clock and disk interrupts
  and the code of the processes reach from boot: a send by the running process
  succeeds, or fails assertion 276, exactly when the destination waits, directly or
  indirectly, for the sender (the trace of \<open>deadlock\<close> calls \<open>printf\<close> in the kernel);
  a receive succeeds unless an interrupt message is pending while the process asks for a
  named sender; the clock and the disk interrupt always succeed.
\<close>

theorem ipc_safe_from_boot:
  assumes "desc_base (gdt 2) = 0"
    and "reachable (kernel_main gdt kmap entry stk m0) s"
    and "p_proc_ready s = p" and "p \<noteq> TEST_A" and "m \<noteq> 0" and "d < NPROC" and "p \<noteq> d"
  shows "(if (d, p) \<in> (waits_for (proc_table s))\<^sup>+
          then sys_sendrec s SEND (int d) m p = Inl (A 276)
          else succeeds (sys_sendrec s SEND (int d) m p)) \<and>
         succeeds (sys_sendrec s RECEIVE ANY m p) \<and>
         succeeds (sys_sendrec s RECEIVE INTERRUPT m p) \<and>
         (if succeeds (sys_sendrec s RECEIVE (int d) m p) then True
          else sys_sendrec s RECEIVE (int d) m p = Inl (A 175) \<and> has_int_msg (proc_table s p) \<noteq> 0) \<and>
         succeeds (clock_handler s) \<and> succeeds (inform_int s TASK_HD)"
proof -
  obtain Q where g: "good s Q"
    using reachable_good [OF assms(2) boot_good [of gdt, OF assms(1)]] by blast
  have "(TASK_HD :: nat) < NPROC" by simp
  then have irq: "succeeds (inform_int s TASK_HD)" by (rule good_irq [OF g]) simp
  have clk: "succeeds (clock_handler s)" by (rule clock_good [OF g]) simp
  have rcv: "succeeds (sys_sendrec s RECEIVE src m p) \<or>
      (sys_sendrec s RECEIVE src m p = Inl (A 175) \<and> has_int_msg (proc_table s p) \<noteq> 0 \<and> 0 \<le> src \<and> src < NPROC)"
    if "int p \<noteq> src" "src = ANY \<or> src = INTERRUPT \<or> (0 \<le> src \<and> src < NPROC)" for src
    using good_receive [OF g assms(3-5) that] by auto
  have "p < NPROC" using good_run [OF g] assms(3) by simp
  then have "succeeds (sys_sendrec s RECEIVE ANY m p)" "succeeds (sys_sendrec s RECEIVE INTERRUPT m p)"
    using rcv [of ANY] rcv [of INTERRUPT] by auto
  moreover have "succeeds (sys_sendrec s SEND (int d) m p)" if "(d, p) \<notin> (waits_for (proc_table s))\<^sup>+"
    using good_send(2) [OF g assms(3-7) that] by auto
  ultimately show ?thesis
    using good_send(1) [OF g assms(3-7)] rcv [of "int d"] assms(6,7) irq clk by auto
qed

theorem ipc_safe_from_boot_witness:
  "succeeds (sys_sendrec sample_boot SEND (int 2) 64 0) \<and> succeeds (clock_handler sample_boot)"
proof -
  have "reachable (kernel_main (\<lambda>_. zero_desc) (0x30000, 0x20000) (\<lambda>i. 0x30400 + of_nat i * 64) 0x40000 (\<lambda>_. 0))
      sample_boot"
    unfolding sample_boot_def by (rule reachable.start)
  from ipc_safe_from_boot [OF _ this, of 0 64 2] show ?thesis by simp
qed

text \<open>
  C2: a send of the running process implements the specification: when the
  destination waits for it the 48 bytes of the message are copied and the
  destination becomes ready, otherwise the sender is appended to the
  destination's queue and blocks; the invariant is kept.
\<close>

theorem sys_send_refines:
  assumes "good s Q" and "p_proc_ready s = p" and "p \<noteq> TEST_A" and "m \<noteq> 0" and "d < NPROC" and "p \<noteq> d"
    and "(d, p) \<notin> (wait_graph (ipc_abs (proc_table s) Q))\<^sup>+"
    and "spec_send (ipc_abs (proc_table s) Q) p d = (e, a')"
  shows "\<exists>s'. sys_sendrec s SEND (int d) m p = Inr s' \<and> good s' (queue a') \<and>
     ipc_abs (proc_table s') (queue a') = a' \<and> mem s' = effect (stamp s p m) p m e"
proof -
  have gs: "good (stamp s p m) Q" using assms(1) by simp
  have "p < NPROC" "p_flags (proc_table s p) = 0" using good_run [OF assms(1)] assms(2) by auto
  then have "\<exists>s'. msg_send (stamp s p m) p (int d) m = Inr s' \<and> implements (stamp s p m) s' a' \<and>
      mem s' = effect (stamp s p m) p m e"
    using assms
    by (intro msg_send_refines [OF good_inv [OF gs] good_plain [OF gs]]) simp_all
  then show ?thesis
    using sys_send_eq [OF inv_flat [OF good_inv [OF assms(1)]] good_enter [OF assms(1)] assms(5,6), of m]
      good_implements [OF gs] by (auto simp: implements_def)
qed

theorem sys_send_refines_witness:
  "\<exists>s'. sys_sendrec sample_boot SEND (int 2) 64 0 = Inr s' \<and> good s' ((\<lambda>_. [])(2 := [0]))"
proof -
  let ?a = "ipc_abs (proc_table sample_boot) (\<lambda>_. [])"
  have w: "wait_graph ?a = {}" by (auto simp: wait_graph_def sample_abs)
  have e: "spec_send ?a 0 2 = (Waits 0, ?a\<lparr>stat := (stat ?a)(0 := Sending 2), queue := (\<lambda>_. [])(2 := [0])\<rparr>)"
    by (simp add: spec_send_def accepts_def sample_abs)
  show ?thesis using sys_send_refines [OF sample_good _ _ _ _ _ _ e, of 64] w by auto
qed

text \<open>
  C3: a receive of the running process implements the specification: a pending
  interrupt is delivered first, then the oldest sender (for ANY) or the named
  one is taken out of the queue, its message copied and the sender made ready;
  with no sender the process blocks.
\<close>

theorem sys_receive_refines:
  assumes "good s Q" and "p_proc_ready s = p" and "p \<noteq> TEST_A" and "m \<noteq> 0" and "int p \<noteq> src"
    and "src = ANY \<or> src = INTERRUPT \<or> (0 \<le> src \<and> src < NPROC)"
    and "spec_receive (ipc_abs (proc_table s) Q) p src = (e, a')"
    and "has_int_msg (proc_table s p) \<noteq> 0 \<Longrightarrow> e \<noteq> Waits p"
  shows "\<exists>s'. sys_sendrec s RECEIVE src m p = Inr s' \<and> good s' (queue a') \<and>
     ipc_abs (proc_table s') (queue a') = a' \<and> mem s' = effect (stamp s p m) p m e"
proof -
  have gs: "good (stamp s p m) Q" using assms(1) by simp
  have "p < NPROC" "p_flags (proc_table s p) = 0" using good_run [OF assms(1)] assms(2) by auto
  then have "\<exists>s'. msg_receive (stamp s p m) p src m = Inr s' \<and> implements (stamp s p m) s' a' \<and>
      mem s' = effect (stamp s p m) p m e"
    using assms
    by (intro msg_receive_refines [OF good_inv [OF gs] good_plain [OF gs]]) (simp_all add: ipc_abs_def)
  then show ?thesis
    using sys_receive_eq [OF inv_flat [OF good_inv [OF assms(1)]] good_enter [OF assms(1)] assms(5,6), of m]
      good_implements [OF gs] by (auto simp: implements_def)
qed

theorem sys_receive_refines_witness:
  "\<exists>s s'. good s (\<lambda>d. if d = 2 then [0] else []) \<and> sys_sendrec s RECEIVE ANY 128 2 = Inr s' \<and>
     good s' (\<lambda>_. []) \<and> status_of (proc_table s' 0) = Ready"
proof (rule sample_queued)
  fix s :: kstate
  let ?Q = "\<lambda>d. if d = 2 then [0::nat] else []"
  let ?a = "ipc_abs (proc_table s) ?Q"
  let ?a' = "?a\<lparr>stat := (stat ?a)(0 := Ready), queue := (\<lambda>_. [])\<rparr>"
  assume s: "good s ?Q" "p_proc_ready s = 2" "has_int_msg (proc_table s 2) = 0"
  have "?Q(2 := []) = (\<lambda>_. [])" by auto
  then have e: "spec_receive ?a 2 ANY = (Transfer 0 2, ?a')"
    using s(3) by (simp add: spec_receive_def chosen_def ipc_abs_def)
  obtain s' where "sys_sendrec s RECEIVE ANY 128 2 = Inr s'" "good s' (queue ?a')"
    "ipc_abs (proc_table s') (queue ?a') = ?a'"
    using sys_receive_refines [OF s(1,2) _ _ _ _ e, of 128] s(3) by auto
  moreover from this(3) have "stat (ipc_abs (proc_table s') (queue ?a')) 0 = stat ?a' 0" by (rule arg_cong)
  then have "status_of (proc_table s' 0) = Ready" by (simp add: ipc_abs_def)
  ultimately show ?thesis using s(1) by auto
qed

text \<open>
  C4: a message that is sent to a waiting process arrives: the receiver's
  buffer then holds the sender's message with the sender's number as its
  source, whatever the buffers, as long as they do not overlap.
\<close>

theorem message_arrives:
  assumes "good s Q" and "p_proc_ready s = p" and "p \<noteq> TEST_A" and "m \<noteq> 0" and "d < NPROC" and "p \<noteq> d"
    and "accepts (ipc_abs (proc_table s) Q) d p"
    and "dst = lin (proc_table s) d (p_msg (proc_table s d))" and "src = lin (proc_table s) p m"
    and "MESSAGE_SIZE \<le> unat (dst - src)"
  shows "\<exists>s'. sys_sendrec s SEND (int d) m p = Inr s' \<and> status_of (proc_table s' d) = Ready \<and>
     read_message (mem s') dst = (read_message (mem s) src)\<lparr>source := int p\<rparr>"
proof -
  have inv: "ipc_inv (proc_table s) Q" by (rule good_inv [OF assms(1)])
  have p: "p < NPROC" "p_flags (proc_table s p) = 0" using good_run [OF assms(1)] assms(2) by auto
  have ready: "ready_for (proc_table s) p d"
    using assms(7) by (simp add: accepts_abs [OF good_plain [OF assms(1)]])
  then have fl: "p_flags (proc_table s d) = RECEIVING"
    using good_plain [OF assms(1)] by (auto simp: plain_def ready_for_def)
  then have "(d, p) \<notin> (waits_for (proc_table s))\<^sup>+" by (auto simp: waits_for_def dest: tranclD)
  with ready p fl assms(4-6)
  have "sys_sendrec s SEND (int d) m p = Inr (stamp s p m \<lparr>
      mem := memcpy (mem (stamp s p m)) dst src MESSAGE_SIZE,
      proc_table := upd_proc d wake_receiver (proc_table s)\<rparr>)"
    using sys_send_eq [OF inv_flat [OF inv] good_enter [OF assms(1)] assms(5,6), of m]
      msg_send_cases [of "stamp s p m" Q p d m] deliver_eq [of "stamp s p m" Q p d m] inv
    by (simp add: assms(8,9))
  moreover have "read_message (memcpy (mem (stamp s p m)) dst src MESSAGE_SIZE) dst =
      (read_message (mem s) src)\<lparr>source := int p\<rparr>"
    using read_message_memcpy [of dst src "mem (stamp s p m)"] assms(10) p(1)
    by (simp add: stamp_def assms(9) [symmetric] read_message_stamp sint_pid)
  ultimately show ?thesis by simp
qed

theorem message_arrives_witness:
  "\<exists>s s'. good s (\<lambda>_. []) \<and> sys_sendrec s SEND (int 2) 64 0 = Inr s' \<and>
     read_message (mem s') 256 = (read_message (mem s) 64)\<lparr>source := 0\<rparr>"
proof (rule sample_waiting [of "\<lambda>_. []"])
  fix s :: kstate
  assume s: "good s (\<lambda>_. [])" "p_proc_ready s = 0"
    and w: "stat (ipc_abs (proc_table s) (\<lambda>_. [])) 2 = Receiving ANY" "p_msg (proc_table s 2) = 256"
    and l: "\<And>p va. p < 9 \<Longrightarrow> lin (proc_table s) p va = va"
  have "accepts (ipc_abs (proc_table s) (\<lambda>_. [])) 2 0" using w by (simp add: accepts_def)
  from message_arrives [OF s _ _ _ _ this refl refl, of 64] s(1) w(2) l show ?thesis by auto
qed

text \<open>
  An interrupt during a send breaks it.  \<open>sys_call\<close> enables interrupts before it
  calls \<open>sys_sendrec\<close>.  When the destination waits for any message, the send alone
  delivers the message; when the interrupt for the destination is served after the
  test of line 26 and before line 30, the interrupt succeeds, but the rest of the send
  fails the assertion of line 30, because the interrupt has taken the buffer.
\<close>

theorem interrupt_breaks_send:
  assumes "good s Q" and "p_proc_ready s = p" and "m \<noteq> 0" and "d < NPROC" and "p \<noteq> d"
    and "stat (ipc_abs (proc_table s) Q) d = Receiving ANY"
  shows "succeeds (deliver s p d m) \<and> (\<exists>s1. inform_int s d = Inr s1 \<and> deliver s1 p d m = Inl (A 30))"
proof -
  have p: "p < NPROC" "p_flags (proc_table s p) = 0" using good_run [OF assms(1)] assms(2) by auto
  have fl: "p_flags (proc_table s d) = RECEIVING" "p_recvfrom (proc_table s d) = ANY"
    using assms(6) good_plain [OF assms(1)] assms(4) by (auto simp: ipc_abs_def status_of_def plain_def split: if_splits)
  have ok: "succeeds (deliver s p d m)"
    using deliver_eq [OF good_inv [OF assms(1)] p(1) assms(5,4) p(2) fl(1) assms(3)] by simp
  obtain s1 where s1: "inform_int s d = Inr s1" by (rule good_irq [OF assms(1,4)])
  have "p_msg (proc_table s1 d) = 0"
    using s1 fl by (auto simp: inform_int_def Let_def unblock_def upd_proc_apply split: if_splits)
  then have "deliver s1 p d m = Inl (A 30)" by (simp add: deliver_def)
  with ok s1 show ?thesis by blast
qed

theorem interrupt_breaks_send_witness:
  "\<exists>s s1. succeeds (deliver s 0 2 64) \<and> inform_int s TASK_HD = Inr s1 \<and> deliver s1 0 2 64 = Inl (A 30)"
proof (rule sample_waiting [of "\<lambda>_. []"])
  fix s :: kstate
  assume s: "good s (\<lambda>_. [])" "p_proc_ready s = 0" "stat (ipc_abs (proc_table s) (\<lambda>_. [])) 2 = Receiving ANY"
  show ?thesis using interrupt_breaks_send [OF s(1,2) _ _ _ s(3), of 64] by auto
qed

text \<open>
  C8: \<open>schedule\<close> returns exactly when some runnable process has ticks or a
  positive priority; it then picks the first of the runnable processes with
  the most ticks, after at most one refill, and touches nothing but ticks and
  the ready pointer.
\<close>

theorem schedule_picks_first_max:
  "case schedule s of
     None \<Rightarrow> \<not> can_schedule (proc_table s)
   | Some s' \<Rightarrow> can_schedule (proc_table s) \<and>
       (let r = p_proc_ready s'; pt = proc_table s' in
         (pt = proc_table s \<or> pt = reset_ticks (proc_table s)) \<and>
         s' = s\<lparr>proc_table := pt, p_proc_ready := r\<rparr> \<and>
         runnable pt r \<and> 0 < ticks (pt r) \<and>
         (\<forall>q < NPROC. p_flags (pt q) = 0 \<longrightarrow> ticks (pt q) \<le> ticks (pt r) \<and>
            (q < r \<longrightarrow> ticks (pt q) < ticks (pt r))))"
proof (cases "can_schedule (proc_table s)")
  case True
  then show ?thesis by (rule schedule_max) (simp add: Let_def True)
next
  case False
  then show ?thesis by (cases "schedule s") (auto dest: schedule_only_if)
qed

theorem schedule_picks_first_max_witness:
  "\<exists>s'. schedule sample_boot = Some s' \<and> ticks (proc_table s' 6) \<le> ticks (proc_table s' (p_proc_ready s'))"
proof -
  have c: "can_schedule (proc_table sample_boot)"
    using good_inv [OF sample_good] by (intro idle_can_schedule) (rule inv_idle)
  then show ?thesis
    using schedule_picks_first_max [of sample_boot]
    by (cases "schedule sample_boot") (auto simp: Let_def dest!: spec [where x = 6])
qed

text \<open>
  C12: \<open>deadlock\<close> ends on every table that satisfies the invariant and tells the two
  cases apart: it returns 0 when the destination does not wait for the sender; when it
  does, through a chain of blocked senders of any length, it never returns 1 but fails
  the assertion of line 276, which the \<open>printf\<close> of its trace runs into.
\<close>

theorem deadlock_detection_exact:
  assumes "ipc_inv pt Q" and "dest < NPROC"
  shows "deadlock pt src dest = Some (if (dest, src) \<in> (waits_for pt)\<^sup>+ then Inl (A 276) else Inr False)"
  using deadlock_exact assms by simp

theorem deadlock_detection_exact_witness:
  "\<exists>pt. deadlock pt 2 0 = Some (Inl (A 276)) \<and> deadlock pt 0 2 = Some (Inr False)"
proof (rule sample_queued)
  fix s :: kstate
  assume s: "good s (\<lambda>d. if d = 2 then [0] else [])" and w: "waits_for (proc_table s) = {(0, 2)}"
  have "(2, 0) \<notin> {(0 :: nat, 2 :: nat)}\<^sup>+"
  proof
    assume "(2, 0) \<in> {(0 :: nat, 2 :: nat)}\<^sup>+"
    from tranclD2 [OF this] show False by simp
  qed
  moreover have "(0, 2) \<in> {(0 :: nat, 2 :: nat)}\<^sup>+" by (rule r_into_trancl) simp
  ultimately show ?thesis
    using deadlock_detection_exact [OF good_inv [OF s], of 0 2]
      deadlock_detection_exact [OF good_inv [OF s], of 2 0] w by auto
qed

text \<open>
  A clock interrupt in user mode counts one tick, wrapping at
  \<open>MAX_TICKS\<close>; while the running process has ticks left it keeps the
  processor, otherwise the process with the most ticks runs next.
\<close>

theorem clock_slices_time:
  assumes "good s Q" and "key_pressed s = 0"
  shows "\<exists>s'. clock_handler s = Inr s' \<and>
     sys_ticks s' = (if sys_ticks s + 1 \<ge> MAX_TICKS then 0 else sys_ticks s + 1) \<and>
     (if 1 < ticks (proc_table s (p_proc_ready s)) then s' = tick s
      else runnable (proc_table s') (p_proc_ready s') \<and>
        (\<forall>q < NPROC. p_flags (proc_table s' q) = 0 \<longrightarrow>
           ticks (proc_table s' q) \<le> ticks (proc_table s' (p_proc_ready s'))))"
proof (cases "1 < ticks (proc_table s (p_proc_ready s))")
  case True
  then show ?thesis
    using assms(2) by (simp add: clock_handler_tick) (simp add: tick_def)
next
  case False
  then have t: "ticks (proc_table (tick s) (p_proc_ready s)) \<le> 0" by (auto simp: tick_def Let_def)
  have k: "k_reenter s = 0" by (rule good_enter [OF assms(1)])
  have c: "can_schedule (proc_table (tick s))"
    by (rule idle_can_schedule) (rule inv_idle [OF good_inv [OF good_tick [OF assms(1)]]])
  have st: "sys_ticks (tick s) = (if sys_ticks s + 1 \<ge> MAX_TICKS then 0 else sys_ticks s + 1)"
    by (simp add: tick_def Let_def)
  obtain pt r where sch: "schedule (tick s) = Some (tick s \<lparr>proc_table := pt, p_proc_ready := r\<rparr>)"
    and "pt = proc_table (tick s) \<or> pt = reset_ticks (proc_table (tick s))" and "runnable pt r"
    and "0 < ticks (pt r)" and "\<forall>q. runnable pt q \<longrightarrow> ticks (pt q) \<le> ticks (pt r)"
    and "\<forall>q < r. runnable pt q \<longrightarrow> ticks (pt q) < ticks (pt r)"
    by (rule schedule_max [OF c])
  moreover have "clock_handler s = Inr (tick s \<lparr>proc_table := pt, p_proc_ready := r\<rparr>)"
    using t k assms(2) sch by (simp add: clock_handler_tick)
  ultimately show ?thesis using False st by simp
qed

theorem clock_slices_time_witness: "\<exists>s'. clock_handler sample_boot = Inr s' \<and> sys_ticks s' = 1"
proof -
  have "key_pressed sample_boot = 0" "sys_ticks sample_boot = 0"
    by (simp_all add: sample_boot_def kernel_main_def)
  with clock_slices_time [OF sample_good] show ?thesis by fastforce
qed

text \<open>
  A process with a pending interrupt message that asks for a message of a
  particular process, none of whose sends waits, always ends in the assertion
  at line 175 of \<open>proc.c\<close> (the state is a legal one: \<open>has_int_msg\<close> is 1).
\<close>

theorem receive_named_with_pending_interrupt_fails:
  assumes "good s Q" and "p_proc_ready s = p" and "p \<noteq> TEST_A" and "m \<noteq> 0" and "f < NPROC" and "p \<noteq> f"
    and "has_int_msg (proc_table s p) \<noteq> 0" and "f \<notin> set (Q p)"
  shows "sys_sendrec s RECEIVE (int f) m p = Inl (A 175)"
proof -
  have gs: "good (stamp s p m) Q" using assms(1) by simp
  have "p < NPROC" "p_flags (proc_table s p) = 0" using good_run [OF assms(1)] assms(2) by auto
  then have "msg_receive (stamp s p m) p (int f) m = Inl (A 175)"
    using assms by (intro msg_receive_pending_fails [OF good_inv [OF gs]]) simp_all
  then show ?thesis
    using sys_receive_eq [OF inv_flat [OF good_inv [OF assms(1)]] good_enter [OF assms(1)], of p "int f" m]
      assms(5,6) by simp
qed

theorem receive_named_with_pending_interrupt_fails_witness:
  "\<exists>s. good s (\<lambda>_. []) \<and> sys_sendrec s RECEIVE (int 3) 64 0 = Inl (A 175)"
proof -
  let ?s = "sample_boot\<lparr>proc_table := upd_proc 0 (\<lambda>p. p\<lparr>has_int_msg := 1\<rparr>) (proc_table sample_boot)\<rparr>"
  have g: "good ?s (\<lambda>_. [])"
    using sample_good by (auto simp: good_def running_ok_def ipc_inv_has_int plain_def upd_proc_apply)
  then show ?thesis
    using receive_named_with_pending_interrupt_fails [OF g, of 0 64 3] by auto
qed

text \<open>
  C33: after boot every native process is ready with its own stack, 32 KB below
  the next, the flat segments of the loader (or, for INIT, segments from 0 with
  the kernel's extent in 4 KB units) at its own privilege level, and every other
  slot is free.
\<close>

theorem boot_table:
  assumes "s = kernel_main gdt kmap entry stk m" and "i < NPROC"
  shows "if i < 9
     then p_flags (proc_table s i) = 0 \<and> p_parent (proc_table s i) = NO_TASK \<and>
       eip (regs (proc_table s i)) = entry i \<and>
       esp (regs (proc_table s i)) = stk + (9 - of_nat i) * 0x8000 \<and>
       priority (proc_table s i) = (if i < NR_TASKS then 15 else 5) \<and>
       attr1 (ldts (proc_table s i) INDEX_LDT_RW) = (if i < NR_TASKS then 0xB2 else 0xF2) \<and>
       (i = INIT \<longrightarrow> ldt_seg_linear (proc_table s i) INDEX_LDT_RW = 0) \<and>
       (i \<noteq> INIT \<longrightarrow> ldt_seg_linear (proc_table s i) INDEX_LDT_RW = desc_base (gdt 2))
     else p_flags (proc_table s i) = FREE_SLOT"
proof (cases "i < 9")
  case True
  have eip: "initial_eip (native_task entry i) = entry i"
    using True by (auto simp: native_task_def task_table_def user_proc_table_def less_Suc_eq numeral_eq_Suc)
  let ?p = "proc_table s i" and ?name = "task_name (native_task entry i)"
  have e: "?p = boot_proc gdt kmap (native_task entry i) i (stk + STACK_SIZE_TOTAL - of_nat i * 0x8000)
      (init_prot_proc i)"
    using boot_entry [OF True] by (simp only: assms(1))
  have name: "?name = ''INIT'' \<longleftrightarrow> i = INIT" by (rule name_native [OF True])
  have seg: "i = INIT \<Longrightarrow> ldt_seg_linear ?p INDEX_LDT_RW = 0"
    "i \<noteq> INIT \<Longrightarrow> ldt_seg_linear ?p INDEX_LDT_RW = desc_base (gdt 2)"
    unfolding ldt_seg_linear_def e
    using name by (auto simp: boot_proc_def Let_def boot_ldts_def desc_base_init split: prod.splits)
       (simp_all add: desc_base_def)
  have at: "attr1 (ldts ?p INDEX_LDT_RW) = (if i < NR_TASKS then 0xB2 else 0xF2)"
    by (simp add: e boot_proc_def Let_def boot_ldts_def name attr1_init split: prod.splits)
  have regs: "eip (regs ?p) = entry i" "esp (regs ?p) = stk + (9 - of_nat i) * 0x8000"
    by (simp_all add: e boot_proc_def Let_def boot_regs_def eip algebra_simps)
  have rest: "p_flags ?p = 0" "p_parent ?p = NO_TASK" "priority ?p = (if i < NR_TASKS then 15 else 5)"
    by (simp_all add: e boot_proc_def Let_def)
  show ?thesis using True seg at regs rest by simp
next
  case False
  then show ?thesis using assms by (simp add: boot_free)
qed

theorem boot_table_witness:
  "esp (regs (proc_table sample_boot 0)) = 0x88000 \<and> p_flags (proc_table sample_boot 20) = FREE_SLOT"
  using boot_table [OF sample_boot_def, of 0] boot_table [OF sample_boot_def, of 20] by simp

end
