(* ===== verification/Hd.thy ===== *)
theory Hd
  imports Consts
begin

unbundle bit_operations_syntax

text \<open>
  The hard disk driver, \<open>kernel/hd.c\<close> and \<open>include/sys/hd.h\<close>: the command
  registers, the partition tables, open, close, read, write and ioctl.  The
  drive itself is part of the state: its sectors, the answer to IDENTIFY, and
  whether its status register shows the awaited bits before the timeout.  It
  executes a command as the ATA standard says: the four address registers hold
  a 28-bit sector number, the count register 1 to 256 sectors (0 is 256).
  Waiting for the disk interrupt is a point of the sequential code.
\<close>

section \<open>Data\<close>

record hd_cmd =
  features :: u8
  count :: u8
  lba_low :: u8
  lba_mid :: u8
  lba_high :: u8
  device :: u8
  command :: u8

record part_ent =
  boot_ind :: u8
  start_head :: u8
  start_sector :: u8
  start_cyl :: u8
  sys_id :: u8
  end_head :: u8
  end_sector :: u8
  end_cyl :: u8
  start_sect :: u32
  nr_sects :: u32

record part_info =
  base :: u32
  psize :: u32

record hd_info =
  open_cnt :: int
  primary :: "nat \<Rightarrow> part_info"
  logical :: "nat \<Rightarrow> part_info"

record hd_state =
  hd_info :: hd_info
  sectors :: "nat \<Rightarrow> nat \<Rightarrow> u8"
  identify :: "nat \<Rightarrow> u16"
  responds :: bool

abbreviation (input) ATA_READ :: u8 where "ATA_READ \<equiv> 0x20"
abbreviation (input) ATA_WRITE :: u8 where "ATA_WRITE \<equiv> 0x30"
abbreviation (input) ATA_IDENTIFY :: u8 where "ATA_IDENTIFY \<equiv> 0xEC"
abbreviation (input) NO_PART :: u8 where "NO_PART \<equiv> 0"
abbreviation (input) PARTITION_TABLE_OFFSET :: nat where "PARTITION_TABLE_OFFSET \<equiv> 0x1BE"
abbreviation (input) AH :: "nat \<Rightarrow> kfail" where "AH \<equiv> Assertion ''kernel/hd.c''"

section \<open>Devices and commands\<close>

definition DRV_OF_DEV :: "int \<Rightarrow> int" where
  "DRV_OF_DEV dev = (if dev \<le> MAX_PRIM then dev sdiv NR_PRIM_PER_DRIVE else (dev - MINOR_hd1a) sdiv NR_SUB_PER_DRIVE)"

definition MAKE_DEVICE_REG :: "u8 \<Rightarrow> u8 \<Rightarrow> u8 \<Rightarrow> u8" where
  "MAKE_DEVICE_REG lba drv lba_highest = (push_bit 6 lba OR push_bit 4 drv OR (lba_highest AND 0xF) OR 0xA0)"

definition make_cmd :: "u8 \<Rightarrow> u32 \<Rightarrow> u8 \<Rightarrow> u8 \<Rightarrow> hd_cmd" where
  "make_cmd drive sect_nr cnt c =
    \<lparr>features = 0, count = cnt,
     lba_low = ucast (sect_nr AND 0xFF),
     lba_mid = ucast (drop_bit 8 sect_nr AND 0xFF),
     lba_high = ucast (drop_bit 16 sect_nr AND 0xFF),
     device = MAKE_DEVICE_REG 1 drive (ucast (drop_bit 24 sect_nr AND 0xF)),
     command = c\<rparr>"

text \<open>What the drive makes of the registers.\<close>

definition cmd_lba :: "hd_cmd \<Rightarrow> u32" where
  "cmd_lba c = ucast (lba_low c) OR push_bit 8 (ucast (lba_mid c)) OR push_bit 16 (ucast (lba_high c))
     OR push_bit 24 (ucast (device c AND 0xF))"

definition cmd_sectors :: "hd_cmd \<Rightarrow> nat" where
  "cmd_sectors c = (if count c = 0 then 256 else unat (count c))"

lemma cmd_lba_make [simp]:
  "cmd_lba (make_cmd drive sect_nr cnt c) = take_bit 28 sect_nr"
proof (rule bit_word_eqI)
  fix n assume n: "n < LENGTH(32)"
  consider "n < 8" | "8 \<le> n" "n < 16" | "16 \<le> n" "n < 24" | "24 \<le> n" "n < 28" | "28 \<le> n" by linarith
  then show "bit (cmd_lba (make_cmd drive sect_nr cnt c)) n = bit (take_bit 28 sect_nr) n"
  proof cases
    case 4
    then have r: "n - 24 < 4" by linarith
    have "\<not> bit (push_bit 4 (0xA :: u8)) (n - 24)"
      unfolding bit_push_bit_iff using r by simp
    then have "\<not> bit (0xA0 :: u8) (n - 24)" by simp
    moreover from 4 have "n - 24 < 4" "n - 24 < 8" "24 + (n - 24) = n" "\<not> n - 8 < 8" "\<not> n - 16 < 8"
      "\<not> 4 \<le> n - 24" by linarith+
    ultimately show ?thesis using 4 n
      by (simp add: cmd_lba_def make_cmd_def MAKE_DEVICE_REG_def word_and_masks bit_simps)
  qed (use n in \<open>auto simp: cmd_lba_def make_cmd_def MAKE_DEVICE_REG_def word_and_masks bit_simps\<close>)
qed

lemma count_make [simp]: "count (make_cmd drive sect_nr cnt c) = cnt"
  by (simp add: make_cmd_def)

lemma take_bit_28: "x < 2 ^ 28 \<Longrightarrow> take_bit 28 x = (x :: u32)"
  using bit_word_less_exp [of x 28] by (intro bit_word_eqI) (auto simp: bit_simps)

section \<open>Reading and writing sectors\<close>

definition hd_cmd_out :: "hd_state \<Rightarrow> 'a kres \<Rightarrow> 'a kres" where
  "hd_cmd_out s k = ensure (responds s) (Panic ''hd error'') k"

text \<open>
  The transfer loop: sectors left, number of the sector inside the command,
  offset in the buffer.  After the last sector of a command the drive raises no
  further interrupt and asks for no further data.
\<close>

fun read_loop :: "hd_state \<Rightarrow> hd_cmd \<Rightarrow> nat \<Rightarrow> nat \<Rightarrow> (nat \<Rightarrow> u8) \<Rightarrow> (nat \<Rightarrow> u8) kres" where
  "read_loop s cmd 0 k la = Inr la"
| "read_loop s cmd (Suc n) k la =
    ensure (k < cmd_sectors cmd) Hang
      (read_loop s cmd n (Suc k) (blit la (k * SECTOR_SIZE) (sectors s (unat (cmd_lba cmd) + k)) SECTOR_SIZE))"

fun write_loop :: "hd_state \<Rightarrow> hd_cmd \<Rightarrow> nat \<Rightarrow> nat \<Rightarrow> (nat \<Rightarrow> u8) \<Rightarrow> hd_state kres" where
  "write_loop s cmd 0 k la = Inr s"
| "write_loop s cmd (Suc n) k la =
    ensure (responds s \<and> k < cmd_sectors cmd) (Panic ''hd writing error.'')
      (write_loop (s\<lparr>sectors := (sectors s)(unat (cmd_lba cmd) + k :=
          blit (sectors s (unat (cmd_lba cmd) + k)) 0 (\<lambda>i. la (k * SECTOR_SIZE + i)) SECTOR_SIZE)\<rparr>)
        cmd n (Suc k) la)"

text \<open>The base sector of the partition a minor device number names.\<close>

definition part_of :: "hd_info \<Rightarrow> int \<Rightarrow> part_info kres" where
  "part_of hdi dev =
    (if dev < MAX_PRIM
     then ensure (0 \<le> dev \<and> dev < NR_PRIM_PER_DRIVE) (Bad_access ''primary'') (Inr (primary hdi (nat dev)))
     else let logidx = (dev - MINOR_hd1a) smod NR_SUB_PER_DRIVE in
       ensure (0 \<le> logidx) (Bad_access ''logical'') (Inr (logical hdi (nat logidx))))"

text \<open>
  \<open>hd_rdwt\<close>: the buffer of the message is an array from its address on.
  \<open>1 << 31\<close> is an int, negative, and becomes the largest 64-bit values, so the
  first assertion holds for every position.  A byte count that is no multiple
  of the sector size steps over the loop's exit test: that loop does not end.
\<close>

definition hd_rdwt ::
    "hd_state \<Rightarrow> int \<Rightarrow> int \<Rightarrow> u64 \<Rightarrow> int \<Rightarrow> (nat \<Rightarrow> u8) \<Rightarrow> ((nat \<Rightarrow> u8) \<times> hd_state) kres" where
  "hd_rdwt s typ dev pos cnt la =
    ensure (DRV_OF_DEV dev = 0) (Bad_access ''hd_info'') (
    ensure (drop_bit SECTOR_SIZE_SHIFT pos < word_of_int (- (2 ^ 31))) (AH 269) (
    ensure (pos AND 0x1FF = 0) (AH 271) (
    rbind (part_of (hd_info s) dev) (\<lambda>part.
    let sect_nr = ucast (drop_bit SECTOR_SIZE_SHIFT pos) + base part;
        cmd = make_cmd 0 sect_nr (word_of_int ((cnt + SECTOR_SIZE - 1) sdiv SECTOR_SIZE))
                (if typ = DEV_READ then ATA_READ else ATA_WRITE) in
    hd_cmd_out s (
    if cnt < 0 \<or> cnt mod SECTOR_SIZE \<noteq> 0 then Inl Hang
    else if typ = DEV_READ
    then rbind (read_loop s cmd (nat (cnt div SECTOR_SIZE)) 0 la) (\<lambda>la'. Inr (la', s))
    else rbind (write_loop s cmd (nat (cnt div SECTOR_SIZE)) 0 la) (\<lambda>s'. Inr (la, s')))))))"

section \<open>Partitions\<close>

definition le32 :: "(nat \<Rightarrow> u8) \<Rightarrow> nat \<Rightarrow> u32" where
  "le32 b i = ucast (b i) OR push_bit 8 (ucast (b (i + 1))) OR push_bit 16 (ucast (b (i + 2)))
     OR push_bit 24 (ucast (b (i + 3)))"

definition part_entry :: "(nat \<Rightarrow> u8) \<Rightarrow> nat \<Rightarrow> part_ent" where
  "part_entry b i = (let o16 = PARTITION_TABLE_OFFSET + 16 * i in
     \<lparr>boot_ind = b o16, start_head = b (o16 + 1), start_sector = b (o16 + 2), start_cyl = b (o16 + 3),
      sys_id = b (o16 + 4), end_head = b (o16 + 5), end_sector = b (o16 + 6), end_cyl = b (o16 + 7), start_sect = le32 b (o16 + 8), nr_sects = le32 b (o16 + 12)\<rparr>)"

definition get_part_table :: "hd_state \<Rightarrow> u32 \<Rightarrow> (nat \<Rightarrow> part_ent) kres" where
  "get_part_table s sect_nr =
     hd_cmd_out s (Inr (part_entry (sectors s (unat (cmd_lba (make_cmd 0 sect_nr 1 ATA_READ))))))"

text \<open>The chain of an extended partition: steps left, \<open>i\<close>, \<open>s\<close>.\<close>

fun extended_loop :: "hd_state \<Rightarrow> nat \<Rightarrow> u32 \<Rightarrow> nat \<Rightarrow> nat \<Rightarrow> u32 \<Rightarrow> hd_info \<Rightarrow> hd_info kres" where
  "extended_loop st nr_1st_sub ext_start_sect 0 i s hdi = Inr hdi"
| "extended_loop st nr_1st_sub ext_start_sect (Suc n) i s hdi =
    rbind (get_part_table st s) (\<lambda>tbl.
    let hdi' = hdi\<lparr>logical := (logical hdi)(nr_1st_sub + i :=
          \<lparr>base = s + start_sect (tbl 0), psize = nr_sects (tbl 0)\<rparr>)\<rparr> in
    if sys_id (tbl 1) = NO_PART then Inr hdi'
    else extended_loop st nr_1st_sub ext_start_sect n (Suc i) (ext_start_sect + start_sect (tbl 1)) hdi')"

definition partition_extended :: "hd_state \<Rightarrow> nat \<Rightarrow> hd_info \<Rightarrow> hd_info kres" where
  "partition_extended st dev hdi =
    (let j = dev mod NR_PRIM_PER_DRIVE; start = base (primary hdi j) in
     ensure (1 \<le> j) (Bad_access ''logical'')
       (extended_loop st ((j - 1) * NR_SUB_PER_PART) start NR_SUB_PER_PART 0 start hdi))"

text \<open>
  Line 209 reads \<open>if(part_tbl[i].sys_id = EXT_PART)\<close>: an assignment of 5, so
  every used primary partition is searched for logical ones.
\<close>

fun primary_loop :: "hd_state \<Rightarrow> (nat \<Rightarrow> part_ent) \<Rightarrow> nat \<Rightarrow> nat \<Rightarrow> nat \<Rightarrow> hd_info \<Rightarrow> (nat \<times> hd_info) kres" where
  "primary_loop st tbl 0 i nr hdi = Inr (nr, hdi)"
| "primary_loop st tbl (Suc n) i nr hdi =
    (if sys_id (tbl i) = NO_PART then primary_loop st tbl n (Suc i) nr hdi
     else let dev_nr = i + 1;
              hdi' = hdi\<lparr>primary := (primary hdi)(dev_nr :=
                \<lparr>base = start_sect (tbl i), psize = nr_sects (tbl i)\<rparr>)\<rparr> in
       rbind (partition_extended st dev_nr hdi') (\<lambda>hdi''. primary_loop st tbl n (Suc i) (nr + 1) hdi''))"

definition partition_primary :: "hd_state \<Rightarrow> hd_info \<Rightarrow> hd_info kres" where
  "partition_primary st hdi =
    rbind (get_part_table st 0) (\<lambda>tbl.
    rbind (primary_loop st tbl NR_PART_PER_DRIVE 0 0 hdi) (\<lambda>(nr_prim_parts, hdi').
    ensure (nr_prim_parts \<noteq> 0) (AH 213) (Inr hdi')))"

section \<open>Open, close, ioctl\<close>

definition hd_identify :: "hd_state \<Rightarrow> hd_state kres" where
  "hd_identify s = hd_cmd_out s (Inr (s\<lparr>hd_info := (hd_info s)\<lparr>primary := (primary (hd_info s))(0 :=
     \<lparr>base = 0, psize = push_bit 16 (ucast (identify s 61)) + ucast (identify s 60)\<rparr>)\<rparr>\<rparr>))"

definition hd_open :: "hd_state \<Rightarrow> int \<Rightarrow> hd_state kres" where
  "hd_open s dev =
    ensure (DRV_OF_DEV dev = 0) (AH 167) (
    rbind (hd_identify s) (\<lambda>s1.
    let hdi = (hd_info s1)\<lparr>open_cnt := open_cnt (hd_info s1) + 1\<rparr> in
    if open_cnt (hd_info s1) = 0
    then rbind (partition_primary s1 hdi) (\<lambda>hdi'. Inr (s1\<lparr>hd_info := hdi'\<rparr>))
    else Inr (s1\<lparr>hd_info := hdi\<rparr>)))"

definition hd_close :: "hd_state \<Rightarrow> int \<Rightarrow> hd_state kres" where
  "hd_close s dev =
    ensure (DRV_OF_DEV dev = 0) (AH 262)
      (Inr (s\<lparr>hd_info := (hd_info s)\<lparr>open_cnt := open_cnt (hd_info s) - 1\<rparr>\<rparr>))"

abbreviation (input) DIOCTL_GET_GEO :: int where "DIOCTL_GET_GEO \<equiv> 1"

definition hd_ioctl :: "hd_state \<Rightarrow> int \<Rightarrow> int \<Rightarrow> part_info kres" where
  "hd_ioctl s dev request =
    ensure (DRV_OF_DEV dev = 0) (Bad_access ''hd_info'') (
    if request = DIOCTL_GET_GEO then part_of (hd_info s) dev else Inl (AH 318))"

text \<open>One message of the driver's main loop; the buffer of the message goes along.\<close>

definition task_hd_step ::
    "hd_state \<Rightarrow> int \<Rightarrow> int \<Rightarrow> u64 \<Rightarrow> int \<Rightarrow> (nat \<Rightarrow> u8) \<Rightarrow> ((nat \<Rightarrow> u8) \<times> hd_state) kres" where
  "task_hd_step s typ dev pos cnt la =
    (if typ = DEV_OPEN then rbind (hd_open s dev) (\<lambda>s'. Inr (la, s'))
     else if typ = DEV_CLOSE then rbind (hd_close s dev) (\<lambda>s'. Inr (la, s'))
     else if typ = DEV_READ \<or> typ = DEV_WRITE then hd_rdwt s typ dev pos cnt la
     else if typ = DEV_IOCTL then rbind (hd_ioctl s dev cnt) (\<lambda>g.
       Inr (\<lambda>i. if i < 4 then ucast (drop_bit (8 * i) (base g))
                else if i < 8 then ucast (drop_bit (8 * (i - 4)) (psize g)) else la i, s))
     else Inl (Panic ''FS::main_loop (invalid msg.type)''))"

end
