(* ===== verification/BlockDev.thy ===== *)
theory BlockDev
  imports Hd
begin

unbundle bit_operations_syntax

text \<open>
  What the file system relies on when it talks to the disk driver: a block
  device, stated as a locale, and its interpretation on the driver's reads and
  writes within a partition.
\<close>

section \<open>The interface\<close>

locale block_device =
  fixes get :: "'s \<Rightarrow> nat \<Rightarrow> nat \<Rightarrow> u8"
    and put :: "'s \<Rightarrow> nat \<Rightarrow> (nat \<Rightarrow> u8) \<Rightarrow> 's"
  assumes get_put_same: "i < SECTOR_SIZE \<Longrightarrow> get (put s b f) b i = f i"
    and get_put_other: "b \<noteq> b' \<Longrightarrow> get (put s b f) b' = get s b'"
begin

text \<open>A sequence of writes: each block holds what was written last.\<close>

definition puts :: "'s \<Rightarrow> (nat \<times> (nat \<Rightarrow> u8)) list \<Rightarrow> 's" where
  "puts s ws = fold (\<lambda>(b, f) s. put s b f) ws s"

lemma puts_simps [simp]: "puts s [] = s" "puts s ((b, f) # ws) = puts (put s b f) ws"
  by (simp_all add: puts_def)

lemma get_puts_notin: "b \<notin> fst ` set ws \<Longrightarrow> get (puts s ws) b = get s b"
  by (induction ws arbitrary: s) (auto simp: get_put_other)

lemma get_puts:
  "i < SECTOR_SIZE \<Longrightarrow> get (puts s ws) b i = (case map_of (rev ws) b of None \<Rightarrow> get s b i | Some f \<Rightarrow> f i)"
proof (induction ws arbitrary: s)
  case (Cons w ws)
  obtain c f where w: "w = (c, f)" by (cases w)
  then show ?case
    using Cons.IH [OF Cons.prems, of "put s c f"] Cons.prems
    by (auto simp: map_add_def get_put_same get_put_other split: option.splits)
qed simp

lemma get_put: "i < SECTOR_SIZE \<Longrightarrow> get (put s b f) b' i = (if b' = b then f i else get s b' i)"
  by (simp add: get_put_same get_put_other)

end

section \<open>A partition of the disk\<close>

definition part_block :: "part_info \<Rightarrow> hd_state \<Rightarrow> nat \<Rightarrow> nat \<Rightarrow> u8" where
  "part_block p s n = sectors s (unat (base p) + n)"

definition part_put :: "part_info \<Rightarrow> hd_state \<Rightarrow> nat \<Rightarrow> (nat \<Rightarrow> u8) \<Rightarrow> hd_state" where
  "part_put p s n f = s\<lparr>sectors := (sectors s)(unat (base p) + n :=
     blit (sectors s (unat (base p) + n)) 0 f SECTOR_SIZE)\<rparr>"

interpretation disk: block_device "part_block p" "part_put p" for p
  by unfold_locales (simp_all add: part_block_def part_put_def blit_def)

lemma part_put_frame [frame_simps]:
  "hd_info (part_put p s n f) = hd_info s" "responds (part_put p s n f) = responds s"
  "identify (part_put p s n f) = identify s"
  by (simp_all add: part_put_def)

text \<open>The sectors outside a partition are not touched by writes inside.\<close>

lemma sectors_part_put: "l \<noteq> unat (base p) + n \<Longrightarrow> sectors (part_put p s n f) l = sectors s l"
  by (simp add: part_put_def)

section \<open>The driver implements it\<close>

definition dev_ok :: "hd_state \<Rightarrow> int \<Rightarrow> part_info \<Rightarrow> bool" where
  "dev_ok s dev p \<longleftrightarrow> DRV_OF_DEV dev = 0 \<and> part_of (hd_info s) dev = Inr p \<and> responds s"

text \<open>The sectors a request for \<open>c\<close> sectors from \<open>n\<close> on can reach: a 28-bit number, at most 256 of them.\<close>

definition in_reach :: "part_info \<Rightarrow> nat \<Rightarrow> nat \<Rightarrow> bool" where
  "in_reach p n c \<longleftrightarrow> unat (base p) + n + c \<le> 2 ^ 28 \<and> 0 < c \<and> c \<le> 256"

lemma read_loop_eq:
  "k + n \<le> cmd_sectors cmd \<Longrightarrow> read_loop s cmd n k la =
    Inr (\<lambda>i. if k * SECTOR_SIZE \<le> i \<and> i < (k + n) * SECTOR_SIZE
              then sectors s (unat (cmd_lba cmd) + i div SECTOR_SIZE) (i mod SECTOR_SIZE) else la i)"
proof (induction n arbitrary: k la)
  case 0
  then show ?case by (auto simp: fun_eq_iff)
next
  case (Suc n)
  have split: "k * 512 \<le> i \<and> i < (Suc k + n) * 512 \<longleftrightarrow>
      (k * 512 \<le> i \<and> i < k * 512 + 512) \<or> (Suc k * 512 \<le> i \<and> i < (Suc k + n) * 512)" for i
    by auto
  have here: "i div 512 = k \<and> i mod 512 = i - k * 512" if "k * 512 \<le> i" "i < k * 512 + 512" for i
    using that by (metis add.commute add_diff_cancel_left' div_mult_mod_eq dividend_less_div_times le_antisym
        less_mult_imp_div_less mult.commute mult_Suc_right not_less_eq_eq times_div_less_eq_dividend
        verit_comp_simplify1(3) zero_less_numeral div_le_mono nonzero_mult_div_cancel_right zero_neq_numeral)
  show ?case
    using Suc.IH [of "Suc k"] Suc.prems here
    by (auto simp: fun_eq_iff blit_def)
qed

lemma write_loop_eq:
  "k + n \<le> cmd_sectors cmd \<Longrightarrow> responds s \<Longrightarrow> write_loop s cmd n k la =
    Inr (s\<lparr>sectors := (\<lambda>l. if unat (cmd_lba cmd) + k \<le> l \<and> l < unat (cmd_lba cmd) + k + n
      then blit (sectors s l) 0 (\<lambda>i. la ((l - unat (cmd_lba cmd)) * SECTOR_SIZE + i)) SECTOR_SIZE
      else sectors s l)\<rparr>)"
proof (induction n arbitrary: k s)
  case 0
  have "(\<lambda>l. if unat (cmd_lba cmd) + k \<le> l \<and> l < unat (cmd_lba cmd) + k + 0
      then blit (sectors s l) 0 (\<lambda>i. la ((l - unat (cmd_lba cmd)) * SECTOR_SIZE + i)) SECTOR_SIZE
      else sectors s l) = sectors s" by (auto simp: fun_eq_iff)
  then show ?case by simp
next
  case (Suc n)
  then show ?case by (auto simp: fun_eq_iff)
qed

lemma reach_pos:
  assumes "in_reach p n c" and pos: "pos = of_nat (n * SECTOR_SIZE)"
  obtains lba :: u32 where "ucast (drop_bit SECTOR_SIZE_SHIFT (pos :: u64)) + base p = lba"
    and "unat (take_bit 28 lba) = unat (base p) + n"
    and "drop_bit SECTOR_SIZE_SHIFT pos < word_of_int (- (2 ^ 31))" and "pos AND 0x1FF = 0"
proof -
  have n: "n < 2 ^ 28" "unat (base p) + n < 2 ^ 28" using assms by (auto simp: in_reach_def)
  have u: "unat pos = n * 512"
    using n by (simp add: pos unat_of_nat del: of_nat_mult)
  have d: "drop_bit 9 pos = of_nat n"
  proof (rule word_unat_eq_iff [THEN iffD2])
    show "unat (drop_bit 9 pos) = unat (of_nat n :: u64)"
      unfolding unat_drop_bit_eq u using n by (simp add: drop_bit_eq_div unat_of_nat)
  qed
  have "ucast (drop_bit SECTOR_SIZE_SHIFT pos) + base p = (of_nat (unat (base p) + n) :: u32)"
    using n by (simp add: d unsigned_of_nat take_bit_nat_eq_self)
  moreover have "drop_bit SECTOR_SIZE_SHIFT pos < word_of_int (- (2 ^ 31))"
    using n unfolding d by (simp add: word_less_nat_alt unat_of_nat)
  moreover have "pos AND 0x1FF = 0"
  proof -
    have "pos = push_bit 9 (of_nat n)" by (simp add: pos push_bit_eq_mult)
    moreover have "(0x1FF :: u64) = mask 9" by (simp add: mask_eq_exp_minus_1)
    ultimately show ?thesis by (simp only: take_bit_eq_mask [symmetric] take_bit_push_bit) simp
  qed
  moreover have "unat (take_bit 28 (of_nat (unat (base p) + n) :: u32)) = unat (base p) + n"
  proof -
    have ul: "unat (of_nat (unat (base p) + n) :: u32) = unat (base p) + n"
      using n by (simp add: unat_of_nat del: of_nat_add)
    have "(of_nat (unat (base p) + n) :: u32) < 2 ^ 28"
      unfolding word_less_nat_alt ul using n by simp
    then show ?thesis by (simp only: take_bit_28 ul)
  qed
  ultimately show thesis using that by blast
qed

lemma cmd_sectors_make:
  "0 < c \<Longrightarrow> c \<le> 256 \<Longrightarrow> cmd_sectors (make_cmd drive sect (word_of_int (int c)) cc) = c"
proof (cases "c = 256")
  case False
  assume c: "0 < c" "c \<le> 256"
  with False have "unat (of_nat c :: u8) = c" by (simp add: unat_of_nat)
  then show ?thesis using c by (auto simp: cmd_sectors_def)
qed (simp add: cmd_sectors_def)

lemma hd_read:
  assumes d: "dev_ok s dev p" and r: "in_reach p n c" and pos: "pos = of_nat (n * SECTOR_SIZE)"
  shows "hd_rdwt s DEV_READ dev pos (int c * SECTOR_SIZE) la =
    Inr (\<lambda>i. if i < c * SECTOR_SIZE then part_block p s (n + i div SECTOR_SIZE) (i mod SECTOR_SIZE) else la i, s)"
proof (rule reach_pos [OF r pos])
  fix lba
  assume 1: "ucast (drop_bit SECTOR_SIZE_SHIFT pos) + base p = lba"
    "unat (take_bit 28 lba) = unat (base p) + n"
    "drop_bit SECTOR_SIZE_SHIFT pos < word_of_int (- (2 ^ 31))" "pos AND 0x1FF = 0"
  have c: "0 < c" "c \<le> 256" using r by (auto simp: in_reach_def)
  then show ?thesis
    using d 1 cmd_sectors_make [OF c]
    by (simp add: hd_rdwt_def dev_ok_def Let_def hd_cmd_out_def read_loop_eq part_block_def add.assoc cong: if_cong)
qed

lemma hd_write:
  assumes d: "dev_ok s dev p" and r: "in_reach p n c" and pos: "pos = of_nat (n * SECTOR_SIZE)"
  shows "hd_rdwt s DEV_WRITE dev pos (int c * SECTOR_SIZE) la =
    Inr (la, s\<lparr>sectors := (\<lambda>l. if unat (base p) + n \<le> l \<and> l < unat (base p) + n + c
      then blit (sectors s l) 0 (\<lambda>i. la ((l - (unat (base p) + n)) * SECTOR_SIZE + i)) SECTOR_SIZE
      else sectors s l)\<rparr>)"
proof (rule reach_pos [OF r pos])
  fix lba
  assume 1: "ucast (drop_bit SECTOR_SIZE_SHIFT pos) + base p = lba"
    "unat (take_bit 28 lba) = unat (base p) + n"
    "drop_bit SECTOR_SIZE_SHIFT pos < word_of_int (- (2 ^ 31))" "pos AND 0x1FF = 0"
  have c: "0 < c" "c \<le> 256" using r by (auto simp: in_reach_def)
  then show ?thesis
    using d 1 cmd_sectors_make [OF c]
    by (simp add: hd_rdwt_def dev_ok_def Let_def hd_cmd_out_def write_loop_eq add.assoc cong: if_cong)
qed

text \<open>One sector, as \<open>RD_SECT\<close> and \<open>WR_SECT\<close> use it.\<close>

lemma hd_read_one:
  assumes "dev_ok s dev p" and "in_reach p n 1" and "pos = of_nat (n * SECTOR_SIZE)"
  shows "hd_rdwt s DEV_READ dev pos SECTOR_SIZE la = Inr (blit la 0 (part_block p s n) SECTOR_SIZE, s)"
proof -
  have "(\<lambda>i. if i < 1 * 512 then part_block p s (n + i div 512) (i mod 512) else la i) =
      blit la 0 (part_block p s n) 512"
    by (auto simp: blit_def fun_eq_iff)
  with hd_read [OF assms, of la] show ?thesis by simp
qed

lemma hd_write_one:
  assumes "dev_ok s dev p" and "in_reach p n 1" and "pos = of_nat (n * SECTOR_SIZE)"
  shows "hd_rdwt s DEV_WRITE dev pos SECTOR_SIZE la = Inr (la, part_put p s n la)"
proof -
  have "(\<lambda>l. if unat (base p) + n \<le> l \<and> l < unat (base p) + n + 1
      then blit (sectors s l) 0 (\<lambda>i. la ((l - (unat (base p) + n)) * SECTOR_SIZE + i)) SECTOR_SIZE
      else sectors s l) =
    (sectors s)(unat (base p) + n := blit (sectors s (unat (base p) + n)) 0 la SECTOR_SIZE)"
    by (auto simp: fun_eq_iff blit_def)
  with hd_write [OF assms, of la] show ?thesis by (simp add: part_put_def)
qed

text \<open>
  A request for more than 256 sectors: the count register wraps and the loop
  waits for an interrupt that never comes.
\<close>

lemma read_loop_short: "k + n > cmd_sectors cmd \<Longrightarrow> k \<le> cmd_sectors cmd \<Longrightarrow> read_loop s cmd n k la = Inl Hang"
  by (induction n arbitrary: k la) auto

end
