(* ===== verification/FsBase.thy ===== *)
theory FsBase
  imports Proc BlockDev
begin

unbundle bit_operations_syntax

text \<open>
  The file system task's state and its lowest layer: \<open>rw_sector\<close> and the macros
  \<open>RD_SECT\<close>, \<open>WR_SECT\<close>, the super block table and the inode cache of
  \<open>fs/main.c\<close>.  A pointer into a table is an index, a null pointer \<open>None\<close>.  The
  buffer \<open>fsbuf\<close> is an array of its own: the callers' memory is elsewhere.
\<close>

section \<open>Data\<close>

record inode =
  i_mode :: u32
  i_size :: u32
  i_start_sect :: u32
  i_nr_sects :: u32
  i_dev :: int
  i_cnt :: int
  i_num :: int

record super_block =
  magic :: u32
  nr_inodes :: u32
  sb_nr_sects :: u32
  nr_imap_sects :: u32
  nr_smap_sects :: u32
  n_1st_sect :: u32
  nr_inode_sects :: u32
  sb_root_inode :: u32
  inode_size :: u32
  inode_isize_off :: u32
  inode_start_off :: u32
  dir_ent_size :: u32
  dir_ent_inode_off :: u32
  dir_ent_fname_off :: u32
  sb_dev :: int

record file_desc =
  fd_mode :: int
  fd_pos :: int
  fd_cnt :: int
  fd_inode :: "nat option"

record fs_state =
  fsbuf :: "nat \<Rightarrow> u8"
  drive :: hd_state
  f_desc_table :: "nat \<Rightarrow> file_desc"
  inode_table :: "nat \<Rightarrow> inode"
  super_blocks :: "nat \<Rightarrow> super_block"
  root_inode :: "nat option"
  fprocs :: proctab
  umem :: memory

type_synonym 'a fs_res = "('a \<times> fs_state) kres"

abbreviation (input) AFM :: "nat \<Rightarrow> kfail" where "AFM \<equiv> Assertion ''fs/main.c''"

text \<open>Updating one entry of a table.\<close>

definition upd_inode :: "nat \<Rightarrow> (inode \<Rightarrow> inode) \<Rightarrow> fs_state \<Rightarrow> fs_state" where
  "upd_inode i f s = s\<lparr>inode_table := (inode_table s)(i := f (inode_table s i))\<rparr>"

definition upd_fd :: "nat \<Rightarrow> (file_desc \<Rightarrow> file_desc) \<Rightarrow> fs_state \<Rightarrow> fs_state" where
  "upd_fd d f s = s\<lparr>f_desc_table := (f_desc_table s)(d := f (f_desc_table s d))\<rparr>"

definition set_filp :: "nat \<Rightarrow> nat \<Rightarrow> nat option \<Rightarrow> fs_state \<Rightarrow> fs_state" where
  "set_filp p fd v s = s\<lparr>fprocs := upd_proc p (\<lambda>q. q\<lparr>filp := (filp q)(fd := v)\<rparr>) (fprocs s)\<rparr>"

lemma upd_simps [simp]:
  "inode_table (upd_inode i f s) = (inode_table s)(i := f (inode_table s i))"
  "f_desc_table (upd_inode i f s) = f_desc_table s" "fprocs (upd_inode i f s) = fprocs s"
  "fsbuf (upd_inode i f s) = fsbuf s" "drive (upd_inode i f s) = drive s"
  "super_blocks (upd_inode i f s) = super_blocks s" "root_inode (upd_inode i f s) = root_inode s"
  "umem (upd_inode i f s) = umem s"
  "f_desc_table (upd_fd d g s) = (f_desc_table s)(d := g (f_desc_table s d))"
  "inode_table (upd_fd d g s) = inode_table s" "fprocs (upd_fd d g s) = fprocs s"
  "fsbuf (upd_fd d g s) = fsbuf s" "drive (upd_fd d g s) = drive s"
  "super_blocks (upd_fd d g s) = super_blocks s" "root_inode (upd_fd d g s) = root_inode s"
  "umem (upd_fd d g s) = umem s"
  "fprocs (set_filp p fd v s) = upd_proc p (\<lambda>q. q\<lparr>filp := (filp q)(fd := v)\<rparr>) (fprocs s)"
  "inode_table (set_filp p fd v s) = inode_table s" "f_desc_table (set_filp p fd v s) = f_desc_table s"
  "fsbuf (set_filp p fd v s) = fsbuf s" "drive (set_filp p fd v s) = drive s"
  "super_blocks (set_filp p fd v s) = super_blocks s" "root_inode (set_filp p fd v s) = root_inode s"
  "umem (set_filp p fd v s) = umem s"
  by (simp_all add: upd_inode_def upd_fd_def set_filp_def)

section \<open>Sector input and output\<close>

text \<open>\<open>dd_map\<close> of \<open>kernel/global.c\<close>: the driver of each major device.\<close>

definition dd_map :: "int list" where
  "dd_map = [INVALID_DRIVER, INVALID_DRIVER, INVALID_DRIVER, TASK_HD, TASK_TTY, INVALID_DRIVER]"

text \<open>
  The message to the driver and its answer.  The file system sends sector
  requests to the disk only.
\<close>

definition rw_sector :: "fs_state \<Rightarrow> int \<Rightarrow> int \<Rightarrow> u64 \<Rightarrow> int \<Rightarrow> fs_state kres" where
  "rw_sector s io_type dev pos bytes =
    (let major = nat (MAJOR dev) in
     ensure (major < length dd_map) (Bad_access ''dd_map'') (
     ensure (dd_map ! major \<noteq> INVALID_DRIVER) (AFM 274) (
     ensure (dd_map ! major = TASK_HD) (Bad_access ''driver'') (
     rbind (task_hd_step (drive s) io_type (MINOR dev) pos bytes (fsbuf s)) (\<lambda>(buf, h).
     Inr (s\<lparr>fsbuf := buf, drive := h\<rparr>))))))"

text \<open>The macros, on an int and on an unsigned sector number.\<close>

definition RD_SECT :: "fs_state \<Rightarrow> int \<Rightarrow> int \<Rightarrow> fs_state kres" where
  "RD_SECT s dev sect_nr = rw_sector s DEV_READ dev (word_of_int (cint (sect_nr * SECTOR_SIZE))) SECTOR_SIZE"

definition WR_SECT :: "fs_state \<Rightarrow> int \<Rightarrow> int \<Rightarrow> fs_state kres" where
  "WR_SECT s dev sect_nr = rw_sector s DEV_WRITE dev (word_of_int (cint (sect_nr * SECTOR_SIZE))) SECTOR_SIZE"

definition RD_SECT_U :: "fs_state \<Rightarrow> int \<Rightarrow> u32 \<Rightarrow> fs_state kres" where
  "RD_SECT_U s dev sect_nr = rw_sector s DEV_READ dev (ucast (sect_nr * SECTOR_SIZE)) SECTOR_SIZE"

definition WR_SECT_U :: "fs_state \<Rightarrow> int \<Rightarrow> u32 \<Rightarrow> fs_state kres" where
  "WR_SECT_U s dev sect_nr = rw_sector s DEV_WRITE dev (ucast (sect_nr * SECTOR_SIZE)) SECTOR_SIZE"

section \<open>Super blocks\<close>

definition get_super_block :: "fs_state \<Rightarrow> int \<Rightarrow> super_block kres" where
  "get_super_block s dev =
    (case find (\<lambda>i. sb_dev (super_blocks s i) = dev) [0..<NR_SUPER_BLOCK] of
       Some i \<Rightarrow> Inr (super_blocks s i)
     | None \<Rightarrow> Inl (Panic ''super block of device not found.''))"

text \<open>The 14 words at the start of a buffer, as a super block.\<close>

definition super_block_at :: "(nat \<Rightarrow> u8) \<Rightarrow> int \<Rightarrow> super_block" where
  "super_block_at b dev = \<lparr>magic = le32 b 0, nr_inodes = le32 b 4, sb_nr_sects = le32 b 8,
     nr_imap_sects = le32 b 12, nr_smap_sects = le32 b 16, n_1st_sect = le32 b 20,
     nr_inode_sects = le32 b 24, sb_root_inode = le32 b 28, inode_size = le32 b 32,
     inode_isize_off = le32 b 36, inode_start_off = le32 b 40, dir_ent_size = le32 b 44,
     dir_ent_inode_off = le32 b 48, dir_ent_fname_off = le32 b 52, sb_dev = dev\<rparr>"

definition read_super_block :: "fs_state \<Rightarrow> int \<Rightarrow> fs_state kres" where
  "read_super_block s dev =
    rbind (rw_sector s DEV_READ dev SECTOR_SIZE SECTOR_SIZE) (\<lambda>s1.
    case find (\<lambda>i. sb_dev (super_blocks s1 i) = NO_DEV) [0..<NR_SUPER_BLOCK] of
      None \<Rightarrow> Inl (Panic ''super_block slots used up'')
    | Some i \<Rightarrow> ensure (i = 0) (AFM 364)
        (Inr (s1\<lparr>super_blocks := (super_blocks s1)(i := super_block_at (fsbuf s1) dev)\<rparr>)))"

section \<open>The inode cache\<close>

text \<open>Four bytes of a buffer, little endian.\<close>

definition put32 :: "nat \<Rightarrow> u32 \<Rightarrow> (nat \<Rightarrow> u8) \<Rightarrow> (nat \<Rightarrow> u8)" where
  "put32 i v b = b(i := ucast v, i + 1 := ucast (drop_bit 8 v), i + 2 := ucast (drop_bit 16 v),
     i + 3 := ucast (drop_bit 24 v))"

text \<open>An inode in the array on disk: 32 bytes, 16 to a sector.\<close>

abbreviation (input) INODES_PER_SECT :: "'a::numeral" where "INODES_PER_SECT \<equiv> 16"

definition inode_blk :: "super_block \<Rightarrow> int \<Rightarrow> int" where
  "inode_blk sb num = sint (1 + 1 + nr_imap_sects sb + nr_smap_sects sb +
     word_of_int ((num - 1) sdiv INODES_PER_SECT))"

definition inode_off :: "int \<Rightarrow> int" where
  "inode_off num = (num - 1) smod INODES_PER_SECT * INODE_SIZE"

definition load_inode :: "(nat \<Rightarrow> u8) \<Rightarrow> nat \<Rightarrow> inode \<Rightarrow> inode" where
  "load_inode b o32 q = q\<lparr>i_mode := le32 b o32, i_size := le32 b (o32 + 4),
     i_start_sect := le32 b (o32 + 8), i_nr_sects := le32 b (o32 + 12)\<rparr>"

definition store_inode :: "inode \<Rightarrow> nat \<Rightarrow> (nat \<Rightarrow> u8) \<Rightarrow> (nat \<Rightarrow> u8)" where
  "store_inode p o32 b = put32 (o32 + 12) (i_nr_sects p) (put32 (o32 + 8) (i_start_sect p)
     (put32 (o32 + 4) (i_size p) (put32 o32 (i_mode p) b)))"

definition get_inode :: "fs_state \<Rightarrow> int \<Rightarrow> int \<Rightarrow> nat option fs_res" where
  "get_inode s dev num =
    (if num = 0 then Inr (None, s)
     else case find (\<lambda>i. i_cnt (inode_table s i) \<noteq> 0 \<and> i_dev (inode_table s i) = dev \<and>
                       i_num (inode_table s i) = num) [0..<NR_INODE] of
       Some p \<Rightarrow> Inr (Some p, upd_inode p (\<lambda>n. n\<lparr>i_cnt := i_cnt n + 1\<rparr>) s)
     | None \<Rightarrow> (case find (\<lambda>i. i_cnt (inode_table s i) = 0) [0..<NR_INODE] of
         None \<Rightarrow> Inl (Panic ''the inode table is full'')
       | Some q \<Rightarrow>
           let s1 = upd_inode q (\<lambda>n. n\<lparr>i_dev := dev, i_num := num, i_cnt := 1\<rparr>) s in
           rbind (get_super_block s1 dev) (\<lambda>sb.
           rbind (RD_SECT s1 dev (inode_blk sb num)) (\<lambda>s2.
           ensure (0 \<le> inode_off num) (Bad_access ''fsbuf'')
             (Inr (Some q, upd_inode q (load_inode (fsbuf s2) (nat (inode_off num))) s2))))))"

definition sync_inode :: "fs_state \<Rightarrow> nat \<Rightarrow> fs_state kres" where
  "sync_inode s p =
    (let n = inode_table s p in
     rbind (get_super_block s (i_dev n)) (\<lambda>sb.
     rbind (RD_SECT s (i_dev n) (inode_blk sb (i_num n))) (\<lambda>s1.
     ensure (0 \<le> inode_off (i_num n)) (Bad_access ''fsbuf'')
       (WR_SECT (s1\<lparr>fsbuf := store_inode n (nat (inode_off (i_num n))) (fsbuf s1)\<rparr>)
         (i_dev n) (inode_blk sb (i_num n))))))"

definition put_inode :: "fs_state \<Rightarrow> nat option \<Rightarrow> fs_state kres" where
  "put_inode s pinode =
    (case pinode of
       None \<Rightarrow> Inl (Bad_access ''pinode'')
     | Some p \<Rightarrow> ensure (i_cnt (inode_table s p) > 0) (AFM 371)
         (Inr (upd_inode p (\<lambda>n. n\<lparr>i_cnt := i_cnt n - 1\<rparr>) s)))"

end
