(* ===== verification/FsPath.thy ===== *)
theory FsPath
  imports FsBase
begin

unbundle bit_operations_syntax

text \<open>
  Paths and directories, \<open>fs/misc.c\<close>: \<open>strip_path\<close>, \<open>search_file\<close> and \<open>do_stat\<close>.
  A C string is the list of its bytes before the terminating 0.
\<close>

section \<open>Strings from a caller\<close>

definition mem_write :: "memory \<Rightarrow> u32 \<Rightarrow> (nat \<Rightarrow> u8) \<Rightarrow> nat \<Rightarrow> memory" where
  "mem_write m a f n = (\<lambda>x. if unat (x - a) < n then f (unat (x - a)) else m x)"

text \<open>
  The copy of \<open>name_len\<close> bytes into \<open>pathname\<close>, which is then terminated: the
  string ends at its first 0.
\<close>

definition get_pathname :: "fs_state \<Rightarrow> nat \<Rightarrow> u32 \<Rightarrow> int \<Rightarrow> kfail \<Rightarrow> u8 list kres" where
  "get_pathname s src pathname name_len e =
    ensure (name_len < MAX_PATH) e (
    ensure (0 \<le> name_len) (Bad_access ''pathname'') (
    rbind (va2la (fprocs s) src pathname) (\<lambda>la.
    Inr (takeWhile (\<lambda>c. c \<noteq> 0) (map (\<lambda>k. umem s (la + of_nat k)) [0..<nat name_len])))))"

section \<open>Stripping the path\<close>

abbreviation (input) slash :: u8 where "slash \<equiv> 0x2F"

fun strip_loop :: "u8 list \<Rightarrow> u8 list \<Rightarrow> u8 list option" where
  "strip_loop [] t = Some t"
| "strip_loop (c # s) t =
    (if c = slash then None
     else if MAX_FILENAME_LEN \<le> length t + 1 then Some (t @ [c])
     else strip_loop s (t @ [c]))"

definition strip_path :: "u8 list \<Rightarrow> u8 list option" where
  "strip_path path = strip_loop (case path of c # s \<Rightarrow> if c = slash then s else path | [] \<Rightarrow> []) []"

section \<open>Searching a directory\<close>

text \<open>The 12 bytes compared: the name padded with zeros.\<close>

definition pad_name :: "u8 list \<Rightarrow> u8 list" where
  "pad_name t = take MAX_FILENAME_LEN (t @ replicate MAX_FILENAME_LEN 0)"

definition de_inode :: "(nat \<Rightarrow> u8) \<Rightarrow> nat \<Rightarrow> int" where
  "de_inode b j = sint (le32 b (j * DIR_ENTRY_SIZE))"

definition de_name :: "(nat \<Rightarrow> u8) \<Rightarrow> nat \<Rightarrow> u8 list" where
  "de_name b j = map (\<lambda>k. b (j * DIR_ENTRY_SIZE + 4 + k)) [0..<MAX_FILENAME_LEN]"

abbreviation (input) DE_PER_SECT :: "'a::numeral" where "DE_PER_SECT \<equiv> 32"

text \<open>
  The inner loop over the entries of a sector: steps left, \<open>j\<close>, \<open>m\<close>.  It
  compares before it counts.
\<close>

fun search_entries :: "(nat \<Rightarrow> u8) \<Rightarrow> u8 list \<Rightarrow> nat \<Rightarrow> nat \<Rightarrow> nat \<Rightarrow> nat \<Rightarrow> int option \<times> nat" where
  "search_entries b filename nr 0 j m = (None, m)"
| "search_entries b filename nr (Suc n) j m =
    (if de_name b j = pad_name filename then (Some (de_inode b j), m)
     else if m + 1 > nr then (None, m + 1)
     else search_entries b filename nr n (Suc j) (m + 1))"

fun search_blocks :: "int \<Rightarrow> int \<Rightarrow> u8 list \<Rightarrow> nat \<Rightarrow> nat \<Rightarrow> nat \<Rightarrow> nat \<Rightarrow> fs_state \<Rightarrow> int fs_res" where
  "search_blocks dev blk0 filename nr 0 i m s = Inr (0, s)"
| "search_blocks dev blk0 filename nr (Suc n) i m s =
    rbind (RD_SECT s dev (blk0 + int i)) (\<lambda>s1.
    case search_entries (fsbuf s1) filename nr DE_PER_SECT 0 m of
      (Some num, _) \<Rightarrow> Inr (num, s1)
    | (None, m') \<Rightarrow> if m' > nr then Inr (0, s1) else search_blocks dev blk0 filename nr n (Suc i) m' s1)"

text \<open>The directory is always the root; \<open>root_inode\<close> is set by \<open>init_fs\<close>.\<close>

definition root_dir :: "fs_state \<Rightarrow> nat kres" where
  "root_dir s = (case root_inode s of None \<Rightarrow> Inl (Bad_access ''root_inode'') | Some r \<Rightarrow> Inr r)"

definition search_file :: "fs_state \<Rightarrow> u8 list \<Rightarrow> int fs_res" where
  "search_file s path =
    (case strip_path path of
       None \<Rightarrow> Inr (0, s)
     | Some filename \<Rightarrow>
         rbind (root_dir s) (\<lambda>r.
         let dir = inode_table s r in
         if filename = [] then Inr (i_num dir, s)
         else search_blocks (i_dev dir) (sint (i_start_sect dir)) filename
                (unat (i_size dir div DIR_ENTRY_SIZE))
                (unat ((i_size dir + SECTOR_SIZE - 1) div SECTOR_SIZE)) 0 0 s))"

section \<open>\<open>stat\<close>\<close>

definition is_special :: "u32 \<Rightarrow> bool" where
  "is_special m \<longleftrightarrow> m AND I_TYPE_MASK = I_BLOCK_SPECIAL \<or> m AND I_TYPE_MASK = I_CHAR_SPECIAL"

record stat =
  st_dev :: int
  st_ino :: int
  st_mode :: int
  st_rdev :: int
  st_size :: int

definition stat_of :: "inode \<Rightarrow> stat" where
  "stat_of n = \<lparr>st_dev = i_dev n, st_ino = i_num n, st_mode = sint (i_mode n),
     st_rdev = (if is_special (i_mode n) then sint (i_start_sect n) else NO_DEV),
     st_size = sint (i_size n)\<rparr>"

definition write_stat :: "memory \<Rightarrow> u32 \<Rightarrow> stat \<Rightarrow> memory" where
  "write_stat m a st = st32 (st32 (st32 (st32 (st32 m a (word_of_int (st_dev st)))
     (a + 4) (word_of_int (st_ino st))) (a + 8) (word_of_int (st_mode st)))
     (a + 12) (word_of_int (st_rdev st))) (a + 16) (word_of_int (st_size st))"

definition do_stat :: "fs_state \<Rightarrow> message \<Rightarrow> int fs_res" where
  "do_stat s msg =
    (let src = nat (source msg) in
     rbind (get_pathname s src (m3p1 msg) (m3i2 msg) (Assertion ''fs/misc.c'' 24)) (\<lambda>pathname.
     rbind (search_file s pathname) (\<lambda>(inode_nr, s1).
     if inode_nr = INVALID_INODE then Inr (-1, s1)
     else case strip_path pathname of
       None \<Rightarrow> Inl (Assertion ''fs/misc.c'' 45)
     | Some _ \<Rightarrow>
         rbind (root_dir s1) (\<lambda>r.
         rbind (get_inode s1 (i_dev (inode_table s1 r)) inode_nr) (\<lambda>(pin, s2).
         case pin of
           None \<Rightarrow> Inl (Bad_access ''pin'')
         | Some p \<Rightarrow>
             let st = stat_of (inode_table s2 p) in
             rbind (put_inode s2 (Some p)) (\<lambda>s3.
             rbind (va2la (fprocs s3) src (m3p2 msg)) (\<lambda>la.
             Inr (0, s3\<lparr>umem := write_stat (umem s3) la st\<rparr>))))))))"

end
