(* ===== verification/FsOpen.thy ===== *)
theory FsOpen
  imports FsPath
begin

unbundle bit_operations_syntax

text \<open>
  Opening, creating, closing and seeking, \<open>fs/open.c\<close>: \<open>do_open\<close>, \<open>create_file\<close>,
  \<open>do_close\<close>, \<open>do_lseek\<close>, the allocation of inodes and sectors in the bitmaps and
  the new directory entry.  The caller, \<open>pcaller\<close>, is the process number \<open>pc\<close>.
\<close>

abbreviation (input) AFO :: "nat \<Rightarrow> kfail" where "AFO \<equiv> Assertion ''fs/open.c''"

section \<open>Bitmaps\<close>

text \<open>The first 0 bit of a byte; 8 for a full byte.\<close>

definition first_zero :: "u8 \<Rightarrow> nat" where
  "first_zero b = length (takeWhile (\<lambda>k. bit b k) [0..<8])"

text \<open>
  The loop of \<open>alloc_imap_bit\<close> over the sectors returns at the end of its first
  pass, whether or not a bit was found.
\<close>

definition alloc_imap_bit :: "fs_state \<Rightarrow> int \<Rightarrow> int fs_res" where
  "alloc_imap_bit s dev =
    rbind (get_super_block s dev) (\<lambda>sb.
    if nr_imap_sects sb = 0 then Inl (Panic ''inode-map is probably full.'')
    else rbind (RD_SECT s dev 2) (\<lambda>s1.
      case find (\<lambda>j. fsbuf s1 j \<noteq> 0xFF) [0..<SECTOR_SIZE] of
        None \<Rightarrow> Inr (0, s1)
      | Some j \<Rightarrow>
          let k = first_zero (fsbuf s1 j) in
          rbind (WR_SECT (s1\<lparr>fsbuf := (fsbuf s1)(j := fsbuf s1 j OR push_bit k 1)\<rparr>) dev 2) (\<lambda>s2.
          Inr (int (j * 8 + k), s2))))"

text \<open>
  \<open>alloc_smap_bit\<close>.  The innermost loop: steps left, bit, byte, sectors left.
\<close>

fun smap_bits :: "nat \<Rightarrow> nat \<Rightarrow> u8 \<Rightarrow> nat \<Rightarrow> (u8 \<times> nat) kres" where
  "smap_bits 0 k b nr = Inr (b, nr)"
| "smap_bits (Suc n) k b nr =
    ensure (\<not> bit b k) (AFO 319)
      (if nr - 1 = 0 then Inr (b OR push_bit k 1, 0)
       else smap_bits n (Suc k) (b OR push_bit k 1) (nr - 1))"

text \<open>The loop over the bytes: steps left, \<open>j\<close>, buffer, sectors left, \<open>free_sect_nr\<close> (0: none yet).\<close>

fun smap_bytes ::
    "super_block \<Rightarrow> nat \<Rightarrow> nat \<Rightarrow> nat \<Rightarrow> (nat \<Rightarrow> u8) \<Rightarrow> nat \<Rightarrow> int \<Rightarrow> ((nat \<Rightarrow> u8) \<times> nat \<times> int) kres" where
  "smap_bytes sb i 0 j buf nr free = Inr (buf, nr, free)"
| "smap_bytes sb i (Suc n) j buf nr free =
    (if nr = 0 then Inr (buf, nr, free)
     else if free = 0 \<and> buf j = 0xFF then smap_bytes sb i n (Suc j) buf nr free
     else let k = (if free = 0 then first_zero (buf j) else 0);
              free' = (if free = 0
                then sint (word_of_int (int ((i * SECTOR_SIZE + j) * 8 + k) - 1) + n_1st_sect sb) else free) in
       rbind (smap_bits (8 - k) k (buf j) nr) (\<lambda>(b, nr').
       smap_bytes sb i n (Suc j) (buf(j := b)) nr' free'))"

fun smap_sects :: "super_block \<Rightarrow> int \<Rightarrow> int \<Rightarrow> nat \<Rightarrow> nat \<Rightarrow> nat \<Rightarrow> int \<Rightarrow> fs_state \<Rightarrow> (nat \<times> int) fs_res" where
  "smap_sects sb dev blk0 0 i nr free s = Inr ((nr, free), s)"
| "smap_sects sb dev blk0 (Suc n) i nr free s =
    rbind (RD_SECT s dev (blk0 + int i)) (\<lambda>s1.
    rbind (smap_bytes sb i SECTOR_SIZE 0 (fsbuf s1) nr free) (\<lambda>(buf, nr', free').
    rbind (if free' \<noteq> 0 then WR_SECT (s1\<lparr>fsbuf := buf\<rparr>) dev (blk0 + int i) else Inr (s1\<lparr>fsbuf := buf\<rparr>)) (\<lambda>s2.
    if nr' = 0 then Inr ((nr', free'), s2)
    else smap_sects sb dev blk0 n (Suc i) nr' free' s2)))"

definition alloc_smap_bit :: "fs_state \<Rightarrow> int \<Rightarrow> nat \<Rightarrow> int fs_res" where
  "alloc_smap_bit s dev nr_sects_to_alloc =
    rbind (get_super_block s dev) (\<lambda>sb.
    rbind (smap_sects sb dev (sint (1 + 1 + nr_imap_sects sb)) (unat (nr_smap_sects sb)) 0
             nr_sects_to_alloc 0 s) (\<lambda>((nr, free), s1).
    ensure (nr = 0) (AFO 333) (Inr (free, s1))))"

section \<open>New inodes and directory entries\<close>

definition new_inode :: "fs_state \<Rightarrow> int \<Rightarrow> int \<Rightarrow> int \<Rightarrow> nat fs_res" where
  "new_inode s dev inode_nr start =
    rbind (get_inode s dev inode_nr) (\<lambda>(pin, s1).
    case pin of
      None \<Rightarrow> Inl (Bad_access ''new_inode'')
    | Some p \<Rightarrow>
        let s2 = upd_inode p (\<lambda>n. n\<lparr>i_mode := I_REGULAR, i_size := 0,
                   i_start_sect := word_of_int start, i_nr_sects := NR_DEFAULT_FILE_SECTS,
                   i_dev := dev, i_cnt := 1, i_num := inode_nr\<rparr>) s1 in
        rbind (sync_inode s2 p) (\<lambda>s3. Inr (p, s3)))"

text \<open>
  The search for a slot.  Inner loop: steps left, \<open>j\<close>, \<open>m\<close>; the result is \<open>m\<close>,
  the entry \<open>pde\<close> points to, and whether it is a free slot.
\<close>

fun slot_entries :: "(nat \<Rightarrow> u8) \<Rightarrow> nat \<Rightarrow> nat \<Rightarrow> nat \<Rightarrow> nat \<Rightarrow> nat \<times> nat \<times> bool" where
  "slot_entries b nr 0 j m = (m, j, False)"
| "slot_entries b nr (Suc n) j m =
    (if m + 1 > nr then (m + 1, j, False)
     else if de_inode b j = 0 then (m + 1, j, True)
     else slot_entries b nr n (Suc j) (m + 1))"

fun slot_blocks :: "int \<Rightarrow> int \<Rightarrow> nat \<Rightarrow> nat \<Rightarrow> nat \<Rightarrow> nat \<Rightarrow> nat \<Rightarrow> fs_state \<Rightarrow> (nat \<times> nat \<times> bool) fs_res" where
  "slot_blocks dev blk0 nr 0 i j m s = Inr ((i, j, False), s)"
| "slot_blocks dev blk0 nr (Suc n) i j m s =
    rbind (RD_SECT s dev (blk0 + int i)) (\<lambda>s1.
    case slot_entries (fsbuf s1) nr DE_PER_SECT 0 m of (m', j', found) \<Rightarrow>
      if m' > nr \<or> found then Inr ((i, j', found), s1)
      else slot_blocks dev blk0 nr n (Suc i) j' m' s1)"

text \<open>\<open>inode_nr\<close>, then \<open>strcpy\<close> of the name with its terminating 0.\<close>

definition store_entry :: "nat \<Rightarrow> int \<Rightarrow> u8 list \<Rightarrow> (nat \<Rightarrow> u8) \<Rightarrow> (nat \<Rightarrow> u8)" where
  "store_entry j num name b =
     blit (put32 (j * DIR_ENTRY_SIZE) (word_of_int num) b) (j * DIR_ENTRY_SIZE + 4)
       (\<lambda>k. (name @ [0]) ! k) (length name + 1)"

definition new_dir_entry :: "fs_state \<Rightarrow> nat \<Rightarrow> int \<Rightarrow> u8 list \<Rightarrow> fs_state kres" where
  "new_dir_entry s r inode_nr filename =
    (let dir = inode_table s r;
         dev = i_dev dir; blk0 = sint (i_start_sect dir);
         nr_dir_blks = unat ((i_size dir + SECTOR_SIZE) div SECTOR_SIZE);
         nr_dir_entries = unat (i_size dir div DIR_ENTRY_SIZE) in
     rbind (slot_blocks dev blk0 nr_dir_entries nr_dir_blks 0 0 0 s) (\<lambda>((i, j, found), s1).
     let s2 = (if found then s1 else upd_inode r (\<lambda>n. n\<lparr>i_size := i_size n + DIR_ENTRY_SIZE\<rparr>) s1);
         s3 = s2\<lparr>fsbuf := store_entry j inode_nr filename (fsbuf s2)\<rparr> in
     rbind (WR_SECT s3 dev (blk0 + int i)) (\<lambda>s4.
     sync_inode s4 r)))"

definition create_file :: "fs_state \<Rightarrow> u8 list \<Rightarrow> nat option fs_res" where
  "create_file s path =
    (case strip_path path of
       None \<Rightarrow> Inr (None, s)
     | Some filename \<Rightarrow>
         rbind (root_dir s) (\<lambda>r.
         let dev = i_dev (inode_table s r) in
         rbind (alloc_imap_bit s dev) (\<lambda>(inode_nr, s1).
         rbind (alloc_smap_bit s1 dev NR_DEFAULT_FILE_SECTS) (\<lambda>(free_sect_nr, s2).
         rbind (new_inode s2 dev inode_nr free_sect_nr) (\<lambda>(p, s3).
         rbind (new_dir_entry s3 r (i_num (inode_table s3 p)) filename) (\<lambda>s4.
         Inr (Some p, s4)))))))"

section \<open>open, close, lseek\<close>

text \<open>Connecting the caller, the descriptor and the inode, and the checks on the mode.\<close>

definition attach :: "fs_state \<Rightarrow> nat \<Rightarrow> nat \<Rightarrow> nat \<Rightarrow> nat \<Rightarrow> int \<Rightarrow> int fs_res" where
  "attach s pc fd d pin flags =
    (let s1 = upd_fd d (\<lambda>_. \<lparr>fd_mode = flags, fd_pos = 0, fd_cnt = 1, fd_inode = Some pin\<rparr>)
                (set_filp pc fd (Some d) s);
         n = inode_table s1 pin;
         imode = i_mode n AND I_TYPE_MASK;
         dev = sint (i_start_sect n) in
     if imode = I_CHAR_SPECIAL then
       ensure (MAJOR dev = 4) (AFO 116) (
       ensure (dd_map ! nat (MAJOR dev) \<noteq> INVALID_DRIVER) (AFO 117)
         (Inr (int fd, s1)))
     else if imode = I_DIRECTORY then ensure (i_num n = ROOT_INODE) (AFO 124) (Inr (int fd, s1))
     else ensure (i_mode n = I_REGULAR) (AFO 127) (Inr (int fd, s1)))"

definition do_open :: "fs_state \<Rightarrow> nat \<Rightarrow> message \<Rightarrow> int fs_res" where
  "do_open s pc msg =
    (let flags = m3i1 msg in
     rbind (get_pathname s (nat (source msg)) (m3p1 msg) (m3i2 msg) (AFO 51)) (\<lambda>pathname.
     case find (\<lambda>i. filp (fprocs s pc) i = None) [0..<NR_FILES] of
       None \<Rightarrow> Inl (Panic ''filp[] is full'')
     | Some fd \<Rightarrow>
     case find (\<lambda>i. fd_inode (f_desc_table s i) = None) [0..<NR_FILE_DESC] of
       None \<Rightarrow> Inl (Panic ''f_desc_table[] is full'')
     | Some d \<Rightarrow>
     rbind (search_file s pathname) (\<lambda>(inode_nr, s1).
     if flags AND O_CREAT \<noteq> 0 then
       (if inode_nr \<noteq> 0 then Inr (-1, s1)
        else rbind (create_file s1 pathname) (\<lambda>(pin, s2).
          case pin of None \<Rightarrow> Inr (-1, s2) | Some p \<Rightarrow> attach s2 pc fd d p flags))
     else
       ensure (flags AND O_RDWR \<noteq> 0) (AFO 88) (
       case strip_path pathname of
         None \<Rightarrow> Inr (-1, s1)
       | Some _ \<Rightarrow>
           rbind (root_dir s1) (\<lambda>r.
           rbind (get_inode s1 (i_dev (inode_table s1 r)) inode_nr) (\<lambda>(pin, s2).
           case pin of None \<Rightarrow> Inr (-1, s2) | Some p \<Rightarrow> attach s2 pc fd d p flags))))))"

text \<open>The descriptor a file number of the caller names; \<open>e\<close> is what happens on a null pointer.\<close>

definition filp_of :: "fs_state \<Rightarrow> nat \<Rightarrow> int \<Rightarrow> kfail \<Rightarrow> nat kres" where
  "filp_of s pc fd e =
    ensure (0 \<le> fd \<and> fd < int NR_FILES) (Bad_access ''filp'')
      (case filp (fprocs s pc) (nat fd) of None \<Rightarrow> Inl e | Some d \<Rightarrow> Inr d)"

text \<open>Dropping one reference to a descriptor, as \<open>do_close\<close> and \<open>fs_exit\<close> do.\<close>

definition drop_fd :: "nat \<Rightarrow> fs_state \<Rightarrow> fs_state" where
  "drop_fd d s =
    (let s1 = upd_fd d (\<lambda>f. f\<lparr>fd_cnt := fd_cnt f - 1\<rparr>) s in
     if fd_cnt (f_desc_table s1 d) = 0 then upd_fd d (\<lambda>f. f\<lparr>fd_inode := None\<rparr>) s1 else s1)"

definition do_close :: "fs_state \<Rightarrow> nat \<Rightarrow> message \<Rightarrow> int fs_res" where
  "do_close s pc msg =
    rbind (filp_of s pc (m3i1 msg) (Bad_access ''filp'')) (\<lambda>d.
    rbind (put_inode s (fd_inode (f_desc_table s d))) (\<lambda>s1.
    Inr (0, set_filp pc (nat (m3i1 msg)) None (drop_fd d s1))))"

definition do_lseek :: "fs_state \<Rightarrow> nat \<Rightarrow> message \<Rightarrow> int fs_res" where
  "do_lseek s pc msg =
    (let off = m3i2 msg; whence = m3i3 msg in
     rbind (filp_of s pc (m3i1 msg) (Bad_access ''filp'')) (\<lambda>d.
     case fd_inode (f_desc_table s d) of
       None \<Rightarrow> Inl (Bad_access ''fd_inode'')
     | Some p \<Rightarrow>
       let pos = fd_pos (f_desc_table s d); f_size = sint (i_size (inode_table s p)) in
       if whence \<noteq> SEEK_SET \<and> whence \<noteq> SEEK_CUR \<and> whence \<noteq> SEEK_END then Inr (-1, s)
       else let pos' = (if whence = SEEK_SET then off
                        else if whence = SEEK_CUR then cint (pos + off) else cint (f_size + off)) in
         if pos' > f_size \<or> pos' < 0 then Inr (-1, s)
         else Inr (pos', upd_fd d (\<lambda>f. f\<lparr>fd_pos := pos'\<rparr>) s)))"

end
