(* ===== verification/FsRdwt.thy ===== *)
theory FsRdwt
  imports FsOpen
begin

unbundle bit_operations_syntax

text \<open>
  Reading and writing files, \<open>do_rdwt\<close> of \<open>fs/read_write.c\<close>, and \<open>do_unlink\<close> of
  \<open>fs/link.c\<close>.  The exchange with the terminal task on a character device is an
  argument: it gets the request and returns the type and the count of the
  answer.
\<close>

abbreviation (input) AFR :: "nat \<Rightarrow> kfail" where "AFR \<equiv> Assertion ''fs/read_write.c''"
abbreviation (input) AFL :: "nat \<Rightarrow> kfail" where "AFL \<equiv> Assertion ''fs/link.c''"

section \<open>Reading and writing\<close>

text \<open>
  One round of the loop: a chunk of sectors from \<open>i\<close> on is read into \<open>fsbuf\<close>,
  then \<open>bytes\<close> bytes are copied out, or copied in and the chunk written back.
\<close>

definition rdwt_chunk ::
    "int \<Rightarrow> nat \<Rightarrow> u32 \<Rightarrow> int \<Rightarrow> int \<Rightarrow> int \<Rightarrow> int \<Rightarrow> int \<Rightarrow> int \<Rightarrow> fs_state \<Rightarrow> fs_state kres" where
  "rdwt_chunk typ src buf dev i chunk off bytes bytes_rw s =
    rbind (rw_sector s DEV_READ dev (word_of_int (cint (i * SECTOR_SIZE))) (chunk * SECTOR_SIZE)) (\<lambda>s1.
    ensure (0 \<le> bytes \<and> 0 \<le> off) (Bad_access ''phys_copy'') (
    rbind (va2la (fprocs s1) src (buf + word_of_int bytes_rw)) (\<lambda>la.
    if typ = READ
    then Inr (s1\<lparr>umem := mem_write (umem s1) la (\<lambda>k. fsbuf s1 (nat off + k)) (nat bytes)\<rparr>)
    else rw_sector (s1\<lparr>fsbuf := blit (fsbuf s1) (nat off) (\<lambda>k. umem s1 (la + of_nat k)) (nat bytes)\<rparr>)
           DEV_WRITE dev (word_of_int (cint (i * SECTOR_SIZE))) (chunk * SECTOR_SIZE))))"

text \<open>
  The \<open>for\<close> loop.  \<open>chunk\<close> is at least 1 whenever it is entered; a step that is
  not positive would not end.
\<close>

function rdwt_loop ::
    "int \<Rightarrow> nat \<Rightarrow> u32 \<Rightarrow> nat \<Rightarrow> int \<Rightarrow> int \<Rightarrow> int \<Rightarrow> int \<Rightarrow> int \<Rightarrow> int \<Rightarrow> int \<Rightarrow> fs_state \<Rightarrow> int fs_res" where
  "rdwt_loop typ src buf d dev i rw_sect_max chunk off bytes_rw bytes_left s =
    (if rw_sect_max < i then Inr (bytes_rw, s)
     else if chunk < 1 then Inl Hang
     else let bytes = cmin bytes_left (chunk * SECTOR_SIZE - off) in
       rbind (rdwt_chunk typ src buf dev i chunk off bytes bytes_rw s) (\<lambda>s1.
       rdwt_loop typ src buf d dev (i + chunk) rw_sect_max chunk 0 (bytes_rw + bytes) (bytes_left - bytes)
         (upd_fd d (\<lambda>f. f\<lparr>fd_pos := fd_pos f + bytes\<rparr>) s1)))"
  by pat_completeness auto
termination
  by (relation "measure (\<lambda>(typ, src, buf, d, dev, i, mx, _). nat (mx + 1 - i))") auto

declare rdwt_loop.simps [simp del]

text \<open>\<open>pos_end\<close>: an int against an unsigned is an unsigned comparison.\<close>

definition rdwt_end :: "int \<Rightarrow> inode \<Rightarrow> int \<Rightarrow> int \<Rightarrow> int" where
  "rdwt_end typ n pos len =
    sint (cmin (word_of_int (pos + len)) (if typ = READ then i_size n else i_nr_sects n * SECTOR_SIZE) :: u32)"

text \<open>After the loop: when the position has passed the size, of a read too, the file grows.\<close>

definition rdwt_grow :: "nat \<Rightarrow> nat \<Rightarrow> fs_state \<Rightarrow> fs_state kres" where
  "rdwt_grow d p s =
    (if word_of_int (fd_pos (f_desc_table s d)) > i_size (inode_table s p)
     then sync_inode (upd_inode p (\<lambda>m. m\<lparr>i_size := word_of_int (fd_pos (f_desc_table s d))\<rparr>) s) p
     else Inr s)"

text \<open>The regular-file branch, from line 45 on.\<close>

definition rdwt_file :: "int \<Rightarrow> nat \<Rightarrow> u32 \<Rightarrow> int \<Rightarrow> nat \<Rightarrow> nat \<Rightarrow> fs_state \<Rightarrow> int fs_res" where
  "rdwt_file typ src buf len d p s =
    (let n = inode_table s p; pos = fd_pos (f_desc_table s d); pos_end = rdwt_end typ n pos len in
     ensure (i_mode n = I_REGULAR \<or> i_mode n = I_DIRECTORY) (AFR 45) (
     ensure (typ = READ \<or> typ = WRITE) (AFR 46) (
     let off = pos smod SECTOR_SIZE;
         rw_sect_min = sint (i_start_sect n + word_of_int (drop_bit SECTOR_SIZE_SHIFT pos));
         rw_sect_max = sint (i_start_sect n + word_of_int (drop_bit SECTOR_SIZE_SHIFT pos_end));
         chunk = cmin (rw_sect_max - rw_sect_min + 1) (FSBUF_SIZE div SECTOR_SIZE) in
     rbind (rdwt_loop typ src buf d (i_dev n) rw_sect_min rw_sect_max chunk off 0 len s) (\<lambda>(bytes_rw, s1).
     rbind (rdwt_grow d p s1) (\<lambda>s2. Inr (bytes_rw, s2))))))"

definition do_rdwt ::
    "(int \<Rightarrow> int \<Rightarrow> u32 \<Rightarrow> int \<Rightarrow> nat \<Rightarrow> int \<times> int) \<Rightarrow> fs_state \<Rightarrow> nat \<Rightarrow> message \<Rightarrow> (int \<times> int) fs_res" where
  "do_rdwt tty s pc msg =
    (let buf = m3p2 msg; len = m3i2 msg; src = nat (source msg) in
     rbind (filp_of s pc (m3i1 msg) (AFR 22)) (\<lambda>d.
     if fd_mode (f_desc_table s d) AND O_RDWR = 0 then Inr ((msgtype msg, -1), s)
     else case fd_inode (f_desc_table s d) of
       None \<Rightarrow> Inl (AFR 29)
     | Some p \<Rightarrow>
       let n = inode_table s p in
       if i_mode n AND I_TYPE_MASK = I_CHAR_SPECIAL then
         (let dev = sint (i_start_sect n);
              t = (if msgtype msg = READ then DEV_READ else DEV_WRITE) in
          ensure (MAJOR dev = 4) (AFR 35) (
          ensure (dd_map ! nat (MAJOR dev) \<noteq> INVALID_DRIVER) (AFR 40) (
          case tty t (MINOR dev) buf len src of (reply, cnt) \<Rightarrow>
            ensure (cnt = len) (AFR 42) (Inr ((reply, cnt), s)))))
       else rbind (rdwt_file (msgtype msg) src buf len d p s) (\<lambda>(r, s1). Inr ((msgtype msg, r), s1))))"

section \<open>Unlinking\<close>

text \<open>Clearing bits of the sector map.  The first byte: \<open>i\<close>, steps left, bits left.\<close>

fun clear_first :: "nat \<Rightarrow> nat \<Rightarrow> u8 \<Rightarrow> nat \<Rightarrow> (u8 \<times> nat) kres" where
  "clear_first 0 i b bits_left = Inr (b, bits_left)"
| "clear_first (Suc n) i b bits_left =
    (if bits_left = 0 then Inr (b, bits_left)
     else ensure (bit b i) (AFL 71)
       (clear_first n (Suc i) (b AND NOT (push_bit i 1)) (bits_left - 1)))"

text \<open>The step to the next sector of the map: \<open>i\<close>, \<open>s\<close> and the state.\<close>

definition next_map_sect :: "int \<Rightarrow> nat \<Rightarrow> int \<Rightarrow> fs_state \<Rightarrow> (nat \<times> int) fs_res" where
  "next_map_sect dev i sec s =
    (if i = SECTOR_SIZE
     then rbind (WR_SECT s dev sec) (\<lambda>s1. rbind (RD_SECT s1 dev (sec + 1)) (\<lambda>s2. Inr ((0, sec + 1), s2)))
     else Inr ((i, sec), s))"

text \<open>The whole bytes: bytes left, \<open>i\<close>, sector, bits left.\<close>

fun clear_bytes :: "int \<Rightarrow> nat \<Rightarrow> nat \<Rightarrow> int \<Rightarrow> int \<Rightarrow> fs_state \<Rightarrow> (nat \<times> int \<times> int) fs_res" where
  "clear_bytes dev 0 i sec bits_left s = Inr ((i, sec, bits_left), s)"
| "clear_bytes dev (Suc n) i sec bits_left s =
    rbind (next_map_sect dev i sec s) (\<lambda>((i', sec'), s1).
    ensure (fsbuf s1 i' = 0xFF) (AFL 84)
      (clear_bytes dev n (Suc i') sec' (bits_left - 8) (s1\<lparr>fsbuf := (fsbuf s1)(i' := 0)\<rparr>)))"

definition free_sectors :: "fs_state \<Rightarrow> super_block \<Rightarrow> inode \<Rightarrow> fs_state kres" where
  "free_sectors s sb n =
    (let dev = i_dev n;
         bit_idx = sint (i_start_sect n - n_1st_sect sb + 1);
         byte_idx = bit_idx sdiv 8;
         nr = sint (i_nr_sects n);
         byte_cnt = (nr - (8 - bit_idx smod 8)) sdiv 8;
         sec = sint (2 + nr_imap_sects sb + word_of_int (byte_idx sdiv SECTOR_SIZE));
         i0 = nat (bit_idx smod 8); j0 = nat (byte_idx smod SECTOR_SIZE) in
     ensure (0 \<le> bit_idx \<and> 0 \<le> nr) (Bad_access ''fsbuf'') (
     rbind (RD_SECT s dev sec) (\<lambda>s1.
     rbind (clear_first (8 - i0) i0 (fsbuf s1 j0) (nat nr)) (\<lambda>(b, left1).
     let s2 = s1\<lparr>fsbuf := (fsbuf s1)(j0 := b)\<rparr> in
     rbind (clear_bytes dev (nat byte_cnt) (j0 + 1) sec (int left1) s2) (\<lambda>((i, sec1, left2), s3).
     rbind (next_map_sect dev i sec1 s3) (\<lambda>((i', sec2), s4).
     let mask = NOT (push_bit (nat left2) 0xFF :: u8) in
     ensure (fsbuf s4 i' AND mask = mask) (AFL 95)
       (WR_SECT (s4\<lparr>fsbuf := (fsbuf s4)(i' := fsbuf s4 i' AND push_bit (nat left2) 0xFF)\<rparr>) dev sec2)))))))"

text \<open>
  The directory entry.  Inner loop: steps left, \<open>j\<close>, \<open>m\<close>, \<open>dir_size\<close>; the entry
  found, \<open>m\<close> and \<open>dir_size\<close>.
\<close>

fun unlink_entries :: "(nat \<Rightarrow> u8) \<Rightarrow> int \<Rightarrow> nat \<Rightarrow> nat \<Rightarrow> nat \<Rightarrow> nat \<Rightarrow> nat \<Rightarrow> nat option \<times> nat \<times> nat" where
  "unlink_entries b num nr 0 j m dir_size = (None, m, dir_size)"
| "unlink_entries b num nr (Suc n) j m dir_size =
    (if m + 1 > nr then (None, m + 1, dir_size)
     else if de_inode b j = num then (Some j, m + 1, dir_size)
     else unlink_entries b num nr n (Suc j) (m + 1)
            (if de_inode b j \<noteq> INVALID_INODE then dir_size + DIR_ENTRY_SIZE else dir_size))"

fun unlink_blocks ::
    "int \<Rightarrow> int \<Rightarrow> int \<Rightarrow> nat \<Rightarrow> nat \<Rightarrow> nat \<Rightarrow> nat \<Rightarrow> nat \<Rightarrow> fs_state \<Rightarrow> (bool \<times> nat \<times> nat) fs_res" where
  "unlink_blocks dev blk0 num nr 0 i m dir_size s = Inr ((False, m, dir_size), s)"
| "unlink_blocks dev blk0 num nr (Suc n) i m dir_size s =
    rbind (RD_SECT s dev (blk0 + int i)) (\<lambda>s1.
    case unlink_entries (fsbuf s1) num nr DE_PER_SECT 0 m dir_size of
      (Some j, m', size') \<Rightarrow>
        rbind (WR_SECT (s1\<lparr>fsbuf := blit (fsbuf s1) (j * DIR_ENTRY_SIZE) (\<lambda>_. 0) DIR_ENTRY_SIZE\<rparr>)
                 dev (blk0 + int i)) (\<lambda>s2. Inr ((True, m', size'), s2))
    | (None, m', size') \<Rightarrow>
        if m' > nr then Inr ((False, m', size'), s1)
        else unlink_blocks dev blk0 num nr n (Suc i) m' size' s1)"

definition unlink_entry :: "fs_state \<Rightarrow> nat \<Rightarrow> int \<Rightarrow> fs_state kres" where
  "unlink_entry s r inode_nr =
    (let dir = inode_table s r;
         nr_dir_blks = unat ((i_size dir + SECTOR_SIZE) div SECTOR_SIZE);
         nr_dir_entries = unat (i_size dir div DIR_ENTRY_SIZE) in
     rbind (unlink_blocks (i_dev dir) (sint (i_start_sect dir)) inode_nr nr_dir_entries nr_dir_blks 0 0 0 s)
       (\<lambda>((flg, m, dir_size), s1).
     ensure flg (AFL 151) (
     if m = nr_dir_entries
     then sync_inode (upd_inode r (\<lambda>n. n\<lparr>i_size := of_nat dir_size\<rparr>) s1) r
     else Inr s1)))"

text \<open>The inode's bit in the inode map, which must be in the map's first sector.\<close>

definition free_imap_bit :: "fs_state \<Rightarrow> int \<Rightarrow> int \<Rightarrow> fs_state kres" where
  "free_imap_bit s dev inode_nr =
    (let byte_idx = inode_nr sdiv 8; bit_idx = inode_nr smod 8; j = nat (byte_idx smod SECTOR_SIZE) in
     ensure (byte_idx < SECTOR_SIZE) (AFL 51) (
     ensure (0 \<le> inode_nr) (Bad_access ''fsbuf'') (
     rbind (RD_SECT s dev 2) (\<lambda>s1.
     ensure (bit (fsbuf s1 j) (nat bit_idx)) (AFL 53) (
     rbind (RD_SECT s1 dev 2) (\<lambda>s2.
     WR_SECT (s2\<lparr>fsbuf := (fsbuf s2)(j := fsbuf s2 j AND NOT (push_bit (nat bit_idx) 1))\<rparr>) dev 2))))))"

definition do_unlink :: "fs_state \<Rightarrow> message \<Rightarrow> int fs_res" where
  "do_unlink s msg =
    rbind (get_pathname s (nat (source msg)) (m3p1 msg) (m3i2 msg) (AFL 19)) (\<lambda>pathname.
    if pathname = [slash] then Inr (-1, s)
    else rbind (search_file s pathname) (\<lambda>(inode_nr, s1).
    if inode_nr = INVALID_INODE then Inr (-1, s1)
    else case strip_path pathname of
      None \<Rightarrow> Inr (-1, s1)
    | Some _ \<Rightarrow>
      rbind (root_dir s1) (\<lambda>r.
      rbind (get_inode s1 (i_dev (inode_table s1 r)) inode_nr) (\<lambda>(pin, s2).
      case pin of None \<Rightarrow> Inl (Bad_access ''pin'') | Some p \<Rightarrow>
      let n = inode_table s2 p in
      if i_mode n \<noteq> I_REGULAR then Inr (-1, s2)
      else if i_cnt n > 1 then Inr (-1, s2)
      else rbind (get_super_block s2 (i_dev n)) (\<lambda>sb.
      rbind (free_imap_bit s2 (i_dev n) inode_nr) (\<lambda>s3.
      rbind (free_sectors s3 sb n) (\<lambda>s4.
      let s5 = upd_inode p (\<lambda>n. n\<lparr>i_mode := 0, i_size := 0, i_start_sect := 0, i_nr_sects := 0\<rparr>) s4 in
      rbind (sync_inode s5 p) (\<lambda>s6.
      rbind (put_inode s6 (Some p)) (\<lambda>s7.
      rbind (unlink_entry s7 r inode_nr) (\<lambda>s8.
      Inr (0, s8)))))))))))"

end
