(* ===== verification/FsMain.thy ===== *)
theory FsMain
  imports FsRdwt
begin

unbundle bit_operations_syntax

text \<open>
  The file system task, \<open>fs/main.c\<close>: making the file system (\<open>mkfs\<close>), starting
  (\<open>init_fs\<close>), the bookkeeping of fork and exit, and the dispatch of one message
  in \<open>task_fs\<close>.
\<close>

section \<open>mkfs\<close>

abbreviation (input) INSTALL_START_SECT :: "'a::numeral" where "INSTALL_START_SECT \<equiv> 0x8000"
abbreviation (input) INSTALL_NR_SECTS :: "'a::numeral" where "INSTALL_NR_SECTS \<equiv> 0x800"
abbreviation (input) NR_SECTS_FOR_LOG :: "'a::numeral" where "NR_SECTS_FOR_LOG \<equiv> 512"
abbreviation (input) NR_CONSOLES :: nat where "NR_CONSOLES \<equiv> 3"

definition cstr :: "string \<Rightarrow> u8 list" where
  "cstr s = map of_char s"

text \<open>\<open>memset(fsbuf, c, SECTOR_SIZE)\<close>.\<close>

definition fill_buf :: "u8 \<Rightarrow> fs_state \<Rightarrow> fs_state" where
  "fill_buf c s = s\<lparr>fsbuf := blit (fsbuf s) 0 (\<lambda>_. c) SECTOR_SIZE\<rparr>"

definition set_buf :: "((nat \<Rightarrow> u8) \<Rightarrow> (nat \<Rightarrow> u8)) \<Rightarrow> fs_state \<Rightarrow> fs_state" where
  "set_buf f s = s\<lparr>fsbuf := f (fsbuf s)\<rparr>"

text \<open>\<open>inode_isize_off\<close> is never assigned (line 159 assigns another field): \<open>junk\<close> is what it holds.\<close>

definition mkfs_super :: "u32 \<Rightarrow> u32 \<Rightarrow> super_block" where
  "mkfs_super junk sz =
    (let nr_inodes = SECTOR_SIZE * 8; smap = sz div (SECTOR_SIZE * 8) + 1; isects = nr_inodes * INODE_SIZE div SECTOR_SIZE in
     \<lparr>magic = MAGIC_V1, nr_inodes = nr_inodes, sb_nr_sects = sz, nr_imap_sects = 1,
      nr_smap_sects = smap, n_1st_sect = 1 + 1 + 1 + smap + isects, nr_inode_sects = isects,
      sb_root_inode = 1, inode_size = INODE_SIZE, inode_isize_off = junk, inode_start_off = 8,
      dir_ent_size = DIR_ENTRY_SIZE, dir_ent_inode_off = 0, dir_ent_fname_off = 4, sb_dev = 0\<rparr>)"

definition super_words :: "super_block \<Rightarrow> u32 list" where
  "super_words sb = [magic sb, nr_inodes sb, sb_nr_sects sb, nr_imap_sects sb, nr_smap_sects sb,
     n_1st_sect sb, nr_inode_sects sb, sb_root_inode sb, inode_size sb, inode_isize_off sb,
     inode_start_off sb, dir_ent_size sb, dir_ent_inode_off sb, dir_ent_fname_off sb]"

definition store_super :: "super_block \<Rightarrow> (nat \<Rightarrow> u8) \<Rightarrow> (nat \<Rightarrow> u8)" where
  "store_super sb b = fold (\<lambda>(i, w). put32 (4 * i) w) (enumerate 0 (super_words sb)) b"

text \<open>The first sector of the sector map: 513 bits.\<close>

definition smap_image :: "(nat \<Rightarrow> u8) \<Rightarrow> (nat \<Rightarrow> u8)" where
  "smap_image b = (\<lambda>i. if i < (NR_DEFAULT_FILE_SECTS + 1) div 8 then 0xFF
     else if i = (NR_DEFAULT_FILE_SECTS + 1) div 8 then b i OR 1 else b i)"

fun zero_smap :: "super_block \<Rightarrow> nat \<Rightarrow> nat \<Rightarrow> fs_state \<Rightarrow> fs_state kres" where
  "zero_smap sb 0 i s = Inr s"
| "zero_smap sb (Suc n) i s =
    rbind (WR_SECT_U s ROOT_DEV (2 + nr_imap_sects sb + of_nat i)) (\<lambda>s1. zero_smap sb n (Suc i) s1)"

text \<open>The bits of \<open>cmd.tar\<close>: bits left, bit offset in the sector, current sector.\<close>

fun mark_tar :: "super_block \<Rightarrow> nat \<Rightarrow> nat \<Rightarrow> u32 \<Rightarrow> fs_state \<Rightarrow> u32 fs_res" where
  "mark_tar sb 0 bit_off cur s = Inr (cur, s)"
| "mark_tar sb (Suc n) bit_off cur s =
    (let j = bit_off div 8;
         s1 = set_buf (\<lambda>b. b(j := b j OR push_bit (bit_off mod 8) 1)) s in
     if bit_off + 1 = SECTOR_SIZE * 8
     then rbind (WR_SECT_U s1 ROOT_DEV (2 + nr_imap_sects sb + cur)) (\<lambda>s2.
          rbind (RD_SECT_U s2 ROOT_DEV (2 + nr_imap_sects sb + (cur + 1))) (\<lambda>s3.
          mark_tar sb n 0 (cur + 1) s3))
     else mark_tar sb n (bit_off + 1) cur s1)"

text \<open>The inodes of the root, the terminals and \<open>cmd.tar\<close>, and the root directory.\<close>

definition disk_inode :: "u32 \<Rightarrow> u32 \<Rightarrow> u32 \<Rightarrow> u32 \<Rightarrow> inode" where
  "disk_inode mode sz start nr = \<lparr>i_mode = mode, i_size = sz, i_start_sect = start, i_nr_sects = nr,
     i_dev = 0, i_cnt = 0, i_num = 0\<rparr>"

definition mkfs_inodes :: "super_block \<Rightarrow> (nat \<Rightarrow> u8) \<Rightarrow> (nat \<Rightarrow> u8)" where
  "mkfs_inodes sb b =
    store_inode (disk_inode I_REGULAR (INSTALL_NR_SECTS * SECTOR_SIZE) INSTALL_START_SECT INSTALL_NR_SECTS)
      (INODE_SIZE * (NR_CONSOLES + 1))
    (fold (\<lambda>i. store_inode (disk_inode I_CHAR_SPECIAL 0 (word_of_int (MAKE_DEV DEV_CHAR_TTY (int i))) 0)
              (INODE_SIZE * (i + 1))) [0..<NR_CONSOLES]
    (store_inode (disk_inode I_DIRECTORY (DIR_ENTRY_SIZE * 5) (n_1st_sect sb) NR_DEFAULT_FILE_SECTS) 0 b))"

definition mkfs_dir :: "(nat \<Rightarrow> u8) \<Rightarrow> (nat \<Rightarrow> u8)" where
  "mkfs_dir b =
    store_entry (NR_CONSOLES + 1) (int NR_CONSOLES + 2) (cstr ''cmd.tar'')
    (fold (\<lambda>i. store_entry (i + 1) (int i + 2) (cstr ''dev_tty'' @ [of_nat (48 + i)])) [0..<NR_CONSOLES]
    (store_entry 0 1 (cstr ''.'') b))"

definition mkfs :: "u32 \<Rightarrow> fs_state \<Rightarrow> fs_state kres" where
  "mkfs junk s =
    ensure (dd_map ! nat (MAJOR ROOT_DEV) \<noteq> INVALID_DRIVER) (AFM 143) (
    rbind (hd_ioctl (drive s) (MINOR ROOT_DEV) DIOCTL_GET_GEO) (\<lambda>geo.
    let sb = mkfs_super junk (psize geo); imap = 2 + nr_imap_sects sb in
    rbind (WR_SECT (set_buf (store_super sb) (fill_buf 0x90 s)) ROOT_DEV 1) (\<lambda>s1.
    let s2 = set_buf (\<lambda>b. b(0 := fold (\<lambda>i x. x OR push_bit i 1) [0..<NR_CONSOLES + 3] (b 0))) (fill_buf 0 s1) in
    ensure (fsbuf s2 0 = 0x3F) (AFM 186) (
    rbind (WR_SECT s2 ROOT_DEV 2) (\<lambda>s3.
    rbind (WR_SECT_U (set_buf smap_image (fill_buf 0 s3)) ROOT_DEV imap) (\<lambda>s4.
    rbind (zero_smap sb (unat (nr_smap_sects sb) - 1) 1 (fill_buf 0 s4)) (\<lambda>s5.
    ensure (INSTALL_START_SECT + INSTALL_NR_SECTS < sb_nr_sects sb - NR_SECTS_FOR_LOG) (AFM 207) (
    let bit_offset = sint (INSTALL_START_SECT - n_1st_sect sb + 1);
        cur = word_of_int (bit_offset sdiv (SECTOR_SIZE * 8)) in
    ensure (0 \<le> bit_offset) (Bad_access ''fsbuf'') (
    rbind (RD_SECT_U s5 ROOT_DEV (imap + cur)) (\<lambda>s6.
    rbind (mark_tar sb INSTALL_NR_SECTS (nat (bit_offset smod (SECTOR_SIZE * 8))) cur s6) (\<lambda>(cur', s7).
    rbind (WR_SECT_U s7 ROOT_DEV (imap + cur')) (\<lambda>s8.
    rbind (WR_SECT_U (set_buf (mkfs_inodes sb) (fill_buf 0 s8)) ROOT_DEV (imap + nr_smap_sects sb)) (\<lambda>s9.
    WR_SECT_U (set_buf mkfs_dir (fill_buf 0 s9)) ROOT_DEV (n_1st_sect sb))))))))))))))"

section \<open>init_fs\<close>

definition zero_inode :: inode where
  "zero_inode = \<lparr>i_mode = 0, i_size = 0, i_start_sect = 0, i_nr_sects = 0, i_dev = 0, i_cnt = 0, i_num = 0\<rparr>"

definition zero_fd :: file_desc where
  "zero_fd = \<lparr>fd_mode = 0, fd_pos = 0, fd_cnt = 0, fd_inode = None\<rparr>"

definition init_tables :: "fs_state \<Rightarrow> fs_state" where
  "init_tables s = s\<lparr>
     f_desc_table := (\<lambda>i. if i < NR_FILE_DESC then zero_fd else f_desc_table s i),
     inode_table := (\<lambda>i. if i < NR_INODE then zero_inode else inode_table s i),
     super_blocks := (\<lambda>i. if i < NR_SUPER_BLOCK then (super_blocks s i)\<lparr>sb_dev := NO_DEV\<rparr> else super_blocks s i)\<rparr>"

definition init_fs :: "u32 \<Rightarrow> fs_state \<Rightarrow> fs_state kres" where
  "init_fs junk s =
    (let s1 = init_tables s in
     ensure (dd_map ! nat (MAJOR ROOT_DEV) \<noteq> INVALID_DRIVER) (AFM 119) (
     rbind (hd_open (drive s1) (MINOR ROOT_DEV)) (\<lambda>h.
     rbind (mkfs junk (s1\<lparr>drive := h\<rparr>)) (\<lambda>s2.
     rbind (read_super_block s2 ROOT_DEV) (\<lambda>s3.
     rbind (get_super_block s3 ROOT_DEV) (\<lambda>sb.
     ensure (magic sb = MAGIC_V1) (AFM 126) (
     rbind (get_inode s3 ROOT_DEV ROOT_INODE) (\<lambda>(r, s4).
     Inr (s4\<lparr>root_inode := r\<rparr>)))))))))"

section \<open>fork and exit\<close>

fun fork_files :: "nat \<Rightarrow> nat \<Rightarrow> nat \<Rightarrow> fs_state \<Rightarrow> fs_state kres" where
  "fork_files pid 0 i s = Inr s"
| "fork_files pid (Suc n) i s =
    (case filp (fprocs s pid) i of
       None \<Rightarrow> fork_files pid n (Suc i) s
     | Some d \<Rightarrow>
        let s1 = upd_fd d (\<lambda>f. f\<lparr>fd_cnt := fd_cnt f + 1\<rparr>) s in
        (case fd_inode (f_desc_table s1 d) of
           None \<Rightarrow> Inl (Bad_access ''fd_inode'')
         | Some p \<Rightarrow> fork_files pid n (Suc i) (upd_inode p (\<lambda>m. m\<lparr>i_cnt := i_cnt m + 1\<rparr>) s1)))"

definition fs_fork :: "fs_state \<Rightarrow> message \<Rightarrow> int fs_res" where
  "fs_fork s msg = rbind (fork_files (nat (m3i2 msg)) NR_FILES 0 s) (\<lambda>s1. Inr (0, s1))"

fun exit_files :: "nat \<Rightarrow> nat \<Rightarrow> nat \<Rightarrow> fs_state \<Rightarrow> fs_state kres" where
  "exit_files pid 0 i s = Inr s"
| "exit_files pid (Suc n) i s =
    (case filp (fprocs s pid) i of
       None \<Rightarrow> exit_files pid n (Suc i) s
     | Some d \<Rightarrow>
        (case fd_inode (f_desc_table s d) of
           None \<Rightarrow> Inl (Bad_access ''fd_inode'')
         | Some p \<Rightarrow> exit_files pid n (Suc i)
             (set_filp pid i None (drop_fd d (upd_inode p (\<lambda>m. m\<lparr>i_cnt := i_cnt m - 1\<rparr>) s)))))"

definition fs_exit :: "fs_state \<Rightarrow> message \<Rightarrow> int fs_res" where
  "fs_exit s msg = rbind (exit_files (nat (m3i2 msg)) NR_FILES 0 s) (\<lambda>s1. Inr (0, s1))"

section \<open>The dispatch\<close>

text \<open>
  One round of \<open>task_fs\<close>: the answer, if any, with its destination.  \<open>LSEEK\<close> and
  \<open>DISK_LOG\<close> have no case.
\<close>

definition task_fs_step ::
    "(int \<Rightarrow> int \<Rightarrow> u32 \<Rightarrow> int \<Rightarrow> nat \<Rightarrow> int \<times> int) \<Rightarrow> fs_state \<Rightarrow> message \<Rightarrow> (int \<times> message) option fs_res" where
  "task_fs_step tty s msg =
    (let src = source msg; pc = nat src; t = msgtype msg;
         answer = (\<lambda>r s'. Inr (Some (src, msg\<lparr>m3i1 := r, msgtype := SYSCALL_RET\<rparr>), s')) in
     if t = OPEN then rbind (do_open s pc msg) (\<lambda>(r, s'). answer r s')
     else if t = CLOSE then rbind (do_close s pc msg) (\<lambda>(r, s'). answer r s')
     else if t = READ \<or> t = WRITE then
       rbind (do_rdwt tty s pc msg) (\<lambda>((reply, cnt), s').
         if reply = SUSPEND_PROC then Inr (None, s')
         else Inr (Some (src, msg\<lparr>m3i2 := cnt, msgtype := SYSCALL_RET\<rparr>), s'))
     else if t = UNLINK then rbind (do_unlink s msg) (\<lambda>(r, s'). answer r s')
     else if t = RESUME_PROC then Inr (Some (m3i3 msg, msg\<lparr>msgtype := SYSCALL_RET\<rparr>), s)
     else if t = FORK then rbind (fs_fork s msg) (\<lambda>(r, s'). answer r s')
     else if t = EXIT then rbind (fs_exit s msg) (\<lambda>(r, s'). answer r s')
     else if t = STAT then rbind (do_stat s msg) (\<lambda>(r, s'). answer r s')
     else Inl (AFM 59))"

end
