(* ===== verification/FsIo.thy ===== *)
theory FsIo
  imports FsMain
begin

unbundle bit_operations_syntax

text \<open>
  Sector reads and writes of the file system on a device that works: they
  always succeed, and are the reads and writes of the block device interface.
  Words and inodes in a buffer read back as they were stored.
\<close>

section \<open>Words in a buffer\<close>

lemma le32_put32_same [simp]: "le32 (put32 i v b) i = v"
  by (simp add: le32_def put32_def word32_bytes)

lemma le32_cong:
  assumes "\<And>k. k < 4 \<Longrightarrow> b (i + k) = b' (j + k)"
  shows "le32 b i = le32 b' j"
  using assms [of 0] assms [of 1] assms [of 2] assms [of 3] by (simp add: le32_def)

lemma put32_other [array_simps]: "j < i \<or> i + 4 \<le> j \<Longrightarrow> put32 i v b j = b j"
  by (auto simp: put32_def)

lemma le32_put32_other [simp]: "j + 4 \<le> i \<or> i + 4 \<le> j \<Longrightarrow> le32 (put32 i v b) j = le32 b j"
  by (rule le32_cong) (auto simp: array_simps)

lemma load_store_inode:
  "load_inode (store_inode p off b) off q =
     q\<lparr>i_mode := i_mode p, i_size := i_size p, i_start_sect := i_start_sect p, i_nr_sects := i_nr_sects p\<rparr>"
  by (simp add: load_inode_def store_inode_def)

lemma store_inode_other: "j < off \<or> off + 16 \<le> j \<Longrightarrow> store_inode p off b j = b j"
  by (auto simp: store_inode_def put32_def)

lemma load_inode_cong:
  "(\<And>k. k < 16 \<Longrightarrow> b (off + k) = b' (off' + k)) \<Longrightarrow> load_inode b off q = load_inode b' off' q"
proof -
  assume h: "\<And>k. k < 16 \<Longrightarrow> b (off + k) = b' (off' + k)"
  have "le32 b (off + d) = le32 b' (off' + d)" if "d \<le> 12" for d
    by (rule le32_cong) (use h that in \<open>simp add: add.assoc\<close>)
  from this [of 0] this [of 4] this [of 8] this [of 12] show ?thesis
    by (simp add: load_inode_def)
qed

section \<open>A working device\<close>

definition fs_dev :: "fs_state \<Rightarrow> int \<Rightarrow> part_info \<Rightarrow> bool" where
  "fs_dev s dev part \<longleftrightarrow> MAJOR dev = DEV_HD \<and> dev_ok (drive s) (MINOR dev) part"

text \<open>
  Block \<open>n\<close> of the partition can be addressed: 28 bits for the drive, and its byte
  offset is a C int.
\<close>

definition reach :: "part_info \<Rightarrow> nat \<Rightarrow> bool" where
  "reach part n \<longleftrightarrow> in_reach part n 1 \<and> n * SECTOR_SIZE < 2 ^ 31"

abbreviation (input) blk :: "part_info \<Rightarrow> fs_state \<Rightarrow> nat \<Rightarrow> nat \<Rightarrow> u8" where
  "blk part s n \<equiv> part_block part (drive s) n"

definition read_blk :: "part_info \<Rightarrow> nat \<Rightarrow> fs_state \<Rightarrow> fs_state" where
  "read_blk part n s = s\<lparr>fsbuf := blit (fsbuf s) 0 (blk part s n) SECTOR_SIZE\<rparr>"

definition write_blk :: "part_info \<Rightarrow> nat \<Rightarrow> fs_state \<Rightarrow> fs_state" where
  "write_blk part n s = s\<lparr>drive := part_put part (drive s) n (fsbuf s)\<rparr>"

lemma read_blk_simps [simp]:
  "drive (read_blk part n s) = drive s" "inode_table (read_blk part n s) = inode_table s"
  "f_desc_table (read_blk part n s) = f_desc_table s" "super_blocks (read_blk part n s) = super_blocks s"
  "root_inode (read_blk part n s) = root_inode s" "fprocs (read_blk part n s) = fprocs s"
  "umem (read_blk part n s) = umem s"
  by (simp_all add: read_blk_def)

lemma write_blk_simps [simp]:
  "fsbuf (write_blk part n s) = fsbuf s" "inode_table (write_blk part n s) = inode_table s"
  "f_desc_table (write_blk part n s) = f_desc_table s" "super_blocks (write_blk part n s) = super_blocks s"
  "root_inode (write_blk part n s) = root_inode s" "fprocs (write_blk part n s) = fprocs s"
  "umem (write_blk part n s) = umem s"
  by (simp_all add: write_blk_def)

lemma fsbuf_read: "i < SECTOR_SIZE \<Longrightarrow> fsbuf (read_blk part n s) i = blk part s n i"
  by (simp add: read_blk_def blit_def)

lemma blk_write:
  "i < SECTOR_SIZE \<Longrightarrow> blk part (write_blk part n s) n' i = (if n' = n then fsbuf s i else blk part s n' i)"
  by (simp add: write_blk_def disk.get_put)

lemma blk_write_other: "n' \<noteq> n \<Longrightarrow> blk part (write_blk part n s) n' = blk part s n'"
  by (simp add: write_blk_def disk.get_put_other)

lemma fs_dev_cong:
  "hd_info (drive s') = hd_info (drive s) \<Longrightarrow> responds (drive s') = responds (drive s) \<Longrightarrow>
   fs_dev s' dev part = fs_dev s dev part"
  by (simp add: fs_dev_def dev_ok_def)

lemma fs_dev_write [simp]: "fs_dev (write_blk part' n s) dev part = fs_dev s dev part"
  by (rule fs_dev_cong) (simp_all add: write_blk_def frame_simps)

lemma fs_dev_read [simp]: "fs_dev (read_blk part' n s) dev part = fs_dev s dev part"
  by (rule fs_dev_cong) simp_all

lemma fs_dev_upd [simp]:
  "fs_dev (upd_inode i f s) dev part = fs_dev s dev part" "fs_dev (upd_fd d g s) dev part = fs_dev s dev part"
  "fs_dev (set_filp p fd v s) dev part = fs_dev s dev part" "fs_dev (s\<lparr>fsbuf := b\<rparr>) dev part = fs_dev s dev part"
  "fs_dev (s\<lparr>umem := m\<rparr>) dev part = fs_dev s dev part" "fs_dev (set_buf h s) dev part = fs_dev s dev part"
  "fs_dev (fill_buf c s) dev part = fs_dev s dev part"
  by (rule fs_dev_cong; simp add: set_buf_def fill_buf_def)+

lemma rw_sector_eq:
  assumes "fs_dev s dev part" and "io = DEV_READ \<or> io = DEV_WRITE"
  shows "rw_sector s io dev pos bytes =
    (case hd_rdwt (drive s) io (MINOR dev) pos bytes (fsbuf s) of
       Inl e \<Rightarrow> Inl e | Inr (buf, h) \<Rightarrow> Inr (s\<lparr>fsbuf := buf, drive := h\<rparr>))"
  using assms by (auto simp: rw_sector_def fs_dev_def dd_map_def Let_def task_hd_step_def split: sum.splits)

lemma pos_int: "n * SECTOR_SIZE < 2 ^ 31 \<Longrightarrow> word_of_int (cint (int n * SECTOR_SIZE)) = (of_nat (n * SECTOR_SIZE) :: u64)"
  by (simp add: cint_small)

lemma RD_SECT_eq:
  assumes "fs_dev s dev part" and "reach part n"
  shows "RD_SECT s dev (int n) = Inr (read_blk part n s)"
proof -
  have "hd_rdwt (drive s) DEV_READ (MINOR dev) (of_nat (n * SECTOR_SIZE)) SECTOR_SIZE (fsbuf s) =
      Inr (blit (fsbuf s) 0 (blk part s n) SECTOR_SIZE, drive s)"
    using assms by (intro hd_read_one) (auto simp: fs_dev_def reach_def)
  then show ?thesis
    using assms(2) unfolding RD_SECT_def rw_sector_eq [OF assms(1) disjI1 [OF refl]]
    by (simp add: pos_int reach_def read_blk_def del: of_nat_mult)
qed

lemma WR_SECT_eq:
  assumes "fs_dev s dev part" and "reach part n"
  shows "WR_SECT s dev (int n) = Inr (write_blk part n s)"
proof -
  have "hd_rdwt (drive s) DEV_WRITE (MINOR dev) (of_nat (n * SECTOR_SIZE)) SECTOR_SIZE (fsbuf s) =
      Inr (fsbuf s, part_put part (drive s) n (fsbuf s))"
    using assms by (intro hd_write_one) (auto simp: fs_dev_def reach_def)
  then show ?thesis
    using assms(2) unfolding WR_SECT_def rw_sector_eq [OF assms(1) disjI2 [OF refl]]
    by (simp add: pos_int reach_def write_blk_def del: of_nat_mult)
qed

lemma sect_u_pos:
  fixes v :: u32
  assumes "reach part n" and "unat v = n"
  shows "(ucast (v * SECTOR_SIZE) :: u64) = word_of_int (cint (int n * SECTOR_SIZE))"
proof -
  have n: "n * 512 < 2 ^ 31" using assms by (simp add: reach_def)
  have u: "unat (v * 512) = n * 512"
    using n assms(2) by (subst unat_mult_lem [THEN iffD1]) simp_all
  have "(ucast (v * 512) :: u64) = of_nat (n * 512)"
  proof (rule word_unat_eq_iff [THEN iffD2])
    show "unat (ucast (v * 512) :: u64) = unat (of_nat (n * 512) :: u64)"
      using n unfolding unsigned_ucast_eq u by (simp add: unat_of_nat take_bit_nat_eq_self del: of_nat_mult)
  qed
  with n show ?thesis by (simp add: pos_int del: of_nat_mult)
qed

lemma RD_SECT_U_eq:
  assumes "fs_dev s dev part" and "reach part n" and "unat v = n"
  shows "RD_SECT_U s dev v = Inr (read_blk part n s)"
  using RD_SECT_eq [OF assms(1,2)] sect_u_pos [OF assms(2,3)] by (simp add: RD_SECT_U_def RD_SECT_def)

lemma WR_SECT_U_eq:
  assumes "fs_dev s dev part" and "reach part n" and "unat v = n"
  shows "WR_SECT_U s dev v = Inr (write_blk part n s)"
  using WR_SECT_eq [OF assms(1,2)] sect_u_pos [OF assms(2,3)] by (simp add: WR_SECT_U_def WR_SECT_def)

end
