(* ===== verification/FsInode.thy ===== *)
theory FsInode
  imports FsIo
begin

unbundle bit_operations_syntax

text \<open>
  The inode cache: \<open>get_inode\<close>, \<open>sync_inode\<close>, \<open>put_inode\<close> against the inode array
  on disk.
\<close>

section \<open>Geometry\<close>

text \<open>
  The device works, its super block is loaded, and the inode array (4096
  inodes in 256 sectors after the boot sector, the super block and the two
  maps) can be addressed.
\<close>

definition iblock :: "super_block \<Rightarrow> nat \<Rightarrow> nat" where
  "iblock sb n = 2 + unat (nr_imap_sects sb) + unat (nr_smap_sects sb) + (n - 1) div 16"

definition ioffset :: "nat \<Rightarrow> nat" where
  "ioffset n = (n - 1) mod 16 * 32"

definition geom :: "fs_state \<Rightarrow> int \<Rightarrow> part_info \<Rightarrow> super_block \<Rightarrow> bool" where
  "geom s dev part sb \<longleftrightarrow> fs_dev s dev part \<and> get_super_block s dev = Inr sb \<and>
     (\<forall>n \<le> 2 + unat (nr_imap_sects sb) + unat (nr_smap_sects sb) + 256. reach part n)"

abbreviation (input) valid_ino :: "nat \<Rightarrow> bool" where
  "valid_ino n \<equiv> 1 \<le> n \<and> n \<le> 4096"

lemma geomD:
  assumes "geom s dev part sb"
  shows geom_dev: "fs_dev s dev part" and geom_sb: "get_super_block s dev = Inr sb"
    and geom_reach: "n \<le> 2 + unat (nr_imap_sects sb) + unat (nr_smap_sects sb) + 256 \<Longrightarrow> reach part n"
  using assms by (auto simp: geom_def)

lemma get_super_block_cong: "super_blocks s' = super_blocks s \<Longrightarrow> get_super_block s' dev = get_super_block s dev"
  by (simp add: get_super_block_def cong: option.case_cong)

lemma geom_cong:
  "fs_dev s' dev part = fs_dev s dev part \<Longrightarrow> super_blocks s' = super_blocks s \<Longrightarrow>
   geom s' dev part sb = geom s dev part sb"
  using get_super_block_cong [of s' s dev] by (simp add: geom_def)

lemma geom_simps [simp]:
  "geom (read_blk part' n s) dev part sb = geom s dev part sb"
  "geom (write_blk part' n s) dev part sb = geom s dev part sb"
  "geom (upd_inode i f s) dev part sb = geom s dev part sb"
  "geom (upd_fd d g s) dev part sb = geom s dev part sb"
  "geom (set_filp p fd v s) dev part sb = geom s dev part sb"
  "geom (s\<lparr>fsbuf := b\<rparr>) dev part sb = geom s dev part sb"
  "geom (s\<lparr>umem := m\<rparr>) dev part sb = geom s dev part sb"
  by (rule geom_cong; simp)+

lemma sb_bounds:
  assumes "geom s dev part sb"
  shows "2 + unat (nr_imap_sects sb) + unat (nr_smap_sects sb) + 256 < 2 ^ 22"
proof -
  have "reach part (2 + unat (nr_imap_sects sb) + unat (nr_smap_sects sb) + 256)"
    by (rule geom_reach [OF assms]) simp
  then show ?thesis by (simp add: reach_def)
qed

lemma sint_word_of_nat: "n < 2 ^ 31 \<Longrightarrow> sint (word_of_nat n :: u32) = int n"
  by (simp add: signed_of_nat signed_take_bit_int_eq_self)

lemma inode_blk_eq:
  assumes "geom s dev part sb" and "valid_ino n"
  shows "inode_blk sb (int n) = int (iblock sb n)" and "inode_off (int n) = int (ioffset n)"
    and "reach part (iblock sb n)"
proof -
  have d: "(int n - 1) sdiv 16 = int ((n - 1) div 16)" "(int n - 1) smod 16 = int ((n - 1) mod 16)"
    using assms(2) by (simp_all add: of_nat_diff zdiv_int zmod_int)
  have small: "(n - 1) div 16 < 256" using assms(2) by presburger
  have "1 + 1 + nr_imap_sects sb + nr_smap_sects sb + word_of_int ((int n - 1) sdiv 16) = (word_of_nat (iblock sb n) :: u32)"
    unfolding d iblock_def by simp
  moreover have "iblock sb n < 2 ^ 31" using sb_bounds [OF assms(1)] small by (simp add: iblock_def)
  ultimately show "inode_blk sb (int n) = int (iblock sb n)"
    by (simp only: inode_blk_def sint_word_of_nat)
  show "inode_off (int n) = int (ioffset n)" by (simp add: inode_off_def ioffset_def d)
  show "reach part (iblock sb n)"
    using small by (intro geom_reach [OF assms(1)]) (simp add: iblock_def)
qed

lemma ioffset_bound: "ioffset n + 32 \<le> SECTOR_SIZE"
proof -
  have "(n - 1) mod 16 \<le> 15" by simp
  then show ?thesis by (simp add: ioffset_def)
qed

lemma iblock_inj:
  assumes "valid_ino n" "valid_ino k" "iblock sb n = iblock sb k" "n \<noteq> k"
  shows "ioffset n + 32 \<le> ioffset k \<or> ioffset k + 32 \<le> ioffset n"
proof -
  have "(n - 1) div 16 = (k - 1) div 16" using assms(3) by (simp add: iblock_def)
  then have "(n - 1) mod 16 \<noteq> (k - 1) mod 16"
    using assms(1,2,4) by (metis div_mult_mod_eq le_add_diff_inverse)
  then show ?thesis by (simp add: ioffset_def) linarith
qed

section \<open>The inode array on disk\<close>

definition dinode :: "part_info \<Rightarrow> super_block \<Rightarrow> fs_state \<Rightarrow> nat \<Rightarrow> inode" where
  "dinode part sb s n = load_inode (blk part s (iblock sb n)) (ioffset n) zero_inode"

text \<open>The four fields an inode has on disk.\<close>

definition same_disk :: "inode \<Rightarrow> inode \<Rightarrow> bool" where
  "same_disk a b \<longleftrightarrow> i_mode a = i_mode b \<and> i_size a = i_size b \<and> i_start_sect a = i_start_sect b \<and>
     i_nr_sects a = i_nr_sects b"

lemma dinode_cong:
  "(\<And>i. i < SECTOR_SIZE \<Longrightarrow> blk part s (iblock sb n) i = blk part s' (iblock sb n) i) \<Longrightarrow>
   dinode part sb s n = dinode part sb s' n"
  unfolding dinode_def using ioffset_bound [of n] by (intro load_inode_cong) simp

section \<open>get\<close>

abbreviation (input) cached :: "fs_state \<Rightarrow> int \<Rightarrow> int \<Rightarrow> nat \<Rightarrow> bool" where
  "cached s dev num i \<equiv> i < NR_INODE \<and> i_cnt (inode_table s i) \<noteq> 0 \<and> i_dev (inode_table s i) = dev \<and>
     i_num (inode_table s i) = num"

lemma get_inode_hit:
  assumes "cached s dev num p" and "\<forall>j < p. \<not> cached s dev num j" and "num \<noteq> 0"
  shows "get_inode s dev num = Inr (Some p, upd_inode p (\<lambda>n. n\<lparr>i_cnt := i_cnt n + 1\<rparr>) s)"
proof -
  have "find (\<lambda>i. i_cnt (inode_table s i) \<noteq> 0 \<and> i_dev (inode_table s i) = dev \<and> i_num (inode_table s i) = num)
      [0..<NR_INODE] = Some p"
    using assms by (auto simp: find_upt)
  then show ?thesis using assms(3) by (simp add: get_inode_def)
qed

lemma get_inode_miss:
  assumes g: "geom s dev part sb" and n: "valid_ino n" and miss: "\<forall>i. \<not> cached s dev (int n) i"
    and q: "q < NR_INODE" "i_cnt (inode_table s q) = 0" "\<forall>j < q. i_cnt (inode_table s j) \<noteq> 0"
  shows "get_inode s dev (int n) = Inr (Some q, upd_inode q
      (\<lambda>m. (dinode part sb s n)\<lparr>i_dev := dev, i_num := int n, i_cnt := 1\<rparr>) (read_blk part (iblock sb n) s))"
proof -
  have f1: "find (\<lambda>i. i_cnt (inode_table s i) \<noteq> 0 \<and> i_dev (inode_table s i) = dev \<and>
      i_num (inode_table s i) = int n) [0..<NR_INODE] = None"
    using miss by (auto simp: find_upt_None)
  have f2: "find (\<lambda>i. i_cnt (inode_table s i) = 0) [0..<NR_INODE] = Some q"
    using q by (auto simp: find_upt)
  let ?s1 = "upd_inode q (\<lambda>n'. n'\<lparr>i_dev := dev, i_num := int n, i_cnt := 1\<rparr>) s"
  have g1: "geom ?s1 dev part sb" using g by simp
  note ib = inode_blk_eq [OF g1 n]
  have "load_inode (fsbuf (read_blk part (iblock sb n) ?s1)) (ioffset n) m =
      load_inode (blk part s (iblock sb n)) (ioffset n) m" for m
    by (rule load_inode_cong) (use ioffset_bound [of n] in \<open>simp add: fsbuf_read\<close>)
  moreover have "upd_inode q (load_inode b off) (read_blk part k ?s1) =
      upd_inode q (\<lambda>m. (load_inode b off zero_inode)\<lparr>i_dev := dev, i_num := int n, i_cnt := 1\<rparr>) (read_blk part k s)"
    for b off k
    by (simp add: upd_inode_def read_blk_def load_inode_def fun_eq_iff zero_inode_def)
  ultimately show ?thesis
    using n by (simp add: get_inode_def f1 f2 Let_def geom_sb [OF g1] ib RD_SECT_eq [OF geom_dev [OF g1]]
        dinode_def)
qed

section \<open>sync\<close>

lemma sync_inode_eq:
  assumes g: "geom s dev part sb" and p: "i_dev (inode_table s p) = dev"
    and n: "i_num (inode_table s p) = int n" "valid_ino n"
  obtains s' where "sync_inode s p = Inr s'"
    and "s' = write_blk part (iblock sb n)
       (s\<lparr>fsbuf := store_inode (inode_table s p) (ioffset n) (fsbuf (read_blk part (iblock sb n) s))\<rparr>)"
    and "same_disk (dinode part sb s' n) (inode_table s p)"
    and "\<And>k. valid_ino k \<Longrightarrow> k \<noteq> n \<Longrightarrow> dinode part sb s' k = dinode part sb s k"
    and "\<And>b. b \<noteq> iblock sb n \<Longrightarrow> blk part s' b = blk part s b"
proof -
  note ib = inode_blk_eq [OF g n(2)]
  let ?b = "store_inode (inode_table s p) (ioffset n) (fsbuf (read_blk part (iblock sb n) s))"
  let ?s = "(read_blk part (iblock sb n) s)\<lparr>fsbuf := ?b\<rparr>"
  define s' where "s' = write_blk part (iblock sb n) ?s"
  have "fs_dev ?s dev part" using geom_dev [OF g] by simp
  then have sync: "sync_inode s p = Inr s'"
    by (simp add: sync_inode_def Let_def p n geom_sb [OF g] ib RD_SECT_eq [OF geom_dev [OF g]] WR_SECT_eq s'_def)
  have old: "blk part ?s = blk part s" by (simp add: fun_eq_iff)
  have here: "blk part s' (iblock sb n) i = ?b i" if "i < 512" for i
    using that by (simp add: s'_def blk_write)
  have same: "same_disk (dinode part sb s' n) (inode_table s p)"
  proof -
    have "dinode part sb s' n = load_inode ?b (ioffset n) zero_inode"
      unfolding dinode_def using ioffset_bound [of n] by (intro load_inode_cong) (simp add: here)
    then show ?thesis by (simp add: load_store_inode same_disk_def)
  qed
  have other: "dinode part sb s' k = dinode part sb s k" if k: "valid_ino k" "k \<noteq> n" for k
  proof (cases "iblock sb k = iblock sb n")
    case True
    from iblock_inj [OF k(1) n(2) True k(2)]
    have "?b (ioffset k + j) = blk part s (iblock sb n) (ioffset k + j)" if "j < 16" for j
      using that ioffset_bound [of k] by (subst store_inode_other) (auto simp: fsbuf_read)
    then show ?thesis
      unfolding dinode_def True using ioffset_bound [of k] by (intro load_inode_cong) (simp add: here)
  next
    case False
    then show ?thesis by (simp add: dinode_def s'_def blk_write_other)
  qed
  show thesis
  proof (rule that [OF sync _ same other])
    show "s' = write_blk part (iblock sb n) (s\<lparr>fsbuf := ?b\<rparr>)"
      by (simp add: s'_def read_blk_def write_blk_def)
    show "blk part s' b = blk part s b" if "b \<noteq> iblock sb n" for b
      using that by (simp add: s'_def blk_write_other)
  qed
qed

section \<open>The cache invariant\<close>

text \<open>
  At most one slot holds a given inode, and no count is negative.
\<close>

definition icache_ok :: "fs_state \<Rightarrow> bool" where
  "icache_ok s \<longleftrightarrow> (\<forall>i < NR_INODE. 0 \<le> i_cnt (inode_table s i)) \<and>
     (\<forall>i j dev num. cached s dev num i \<longrightarrow> cached s dev num j \<longrightarrow> i = j)"

lemma get_inode_icache:
  assumes "icache_ok s" and "get_inode s dev num = Inr (r, s')"
  shows "icache_ok s' \<and> (case r of None \<Rightarrow> num = 0 \<and> s' = s | Some p \<Rightarrow> cached s' dev num p \<and>
     0 < i_cnt (inode_table s' p))"
proof (cases "num = 0")
  case True
  with assms show ?thesis by (simp add: get_inode_def)
next
  case False
  let ?P = "\<lambda>i. i_cnt (inode_table s i) \<noteq> 0 \<and> i_dev (inode_table s i) = dev \<and> i_num (inode_table s i) = num"
  show ?thesis
  proof (cases "find ?P [0..<NR_INODE]")
    case (Some p)
    then have p: "p < NR_INODE" "?P p" by (auto simp: find_upt)
    have s': "s' = upd_inode p (\<lambda>n. n\<lparr>i_cnt := i_cnt n + 1\<rparr>) s" "r = Some p"
      using assms(2) False Some by (simp_all add: get_inode_def)
    have pos: "0 \<le> i_cnt (inode_table s p)" using assms(1) p by (simp add: icache_ok_def)
    have cch: "cached s' dv nm i = cached s dv nm i" for dv nm i
      using p pos by (auto simp: s')
    then have "icache_ok s'"
      using assms(1) pos unfolding icache_ok_def cch by (simp add: s')
    then show ?thesis using p pos by (simp add: s')
  next
    case None
    then have miss: "\<not> cached s dev num i" for i by (auto simp: find_upt_None)
    obtain q where q: "find (\<lambda>i. i_cnt (inode_table s i) = 0) [0..<NR_INODE] = Some q"
      using assms(2) False None by (cases "find (\<lambda>i. i_cnt (inode_table s i) = 0) [0..<NR_INODE]")
        (simp_all add: get_inode_def)
    then have q': "q < NR_INODE" "i_cnt (inode_table s q) = 0" by (auto simp: find_upt)
    obtain t b off where s': "s' = upd_inode q (load_inode b off) t" "r = Some q"
      and t: "inode_table t = (inode_table s)(q := (inode_table s q)\<lparr>i_dev := dev, i_num := num, i_cnt := 1\<rparr>)"
    proof -
      from assms(2) False None q obtain sb t b off where
        rd: "RD_SECT (upd_inode q (\<lambda>n. n\<lparr>i_dev := dev, i_num := num, i_cnt := 1\<rparr>) s) dev (inode_blk sb num) = Inr t"
        and s': "s' = upd_inode q (load_inode b off) t" "r = Some q"
        by (auto simp: get_inode_def Let_def split: sum.splits if_splits)
      from rd have "inode_table t = (inode_table s)(q := (inode_table s q)\<lparr>i_dev := dev, i_num := num, i_cnt := 1\<rparr>)"
        by (auto simp: RD_SECT_def rw_sector_def Let_def split: sum.splits if_splits)
      with s' that show thesis by blast
    qed
    have cch: "cached s' dv nm i \<longleftrightarrow> (if i = q then dv = dev \<and> nm = num else cached s dv nm i)" for dv nm i
      using q' by (auto simp: s' t load_inode_def)
    have "0 \<le> i_cnt (inode_table s' i)" if "i < NR_INODE" for i
      using assms(1) that by (simp add: icache_ok_def s' t load_inode_def)
    moreover have "i = j" if i: "cached s' dv nm i" and j: "cached s' dv nm j" for i j dv nm
    proof -
      have "cached s dv nm i \<Longrightarrow> cached s dv nm j \<Longrightarrow> i = j"
        using assms(1) unfolding icache_ok_def by blast
      then show ?thesis
        using i [unfolded cch] j [unfolded cch] miss by (cases "i = q"; cases "j = q") simp_all
    qed
    ultimately have "icache_ok s'" unfolding icache_ok_def by blast
    then show ?thesis using q' by (auto simp: s' t load_inode_def)
  qed
qed

lemma put_inode_icache:
  "icache_ok s \<Longrightarrow> put_inode s (Some p) = Inr s' \<Longrightarrow> icache_ok s'"
  by (auto simp: put_inode_def icache_ok_def split: if_splits)

section \<open>get succeeds\<close>

lemma get_inode_total:
  assumes ok: "icache_ok s" and g: "geom s dev part sb" and n: "valid_ino n"
    and room: "\<exists>i < NR_INODE. i_cnt (inode_table s i) = 0"
  obtains p s' where "get_inode s dev (int n) = Inr (Some p, s')" and "icache_ok s'" and "cached s' dev (int n) p"
    and "\<And>q. q \<noteq> p \<Longrightarrow> inode_table s' q = inode_table s q"
    and "i_cnt (inode_table s' p) = i_cnt (inode_table s p) + 1"
    and "drive s' = drive s" "f_desc_table s' = f_desc_table s" "fprocs s' = fprocs s"
      "super_blocks s' = super_blocks s" "root_inode s' = root_inode s" "umem s' = umem s"
    and "if \<exists>q. cached s dev (int n) q
     then cached s dev (int n) p \<and> inode_table s' p = (inode_table s p)\<lparr>i_cnt := i_cnt (inode_table s p) + 1\<rparr>
     else inode_table s' p = (dinode part sb s n)\<lparr>i_dev := dev, i_num := int n, i_cnt := 1\<rparr>"
proof (cases "\<exists>p. cached s dev (int n) p")
  case True
  define p where "p = (LEAST p. cached s dev (int n) p)"
  have p: "cached s dev (int n) p" and least: "\<forall>j < p. \<not> cached s dev (int n) j"
    using LeastI_ex [OF True] not_less_Least [of _ "cached s dev (int n)"] unfolding p_def by blast+
  have eq: "get_inode s dev (int n) = Inr (Some p, upd_inode p (\<lambda>n. n\<lparr>i_cnt := i_cnt n + 1\<rparr>) s)"
    using n by (intro get_inode_hit [OF p least]) simp
  show thesis using get_inode_icache [OF ok eq] p True by (intro that [OF eq]) auto
next
  case False
  define q where "q = (LEAST q. i_cnt (inode_table s q) = 0)"
  obtain i where i: "i < NR_INODE" "i_cnt (inode_table s i) = 0" using room by blast
  have q: "i_cnt (inode_table s q) = 0" unfolding q_def by (rule LeastI [of _ i]) (rule i(2))
  have "q \<le> i" unfolding q_def by (rule Least_le) (rule i(2))
  then have q64: "q < NR_INODE" using i(1) by simp
  have before: "\<forall>j < q. i_cnt (inode_table s j) \<noteq> 0"
    unfolding q_def using not_less_Least by blast
  have eq: "get_inode s dev (int n) = Inr (Some q, upd_inode q
      (\<lambda>m. (dinode part sb s n)\<lparr>i_dev := dev, i_num := int n, i_cnt := 1\<rparr>) (read_blk part (iblock sb n) s))"
    using False by (intro get_inode_miss [OF g n _ q64 q before]) blast
  show thesis using get_inode_icache [OF ok eq] False q by (intro that [OF eq]) auto
qed

end
