(* ===== verification/FsDir.thy ===== *)
theory FsDir
  imports FsInode
begin

unbundle bit_operations_syntax

text \<open>
  Directories: what \<open>strip_path\<close> accepts, what \<open>search_file\<close> finds, where
  \<open>new_dir_entry\<close> puts an entry, and that a created name is found again.
\<close>

section \<open>File names\<close>

lemma strip_loop_eq:
  "length t < MAX_FILENAME_LEN \<Longrightarrow> strip_loop s t =
    (if slash \<in> set (take (MAX_FILENAME_LEN - length t) s) then None
     else Some (t @ take (MAX_FILENAME_LEN - length t) s))"
proof (induction s arbitrary: t)
  case (Cons c s)
  show ?case
  proof (cases "MAX_FILENAME_LEN \<le> length t + 1")
    case True
    with Cons.prems have "length t = 11" by simp
    then show ?thesis by simp
  next
    case False
    then obtain k where k: "12 - length t = Suc k" "k = 12 - length (t @ [c])"
      using Cons.prems by (cases "12 - length t") auto
    then show ?thesis using Cons.IH [of "t @ [c]"] False by auto
  qed
qed simp

definition base_name :: "u8 list \<Rightarrow> u8 list" where
  "base_name path = take MAX_FILENAME_LEN (case path of c # s \<Rightarrow> if c = slash then s else path | [] \<Rightarrow> [])"

lemma strip_path_eq:
  "strip_path path = (if slash \<in> set (base_name path) then None else Some (base_name path))"
  by (simp add: strip_path_def base_name_def strip_loop_eq)

lemma length_pad [simp]: "length (pad_name t) = MAX_FILENAME_LEN"
  by (simp add: pad_name_def)

section \<open>Entries of a directory\<close>

definition dir_name :: "part_info \<Rightarrow> fs_state \<Rightarrow> nat \<Rightarrow> nat \<Rightarrow> u8 list" where
  "dir_name part s start k = de_name (blk part s (start + k div 32)) (k mod 32)"

definition dir_ino :: "part_info \<Rightarrow> fs_state \<Rightarrow> nat \<Rightarrow> nat \<Rightarrow> int" where
  "dir_ino part s start k = de_inode (blk part s (start + k div 32)) (k mod 32)"

lemma de_name_cong:
  "(\<And>i. i < SECTOR_SIZE \<Longrightarrow> b i = b' i) \<Longrightarrow> j < 32 \<Longrightarrow> de_name b j = de_name b' j"
  by (simp add: de_name_def)

lemma de_inode_cong:
  "(\<And>i. i < SECTOR_SIZE \<Longrightarrow> b i = b' i) \<Longrightarrow> j < 32 \<Longrightarrow> de_inode b j = de_inode b' j"
  unfolding de_inode_def by (intro arg_cong [where f = sint] le32_cong) simp

lemma entries_read:
  assumes "j < 32"
  shows "de_name (fsbuf (read_blk part n s)) j = de_name (blk part s n) j"
    and "de_inode (fsbuf (read_blk part n s)) j = de_inode (blk part s n) j"
  using assms by (auto intro: de_name_cong de_inode_cong simp: fsbuf_read)

lemma dir_cong:
  "drive s' = drive s \<Longrightarrow> dir_name part s' start k = dir_name part s start k \<and>
     dir_ino part s' start k = dir_ino part s start k"
  by (simp add: dir_name_def dir_ino_def)

lemma find_app: "find P (xs @ ys) = (case find P xs of None \<Rightarrow> find P ys | Some x \<Rightarrow> Some x)"
  by (induction xs) auto

lemma upt_cons: "[j..<j + Suc x] = j # [Suc j..<Suc j + x]"
  by (simp add: upt_conv_Cons)

lemma upt_split: "i \<le> j \<Longrightarrow> j \<le> k \<Longrightarrow> [i..<k] = [i..<j] @ [j..<k]"
  by (metis le_add_diff_inverse upt_add_eq_append)

lemma find_map_eq: "find P (map f xs) = map_option f (find (\<lambda>x. P (f x)) xs)"
  by (induction xs) auto

section \<open>search_file\<close>

text \<open>
  The entries compared are those with number up to and including \<open>nr\<close>, as far
  as the blocks go: one more than the directory has.
\<close>

lemma search_entries_eq:
  "m \<le> nr \<Longrightarrow> search_entries b fn nr n j m =
    (case find (\<lambda>k. de_name b k = pad_name fn) [j..<j + min n (nr + 1 - m)] of
       Some k \<Rightarrow> (Some (de_inode b k), m + (k - j))
     | None \<Rightarrow> (None, m + min n (nr + 1 - m)))"
proof (induction n arbitrary: j m)
  case (Suc n)
  show ?case
  proof (cases "m + 1 > nr")
    case True
    then have "m = nr" using Suc.prems by simp
    then show ?thesis by auto
  next
    case False
    then have "min (Suc n) (nr + 1 - m) = Suc (min n (nr + 1 - (m + 1)))" by (auto simp: min_def)
    then have c: "[j..<j + min (Suc n) (nr + 1 - m)] = j # [Suc j..<Suc j + min n (nr + 1 - (m + 1))]"
      by (simp only: upt_cons)
    show ?thesis
    proof (cases "find (\<lambda>k. de_name b k = pad_name fn) [Suc j..<Suc j + min n (nr + 1 - (m + 1))]")
      case None
      then show ?thesis unfolding c using Suc.IH [of "m + 1" "Suc j"] False by auto
    next
      case (Some k)
      then have "Suc j \<le> k" using find_upt_range by blast
      then show ?thesis unfolding c using Suc.IH [of "m + 1" "Suc j"] False Some by auto
    qed
  qed
qed simp

lemma search_blocks_eq:
  assumes "\<forall>k < i + n. reach part (start + k)" and "fs_dev s dev part" and "i * 32 \<le> nr"
  shows "\<exists>b. search_blocks dev (int start) fn nr n i (i * 32) s =
    Inr (case find (\<lambda>k. dir_name part s start k = pad_name fn) [i * 32..<min ((i + n) * 32) (nr + 1)] of
           None \<Rightarrow> 0 | Some k \<Rightarrow> dir_ino part s start k, s\<lparr>fsbuf := b\<rparr>)"
  using assms
proof (induction n arbitrary: i s)
  case 0
  then show ?case by (auto intro!: exI [of _ "fsbuf s"])
next
  case (Suc n)
  let ?s1 = "read_blk part (start + i) s" and ?P = "\<lambda>k. dir_name part s start k = pad_name fn"
  have rd: "RD_SECT s dev (int start + int i) = Inr ?s1"
    using RD_SECT_eq [OF Suc.prems(2), of "start + i"] Suc.prems(1) by simp
  define w where "w = min 32 (nr + 1 - i * 32)"
  have w: "w \<le> 32" "i * 32 + w = min ((i + 1) * 32) (nr + 1)" using Suc.prems(3) by (auto simp: w_def)
  have Q: "find (\<lambda>k. de_name (fsbuf ?s1) k = pad_name fn) [0..<w] = map_option (\<lambda>k. k - i * 32) (find ?P [i * 32..<i * 32 + w])"
    (is "?l = ?r")
  proof -
    have "find ?P [i * 32..<i * 32 + w] = find ?P (map (\<lambda>k. k + i * 32) [0..<w])"
      by (simp add: map_add_upt add.commute)
    also have "\<dots> = map_option (\<lambda>k. k + i * 32) (find (\<lambda>k. ?P (k + i * 32)) [0..<w])"
      by (simp add: find_map_eq)
    also have "find (\<lambda>k. ?P (k + i * 32)) [0..<w] = ?l"
      using w(1) by (intro find_cong) (auto simp: dir_name_def entries_read)
    finally show ?thesis by (simp add: option.map_comp comp_def option.map_ident)
  qed
  define hi where "hi = min ((i + Suc n) * 32) (nr + 1)"
  have split: "[i * 32..<hi] = [i * 32..<i * 32 + w] @ [i * 32 + w..<hi]"
    using w(2) by (intro upt_split) (auto simp: hi_def)
  have se: "search_entries (fsbuf ?s1) fn nr 32 0 (i * 32) =
    (case ?l of Some k \<Rightarrow> (Some (de_inode (fsbuf ?s1) k), i * 32 + k) | None \<Rightarrow> (None, i * 32 + w))"
    using search_entries_eq [OF Suc.prems(3), of "fsbuf ?s1" fn 32 0]
    by (simp add: w_def split: option.splits)
  have "\<exists>b. search_blocks dev (int start) fn nr (Suc n) i (i * 32) s =
    Inr (case find ?P [i * 32..<hi] of None \<Rightarrow> 0 | Some k \<Rightarrow> dir_ino part s start k, s\<lparr>fsbuf := b\<rparr>)"
  proof (cases "find ?P [i * 32..<i * 32 + w]")
    case (Some k)
    then have k: "i * 32 \<le> k" "k < i * 32 + w" by (auto simp: find_Some_iff)
    then have kd: "k div 32 = i" using w(1) by (intro div_nat_eqI) auto
    then have "k mod 32 = k - i * 32" by (simp add: modulo_nat_def)
    with kd have "de_inode (fsbuf ?s1) (k - i * 32) = dir_ino part s start k"
      using k w(1) by (simp add: dir_ino_def entries_read)
    then show ?thesis
      using Some Q by (simp add: rd se split find_app) (auto simp: read_blk_def)
  next
    case None
    show ?thesis
    proof (cases "nr < i * 32 + w")
      case True
      then have "i * 32 + w = nr + 1" using w(2) by auto
      then have "[i * 32 + w..<hi] = []" by (simp add: hi_def)
      then show ?thesis using None Q True by (simp add: rd se split find_app) (auto simp: read_blk_def)
    next
      case False
      then have w32: "i * 32 + w = Suc i * 32" using w by (auto simp: min_def split: if_splits)
      have "\<exists>b. search_blocks dev (int start) fn nr n (Suc i) (Suc i * 32) ?s1 =
        Inr (case find (\<lambda>k. dir_name part ?s1 start k = pad_name fn) [Suc i * 32..<min ((Suc i + n) * 32) (nr + 1)] of
           None \<Rightarrow> 0 | Some k \<Rightarrow> dir_ino part ?s1 start k, ?s1\<lparr>fsbuf := b\<rparr>)"
      proof (rule Suc.IH)
        show "\<forall>k < Suc i + n. reach part (start + k)" using Suc.prems(1) by simp
        show "fs_dev ?s1 dev part" using Suc.prems(2) by simp
        show "Suc i * 32 \<le> nr" using False unfolding w32 by simp
      qed
      moreover have "min ((Suc i + n) * 32) (nr + 1) = hi" by (simp only: hi_def add_Suc_shift)
      ultimately obtain b where "search_blocks dev (int start) fn nr n (Suc i) (i * 32 + w) ?s1 =
        Inr (case find ?P [i * 32 + w..<hi] of None \<Rightarrow> 0 | Some k \<Rightarrow> dir_ino part s start k, ?s1\<lparr>fsbuf := b\<rparr>)"
        unfolding w32 using dir_cong [of ?s1 s part start] by (auto cong: option.case_cong)
      then show ?thesis
        using None Q False by (simp add: rd se split find_app) (auto simp: read_blk_def)
    qed
  qed
  then show ?case by (simp only: hi_def)
qed

text \<open>The root directory, with its \<open>nr\<close> entries in blocks from \<open>start\<close> on.\<close>

definition root_ok :: "fs_state \<Rightarrow> nat \<Rightarrow> int \<Rightarrow> part_info \<Rightarrow> nat \<Rightarrow> nat \<Rightarrow> bool" where
  "root_ok s r dev part start nr \<longleftrightarrow> root_inode s = Some r \<and> fs_dev s dev part \<and>
     i_dev (inode_table s r) = dev \<and> i_start_sect (inode_table s r) = of_nat start \<and> start < 2 ^ 31 \<and>
     i_size (inode_table s r) = of_nat (nr * 16) \<and> nr \<le> 2 ^ 14 \<and> (\<forall>k \<le> nr div 32. reach part (start + k))"

definition dir_blocks :: "nat \<Rightarrow> nat" where
  "dir_blocks nr = (nr * 16 + 511) div 512"

definition lookup :: "part_info \<Rightarrow> fs_state \<Rightarrow> nat \<Rightarrow> nat \<Rightarrow> u8 list \<Rightarrow> int" where
  "lookup part s start nr fn =
    (case find (\<lambda>k. dir_name part s start k = pad_name fn) [0..<min (dir_blocks nr * 32) (nr + 1)] of
       None \<Rightarrow> 0 | Some k \<Rightarrow> dir_ino part s start k)"

lemma search_file_eq:
  assumes r: "root_ok s r dev part start nr" and p: "strip_path path = Some fn" "fn \<noteq> []"
  shows "\<exists>b. search_file s path = Inr (lookup part s start nr fn, s\<lparr>fsbuf := b\<rparr>)"
proof -
  let ?d = "inode_table s r"
  have nr: "nr \<le> 2 ^ 14" and start: "start < 2 ^ 31" using r by (auto simp: root_ok_def)
  have usz: "unat (i_size ?d) = nr * 16"
    using r nr by (simp add: root_ok_def unat_of_nat del: of_nat_mult)
  have "unat (i_size ?d div 16) = nr" by (simp add: unat_div usz)
  moreover have "unat ((i_size ?d + SECTOR_SIZE - 1) div SECTOR_SIZE) = dir_blocks nr"
  proof -
    have e: "i_size ?d + SECTOR_SIZE - 1 = i_size ?d + 511" by simp
    have "unat (i_size ?d + 511) = nr * 16 + 511"
      using nr by (subst unat_add_lem [THEN iffD1]) (simp_all add: usz)
    then show ?thesis by (simp add: e unat_div dir_blocks_def)
  qed
  moreover have "root_inode s = Some r" "i_dev ?d = dev" using r by (simp_all add: root_ok_def)
  moreover have "sint (i_start_sect ?d) = int start"
    using r start by (simp add: root_ok_def sint_word_of_nat)
  moreover have "\<forall>k < 0 + dir_blocks nr. reach part (start + k)"
  proof (intro allI impI)
    fix k assume "k < 0 + dir_blocks nr"
    then have "k \<le> nr div 32" unfolding dir_blocks_def by simp
    then show "reach part (start + k)" using r by (simp add: root_ok_def)
  qed
  moreover have "fs_dev s dev part" using r by (simp add: root_ok_def)
  ultimately show ?thesis
    using search_blocks_eq [of 0 "dir_blocks nr" part start s dev nr fn] p
    by (simp add: search_file_def root_dir_def Let_def lookup_def)
qed

section \<open>new_dir_entry\<close>

text \<open>The slot: the first unused entry, or the one after the last.\<close>

definition free_slot :: "part_info \<Rightarrow> fs_state \<Rightarrow> nat \<Rightarrow> nat \<Rightarrow> nat" where
  "free_slot part s start nr =
    (case find (\<lambda>k. dir_ino part s start k = 0) [0..<nr] of None \<Rightarrow> nr | Some k \<Rightarrow> k)"

lemma slot_entries_eq:
  "m \<le> nr \<Longrightarrow> slot_entries b nr n j m =
    (case find (\<lambda>k. de_inode b k = 0) [j..<j + min n (nr - m)] of
       Some k \<Rightarrow> (m + (k - j) + 1, k, True)
     | None \<Rightarrow> if nr - m < n then (nr + 1, j + (nr - m), False) else (m + n, j + n, False))"
proof (induction n arbitrary: j m)
  case (Suc n)
  show ?case
  proof (cases "m + 1 > nr")
    case True
    then show ?thesis using Suc.prems by auto
  next
    case False
    then have "min (Suc n) (nr - m) = Suc (min n (nr - (m + 1)))" by (auto simp: min_def)
    then have c: "[j..<j + min (Suc n) (nr - m)] = j # [Suc j..<Suc j + min n (nr - (m + 1))]"
      by (simp only: upt_cons)
    show ?thesis
    proof (cases "find (\<lambda>k. de_inode b k = 0) [Suc j..<Suc j + min n (nr - (m + 1))]")
      case None
      then show ?thesis unfolding c using Suc.IH [of "m + 1" "Suc j"] False by auto
    next
      case (Some k)
      then have "Suc j \<le> k" using find_upt_range by blast
      then show ?thesis unfolding c using Suc.IH [of "m + 1" "Suc j"] False Some by auto
    qed
  qed
qed simp

lemma slot_blocks_eq:
  assumes "\<forall>k \<le> nr div 32. reach part (start + k)" and "fs_dev s dev part" and "i * 32 \<le> nr"
    and "nr div 32 < i + n"
    and k: "k = (case find (\<lambda>k. dir_ino part s start k = 0) [i * 32..<nr] of None \<Rightarrow> nr | Some k \<Rightarrow> k)"
  shows "\<exists>b. slot_blocks dev (int start) nr n i j (i * 32) s =
    Inr ((k div 32, k mod 32, k < nr), read_blk part (start + k div 32) (s\<lparr>fsbuf := b\<rparr>))"
  using assms
proof (induction n arbitrary: i j s)
  case 0
  then show ?case by simp
next
  case (Suc n)
  let ?s1 = "read_blk part (start + i) s" and ?P = "\<lambda>k. dir_ino part s start k = 0"
  have i: "i \<le> nr div 32" using Suc.prems(3) by simp
  have rd: "RD_SECT s dev (int start + int i) = Inr ?s1"
    using RD_SECT_eq [OF Suc.prems(2), of "start + i"] Suc.prems(1) i by simp
  define w where "w = min 32 (nr - i * 32)"
  have w: "w \<le> 32" "i * 32 + w \<le> nr" using Suc.prems(3) by (auto simp: w_def)
  have Q: "find (\<lambda>k. de_inode (fsbuf ?s1) k = 0) [0..<w] = map_option (\<lambda>k. k - i * 32) (find ?P [i * 32..<i * 32 + w])"
    (is "?l = ?r")
  proof -
    have "find ?P [i * 32..<i * 32 + w] = find ?P (map (\<lambda>k. k + i * 32) [0..<w])"
      by (simp add: map_add_upt add.commute)
    also have "\<dots> = map_option (\<lambda>k. k + i * 32) (find (\<lambda>k. ?P (k + i * 32)) [0..<w])"
      by (simp add: find_map_eq)
    also have "find (\<lambda>k. ?P (k + i * 32)) [0..<w] = ?l"
      using w(1) by (intro find_cong) (auto simp: dir_ino_def entries_read)
    finally show ?thesis by (simp add: option.map_comp comp_def option.map_ident)
  qed
  have split: "[i * 32..<nr] = [i * 32..<i * 32 + w] @ [i * 32 + w..<nr]"
    using w(2) by (intro upt_split) auto
  note k = Suc.prems(5) [unfolded split find_app]
  have se: "slot_entries (fsbuf ?s1) nr 32 0 (i * 32) =
    (case ?l of Some k \<Rightarrow> (i * 32 + k + 1, k, True)
     | None \<Rightarrow> if nr - i * 32 < 32 then (nr + 1, nr - i * 32, False) else (i * 32 + 32, 32, False))"
    using slot_entries_eq [OF Suc.prems(3), of "fsbuf ?s1" 32 0]
    by (simp add: w_def split: option.splits)
  show ?case
  proof (cases "find ?P [i * 32..<i * 32 + w]")
    case (Some k')
    then have k': "i * 32 \<le> k'" "k' < i * 32 + w" by (auto simp: find_Some_iff)
    then have kd: "k' div 32 = i" using w(1) by (intro div_nat_eqI) auto
    then have "k' mod 32 = k' - i * 32" by (simp add: modulo_nat_def)
    moreover have "k = k'" "k < nr" using k Some k' w by simp_all
    ultimately show ?thesis
      using Some Q kd by (simp add: rd se) (auto simp: read_blk_def)
  next
    case None
    show ?thesis
    proof (cases "nr - i * 32 < 32")
      case True
      then have "find ?P [i * 32 + w..<nr] = None" by (simp add: w_def)
      then have kn: "k = nr" using k None by simp
      have kd: "nr div 32 = i" using True Suc.prems(3) by (intro div_nat_eqI) auto
      then have "nr mod 32 = nr - i * 32" by (simp add: modulo_nat_def)
      with kd kn show ?thesis using None Q True by (simp add: rd se) (auto simp: read_blk_def)
    next
      case False
      then have w32: "i * 32 + w = Suc i * 32" by (simp add: w_def)
      have "\<exists>b. slot_blocks dev (int start) nr n (Suc i) 32 (Suc i * 32) ?s1 =
        Inr ((k div 32, k mod 32, k < nr), read_blk part (start + k div 32) (?s1\<lparr>fsbuf := b\<rparr>))"
      proof (rule Suc.IH [OF Suc.prems(1)])
        show "fs_dev ?s1 dev part" using Suc.prems(2) by simp
        show "Suc i * 32 \<le> nr" using False by simp
        show "nr div 32 < Suc i + n" using Suc.prems(4) by simp
        show "k = (case find (\<lambda>k. dir_ino part ?s1 start k = 0) [Suc i * 32..<nr] of None \<Rightarrow> nr | Some k \<Rightarrow> k)"
          unfolding w32 [symmetric] using k None dir_cong [of ?s1 s part start] by simp
      qed
      then obtain b where "slot_blocks dev (int start) nr n (Suc i) 32 (Suc i * 32) ?s1 =
        Inr ((k div 32, k mod 32, k < nr), read_blk part (start + k div 32) (?s1\<lparr>fsbuf := b\<rparr>))" by blast
      then have "slot_blocks dev (int start) nr n (Suc i) 32 (i * 32 + 32) ?s1 =
        Inr ((k div 32, k mod 32, k < nr), read_blk part (start + k div 32) (?s1\<lparr>fsbuf := b\<rparr>))"
        by (simp add: add.commute)
      then show ?thesis
        using None Q False by (simp add: rd se) (auto simp: read_blk_def)
    qed
  qed
qed

text \<open>What storing an entry does to the entries of its sector.\<close>

lemma store_entry_same:
  assumes "length fn \<le> 12" and "- (2 ^ 31) \<le> num" and "num < 2 ^ 31"
  shows "de_inode (store_entry j num fn b) j = num"
    and "k < length fn \<Longrightarrow> de_name (store_entry j num fn b) j ! k = fn ! k"
    and "length fn < 12 \<Longrightarrow> de_name (store_entry j num fn b) j ! length fn = 0"
    and "length fn < k \<Longrightarrow> k < 12 \<Longrightarrow> de_name (store_entry j num fn b) j ! k = de_name b j ! k"
proof -
  have "le32 (store_entry j num fn b) (j * 16) = le32 (put32 (j * 16) (word_of_int num) b) (j * 16)"
    by (rule le32_cong) (simp add: store_entry_def array_simps)
  then show "de_inode (store_entry j num fn b) j = num"
    using assms(2,3) by (simp add: de_inode_def signed_of_int signed_take_bit_int_eq_self)
  show "k < length fn \<Longrightarrow> de_name (store_entry j num fn b) j ! k = fn ! k"
    using assms(1) by (simp add: de_name_def store_entry_def array_simps nth_append)
  show "length fn < 12 \<Longrightarrow> de_name (store_entry j num fn b) j ! length fn = 0"
    by (simp add: de_name_def store_entry_def array_simps)
  show "length fn < k \<Longrightarrow> k < 12 \<Longrightarrow> de_name (store_entry j num fn b) j ! k = de_name b j ! k"
    by (simp add: de_name_def store_entry_def array_simps)
qed

lemma store_entry_other:
  assumes "length fn \<le> 11" and "j' \<noteq> j"
  shows "de_inode (store_entry j num fn b) j' = de_inode b j'" and "de_name (store_entry j num fn b) j' = de_name b j'"
proof -
  have *: "store_entry j num fn b (j' * 16 + k) = b (j' * 16 + k)" if "k < 16" for k
  proof -
    have "j' * 16 + k < j * 16 \<or> j * 16 + 16 \<le> j' * 16 + k"
      using assms(2) that by (cases "j' < j") auto
    then show ?thesis using assms(1) by (auto simp: store_entry_def array_simps)
  qed
  show "de_inode (store_entry j num fn b) j' = de_inode b j'"
    unfolding de_inode_def using * by (intro arg_cong [where f = sint] le32_cong) simp
  show "de_name (store_entry j num fn b) j' = de_name b j'"
    using *  by (auto simp: de_name_def add.assoc)
qed

text \<open>A name of 12 characters: the terminating 0 lands in the next entry.\<close>

lemma store_entry_clobbers:
  assumes "length fn = 12"
  shows "de_inode (store_entry j num fn b) (j + 1) = sint (le32 b ((j + 1) * 16) AND NOT 0xFF)"
proof -
  have bytes: "store_entry j num fn b ((j + 1) * 16 + k) = (if k = 0 then 0 else b ((j + 1) * 16 + k))" if "k < 4" for k
    using assms that by (auto simp: store_entry_def blit_def put32_def nth_append)
  have "le32 (store_entry j num fn b) ((j + 1) * 16) = le32 b ((j + 1) * 16) AND NOT 0xFF"
  proof (rule bit_word_eqI)
    fix n assume "n < LENGTH(32)"
    have m: "(0xFF :: u32) = mask 8" by (simp add: mask_eq_exp_minus_1)
    have hi: "\<not> bit (x :: u8) i" if "8 \<le> i" for x i
      using bit_imp_le_length [of x i] that by auto
    consider "n < 8" | "8 \<le> n" "n < 16" | "16 \<le> n" "n < 24" | "24 \<le> n" by linarith
    then show "bit (le32 (store_entry j num fn b) ((j + 1) * 16)) n = bit (le32 b ((j + 1) * 16) AND NOT 0xFF) n"
      using bytes [of 0] bytes [of 1] bytes [of 2] bytes [of 3]
      by cases (auto simp: le32_def m bit_simps hi simp del: mult_Suc)
  qed
  then show ?thesis by (simp add: de_inode_def)
qed

section \<open>An entry is added\<close>

lemma dir_after_store:
  assumes b: "\<And>i. i < SECTOR_SIZE \<Longrightarrow> blk part s' (start + k div 32) i =
      store_entry (k mod 32) num fn (fsbuf (read_blk part (start + k div 32) s)) i"
    and o: "\<And>l. l \<noteq> start + k div 32 \<Longrightarrow> start \<le> l \<Longrightarrow> blk part s' l = blk part s l"
    and fn: "length fn \<le> 11" and num: "- (2 ^ 31) \<le> num" "num < 2 ^ 31"
  shows "dir_ino part s' start k = num"
    and "dir_name part s start k = replicate 12 0 \<Longrightarrow> dir_name part s' start k = pad_name fn"
    and "k' \<noteq> k \<Longrightarrow> dir_ino part s' start k' = dir_ino part s start k'"
    and "k' \<noteq> k \<Longrightarrow> dir_name part s' start k' = dir_name part s start k'"
proof -
  let ?b = "store_entry (k mod 32) num fn (fsbuf (read_blk part (start + k div 32) s))"
  have here: "de_inode (blk part s' (start + k div 32)) j = de_inode ?b j"
    "de_name (blk part s' (start + k div 32)) j = de_name ?b j" if "j < 32" for j
    using that b by (auto intro: de_inode_cong de_name_cong)
  have fn12: "length fn \<le> 12" "length fn < 12" using fn by simp_all
  show "dir_ino part s' start k = num"
    using here store_entry_same(1) [OF fn12(1) num] by (simp add: dir_ino_def)
  show "dir_name part s' start k = pad_name fn" if blank: "dir_name part s start k = replicate 12 0"
  proof (rule nth_equalityI)
    show "length (dir_name part s' start k) = length (pad_name fn)" by (simp add: dir_name_def de_name_def)
    fix i assume "i < length (dir_name part s' start k)"
    then have i: "i < 12" by (simp add: dir_name_def de_name_def)
    have old: "de_name (fsbuf (read_blk part (start + k div 32) s)) (k mod 32) ! i = 0"
      using blank i by (simp add: dir_name_def entries_read)
    have "dir_name part s' start k ! i = de_name ?b (k mod 32) ! i" by (simp add: dir_name_def here)
    also have "\<dots> = pad_name fn ! i"
      using store_entry_same(2-4) [OF fn12(1) num, where j = "k mod 32"] i fn old
      by (cases "i < length fn"; cases "i = length fn") (auto simp: pad_name_def nth_append)
    finally show "dir_name part s' start k ! i = pad_name fn ! i" .
  qed
  have "dir_ino part s' start k' = dir_ino part s start k' \<and> dir_name part s' start k' = dir_name part s start k'"
    if ne: "k' \<noteq> k"
  proof (cases "k' div 32 = k div 32")
    case True
    then have "k' mod 32 \<noteq> k mod 32" using ne by (metis div_mult_mod_eq)
    then show ?thesis
      using here [of "k' mod 32"] store_entry_other [OF fn] True
      by (simp add: dir_ino_def dir_name_def entries_read)
  next
    case False
    then show ?thesis
      using o [of "start + k' div 32"] by (simp add: dir_ino_def dir_name_def)
  qed
  then show "k' \<noteq> k \<Longrightarrow> dir_ino part s' start k' = dir_ino part s start k'"
    "k' \<noteq> k \<Longrightarrow> dir_name part s' start k' = dir_name part s start k'" by simp_all
qed

text \<open>A root directory on a device whose data sectors follow the inode array.\<close>

definition root_good :: "fs_state \<Rightarrow> nat \<Rightarrow> int \<Rightarrow> part_info \<Rightarrow> super_block \<Rightarrow> nat \<Rightarrow> nat \<Rightarrow> bool" where
  "root_good s r dev part sb start nr \<longleftrightarrow> root_ok s r dev part start nr \<and> geom s dev part sb \<and>
     i_num (inode_table s r) = ROOT_INODE \<and> iblock sb 1 < start"

lemma new_dir_entry_spec:
  assumes g: "root_good s r dev part sb start nr" and nr: "nr < 2 ^ 14" and fn: "length fn \<le> 11"
    and num: "- (2 ^ 31) \<le> num" "num < 2 ^ 31" and k: "k = free_slot part s start nr"
    and room: "reach part (start + (nr + 1) div 32)"
  obtains s' where "new_dir_entry s r num fn = Inr s'"
    and "root_good s' r dev part sb start (if k < nr then nr else nr + 1)"
    and "dir_ino part s' start k = num"
    and "dir_name part s start k = replicate 12 0 \<Longrightarrow> dir_name part s' start k = pad_name fn"
    and "\<And>k'. k' \<noteq> k \<Longrightarrow> dir_ino part s' start k' = dir_ino part s start k' \<and>
           dir_name part s' start k' = dir_name part s start k'"
    and "inode_table s' = (if k < nr then inode_table s
           else (inode_table s)(r := (inode_table s r)\<lparr>i_size := i_size (inode_table s r) + 16\<rparr>))"
    and "same_disk (dinode part sb s' 1) (inode_table s' r)"
    and "\<And>l. l \<noteq> start + k div 32 \<Longrightarrow> l \<noteq> iblock sb 1 \<Longrightarrow> blk part s' l = blk part s l"
    and "\<And>j. valid_ino j \<Longrightarrow> j \<noteq> 1 \<Longrightarrow> iblock sb j \<noteq> start + k div 32 \<Longrightarrow> dinode part sb s' j = dinode part sb s j"
    and "f_desc_table s' = f_desc_table s" "fprocs s' = fprocs s" "umem s' = umem s"
proof -
  let ?d = "inode_table s r"
  have rk: "root_ok s r dev part start nr" and ge: "geom s dev part sb" and rn: "i_num ?d = int 1"
    and st: "iblock sb 1 < start" using g by (simp_all add: root_good_def)
  have dv: "fs_dev s dev part" "i_dev ?d = dev" and start: "start < 2 ^ 31"
    and rch: "\<And>j. j \<le> nr div 32 \<Longrightarrow> reach part (start + j)" and isz: "i_size ?d = of_nat (nr * 16)"
    and ist: "i_start_sect ?d = of_nat start"
    using rk by (auto simp: root_ok_def)
  have usz: "unat (i_size ?d) = nr * 16" using isz nr by (simp add: unat_of_nat del: of_nat_mult)
  have n1: "unat (i_size ?d div 16) = nr" by (simp add: unat_div usz)
  have "unat (i_size ?d + 512) = nr * 16 + 512"
    using nr by (subst unat_add_lem [THEN iffD1]) (simp_all add: usz)
  then have n2: "unat ((i_size ?d + SECTOR_SIZE) div SECTOR_SIZE) = nr div 32 + 1" by (simp add: unat_div)
  have n3: "sint (i_start_sect ?d) = int start" using ist start by (simp add: sint_word_of_nat)
  have kle: "k \<le> nr" using k by (auto simp: free_slot_def find_Some_iff split: option.splits)
  obtain b where slot: "slot_blocks dev (int start) nr (nr div 32 + 1) 0 0 0 s =
      Inr ((k div 32, k mod 32, k < nr), read_blk part (start + k div 32) (s\<lparr>fsbuf := b\<rparr>))"
    using slot_blocks_eq [of nr part start s dev 0 "nr div 32 + 1" k 0] rch dv(1) k
    by (auto simp: free_slot_def)
  define s1 where "s1 = read_blk part (start + k div 32) (s\<lparr>fsbuf := b\<rparr>)"
  define s2 where "s2 = (if k < nr then s1 else upd_inode r (\<lambda>n. n\<lparr>i_size := i_size n + 16\<rparr>) s1)"
  define s3 where "s3 = s2\<lparr>fsbuf := store_entry (k mod 32) num fn (fsbuf s2)\<rparr>"
  define s4 where "s4 = write_blk part (start + k div 32) s3"
  have kr: "reach part (start + k div 32)" using rch [of "k div 32"] kle by (simp add: div_le_mono)
  have dev3: "fs_dev s3 dev part" "geom s4 dev part sb"
    using dv(1) ge by (simp_all add: s3_def s2_def s1_def s4_def)
  have wr: "WR_SECT s3 dev (int start + int (k div 32)) = Inr s4"
    using WR_SECT_eq [OF dev3(1) kr] by (simp add: s4_def)
  have it4: "inode_table s4 = (if k < nr then inode_table s
      else (inode_table s)(r := ?d\<lparr>i_size := i_size ?d + 16\<rparr>))"
    by (simp add: s4_def s3_def s2_def s1_def)
  have r4: "i_dev (inode_table s4 r) = dev" "i_num (inode_table s4 r) = int 1"
    using dv(2) rn by (auto simp: it4)
  obtain s' where sy: "sync_inode s4 r = Inr s'"
    and s': "s' = write_blk part (iblock sb 1) (s4\<lparr>fsbuf := store_inode (inode_table s4 r) (ioffset 1) (fsbuf (read_blk part (iblock sb 1) s4))\<rparr>)"
    and sd: "same_disk (dinode part sb s' 1) (inode_table s4 r)"
    and od: "\<And>j. valid_ino j \<Longrightarrow> j \<noteq> 1 \<Longrightarrow> dinode part sb s' j = dinode part sb s4 j"
    and ob: "\<And>l. l \<noteq> iblock sb 1 \<Longrightarrow> blk part s' l = blk part s4 l"
    by (rule sync_inode_eq [OF dev3(2) r4]) simp_all
  have b4: "blk part s4 l = blk part s l" if "l \<noteq> start + k div 32" for l
    using that by (simp add: s4_def blk_write_other s3_def s2_def s1_def)
  have ob': "blk part s' l = blk part s l" if "l \<noteq> start + k div 32" "l \<noteq> iblock sb 1" for l
    using ob [OF that(2)] b4 [OF that(1)] by simp
  have od': "dinode part sb s' j = dinode part sb s j" if "valid_ino j" "j \<noteq> 1" "iblock sb j \<noteq> start + k div 32" for j
    using od [OF that(1,2)] b4 [OF that(3)] by (simp add: dinode_def)
  have fr: "f_desc_table s' = f_desc_table s" "fprocs s' = fprocs s" "umem s' = umem s"
    by (simp_all add: s' s4_def s3_def s2_def s1_def)
  have new: "new_dir_entry s r num fn = Inr s'"
    using slot wr sy
    by (simp add: new_dir_entry_def Let_def dv n1 n2 n3 s1_def [symmetric] s2_def [symmetric]
        s3_def [symmetric] del: upt_Suc slot_blocks.simps)
  have it': "inode_table s' = inode_table s4" by (simp add: s')
  have fb: "fsbuf s2 = fsbuf (read_blk part (start + k div 32) (s\<lparr>fsbuf := b\<rparr>))" by (simp add: s2_def s1_def)
  have bl: "blk part s' (start + k div 32) i = store_entry (k mod 32) num fn (fsbuf (read_blk part (start + k div 32) (s\<lparr>fsbuf := b\<rparr>))) i"
    if "i < 512" for i
    using ob [of "start + k div 32"] st that by (simp add: s4_def blk_write s3_def fb)
  have bo: "blk part s' l = blk part (s\<lparr>fsbuf := b\<rparr>) l" if "l \<noteq> start + k div 32" "start \<le> l" for l
    using ob [of l] st that by (simp add: s4_def blk_write_other s3_def s2_def s1_def)
  note after = dir_after_store [OF bl bo fn num]
  have old: "dir_ino part (s\<lparr>fsbuf := b\<rparr>) start j = dir_ino part s start j"
    "dir_name part (s\<lparr>fsbuf := b\<rparr>) start j = dir_name part s start j" for j
    by (simp_all add: dir_ino_def dir_name_def)
  have "root_good s' r dev part sb start (if k < nr then nr else nr + 1)"
  proof -
    have "geom s' dev part sb" using dev3(2) by (simp add: s')
    moreover have "reach part (start + j)" if "j \<le> (if k < nr then nr else nr + 1) div 32" for j
    proof (cases "j \<le> nr div 32")
      case False
      with that have "j = (nr + 1) div 32" by (auto split: if_splits)
      with room show ?thesis by simp
    qed (rule rch)
    moreover have "root_inode s' = Some r" using rk by (simp add: s' s4_def s3_def s2_def s1_def root_ok_def)
    ultimately show ?thesis
      using rn st dv nr ist isz start geom_dev [of s' dev part sb]
      by (auto simp: root_good_def root_ok_def it' it4 distrib_right)
  qed
  with that [OF new _ _ _ _ _ _ ob' od' fr] after old sd it' it4 show thesis by auto
qed

text \<open>
  A name that was not there is found after it has been entered, and every other
  name is found as before.
\<close>

lemma lookup_new:
  assumes k: "k \<le> nr" "nr' = (if k < nr then nr else nr + 1)"
    and new: "dir_ino part s' start k = num" "dir_name part s' start k = pad_name fn"
    and old: "\<And>k'. k' \<noteq> k \<Longrightarrow> dir_name part s' start k' = dir_name part s start k'"
    and fresh: "\<forall>k' < k. dir_name part s start k' \<noteq> pad_name fn"
  shows "lookup part s' start nr' fn = num"
proof -
  have "k < nr'" using k by auto
  then have "k < min (dir_blocks nr' * 32) (nr' + 1)"
    unfolding dir_blocks_def by linarith
  moreover have "\<forall>j < k. dir_name part s' start j \<noteq> pad_name fn" using old fresh by auto
  ultimately have "find (\<lambda>j. dir_name part s' start j = pad_name fn) [0..<min (dir_blocks nr' * 32) (nr' + 1)] = Some k"
    using new by (simp add: find_upt)
  then show ?thesis using new by (simp add: lookup_def)
qed

end
