(* ===== verification/FsRefs.thy ===== *)
theory FsRefs
  imports FsDir
begin

unbundle bit_operations_syntax

text \<open>
  Reference counting: \<open>fd_cnt\<close> of a descriptor is the number of file slots of
  processes that name it, \<open>i_cnt\<close> of an inode the sum over the descriptors that
  name it plus what the file system itself holds.
\<close>

section \<open>The invariant\<close>

definition all_slots :: "(nat \<times> nat) set" where
  "all_slots = {..<NPROC} \<times> {..<NR_FILES}"

definition slot :: "fs_state \<Rightarrow> nat \<times> nat \<Rightarrow> nat option" where
  "slot s x = filp (fprocs s (fst x)) (snd x)"

definition refs :: "(nat \<times> nat) set \<Rightarrow> fs_state \<Rightarrow> nat \<Rightarrow> nat" where
  "refs S s d = card {x \<in> S. slot s x = Some d}"

definition users :: "fs_state \<Rightarrow> nat \<Rightarrow> nat set" where
  "users s n = {d. d < NR_FILE_DESC \<and> fd_inode (f_desc_table s d) = Some n}"

text \<open>
  \<open>S\<close> are the file slots counted so far (all of them between two messages), \<open>h\<close> the
  references the file system holds: the root directory's, for one.
\<close>

definition files_ok :: "(nat \<times> nat) set \<Rightarrow> (nat \<Rightarrow> int) \<Rightarrow> fs_state \<Rightarrow> bool" where
  "files_ok S h s \<longleftrightarrow> S \<subseteq> all_slots \<and> (\<forall>n. 0 \<le> h n) \<and>
     (\<forall>x \<in> all_slots. \<forall>d. slot s x = Some d \<longrightarrow> d < NR_FILE_DESC \<and> fd_inode (f_desc_table s d) \<noteq> None) \<and>
     (\<forall>d < NR_FILE_DESC. fd_inode (f_desc_table s d) \<noteq> None \<longrightarrow>
        fd_cnt (f_desc_table s d) = int (refs S s d) \<and> 0 < refs S s d) \<and>
     (\<forall>d < NR_FILE_DESC. \<forall>n. fd_inode (f_desc_table s d) = Some n \<longrightarrow> n < NR_INODE) \<and>
     (\<forall>n < NR_INODE. i_cnt (inode_table s n) = h n + (\<Sum>d \<in> users s n. fd_cnt (f_desc_table s d)))"

lemma files_okD:
  assumes "files_ok S h s"
  shows fo_sub: "S \<subseteq> all_slots" and fo_pos: "0 \<le> h n"
    and fo_slot: "x \<in> all_slots \<Longrightarrow> slot s x = Some d \<Longrightarrow> d < NR_FILE_DESC \<and> fd_inode (f_desc_table s d) \<noteq> None"
    and fo_cnt: "d < NR_FILE_DESC \<Longrightarrow> fd_inode (f_desc_table s d) \<noteq> None \<Longrightarrow>
        fd_cnt (f_desc_table s d) = int (refs S s d) \<and> 0 < refs S s d"
    and fo_ino: "d < NR_FILE_DESC \<Longrightarrow> fd_inode (f_desc_table s d) = Some n \<Longrightarrow> n < NR_INODE"
    and fo_sum: "n < NR_INODE \<Longrightarrow>
        i_cnt (inode_table s n) = h n + (\<Sum>d \<in> users s n. fd_cnt (f_desc_table s d))"
  using assms by (auto simp: files_ok_def)

lemma finite_slots [simp]: "finite all_slots"
  by (simp add: all_slots_def)

lemma finite_users [simp]: "finite (users s n)"
  by (simp add: users_def)

lemma filter_remove:
  "(\<And>y. y \<noteq> x \<Longrightarrow> g y = f y) \<Longrightarrow> g x \<noteq> v \<Longrightarrow> {y \<in> S. g y = v} = {y \<in> S. f y = v} - {x}"
  by (rule set_eqI, rename_tac y, case_tac "y = x") simp_all

lemma filter_insert:
  "{y \<in> insert x S. f y = v} = (if f x = v then insert x {y \<in> S. f y = v} else {y \<in> S. f y = v})"
  by auto

lemma filter_subset:
  "S \<subseteq> T \<Longrightarrow> (\<And>x. x \<in> T - S \<Longrightarrow> f x \<noteq> v) \<Longrightarrow> {x \<in> T. f x = v} = {x \<in> S. f x = v}"
  by auto

lemma finite_refs: "S \<subseteq> all_slots \<Longrightarrow> finite {y \<in> S. f y = v}"
  using finite_slots finite_subset by fastforce

lemma refs_remove:
  assumes "S \<subseteq> all_slots" and "x \<in> S" and "slot s x = Some d"
    and "\<And>y. y \<noteq> x \<Longrightarrow> slot s' y = slot s y" and "slot s' x = None"
  shows "int (refs S s' e) = int (refs S s e) - (if e = d then 1 else 0)" and "0 < refs S s d"
proof -
  let ?A = "\<lambda>e. {y \<in> S. slot s y = Some e}"
  have fin: "finite (?A e)" for e by (rule finite_refs [OF assms(1)])
  have eq: "{y \<in> S. slot s' y = Some e} = ?A e - {x}" for e
    by (rule filter_remove) (use assms(4,5) in simp_all)
  have mem: "x \<in> ?A e \<longleftrightarrow> e = d" for e using assms(2,3) by auto
  have "?A d \<noteq> {}" using mem [of d] by blast
  then show pos: "0 < refs S s d" using fin [of d] card_gt_0_iff [of "?A d"] unfolding refs_def by blast
  show "int (refs S s' e) = int (refs S s e) - (if e = d then 1 else 0)"
    using pos mem [of e] by (simp add: refs_def eq card_Diff_singleton_if of_nat_diff Suc_le_eq)
qed

lemma refs_insert:
  assumes "S \<subseteq> all_slots" and "x \<notin> S" and "slot s x = Some d"
  shows "int (refs (insert x S) s e) = int (refs S s e) + (if e = d then 1 else 0)"
proof -
  have "card (insert x {y \<in> S. slot s y = Some e}) = Suc (card {y \<in> S. slot s y = Some e})"
    by (rule card_insert_disjoint) (use finite_refs [OF assms(1)] assms(2) in auto)
  then show ?thesis using assms(3) unfolding refs_def filter_insert by auto
qed

section \<open>Fork: counting one more slot\<close>

lemma files_ok_insert:
  assumes ok: "files_ok S h s" and x: "x \<in> all_slots" "x \<notin> S" and d: "slot s x = Some d"
    and n: "fd_inode (f_desc_table s d) = Some n"
  shows "files_ok (insert x S) h (upd_inode n (\<lambda>m. m\<lparr>i_cnt := i_cnt m + 1\<rparr>)
     (upd_fd d (\<lambda>f. f\<lparr>fd_cnt := fd_cnt f + 1\<rparr>) s))" (is "files_ok _ _ ?s'")
proof -
  have d64: "d < NR_FILE_DESC" using fo_slot [OF ok x(1) d] by simp
  have sl: "slot ?s' y = slot s y" for y by (simp add: slot_def)
  have rf: "refs T ?s' e = refs T s e" for T e by (simp add: refs_def sl)
  have us: "users ?s' m = users s m" for m by (auto simp: users_def)
  have ri: "int (refs (insert x S) s e) = int (refs S s e) + (if e = d then 1 else 0)" for e
    by (rule refs_insert [OF fo_sub [OF ok] x(2) d])
  have "fd_cnt (f_desc_table ?s' e) = int (refs (insert x S) s e) \<and> 0 < refs (insert x S) s e"
    if "e < NR_FILE_DESC" "fd_inode (f_desc_table ?s' e) \<noteq> None" for e
  proof -
    have "fd_cnt (f_desc_table s e) = int (refs S s e) \<and> 0 < refs S s e"
      using fo_cnt [OF ok that(1)] that(2) by (auto split: if_splits)
    then show ?thesis using ri [of e] by auto
  qed
  moreover have "i_cnt (inode_table ?s' m) = h m + (\<Sum>e \<in> users s m. fd_cnt (f_desc_table ?s' e))"
    if m: "m < NR_INODE" for m
  proof -
    have mem: "d \<in> users s m \<longleftrightarrow> m = n" using d64 n by (auto simp: users_def)
    have "(\<Sum>e \<in> users s m. fd_cnt (f_desc_table ?s' e)) =
        (\<Sum>e \<in> users s m. fd_cnt (f_desc_table s e) + (if e = d then 1 else 0))"
      by (rule sum.cong) auto
    also have "\<dots> = (\<Sum>e \<in> users s m. fd_cnt (f_desc_table s e)) + (if m = n then 1 else 0)"
      by (simp add: sum.distrib mem)
    finally have "(\<Sum>e \<in> users s m. fd_cnt (f_desc_table ?s' e)) =
        (\<Sum>e \<in> users s m. fd_cnt (f_desc_table s e)) + (if m = n then 1 else 0)" .
    moreover have "i_cnt (inode_table ?s' m) = i_cnt (inode_table s m) + (if m = n then 1 else 0)" by simp
    ultimately show ?thesis using fo_sum [OF ok m] by linarith
  qed
  ultimately show ?thesis
    using ok x by (auto simp: files_ok_def sl rf us)
qed

lemma fork_files_ok:
  "files_ok S h s \<Longrightarrow> pid < NPROC \<Longrightarrow> i + n = NR_FILES \<Longrightarrow> S \<inter> {pid} \<times> {i..<NR_FILES} = {} \<Longrightarrow>
   \<exists>s'. fork_files pid n i s = Inr s' \<and> files_ok (S \<union> {x \<in> {pid} \<times> {i..<NR_FILES}. slot s x \<noteq> None}) h s' \<and>
     fprocs s' = fprocs s"
proof (induction n arbitrary: i s S)
  case 0
  then show ?case by simp
next
  case (Suc n)
  have i: "i < NR_FILES" using Suc.prems(3) by simp
  have here: "{x \<in> {pid} \<times> {i..<NR_FILES}. slot s x \<noteq> None} =
      {x \<in> {pid} \<times> {Suc i..<NR_FILES}. slot s x \<noteq> None} \<union> (if slot s (pid, i) = None then {} else {(pid, i)})"
    using i by (auto simp: le_eq_less_or_eq Suc_le_eq)
  have x: "(pid, i) \<in> all_slots" "(pid, i) \<notin> S"
    using Suc.prems(2,4) i by (auto simp: all_slots_def)
  show ?case
  proof (cases "slot s (pid, i)")
    case None
    have "S \<inter> {pid} \<times> {Suc i..<NR_FILES} = {}" using Suc.prems(4) by auto
    with Suc.IH [OF Suc.prems(1,2), of "Suc i"] Suc.prems(3) None show ?thesis
      unfolding here by (auto simp: slot_def)
  next
    case (Some d)
    obtain p where p: "fd_inode (f_desc_table s d) = Some p"
      using fo_slot [OF Suc.prems(1) x(1) Some] by auto
    let ?s1 = "upd_inode p (\<lambda>m. m\<lparr>i_cnt := i_cnt m + 1\<rparr>) (upd_fd d (\<lambda>f. f\<lparr>fd_cnt := fd_cnt f + 1\<rparr>) s)"
    have ok1: "files_ok (insert (pid, i) S) h ?s1" by (rule files_ok_insert [OF Suc.prems(1) x Some p])
    have "insert (pid, i) S \<inter> {pid} \<times> {Suc i..<NR_FILES} = {}" using Suc.prems(4) by auto
    from Suc.IH [OF ok1 Suc.prems(2) _ this] Suc.prems(3)
    obtain s' where s': "fork_files pid n (Suc i) ?s1 = Inr s'" "fprocs s' = fprocs ?s1"
      "files_ok (insert (pid, i) S \<union> {x \<in> {pid} \<times> {Suc i..<NR_FILES}. slot ?s1 x \<noteq> None}) h s'" by auto
    have "slot ?s1 y = slot s y" for y by (simp add: slot_def)
    then have "files_ok (S \<union> {x \<in> {pid} \<times> {i..<NR_FILES}. slot s x \<noteq> None}) h s'"
      using s'(3) Some unfolding here by (simp add: Un_commute Un_left_commute insert_commute Un_insert_right)
    moreover have "fork_files pid (Suc n) i s = Inr s'"
      using Some p s'(1) by (simp add: slot_def Let_def)
    ultimately show ?thesis using s'(2) by simp
  qed
qed

text \<open>Slots that are empty may be counted or not.\<close>

lemma files_ok_empty_slots:
  assumes ok: "files_ok S h s" and T: "S \<subseteq> T" "T \<subseteq> all_slots" and e: "\<And>x. x \<in> T - S \<Longrightarrow> slot s x = None"
  shows "files_ok T h s"
proof -
  have "{x \<in> T. slot s x = Some d} = {x \<in> S. slot s x = Some d}" for d
    by (rule filter_subset [OF T(1)]) (use e in simp)
  then have "refs T s d = refs S s d" for d by (simp add: refs_def)
  then show ?thesis using ok T(2) by (simp add: files_ok_def)
qed

section \<open>Close and exit: giving up one slot\<close>

lemma files_ok_drop:
  assumes ok: "files_ok all_slots h s" and x: "(p, i) \<in> all_slots" and d: "slot s (p, i) = Some d"
    and n: "fd_inode (f_desc_table s d) = Some n"
  shows "files_ok all_slots h (set_filp p i None (drop_fd d (upd_inode n (\<lambda>m. m\<lparr>i_cnt := i_cnt m - 1\<rparr>) s)))"
      (is "files_ok _ _ ?s'")
    and "0 < i_cnt (inode_table s n)"
proof -
  define s' where "s' = ?s'"
  have d64: "d < NR_FILE_DESC" using fo_slot [OF ok x d] by simp
  have n64: "n < NR_INODE" by (rule fo_ino [OF ok d64 n])
  have cd: "fd_cnt (f_desc_table s d) = int (refs all_slots s d)" "0 < refs all_slots s d"
    using fo_cnt [OF ok d64] n by auto
  have sl: "slot s' y = (if y = (p, i) then None else slot s y)" for y
    by (cases y) (auto simp: s'_def slot_def drop_fd_def Let_def upd_proc_apply)
  have rf: "int (refs all_slots s' e) = int (refs all_slots s e) - (if e = d then 1 else 0)" for e
    by (rule refs_remove(1) [OF subset_refl x d]) (simp_all add: sl)
  have ft: "f_desc_table s' e = (if e = d
      then (f_desc_table s d)\<lparr>fd_cnt := fd_cnt (f_desc_table s d) - 1,
             fd_inode := (if fd_cnt (f_desc_table s d) = 1 then None else Some n)\<rparr>
      else f_desc_table s e)" for e
    using n by (auto simp: s'_def drop_fd_def Let_def)
  have it: "inode_table s' = (inode_table s)(n := (inode_table s n)\<lparr>i_cnt := i_cnt (inode_table s n) - 1\<rparr>)"
    by (simp add: s'_def drop_fd_def Let_def)
  have mem: "d \<in> users s m \<longleftrightarrow> m = n" for m using d64 n by (auto simp: users_def)
  have us: "users s' m = (if m = n \<and> fd_cnt (f_desc_table s d) = 1 then users s m - {d} else users s m)" for m
    using d64 n by (auto simp: users_def ft split: if_splits)
  have live: "fd_inode (f_desc_table s' e) \<noteq> None" "e < NR_FILE_DESC" if "y \<in> all_slots" "slot s' y = Some e" for y e
  proof -
    have y: "slot s y = Some e" using that(2) by (simp add: sl split: if_splits)
    then show "e < NR_FILE_DESC" using fo_slot [OF ok that(1)] by blast
    have "0 < refs all_slots s' e"
      unfolding refs_def card_gt_0_iff using that finite_refs [OF subset_refl, of "slot s'" "Some e"] by blast
    then show "fd_inode (f_desc_table s' e) \<noteq> None"
      using rf [of e] cd fo_slot [OF ok that(1) y] by (auto simp: ft)
  qed
  have cnt: "fd_cnt (f_desc_table s' e) = int (refs all_slots s' e) \<and> 0 < refs all_slots s' e"
    if "e < NR_FILE_DESC" "fd_inode (f_desc_table s' e) \<noteq> None" for e
  proof (cases "e = d")
    case True
    with that cd rf [of d] show ?thesis by (auto simp: ft split: if_splits)
  next
    case False
    with that rf [of e] fo_cnt [OF ok that(1)] show ?thesis by (auto simp: ft)
  qed
  have sum: "i_cnt (inode_table s' m) = h m + (\<Sum>e \<in> users s' m. fd_cnt (f_desc_table s' e))"
    if m: "m < NR_INODE" for m
  proof (cases "m = n")
    case True
    have "(\<Sum>e \<in> users s n. fd_cnt (f_desc_table s e)) =
        fd_cnt (f_desc_table s d) + (\<Sum>e \<in> users s n - {d}. fd_cnt (f_desc_table s e))"
      by (rule sum.remove) (simp_all add: mem)
    moreover have "(\<Sum>e \<in> users s' n. fd_cnt (f_desc_table s' e)) =
        fd_cnt (f_desc_table s d) - 1 + (\<Sum>e \<in> users s n - {d}. fd_cnt (f_desc_table s e))"
    proof (cases "fd_cnt (f_desc_table s d) = 1")
      case True
      then have "(\<Sum>e \<in> users s' n. fd_cnt (f_desc_table s' e)) = (\<Sum>e \<in> users s n - {d}. fd_cnt (f_desc_table s e))"
        by (intro sum.cong) (auto simp: us ft)
      then show ?thesis using True by simp
    next
      case False
      then have eq: "users s' n = users s n" by (simp add: us)
      have "(\<Sum>e \<in> users s' n. fd_cnt (f_desc_table s' e)) =
          fd_cnt (f_desc_table s' d) + (\<Sum>e \<in> users s n - {d}. fd_cnt (f_desc_table s' e))"
        unfolding eq by (rule sum.remove) (simp_all add: mem)
      also have "(\<Sum>e \<in> users s n - {d}. fd_cnt (f_desc_table s' e)) = (\<Sum>e \<in> users s n - {d}. fd_cnt (f_desc_table s e))"
        by (intro sum.cong) (auto simp: ft)
      finally show ?thesis by (simp add: ft)
    qed
    ultimately show ?thesis using True fo_sum [OF ok n64] by (simp add: it)
  next
    case False
    then have "(\<Sum>e \<in> users s' m. fd_cnt (f_desc_table s' e)) = (\<Sum>e \<in> users s m. fd_cnt (f_desc_table s e))"
      using mem [of m] by (intro sum.cong) (auto simp: us ft)
    then show ?thesis using False fo_sum [OF ok m] by (simp add: it)
  qed
  have "fd_inode (f_desc_table s' e) = Some m \<Longrightarrow> m < NR_INODE" if "e < NR_FILE_DESC" for e m
    using fo_ino [OF ok that] n64 by (auto simp: ft split: if_splits)
  then show "files_ok all_slots h ?s'"
    unfolding files_ok_def s'_def [symmetric] using fo_pos [OF ok] live cnt sum by blast
  have "fd_cnt (f_desc_table s e) \<ge> 0" if "e \<in> users s n" for e
    using fo_cnt [OF ok, of e] that by (auto simp: users_def)
  then have "(\<Sum>e \<in> users s n - {d}. fd_cnt (f_desc_table s e)) \<ge> 0" by (intro sum_nonneg) auto
  moreover have "(\<Sum>e \<in> users s n. fd_cnt (f_desc_table s e)) =
        fd_cnt (f_desc_table s d) + (\<Sum>e \<in> users s n - {d}. fd_cnt (f_desc_table s e))"
    by (rule sum.remove) (simp_all add: mem)
  ultimately show "0 < i_cnt (inode_table s n)"
    using fo_sum [OF ok n64] fo_pos [OF ok, of n] cd by linarith
qed

lemma exit_files_ok:
  "files_ok all_slots h s \<Longrightarrow> pid < NPROC \<Longrightarrow> i + n = NR_FILES \<Longrightarrow>
   \<exists>s'. exit_files pid n i s = Inr s' \<and> files_ok all_slots h s' \<and>
     (\<forall>x. slot s' x = (if x \<in> {pid} \<times> {i..<NR_FILES} then None else slot s x))"
proof (induction n arbitrary: i s)
  case 0
  then show ?case by auto
next
  case (Suc n)
  have i: "i < NR_FILES" and x: "(pid, i) \<in> all_slots" using Suc.prems(2,3) by (auto simp: all_slots_def)
  have rng: "y \<in> {pid} \<times> {i..<NR_FILES} \<longleftrightarrow> y = (pid, i) \<or> y \<in> {pid} \<times> {Suc i..<NR_FILES}" for y
    using i by (cases y) auto
  show ?case
  proof (cases "slot s (pid, i)")
    case None
    with Suc.IH [OF Suc.prems(1,2), of "Suc i"] Suc.prems(3) show ?thesis
      unfolding rng by (auto simp: slot_def)
  next
    case (Some d)
    obtain p where p: "fd_inode (f_desc_table s d) = Some p"
      using fo_slot [OF Suc.prems(1) x Some] by auto
    let ?s1 = "set_filp pid i None (drop_fd d (upd_inode p (\<lambda>m. m\<lparr>i_cnt := i_cnt m - 1\<rparr>) s))"
    have ok1: "files_ok all_slots h ?s1" by (rule files_ok_drop(1) [OF Suc.prems(1) x Some p])
    have sl: "slot ?s1 y = (if y = (pid, i) then None else slot s y)" for y
      by (cases y) (auto simp: slot_def drop_fd_def Let_def upd_proc_apply)
    have "exit_files pid (Suc n) i s = exit_files pid n (Suc i) ?s1"
      using Some p by (simp add: slot_def)
    with Suc.IH [OF ok1 Suc.prems(2), of "Suc i"] Suc.prems(3) show ?thesis
      unfolding rng by (auto simp: sl)
  qed
qed

section \<open>Open: a new descriptor\<close>

lemma files_ok_attach:
  assumes ok: "files_ok all_slots (h(pin := h pin + 1)) s" and h: "0 \<le> h pin"
    and x: "(pc, fd) \<in> all_slots" "slot s (pc, fd) = None"
    and d: "d < NR_FILE_DESC" "fd_inode (f_desc_table s d) = None" and pin: "pin < NR_INODE"
  shows "files_ok all_slots h (upd_fd d (\<lambda>_. \<lparr>fd_mode = flags, fd_pos = 0, fd_cnt = 1, fd_inode = Some pin\<rparr>)
     (set_filp pc fd (Some d) s))" (is "files_ok _ _ ?s'")
proof -
  have sl: "slot ?s' y = (if y = (pc, fd) then Some d else slot s y)" for y
    by (cases y) (auto simp: slot_def upd_proc_apply)
  have nod: "slot s y \<noteq> Some d" if "y \<in> all_slots" for y using fo_slot [OF ok that] d(2) by auto
  have rf: "refs all_slots ?s' e = (if e = d then 1 else refs all_slots s e)" for e
  proof (cases "e = d")
    case True
    have "{y \<in> all_slots. slot ?s' y = Some d} = {(pc, fd)}" using x nod by (auto simp: sl split: if_splits)
    then show ?thesis using True by (simp add: refs_def)
  next
    case False
    have "{y \<in> all_slots. slot ?s' y = Some e} = {y \<in> all_slots. slot s y = Some e}"
      using False x by (auto simp: sl split: if_splits)
    then show ?thesis using False by (simp add: refs_def)
  qed
  have dn: "d \<notin> users s m" for m using d(2) by (simp add: users_def)
  have us: "users ?s' m = (if m = pin then insert d (users s m) else users s m)" for m
    using d by (auto simp: users_def split: if_splits)
  have "(\<Sum>e \<in> users s m. fd_cnt (f_desc_table ?s' e)) = (\<Sum>e \<in> users s m. fd_cnt (f_desc_table s e))" for m
    using dn [of m] by (intro sum.cong) auto
  then have "i_cnt (inode_table ?s' m) = h m + (\<Sum>e \<in> users ?s' m. fd_cnt (f_desc_table ?s' e))"
    if "m < NR_INODE" for m
    using fo_sum [OF ok that] dn [of m] by (auto simp: us)
  moreover have "0 \<le> h m" for m using fo_pos [OF ok, of m] h by (cases "m = pin") auto
  moreover have "e < NR_FILE_DESC \<and> fd_inode (f_desc_table ?s' e) \<noteq> None"
    if "y \<in> all_slots" "slot ?s' y = Some e" for y e
    using that fo_slot [OF ok, of y e] d by (auto simp: sl split: if_splits)
  moreover have "fd_cnt (f_desc_table ?s' e) = int (refs all_slots ?s' e) \<and> 0 < refs all_slots ?s' e"
    if "e < NR_FILE_DESC" "fd_inode (f_desc_table ?s' e) \<noteq> None" for e
    using that fo_cnt [OF ok, of e] by (auto simp: rf)
  moreover have "m < NR_INODE" if "e < NR_FILE_DESC" "fd_inode (f_desc_table ?s' e) = Some m" for e m
    using that fo_ino [OF ok, of e m] pin by (auto split: if_splits)
  ultimately show ?thesis unfolding files_ok_def by blast
qed

section \<open>Holding an inode\<close>

lemma files_ok_frames:
  assumes "f_desc_table s' = f_desc_table s" and "fprocs s' = fprocs s"
  shows "slot s' = slot s" and "refs S s' = refs S s" and "users s' = users s"
  using assms by (simp_all add: slot_def refs_def users_def fun_eq_iff)

lemma files_ok_hold:
  assumes ok: "files_ok S h s" and same: "f_desc_table s' = f_desc_table s" "fprocs s' = fprocs s"
    and cnt: "\<And>n. i_cnt (inode_table s' n) = i_cnt (inode_table s n) + (if n = p then k else 0)"
    and k: "0 \<le> h p + k"
  shows "files_ok S (h(p := h p + k)) s'"
  unfolding files_ok_def files_ok_frames [OF same] same(1) cnt
  using k by (auto simp: fo_pos [OF ok] fo_cnt [OF ok] fo_ino [OF ok] fo_sum [OF ok] dest: fo_slot [OF ok]
      subsetD [OF fo_sub [OF ok]])

lemma files_ok_cong:
  assumes "f_desc_table s' = f_desc_table s" and "fprocs s' = fprocs s" and "inode_table s' = inode_table s"
  shows "files_ok S h s' = files_ok S h s"
  unfolding files_ok_def files_ok_frames [OF assms(1,2)] assms(1,3) by (rule refl)

end
