(* ===== verification/FsProps.thy ===== *)
theory FsProps
  imports FsRefs KernelProps
begin

unbundle bit_operations_syntax

text \<open>
  The properties of the disk driver and the file system, with witnesses on a small
  disk: one partition from sector 0 with the super block of \<open>mkfs\<close>, a root
  directory of two entries, and one open file.
\<close>

section \<open>A sample file system\<close>

definition sample_part :: part_info where
  "sample_part = \<lparr>base = 0, psize = 0x20000\<rparr>"

definition sample_dir :: "nat \<Rightarrow> u8" where
  "sample_dir = store_entry 1 7 [0x62] (store_entry 0 1 [0x2E] (\<lambda>_. 0))"

definition sample_drive :: hd_state where
  "sample_drive = \<lparr>hd_info = \<lparr>open_cnt = 1, primary = (\<lambda>_. sample_part), logical = (\<lambda>_. sample_part)\<rparr>,
     sectors = (\<lambda>_ _. 0)(292 := sample_dir), identify = (\<lambda>_. 0), responds = True\<rparr>"

definition sample_root :: inode where
  "sample_root = \<lparr>i_mode = I_DIRECTORY, i_size = 32, i_start_sect = 292, i_nr_sects = 2048,
     i_dev = ROOT_DEV, i_cnt = 1, i_num = 1\<rparr>"

definition sample_file :: inode where
  "sample_file = \<lparr>i_mode = I_REGULAR, i_size = 1000, i_start_sect = 3000, i_nr_sects = 2048,
     i_dev = ROOT_DEV, i_cnt = 1, i_num = 7\<rparr>"

text \<open>File slot 0 of INIT names descriptor 0, which names inode slot 1.\<close>

definition sample_fs :: fs_state where
  "sample_fs = \<lparr>fsbuf = (\<lambda>_. 0), drive = sample_drive,
     f_desc_table = (\<lambda>_. zero_fd)(0 := \<lparr>fd_mode = O_RDWR, fd_pos = 0, fd_cnt = 1, fd_inode = Some 1\<rparr>),
     inode_table = (\<lambda>_. zero_inode)(0 := sample_root, 1 := sample_file),
     super_blocks = (\<lambda>_. (mkfs_super 0 0x20000)\<lparr>sb_dev := ROOT_DEV\<rparr>), root_inode = Some 0,
     fprocs = upd_proc INIT (\<lambda>p. p\<lparr>filp := (filp p)(0 := Some 0)\<rparr>)
       (\<lambda>i. (proc_table sample_boot i)\<lparr>filp := (\<lambda>_. None)\<rparr>),
     umem = (\<lambda>_. 0)\<rparr>"

abbreviation (input) sample_sb :: super_block where
  "sample_sb \<equiv> (mkfs_super 0 0x20000)\<lparr>sb_dev := ROOT_DEV\<rparr>"

lemma sample_sb_fields [simp]:
  "unat (nr_imap_sects (mkfs_super j 0x20000)) = 1" "unat (nr_smap_sects (mkfs_super j 0x20000)) = 33"
  "n_1st_sect (mkfs_super j 0x20000) = 292"
  by (simp_all add: mkfs_super_def Let_def)

lemma sample_simps [simp]:
  "drive sample_fs = sample_drive" "root_inode sample_fs = Some 0"
  "inode_table sample_fs 0 = sample_root" "inode_table sample_fs (Suc 0) = sample_file"
  "1 < i \<Longrightarrow> inode_table sample_fs i = zero_inode"
  "fd_inode (f_desc_table sample_fs d) = (if d = 0 then Some 1 else None)"
  "fd_cnt (f_desc_table sample_fs d) = (if d = 0 then 1 else 0)"
  "fd_pos (f_desc_table sample_fs 0) = 0" "fd_mode (f_desc_table sample_fs 0) = O_RDWR"
  "slot sample_fs (p, i) = (if p = INIT \<and> i = 0 then Some 0 else None)"
  "umem sample_fs = (\<lambda>_. 0)"
  by (auto simp: sample_fs_def zero_fd_def slot_def upd_proc_apply)

lemma sample_reach: "n < 2 ^ 22 \<Longrightarrow> reach sample_part n"
  by (simp add: reach_def in_reach_def sample_part_def)

lemma sample_dev: "fs_dev sample_fs ROOT_DEV sample_part"
  by (simp add: fs_dev_def dev_ok_def sample_drive_def MAJOR_def MINOR_def DRV_OF_DEV_def part_of_def)

lemma sample_geom: "geom sample_fs ROOT_DEV sample_part sample_sb"
proof -
  have "find (\<lambda>i. sb_dev (super_blocks sample_fs i) = ROOT_DEV) [0..<NR_SUPER_BLOCK] = Some 0"
    by (simp add: find_upt sample_fs_def)
  then show ?thesis
    unfolding geom_def using sample_dev sample_reach by (simp add: get_super_block_def) (simp add: sample_fs_def)
qed

lemma sample_iblock: "iblock sample_sb n = 36 + (n - 1) div 16"
  by (simp add: iblock_def)

lemma sample_root_good: "root_good sample_fs 0 ROOT_DEV sample_part sample_sb 292 2"
  using sample_geom sample_dev sample_reach
  by (simp add: root_good_def root_ok_def sample_iblock sample_root_def)

lemma sample_icache: "icache_ok sample_fs"
  by (auto simp: icache_ok_def sample_fs_def sample_root_def sample_file_def zero_inode_def)

lemma sample_cnt: "i_cnt (inode_table sample_fs n) = (if n \<le> 1 then 1 else 0)"
  by (auto simp: sample_fs_def sample_root_def sample_file_def zero_inode_def)

lemma sample_files_ok: "files_ok all_slots (\<lambda>n. if n = 0 then 1 else 0) sample_fs"
proof -
  have "{x \<in> all_slots. slot sample_fs x = Some 0} = {(INIT, 0)}"
    by (auto simp: all_slots_def split: if_splits)
  then have "refs all_slots sample_fs 0 = 1" by (simp add: refs_def)
  moreover have "users sample_fs n = (if n = 1 then {0} else {})" for n by (auto simp: users_def)
  ultimately show ?thesis
    by (auto simp: files_ok_def all_slots_def sample_cnt split: if_splits)
qed

section \<open>The disk driver\<close>

text \<open>
  C26: what \<open>hd_rdwt\<close> writes to a partition it reads back, for every request of up
  to 256 sectors that 28-bit sector numbers can address; the sectors outside the
  request keep their contents, and the driver stays in working order.
\<close>

theorem disk_read_after_write:
  assumes d: "dev_ok s dev p" and r: "in_reach p n c" and pos: "pos = of_nat (n * SECTOR_SIZE)"
  shows "\<exists>s' la'. hd_rdwt s DEV_WRITE dev pos (int c * SECTOR_SIZE) la = Inr (la, s') \<and> dev_ok s' dev p \<and>
    hd_rdwt s' DEV_READ dev pos (int c * SECTOR_SIZE) junk = Inr (la', s') \<and>
    (\<forall>i. la' i = (if i < c * SECTOR_SIZE then la i else junk i)) \<and>
    (\<forall>l. l < unat (base p) + n \<or> unat (base p) + n + c \<le> l \<longrightarrow> sectors s' l = sectors s l)"
proof -
  let ?s' = "s\<lparr>sectors := (\<lambda>l. if unat (base p) + n \<le> l \<and> l < unat (base p) + n + c
      then blit (sectors s l) 0 (\<lambda>i. la ((l - (unat (base p) + n)) * SECTOR_SIZE + i)) SECTOR_SIZE
      else sectors s l)\<rparr>"
  have d': "dev_ok ?s' dev p" using d by (simp add: dev_ok_def)
  have "part_block p ?s' (n + i div 512) (i mod 512) = la i" if "i < c * 512" for i
    using that by (auto simp: part_block_def blit_def less_mult_imp_div_less)
  then show ?thesis
    using hd_write [OF d r pos, of la] hd_read [OF d' r pos, of junk] d' by auto
qed

theorem disk_read_after_write_witness:
  "\<exists>s' la'. hd_rdwt sample_drive DEV_WRITE 0x20 2048 (int 3 * SECTOR_SIZE) (\<lambda>i. of_nat i) = Inr (\<lambda>i. of_nat i, s') \<and>
     hd_rdwt s' DEV_READ 0x20 2048 (int 3 * SECTOR_SIZE) (\<lambda>_. 0) = Inr (la', s') \<and> la' 600 = 88"
proof -
  have "dev_ok sample_drive 0x20 sample_part"
    by (simp add: dev_ok_def sample_drive_def DRV_OF_DEV_def part_of_def)
  moreover have "in_reach sample_part 4 3" by (simp add: in_reach_def sample_part_def)
  ultimately show ?thesis
    using disk_read_after_write [where s = sample_drive and dev = 32 and p = sample_part and n = 4 and c = 3
        and pos = 2048 and la = "\<lambda>i. of_nat i" and junk = "\<lambda>_. 0"] by fastforce
qed

text \<open>
  A request for more than 256 sectors never ends: the count register of the
  drive has 8 bits, the drive delivers fewer sectors than the loop waits for.
\<close>

theorem disk_long_request_hangs:
  assumes d: "dev_ok s dev p" and c: "256 < c" and pos: "pos AND 0x1FF = 0"
    and small: "drop_bit SECTOR_SIZE_SHIFT pos < word_of_int (- (2 ^ 31))"
  shows "hd_rdwt s DEV_READ dev pos (int c * SECTOR_SIZE) la = Inl Hang"
proof -
  let ?cmd = "make_cmd 0 (ucast (drop_bit SECTOR_SIZE_SHIFT pos) + base p) (word_of_int (int c)) ATA_READ"
  have "unat (of_nat c :: u8) = c mod 256" by (simp add: unat_of_nat take_bit_eq_mod)
  then have "cmd_sectors ?cmd \<le> 256" by (simp add: cmd_sectors_def)
  then have "read_loop s ?cmd c 0 la = Inl Hang" using c by (intro read_loop_short) simp_all
  then show ?thesis
    using d pos small by (simp add: hd_rdwt_def dev_ok_def Let_def hd_cmd_out_def)
qed

theorem disk_long_request_hangs_witness:
  "hd_rdwt sample_drive DEV_READ 0x20 0 (int 300 * SECTOR_SIZE) (\<lambda>_. 0) = Inl Hang"
proof (rule disk_long_request_hangs)
  show "dev_ok sample_drive 0x20 sample_part"
    by (simp add: dev_ok_def sample_drive_def DRV_OF_DEV_def part_of_def)
  show "drop_bit SECTOR_SIZE_SHIFT (0 :: u64) < word_of_int (- (2 ^ 31))" by (simp add: word_less_nat_alt)
qed simp_all

section \<open>The inode cache\<close>

text \<open>
  \<open>get_inode\<close> on a working device, with a free slot or a cached inode, always
  succeeds; the slot it returns is the only one that holds the inode, its
  reference count goes up by one (or starts at 1 with the contents of the inode
  on disk), and no other slot changes.
\<close>

theorem get_inode_spec:
  assumes ok: "icache_ok s" and g: "geom s dev part sb" and n: "valid_ino n"
    and room: "\<exists>i < NR_INODE. i_cnt (inode_table s i) = 0"
  shows "\<exists>p s'. get_inode s dev (int n) = Inr (Some p, s') \<and> icache_ok s' \<and> cached s' dev (int n) p \<and>
    (\<forall>q. q \<noteq> p \<longrightarrow> inode_table s' q = inode_table s q) \<and> drive s' = drive s \<and>
    (if \<exists>q. cached s dev (int n) q
     then cached s dev (int n) p \<and> inode_table s' p = (inode_table s p)\<lparr>i_cnt := i_cnt (inode_table s p) + 1\<rparr>
     else inode_table s' p = (dinode part sb s n)\<lparr>i_dev := dev, i_num := int n, i_cnt := 1\<rparr>)"
  by (rule get_inode_total [OF assms]) blast

theorem get_inode_spec_witness:
  "\<exists>p s'. get_inode sample_fs ROOT_DEV 7 = Inr (Some p, s') \<and> icache_ok s'"
proof -
  have "i_cnt (inode_table sample_fs 2) = 0" by (simp add: zero_inode_def)
  then have "\<exists>i < NR_INODE. i_cnt (inode_table sample_fs i) = 0" by (intro exI [of _ 2]) simp
  with get_inode_spec [OF sample_icache sample_geom, of 7] show ?thesis by auto
qed

text \<open>
  C25: an inode that is synchronised and leaves the cache comes back with the same
  contents: any later state with the same disk and the inode not cached reads what
  was written, and the synchronisation changes no other inode on disk and no
  sector but its own.
\<close>

theorem sync_then_get:
  assumes g: "geom s dev part sb" and p: "i_dev (inode_table s p) = dev" "i_num (inode_table s p) = int n"
    and n: "valid_ino n"
  shows "\<exists>s1. sync_inode s p = Inr s1 \<and> inode_table s1 = inode_table s \<and>
    (\<forall>k. valid_ino k \<longrightarrow> k \<noteq> n \<longrightarrow> dinode part sb s1 k = dinode part sb s k) \<and>
    (\<forall>b. b \<noteq> iblock sb n \<longrightarrow> blk part s1 b = blk part s b) \<and>
    (\<forall>s2 q. drive s2 = drive s1 \<longrightarrow> super_blocks s2 = super_blocks s1 \<longrightarrow> (\<forall>i. \<not> cached s2 dev (int n) i) \<longrightarrow>
      q < NR_INODE \<longrightarrow> i_cnt (inode_table s2 q) = 0 \<longrightarrow> (\<forall>j < q. i_cnt (inode_table s2 j) \<noteq> 0) \<longrightarrow>
      (\<exists>s3. get_inode s2 dev (int n) = Inr (Some q, s3) \<and> same_disk (inode_table s3 q) (inode_table s p)))"
proof -
  obtain s1 where s1: "sync_inode s p = Inr s1" and sd: "same_disk (dinode part sb s1 n) (inode_table s p)"
    and other: "\<And>k. valid_ino k \<Longrightarrow> k \<noteq> n \<Longrightarrow> dinode part sb s1 k = dinode part sb s k"
    and bo: "\<And>b. b \<noteq> iblock sb n \<Longrightarrow> blk part s1 b = blk part s b"
    and eq: "s1 = write_blk part (iblock sb n)
       (s\<lparr>fsbuf := store_inode (inode_table s p) (ioffset n) (fsbuf (read_blk part (iblock sb n) s))\<rparr>)"
    using sync_inode_eq [OF g p n] by blast
  have g1: "geom s1 dev part sb" using g by (simp add: eq)
  have "\<exists>s3. get_inode s2 dev (int n) = Inr (Some q, s3) \<and> same_disk (inode_table s3 q) (inode_table s p)"
    if s2: "drive s2 = drive s1" "super_blocks s2 = super_blocks s1" "\<forall>i. \<not> cached s2 dev (int n) i"
      and q: "q < NR_INODE" "i_cnt (inode_table s2 q) = 0" "\<forall>j < q. i_cnt (inode_table s2 j) \<noteq> 0" for s2 q
  proof -
    have "fs_dev s2 dev part = fs_dev s1 dev part" by (rule fs_dev_cong) (simp_all add: s2)
    then have g2: "geom s2 dev part sb" using g1 geom_cong [of s2 dev part s1 sb] s2(2) by simp
    have "dinode part sb s2 n = dinode part sb s1 n" by (simp add: dinode_def s2)
    then show ?thesis
      using get_inode_miss [OF g2 n s2(3) q] sd by (simp add: same_disk_def)
  qed
  then show ?thesis using s1 other bo by (auto simp: eq)
qed

theorem sync_then_get_witness:
  "\<exists>s1. sync_inode sample_fs 1 = Inr s1 \<and> inode_table s1 = inode_table sample_fs"
  using sync_then_get [OF sample_geom, of 1 7] by (auto simp: sample_file_def)

section \<open>Directories\<close>

text \<open>
  C24: on a root directory of \<open>nr\<close> entries \<open>search_file\<close> always returns, changes
  nothing but its buffer, and the result is that of looking the padded name up in
  the list of entries (one entry more than the directory has, when the last block
  has room for it): the inode number of the first entry with that name, or 0.
\<close>

theorem search_file_spec:
  assumes r: "root_ok s r dev part start nr" and p: "strip_path path = Some fn" "fn \<noteq> []"
  shows "\<exists>b num. search_file s path = Inr (num, s\<lparr>fsbuf := b\<rparr>) \<and>
    (case find (\<lambda>k. dir_name part s start k = pad_name fn) [0..<min (dir_blocks nr * 32) (nr + 1)] of
       None \<Rightarrow> num = 0 | Some k \<Rightarrow> num = dir_ino part s start k)"
proof -
  obtain b where b: "search_file s path = Inr (lookup part s start nr fn, s\<lparr>fsbuf := b\<rparr>)"
    using search_file_eq [OF assms] by blast
  show ?thesis
    by (rule exI [of _ b], rule exI [of _ "lookup part s start nr fn"])
      (simp add: b lookup_def split: option.split)
qed

lemma sample_strip: "strip_path [slash, 0x62] = Some [0x62]" "strip_path [0x63] = Some [0x63]"
  by (simp_all add: strip_path_def)

theorem search_file_spec_witness:
  "\<exists>b num. search_file sample_fs [slash, 0x62] = Inr (num, sample_fs\<lparr>fsbuf := b\<rparr>)"
proof -
  have "root_ok sample_fs 0 ROOT_DEV sample_part 292 2" using sample_root_good by (simp add: root_good_def)
  from search_file_spec [OF this sample_strip(1)] show ?thesis by auto
qed

text \<open>
  A file entered into the root directory is found: after \<open>new_dir_entry\<close> with a
  name of at most 11 characters, \<open>search_file\<close> on a path for that name returns its
  inode number, provided the slot it gets was blank and no entry before it has the
  name; every other entry is as before.
\<close>

theorem created_name_is_found:
  assumes g: "root_good s r dev part sb start nr" and nr: "nr < 2 ^ 14"
    and p: "strip_path path = Some fn" "fn \<noteq> []" "length fn \<le> 11"
    and num: "- (2 ^ 31) \<le> num" "num < 2 ^ 31" and k: "k = free_slot part s start nr"
    and room: "reach part (start + (nr + 1) div 32)"
    and blank: "dir_name part s start k = replicate 12 0"
    and fresh: "\<forall>k' < k. dir_name part s start k' \<noteq> pad_name fn"
  shows "\<exists>s' b. new_dir_entry s r num fn = Inr s' \<and> search_file s' path = Inr (num, s'\<lparr>fsbuf := b\<rparr>) \<and>
    root_good s' r dev part sb start (if k < nr then nr else nr + 1) \<and>
    (\<forall>k'. k' \<noteq> k \<longrightarrow> dir_ino part s' start k' = dir_ino part s start k' \<and>
       dir_name part s' start k' = dir_name part s start k')"
proof -
  obtain s' where s': "new_dir_entry s r num fn = Inr s'"
    and good: "root_good s' r dev part sb start (if k < nr then nr else nr + 1)"
    and new: "dir_ino part s' start k = num" "dir_name part s' start k = pad_name fn"
    and old: "\<And>k'. k' \<noteq> k \<Longrightarrow> dir_ino part s' start k' = dir_ino part s start k' \<and>
       dir_name part s' start k' = dir_name part s start k'"
    using new_dir_entry_spec [OF g nr p(3) num k room] blank by blast
  have "k \<le> nr" using k by (auto simp: free_slot_def find_Some_iff split: option.splits)
  then have "lookup part s' start (if k < nr then nr else nr + 1) fn = num"
    using lookup_new [OF _ refl new _ fresh] old by blast
  moreover have "root_ok s' r dev part start (if k < nr then nr else nr + 1)"
    using good by (simp add: root_good_def)
  ultimately show ?thesis using search_file_eq [OF _ p(1,2)] s' good old by metis
qed

lemma sample_entries:
  "dir_ino sample_part sample_fs 292 0 = 1" "dir_ino sample_part sample_fs 292 1 = 7"
  "dir_name sample_part sample_fs 292 2 = replicate 12 0"
  "dir_name sample_part sample_fs 292 0 \<noteq> pad_name [0x63]" "dir_name sample_part sample_fs 292 1 \<noteq> pad_name [0x63]"
proof -
  let ?b = "store_entry 0 1 [0x2E] (\<lambda>_. 0)"
  have blk: "blk sample_part sample_fs 292 = store_entry 1 7 [0x62] ?b"
    by (simp add: part_block_def sample_drive_def sample_part_def sample_dir_def)
  have d: "dir_ino sample_part sample_fs 292 k = de_inode (store_entry 1 7 [0x62] ?b) k"
    "dir_name sample_part sample_fs 292 k = de_name (store_entry 1 7 [0x62] ?b) k" if "k < 32" for k
    using that blk by (simp_all add: dir_ino_def dir_name_def)
  show "dir_ino sample_part sample_fs 292 0 = 1" "dir_ino sample_part sample_fs 292 1 = 7"
    by (simp_all add: d store_entry_same store_entry_other)
  have "de_name (\<lambda>_. 0) 2 = replicate 12 0"
    by (simp add: de_name_def map_replicate_const)
  then show "dir_name sample_part sample_fs 292 2 = replicate 12 0"
    by (simp add: d store_entry_other)
  have "de_name (store_entry 1 7 [0x62] ?b) 0 ! 0 = 0x2E" "de_name (store_entry 1 7 [0x62] ?b) 1 ! 0 = 0x62"
    using store_entry_same(2) [of "[0x2E]" 1 0 0 "\<lambda>_. 0"] store_entry_same(2) [of "[0x62]" 7 0 1 ?b]
    by (simp_all add: store_entry_other)
  moreover have "pad_name [0x63] ! 0 = 0x63" by (simp add: pad_name_def)
  ultimately show "dir_name sample_part sample_fs 292 0 \<noteq> pad_name [0x63]"
    "dir_name sample_part sample_fs 292 1 \<noteq> pad_name [0x63]"
    by (auto simp: d dest: arg_cong [where f = "\<lambda>xs. xs ! 0"])
qed

lemma sample_lookup: "lookup sample_part sample_fs 292 2 [0x62] = 7"
proof -
  let ?b = "store_entry 0 1 [0x2E] (\<lambda>_. 0)"
  have blk: "blk sample_part sample_fs 292 = store_entry 1 7 [0x62] ?b"
    by (simp add: part_block_def sample_drive_def sample_part_def sample_dir_def)
  have d: "dir_name sample_part sample_fs 292 k = de_name (store_entry 1 7 [0x62] ?b) k" if "k < 32" for k
    using that blk by (simp add: dir_name_def)
  have "de_name (store_entry 1 7 [0x62] ?b) 0 ! 0 = 0x2E"
    using store_entry_same(2) [of "[0x2E]" 1 0 0 "\<lambda>_. 0"] by (simp add: store_entry_other)
  moreover have "pad_name [0x62] ! 0 = 0x62" by (simp add: pad_name_def)
  ultimately have "dir_name sample_part sample_fs 292 0 \<noteq> pad_name [0x62]"
    by (auto simp: d dest: arg_cong [where f = "\<lambda>xs. xs ! 0"])
  moreover have "dir_name sample_part sample_fs 292 1 = pad_name [0x62]"
  proof -
    have "replicate 11 (0 :: u8) = [0, 0, 0, 0, 0, 0, 0, 0, 0, 0, 0]" by (simp add: eval_nat_numeral)
    then show ?thesis
      by (simp add: d de_name_def store_entry_def blit_def put32_def pad_name_def upt_rec nth_append)
  qed
  ultimately show ?thesis
    using sample_entries(2) by (simp add: lookup_def dir_blocks_def upt_rec)
qed

theorem created_name_is_found_witness:
  "\<exists>s' b. new_dir_entry sample_fs 0 9 [0x63] = Inr s' \<and> search_file s' [0x63] = Inr (9, s'\<lparr>fsbuf := b\<rparr>)"
proof -
  have k: "free_slot sample_part sample_fs 292 2 = 2"
    using sample_entries by (simp add: free_slot_def numeral_2_eq_2)
  have "\<forall>k' < (2::nat). dir_name sample_part sample_fs 292 k' \<noteq> pad_name [0x63]"
    using sample_entries(4,5) by (auto simp: less_2_cases_iff)
  then show ?thesis
    using created_name_is_found [OF sample_root_good _ sample_strip(2), of 9 2] k sample_entries(3) sample_reach
    by fastforce
qed

text \<open>
  A name of 12 characters, which \<open>strip_path\<close> lets through, damages the entry
  behind it: the terminating 0 of \<open>strcpy\<close> falls on the low byte of that entry's
  inode number, and an inode number below 256 becomes 0, a free slot.
\<close>

theorem long_name_frees_next_entry:
  assumes "length fn = 12" and "0 \<le> de_inode b (j + 1)" and "de_inode b (j + 1) < 256"
  shows "de_inode (store_entry j num fn b) (j + 1) = 0"
proof -
  let ?w = "le32 b ((j + 1) * DIR_ENTRY_SIZE)"
  have "uint ?w = take_bit 32 (sint ?w)" using uint_sint [of ?w] by simp
  then have "uint ?w < 256" using assms(2,3) by (simp add: de_inode_def take_bit_int_eq_self)
  then have "?w < 2 ^ 8" by (simp add: word_less_def)
  moreover have m: "(0xFF :: u32) = mask 8" by (simp add: mask_eq_exp_minus_1)
  ultimately have "?w AND NOT 0xFF = 0"
    unfolding m using bit_word_less_exp [of ?w 8] by (intro bit_word_eqI) (auto simp: bit_simps)
  then show ?thesis using store_entry_clobbers [OF assms(1)] by simp
qed

theorem long_name_frees_next_entry_witness:
  "de_inode (store_entry 0 9 (replicate 12 0x61) (store_entry 1 7 [0x62] (\<lambda>_. 0))) 1 = 0"
  using long_name_frees_next_entry [of "replicate 12 0x61" "store_entry 1 7 [0x62] (\<lambda>_. 0)" 0 9]
  by (simp add: store_entry_same(1))

section \<open>Reference counts\<close>

text \<open>
  C15: \<open>fs_fork\<close> on a child that has just received a copy of its parent's file slots
  counts every one of them: it never fails, and afterwards every descriptor's count
  is the number of file slots that name it and every inode's count the sum over
  its descriptors.
\<close>

theorem fs_fork_counts:
  assumes "files_ok (all_slots - {nat (m3i2 msg)} \<times> {..<NR_FILES}) h s" and "nat (m3i2 msg) < NPROC"
  shows "\<exists>s'. fs_fork s msg = Inr (0, s') \<and> files_ok all_slots h s' \<and> fprocs s' = fprocs s"
proof -
  let ?c = "nat (m3i2 msg)" let ?S = "all_slots - {?c} \<times> {..<NR_FILES}"
  obtain s' where s': "fork_files ?c NR_FILES 0 s = Inr s'" "fprocs s' = fprocs s"
    and ok: "files_ok (?S \<union> {x \<in> {?c} \<times> {0..<NR_FILES}. slot s x \<noteq> None}) h s'"
  proof -
    have "?S \<inter> {?c} \<times> {0..<NR_FILES} = {}" by auto
    with fork_files_ok [OF assms, of 0 NR_FILES] that show thesis by fastforce
  qed
  have same: "slot s' x = slot s x" for x using s'(2) by (simp add: slot_def)
  have "files_ok all_slots h s'"
  proof (rule files_ok_empty_slots [OF ok])
    show "?S \<union> {x \<in> {?c} \<times> {0..<NR_FILES}. slot s x \<noteq> None} \<subseteq> all_slots"
      using assms(2) by (auto simp: all_slots_def)
    show "slot s' x = None" if "x \<in> all_slots - (?S \<union> {x \<in> {?c} \<times> {0..<NR_FILES}. slot s x \<noteq> None})" for x
      using that by (cases x) (auto simp: same)
  qed simp
  then show ?thesis using s' by (simp add: fs_fork_def)
qed

definition sample_forked :: fs_state where
  "sample_forked = sample_fs\<lparr>fprocs := upd_proc 9 (\<lambda>p. p\<lparr>filp := filp (fprocs sample_fs INIT)\<rparr>) (fprocs sample_fs)\<rparr>"

definition sample_msg :: "int \<Rightarrow> int \<Rightarrow> int \<Rightarrow> message" where
  "sample_msg t a b = \<lparr>source = INIT, msgtype = t, m3i1 = a, m3i2 = b, m3i3 = 0, m3i4 = 0, m3l1 = 0, m3l2 = 0,
     m3p1 = 0, m3p2 = 0\<rparr>"

theorem fs_fork_counts_witness:
  "\<exists>s'. fs_fork sample_forked (sample_msg FORK 0 9) = Inr (0, s') \<and>
     files_ok all_slots (\<lambda>n. if n = 0 then 1 else 0) s'"
proof -
  let ?S = "all_slots - {9} \<times> {..<NR_FILES}"
  have sl: "slot sample_forked x = (if x = (9, 0) then Some 0 else slot sample_fs x)" for x
    by (cases x) (auto simp: sample_forked_def slot_def upd_proc_apply sample_fs_def)
  have "{x \<in> ?S. slot sample_forked x = Some 0} = {(INIT, 0)}"
    by (auto simp: all_slots_def sl split: if_splits)
  then have "refs ?S sample_forked 0 = 1" by (simp add: refs_def)
  moreover have "users sample_forked n = (if n = 1 then {0} else {})" for n
    by (auto simp: users_def sample_forked_def)
  moreover have "fd_inode (f_desc_table sample_forked d) = (if d = 0 then Some 1 else None)"
    "fd_cnt (f_desc_table sample_forked d) = (if d = 0 then 1 else 0)"
    "inode_table sample_forked = inode_table sample_fs" for d
    by (simp_all add: sample_forked_def)
  ultimately have "files_ok ?S (\<lambda>n. if n = 0 then 1 else 0) sample_forked"
    by (auto simp: files_ok_def all_slots_def sl sample_cnt split: if_splits)
  moreover have "nat (m3i2 (sample_msg FORK 0 9)) = 9" by (simp add: sample_msg_def)
  ultimately show ?thesis using fs_fork_counts [of "sample_msg FORK 0 9"] by fastforce
qed

text \<open>
  C16: \<open>fs_exit\<close> releases exactly the file slots of the process, never fails, and keeps
  every reference count right: a descriptor nobody names any more is free again.
\<close>

theorem fs_exit_counts:
  assumes "files_ok all_slots h s" and "nat (m3i2 msg) < NPROC"
  shows "\<exists>s'. fs_exit s msg = Inr (0, s') \<and> files_ok all_slots h s' \<and>
    (\<forall>p i. slot s' (p, i) = (if p = nat (m3i2 msg) \<and> i < NR_FILES then None else slot s (p, i)))"
proof -
  obtain s' where "exit_files (nat (m3i2 msg)) NR_FILES 0 s = Inr s'" "files_ok all_slots h s'"
    "\<forall>x. slot s' x = (if x \<in> {nat (m3i2 msg)} \<times> {0..<NR_FILES} then None else slot s x)"
    using exit_files_ok [OF assms, of 0 NR_FILES] by auto
  then show ?thesis by (auto simp: fs_exit_def)
qed

theorem fs_exit_counts_witness:
  "\<exists>s'. fs_exit sample_fs (sample_msg EXIT 0 INIT) = Inr (0, s') \<and> slot s' (INIT, 0) = None"
  using fs_exit_counts [OF sample_files_ok, of "sample_msg EXIT 0 INIT"] by (auto simp: sample_msg_def)

text \<open>
  Closing an open file always succeeds and keeps every reference count right.
\<close>

theorem do_close_counts:
  assumes ok: "files_ok all_slots h s" and pc: "pc < NPROC" and fd: "m3i1 msg = int fd" "fd < NR_FILES"
    and d: "slot s (pc, fd) = Some d"
  shows "\<exists>s'. do_close s pc msg = Inr (0, s') \<and> files_ok all_slots h s' \<and> slot s' (pc, fd) = None \<and>
    (\<forall>x. x \<noteq> (pc, fd) \<longrightarrow> slot s' x = slot s x)"
proof -
  have x: "(pc, fd) \<in> all_slots" using pc fd by (simp add: all_slots_def)
  obtain n where n: "fd_inode (f_desc_table s d) = Some n" using fo_slot [OF ok x d] by auto
  let ?s1 = "upd_inode n (\<lambda>m. m\<lparr>i_cnt := i_cnt m - 1\<rparr>) s" let ?s' = "set_filp pc fd None (drop_fd d ?s1)"
  have "put_inode s (Some n) = Inr ?s1"
    using files_ok_drop(2) [OF ok x d n] by (simp add: put_inode_def)
  then have "do_close s pc msg = Inr (0, ?s')"
    using fd d n by (simp add: do_close_def filp_of_def slot_def)
  moreover have "slot ?s' y = (if y = (pc, fd) then None else slot s y)" for y
    by (cases y) (auto simp: slot_def drop_fd_def Let_def upd_proc_apply)
  ultimately show ?thesis using files_ok_drop(1) [OF ok x d n] by simp
qed

theorem do_close_counts_witness:
  "\<exists>s'. do_close sample_fs INIT (sample_msg CLOSE 0 0) = Inr (0, s') \<and> slot s' (INIT, 0) = None"
  using do_close_counts [OF sample_files_ok, of INIT "sample_msg CLOSE 0 0" 0 0] by (auto simp: sample_msg_def)

text \<open>
  C17: opening an existing regular file without \<open>O_CREAT\<close> gives the caller the first
  free file number and the first free descriptor, at position 0 and on the inode
  the directory names; it keeps the reference counts and the inode cache right
  and touches no other file slot.
\<close>

theorem open_existing:
  assumes ok: "files_ok all_slots h s" "icache_ok s" and g: "root_good s r dev part sb start nr"
    and path: "get_pathname s (nat (source msg)) (m3p1 msg) (m3i2 msg) (AFO 51) = Inr path"
      "strip_path path = Some fn" "fn \<noteq> []"
    and n: "lookup part s start nr fn = int n" "valid_ino n"
    and reg: "\<forall>p. cached s dev (int n) p \<longrightarrow> i_mode (inode_table s p) = I_REGULAR"
      "(\<forall>p. \<not> cached s dev (int n) p) \<longrightarrow> i_mode (dinode part sb s n) = I_REGULAR"
    and flags: "m3i1 msg AND O_CREAT = 0" "m3i1 msg AND O_RDWR \<noteq> 0"
    and fd: "pc < NPROC" "fd < NR_FILES" "slot s (pc, fd) = None" "\<forall>i < fd. slot s (pc, i) \<noteq> None"
    and d: "d < NR_FILE_DESC" "fd_inode (f_desc_table s d) = None" "\<forall>i < d. fd_inode (f_desc_table s i) \<noteq> None"
    and room: "\<exists>i < NR_INODE. i_cnt (inode_table s i) = 0"
  shows "\<exists>p s'. do_open s pc msg = Inr (int fd, s') \<and> files_ok all_slots h s' \<and> icache_ok s' \<and>
    slot s' (pc, fd) = Some d \<and> (\<forall>x. x \<noteq> (pc, fd) \<longrightarrow> slot s' x = slot s x) \<and>
    f_desc_table s' d = \<lparr>fd_mode = m3i1 msg, fd_pos = 0, fd_cnt = 1, fd_inode = Some p\<rparr> \<and>
    cached s' dev (int n) p"
proof -
  have rk: "root_ok s r dev part start nr" and ge: "geom s dev part sb" using g by (simp_all add: root_good_def)
  obtain b where sf: "search_file s path = Inr (int n, s\<lparr>fsbuf := b\<rparr>)"
    using search_file_eq [OF rk path(2,3)] n(1) by auto
  let ?s1 = "s\<lparr>fsbuf := b\<rparr>"
  have ic1: "icache_ok ?s1" and ge1: "geom ?s1 dev part sb" and ok1: "files_ok all_slots h ?s1"
    using ok ge by (simp_all add: icache_ok_def files_ok_cong [of ?s1 s])
  have room1: "\<exists>i < NR_INODE. i_cnt (inode_table ?s1 i) = 0" using room by simp
  obtain p s2 where s2: "get_inode ?s1 dev (int n) = Inr (Some p, s2)" and ic2: "icache_ok s2"
    and p2: "cached s2 dev (int n) p"
    and oth: "\<And>q. q \<noteq> p \<Longrightarrow> inode_table s2 q = inode_table s q"
    and cnt: "i_cnt (inode_table s2 p) = i_cnt (inode_table s p) + 1"
    and same: "f_desc_table s2 = f_desc_table s" "fprocs s2 = fprocs s"
    and inode: "if \<exists>q. cached s dev (int n) q
     then cached s dev (int n) p \<and> inode_table s2 p = (inode_table s p)\<lparr>i_cnt := i_cnt (inode_table s p) + 1\<rparr>
     else inode_table s2 p = (dinode part sb s n)\<lparr>i_dev := dev, i_num := int n, i_cnt := 1\<rparr>"
    by (rule get_inode_total [OF ic1 ge1 n(2) room1]) (simp add: dinode_def cong: if_cong)
  have mode: "i_mode (inode_table s2 p) = I_REGULAR"
    using inode reg by (cases "\<exists>q. cached s dev (int n) q") auto
  have ok2: "files_ok all_slots (h(p := h p + 1)) s2"
    using oth cnt same by (intro files_ok_hold [OF ok(1)]) (auto simp: fo_pos [OF ok(1)])
  let ?s3 = "upd_fd d (\<lambda>_. \<lparr>fd_mode = m3i1 msg, fd_pos = 0, fd_cnt = 1, fd_inode = Some p\<rparr>) (set_filp pc fd (Some d) s2)"
  have ok3: "files_ok all_slots h ?s3"
  proof (rule files_ok_attach [OF ok2 fo_pos [OF ok(1)]])
    show "(pc, fd) \<in> all_slots" using fd by (simp add: all_slots_def)
    show "slot s2 (pc, fd) = None" using fd(3) by (simp add: slot_def same)
  qed (use d p2 same in auto)
  have att: "attach s2 pc fd d p (m3i1 msg) = Inr (int fd, ?s3)"
    using mode by (simp add: attach_def Let_def)
  have "find (\<lambda>i. filp (fprocs s pc) i = None) [0..<NR_FILES] = Some fd"
    using fd by (auto simp: find_upt slot_def)
  moreover have "find (\<lambda>i. fd_inode (f_desc_table s i) = None) [0..<NR_FILE_DESC] = Some d"
    using d by (auto simp: find_upt)
  moreover have "root_dir ?s1 = Inr r" "i_dev (inode_table s r) = dev"
    using rk by (simp_all add: root_dir_def root_ok_def)
  ultimately have "do_open s pc msg = Inr (int fd, ?s3)"
    using path sf flags s2 att by (simp add: do_open_def Let_def del: upt_Suc)
  moreover have "slot ?s3 x = (if x = (pc, fd) then Some d else slot s x)" for x
    by (cases x) (auto simp: slot_def upd_proc_apply same)
  moreover have "icache_ok ?s3" using ic2 by (simp add: icache_ok_def)
  ultimately show ?thesis using ok3 p2 by (intro exI [of _ p] exI [of _ ?s3]) simp
qed

theorem open_existing_witness:
  "\<exists>p s'. do_open (sample_fs\<lparr>umem := (\<lambda>_. 0)(0 := slash, 1 := 0x62)\<rparr>) INIT (sample_msg OPEN O_RDWR 2) =
     Inr (1, s') \<and> slot s' (INIT, 1) = Some 1 \<and> cached s' ROOT_DEV 7 p"
proof -
  let ?s = "sample_fs\<lparr>umem := (\<lambda>_. 0)(0 := slash, 1 := 0x62)\<rparr>" and ?m = "sample_msg OPEN O_RDWR 2"
  have flat: "flat_tasks (fprocs ?s)"
    using inv_flat [OF good_inv [OF sample_good]]
    by (auto simp: flat_tasks_def sample_fs_def upd_proc_apply ldt_seg_linear_def)
  have lin: "lin (fprocs ?s) INIT 0 = 0"
    using flat by (simp add: flat_tasks_def lin_def)
  have path: "get_pathname ?s (nat (source ?m)) (m3p1 ?m) (m3i2 ?m) (AFO 51) = Inr [slash, 0x62]"
    using lin va2la_lin [OF flat] by (simp add: get_pathname_def sample_msg_def upt_rec)
  have ok: "files_ok all_slots (\<lambda>n. if n = 0 then 1 else 0) ?s"
    using sample_files_ok by (simp add: files_ok_cong [of ?s sample_fs])
  have ic: "icache_ok ?s" using sample_icache by (simp add: icache_ok_def)
  have g: "root_good ?s 0 ROOT_DEV sample_part sample_sb 292 2"
    using sample_root_good by (simp add: root_good_def root_ok_def)
  have look: "lookup sample_part ?s 292 2 [0x62] = int 7"
    using sample_lookup by (simp add: lookup_def dir_name_def dir_ino_def cong: option.case_cong)
  have cch: "cached ?s ROOT_DEV (int 7) q \<longleftrightarrow> q = 1" for q
    by (auto simp: sample_fs_def sample_root_def sample_file_def zero_inode_def)
  have "i_cnt (inode_table ?s 2) = 0" by (simp add: zero_inode_def)
  then have room: "\<exists>i < NR_INODE. i_cnt (inode_table ?s i) = 0" by (intro exI [of _ 2]) simp
  have "\<exists>p s'. do_open ?s INIT ?m = Inr (int 1, s') \<and>
    files_ok all_slots (\<lambda>n. if n = 0 then 1 else 0) s' \<and> icache_ok s' \<and>
    slot s' (INIT, 1) = Some 1 \<and> (\<forall>x. x \<noteq> (INIT, 1) \<longrightarrow> slot s' x = slot ?s x) \<and>
    f_desc_table s' 1 = \<lparr>fd_mode = m3i1 ?m, fd_pos = 0, fd_cnt = 1, fd_inode = Some p\<rparr> \<and>
    cached s' ROOT_DEV (int 7) p"
  proof (rule open_existing [OF ok ic g path sample_strip(1) _ look])
    show "\<forall>p. cached ?s ROOT_DEV (int 7) p \<longrightarrow> i_mode (inode_table ?s p) = I_REGULAR"
      unfolding cch by (simp add: sample_file_def)
    show "(\<forall>p. \<not> cached ?s ROOT_DEV (int 7) p) \<longrightarrow> i_mode (dinode sample_part sample_sb ?s 7) = I_REGULAR"
      unfolding cch by simp
    show "\<exists>i < NR_INODE. i_cnt (inode_table ?s i) = 0" by (rule room)
  qed (auto simp: sample_msg_def slot_def sample_fs_def upd_proc_apply zero_fd_def)
  then show ?thesis by auto
qed

end
