(* ===== verification/FsFile.thy ===== *)
theory FsFile
  imports FsInode
begin

unbundle bit_operations_syntax

text \<open>
  The contents of a file as a function from positions to bytes, and what
  \<open>do_rdwt\<close> makes of it.  A request is one transfer of all the sectors it touches:
  with more than 256 of them the driver never answers, so the loop of \<open>do_rdwt\<close>
  runs once or not to its end.
\<close>

section \<open>The contents of a file\<close>

definition file_byte :: "part_info \<Rightarrow> fs_state \<Rightarrow> nat \<Rightarrow> nat \<Rightarrow> u8" where
  "file_byte part s start x = blk part s (start + x div SECTOR_SIZE) (x mod SECTOR_SIZE)"

text \<open>
  The inode in slot \<open>p\<close> is that of a regular file of \<open>sz\<close> bytes in the \<open>nr\<close>
  sectors from \<open>start\<close> on, which lie behind the inode array and can be addressed,
  with the sector after them.
\<close>

definition file_at ::
    "fs_state \<Rightarrow> nat \<Rightarrow> int \<Rightarrow> part_info \<Rightarrow> super_block \<Rightarrow> nat \<Rightarrow> nat \<Rightarrow> nat \<Rightarrow> nat \<Rightarrow> bool" where
  "file_at s p dev part sb n start sz nr \<longleftrightarrow>
     geom s dev part sb \<and> flat_tasks (fprocs s) \<and> valid_ino n \<and>
     i_mode (inode_table s p) = I_REGULAR \<and> i_dev (inode_table s p) = dev \<and> i_num (inode_table s p) = int n \<and>
     i_start_sect (inode_table s p) = word_of_nat start \<and> i_size (inode_table s p) = word_of_nat sz \<and>
     i_nr_sects (inode_table s p) = word_of_nat nr \<and> sz \<le> nr * SECTOR_SIZE \<and>
     2 + unat (nr_imap_sects sb) + unat (nr_smap_sects sb) + 256 \<le> start \<and>
     unat (base part) + start + nr + 1 \<le> 2 ^ 28 \<and> (start + nr + 1) * SECTOR_SIZE < 2 ^ 31"

text \<open>The sectors a transfer that ends at \<open>e\<close> touches, and the bytes that are transferred.\<close>

definition rw_end :: "int \<Rightarrow> nat \<Rightarrow> nat \<Rightarrow> nat \<Rightarrow> nat \<Rightarrow> nat" where
  "rw_end typ sz nr pos len = min (pos + len) (if typ = READ then sz else nr * SECTOR_SIZE)"

definition rw_span :: "nat \<Rightarrow> nat \<Rightarrow> nat" where
  "rw_span e pos = e div SECTOR_SIZE + 1 - pos div SECTOR_SIZE"

definition rw_len :: "nat \<Rightarrow> nat \<Rightarrow> nat \<Rightarrow> nat" where
  "rw_len c pos len = min len (c * SECTOR_SIZE - pos mod SECTOR_SIZE)"

lemma file_atD:
  assumes "file_at s p dev part sb n start sz nr"
  shows "geom s dev part sb" "flat_tasks (fprocs s)" "valid_ino n"
    "i_mode (inode_table s p) = I_REGULAR" "i_dev (inode_table s p) = dev" "i_num (inode_table s p) = int n"
    "i_start_sect (inode_table s p) = word_of_nat start" "i_size (inode_table s p) = word_of_nat sz"
    "i_nr_sects (inode_table s p) = word_of_nat nr" "sz \<le> nr * SECTOR_SIZE"
    "2 + unat (nr_imap_sects sb) + unat (nr_smap_sects sb) + 256 \<le> start"
    "unat (base part) + start + nr + 1 \<le> 2 ^ 28" "(start + nr + 1) * SECTOR_SIZE < 2 ^ 31"
  using assms by (simp_all add: file_at_def)

lemma iblock_below: "valid_ino n \<Longrightarrow> 2 + unat (nr_imap_sects sb) + unat (nr_smap_sects sb) + 256 \<le> start \<Longrightarrow> iblock sb n < start"
proof -
  assume n: "valid_ino n" and s: "2 + unat (nr_imap_sects sb) + unat (nr_smap_sects sb) + 256 \<le> start"
  from n have "(n - 1) div 16 < 256" by presburger
  with s show ?thesis by (simp add: iblock_def)
qed

section \<open>One transfer\<close>

text \<open>The buffer after a chunk of \<open>c\<close> sectors from \<open>b\<close> on is read into it.\<close>

definition chunk_buf :: "part_info \<Rightarrow> fs_state \<Rightarrow> nat \<Rightarrow> nat \<Rightarrow> (nat \<Rightarrow> u8)" where
  "chunk_buf part s b c = (\<lambda>i. if i < c * SECTOR_SIZE then blk part s (b + i div SECTOR_SIZE) (i mod SECTOR_SIZE) else fsbuf s i)"

definition chunk_put :: "part_info \<Rightarrow> nat \<Rightarrow> nat \<Rightarrow> (nat \<Rightarrow> u8) \<Rightarrow> hd_state \<Rightarrow> hd_state" where
  "chunk_put part b c f h = h\<lparr>sectors := (\<lambda>l. if unat (base part) + b \<le> l \<and> l < unat (base part) + b + c
     then blit (sectors h l) 0 (\<lambda>i. f ((l - (unat (base part) + b)) * SECTOR_SIZE + i)) SECTOR_SIZE
     else sectors h l)\<rparr>"

lemma rw_read:
  assumes "fs_dev s dev part" and "in_reach part b c" and "b * SECTOR_SIZE < 2 ^ 31"
  shows "rw_sector s DEV_READ dev (word_of_int (cint (int b * SECTOR_SIZE))) (int c * SECTOR_SIZE) =
    Inr (s\<lparr>fsbuf := chunk_buf part s b c\<rparr>)"
proof -
  have d: "dev_ok (drive s) (MINOR dev) part" using assms(1) by (simp add: fs_dev_def)
  show ?thesis
    unfolding rw_sector_eq [OF assms(1) disjI1 [OF refl]] pos_int [OF assms(3)] hd_read [OF d assms(2) refl]
    by (simp add: chunk_buf_def)
qed

lemma rw_write:
  assumes "fs_dev s dev part" and "in_reach part b c" and "b * SECTOR_SIZE < 2 ^ 31"
  shows "rw_sector s DEV_WRITE dev (word_of_int (cint (int b * SECTOR_SIZE))) (int c * SECTOR_SIZE) =
    Inr (s\<lparr>drive := chunk_put part b c (fsbuf s) (drive s)\<rparr>)"
proof -
  have d: "dev_ok (drive s) (MINOR dev) part" using assms(1) by (simp add: fs_dev_def)
  show ?thesis
    unfolding rw_sector_eq [OF assms(1) disjI2 [OF refl]] pos_int [OF assms(3)] hd_write [OF d assms(2) refl]
    by (simp add: chunk_put_def)
qed

lemma chunk_read:
  assumes "fs_dev s dev part" and "in_reach part b c" and "b * SECTOR_SIZE < 2 ^ 31" and "flat_tasks (fprocs s)"
  shows "rdwt_chunk READ src buf dev (int b) (int c) (int off) (int r) 0 s =
    Inr (s\<lparr>fsbuf := chunk_buf part s b c,
      umem := mem_write (umem s) (lin (fprocs s) src buf) (\<lambda>k. chunk_buf part s b c (off + k)) r\<rparr>)"
  using va2la_lin [OF assms(4)] by (simp add: rdwt_chunk_def rw_read [OF assms(1-3)])

lemma chunk_write:
  assumes "fs_dev s dev part" and "in_reach part b c" and "b * SECTOR_SIZE < 2 ^ 31" and "flat_tasks (fprocs s)"
    and "f = blit (chunk_buf part s b c) off (\<lambda>k. umem s (lin (fprocs s) src buf + of_nat k)) r"
  shows "rdwt_chunk WRITE src buf dev (int b) (int c) (int off) (int r) 0 s =
    Inr (s\<lparr>fsbuf := f, drive := chunk_put part b c f (drive s)\<rparr>)"
proof -
  have "fs_dev (s\<lparr>fsbuf := f\<rparr>) dev part" using assms(1) by simp
  from rw_write [OF this assms(2,3)] show ?thesis
    using va2la_lin [OF assms(4)] by (simp add: rdwt_chunk_def rw_read [OF assms(1-3)] assms(5))
qed

lemma rdwt_loop_once:
  assumes "0 < c"
  shows "rdwt_loop typ src buf d dev i (i + int c - 1) (int c) off 0 left s =
    (case rdwt_chunk typ src buf dev i (int c) off (cmin left (int c * SECTOR_SIZE - off)) 0 s of Inl e \<Rightarrow> Inl e
     | Inr s1 \<Rightarrow> Inr (cmin left (int c * SECTOR_SIZE - off),
        upd_fd d (\<lambda>f. f\<lparr>fd_pos := fd_pos f + cmin left (int c * SECTOR_SIZE - off)\<rparr>) s1))"
  using assms by (subst rdwt_loop.simps) (simp add: Let_def rdwt_loop.simps [of _ _ _ _ _ "i + int c"] split: sum.split)

section \<open>The file branch of \<open>do_rdwt\<close>\<close>

text \<open>The sector numbers of the request.\<close>

lemma sect_eq:
  assumes "start + x div SECTOR_SIZE < 2 ^ 31" and "v = word_of_nat start"
  shows "sint (v + word_of_int (drop_bit SECTOR_SIZE_SHIFT (int x)) :: u32) = int (start + x div SECTOR_SIZE)"
proof -
  have "word_of_int (drop_bit SECTOR_SIZE_SHIFT (int x)) = (word_of_nat (x div 512) :: u32)"
    using of_int_of_nat_eq [of "x div 512", where ?'a = "32 word"] by (simp add: drop_bit_eq_div zdiv_int)
  then show ?thesis using sint_word_of_nat [OF assms(1)] by (simp add: assms(2))
qed

lemma rdwt_end_eq:
  assumes f: "file_at s p dev part sb n start sz nr" and l: "pos + len < 2 ^ 31"
  shows "rdwt_end typ (inode_table s p) (int pos) (int len) = int (rw_end typ sz nr pos len)"
proof -
  note x = file_atD [OF f]
  define lim where "lim = (if typ = READ then sz else nr * 512)"
  have n: "lim < 2 ^ 31" using x(10,13) by (auto simp: lim_def)
  have eq: "(if typ = READ then i_size (inode_table s p) else i_nr_sects (inode_table s p) * 512) = word_of_nat lim"
    by (simp add: x lim_def)
  have less: "(word_of_nat (pos + len) :: u32) < word_of_nat lim \<longleftrightarrow> pos + len < lim"
    using l n by (simp add: word_less_nat_alt unat_of_nat del: of_nat_add)
  have "rdwt_end typ (inode_table s p) (int pos) (int len) =
      sint (word_of_nat (if pos + len < lim then pos + len else lim) :: u32)"
    unfolding rdwt_end_def eq of_nat_add [symmetric] of_int_of_nat_eq less by (simp del: of_nat_add)
  also have "\<dots> = int (rw_end typ sz nr pos len)"
    using l n by (subst sint_word_of_nat) (auto simp: rw_end_def min_def lim_def)
  finally show ?thesis .
qed

lemma rw_end_bounds:
  assumes "pos \<le> (if typ = READ then sz else nr * SECTOR_SIZE)" and "sz \<le> nr * SECTOR_SIZE"
  shows "pos \<le> rw_end typ sz nr pos len" and "rw_end typ sz nr pos len div SECTOR_SIZE \<le> nr"
    and "0 < rw_span (rw_end typ sz nr pos len) pos"
    and "pos div SECTOR_SIZE + rw_span (rw_end typ sz nr pos len) pos = rw_end typ sz nr pos len div SECTOR_SIZE + 1"
proof -
  let ?e = "rw_end typ sz nr pos len"
  show le: "pos \<le> ?e" using assms(1) by (simp add: rw_end_def)
  have "?e \<le> nr * 512" using assms by (auto simp: rw_end_def split: if_splits)
  then show "?e div 512 \<le> nr" by (simp add: less_eq_div_iff_mult_less_eq [symmetric] div_le_mono [of ?e "nr * 512" 512, simplified])
  have "pos div 512 \<le> ?e div 512" by (rule div_le_mono [OF le])
  then show "0 < rw_span ?e pos" "pos div 512 + rw_span ?e pos = ?e div 512 + 1" by (simp_all add: rw_span_def)
qed

lemma rdwt_file_eq:
  assumes f: "file_at s p dev part sb n start sz nr" and t: "typ = READ \<or> typ = WRITE"
    and pos: "fd_pos (f_desc_table s d) = int pos" "pos \<le> (if typ = READ then sz else nr * SECTOR_SIZE)" "pos + len < 2 ^ 31"
    and c: "c = rw_span (rw_end typ sz nr pos len) pos" "c \<le> 256" and r: "r = rw_len c pos len"
  shows "rdwt_file typ src buf (int len) d p s =
    (case rdwt_chunk typ src buf dev (int (start + pos div SECTOR_SIZE)) (int c) (int (pos mod SECTOR_SIZE)) (int r) 0 s of
       Inl e \<Rightarrow> Inl e
     | Inr s1 \<Rightarrow> (case rdwt_grow d p (upd_fd d (\<lambda>f. f\<lparr>fd_pos := fd_pos f + int r\<rparr>) s1) of
         Inl e \<Rightarrow> Inl e | Inr s2 \<Rightarrow> Inr (int r, s2)))"
proof -
  note x = file_atD [OF f] and b = rw_end_bounds [OF pos(2) x(10), of len]
  let ?e = "rw_end typ sz nr pos len"
  have small: "start + nr < 2 ^ 31" using x(13) by simp
  have pd: "pos div 512 \<le> nr" using b(2-4) by linarith
  have lo: "sint (i_start_sect (inode_table s p) + word_of_int (drop_bit 9 (int pos))) = int (start + pos div 512)"
    using small pd by (intro sect_eq [OF _ x(7)]) simp
  have hi: "sint (i_start_sect (inode_table s p) + word_of_int (drop_bit 9 (int ?e))) = int (start + pos div 512) + int c - 1"
    using small b(2,4) by (subst sect_eq [OF _ x(7)]) (simp_all add: c)
  have cm: "cmin (int (start + pos div 512) + int c - 1 - int (start + pos div 512) + 1) (0x40000 div 512) = int c"
    using c(2) by simp
  have bt: "cmin (int len) (int c * 512 - int (pos mod 512)) = int r"
  proof -
    have "pos mod 512 \<le> c * 512" using b(3) by (simp add: c)
    then have "int c * 512 - int (pos mod 512) = int (c * 512 - pos mod 512)" by (simp add: of_nat_diff)
    moreover have "cmin (int a) (int b) = int (min a b)" for a b :: nat by (auto simp: min_def)
    ultimately show ?thesis by (simp only: r rw_len_def)
  qed
  have cpos: "0 < c" using b(3) by (simp add: c)
  have o512: "int pos smod 512 = int (pos mod 512)" by (simp add: zmod_int)
  show ?thesis
    unfolding rdwt_file_def Let_def pos(1) rdwt_end_eq [OF f pos(3)] lo hi cm o512 x(5) rdwt_loop_once [OF cpos] bt
    using t by (simp add: x(4) split: sum.split)
qed

section \<open>Bytes after a transfer\<close>

lemma pos_split:
  fixes pos k m :: nat
  assumes "0 < m"
  shows "pos div m + (pos mod m + k) div m = (pos + k) div m" and "(pos mod m + k) mod m = (pos + k) mod m"
proof -
  have "(pos div m * m + (pos mod m + k)) div m = pos div m + (pos mod m + k) div m"
    using assms by (intro div_mult_self3) simp
  then show "pos div m + (pos mod m + k) div m = (pos + k) div m"
    unfolding add.assoc [symmetric] div_mult_mod_eq by (rule sym)
qed (rule mod_add_left_eq)

lemma shift_iff:
  fixes x :: nat
  assumes "a + i = x" and "a + m = pos"
  shows "(m \<le> i \<and> i < m + r) = (pos \<le> x \<and> x < pos + r)" and "i - m = x - pos"
  using assms by auto

lemma chunk_file_byte:
  assumes "pos mod SECTOR_SIZE + k < c * SECTOR_SIZE"
  shows "chunk_buf part s (start + pos div SECTOR_SIZE) c (pos mod SECTOR_SIZE + k) = file_byte part s start (pos + k)"
proof -
  have e: "start + pos div 512 + (pos mod 512 + k) div 512 = start + (pos + k) div 512"
    using pos_split(1) [of 512 pos k] by linarith
  have m: "(pos mod 512 + k) mod 512 = (pos + k) mod 512" by (rule mod_add_left_eq)
  show ?thesis by (simp only: chunk_buf_def file_byte_def e m assms if_True)
qed

text \<open>Writing a chunk back changes the bytes that were changed in the buffer, and no others.\<close>

lemma blk_chunk_put:
  "i < SECTOR_SIZE \<Longrightarrow> part_block part (chunk_put part b c f h) n i =
    (if b \<le> n \<and> n < b + c then f ((n - b) * SECTOR_SIZE + i) else part_block part h n i)"
  by (auto simp: part_block_def chunk_put_def blit_def)

lemma blk_chunk_other: "n < b \<or> b + c \<le> n \<Longrightarrow> part_block part (chunk_put part b c f h) n = part_block part h n"
  by (auto simp: part_block_def chunk_put_def fun_eq_iff)

lemma file_byte_write:
  assumes s': "drive s' = chunk_put part b c (blit (chunk_buf part s b c) (pos mod SECTOR_SIZE) g r) (drive s)"
    and b: "b = start + pos div SECTOR_SIZE" and r: "pos mod SECTOR_SIZE + r \<le> c * SECTOR_SIZE"
  shows "file_byte part s' start x = (if pos \<le> x \<and> x < pos + r then g (x - pos) else file_byte part s start x)"
proof (cases "pos div 512 \<le> x div 512 \<and> x div 512 < pos div 512 + c")
  case True
  then obtain q where q: "x div 512 = pos div 512 + q" "q < c" by (metis le_Suc_ex nat_add_left_cancel_less)
  let ?i = "q * 512 + x mod 512"
  have i: "pos div 512 * 512 + ?i = x"
    using div_mult_mod_eq [of x 512] by (simp only: q(1) add_mult_distrib add.assoc)
  have "Suc q * 512 \<le> c * 512" using q(2) by (intro mult_le_mono1) simp
  moreover have "x mod 512 < 512" by simp
  ultimately have iv: "?i < c * 512" unfolding mult_Suc by linarith
  note sh = shift_iff [OF i div_mult_mod_eq]
  have d: "?i div 512 = q" "?i mod 512 = x mod 512" by simp_all
  have e: "start + pos div 512 + q = start + x div 512" by (simp add: q(1))
  have old: "chunk_buf part s b c ?i = file_byte part s start x"
    by (simp only: chunk_buf_def file_byte_def b d e iv if_True)
  have "file_byte part s' start x = blit (chunk_buf part s b c) (pos mod 512) g r ?i"
    using q by (simp add: file_byte_def s' blk_chunk_put b)
  also have "\<dots> = (if pos \<le> x \<and> x < pos + r then g (x - pos) else file_byte part s start x)"
    unfolding blit_def sh old ..
  finally show ?thesis .
next
  case False
  then have out: "\<not> (pos \<le> x \<and> x < pos + r)"
  proof (rule contrapos_nn)
    assume x: "pos \<le> x \<and> x < pos + r"
    have "x < (pos div 512 + c) * 512"
      using x r div_mult_mod_eq [of pos 512] unfolding add_mult_distrib by linarith
    then show "pos div 512 \<le> x div 512 \<and> x div 512 < pos div 512 + c"
      using x by (simp add: div_le_mono less_mult_imp_div_less)
  qed
  have "start + x div 512 < b \<or> b + c \<le> start + x div 512" using False b by linarith
  from blk_chunk_other [OF this] have "file_byte part s' start x = file_byte part s start x" by (simp add: file_byte_def s')
  with out show ?thesis by presburger
qed

section \<open>Reading and writing a file\<close>

text \<open>
  Descriptor \<open>d\<close> in slot \<open>fd\<close> of the caller is open for reading and writing at
  \<open>pos\<close>, on the inode in slot \<open>p\<close>.
\<close>

definition opened :: "fs_state \<Rightarrow> nat \<Rightarrow> nat \<Rightarrow> nat \<Rightarrow> nat \<Rightarrow> nat \<Rightarrow> bool" where
  "opened s pc fd d p pos \<longleftrightarrow> fd < NR_FILES \<and> filp (fprocs s pc) fd = Some d \<and>
     fd_mode (f_desc_table s d) AND O_RDWR \<noteq> 0 \<and> fd_inode (f_desc_table s d) = Some p \<and>
     fd_pos (f_desc_table s d) = int pos"

lemma do_rdwt_file:
  assumes "opened s pc fd d p pos" and "m3i1 msg = int fd" and "i_mode (inode_table s p) = I_REGULAR"
  shows "do_rdwt tty s pc msg =
    (case rdwt_file (msgtype msg) (nat (source msg)) (m3p2 msg) (m3i2 msg) d p s of
       Inl e \<Rightarrow> Inl e | Inr (r, s1) \<Rightarrow> Inr ((msgtype msg, r), s1))"
  using assms by (simp add: do_rdwt_def opened_def filp_of_def Let_def)

lemma word_size_less:
  "a < 2 ^ 31 \<Longrightarrow> b < 2 ^ 31 \<Longrightarrow> ((word_of_nat a :: u32) < word_of_nat b) = (a < b)"
  by (simp add: word_less_nat_alt unat_of_nat)

lemma transfer_reach:
  assumes f: "file_at s p dev part sb n start sz nr"
    and pos: "pos \<le> (if typ = READ then sz else nr * SECTOR_SIZE)"
    and c: "c = rw_span (rw_end typ sz nr pos len) pos" "c \<le> 256"
  shows "in_reach part (start + pos div SECTOR_SIZE) c" and "(start + pos div SECTOR_SIZE) * SECTOR_SIZE < 2 ^ 31"
    and "pos mod SECTOR_SIZE + rw_len c pos len' \<le> c * SECTOR_SIZE"
proof -
  note x = file_atD [OF f]
  note b = rw_end_bounds [OF pos x(10), of len, folded c(1)]
  have pd: "pos div 512 + c \<le> nr + 1" using b(2,4) by simp
  show "in_reach part (start + pos div 512) c" "(start + pos div 512) * 512 < 2 ^ 31"
    using pd x(12,13) b(3) c(2) by (simp_all add: in_reach_def)
  have "pos mod 512 \<le> c * 512" using b(3) by simp
  then show "pos mod 512 + rw_len c pos len' \<le> c * 512" by (simp add: rw_len_def)
qed

lemma rdwt_grow_eq:
  assumes f: "file_at t p dev part sb n start sz nr" and q: "q < 2 ^ 31" and fd: "fd_pos (f_desc_table t d) = int q"
  obtains t' where "rdwt_grow d p t = Inr t'"
    and "inode_table t' = (inode_table t)(p := (inode_table t p)\<lparr>i_size := word_of_nat (max sz q)\<rparr>)"
    and "f_desc_table t' = f_desc_table t" "fprocs t' = fprocs t" "umem t' = umem t" "super_blocks t' = super_blocks t"
    and "\<And>b. b \<noteq> iblock sb n \<Longrightarrow> blk part t' b = blk part t b" and "geom t' dev part sb"
proof (cases "sz < q")
  case True
  note x = file_atD [OF f]
  let ?t = "upd_inode p (\<lambda>m. m\<lparr>i_size := word_of_nat q\<rparr>) t"
  have "geom ?t dev part sb" "i_dev (inode_table ?t p) = dev" "i_num (inode_table ?t p) = int n"
    using x(1,5,6) by simp_all
  from sync_inode_eq [OF this x(3)] obtain t' where t': "sync_inode ?t p = Inr t'"
    and eq: "t' = write_blk part (iblock sb n) (?t\<lparr>fsbuf := store_inode (inode_table ?t p) (ioffset n) (fsbuf (read_blk part (iblock sb n) ?t))\<rparr>)"
    and old: "\<And>b. b \<noteq> iblock sb n \<Longrightarrow> blk part t' b = blk part ?t b" by metis
  have "sz < 2 ^ 31" using x(10,13) by simp
  then have "rdwt_grow d p t = Inr t'" using True t' q by (simp add: rdwt_grow_def fd x(8) word_size_less)
  moreover have "inode_table t' = (inode_table t)(p := (inode_table t p)\<lparr>i_size := word_of_nat (max sz q)\<rparr>)"
    using True by (simp add: eq max_def)
  moreover have "f_desc_table t' = f_desc_table t" "fprocs t' = fprocs t" "umem t' = umem t"
    "super_blocks t' = super_blocks t" by (simp_all add: eq)
  moreover have "blk part t' b = blk part t b" if "b \<noteq> iblock sb n" for b using old [OF that] by simp
  moreover have "geom t' dev part sb" using x(1) by (simp add: eq)
  ultimately show thesis by (rule that)
next
  case False
  note x = file_atD [OF f]
  have "sz < 2 ^ 31" using x(10,13) by simp
  moreover have "(inode_table t)(p := (inode_table t p)\<lparr>i_size := word_of_nat (max sz q)\<rparr>) = inode_table t"
    using False x(8) by (simp add: max_def fun_eq_iff)
  ultimately show thesis using False x(1,8) q by (intro that [of t]) (simp_all add: rdwt_grow_def fd word_size_less)
qed

text \<open>A read: \<open>rw_len\<close> bytes of the file arrive in the caller's buffer, within its size or not.\<close>

lemma do_read_eq:
  assumes f: "file_at s p dev part sb n start sz nr" and opn: "opened s pc fd d p pos"
    and m: "msgtype msg = READ" "m3i1 msg = int fd" "m3i2 msg = int len" "nat (source msg) = pc"
    and pos: "pos \<le> sz" "pos + len < 2 ^ 31"
    and c: "c = rw_span (rw_end READ sz nr pos len) pos" "c \<le> 256" and r: "r = rw_len c pos len"
  obtains s' where "do_rdwt tty s pc msg = Inr ((READ, int r), s')"
    and "umem s' = mem_write (umem s) (lin (fprocs s) pc (m3p2 msg)) (\<lambda>k. chunk_buf part s (start + pos div SECTOR_SIZE) c (pos mod SECTOR_SIZE + k)) r"
    and "inode_table s' = (inode_table s)(p := (inode_table s p)\<lparr>i_size := word_of_nat (max sz (pos + r))\<rparr>)"
    and "f_desc_table s' = (f_desc_table s)(d := (f_desc_table s d)\<lparr>fd_pos := int (pos + r)\<rparr>)"
    and "fprocs s' = fprocs s" "super_blocks s' = super_blocks s"
    and "\<And>b. b \<noteq> iblock sb n \<Longrightarrow> blk part s' b = blk part s b" and "geom s' dev part sb"
proof -
  note x = file_atD [OF f]
  have lim: "pos \<le> (if READ = READ then sz else nr * SECTOR_SIZE)" using pos(1) by simp
  note reach = transfer_reach [OF f lim c]
  let ?la = "lin (fprocs s) pc (m3p2 msg)" and ?B = "chunk_buf part s (start + pos div 512) c"
  let ?s1 = "s\<lparr>fsbuf := ?B, umem := mem_write (umem s) ?la (\<lambda>k. ?B (pos mod 512 + k)) r\<rparr>"
  let ?s2 = "upd_fd d (\<lambda>f. f\<lparr>fd_pos := fd_pos f + int r\<rparr>) ?s1"
  have fdp: "fd_pos (f_desc_table s d) = int pos" using opn by (simp add: opened_def)
  have f2: "file_at ?s2 p dev part sb n start sz nr" using x by (simp add: file_at_def)
  have q: "pos + r < 2 ^ 31" using pos(2) by (simp add: r rw_len_def)
  have fd2: "fd_pos (f_desc_table ?s2 d) = int (pos + r)" using fdp by simp
  from rdwt_grow_eq [OF f2 q fd2] obtain s' where g: "rdwt_grow d p ?s2 = Inr s'"
    and s': "inode_table s' = (inode_table ?s2)(p := (inode_table ?s2 p)\<lparr>i_size := word_of_nat (max sz (pos + r))\<rparr>)"
      "f_desc_table s' = f_desc_table ?s2" "fprocs s' = fprocs ?s2" "umem s' = umem ?s2" "super_blocks s' = super_blocks ?s2"
      "\<And>b. b \<noteq> iblock sb n \<Longrightarrow> blk part s' b = blk part ?s2 b" "geom s' dev part sb" by blast
  have "rdwt_file READ pc (m3p2 msg) (int len) d p s = Inr (int r, s')"
    unfolding rdwt_file_eq [OF f disjI1 [OF refl] fdp lim pos(2) c r] chunk_read [OF geom_dev [OF x(1)] reach(1,2) x(2)]
    by (simp only: sum.case g)
  then have "do_rdwt tty s pc msg = Inr ((READ, int r), s')"
    using do_rdwt_file [OF opn m(2) x(4), of tty] by (simp add: m)
  then show thesis using s' fdp by (intro that [of s']) simp_all
qed

text \<open>A write: the bytes of the caller replace those of the file from the position on.\<close>

lemma do_write_eq:
  assumes f: "file_at s p dev part sb n start sz nr" and opn: "opened s pc fd d p pos"
    and m: "msgtype msg = WRITE" "m3i1 msg = int fd" "m3i2 msg = int len" "nat (source msg) = pc"
    and pos: "pos \<le> nr * SECTOR_SIZE" "pos + len < 2 ^ 31"
    and c: "c = rw_span (rw_end WRITE sz nr pos len) pos" "c \<le> 256" and r: "r = rw_len c pos len"
  obtains s' where "do_rdwt tty s pc msg = Inr ((WRITE, int r), s')"
    and "\<And>x. file_byte part s' start x =
      (if pos \<le> x \<and> x < pos + r then umem s (lin (fprocs s) pc (m3p2 msg) + of_nat (x - pos)) else file_byte part s start x)"
    and "inode_table s' = (inode_table s)(p := (inode_table s p)\<lparr>i_size := word_of_nat (max sz (pos + r))\<rparr>)"
    and "f_desc_table s' = (f_desc_table s)(d := (f_desc_table s d)\<lparr>fd_pos := int (pos + r)\<rparr>)"
    and "fprocs s' = fprocs s" "umem s' = umem s" "super_blocks s' = super_blocks s"
    and "\<And>b. b \<noteq> iblock sb n \<Longrightarrow> b < start + pos div SECTOR_SIZE \<or> start + pos div SECTOR_SIZE + c \<le> b \<Longrightarrow> blk part s' b = blk part s b"
    and "geom s' dev part sb"
proof -
  note x = file_atD [OF f]
  have lim: "pos \<le> (if WRITE = READ then sz else nr * SECTOR_SIZE)" using pos(1) by simp
  note reach = transfer_reach [OF f lim c]
  let ?la = "lin (fprocs s) pc (m3p2 msg)" and ?b = "start + pos div 512"
  define f where "f = blit (chunk_buf part s ?b c) (pos mod 512) (\<lambda>k. umem s (?la + of_nat k)) r"
  let ?s1 = "s\<lparr>fsbuf := f, drive := chunk_put part ?b c f (drive s)\<rparr>"
  let ?s2 = "upd_fd d (\<lambda>f. f\<lparr>fd_pos := fd_pos f + int r\<rparr>) ?s1"
  have fdp: "fd_pos (f_desc_table s d) = int pos" using opn by (simp add: opened_def)
  have g2: "geom ?s2 dev part sb"
  proof -
    have "fs_dev ?s2 dev part = fs_dev s dev part" by (rule fs_dev_cong) (simp_all add: chunk_put_def)
    from geom_cong [OF this] x(1) show ?thesis by simp
  qed
  have f2: "file_at ?s2 p dev part sb n start sz nr" using x g2 by (simp add: file_at_def)
  have q: "pos + r < 2 ^ 31" using pos(2) by (simp add: r rw_len_def)
  have fd2: "fd_pos (f_desc_table ?s2 d) = int (pos + r)" using fdp by simp
  from rdwt_grow_eq [OF f2 q fd2] obtain s' where g: "rdwt_grow d p ?s2 = Inr s'"
    and s': "inode_table s' = (inode_table ?s2)(p := (inode_table ?s2 p)\<lparr>i_size := word_of_nat (max sz (pos + r))\<rparr>)"
      "f_desc_table s' = f_desc_table ?s2" "fprocs s' = fprocs ?s2" "umem s' = umem ?s2" "super_blocks s' = super_blocks ?s2"
    and old: "\<And>b. b \<noteq> iblock sb n \<Longrightarrow> blk part s' b = blk part ?s2 b" and g': "geom s' dev part sb" by blast
  have "rdwt_file WRITE pc (m3p2 msg) (int len) d p s = Inr (int r, s')"
    unfolding rdwt_file_eq [OF f disjI2 [OF refl] fdp lim pos(2) c r] chunk_write [OF geom_dev [OF x(1)] reach(1,2) x(2) f_def]
    by (simp only: sum.case g)
  then have rw: "do_rdwt tty s pc msg = Inr ((WRITE, int r), s')"
    using do_rdwt_file [OF opn m(2) x(4), of tty] by (simp add: m)
  have ib: "iblock sb n < start" by (rule iblock_below [OF x(3,11)])
  have bytes: "file_byte part s' start y =
      (if pos \<le> y \<and> y < pos + r then umem s (?la + of_nat (y - pos)) else file_byte part s start y)" for y
  proof -
    have "file_byte part s' start y = file_byte part ?s2 start y"
      using old [of "start + y div 512"] ib by (simp add: file_byte_def)
    also have "\<dots> = (if pos \<le> y \<and> y < pos + r then umem s (?la + of_nat (y - pos)) else file_byte part s start y)"
      by (rule file_byte_write [OF _ refl reach(3) [of len, folded r]]) (simp add: f_def)
    finally show ?thesis .
  qed
  have frame: "blk part s' k = blk part s k" if "k \<noteq> iblock sb n" "k < ?b \<or> ?b + c \<le> k" for k
    using old [OF that(1)] blk_chunk_other [OF that(2)] by simp
  show thesis using s' fdp by (intro that [OF rw bytes _ _ _ _ _ frame g']) simp_all
qed

section \<open>Lengths\<close>

lemma span_arith:
  fixes pos e :: nat
  assumes "A * n + a = e" and "B * n + b = pos" and "B \<le> A"
  shows "(A + 1 - B) * n - b = (A + 1) * n - pos" and "a < n \<Longrightarrow> e < (A + 1) * n"
  using assms by (auto simp: diff_mult_distrib)

lemma rw_span_bytes:
  assumes "pos \<le> e"
  shows "rw_span e pos * SECTOR_SIZE - pos mod SECTOR_SIZE = (e div SECTOR_SIZE + 1) * SECTOR_SIZE - pos"
    and "e < (e div SECTOR_SIZE + 1) * SECTOR_SIZE"
  using span_arith [OF div_mult_mod_eq div_mult_mod_eq div_le_mono [OF assms], of 512] by (simp_all add: rw_span_def)

lemma rw_len_full: "rw_len (rw_span (pos + len) pos) pos len = len"
  using rw_span_bytes [of pos "pos + len"] by (simp add: rw_len_def)

text \<open>A request that goes beyond the limit \<open>e\<close> is carried on to the end of the sector of \<open>e\<close>.\<close>

lemma rw_len_over:
  assumes "pos \<le> e" "e < pos + len"
  shows "rw_len (rw_span e pos) pos len = min len ((e div SECTOR_SIZE + 1) * SECTOR_SIZE - pos)"
    and "e < pos + rw_len (rw_span e pos) pos len"
proof -
  show 1: "rw_len (rw_span e pos) pos len = min len ((e div 512 + 1) * 512 - pos)"
    by (simp only: rw_len_def rw_span_bytes [OF assms(1)])
  show "e < pos + rw_len (rw_span e pos) pos len"
    unfolding 1 using rw_span_bytes(2) [OF assms(1)] assms by (simp add: min_def)
qed

lemma mem_write_at: "k < n \<Longrightarrow> n \<le> 2 ^ 32 \<Longrightarrow> mem_write m a f n (a + of_nat k) = f k"
  by (simp add: mem_write_def unat_of_nat)

section \<open>Requests inside a file\<close>

lemma do_read_inside:
  assumes f: "file_at s p dev part sb n start sz nr" and opn: "opened s pc fd d p pos"
    and m: "msgtype msg = READ" "m3i1 msg = int fd" "m3i2 msg = int len" "nat (source msg) = pc"
    and fit: "pos + len \<le> sz" "(pos + len) div SECTOR_SIZE - pos div SECTOR_SIZE < 256"
  obtains s' where "do_rdwt tty s pc msg = Inr ((READ, int len), s')"
    and "\<And>k. k < len \<Longrightarrow> umem s' (lin (fprocs s) pc (m3p2 msg) + of_nat k) = file_byte part s start (pos + k)"
    and "file_byte part s' start = file_byte part s start"
    and "file_at s' p dev part sb n start sz nr" and "opened s' pc fd d p (pos + len)" and "fprocs s' = fprocs s"
proof -
  note x = file_atD [OF f]
  define c where "c = rw_span (pos + len) pos"
  have c: "c = rw_span (rw_end READ sz nr pos len) pos" "c \<le> 256"
    using fit by (simp_all add: c_def rw_end_def rw_span_def)
  have r: "len = rw_len c pos len" by (simp add: c_def rw_len_full)
  have pos: "pos \<le> sz" "pos + len < 2 ^ 31" using fit(1) x(10,13) by simp_all
  obtain s' where s': "do_rdwt tty s pc msg = Inr ((READ, int len), s')"
    "umem s' = mem_write (umem s) (lin (fprocs s) pc (m3p2 msg))
      (\<lambda>k. chunk_buf part s (start + pos div SECTOR_SIZE) c (pos mod SECTOR_SIZE + k)) len"
    "inode_table s' = (inode_table s)(p := (inode_table s p)\<lparr>i_size := word_of_nat (max sz (pos + len))\<rparr>)"
    "f_desc_table s' = (f_desc_table s)(d := (f_desc_table s d)\<lparr>fd_pos := int (pos + len)\<rparr>)"
    "fprocs s' = fprocs s" "\<And>b. b \<noteq> iblock sb n \<Longrightarrow> blk part s' b = blk part s b" "geom s' dev part sb"
    by (rule do_read_eq [OF f opn m pos c r]) blast
  have lim: "pos \<le> (if READ = READ then sz else nr * SECTOR_SIZE)" using pos(1) by simp
  have "umem s' (lin (fprocs s) pc (m3p2 msg) + of_nat k) = file_byte part s start (pos + k)" if k: "k < len" for k
  proof -
    have "len \<le> 2 ^ 32" using pos(2) by simp
    then have "umem s' (lin (fprocs s) pc (m3p2 msg) + of_nat k) =
        chunk_buf part s (start + pos div SECTOR_SIZE) c (pos mod SECTOR_SIZE + k)"
      unfolding s'(2) by (rule mem_write_at [OF k])
    also have "\<dots> = file_byte part s start (pos + k)"
      using transfer_reach(3) [OF f lim c, of len] r k by (intro chunk_file_byte) simp
    finally show ?thesis .
  qed
  moreover have "file_byte part s' start = file_byte part s start"
    using s'(6) iblock_below [OF x(3,11)] by (simp add: file_byte_def fun_eq_iff)
  moreover have "max sz (pos + len) = sz" using fit(1) by simp
  then have "file_at s' p dev part sb n start sz nr" using x s' by (simp add: file_at_def)
  moreover have "opened s' pc fd d p (pos + len)" using opn by (simp add: opened_def s')
  ultimately show thesis using s'(1,5) by (intro that)
qed

lemma do_write_inside:
  assumes f: "file_at s p dev part sb n start sz nr" and opn: "opened s pc fd d p pos"
    and m: "msgtype msg = WRITE" "m3i1 msg = int fd" "m3i2 msg = int len" "nat (source msg) = pc"
    and fit: "pos + len \<le> nr * SECTOR_SIZE" "(pos + len) div SECTOR_SIZE - pos div SECTOR_SIZE < 256"
  obtains s' where "do_rdwt tty s pc msg = Inr ((WRITE, int len), s')"
    and "\<And>x. file_byte part s' start x = (if pos \<le> x \<and> x < pos + len
      then umem s (lin (fprocs s) pc (m3p2 msg) + of_nat (x - pos)) else file_byte part s start x)"
    and "file_at s' p dev part sb n start (max sz (pos + len)) nr" and "opened s' pc fd d p (pos + len)"
    and "fprocs s' = fprocs s" and "\<And>e. e \<noteq> d \<Longrightarrow> f_desc_table s' e = f_desc_table s e"
proof -
  note x = file_atD [OF f]
  define c where "c = rw_span (pos + len) pos"
  have c: "c = rw_span (rw_end WRITE sz nr pos len) pos" "c \<le> 256"
    using fit by (simp_all add: c_def rw_end_def rw_span_def)
  have r: "len = rw_len c pos len" by (simp add: c_def rw_len_full)
  have pos: "pos \<le> nr * SECTOR_SIZE" "pos + len < 2 ^ 31" using fit(1) x(13) by simp_all
  obtain s' where s': "do_rdwt tty s pc msg = Inr ((WRITE, int len), s')"
    "\<And>x. file_byte part s' start x = (if pos \<le> x \<and> x < pos + len
      then umem s (lin (fprocs s) pc (m3p2 msg) + of_nat (x - pos)) else file_byte part s start x)"
    "inode_table s' = (inode_table s)(p := (inode_table s p)\<lparr>i_size := word_of_nat (max sz (pos + len))\<rparr>)"
    "f_desc_table s' = (f_desc_table s)(d := (f_desc_table s d)\<lparr>fd_pos := int (pos + len)\<rparr>)"
    "fprocs s' = fprocs s" "geom s' dev part sb"
    by (rule do_write_eq [OF f opn m pos c r]) blast
  have "file_at s' p dev part sb n start (max sz (pos + len)) nr" using x fit(1) s' by (simp add: file_at_def)
  moreover have "opened s' pc fd d p (pos + len)" using opn by (simp add: opened_def s')
  moreover have "f_desc_table s' e = f_desc_table s e" if "e \<noteq> d" for e using that by (simp add: s'(4))
  ultimately show thesis using s'(1,2,5) by (intro that)
qed

end
