(* ===== verification/FsFileProps.thy ===== *)
theory FsFileProps
  imports FsFile FsProps
begin

unbundle bit_operations_syntax

text \<open>
  The properties of reading and writing files: what is written is read back, and
  what happens at the end of a file and of the sectors allocated to it.
\<close>

section \<open>Round trip\<close>

lemma do_lseek_set:
  assumes "opened s pc fd d p q" and "m3i1 msg = int fd" and "m3i2 msg = int pos" and "m3i3 msg = SEEK_SET"
    and "i_size (inode_table s p) = word_of_nat sz" and "pos \<le> sz" and "sz < 2 ^ 31"
  shows "do_lseek s pc msg = Inr (int pos, upd_fd d (\<lambda>f. f\<lparr>fd_pos := int pos\<rparr>) s)"
  using assms by (simp add: do_lseek_def opened_def filp_of_def Let_def sint_word_of_nat)

text \<open>
  C5: what a process writes to a regular file it reads back: after a write of
  \<open>len\<close> bytes at position \<open>pos\<close> that fits into the sectors of the file (and touches at
  most 256 of them), a seek back to \<open>pos\<close> and a read of \<open>len\<close> bytes put the same
  bytes into the other buffer; both requests return \<open>len\<close>, every other byte of the
  file is as before, and the size is the end of the write if that is further.
\<close>

theorem write_then_read:
  assumes f: "file_at s p dev part sb n start sz nr" and opn: "opened s pc fd d p pos"
    and w: "msgtype w = WRITE" "m3i1 w = int fd" "m3i2 w = int len" "nat (source w) = pc"
    and l: "m3i1 l = int fd" "m3i2 l = int pos" "m3i3 l = SEEK_SET"
    and rd: "msgtype rd = READ" "m3i1 rd = int fd" "m3i2 rd = int len" "nat (source rd) = pc"
    and fit: "pos + len \<le> nr * SECTOR_SIZE" "(pos + len) div SECTOR_SIZE - pos div SECTOR_SIZE < 256"
  shows "\<exists>s1 s2 s3. do_rdwt tty s pc w = Inr ((WRITE, int len), s1) \<and>
    do_lseek s1 pc l = Inr (int pos, s2) \<and> do_rdwt tty s2 pc rd = Inr ((READ, int len), s3) \<and>
    (\<forall>k < len. umem s3 (lin (fprocs s) pc (m3p2 rd) + of_nat k) = umem s (lin (fprocs s) pc (m3p2 w) + of_nat k)) \<and>
    (\<forall>x. x < pos \<or> pos + len \<le> x \<longrightarrow> file_byte part s3 start x = file_byte part s start x) \<and>
    file_at s3 p dev part sb n start (max sz (pos + len)) nr"
proof -
  note x = file_atD [OF f]
  let ?sz = "max sz (pos + len)"
  have sz: "?sz < 2 ^ 31" using fit(1) x(10,13) by simp
  obtain s1 where s1: "do_rdwt tty s pc w = Inr ((WRITE, int len), s1)"
    and bytes: "\<And>y. file_byte part s1 start y = (if pos \<le> y \<and> y < pos + len
      then umem s (lin (fprocs s) pc (m3p2 w) + of_nat (y - pos)) else file_byte part s start y)"
    and f1: "file_at s1 p dev part sb n start ?sz nr" and o1: "opened s1 pc fd d p (pos + len)"
    and procs: "fprocs s1 = fprocs s"
    by (rule do_write_inside [OF f opn w fit]) blast
  let ?s2 = "upd_fd d (\<lambda>f. f\<lparr>fd_pos := int pos\<rparr>) s1"
  have seek: "do_lseek s1 pc l = Inr (int pos, ?s2)"
    by (rule do_lseek_set [OF o1 l file_atD(8) [OF f1] _ sz]) simp
  have f2: "file_at ?s2 p dev part sb n start ?sz nr" using f1 by (simp add: file_at_def)
  have o2: "opened ?s2 pc fd d p pos" using o1 by (simp add: opened_def)
  have fit2: "pos + len \<le> ?sz" by simp
  obtain s3 where s3: "do_rdwt tty ?s2 pc rd = Inr ((READ, int len), s3)"
    and buf: "\<And>k. k < len \<Longrightarrow> umem s3 (lin (fprocs ?s2) pc (m3p2 rd) + of_nat k) = file_byte part ?s2 start (pos + k)"
    and same: "file_byte part s3 start = file_byte part ?s2 start" and f3: "file_at s3 p dev part sb n start ?sz nr"
    by (rule do_read_inside [OF f2 o2 rd fit2 fit(2)]) blast
  have fb: "file_byte part ?s2 start = file_byte part s1 start" by (simp add: file_byte_def fun_eq_iff)
  show ?thesis
    using s1 seek s3 f3 buf same unfolding fb by (intro exI [of _ s1] exI [of _ ?s2] exI [of _ s3]) (simp add: bytes procs)
qed

section \<open>A sample file\<close>

lemma sample_opened: "opened sample_fs INIT 0 0 1 0"
  by (simp add: opened_def) (simp add: sample_fs_def)

lemma sample_fs_flat: "flat_tasks (fprocs sample_fs)"
  using inv_flat [OF good_inv [OF sample_good]]
  by (auto simp: flat_tasks_def sample_fs_def upd_proc_apply ldt_seg_linear_def)

lemma sample_file_at: "file_at sample_fs 1 ROOT_DEV sample_part sample_sb 7 3000 1000 2048"
  using sample_geom sample_fs_flat by (simp add: file_at_def sample_file_def sample_part_def)

lemma sample_lin: "lin (fprocs sample_fs) INIT a = a"
  using sample_fs_flat by (simp add: flat_tasks_def lin_def)

definition rw_msg :: "int \<Rightarrow> u32 \<Rightarrow> int \<Rightarrow> message" where
  "rw_msg t buf len = (sample_msg t 0 len)\<lparr>m3i3 := SEEK_SET, m3p2 := buf\<rparr>"

lemma rw_msg_simps [simp]:
  "msgtype (rw_msg t buf len) = t" "m3i1 (rw_msg t buf len) = 0" "m3i2 (rw_msg t buf len) = len"
  "m3i3 (rw_msg t buf len) = SEEK_SET" "source (rw_msg t buf len) = INIT" "m3p2 (rw_msg t buf len) = buf"
  by (simp_all add: rw_msg_def sample_msg_def)

text \<open>A terminal task that takes all it is given.\<close>

definition sample_terminal :: "int \<Rightarrow> int \<Rightarrow> u32 \<Rightarrow> int \<Rightarrow> nat \<Rightarrow> int \<times> int" where
  "sample_terminal t dv buf len src = (SYSCALL_RET, len)"

theorem write_then_read_witness:
  "\<exists>s1 s2 s3. do_rdwt sample_terminal (sample_fs\<lparr>umem := (\<lambda>a. ucast a)\<rparr>) INIT (rw_msg WRITE 0x1000 600) = Inr ((WRITE, 600), s1) \<and>
     do_lseek s1 INIT (rw_msg LSEEK 0 0) = Inr (0, s2) \<and>
     do_rdwt sample_terminal s2 INIT (rw_msg READ 0x2000 600) = Inr ((READ, 600), s3) \<and> umem s3 0x2007 = 7"
proof -
  let ?s = "sample_fs\<lparr>umem := (\<lambda>a. ucast a)\<rparr>"
  have f: "file_at ?s 1 ROOT_DEV sample_part sample_sb 7 3000 1000 2048" using sample_file_at by (simp add: file_at_def)
  have opn: "opened ?s INIT 0 0 1 0" using sample_opened by (simp add: opened_def)
  have "\<exists>s1 s2 s3. do_rdwt sample_terminal ?s INIT (rw_msg WRITE 0x1000 600) = Inr ((WRITE, int 600), s1) \<and>
    do_lseek s1 INIT (rw_msg LSEEK 0 0) = Inr (int 0, s2) \<and>
    do_rdwt sample_terminal s2 INIT (rw_msg READ 0x2000 600) = Inr ((READ, int 600), s3) \<and>
    (\<forall>k < 600. umem s3 (lin (fprocs ?s) INIT (m3p2 (rw_msg READ 0x2000 600)) + of_nat k) =
       umem ?s (lin (fprocs ?s) INIT (m3p2 (rw_msg WRITE 0x1000 600)) + of_nat k)) \<and>
    (\<forall>x. x < 0 \<or> 0 + 600 \<le> x \<longrightarrow> file_byte sample_part s3 3000 x = file_byte sample_part ?s 3000 x) \<and>
    file_at s3 1 ROOT_DEV sample_part sample_sb 7 3000 (max 1000 (0 + 600)) 2048"
    by (rule write_then_read [OF f opn]) simp_all
  then obtain s1 s2 s3 where r: "do_rdwt sample_terminal ?s INIT (rw_msg WRITE 0x1000 600) = Inr ((WRITE, int 600), s1)"
    "do_lseek s1 INIT (rw_msg LSEEK 0 0) = Inr (int 0, s2)"
    "do_rdwt sample_terminal s2 INIT (rw_msg READ 0x2000 600) = Inr ((READ, int 600), s3)"
    and b: "\<forall>k < 600. umem s3 (lin (fprocs ?s) INIT (m3p2 (rw_msg READ 0x2000 600)) + of_nat k) =
       umem ?s (lin (fprocs ?s) INIT (m3p2 (rw_msg WRITE 0x1000 600)) + of_nat k)" by blast
  from b [rule_format, of 7] have "umem s3 0x2007 = 7" by (simp add: sample_lin)
  with r show ?thesis by auto
qed

section \<open>Beyond the end\<close>

text \<open>
  A write that goes beyond the sectors allocated to the file is not cut off at
  their end but at the end of the sector behind them: that sector, which belongs to
  the next file, is overwritten, and the size of the file goes beyond its sectors.
\<close>

theorem write_past_allocation:
  assumes f: "file_at s p dev part sb n start sz nr" and opn: "opened s pc fd d p pos"
    and m: "msgtype msg = WRITE" "m3i1 msg = int fd" "m3i2 msg = int len" "nat (source msg) = pc"
    and over: "pos \<le> nr * SECTOR_SIZE" "nr * SECTOR_SIZE < pos + len" "nr - pos div SECTOR_SIZE < 256" "pos + len < 2 ^ 31"
  shows "\<exists>s' r. do_rdwt tty s pc msg = Inr ((WRITE, int r), s') \<and> r = min len ((nr + 1) * SECTOR_SIZE - pos) \<and>
    nr * SECTOR_SIZE < pos + r \<and> i_size (inode_table s' p) = word_of_nat (pos + r) \<and>
    (\<forall>i < SECTOR_SIZE. nr * SECTOR_SIZE + i < pos + r \<longrightarrow>
       blk part s' (start + nr) i = umem s (lin (fprocs s) pc (m3p2 msg) + of_nat (nr * SECTOR_SIZE + i - pos)))"
proof -
  note x = file_atD [OF f]
  define c where "c = rw_span (nr * 512) pos"
  have e: "rw_end WRITE sz nr pos len = nr * 512" using over(2) by (simp add: rw_end_def)
  have c: "c = rw_span (rw_end WRITE sz nr pos len) pos" "c \<le> 256" using over(3) by (simp_all add: c_def e rw_span_def)
  note len = rw_len_over [OF over(1,2), folded c_def]
  define r where "r = rw_len c pos len"
  have r: "r = min len ((nr + 1) * 512 - pos)" "nr * 512 < pos + r" using len by (simp_all add: r_def)
  obtain s' where s': "do_rdwt tty s pc msg = Inr ((WRITE, int r), s')"
    "\<And>y. file_byte part s' start y = (if pos \<le> y \<and> y < pos + r
      then umem s (lin (fprocs s) pc (m3p2 msg) + of_nat (y - pos)) else file_byte part s start y)"
    "inode_table s' = (inode_table s)(p := (inode_table s p)\<lparr>i_size := word_of_nat (max sz (pos + r))\<rparr>)"
    by (rule do_write_eq [OF f opn m over(1,4) c r_def]) blast
  have "blk part s' (start + nr) i = umem s (lin (fprocs s) pc (m3p2 msg) + of_nat (nr * 512 + i - pos))"
    if "i < 512" "nr * 512 + i < pos + r" for i
    using s'(2) [of "nr * 512 + i"] that over(1) by (simp add: file_byte_def)
  moreover have "max sz (pos + r) = pos + r" using x(10) r(2) by simp
  ultimately show ?thesis using s'(1,3) r by (intro exI [of _ s'] exI [of _ r]) simp
qed

lemma sample_at:
  "opened (sample_fs\<lparr>umem := m, f_desc_table := (f_desc_table sample_fs)(0 := (f_desc_table sample_fs 0)\<lparr>fd_pos := int q\<rparr>)\<rparr>) INIT 0 0 1 q"
  "file_at (sample_fs\<lparr>umem := m, f_desc_table := (f_desc_table sample_fs)(0 := (f_desc_table sample_fs 0)\<lparr>fd_pos := int q\<rparr>)\<rparr>)
     1 ROOT_DEV sample_part sample_sb 7 3000 1000 2048"
proof -
  let ?s = "sample_fs\<lparr>umem := m, f_desc_table := (f_desc_table sample_fs)(0 := (f_desc_table sample_fs 0)\<lparr>fd_pos := int q\<rparr>)\<rparr>"
  show "opened ?s INIT 0 0 1 q" using sample_opened by (simp add: opened_def)
  have "fs_dev ?s ROOT_DEV sample_part = fs_dev sample_fs ROOT_DEV sample_part" by (rule fs_dev_cong) simp_all
  from geom_cong [OF this] sample_file_at show "file_at ?s 1 ROOT_DEV sample_part sample_sb 7 3000 1000 2048"
    by (simp add: file_at_def)
qed

theorem write_past_allocation_witness:
  "\<exists>s s' :: fs_state. do_rdwt sample_terminal s INIT (rw_msg WRITE 0x1000 300) = Inr ((WRITE, 300), s') \<and>
     blk sample_part s (3000 + 2048) 3 = 0 \<and> blk sample_part s' (3000 + 2048) 3 = 1"
proof -
  let ?s = "sample_fs\<lparr>umem := (\<lambda>_. 1), f_desc_table := (f_desc_table sample_fs)(0 := (f_desc_table sample_fs 0)\<lparr>fd_pos := int 1048376\<rparr>)\<rparr>"
  have "\<exists>s' r. do_rdwt sample_terminal ?s INIT (rw_msg WRITE 0x1000 300) = Inr ((WRITE, int r), s') \<and> r = min 300 ((2048 + 1) * SECTOR_SIZE - 1048376) \<and>
    2048 * SECTOR_SIZE < 1048376 + r \<and> i_size (inode_table s' 1) = word_of_nat (1048376 + r) \<and>
    (\<forall>i < SECTOR_SIZE. 2048 * SECTOR_SIZE + i < 1048376 + r \<longrightarrow>
       blk sample_part s' (3000 + 2048) i = umem ?s (lin (fprocs ?s) INIT (m3p2 (rw_msg WRITE 0x1000 300)) + of_nat (2048 * SECTOR_SIZE + i - 1048376)))"
    by (rule write_past_allocation [OF sample_at(2,1)]) simp_all
  then obtain s' where "do_rdwt sample_terminal ?s INIT (rw_msg WRITE 0x1000 300) = Inr ((WRITE, 300), s')"
    "blk sample_part s' (3000 + 2048) 3 = 1" by auto
  then show ?thesis by (intro exI [of _ ?s] exI [of _ s']) (simp add: part_block_def sample_part_def sample_drive_def)
qed

text \<open>
  A read that goes beyond the end of a file is not cut off at the end but at the
  end of its last sector: it returns more bytes than the file has, hands out what
  the sector holds there, and makes the file larger.
\<close>

theorem read_past_end:
  assumes f: "file_at s p dev part sb n start sz nr" and opn: "opened s pc fd d p pos"
    and m: "msgtype msg = READ" "m3i1 msg = int fd" "m3i2 msg = int len" "nat (source msg) = pc"
    and over: "pos \<le> sz" "sz < pos + len" "sz div SECTOR_SIZE - pos div SECTOR_SIZE < 256" "pos + len < 2 ^ 31"
  shows "\<exists>s' r. do_rdwt tty s pc msg = Inr ((READ, int r), s') \<and> r = min len ((sz div SECTOR_SIZE + 1) * SECTOR_SIZE - pos) \<and>
    sz < pos + r \<and> i_size (inode_table s' p) = word_of_nat (pos + r) \<and>
    (\<forall>k < r. umem s' (lin (fprocs s) pc (m3p2 msg) + of_nat k) = file_byte part s start (pos + k))"
proof -
  define c where "c = rw_span sz pos"
  have e: "rw_end READ sz nr pos len = sz" using over(2) by (simp add: rw_end_def)
  have c: "c = rw_span (rw_end READ sz nr pos len) pos" "c \<le> 256" using over(3) by (simp_all add: c_def e rw_span_def)
  note len = rw_len_over [OF over(1,2), folded c_def]
  define r where "r = rw_len c pos len"
  have r: "r = min len ((sz div 512 + 1) * 512 - pos)" "sz < pos + r" using len by (simp_all add: r_def)
  obtain s' where s': "do_rdwt tty s pc msg = Inr ((READ, int r), s')"
    "umem s' = mem_write (umem s) (lin (fprocs s) pc (m3p2 msg))
      (\<lambda>k. chunk_buf part s (start + pos div SECTOR_SIZE) c (pos mod SECTOR_SIZE + k)) r"
    "inode_table s' = (inode_table s)(p := (inode_table s p)\<lparr>i_size := word_of_nat (max sz (pos + r))\<rparr>)"
    by (rule do_read_eq [OF f opn m over(1,4) c r_def]) blast
  have lim: "pos \<le> (if READ = READ then sz else nr * SECTOR_SIZE)" using over(1) by simp
  have "umem s' (lin (fprocs s) pc (m3p2 msg) + of_nat k) = file_byte part s start (pos + k)" if k: "k < r" for k
  proof -
    have "r \<le> 2 ^ 32" using over(4) by (simp add: r(1))
    then have "umem s' (lin (fprocs s) pc (m3p2 msg) + of_nat k) =
        chunk_buf part s (start + pos div SECTOR_SIZE) c (pos mod SECTOR_SIZE + k)"
      unfolding s'(2) by (rule mem_write_at [OF k])
    also have "\<dots> = file_byte part s start (pos + k)"
      using transfer_reach(3) [OF f lim c, of len] k by (intro chunk_file_byte) (simp add: r_def)
    finally show ?thesis .
  qed
  moreover have "max sz (pos + r) = pos + r" using r(2) by simp
  ultimately show ?thesis using s'(1,3) r by (intro exI [of _ s'] exI [of _ r]) simp
qed

theorem read_past_end_witness:
  "\<exists>s'. do_rdwt sample_terminal sample_fs INIT (rw_msg READ 0x1000 2000) = Inr ((READ, 1024), s') \<and>
     i_size (inode_table sample_fs 1) = 1000 \<and> i_size (inode_table s' 1) = 1024"
proof -
  have "\<exists>s' r. do_rdwt sample_terminal sample_fs INIT (rw_msg READ 0x1000 2000) = Inr ((READ, int r), s') \<and>
    r = min 2000 ((1000 div SECTOR_SIZE + 1) * SECTOR_SIZE - 0) \<and> 1000 < 0 + r \<and> i_size (inode_table s' 1) = word_of_nat (0 + r) \<and>
    (\<forall>k < r. umem s' (lin (fprocs sample_fs) INIT (m3p2 (rw_msg READ 0x1000 2000)) + of_nat k) = file_byte sample_part sample_fs 3000 (0 + k))"
    by (rule read_past_end [OF sample_file_at sample_opened]) simp_all
  then show ?thesis by (auto simp: sample_file_def)
qed

end
