(* ===== verification/FsEdit.thy ===== *)
theory FsEdit
  imports FsInode
begin

unbundle bit_operations_syntax

text \<open>
  Changing a sector in place: what reading it into the buffer, editing the buffer
  and writing it back does to the disk and to the rest of the state.  The bitmaps,
  the log and the directories are all changed in this way.
\<close>

lemma reach_le: "reach part m \<Longrightarrow> n \<le> m \<Longrightarrow> reach part n"
  by (auto simp: reach_def in_reach_def)

text \<open>Two states that differ at most in the buffer and in what the disk holds.\<close>

definition same_fs :: "fs_state \<Rightarrow> fs_state \<Rightarrow> bool" where
  "same_fs s s' \<longleftrightarrow> (\<exists>f h. s' = s\<lparr>fsbuf := f, drive := h\<rparr> \<and> hd_info h = hd_info (drive s) \<and> responds h = responds (drive s))"

lemma same_fs_refl: "same_fs s s"
  unfolding same_fs_def by (intro exI [of _ "fsbuf s"] exI [of _ "drive s"]) simp

lemma same_fs_trans: "same_fs s t \<Longrightarrow> same_fs t u \<Longrightarrow> same_fs s u"
  unfolding same_fs_def by (elim exE conjE, rename_tac f1 f2 h1 h2, rule_tac x = f2 in exI, rule_tac x = h2 in exI) simp

lemma same_fs_rw: "same_fs s ((read_blk part n s)\<lparr>fsbuf := f\<rparr>)" "same_fs s (write_blk part n s)"
  "same_fs s (read_blk part n s)" "same_fs s (s\<lparr>fsbuf := f\<rparr>)"
proof -
  note d = same_fs_def read_blk_def write_blk_def
  show "same_fs s ((read_blk part n s)\<lparr>fsbuf := f\<rparr>)"
    unfolding d by (intro exI [of _ f] exI [of _ "drive s"]) simp
  show "same_fs s (s\<lparr>fsbuf := f\<rparr>)" unfolding d by (intro exI [of _ f] exI [of _ "drive s"]) simp
  show "same_fs s (write_blk part n s)"
    unfolding d by (intro exI [of _ "fsbuf s"] exI [of _ "part_put part (drive s) n (fsbuf s)"]) (simp add: frame_simps)
  show "same_fs s (read_blk part n s)"
    unfolding d by (intro exI [of _ "blit (fsbuf s) 0 (blk part s n) SECTOR_SIZE"] exI [of _ "drive s"]) simp
qed

lemma same_fs_dev: "same_fs s t \<Longrightarrow> fs_dev s dev part \<Longrightarrow> fs_dev t dev part"
  using fs_dev_cong [of t s] by (auto simp: same_fs_def)

text \<open>Reading a sector, changing the buffer, and writing it.\<close>

definition edit_blk :: "part_info \<Rightarrow> nat \<Rightarrow> (nat \<Rightarrow> u8) \<Rightarrow> fs_state \<Rightarrow> fs_state" where
  "edit_blk part n f s = write_blk part n ((read_blk part n s)\<lparr>fsbuf := f\<rparr>)"

lemma edit_blk_same: "same_fs s (edit_blk part n f s)"
  unfolding edit_blk_def by (rule same_fs_trans [OF same_fs_rw(1) same_fs_rw(2)])

lemma blk_edit:
  "i < SECTOR_SIZE \<Longrightarrow> blk part (edit_blk part n f s) n' i = (if n' = n then f i else blk part s n' i)"
  by (simp add: edit_blk_def blk_write)

lemma blk_edit_other: "n' \<noteq> n \<Longrightarrow> blk part (edit_blk part n f s) n' = blk part s n'"
  by (simp add: edit_blk_def blk_write_other)

end
