(* ===== verification/FsMap.thy ===== *)
theory FsMap
  imports FsEdit FsFile
begin

unbundle bit_operations_syntax

text \<open>
  The bitmaps of the file system as sets: \<open>alloc_imap_bit\<close>, \<open>alloc_smap_bit\<close> and the
  clearing of bits in \<open>do_unlink\<close> against the set of the positions whose bit is 1.
\<close>

section \<open>Bits of an array of bytes\<close>

definition bit_at :: "(nat \<Rightarrow> u8) \<Rightarrow> nat \<Rightarrow> bool" where
  "bit_at f x \<longleftrightarrow> bit (f (x div 8)) (x mod 8)"

definition map_set :: "part_info \<Rightarrow> fs_state \<Rightarrow> nat \<Rightarrow> nat set" where
  "map_set part s b0 = {x. bit_at (file_byte part s b0) x}"

text \<open>The buffer holds the sector \<open>q\<close> of the map: the map with that sector as in the buffer.\<close>

definition overlay :: "part_info \<Rightarrow> fs_state \<Rightarrow> nat \<Rightarrow> nat \<Rightarrow> nat set" where
  "overlay part s b0 q = {x. if x div 4096 = q then bit_at (fsbuf s) (x mod 4096) else x \<in> map_set part s b0}"

lemma sector_bit: "x div 8 div 512 = x div (4096 :: nat)" "x div 8 mod 512 = x mod 4096 div 8" "x mod 4096 mod 8 = x mod (8 :: nat)"
proof -
  show "x div 8 div 512 = x div 4096" by (simp add: div_mult2_eq [symmetric])
  have "x mod (8 * 512) = 8 * (x div 8 mod 512) + x mod 8" by (rule mod_mult2_eq)
  then show "x div 8 mod 512 = x mod 4096 div 8" by simp
  show "x mod 4096 mod 8 = x mod 8" by (rule mod_mod_cancel) simp
qed

lemma map_set_iff: "x \<in> map_set part s b0 \<longleftrightarrow> bit_at (blk part s (b0 + x div 4096)) (x mod 4096)"
  by (simp add: map_set_def bit_at_def file_byte_def sector_bit)

lemma bit_at_cong: "(\<And>i. i < SECTOR_SIZE \<Longrightarrow> f i = g i) \<Longrightarrow> x < 4096 \<Longrightarrow> bit_at f x = bit_at g x"
  by (simp add: bit_at_def)

lemma map_set_edit: "x \<in> map_set part (edit_blk part (b0 + q) f s) b0 \<longleftrightarrow>
    (if x div 4096 = q then bit_at f (x mod 4096) else x \<in> map_set part s b0)"
proof (cases "x div 4096 = q")
  case True
  have "bit_at (blk part (edit_blk part (b0 + q) f s) (b0 + q)) (x mod 4096) = bit_at f (x mod 4096)"
    by (rule bit_at_cong) (simp_all add: blk_edit)
  with True show ?thesis by (simp add: map_set_iff)
next
  case False
  then show ?thesis by (simp add: map_set_iff blk_edit_other)
qed

text \<open>A byte with \<open>m\<close> more bits.\<close>

definition with_bits :: "nat \<Rightarrow> nat \<Rightarrow> u8 \<Rightarrow> u8" where
  "with_bits k m b = b OR push_bit k (mask m)"

definition without_bits :: "nat \<Rightarrow> nat \<Rightarrow> u8 \<Rightarrow> u8" where
  "without_bits k m b = b AND NOT (push_bit k (mask m))"

lemma bit_with_bits: "x < 8 \<Longrightarrow> bit (with_bits k m b) x \<longleftrightarrow> bit b x \<or> k \<le> x \<and> x < k + m"
  by (auto simp: with_bits_def bit_simps)

lemma bit_without_bits: "x < 8 \<Longrightarrow> bit (without_bits k m b) x \<longleftrightarrow> bit b x \<and> \<not> (k \<le> x \<and> x < k + m)"
  by (auto simp: without_bits_def bit_simps)

lemma bits_eqI: "(\<And>x. x < 8 \<Longrightarrow> bit a x = bit b x) \<Longrightarrow> a = (b :: u8)"
  by (rule bit_word_eqI) simp

lemma with_bits_step: "m = Suc m' \<Longrightarrow> k < 8 \<Longrightarrow> with_bits (Suc k) m' (b OR push_bit k 1) = with_bits k m b"
  by (rule bits_eqI) (auto simp: bit_with_bits bit_simps)

lemma without_bits_step: "m = Suc m' \<Longrightarrow> k < 8 \<Longrightarrow> without_bits (Suc k) m' (b AND NOT (push_bit k 1)) = without_bits k m b"
  by (rule bits_eqI) (auto simp: bit_without_bits bit_simps)

section \<open>Allocation in one sector\<close>

definition clear_run :: "(nat \<Rightarrow> bool) \<Rightarrow> nat \<Rightarrow> nat \<Rightarrow> bool" where
  "clear_run P a m \<longleftrightarrow> (\<forall>x \<in> {a..<a + m}. \<not> P x)"

lemma clear_run_0 [simp]: "clear_run P a 0"
  by (simp add: clear_run_def)

lemma clear_run_add: "clear_run P a (m + m') \<longleftrightarrow> clear_run P a m \<and> clear_run P (a + m) m'"
proof -
  have "{a..<a + (m + m')} = {a..<a + m} \<union> {a + m..<a + m + m'}" by auto
  then show ?thesis unfolding clear_run_def by (simp only: ball_Un)
qed

lemma clear_run_Suc: "clear_run P a (Suc m) \<longleftrightarrow> \<not> P a \<and> clear_run P (Suc a) m"
  using clear_run_add [of P a 1 m] by (simp add: clear_run_def)

lemma clear_run_cong: "(\<And>x. a \<le> x \<Longrightarrow> x < a + m \<Longrightarrow> P x = Q x) \<Longrightarrow> clear_run P a m = clear_run Q a m"
  by (auto simp: clear_run_def)

lemma smap_bits_eq:
  "k + n \<le> 8 \<Longrightarrow> 0 < nr \<Longrightarrow> smap_bits n k b nr =
    (if clear_run (bit b) k (min n nr) then Inr (with_bits k (min n nr) b, nr - min n nr) else Inl (AFO 319))"
proof (induction n arbitrary: k b nr)
  case 0
  then show ?case by (simp add: with_bits_def)
next
  case (Suc n)
  show ?case
  proof (cases "bit b k \<or> nr = 1")
    case True
    then show ?thesis
    proof
      assume "bit b k"
      moreover obtain m where "min (Suc n) nr = Suc m" using Suc.prems(2) by (cases nr) auto
      ultimately show ?thesis by (simp add: clear_run_Suc)
    qed (simp add: clear_run_Suc with_bits_def)
  next
    case False
    then have nr: "0 < nr - 1" "min (Suc n) nr = Suc (min n (nr - 1))" using Suc.prems(2) by auto
    have c: "clear_run (bit (b OR push_bit k 1)) (Suc k) (min n (nr - 1)) = clear_run (bit b) (Suc k) (min n (nr - 1))"
      using Suc.prems(1) by (intro clear_run_cong) (auto simp: bit_simps)
    have "smap_bits n (Suc k) (b OR push_bit k 1) (nr - 1) = (if clear_run (bit (b OR push_bit k 1)) (Suc k) (min n (nr - 1))
      then Inr (with_bits (Suc k) (min n (nr - 1)) (b OR push_bit k 1), nr - 1 - min n (nr - 1)) else Inl (AFO 319))"
      using Suc.prems nr(1) by (intro Suc.IH) simp_all
    then show ?thesis
      unfolding c using False Suc.prems(1) nr with_bits_step [OF nr(2), of k b] by (simp add: clear_run_Suc)
  qed
qed

text \<open>\<open>g\<close> is \<open>f\<close> with the \<open>m\<close> bits from \<open>a\<close> on set.\<close>

definition filled :: "(nat \<Rightarrow> u8) \<Rightarrow> (nat \<Rightarrow> u8) \<Rightarrow> nat \<Rightarrow> nat \<Rightarrow> bool" where
  "filled f g a m \<longleftrightarrow> (\<forall>x. bit_at g x \<longleftrightarrow> bit_at f x \<or> a \<le> x \<and> x < a + m)"

lemma byte_split: "(8 * j \<le> x \<and> x < 8 * j + 8) = (x div 8 = (j :: nat))"
  by (auto simp: div_nat_eqI)

lemma bit_at_upd: "bit_at (f(j := b)) x \<longleftrightarrow> (if x div 8 = j then bit b (x mod 8) else bit_at f x)"
  by (simp add: bit_at_def)

lemma bit_at_byte: "k < 8 \<Longrightarrow> bit_at f (8 * j + k) = bit (f j) k"
  by (simp add: bit_at_def)

lemma in_byte: "8 * j + k \<le> x \<and> x < 8 * j + k + m \<Longrightarrow> k + m \<le> 8 \<Longrightarrow> x div 8 = (j :: nat)"
  using byte_split [of j x] by linarith

lemma filled_byte:
  assumes "k + m \<le> 8"
  shows "filled f (f(j := with_bits k m (f j))) (8 * j + k) m"
proof -
  have "x div 8 = j \<Longrightarrow> (k \<le> x mod 8 \<and> x mod 8 < k + m) = (8 * j + k \<le> x \<and> x < 8 * j + k + m)" for x
    using div_mult_mod_eq [of x 8] by linarith
  then show ?thesis using in_byte [of j k _ m] assms
    by (auto simp: filled_def bit_at_upd bit_with_bits bit_at_def)
qed

lemma clear_byte:
  assumes "k + m \<le> 8"
  shows "clear_run (bit_at f) (8 * j + k) m \<longleftrightarrow> clear_run (bit (f j)) k m"
proof
  assume c: "clear_run (bit_at f) (8 * j + k) m"
  have "\<not> bit (f j) x" if "k \<le> x" "x < k + m" for x
    using c [unfolded clear_run_def, rule_format, of "8 * j + x"] bit_at_byte [of x f j] that assms by simp
  then show "clear_run (bit (f j)) k m" by (simp add: clear_run_def)
next
  assume c: "clear_run (bit (f j)) k m"
  have "\<not> bit_at f x" if x: "8 * j + k \<le> x" "x < 8 * j + k + m" for x
  proof -
    have "x div 8 = j" using in_byte [of j k x m] x assms by blast
    moreover from this have "k \<le> x mod 8" "x mod 8 < k + m" using x div_mult_mod_eq [of x 8] by linarith+
    ultimately show ?thesis using c by (simp add: clear_run_def bit_at_def)
  qed
  then show "clear_run (bit_at f) (8 * j + k) m" by (simp add: clear_run_def)
qed

lemma filled_clear: "filled f g a m \<Longrightarrow> a + m \<le> c \<Longrightarrow> clear_run (bit_at g) c l = clear_run (bit_at f) c l"
  by (rule clear_run_cong) (auto simp: filled_def)

lemma filled_trans: "filled f g a m \<Longrightarrow> filled g h (a + m) l \<Longrightarrow> filled f h a (m + l)"
proof -
  have "a \<le> x \<and> x < a + (m + l) \<longleftrightarrow> a \<le> x \<and> x < a + m \<or> a + m \<le> x \<and> x < a + m + l" for x by arith
  then show "filled f g a m \<Longrightarrow> filled g h (a + m) l \<Longrightarrow> filled f h a (m + l)"
    unfolding filled_def by blast
qed

lemma filled_0: "filled f f a 0"
  by (auto simp: filled_def)

lemma smap_bytes_run:
  assumes "F \<noteq> 0"
  shows "m = min (8 * n) nr \<Longrightarrow>
    if clear_run (bit_at f) (8 * j) m
    then \<exists>g. smap_bytes sb i n j f nr F = Inr (g, nr - m, F) \<and> filled f g (8 * j) m
    else smap_bytes sb i n j f nr F = Inl (AFO 319)"
proof (induction n arbitrary: j f nr m)
  case 0
  then show ?case by (auto simp: filled_0)
next
  case (Suc n)
  show ?case
  proof (cases "nr = 0")
    case True
    then show ?thesis using Suc.prems by (auto simp: filled_0)
  next
    case False
    define l where "l = min 8 nr"
    define g1 where "g1 = f(j := with_bits 0 l (f j))"
    define m' where "m' = min (8 * n) (nr - l)"
    have l: "l \<le> 8" "m = l + m'" "nr - l - m' = nr - m" using Suc.prems by (auto simp: l_def m'_def)
    have c: "clear_run (bit_at f) (8 * j) l = clear_run (bit (f j)) 0 l" using clear_byte [of 0 l f j] l(1) by simp
    have fl: "filled f g1 (8 * j) l" unfolding g1_def using filled_byte [of 0 l f j] l(1) by simp
    have step: "smap_bytes sb i (Suc n) j f nr F =
      (if clear_run (bit (f j)) 0 l then smap_bytes sb i n (Suc j) g1 (nr - l) F else Inl (AFO 319))"
      using False assms smap_bits_eq [of 0 8 nr "f j"] by (simp add: g1_def l_def)
    have split: "clear_run (bit_at f) (8 * j) m \<longleftrightarrow> clear_run (bit (f j)) 0 l \<and> clear_run (bit_at f) (8 * j + l) m'"
      unfolding l(2) clear_run_add c ..
    show ?thesis
    proof (cases "nr \<le> 8")
      case True
      then have z: "nr - l = 0" "m' = 0" "m = l" "nr - m = 0" using l by (auto simp: l_def m'_def)
      then have "smap_bytes sb i n (Suc j) g1 (nr - l) F = Inr (g1, nr - m, F)" by (cases n) simp_all
      then show ?thesis using step fl split z by auto
    next
      case False
      then have l8: "l = 8" by (simp add: l_def)
      have c': "clear_run (bit_at g1) (8 * Suc j) m' = clear_run (bit_at f) (8 * j + l) m'"
        using filled_clear [OF fl, of "8 * Suc j" m'] l8 by (simp add: add.commute)
      have fl': "filled g1 h (8 * Suc j) m' \<Longrightarrow> filled f h (8 * j) m" for h
        using filled_trans [OF fl, of h m'] l8 l(2) by (simp add: add.commute)
      show ?thesis
        using Suc.IH [OF m'_def, of g1 "Suc j"] step unfolding c' split l(3) by (auto intro: fl' split: if_splits)
    qed
  qed
qed

lemma full_byte: "f j = 0xFF \<longleftrightarrow> (\<forall>x. x div 8 = j \<longrightarrow> bit_at f x)"
proof
  assume "f j = 0xFF"
  moreover have "bit (0xFF :: u8) k" if "k < 8" for k
    using that by (simp add: numeral_eq_Suc less_Suc_eq) auto
  ultimately show "\<forall>x. x div 8 = j \<longrightarrow> bit_at f x" by (simp add: bit_at_def)
next
  assume a: "\<forall>x. x div 8 = j \<longrightarrow> bit_at f x"
  show "f j = 0xFF"
  proof (rule bits_eqI)
    fix k :: nat assume k: "k < 8"
    then have "bit (0xFF :: u8) k" by (simp add: numeral_eq_Suc less_Suc_eq) auto
    moreover have "bit (f j) k" using a [rule_format, of "8 * j + k"] bit_at_byte [OF k, of f j] k by simp
    ultimately show "bit (f j) k = bit (0xFF :: u8) k" by simp
  qed
qed

lemma full_byteI: "(\<And>x. 8 * j \<le> x \<Longrightarrow> x < 8 * j + 8 \<Longrightarrow> bit_at f x) \<Longrightarrow> f j = 0xFF"
  unfolding full_byte byte_split [symmetric] by blast

lemma first_zero_eq:
  assumes "k < 8" and "\<not> bit b k" and "\<forall>x < k. bit b x"
  shows "first_zero b = k"
proof -
  have "[0..<8] = [0..<k] @ k # [Suc k..<8]" using assms(1) using upt_add_eq_append [of 0 k "8 - k"] by (simp add: upt_conv_Cons)
  then show ?thesis using assms(2,3) by (simp add: first_zero_def takeWhile_append)
qed

text \<open>The search: the bits from \<open>8 * j\<close> up to \<open>p\<close> are 1, the bit \<open>p\<close> is 0.\<close>

definition new_sect :: "super_block \<Rightarrow> nat \<Rightarrow> int" where
  "new_sect sb x = sint (word_of_int (int x - 1) + n_1st_sect sb)"

lemma smap_bytes_full:
  "(\<forall>x. 8 * j \<le> x \<and> x < 8 * (j + n) \<longrightarrow> bit_at f x) \<Longrightarrow> smap_bytes sb i n j f nr 0 = Inr (f, nr, 0)"
proof (induction n arbitrary: j)
  case (Suc n)
  have "f j = 0xFF" using Suc.prems by (intro full_byteI) simp
  moreover have "smap_bytes sb i n (Suc j) f nr 0 = Inr (f, nr, 0)"
    using Suc.prems by (intro Suc.IH) auto
  ultimately show ?case by simp
qed simp

lemma smap_bytes_search:
  assumes "0 < nr" and "new_sect sb (i * 4096 + p) \<noteq> 0"
  shows "8 * j \<le> p \<Longrightarrow> p < 8 * (j + n) \<Longrightarrow> \<not> bit_at f p \<Longrightarrow> \<forall>x. 8 * j \<le> x \<and> x < p \<longrightarrow> bit_at f x \<Longrightarrow>
    m = min (8 * (j + n) - p) nr \<Longrightarrow>
    if clear_run (bit_at f) p m
    then \<exists>g. smap_bytes sb i n j f nr 0 = Inr (g, nr - m, new_sect sb (i * 4096 + p)) \<and> filled f g p m
    else smap_bytes sb i n j f nr 0 = Inl (AFO 319)"
proof (induction n arbitrary: j)
  case (Suc n)
  show ?case
  proof (cases "p < 8 * Suc j")
    case False
    have "f j = 0xFF" using Suc.prems(4) False by (intro full_byteI) simp
    then have "smap_bytes sb i (Suc n) j f nr 0 = smap_bytes sb i n (Suc j) f nr 0" using assms(1) by simp
    moreover have "if clear_run (bit_at f) p m
      then \<exists>g. smap_bytes sb i n (Suc j) f nr 0 = Inr (g, nr - m, new_sect sb (i * 4096 + p)) \<and> filled f g p m
      else smap_bytes sb i n (Suc j) f nr 0 = Inl (AFO 319)"
      using Suc.prems False by (intro Suc.IH) auto
    ultimately show ?thesis by simp
  next
    case True
    define k where "k = p - 8 * j"
    have k: "k < 8" "p = 8 * j + k" using True Suc.prems(1) by (auto simp: k_def)
    have bits: "bit_at f (8 * j + x) = bit (f j) x" if "x < 8" for x by (rule bit_at_byte [OF that])
    have fz: "first_zero (f j) = k"
    proof (rule first_zero_eq [OF k(1)])
      show "\<not> bit (f j) k" using Suc.prems(3) bits [OF k(1)] k(2) by simp
      show "\<forall>x < k. bit (f j) x"
      proof (intro allI impI)
        fix x assume "x < k"
        then show "bit (f j) x" using Suc.prems(4) [rule_format, of "8 * j + x"] bits [of x] k by simp
      qed
    qed
    have nf: "f j \<noteq> 0xFF" unfolding full_byte using Suc.prems(3) k by (auto intro!: exI [of _ p])
    define F where "F = new_sect sb (i * 4096 + p)"
    define l where "l = min (8 - k) nr"
    define g1 where "g1 = f(j := with_bits k l (f j))"
    define m' where "m' = min (8 * n) (nr - l)"
    have l: "k + l \<le> 8" "m = l + m'" "nr - l - m' = nr - m" "0 < l"
      using Suc.prems(5) k assms(1) by (auto simp: l_def m'_def min_def)
    have c: "clear_run (bit_at f) p l = clear_run (bit (f j)) k l" unfolding k(2) by (rule clear_byte [OF l(1)])
    have fl: "filled f g1 p l" unfolding g1_def k(2) by (rule filled_byte [OF l(1)])
    have sect: "sint (word_of_int (int ((i * SECTOR_SIZE + j) * 8 + k) - 1) + n_1st_sect sb) = F"
      unfolding F_def new_sect_def k(2) by (simp add: algebra_simps)
    have step: "smap_bytes sb i (Suc n) j f nr 0 =
      (if clear_run (bit (f j)) k l then smap_bytes sb i n (Suc j) g1 (nr - l) F else Inl (AFO 319))"
      using assms(1) nf sect smap_bits_eq [of k "8 - k" nr "f j"] k(1) by (simp add: fz g1_def l_def Let_def)
    have split: "clear_run (bit_at f) p m \<longleftrightarrow> clear_run (bit (f j)) k l \<and> clear_run (bit_at f) (p + l) m'"
      unfolding l(2) clear_run_add c ..
    have F: "F \<noteq> 0" using assms(2) by (simp add: F_def)
    show ?thesis unfolding F_def [symmetric]
    proof (cases "nr \<le> 8 - k")
      case True
      then have z: "nr - l = 0" "m' = 0" "m = l" "nr - m = 0" using l by (auto simp: l_def m'_def)
      then have "smap_bytes sb i n (Suc j) g1 (nr - l) F = Inr (g1, nr - m, F)" by (cases n) simp_all
      then show "if clear_run (bit_at f) p m
        then \<exists>g. smap_bytes sb i (Suc n) j f nr 0 = Inr (g, nr - m, F) \<and> filled f g p m
        else smap_bytes sb i (Suc n) j f nr 0 = Inl (AFO 319)"
        using step fl split z by auto
    next
      case False
      then have pl: "p + l = 8 * Suc j" using k by (simp add: l_def)
      have c': "clear_run (bit_at g1) (8 * Suc j) m' = clear_run (bit_at f) (p + l) m'"
        using filled_clear [OF fl, of "8 * Suc j" m'] pl by simp
      have fl': "filled g1 h (8 * Suc j) m' \<Longrightarrow> filled f h p m" for h
        using filled_trans [OF fl, of h m'] pl l(2) by simp
      show "if clear_run (bit_at f) p m
        then \<exists>g. smap_bytes sb i (Suc n) j f nr 0 = Inr (g, nr - m, F) \<and> filled f g p m
        else smap_bytes sb i (Suc n) j f nr 0 = Inl (AFO 319)"
        using smap_bytes_run [OF F m'_def, of g1 "Suc j" sb i] step unfolding c' split l(3) by (auto intro: fl' split: if_splits)
    qed
  qed
qed simp

section \<open>Allocation in the map\<close>

definition only_map :: "part_info \<Rightarrow> fs_state \<Rightarrow> fs_state \<Rightarrow> nat \<Rightarrow> nat \<Rightarrow> bool" where
  "only_map part s s' lo hi \<longleftrightarrow> same_fs s s' \<and> (\<forall>b. b < lo \<or> hi \<le> b \<longrightarrow> (\<forall>j < SECTOR_SIZE. blk part s' b j = blk part s b j))"

lemma only_mapD:
  assumes "only_map part s s' lo hi"
  shows only_map_same: "same_fs s s'"
    and only_map_blk: "b < lo \<or> hi \<le> b \<Longrightarrow> j < SECTOR_SIZE \<Longrightarrow> blk part s' b j = blk part s b j"
  using assms unfolding only_map_def by blast+

lemma only_map_trans: "only_map part s t lo hi \<Longrightarrow> only_map part t u lo hi \<Longrightarrow> only_map part s u lo hi"
  using same_fs_trans by (auto simp: only_map_def)

lemma only_map_edit: "lo \<le> n \<Longrightarrow> n < hi \<Longrightarrow> only_map part s (edit_blk part n f s) lo hi"
  using edit_blk_same [of s] by (auto simp: only_map_def blk_edit)

lemma only_map_read: "only_map part s (read_blk part n s) lo hi"
  using same_fs_rw(3) by (auto simp: only_map_def)

lemma sector_iff: "x div 4096 = i \<longleftrightarrow> 4096 * i \<le> x \<and> x < 4096 * i + (4096 :: nat)"
  by (auto simp: div_nat_eqI)

lemma buf_bit: "y < 4096 \<Longrightarrow> bit_at (fsbuf (read_blk part (b0 + i) s)) y \<longleftrightarrow> 4096 * i + y \<in> map_set part s b0"
  using bit_at_cong [of "fsbuf (read_blk part (b0 + i) s)" "blk part s (b0 + i)" y]
  by (simp add: map_set_iff fsbuf_read)

lemma buf_clear: "a + m \<le> 4096 \<Longrightarrow> clear_run (bit_at (fsbuf (read_blk part (b0 + i) s))) a m \<longleftrightarrow>
    clear_run (\<lambda>x. x \<in> map_set part s b0) (4096 * i + a) m"
proof -
  assume am: "a + m \<le> 4096"
  have eq: "{4096 * i + a..<4096 * i + a + m} = (+) (4096 * i) ` {a..<a + m}" by (simp add: ac_simps)
  show ?thesis unfolding clear_run_def eq ball_simps(9) by (rule ball_cong [OF refl]) (use am in \<open>simp add: buf_bit\<close>)
qed

text \<open>One sector of the map is filled in and written back.\<close>

lemma fill_sector:
  assumes f: "filled (fsbuf (read_blk part (b0 + i) s)) g a m" and am: "a + m \<le> 4096"
  shows "x \<in> map_set part (edit_blk part (b0 + i) g s) b0 \<longleftrightarrow>
    x \<in> map_set part s b0 \<or> 4096 * i + a \<le> x \<and> x < 4096 * i + a + m"
proof (cases "x div 4096 = i")
  case True
  have x: "4096 * i + x mod 4096 = x" using div_mult_mod_eq [of x 4096] True by simp
  have "bit_at g (x mod 4096) \<longleftrightarrow> x \<in> map_set part s b0 \<or> a \<le> x mod 4096 \<and> x mod 4096 < a + m"
    using f buf_bit [of "x mod 4096" part b0 i s] x by (simp add: filled_def)
  moreover have "(a \<le> x mod 4096 \<and> x mod 4096 < a + m) = (4096 * i + a \<le> x \<and> x < 4096 * i + a + m)"
    using x by linarith
  ultimately show ?thesis using True by (simp add: map_set_edit)
next
  case False
  then have "\<not> (4096 * i + a \<le> x \<and> x < 4096 * i + a + m)" using sector_iff [of x i] am by linarith
  then have "(4096 * i + a \<le> x \<and> x < 4096 * i + a + m) = False" by blast
  then show ?thesis using False by (simp only: map_set_edit if_False simp_thms)
qed

lemma smap_sects_step:
  assumes d: "fs_dev s dev part" and r: "reach part (b0 + i)"
    and b: "smap_bytes sb i SECTOR_SIZE 0 (fsbuf (read_blk part (b0 + i) s)) nr free = Inr (g, nr', free')" and z: "free' \<noteq> 0"
  shows "smap_sects sb dev (int b0) (Suc n) i nr free s =
    (if nr' = 0 then Inr ((nr', free'), edit_blk part (b0 + i) g s)
     else smap_sects sb dev (int b0) n (Suc i) nr' free' (edit_blk part (b0 + i) g s))"
proof -
  have t: "fs_dev ((read_blk part (b0 + i) s)\<lparr>fsbuf := g\<rparr>) dev part" by (rule same_fs_dev [OF same_fs_rw(1) d])
  show ?thesis using RD_SECT_eq [OF d r] WR_SECT_eq [OF t r] b z by (simp add: edit_blk_def)
qed

lemma smap_sects_fail:
  assumes "fs_dev s dev part" and "reach part (b0 + i)"
    and "smap_bytes sb i SECTOR_SIZE 0 (fsbuf (read_blk part (b0 + i) s)) nr free = Inl e"
  shows "smap_sects sb dev (int b0) (Suc n) i nr free s = Inl e"
  using RD_SECT_eq [OF assms(1,2)] assms(3) by simp

text \<open>What the allocation makes of the map: the run of \<open>nr\<close> bits from \<open>a\<close> is set.\<close>

definition allocates :: "part_info \<Rightarrow> fs_state \<Rightarrow> fs_state \<Rightarrow> nat \<Rightarrow> nat \<Rightarrow> nat \<Rightarrow> nat \<Rightarrow> bool" where
  "allocates part s s' b0 hi a nr \<longleftrightarrow> only_map part s s' b0 hi \<and>
     (\<forall>x. x \<in> map_set part s' b0 \<longleftrightarrow> x \<in> map_set part s b0 \<or> a \<le> x \<and> x < a + nr)"

lemma allocates_trans:
  "allocates part s t b0 hi a m \<Longrightarrow> allocates part t u b0 hi (a + m) l \<Longrightarrow> allocates part s u b0 hi a (m + l)"
proof -
  have "a \<le> x \<and> x < a + (m + l) \<longleftrightarrow> a \<le> x \<and> x < a + m \<or> a + m \<le> x \<and> x < a + m + l" for x by arith
  then show "allocates part s t b0 hi a m \<Longrightarrow> allocates part t u b0 hi (a + m) l \<Longrightarrow> allocates part s u b0 hi a (m + l)"
    using only_map_trans unfolding allocates_def by blast
qed

lemma fill_allocates:
  assumes "filled (fsbuf (read_blk part (b0 + i) s)) g a m" and "a + m \<le> 4096" and "b0 + i < hi"
  shows "allocates part s (edit_blk part (b0 + i) g s) b0 hi (4096 * i + a) m"
  using fill_sector [OF assms(1,2)] only_map_edit [of b0 "b0 + i" hi part s g] assms(3) by (simp add: allocates_def)

lemma smap_sects_run:
  assumes F: "F \<noteq> 0"
  shows "fs_dev s dev part \<Longrightarrow> \<forall>k < i + n. reach part (b0 + k) \<Longrightarrow> 0 < nr \<Longrightarrow> nr \<le> 4096 * n \<Longrightarrow>
    if clear_run (\<lambda>x. x \<in> map_set part s b0) (4096 * i) nr
    then \<exists>s'. smap_sects sb dev (int b0) n i nr F s = Inr ((0, F), s') \<and> allocates part s s' b0 (b0 + i + n) (4096 * i) nr
    else smap_sects sb dev (int b0) n i nr F s = Inl (AFO 319)"
proof (induction n arbitrary: i nr s)
  case (Suc n)
  define m where "m = min 4096 nr"
  have m: "0 + m \<le> 4096" "nr = m + (nr - m)" by (simp_all add: m_def)
  let ?f = "fsbuf (read_blk part (b0 + i) s)"
  have r: "reach part (b0 + i)" using Suc.prems(2) by simp
  have c: "clear_run (bit_at ?f) 0 m = clear_run (\<lambda>x. x \<in> map_set part s b0) (4096 * i) m"
    using buf_clear [OF m(1), of part b0 i s] by simp
  note split = clear_run_add [of "\<lambda>x. x \<in> map_set part s b0" "4096 * i" m "nr - m", folded m(2)]
  have b: "if clear_run (bit_at ?f) 0 m
      then \<exists>g. smap_bytes sb i 512 0 ?f nr F = Inr (g, nr - m, F) \<and> filled ?f g 0 m
      else smap_bytes sb i 512 0 ?f nr F = Inl (AFO 319)"
    using smap_bytes_run [OF F, of m 512 nr ?f 0 sb i] unfolding mult_0_right m_def by simp
  show ?case
  proof (cases "clear_run (bit_at ?f) 0 m")
    case False
    then have "smap_bytes sb i 512 0 ?f nr F = Inl (AFO 319)" using b by simp
    then have "smap_sects sb dev (int b0) (Suc n) i nr F s = Inl (AFO 319)"
      by (intro smap_sects_fail [OF Suc.prems(1) r]) simp
    then show ?thesis using False split c by simp
  next
    case True
    then obtain g where g: "smap_bytes sb i 512 0 ?f nr F = Inr (g, nr - m, F)" "filled ?f g 0 m" using b by auto
    define t where "t = edit_blk part (b0 + i) g s"
    have al: "allocates part s t b0 (b0 + i + Suc n) (4096 * i) m"
      using fill_allocates [OF g(2) m(1), of "b0 + i + Suc n"] by (simp add: t_def)
    note step = smap_sects_step [OF Suc.prems(1) r, where g = g and nr = nr and nr' = "nr - m" and free = F and free' = F and n = n, OF _ F, folded t_def]
    have step: "smap_sects sb dev (int b0) (Suc n) i nr F s =
      (if nr - m = 0 then Inr ((nr - m, F), t) else smap_sects sb dev (int b0) n (Suc i) (nr - m) F t)"
      by (rule step) (use g in simp)
    show ?thesis
    proof (cases "nr - m = 0")
      case True
      then have "nr = m" using m(2) by simp
      then show ?thesis using step al split c \<open>clear_run (bit_at ?f) 0 m\<close> by auto
    next
      case False
      have td: "fs_dev t dev part" unfolding t_def by (rule same_fs_dev [OF edit_blk_same Suc.prems(1)])
      have m4: "m = 4096" using False by (simp add: m_def)
      have pos: "4096 * i + m = 4096 * Suc i" using m4 by simp
      have ct: "clear_run (\<lambda>x. x \<in> map_set part t b0) (4096 * Suc i) (nr - m) =
          clear_run (\<lambda>x. x \<in> map_set part s b0) (4096 * i + m) (nr - m)"
        unfolding pos by (rule clear_run_cong) (use al m4 in \<open>auto simp: allocates_def\<close>)
      have hi: "b0 + i + Suc n = b0 + Suc i + n" by simp
      have "if clear_run (\<lambda>x. x \<in> map_set part t b0) (4096 * Suc i) (nr - m)
        then \<exists>s'. smap_sects sb dev (int b0) n (Suc i) (nr - m) F t = Inr ((0, F), s') \<and>
          allocates part t s' b0 (b0 + Suc i + n) (4096 * Suc i) (nr - m)
        else smap_sects sb dev (int b0) n (Suc i) (nr - m) F t = Inl (AFO 319)"
        using Suc.prems False m4 by (intro Suc.IH [OF td]) auto
      moreover have "allocates part s s' b0 (b0 + i + Suc n) (4096 * i) nr"
        if "allocates part t s' b0 (b0 + Suc i + n) (4096 * Suc i) (nr - m)" for s'
        using allocates_trans [OF al, of s' "nr - m"] that m(2) unfolding pos hi by simp
      ultimately show ?thesis using step split c \<open>clear_run (bit_at ?f) 0 m\<close> False unfolding ct by (auto split: if_splits)
    qed
  qed
qed simp

lemma smap_sects_search:
  assumes nr: "0 < nr" and F: "new_sect sb p \<noteq> 0" and p: "p \<notin> map_set part s b0"
  shows "fs_dev s dev part \<Longrightarrow> \<forall>k < i + n. reach part (b0 + k) \<Longrightarrow> 4096 * i \<le> p \<Longrightarrow> p + nr \<le> 4096 * (i + n) \<Longrightarrow>
    \<forall>x. 4096 * i \<le> x \<and> x < p \<longrightarrow> x \<in> map_set part s b0 \<Longrightarrow>
    if clear_run (\<lambda>x. x \<in> map_set part s b0) p nr
    then \<exists>s'. smap_sects sb dev (int b0) n i nr 0 s = Inr ((0, new_sect sb p), s') \<and> allocates part s s' b0 (b0 + i + n) p nr
    else smap_sects sb dev (int b0) n i nr 0 s = Inl (AFO 319)"
  using p
proof (induction n arbitrary: i s)
  case (Suc n)
  let ?f = "fsbuf (read_blk part (b0 + i) s)"
  have r: "reach part (b0 + i)" using Suc.prems(2) by simp
  have bits: "bit_at ?f y = (4096 * i + y \<in> map_set part s b0)" if "y < 4096" for y by (rule buf_bit [OF that])
  have hi: "b0 + i + Suc n = b0 + Suc i + n" by simp
  show ?case
  proof (cases "p < 4096 * Suc i")
    case False
    have "\<forall>x. 8 * 0 \<le> x \<and> x < 8 * (0 + 512) \<longrightarrow> bit_at ?f x" using Suc.prems(5) False bits by auto
    from smap_bytes_full [OF this, of sb i nr]
    have "smap_sects sb dev (int b0) (Suc n) i nr 0 s = smap_sects sb dev (int b0) n (Suc i) nr 0 (read_blk part (b0 + i) s)"
      using RD_SECT_eq [OF Suc.prems(1) r] nr by simp
    moreover have "allocates part s s' b0 (b0 + i + Suc n) p nr" if "allocates part (read_blk part (b0 + i) s) s' b0 (b0 + Suc i + n) p nr" for s'
    proof -
      have "map_set part (read_blk part (b0 + i) s) b0 = map_set part s b0" by (auto simp: map_set_iff)
      then show ?thesis using that only_map_trans [OF only_map_read] unfolding allocates_def hi by metis
    qed
    moreover have ms: "x \<in> map_set part (read_blk part (b0 + i) s) b0 \<longleftrightarrow> x \<in> map_set part s b0" for x by (simp add: map_set_iff)
    moreover have "if clear_run (\<lambda>x. x \<in> map_set part (read_blk part (b0 + i) s) b0) p nr
      then \<exists>s'. smap_sects sb dev (int b0) n (Suc i) nr 0 (read_blk part (b0 + i) s) = Inr ((0, new_sect sb p), s') \<and>
        allocates part (read_blk part (b0 + i) s) s' b0 (b0 + Suc i + n) p nr
      else smap_sects sb dev (int b0) n (Suc i) nr 0 (read_blk part (b0 + i) s) = Inl (AFO 319)"
    proof (rule Suc.IH)
      show "fs_dev (read_blk part (b0 + i) s) dev part" by (rule same_fs_dev [OF same_fs_rw(3) Suc.prems(1)])
    qed (use Suc.prems False in \<open>auto simp: ms\<close>)
    ultimately show ?thesis by (auto split: if_splits)
  next
    case True
    define q where "q = p - 4096 * i"
    have q: "q < 4096" "p = 4096 * i + q" using True Suc.prems(3) by (auto simp: q_def)
    define m where "m = min (4096 - q) nr"
    have m: "q + m \<le> 4096" "nr = m + (nr - m)" using q(1) by (auto simp: m_def)
    define F where "F = new_sect sb p"
    have F0: "F \<noteq> 0" using F by (simp add: F_def)
    have Fi: "new_sect sb (i * 4096 + q) = F" "new_sect sb (i * 4096 + q) \<noteq> 0" using F0 by (simp_all add: F_def q(2) mult.commute)
    have c: "clear_run (bit_at ?f) q m = clear_run (\<lambda>x. x \<in> map_set part s b0) p m"
      unfolding q(2) by (rule buf_clear [OF m(1)])
    note split = clear_run_add [of "\<lambda>x. x \<in> map_set part s b0" p m "nr - m", folded m(2)]
    have b: "if clear_run (bit_at ?f) q m
        then \<exists>g. smap_bytes sb i 512 0 ?f nr 0 = Inr (g, nr - m, F) \<and> filled ?f g q m
        else smap_bytes sb i 512 0 ?f nr 0 = Inl (AFO 319)"
      unfolding Fi(1) [symmetric]
    proof (rule smap_bytes_search [OF nr Fi(2)])
      show "\<not> bit_at ?f q" using bits [OF q(1)] Suc.prems(6) q(2) by simp
      show "\<forall>x. 8 * 0 \<le> x \<and> x < q \<longrightarrow> bit_at ?f x" using bits Suc.prems(5) q by auto
      show "m = min (8 * (0 + 512) - q) nr" by (simp add: m_def)
    qed (use q(1) in simp_all)
    show ?thesis unfolding F_def [symmetric]
    proof (cases "clear_run (bit_at ?f) q m")
      case False
      then have "smap_bytes sb i 512 0 ?f nr 0 = Inl (AFO 319)" using b by simp
      then have "smap_sects sb dev (int b0) (Suc n) i nr 0 s = Inl (AFO 319)"
        by (intro smap_sects_fail [OF Suc.prems(1) r]) simp
      then show "if clear_run (\<lambda>x. x \<in> map_set part s b0) p nr
        then \<exists>s'. smap_sects sb dev (int b0) (Suc n) i nr 0 s = Inr ((0, F), s') \<and> allocates part s s' b0 (b0 + i + Suc n) p nr
        else smap_sects sb dev (int b0) (Suc n) i nr 0 s = Inl (AFO 319)" using False split c by simp
    next
      case True
      then obtain g where g: "smap_bytes sb i 512 0 ?f nr 0 = Inr (g, nr - m, F)" "filled ?f g q m" using b by auto
      define t where "t = edit_blk part (b0 + i) g s"
      have al: "allocates part s t b0 (b0 + i + Suc n) p m"
        using fill_allocates [OF g(2) m(1), of "b0 + i + Suc n"] by (simp add: t_def q(2))
      have step: "smap_sects sb dev (int b0) (Suc n) i nr 0 s =
        (if nr - m = 0 then Inr ((nr - m, F), t) else smap_sects sb dev (int b0) n (Suc i) (nr - m) F t)"
        unfolding t_def by (rule smap_sects_step [OF Suc.prems(1) r _ F0]) (use g in simp)
      show "if clear_run (\<lambda>x. x \<in> map_set part s b0) p nr
        then \<exists>s'. smap_sects sb dev (int b0) (Suc n) i nr 0 s = Inr ((0, F), s') \<and> allocates part s s' b0 (b0 + i + Suc n) p nr
        else smap_sects sb dev (int b0) (Suc n) i nr 0 s = Inl (AFO 319)"
      proof (cases "nr - m = 0")
        case True
        then have "nr = m" using m(2) by simp
        then show ?thesis using step al split c \<open>clear_run (bit_at ?f) q m\<close> by auto
      next
        case False
        have td: "fs_dev t dev part" unfolding t_def by (rule same_fs_dev [OF edit_blk_same Suc.prems(1)])
        have pos: "p + m = 4096 * Suc i" using False q by (simp add: m_def min_def split: if_splits)
        have ct: "clear_run (\<lambda>x. x \<in> map_set part t b0) (4096 * Suc i) (nr - m) =
            clear_run (\<lambda>x. x \<in> map_set part s b0) (p + m) (nr - m)"
          unfolding pos by (rule clear_run_cong) (use al pos in \<open>auto simp: allocates_def\<close>)
        have "if clear_run (\<lambda>x. x \<in> map_set part t b0) (4096 * Suc i) (nr - m)
          then \<exists>s'. smap_sects sb dev (int b0) n (Suc i) (nr - m) F t = Inr ((0, F), s') \<and>
            allocates part t s' b0 (b0 + Suc i + n) (4096 * Suc i) (nr - m)
          else smap_sects sb dev (int b0) n (Suc i) (nr - m) F t = Inl (AFO 319)"
          using Suc.prems(2,4) False pos by (intro smap_sects_run [OF F0 td]) auto
        moreover have "allocates part s s' b0 (b0 + i + Suc n) p nr"
          if "allocates part t s' b0 (b0 + Suc i + n) (4096 * Suc i) (nr - m)" for s'
          using allocates_trans [OF al, of s' "nr - m"] that m(2) unfolding pos hi by simp
        ultimately show ?thesis using step split c \<open>clear_run (bit_at ?f) q m\<close> False unfolding ct by (auto split: if_splits)
      qed
    qed
  qed
qed (use nr in simp)

lemma int_pred: "0 < a \<Longrightarrow> int (a - 1) = int a - 1"
  by (simp add: of_nat_diff)

lemma new_sect_eq:
  assumes "x + unat (n_1st_sect sb) < 2 ^ 31" and "0 < x + unat (n_1st_sect sb)"
  shows "new_sect sb x = int (x + unat (n_1st_sect sb)) - 1"
proof -
  define k where "k = x + unat (n_1st_sect sb) - 1"
  have "(word_of_int (int x - 1) + n_1st_sect sb :: u32) = word_of_int (int x - 1 + int (unat (n_1st_sect sb)))"
    by simp
  also have "int x - 1 + int (unat (n_1st_sect sb)) = int k" unfolding k_def int_pred [OF assms(2)] by simp
  finally have "(word_of_int (int x - 1) + n_1st_sect sb :: u32) = word_of_nat k" by simp
  then have "new_sect sb x = int k" unfolding new_sect_def using assms(1) by (simp only:) (rule sint_word_of_nat, simp add: k_def)
  then show ?thesis unfolding k_def int_pred [OF assms(2)] .
qed

abbreviation (input) smap0 :: "super_block \<Rightarrow> nat" where "smap0 sb \<equiv> 2 + unat (nr_imap_sects sb)"

text \<open>
  \<open>alloc_smap_bit\<close> takes the first free position \<open>p\<close> of the map and stops in an
  assertion when the run behind it is too short.
\<close>

lemma alloc_smap_bit_eq:
  assumes g: "geom s dev part sb" and nr: "0 < nr"
    and p: "p \<notin> map_set part s (smap0 sb)" "\<forall>x < p. x \<in> map_set part s (smap0 sb)" "p + nr \<le> 4096 * unat (nr_smap_sects sb)"
    and sect: "p + unat (n_1st_sect sb) < 2 ^ 31" "1 < p + unat (n_1st_sect sb)"
  shows "if clear_run (\<lambda>x. x \<in> map_set part s (smap0 sb)) p nr
    then \<exists>s'. alloc_smap_bit s dev nr = Inr (int (p + unat (n_1st_sect sb)) - 1, s') \<and>
      allocates part s s' (smap0 sb) (smap0 sb + unat (nr_smap_sects sb)) p nr
    else alloc_smap_bit s dev nr = Inl (AFO 319)"
proof -
  have ns: "new_sect sb p = int (p + unat (n_1st_sect sb)) - 1" by (rule new_sect_eq) (use sect in linarith)+
  have b0: "sint (1 + 1 + nr_imap_sects sb) = int (smap0 sb)"
  proof -
    have "1 + 1 + nr_imap_sects sb = (word_of_nat (smap0 sb) :: u32)" by simp
    moreover have "smap0 sb < 2 ^ 31" using sb_bounds [OF g] by simp
    ultimately show ?thesis by (simp only: sint_word_of_nat)
  qed
  have "if clear_run (\<lambda>x. x \<in> map_set part s (smap0 sb)) p nr
    then \<exists>s'. smap_sects sb dev (int (smap0 sb)) (unat (nr_smap_sects sb)) 0 nr 0 s = Inr ((0, new_sect sb p), s') \<and>
      allocates part s s' (smap0 sb) (smap0 sb + 0 + unat (nr_smap_sects sb)) p nr
    else smap_sects sb dev (int (smap0 sb)) (unat (nr_smap_sects sb)) 0 nr 0 s = Inl (AFO 319)"
  proof (rule smap_sects_search [OF nr _ p(1) geom_dev [OF g]])
    show "new_sect sb p \<noteq> 0" using sect(2) unfolding ns by linarith
    show "\<forall>k < 0 + unat (nr_smap_sects sb). reach part (smap0 sb + k)" by (auto intro!: geom_reach [OF g])
  qed (use p in simp_all)
  then show ?thesis unfolding alloc_smap_bit_def geom_sb [OF g] ns sum.case b0 by (auto split: if_splits)
qed

section \<open>The inode map\<close>

lemma filled_one: "k < 8 \<Longrightarrow> filled f (f(j := f j OR push_bit k 1)) (8 * j + k) 1"
  using filled_byte [of k 1 f j] by (simp add: with_bits_def mask_Suc_0)

lemma alloc_imap_bit_eq:
  assumes g: "geom s dev part sb" and im: "nr_imap_sects sb \<noteq> 0"
    and p: "p < 4096" "p \<notin> map_set part s 2" "\<forall>x < p. x \<in> map_set part s 2"
  shows "\<exists>s'. alloc_imap_bit s dev = Inr (int p, s') \<and> allocates part s s' 2 3 p 1"
proof -
  let ?f = "fsbuf (read_blk part 2 s)"
  have bits: "bit_at ?f y = (y \<in> map_set part s 2)" if "y < 4096" for y using buf_bit [OF that, of part 2 0 s] by simp
  define j k where "j = p div 8" and "k = p mod 8"
  have jk: "j < 512" "k < 8" "p = 8 * j + k" using p(1) by (auto simp: j_def k_def)
  have full: "?f i = 0xFF" if "i < j" for i
    by (rule full_byteI) (use that p(3) jk bits in \<open>auto simp: p(1)\<close>)
  have nf: "?f j \<noteq> 0xFF" unfolding full_byte using bits [OF p(1)] p(2) by (auto intro!: exI [of _ p] simp: j_def)
  have fz: "first_zero (?f j) = k"
  proof (rule first_zero_eq [OF jk(2)])
    show "\<not> bit (?f j) k" using bits [OF p(1)] p(2) bit_at_byte [OF jk(2), of ?f j] jk(3) by simp
    show "\<forall>x < k. bit (?f j) x"
    proof (intro allI impI)
      fix x assume "x < k"
      then show "bit (?f j) x" using p(3) [rule_format, of "8 * j + x"] bits [of "8 * j + x"] bit_at_byte [of x ?f j] jk p(1) by simp
    qed
  qed
  have fd: "find (\<lambda>j. ?f j \<noteq> 0xFF) [0..<512] = Some j" using full nf jk(1) by (auto simp: find_upt)
  have r: "reach part 2" by (rule geom_reach [OF g]) simp
  define f' where "f' = ?f(j := ?f j OR push_bit k 1)"
  have d: "fs_dev ((read_blk part 2 s)\<lparr>fsbuf := f'\<rparr>) dev part" by (rule same_fs_dev [OF same_fs_rw(1) geom_dev [OF g]])
  have run: "alloc_imap_bit s dev = Inr (int p, edit_blk part 2 f' s)"
    using im RD_SECT_eq [OF geom_dev [OF g] r] WR_SECT_eq [OF d r] fd fz jk(3)
    by (simp add: alloc_imap_bit_def geom_sb [OF g] f'_def edit_blk_def Let_def mult.commute)
  have "filled ?f f' p 1" unfolding f'_def jk(3) by (rule filled_one [OF jk(2)])
  then have "allocates part s (edit_blk part 2 f' s) 2 3 p 1"
    using fill_allocates [of part 2 0 s f' p 1 3] p(1) by simp
  with run show ?thesis by blast
qed

end
