(* ===== verification/FsFree.thy ===== *)
theory FsFree
  imports FsMap
begin

unbundle bit_operations_syntax

text \<open>
  The other direction: \<open>do_unlink\<close> takes the bits of a file out of the two maps.  The
  loops keep the sector they work on in the buffer, and write it when they come to
  its end; \<open>overlay\<close> is the map as it will be when the buffer is written.
\<close>

section \<open>The sector in the buffer\<close>

lemma overlay_bit: "y < 4096 \<Longrightarrow> bit_at (fsbuf s) y \<longleftrightarrow> 4096 * q + y \<in> overlay part s b0 q"
proof -
  assume "y < 4096"
  then have "(4096 * q + y) div 4096 = q" "(4096 * q + y) mod 4096 = y" by simp_all
  then show ?thesis by (simp add: overlay_def)
qed

lemma div_mod_iff: "i < n \<Longrightarrow> z = n * q + i \<longleftrightarrow> z div n = q \<and> z mod n = (i :: nat)"
  using mult_div_mod_eq [of n z] by auto

lemma byte_of: "i < 512 \<Longrightarrow> x div 8 = 512 * q + i \<longleftrightarrow> x div 4096 = q \<and> x mod 4096 div 8 = (i :: nat)"
  unfolding sector_bit [symmetric] by (rule div_mod_iff)

lemma overlay_upd:
  assumes "i < 512"
  shows "x \<in> overlay part (s\<lparr>fsbuf := (fsbuf s)(i := b)\<rparr>) b0 q \<longleftrightarrow>
    (if x div 8 = 512 * q + i then bit b (x mod 8) else x \<in> overlay part s b0 q)"
  unfolding overlay_def by (auto simp: bit_at_def byte_of [OF assms] sector_bit(3) map_set_iff)

lemma overlay_read: "overlay part (read_blk part (b0 + q) s) b0 q = map_set part s b0"
proof (rule set_eqI)
  fix x
  show "x \<in> overlay part (read_blk part (b0 + q) s) b0 q \<longleftrightarrow> x \<in> map_set part s b0"
    using bit_at_cong [of "fsbuf (read_blk part (b0 + q) s)" "blk part s (b0 + q)" "x mod 4096"]
    by (cases "x div 4096 = q") (simp_all add: overlay_def map_set_iff fsbuf_read)
qed

lemma overlay_write: "map_set part (write_blk part (b0 + q) s) b0 = overlay part s b0 q"
proof (rule set_eqI)
  fix x
  show "x \<in> map_set part (write_blk part (b0 + q) s) b0 \<longleftrightarrow> x \<in> overlay part s b0 q"
    using bit_at_cong [of "blk part (write_blk part (b0 + q) s) (b0 + q)" "fsbuf s" "x mod 4096"]
    by (cases "x div 4096 = q") (simp_all add: overlay_def map_set_iff blk_write blk_write_other)
qed

lemma only_map_write: "lo \<le> n \<Longrightarrow> n < hi \<Longrightarrow> only_map part s (write_blk part n s) lo hi"
  using same_fs_rw(2) [of s] by (auto simp: only_map_def blk_write)

lemma only_map_refl: "only_map part s s lo hi"
  using same_fs_refl by (simp add: only_map_def)

lemma only_map_buf: "only_map part s (s\<lparr>fsbuf := f\<rparr>) lo hi"
  using same_fs_rw(4) by (simp add: only_map_def)

section \<open>Clearing bits\<close>

lemma clear_first_eq:
  "i + n \<le> 8 \<Longrightarrow> \<forall>x \<in> {i..<i + min n l}. bit b x \<Longrightarrow> clear_first n i b l = Inr (without_bits i (min n l) b, l - min n l)"
proof (induction n arbitrary: i b l)
  case 0
  then show ?case by (simp add: without_bits_def)
next
  case (Suc n)
  show ?case
  proof (cases "l = 0")
    case True
    then show ?thesis by (simp add: without_bits_def)
  next
    case False
    then have m: "min (Suc n) l = Suc (min n (l - 1))" by auto
    have b: "bit b i" using Suc.prems(2) m by simp
    have "\<forall>x \<in> {Suc i..<Suc i + min n (l - 1)}. bit (b AND NOT (push_bit i 1)) x"
      using Suc.prems m by (auto simp: bit_simps)
    then have "clear_first n (Suc i) (b AND NOT (push_bit i 1)) (l - 1) =
      Inr (without_bits (Suc i) (min n (l - 1)) (b AND NOT (push_bit i 1)), l - 1 - min n (l - 1))"
      using Suc.prems(1) by (intro Suc.IH) simp_all
    then show ?thesis using False b m without_bits_step [OF m, of i b] Suc.prems(1) by simp
  qed
qed

lemma next_map_sect_eq:
  assumes d: "fs_dev s dev part" and r: "\<forall>k \<le> hi. reach part (b0 + k)"
    and i: "1 \<le> i" "i \<le> 512" "512 * q + i \<le> 512 * hi"
  obtains i' q' s' where "next_map_sect dev i (int (b0 + q)) s = Inr ((i', int (b0 + q')), s')"
    and "512 * q' + i' = 512 * q + i" "i' < 512" and "overlay part s' b0 q' = overlay part s b0 q"
    and "only_map part s s' b0 (b0 + hi)" and "q' = hi \<Longrightarrow> \<forall>j < 512. fsbuf s' j = blk part s' (b0 + q') j"
proof (cases "i = 512")
  case False
  then have "q < hi" using i by simp
  then show thesis using i False by (intro that [of i q s]) (simp_all add: next_map_sect_def only_map_refl)
next
  case True
  then have q: "q < hi" using i by simp
  let ?w = "write_blk part (b0 + q) s"
  have w: "WR_SECT s dev (int (b0 + q)) = Inr ?w" using r q by (intro WR_SECT_eq [OF d]) simp
  have "RD_SECT ?w dev (int (b0 + Suc q)) = Inr (read_blk part (b0 + Suc q) ?w)"
    using r [rule_format, of "Suc q"] q by (intro RD_SECT_eq [OF same_fs_dev [OF same_fs_rw(2) d]]) simp
  then have step: "next_map_sect dev i (int (b0 + q)) s = Inr ((0, int (b0 + Suc q)), read_blk part (b0 + Suc q) ?w)"
    using w True by (simp add: next_map_sect_def add.commute)
  show thesis
  proof (rule that [OF step])
    show "overlay part (read_blk part (b0 + Suc q) ?w) b0 (Suc q) = overlay part s b0 q"
      unfolding overlay_read overlay_write ..
    show "only_map part s (read_blk part (b0 + Suc q) ?w) b0 (b0 + hi)"
      using q by (intro only_map_trans [OF only_map_write only_map_read]) simp_all
    show "\<forall>j < 512. fsbuf (read_blk part (b0 + Suc q) ?w) j = blk part (read_blk part (b0 + Suc q) ?w) (b0 + Suc q) j"
      by (simp add: fsbuf_read)
  qed (use True in simp_all)
qed

lemma overlay_byte:
  assumes "i < 512" and "m \<le> 8"
  shows "overlay part (s\<lparr>fsbuf := (fsbuf s)(i := without_bits k m (fsbuf s i))\<rparr>) b0 q =
    overlay part s b0 q - {x. x div 8 = 512 * q + i \<and> k \<le> x mod 8 \<and> x mod 8 < k + m}"
proof (rule set_eqI)
  fix x
  have "bit (fsbuf s i) (x mod 8) = (x \<in> overlay part s b0 q)" if x: "x div 8 = 512 * q + i"
  proof -
    have "x div 4096 = q" "x mod 4096 div 8 = i" using byte_of [OF assms(1)] x by blast+
    then show ?thesis by (simp add: overlay_def bit_at_def sector_bit(3))
  qed
  then show "x \<in> overlay part (s\<lparr>fsbuf := (fsbuf s)(i := without_bits k m (fsbuf s i))\<rparr>) b0 q \<longleftrightarrow>
      x \<in> overlay part s b0 q - {x. x div 8 = 512 * q + i \<and> k \<le> x mod 8 \<and> x mod 8 < k + m}"
    unfolding overlay_upd [OF assms(1)] by (auto simp: bit_without_bits)
qed

lemma byte_range:
  fixes k m P :: nat
  assumes "k + m \<le> 8"
  shows "{x. x div 8 = P \<and> k \<le> x mod 8 \<and> x mod 8 < k + m} = {8 * P + k..<8 * P + k + m}"
proof (rule set_eqI)
  fix x :: nat
  have "(x div 8 = P \<and> k \<le> x mod 8 \<and> x mod 8 < k + m) = (8 * P + k \<le> x \<and> x < 8 * P + k + m)"
  proof (cases "x div 8 = P")
    case True
    then show ?thesis using div_mult_mod_eq [of x 8] by linarith
  next
    case False
    then show ?thesis using in_byte [of P k x m] assms by blast
  qed
  then show "x \<in> {x. x div 8 = P \<and> k \<le> x mod 8 \<and> x mod 8 < k + m} \<longleftrightarrow> x \<in> {8 * P + k..<8 * P + k + m}" by simp
qed

text \<open>Clearing the bits from position \<open>8 * P + k\<close> on in the byte \<open>P\<close> of the map.\<close>

lemma clear_byte_overlay:
  assumes "i < 512" and "k + m \<le> 8"
  shows "overlay part (s\<lparr>fsbuf := (fsbuf s)(i := without_bits k m (fsbuf s i))\<rparr>) b0 q =
    overlay part s b0 q - {8 * (512 * q + i) + k..<8 * (512 * q + i) + k + m}"
  using overlay_byte [OF assms(1), of m part s k b0 q] byte_range [OF assms(2), of "512 * q + i"] assms(2) by simp

lemma without_all: "without_bits 0 8 b = 0"
  by (rule bits_eqI) (simp add: bit_without_bits)

lemma buffer_full:
  assumes "i < 512" and "{8 * (512 * q + i)..<8 * (512 * q + i) + 8} \<subseteq> overlay part s b0 q"
  shows "fsbuf s i = 0xFF"
proof (rule full_byteI)
  fix x assume x: "8 * i \<le> x" "x < 8 * i + 8"
  then have "4096 * q + x \<in> {8 * (512 * q + i)..<8 * (512 * q + i) + 8}" by simp
  then show "bit_at (fsbuf s) x" using x assms overlay_bit [of x s q part b0] by auto
qed

lemma clear_bytes_eq:
  "fs_dev s dev part \<Longrightarrow> \<forall>k \<le> hi. reach part (b0 + k) \<Longrightarrow> 1 \<le> i \<Longrightarrow> i \<le> 512 \<Longrightarrow> P = 512 * q + i \<Longrightarrow> P + n \<le> 512 * hi \<Longrightarrow>
   {8 * P..<8 * (P + n)} \<subseteq> overlay part s b0 q \<Longrightarrow>
   \<exists>i' q' s'. clear_bytes dev n i (int (b0 + q)) L s = Inr ((i', int (b0 + q'), L - 8 * int n), s') \<and>
     512 * q' + i' = P + n \<and> 1 \<le> i' \<and> i' \<le> 512 \<and> overlay part s' b0 q' = overlay part s b0 q - {8 * P..<8 * (P + n)} \<and>
     only_map part s s' b0 (b0 + hi)"
proof (induction n arbitrary: i q L s P)
  case 0
  then show ?case using only_map_refl by auto
next
  case (Suc n)
  have le: "512 * q + i \<le> 512 * hi" using Suc.prems(5,6) by simp
  obtain i1 q1 s1 where nx: "next_map_sect dev i (int (b0 + q)) s = Inr ((i1, int (b0 + q1)), s1)"
    and pos: "512 * q1 + i1 = P" "i1 < 512" and ov: "overlay part s1 b0 q1 = overlay part s b0 q"
    and om: "only_map part s s1 b0 (b0 + hi)"
    using next_map_sect_eq [OF Suc.prems(1-4) le] Suc.prems(5) by metis
  have full: "fsbuf s1 i1 = 0xFF"
    by (rule buffer_full [OF pos(2), of q1 part _ b0]) (use Suc.prems(7) in \<open>auto simp: pos(1) ov\<close>)
  let ?s2 = "s1\<lparr>fsbuf := (fsbuf s1)(i1 := 0)\<rparr>"
  have ov2: "overlay part ?s2 b0 q1 = overlay part s b0 q - {8 * P..<8 * P + 8}"
    using clear_byte_overlay [OF pos(2), of 0 8 part s1 b0 q1] unfolding without_all ov pos(1) by simp
  have d2: "fs_dev ?s2 dev part"
    by (rule same_fs_dev [OF same_fs_trans [OF only_map_same [OF om] same_fs_rw(4)] Suc.prems(1)])
  have "\<exists>i' q' s'. clear_bytes dev n (Suc i1) (int (b0 + q1)) (L - 8) ?s2 = Inr ((i', int (b0 + q'), L - 8 - 8 * int n), s') \<and>
     512 * q' + i' = Suc P + n \<and> 1 \<le> i' \<and> i' \<le> 512 \<and>
     overlay part s' b0 q' = overlay part ?s2 b0 q1 - {8 * Suc P..<8 * (Suc P + n)} \<and> only_map part ?s2 s' b0 (b0 + hi)"
  proof (rule Suc.IH [OF d2 Suc.prems(2)])
    show "{8 * Suc P..<8 * (Suc P + n)} \<subseteq> overlay part ?s2 b0 q1"
      unfolding ov2 using Suc.prems(7) by auto
  qed (use pos Suc.prems(6) in auto)
  then obtain i' q' s' where r: "clear_bytes dev n (Suc i1) (int (b0 + q1)) (L - 8) ?s2 = Inr ((i', int (b0 + q'), L - 8 - 8 * int n), s')"
    "512 * q' + i' = Suc P + n" "1 \<le> i'" "i' \<le> 512"
    "overlay part s' b0 q' = overlay part ?s2 b0 q1 - {8 * Suc P..<8 * (Suc P + n)}" "only_map part ?s2 s' b0 (b0 + hi)" by blast
  have "clear_bytes dev (Suc n) i (int (b0 + q)) L s = Inr ((i', int (b0 + q'), L - 8 * int (Suc n)), s')"
    using nx full r(1) by (simp add: algebra_simps)
  moreover have "overlay part s' b0 q' = overlay part s b0 q - {8 * P..<8 * (P + Suc n)}"
    unfolding r(5) ov2 by auto
  moreover have "only_map part s s' b0 (b0 + hi)"
    by (rule only_map_trans [OF om only_map_trans [OF only_map_buf r(6)]])
  ultimately show ?case using r(2-4) by (intro exI [of _ i'] exI [of _ q'] exI [of _ s']) simp
qed

section \<open>Freeing a file's bits\<close>

definition frees :: "part_info \<Rightarrow> fs_state \<Rightarrow> fs_state \<Rightarrow> nat \<Rightarrow> nat \<Rightarrow> nat set \<Rightarrow> bool" where
  "frees part s s' b0 hi A \<longleftrightarrow> only_map part s s' b0 hi \<and> map_set part s' b0 = map_set part s b0 - A"

lemma free_imap_bit_eq:
  assumes g: "geom s dev part sb" and p: "p < 4096" "p \<in> map_set part s 2"
  shows "\<exists>s'. free_imap_bit s dev (int p) = Inr s' \<and> frees part s s' 2 3 {p}"
proof -
  define j k where "j = p div 8" and "k = p mod 8"
  have jk: "j < 512" "k < 8" "8 * j + k = p" using p(1) by (auto simp: j_def k_def)
  let ?r = "read_blk part 2 s"
  have r2: "reach part 2" by (rule geom_reach [OF g]) simp
  have d1: "fs_dev ?r dev part" by (rule same_fs_dev [OF same_fs_rw(3) geom_dev [OF g]])
  have ov: "overlay part ?r 2 0 = map_set part s 2" using overlay_read [of part 2 0 s] by simp
  have set: "bit (fsbuf ?r j) k" using overlay_bit [of p ?r 0 part 2] p ov bit_at_byte [OF jk(2), of "fsbuf ?r" j] jk(3) by simp
  have rr: "read_blk part 2 ?r = ?r" by (simp add: read_blk_def blit_def fun_eq_iff)
  let ?t = "?r\<lparr>fsbuf := (fsbuf ?r)(j := without_bits k 1 (fsbuf ?r j))\<rparr>"
  have d2: "fs_dev ?t dev part" by (rule same_fs_dev [OF same_fs_rw(4) d1])
  have idx: "int p sdiv 8 = int j" "int p smod 8 = int k" "int j smod 512 = int j"
    using jk(1) by (simp_all add: j_def k_def zdiv_int zmod_int)
  have wb: "without_bits k 1 b = b AND NOT (push_bit k 1)" for b by (simp add: without_bits_def mask_Suc_0)
  have run: "free_imap_bit s dev (int p) = Inr (write_blk part 2 ?t)"
    using RD_SECT_eq [OF geom_dev [OF g] r2] RD_SECT_eq [OF d1 r2] WR_SECT_eq [OF d2 r2] set jk(1)
    unfolding wb by (simp add: free_imap_bit_def Let_def idx rr)
  have "map_set part (write_blk part 2 ?t) 2 = map_set part s 2 - {p}"
    using overlay_write [of part 2 0 ?t] clear_byte_overlay [OF jk(1), of k 1 part ?r 2 0] jk ov by auto
  moreover have "only_map part s (write_blk part 2 ?t) 2 3"
    by (rule only_map_trans [OF only_map_read only_map_trans [OF only_map_buf only_map_write]]) simp_all
  ultimately show ?thesis using run by (auto simp: frees_def)
qed

lemma bit_FF: "k < 8 \<Longrightarrow> bit (0xFF :: u8) k"
  by (simp add: numeral_eq_Suc less_Suc_eq) auto

lemma bit_FF_diff: "k < 8 \<Longrightarrow> bit (0xFF :: u8) (k - l)"
  by (rule bit_FF) simp

lemma low_mask: "b AND push_bit l 0xFF = without_bits 0 l (b :: u8)" if "l < 8"
proof (rule bits_eqI)
  fix x :: nat assume "x < 8"
  then show "bit (b AND push_bit l 0xFF) x = bit (without_bits 0 l b) x"
    using bit_FF_diff [of x l] by (cases "l \<le> x") (simp_all add: bit_without_bits bit_simps)
qed

lemma low_mask_set: "b AND NOT (push_bit l 0xFF) = NOT (push_bit l 0xFF :: u8)" if "l < 8" and "\<forall>x < l. bit b x"
proof (rule bits_eqI)
  fix x :: nat assume "x < 8"
  then show "bit (b AND NOT (push_bit l 0xFF)) x = bit (NOT (push_bit l 0xFF :: u8)) x"
    using bit_FF_diff [of x l] that(2) by (cases "l \<le> x") (simp_all add: bit_simps)
qed

text \<open>The tail of \<open>free_sectors\<close>: the bits of the last, incomplete byte.\<close>

lemma free_tail:
  assumes d: "fs_dev s dev part" and r: "\<forall>k \<le> hi. reach part (b0 + k)"
    and i: "1 \<le> i" "i \<le> 512" "512 * q + i = P" and l: "l < 8" "8 * P + l \<le> 8 * (512 * hi)"
    and set: "{8 * P..<8 * P + l} \<subseteq> overlay part s b0 q"
  shows "\<exists>i' q' s1 s'. next_map_sect dev i (int (b0 + q)) s = Inr ((i', int (b0 + q')), s1) \<and>
     fsbuf s1 i' AND NOT (push_bit l 0xFF) = NOT (push_bit l 0xFF) \<and>
     WR_SECT (s1\<lparr>fsbuf := (fsbuf s1)(i' := fsbuf s1 i' AND push_bit l 0xFF)\<rparr>) dev (int (b0 + q')) = Inr s' \<and>
     map_set part s' b0 = overlay part s b0 q - {8 * P..<8 * P + l} \<and> only_map part s s' b0 (b0 + hi)"
proof -
  have le: "512 * q + i \<le> 512 * hi" using i(3) l(2) by simp
  obtain i1 q1 s1 where nx: "next_map_sect dev i (int (b0 + q)) s = Inr ((i1, int (b0 + q1)), s1)"
    and pos: "512 * q1 + i1 = P" "i1 < 512" and ov: "overlay part s1 b0 q1 = overlay part s b0 q"
    and om: "only_map part s s1 b0 (b0 + hi)" and buf: "q1 = hi \<Longrightarrow> \<forall>j < 512. fsbuf s1 j = blk part s1 (b0 + q1) j"
    using next_map_sect_eq [OF d r i(1,2) le] i(3) by metis
  let ?t = "s1\<lparr>fsbuf := (fsbuf s1)(i1 := fsbuf s1 i1 AND push_bit l 0xFF)\<rparr>"
  have bits: "bit (fsbuf s1 i1) x" if "x < l" for x
  proof -
    have "8 * P + x \<in> {8 * P..<8 * P + l}" using that by simp
    moreover have "4096 * q1 + (8 * i1 + x) = 8 * P + x" using pos(1) by simp
    ultimately show ?thesis
      using set overlay_bit [of "8 * i1 + x" s1 q1 part b0] bit_at_byte [of x "fsbuf s1" i1] that l(1) pos(2) ov by auto
  qed
  have q1: "q1 \<le> hi" using pos l(2) by simp
  have d1: "fs_dev ?t dev part" by (rule same_fs_dev [OF same_fs_trans [OF only_map_same [OF om] same_fs_rw(4)] d])
  have w: "WR_SECT ?t dev (int (b0 + q1)) = Inr (write_blk part (b0 + q1) ?t)" using r q1 by (intro WR_SECT_eq [OF d1]) simp
  have "map_set part (write_blk part (b0 + q1) ?t) b0 = overlay part s b0 q - {8 * P..<8 * P + l}"
    using clear_byte_overlay [OF pos(2), of 0 l part s1 b0 q1] l(1) unfolding overlay_write low_mask [OF l(1)] ov pos(1) by simp
  moreover have "only_map part s1 (write_blk part (b0 + q1) ?t) b0 (b0 + hi)"
  proof (cases "q1 = hi")
    case True
    then have l0: "l = 0" using pos l(2) by simp
    then have "fsbuf ?t j = blk part s1 (b0 + q1) j" if "j < 512" for j
      using buf [OF True] that low_mask [OF l(1)] by (simp add: without_bits_def)
    then have "blk part (write_blk part (b0 + q1) ?t) b j = blk part s1 b j" if "j < 512" for b j
      using that by (simp add: blk_write)
    then show ?thesis using same_fs_trans [OF same_fs_rw(4) same_fs_rw(2)] by (simp add: only_map_def)
  qed (use q1 in \<open>intro only_map_trans [OF only_map_buf only_map_write], simp_all\<close>)
  ultimately show ?thesis using nx w low_mask_set [OF l(1)] bits only_map_trans [OF om]
    by (intro exI [of _ i1] exI [of _ q1] exI [of _ s1] exI [of _ "write_blk part (b0 + q1) ?t"]) simp
qed

text \<open>The numbers \<open>free_sectors\<close> computes.\<close>

lemma file_bit_idx:
  assumes "i_start_sect n = word_of_nat st" and "p + unat (n_1st_sect sb) = st + 1" and "p < 2 ^ 31"
  shows "sint (i_start_sect n - n_1st_sect sb + 1) = int p"
proof -
  have "(word_of_nat p + n_1st_sect sb :: u32) = word_of_nat st + 1"
    using arg_cong [OF assms(2), of "word_of_nat :: nat \<Rightarrow> u32"] by (simp add: add.commute)
  then have "i_start_sect n - n_1st_sect sb + 1 = word_of_nat p" unfolding assms(1) by (simp add: algebra_simps)
  then show ?thesis by (simp only: sint_word_of_nat [OF assms(3)])
qed

lemma free_sectors_eq:
  assumes g: "geom s dev part sb" and n: "i_dev n = dev" "i_start_sect n = word_of_nat st" "i_nr_sects n = word_of_nat nr"
    and p: "p + unat (n_1st_sect sb) = st + 1" "p + nr \<le> 4096 * unat (nr_smap_sects sb)" and nr: "8 \<le> nr"
    and small: "p + nr < 2 ^ 31" and set: "{p..<p + nr} \<subseteq> map_set part s (smap0 sb)"
  shows "\<exists>s'. free_sectors s sb n = Inr s' \<and> frees part s s' (smap0 sb) (smap0 sb + unat (nr_smap_sects sb)) {p..<p + nr}"
proof -
  define b0 hi where "b0 = smap0 sb" and "hi = unat (nr_smap_sects sb)"
  have r: "\<forall>k \<le> hi. reach part (b0 + k)" by (auto simp: b0_def hi_def intro!: geom_reach [OF g])
  have hi: "b0 + hi < 2 ^ 31" using sb_bounds [OF g] by (simp add: b0_def hi_def)
  have p31: "p < 2 ^ 31" "nr < 2 ^ 31" using small by simp_all
  define B k where "B = p div 8" and "k = p mod 8"
  have pk: "p = 8 * B + k" "k < 8" by (simp_all add: B_def k_def)
  define j q where "j = B mod 512" and "q = B div 512"
  have jq: "512 * q + j = B" "j < 512" by (simp_all add: j_def q_def)
  define c l where "c = (nr - (8 - k)) div 8" and "l = (nr - (8 - k)) mod 8"
  have cl: "8 * c + l = nr - (8 - k)" "l < 8" by (simp_all add: c_def l_def)
  have tot: "8 * (B + 1 + c) + l = p + nr" using cl pk nr by simp
  have lim: "B + 1 + c \<le> 512 * hi" using tot p(2) by (simp add: hi_def)
  note dev = geom_dev [OF g]
  let ?r = "read_blk part (b0 + q) s"
  have qhi: "q < hi" using jq lim by simp
  have rd: "RD_SECT s dev (int (b0 + q)) = Inr ?r" using r qhi by (intro RD_SECT_eq [OF dev]) simp
  have ov: "overlay part ?r b0 q = map_set part s b0" by (rule overlay_read)
  have first: "clear_first (8 - k) k (fsbuf ?r j) nr = Inr (without_bits k (8 - k) (fsbuf ?r j), nr - (8 - k))"
  proof -
    have "bit (fsbuf ?r j) x" if x: "k \<le> x" "x < 8" for x
    proof -
      have "8 * B + x \<in> {p..<p + nr}" using x pk nr by simp
      moreover have eq: "4096 * q + (8 * j + x) = 8 * B + x" using jq(1) by simp
      ultimately have "4096 * q + (8 * j + x) \<in> overlay part ?r b0 q"
        using set unfolding eq ov by (simp only: b0_def) blast
      moreover have "8 * j + x < 4096" using jq(2) x(2) by simp
      ultimately show ?thesis using overlay_bit [of "8 * j + x" ?r q part b0] bit_at_byte [OF x(2), of "fsbuf ?r" j] by blast
    qed
    moreover have "min (8 - k) nr = 8 - k" using nr by simp
    ultimately show ?thesis using clear_first_eq [of k "8 - k" nr "fsbuf ?r j"] pk(2) by simp
  qed
  let ?s2 = "?r\<lparr>fsbuf := (fsbuf ?r)(j := without_bits k (8 - k) (fsbuf ?r j))\<rparr>"
  have ov2: "overlay part ?s2 b0 q = map_set part s b0 - {p..<8 * (B + 1)}"
    using clear_byte_overlay [OF jq(2), of k "8 - k" part ?r b0 q] pk unfolding ov jq(1) by (simp add: add.commute)
  have om2: "only_map part s ?s2 b0 (b0 + hi)" by (rule only_map_trans [OF only_map_read only_map_buf])
  have d2: "fs_dev ?s2 dev part" by (rule same_fs_dev [OF only_map_same [OF om2] dev])
  have sub: "{8 * (B + 1)..<8 * (B + 1 + c) + l} \<subseteq> overlay part ?s2 b0 q"
    unfolding ov2 tot using set pk by (auto simp: b0_def)
  have sub1: "{8 * (B + 1)..<8 * (B + 1 + c)} \<subseteq> overlay part ?s2 b0 q" using sub by (rule order.trans [rotated]) auto
  obtain i3 q3 s3 where b: "clear_bytes dev c (j + 1) (int (b0 + q)) (int (nr - (8 - k))) ?s2 =
      Inr ((i3, int (b0 + q3), int (nr - (8 - k)) - 8 * int c), s3)"
    and pos3: "512 * q3 + i3 = B + 1 + c" "1 \<le> i3" "i3 \<le> 512"
    and ov3: "overlay part s3 b0 q3 = overlay part ?s2 b0 q - {8 * (B + 1)..<8 * (B + 1 + c)}"
    and om3: "only_map part ?s2 s3 b0 (b0 + hi)"
    using clear_bytes_eq [OF d2 r, of "j + 1" "B + 1" q c "int (nr - (8 - k))"] jq lim sub1 by auto
  have d3: "fs_dev s3 dev part" by (rule same_fs_dev [OF only_map_same [OF om3] d2])
  have left: "int (nr - (8 - k)) - 8 * int c = int l" using cl(1) by simp
  have sub3: "{8 * (B + 1 + c)..<8 * (B + 1 + c) + l} \<subseteq> overlay part s3 b0 q3"
    unfolding ov3 using sub by auto
  have lim3: "8 * (B + 1 + c) + l \<le> 8 * (512 * hi)" using tot p(2) by (simp add: hi_def)
  obtain i4 q4 s4 s5 where t: "next_map_sect dev i3 (int (b0 + q3)) s3 = Inr ((i4, int (b0 + q4)), s4)"
    "fsbuf s4 i4 AND NOT (push_bit l 0xFF) = NOT (push_bit l 0xFF)"
    "WR_SECT (s4\<lparr>fsbuf := (fsbuf s4)(i4 := fsbuf s4 i4 AND push_bit l 0xFF)\<rparr>) dev (int (b0 + q4)) = Inr s5"
    "map_set part s5 b0 = overlay part s3 b0 q3 - {8 * (B + 1 + c)..<8 * (B + 1 + c) + l}" "only_map part s3 s5 b0 (b0 + hi)"
    using free_tail [OF d3 r pos3(2,3,1) cl(2) lim3 sub3] by blast
  have result: "map_set part s5 b0 = map_set part s b0 - {p..<p + nr}"
    unfolding t(4) ov3 ov2 tot [symmetric] using pk by auto
  have om: "only_map part s s5 b0 (b0 + hi)" by (rule only_map_trans [OF om2 only_map_trans [OF om3 t(5)]])
  have idx: "sint (i_start_sect n - n_1st_sect sb + 1) = int p" by (rule file_bit_idx [OF n(2) p(1) p31(1)])
  have nri: "sint (i_nr_sects n) = int nr" unfolding n(3) by (rule sint_word_of_nat [OF p31(2)])
  have sec: "sint (2 + nr_imap_sects sb + word_of_int (int q)) = int (b0 + q)"
  proof -
    have "2 + nr_imap_sects sb + word_of_int (int q) = (word_of_nat (b0 + q) :: u32)" by (simp add: b0_def)
    moreover have "b0 + q < 2 ^ 31" using hi qhi by simp
    ultimately show ?thesis by (simp only: sint_word_of_nat)
  qed
  have cnt: "(int nr - (8 - int k)) sdiv 8 = int c" using nr pk(2) by (simp add: c_def zdiv_int of_nat_diff)
  have d8: "int p sdiv 8 = int B" "int p smod 8 = int k" "int B smod 512 = int j" "int B sdiv 512 = int q"
    by (simp_all add: B_def k_def j_def q_def zdiv_int zmod_int)
  have "free_sectors s sb n = Inr s5"
    unfolding free_sectors_def Let_def idx nri d8 cnt sec n(1) nat_int
    using rd first b t(1-3) by (simp add: left)
  then show ?thesis using result om unfolding frees_def b0_def hi_def by blast
qed

end
