(* ===== verification/FsCreate.thy ===== *)
theory FsCreate
  imports FsFree FsRefs
begin

text \<open>
  Creating a file: \<open>create_file\<close> takes an inode number and a run of sectors that no
  file has, writes the inode, and enters the name into the root directory.
\<close>

section \<open>What the steps leave alone\<close>

lemma same_fsD:
  assumes "same_fs s s'"
  shows same_fs_inodes: "inode_table s' = inode_table s" and same_fs_fd: "f_desc_table s' = f_desc_table s"
    and same_fs_procs: "fprocs s' = fprocs s" and same_fs_mem: "umem s' = umem s"
    and same_fs_root: "root_inode s' = root_inode s" and same_fs_sb: "super_blocks s' = super_blocks s"
  using assms by (auto simp: same_fs_def)

lemma same_fs_geom: "same_fs s s' \<Longrightarrow> geom s dev part sb \<Longrightarrow> geom s' dev part sb"
  using same_fs_dev [of s s' dev part] get_super_block_cong [OF same_fs_sb, of s s' dev] by (auto simp: geom_def)

lemma map_set_cong:
  assumes "\<And>b j. b0 \<le> b \<Longrightarrow> b < b0 + n \<Longrightarrow> j < SECTOR_SIZE \<Longrightarrow> blk part s' b j = blk part s b j" and "x < 4096 * n"
  shows "x \<in> map_set part s' b0 \<longleftrightarrow> x \<in> map_set part s b0"
proof -
  have "x div 4096 < n" using assms(2) by (simp add: div_less_iff_less_mult mult.commute)
  then have "bit_at (blk part s' (b0 + x div 4096)) (x mod 4096) = bit_at (blk part s (b0 + x div 4096)) (x mod 4096)"
    by (intro bit_at_cong assms(1)) simp_all
  then show ?thesis by (simp add: map_set_iff)
qed

lemma dir_eqI:
  assumes "\<And>b j. start \<le> b \<Longrightarrow> j < SECTOR_SIZE \<Longrightarrow> blk part s' b j = blk part s b j"
  shows "dir_ino part s' start k = dir_ino part s start k" and "dir_name part s' start k = dir_name part s start k"
  unfolding dir_ino_def dir_name_def by (intro de_inode_cong de_name_cong assms; simp)+

lemma free_slot_eqI: "(\<And>k. dir_ino part s' start k = dir_ino part s start k) \<Longrightarrow> free_slot part s' start nr = free_slot part s start nr"
  by (simp add: free_slot_def)

lemma root_good_cong:
  assumes "root_good s r dev part sb start nr" and "geom s' dev part sb" and "inode_table s' r = inode_table s r"
    and "root_inode s' = root_inode s"
  shows "root_good s' r dev part sb start nr"
  using assms geom_dev [OF assms(2)] by (simp add: root_good_def root_ok_def)

section \<open>When a file can be created\<close>

text \<open>
  \<open>p\<close> is the first free inode number, \<open>x\<close> the first free position of the sector map,
  with room for a file behind it, \<open>k\<close> the slot of the directory; the areas of the
  disk follow one another.
\<close>

definition can_create :: "fs_state \<Rightarrow> nat \<Rightarrow> int \<Rightarrow> part_info \<Rightarrow> super_block \<Rightarrow> nat \<Rightarrow> nat \<Rightarrow> nat \<Rightarrow> nat \<Rightarrow> nat \<Rightarrow> bool" where
  "can_create s r dev part sb start nr k p x \<longleftrightarrow>
     root_good s r dev part sb start nr \<and> nr < 2 ^ 14 \<and> icache_ok s \<and> r < NR_INODE \<and> i_cnt (inode_table s r) \<noteq> 0 \<and>
     k = free_slot part s start nr \<and> reach part (start + (nr + 1) div 32) \<and> dir_name part s start k = replicate 12 0 \<and>
     smap0 sb + unat (nr_smap_sects sb) + 256 \<le> start \<and> nr_imap_sects sb \<noteq> 0 \<and>
     1 \<le> p \<and> p < 4096 \<and> p \<notin> map_set part s 2 \<and> (\<forall>y < p. y \<in> map_set part s 2) \<and>
     x \<notin> map_set part s (smap0 sb) \<and> (\<forall>y < x. y \<in> map_set part s (smap0 sb)) \<and>
     clear_run (\<lambda>y. y \<in> map_set part s (smap0 sb)) x NR_DEFAULT_FILE_SECTS \<and>
     x + NR_DEFAULT_FILE_SECTS \<le> 4096 * unat (nr_smap_sects sb) \<and>
     x + unat (n_1st_sect sb) + NR_DEFAULT_FILE_SECTS < 2 ^ 31 \<and> 1 < x + unat (n_1st_sect sb) \<and>
     (\<forall>i. \<not> cached s dev (int p) i) \<and> (\<exists>i < NR_INODE. i_cnt (inode_table s i) = 0)"

lemma can_createD:
  assumes "can_create s r dev part sb start nr k p x"
  shows cc_good: "root_good s r dev part sb start nr" and cc_nr: "nr < 2 ^ 14" and cc_cache: "icache_ok s"
    and cc_root: "r < NR_INODE" "i_cnt (inode_table s r) \<noteq> 0"
    and cc_slot: "k = free_slot part s start nr" "reach part (start + (nr + 1) div 32)" "dir_name part s start k = replicate 12 0"
    and cc_area: "smap0 sb + unat (nr_smap_sects sb) + 256 \<le> start" "nr_imap_sects sb \<noteq> 0"
    and cc_ino: "1 \<le> p" "p < 4096" "p \<notin> map_set part s 2" "\<forall>y < p. y \<in> map_set part s 2"
    and cc_sect: "x \<notin> map_set part s (smap0 sb)" "\<forall>y < x. y \<in> map_set part s (smap0 sb)"
      "clear_run (\<lambda>y. y \<in> map_set part s (smap0 sb)) x NR_DEFAULT_FILE_SECTS"
      "x + NR_DEFAULT_FILE_SECTS \<le> 4096 * unat (nr_smap_sects sb)"
      "x + unat (n_1st_sect sb) + NR_DEFAULT_FILE_SECTS < 2 ^ 31" "1 < x + unat (n_1st_sect sb)"
    and cc_room: "\<not> cached s dev (int p) i" "\<exists>i < NR_INODE. i_cnt (inode_table s i) = 0"
  using assms unfolding can_create_def by blast+

lemma can_create_buf: "can_create s r dev part sb start nr k p x \<Longrightarrow> can_create (s\<lparr>fsbuf := b\<rparr>) r dev part sb start nr k p x"
proof -
  have e: "map_set part (s\<lparr>fsbuf := b\<rparr>) = map_set part s" "dir_name part (s\<lparr>fsbuf := b\<rparr>) = dir_name part s"
    "free_slot part (s\<lparr>fsbuf := b\<rparr>) = free_slot part s"
    "root_good (s\<lparr>fsbuf := b\<rparr>) r dev part sb start nr = root_good s r dev part sb start nr"
    "icache_ok (s\<lparr>fsbuf := b\<rparr>) = icache_ok s" "inode_table (s\<lparr>fsbuf := b\<rparr>) = inode_table s"
    by (simp_all add: fun_eq_iff set_eq_iff map_set_iff dir_name_def dir_ino_def free_slot_def root_good_def root_ok_def icache_ok_def)
  assume "can_create s r dev part sb start nr k p x"
  then show ?thesis unfolding can_create_def e .
qed

text \<open>The inode of a new file.\<close>

definition new_file :: "int \<Rightarrow> super_block \<Rightarrow> nat \<Rightarrow> nat \<Rightarrow> inode" where
  "new_file dev sb p x = zero_inode\<lparr>i_mode := I_REGULAR, i_size := 0,
     i_start_sect := word_of_nat (x + unat (n_1st_sect sb) - 1), i_nr_sects := NR_DEFAULT_FILE_SECTS,
     i_dev := dev, i_cnt := 1, i_num := int p\<rparr>"

lemma new_file_simps [simp]:
  "i_mode (new_file dev sb p x) = I_REGULAR" "i_size (new_file dev sb p x) = 0" "i_dev (new_file dev sb p x) = dev"
  "i_start_sect (new_file dev sb p x) = word_of_nat (x + unat (n_1st_sect sb) - 1)"
  "i_nr_sects (new_file dev sb p x) = NR_DEFAULT_FILE_SECTS" "i_cnt (new_file dev sb p x) = 1" "i_num (new_file dev sb p x) = int p"
  by (simp_all add: new_file_def)

lemma iblock_area: "valid_ino j \<Longrightarrow> smap0 sb + unat (nr_smap_sects sb) \<le> iblock sb j \<and> iblock sb j < smap0 sb + unat (nr_smap_sects sb) + 256"
proof -
  assume "valid_ino j"
  then have "(j - 1) div 16 < 256" by (intro less_mult_imp_div_less) auto
  then show ?thesis by (simp add: iblock_def)
qed

section \<open>The new inode\<close>

lemma new_inode_spec:
  assumes g: "geom s dev part sb" and c: "icache_ok s" and p: "valid_ino p" and miss: "\<forall>i. \<not> cached s dev (int p) i"
    and room: "\<exists>i < NR_INODE. i_cnt (inode_table s i) = 0" and x: "0 < x + unat (n_1st_sect sb)"
  obtains q s' where "new_inode s dev (int p) (int (x + unat (n_1st_sect sb)) - 1) = Inr (q, s')"
    and "q < NR_INODE" "i_cnt (inode_table s q) = 0" "inode_table s' = (inode_table s)(q := new_file dev sb p x)"
    and "icache_ok s'" "geom s' dev part sb"
    and "same_disk (dinode part sb s' p) (new_file dev sb p x)"
    and "\<And>j. valid_ino j \<Longrightarrow> j \<noteq> p \<Longrightarrow> dinode part sb s' j = dinode part sb s j"
    and "\<And>b. b \<noteq> iblock sb p \<Longrightarrow> blk part s' b = blk part s b"
    and "f_desc_table s' = f_desc_table s" "fprocs s' = fprocs s" "umem s' = umem s" "root_inode s' = root_inode s"
proof -
  obtain q s1 where s1: "get_inode s dev (int p) = Inr (Some q, s1)" and c1: "icache_ok s1" and q: "cached s1 dev (int p) q"
    and oth: "\<And>j. j \<noteq> q \<Longrightarrow> inode_table s1 j = inode_table s j" and cnt: "i_cnt (inode_table s1 q) = i_cnt (inode_table s q) + 1"
    and dr: "drive s1 = drive s" and fr: "f_desc_table s1 = f_desc_table s" "fprocs s1 = fprocs s"
      "super_blocks s1 = super_blocks s" "root_inode s1 = root_inode s" "umem s1 = umem s"
    and ino: "if \<exists>q. cached s dev (int p) q
      then cached s dev (int p) q \<and> inode_table s1 q = (inode_table s q)\<lparr>i_cnt := i_cnt (inode_table s q) + 1\<rparr>
      else inode_table s1 q = (dinode part sb s p)\<lparr>i_dev := dev, i_num := int p, i_cnt := 1\<rparr>"
    by (rule get_inode_total [OF c g p room]) (rule that)
  have ino1: "inode_table s1 q = (dinode part sb s p)\<lparr>i_dev := dev, i_num := int p, i_cnt := 1\<rparr>" using ino miss by (simp only: if_False simp_thms)
  have q0: "i_cnt (inode_table s q) = 0" using cnt ino1 by simp
  let ?s2 = "upd_inode q (\<lambda>n. n\<lparr>i_mode := I_REGULAR, i_size := 0,
     i_start_sect := word_of_int (int (x + unat (n_1st_sect sb)) - 1), i_nr_sects := NR_DEFAULT_FILE_SECTS,
     i_dev := dev, i_cnt := 1, i_num := int p\<rparr>) s1"
  have w: "(word_of_int (int (x + unat (n_1st_sect sb)) - 1) :: u32) = word_of_nat (x + unat (n_1st_sect sb) - 1)"
    using int_pred [OF x] by (metis of_int_of_nat_eq)
  have tab: "inode_table ?s2 = (inode_table s)(q := new_file dev sb p x)"
    unfolding w using oth by (auto simp: upd_inode_def fun_eq_iff new_file_def zero_inode_def)
  have "fs_dev s1 dev part = fs_dev s dev part" by (rule fs_dev_cong) (simp_all add: dr)
  then have g1: "geom s1 dev part sb" using g geom_cong [OF _ fr(3), of dev part sb] by simp
  then have g2: "geom ?s2 dev part sb" by simp
  have n: "i_dev (inode_table ?s2 q) = dev" "i_num (inode_table ?s2 q) = int p" by (simp_all add: tab)
  obtain s3 where s3: "sync_inode ?s2 q = Inr s3"
    and s3_eq: "s3 = write_blk part (iblock sb p) (?s2\<lparr>fsbuf := store_inode (inode_table ?s2 q) (ioffset p) (fsbuf (read_blk part (iblock sb p) ?s2))\<rparr>)"
    and sd: "same_disk (dinode part sb s3 p) (inode_table ?s2 q)"
    and od: "\<And>j. valid_ino j \<Longrightarrow> j \<noteq> p \<Longrightarrow> dinode part sb s3 j = dinode part sb ?s2 j"
    and ob: "\<And>b. b \<noteq> iblock sb p \<Longrightarrow> blk part s3 b = blk part ?s2 b"
    by (rule sync_inode_eq [OF g2 n p]) (rule that)
  have run: "new_inode s dev (int p) (int (x + unat (n_1st_sect sb)) - 1) = Inr (q, s3)"
    using s1 s3 by (simp add: new_inode_def Let_def)
  have t3: "inode_table s3 = (inode_table s)(q := new_file dev sb p x)" unfolding s3_eq using tab by simp
  have c3: "icache_ok s3"
  proof -
    have cch: "cached s3 d m i = cached s1 d m i" for d m i using q ino1 oth [of i] by (cases "i = q") (auto simp: t3)
    have "i_cnt (inode_table s3 i) = i_cnt (inode_table s1 i)" for i using ino1 oth [of i] by (cases "i = q") (auto simp: t3)
    then show ?thesis using c1 unfolding icache_ok_def cch by simp
  qed
  show thesis
  proof (rule that [OF run _ q0 t3 c3])
    show "geom s3 dev part sb" unfolding s3_eq using g2 by simp
    show "same_disk (dinode part sb s3 p) (new_file dev sb p x)" using sd unfolding tab by simp
    show "dinode part sb s3 j = dinode part sb s j" if "valid_ino j" "j \<noteq> p" for j
      using od [OF that] by (simp add: dinode_def dr)
    show "blk part s3 b = blk part s b" if "b \<noteq> iblock sb p" for b using ob [OF that] by (simp add: dr)
  qed (use q fr in \<open>simp_all add: s3_eq\<close>)
qed

section \<open>The new file\<close>

lemma create_file_spec:
  assumes cc: "can_create s r dev part sb start nr k p x" and path: "strip_path path = Some fn" "length fn \<le> 11"
  obtains q s' where "create_file s path = Inr (Some q, s')"
    and "q < NR_INODE" "i_cnt (inode_table s q) = 0" "q \<noteq> r" "inode_table s' q = new_file dev sb p x"
    and "\<And>j. j \<noteq> q \<Longrightarrow> i_cnt (inode_table s' j) = i_cnt (inode_table s j) \<and> i_dev (inode_table s' j) = i_dev (inode_table s j) \<and>
      i_num (inode_table s' j) = i_num (inode_table s j)" and "\<And>j. j \<noteq> q \<Longrightarrow> j \<noteq> r \<Longrightarrow> inode_table s' j = inode_table s j"
    and "icache_ok s'" "root_good s' r dev part sb start (if k < nr then nr else nr + 1)"
    and "same_disk (dinode part sb s' p) (new_file dev sb p x)"
    and "dir_ino part s' start k = int p" "dir_name part s' start k = pad_name fn"
    and "\<And>k'. k' \<noteq> k \<Longrightarrow> dir_ino part s' start k' = dir_ino part s start k' \<and> dir_name part s' start k' = dir_name part s start k'"
    and "\<And>y. y < 4096 \<Longrightarrow> y \<in> map_set part s' 2 \<longleftrightarrow> y \<in> map_set part s 2 \<or> y = p"
    and "\<And>y. y < 4096 * unat (nr_smap_sects sb) \<Longrightarrow> y \<in> map_set part s' (smap0 sb) \<longleftrightarrow>
      y \<in> map_set part s (smap0 sb) \<or> x \<le> y \<and> y < x + NR_DEFAULT_FILE_SECTS"
    and "\<And>b j. start \<le> b \<Longrightarrow> b \<noteq> start + k div 32 \<Longrightarrow> j < SECTOR_SIZE \<Longrightarrow> blk part s' b j = blk part s b j"
    and "\<And>b j. b \<notin> {2, iblock sb p, iblock sb 1, start + k div 32} \<union> {smap0 sb..<smap0 sb + unat (nr_smap_sects sb)} \<Longrightarrow>
      j < SECTOR_SIZE \<Longrightarrow> blk part s' b j = blk part s b j"
    and "\<And>j. valid_ino j \<Longrightarrow> j \<noteq> p \<Longrightarrow> j \<noteq> 1 \<Longrightarrow> dinode part sb s' j = dinode part sb s j"
    and "inode_table s' r = (if k < nr then inode_table s r else (inode_table s r)\<lparr>i_size := i_size (inode_table s r) + 16\<rparr>)"
    and "same_disk (dinode part sb s' 1) (inode_table s' r)"
    and "f_desc_table s' = f_desc_table s" "fprocs s' = fprocs s" "umem s' = umem s"
proof -
  note area = cc_area [OF cc] and ino = cc_ino [OF cc] and sect = cc_sect [OF cc]
  have g: "geom s dev part sb" and root: "i_dev (inode_table s r) = dev" "root_dir s = Inr r" "i_num (inode_table s r) = 1"
    using cc_good [OF cc] by (simp_all add: root_good_def root_ok_def root_dir_def)
  have vp: "valid_ino p" using ino(1,2) by simp
  have im: "unat (nr_imap_sects sb) \<noteq> 0" using area(2) by (simp add: unat_eq_0)
  have p1: "p \<noteq> 1" using cc_room(1) [OF cc, of r] cc_root [OF cc] root by auto
  obtain s1 where s1: "alloc_imap_bit s dev = Inr (int p, s1)" and a1: "allocates part s s1 2 3 p 1"
    using alloc_imap_bit_eq [OF g area(2) ino(2-4)] by blast
  have om1: "only_map part s s1 2 3" using a1 by (simp add: allocates_def)
  note f1 = same_fsD [OF only_map_same [OF om1]]
  have g1: "geom s1 dev part sb" by (rule same_fs_geom [OF only_map_same [OF om1] g])
  have sm1: "y \<in> map_set part s1 (smap0 sb) \<longleftrightarrow> y \<in> map_set part s (smap0 sb)" for y
    using im only_map_blk [OF om1] by (intro map_set_cong [of "smap0 sb" "Suc y"]) auto
  have sect1: "x \<notin> map_set part s1 (smap0 sb)" "\<forall>y < x. y \<in> map_set part s1 (smap0 sb)" unfolding sm1 by (rule sect)+
  have x31: "x + unat (n_1st_sect sb) < 2 ^ 31" using sect(5) by linarith
  have "if clear_run (\<lambda>y. y \<in> map_set part s1 (smap0 sb)) x NR_DEFAULT_FILE_SECTS
    then \<exists>s'. alloc_smap_bit s1 dev NR_DEFAULT_FILE_SECTS = Inr (int (x + unat (n_1st_sect sb)) - 1, s') \<and>
      allocates part s1 s' (smap0 sb) (smap0 sb + unat (nr_smap_sects sb)) x NR_DEFAULT_FILE_SECTS
    else alloc_smap_bit s1 dev NR_DEFAULT_FILE_SECTS = Inl (AFO 319)"
    by (rule alloc_smap_bit_eq [OF g1 _ sect1 sect(4) x31 sect(6)]) simp
  then obtain s2 where s2: "alloc_smap_bit s1 dev NR_DEFAULT_FILE_SECTS = Inr (int (x + unat (n_1st_sect sb)) - 1, s2)"
    and a2: "allocates part s1 s2 (smap0 sb) (smap0 sb + unat (nr_smap_sects sb)) x NR_DEFAULT_FILE_SECTS"
    using sect(3) unfolding sm1 by auto
  have om2: "only_map part s1 s2 (smap0 sb) (smap0 sb + unat (nr_smap_sects sb))" using a2 by (simp add: allocates_def)
  note f2 = same_fsD [OF only_map_same [OF om2]]
  have g2: "geom s2 dev part sb" by (rule same_fs_geom [OF only_map_same [OF om2] g1])
  have ic2: "icache_ok s2" and miss2: "\<forall>i. \<not> cached s2 dev (int p) i" and room2: "\<exists>i < NR_INODE. i_cnt (inode_table s2 i) = 0"
    using cc_cache [OF cc] cc_room [OF cc] unfolding icache_ok_def f1(1) f2(1) by auto
  have x0: "0 < x + unat (n_1st_sect sb)" using sect(6) by linarith
  obtain q s3 where s3: "new_inode s2 dev (int p) (int (x + unat (n_1st_sect sb)) - 1) = Inr (q, s3)"
    and q: "q < NR_INODE" "i_cnt (inode_table s2 q) = 0" and t3: "inode_table s3 = (inode_table s2)(q := new_file dev sb p x)"
    and c3: "icache_ok s3" and g3: "geom s3 dev part sb" and sd3: "same_disk (dinode part sb s3 p) (new_file dev sb p x)"
    and b3: "\<And>b. b \<noteq> iblock sb p \<Longrightarrow> blk part s3 b = blk part s2 b"
    and d3: "\<And>j. valid_ino j \<Longrightarrow> j \<noteq> p \<Longrightarrow> dinode part sb s3 j = dinode part sb s2 j"
    and f3: "f_desc_table s3 = f_desc_table s2" "fprocs s3 = fprocs s2" "umem s3 = umem s2" "root_inode s3 = root_inode s2"
    by (rule new_inode_spec [OF g2 ic2 vp miss2 room2 x0]) (rule that)
  have q0: "i_cnt (inode_table s q) = 0" using q(2) f1(1) f2(1) by simp
  have qr: "q \<noteq> r" using q0 cc_root(2) [OF cc] by auto
  have t3': "inode_table s3 = (inode_table s)(q := new_file dev sb p x)" using t3 f1(1) f2(1) by simp
  have low: "blk part s3 b j = blk part s b j" if "start \<le> b" "j < 512" for b j
  proof -
    have "b \<noteq> iblock sb p" using iblock_area [OF vp, of sb] area(1) that(1) by linarith
    then have "blk part s3 b j = blk part s2 b j" using b3 by simp
    also have "\<dots> = blk part s1 b j" using only_map_blk [OF om2 _ that(2), of b] area(1) that(1) by simp
    also have "\<dots> = blk part s b j" using only_map_blk [OF om1 _ that(2), of b] area(1) that(1) by simp
    finally show ?thesis .
  qed
  note de = dir_eqI [of start part s3 s, OF low]
  have rg3: "root_good s3 r dev part sb start nr"
    by (rule root_good_cong [OF cc_good [OF cc] g3]) (use qr f1 f2 f3 in \<open>simp_all add: t3'\<close>)
  have k3: "k = free_slot part s3 start nr" using cc_slot(1) [OF cc] free_slot_eqI [of part s3 start s nr, OF de(1)] by simp
  have num: "- (2 ^ 31) \<le> int p" "int p < 2 ^ 31" using ino(2) by simp_all
  obtain s4 where s4: "new_dir_entry s3 r (int p) fn = Inr s4"
    and rg4: "root_good s4 r dev part sb start (if k < nr then nr else nr + 1)"
    and e4: "dir_ino part s4 start k = int p" "dir_name part s3 start k = replicate 12 0 \<Longrightarrow> dir_name part s4 start k = pad_name fn"
    and o4: "\<And>k'. k' \<noteq> k \<Longrightarrow> dir_ino part s4 start k' = dir_ino part s3 start k' \<and> dir_name part s4 start k' = dir_name part s3 start k'"
    and t4: "inode_table s4 = (if k < nr then inode_table s3
           else (inode_table s3)(r := (inode_table s3 r)\<lparr>i_size := i_size (inode_table s3 r) + 16\<rparr>))"
    and sd4: "same_disk (dinode part sb s4 1) (inode_table s4 r)"
    and b4: "\<And>l. l \<noteq> start + k div 32 \<Longrightarrow> l \<noteq> iblock sb 1 \<Longrightarrow> blk part s4 l = blk part s3 l"
    and d4: "\<And>j. valid_ino j \<Longrightarrow> j \<noteq> 1 \<Longrightarrow> iblock sb j \<noteq> start + k div 32 \<Longrightarrow> dinode part sb s4 j = dinode part sb s3 j"
    and f4: "f_desc_table s4 = f_desc_table s3" "fprocs s4 = fprocs s3" "umem s4 = umem s3"
    by (rule new_dir_entry_spec [OF rg3 cc_nr [OF cc] path(2) num k3 cc_slot(2) [OF cc]]) (rule that)
  have run: "create_file s path = Inr (Some q, s4)"
    using path(1) root s1 s2 s3 s4 by (simp add: create_file_def Let_def t3')
  show thesis
  proof (rule that [OF run q(1) q0 qr])
    show "inode_table s4 q = new_file dev sb p x" using qr by (simp add: t4 t3')
    show "i_cnt (inode_table s4 j) = i_cnt (inode_table s j) \<and> i_dev (inode_table s4 j) = i_dev (inode_table s j) \<and>
      i_num (inode_table s4 j) = i_num (inode_table s j)" if "j \<noteq> q" for j using that by (simp add: t4 t3')
    show "inode_table s4 j = inode_table s j" if "j \<noteq> q" "j \<noteq> r" for j using that by (simp add: t4 t3')
    show "icache_ok s4"
    proof -
      have "cached s4 d m i = cached s3 d m i" "i_cnt (inode_table s4 i) = i_cnt (inode_table s3 i)" for d m i
        by (simp_all add: t4)
      then show ?thesis using c3 unfolding icache_ok_def by simp
    qed
    show "same_disk (dinode part sb s4 p) (new_file dev sb p x)"
      using sd3 d4 [OF vp p1] iblock_area [OF vp, of sb] area(1) by simp
    show "dir_name part s4 start k = pad_name fn" using e4(2) de(2) cc_slot(3) [OF cc] by simp
    show "dir_ino part s4 start k' = dir_ino part s start k' \<and> dir_name part s4 start k' = dir_name part s start k'" if "k' \<noteq> k" for k'
      using o4 [OF that] de by simp
    have i1: "smap0 sb + unat (nr_smap_sects sb) \<le> iblock sb 1" "iblock sb 1 < start" using iblock_area [of 1 sb] area(1) by auto
    have b43: "blk part s4 b = blk part s2 b" if "b < smap0 sb + unat (nr_smap_sects sb)" for b
    proof -
      have "blk part s4 b = blk part s3 b" using i1 that by (intro b4) linarith+
      also have "\<dots> = blk part s2 b" using iblock_area [OF vp, of sb] that by (intro b3) linarith
      finally show ?thesis .
    qed
    show "y \<in> map_set part s4 2 \<longleftrightarrow> y \<in> map_set part s 2 \<or> y = p" if y: "y < 4096" for y
    proof -
      have "y \<in> map_set part s4 2 \<longleftrightarrow> y \<in> map_set part s1 2"
      proof (rule map_set_cong [of 2 1])
        fix b j :: nat assume b: "2 \<le> b" "b < 2 + 1" "j < SECTOR_SIZE"
        then have "blk part s4 b j = blk part s2 b j" using b43 [of b] im by simp
        then show "blk part s4 b j = blk part s1 b j" using only_map_blk [OF om2 _ b(3), of b] b im by simp
      qed (use y in simp)
      then show ?thesis using a1 by (auto simp: allocates_def)
    qed
    show "y \<in> map_set part s4 (smap0 sb) \<longleftrightarrow> y \<in> map_set part s (smap0 sb) \<or> x \<le> y \<and> y < x + NR_DEFAULT_FILE_SECTS"
      if y: "y < 4096 * unat (nr_smap_sects sb)" for y
    proof -
      have "y \<in> map_set part s4 (smap0 sb) \<longleftrightarrow> y \<in> map_set part s2 (smap0 sb)"
        by (rule map_set_cong [OF _ y]) (simp add: b43)
      then show ?thesis using a2 sm1 by (auto simp: allocates_def)
    qed
    show "blk part s4 b j = blk part s b j" if "start \<le> b" "b \<noteq> start + k div 32" "j < 512" for b j
      using b4 [of b] low [OF that(1,3)] that(2) i1(2) that(1) by auto
    show "blk part s4 b j = blk part s b j"
      if b: "b \<notin> {2, iblock sb p, iblock sb 1, start + k div 32} \<union> {smap0 sb..<smap0 sb + unat (nr_smap_sects sb)}" and j: "j < 512" for b j
    proof -
      have "blk part s4 b j = blk part s2 b j" using b4 [of b] b3 [of b] b by simp
      also have "\<dots> = blk part s1 b j" using only_map_blk [OF om2 _ j, of b] b by auto
      also have "\<dots> = blk part s b j"
      proof (rule only_map_blk [OF om1 _ j])
        have "b \<noteq> 2" using b by simp
        then show "b < 2 \<or> 3 \<le> b" by linarith
      qed
      finally show ?thesis .
    qed
    show "dinode part sb s4 j = dinode part sb s j" if "valid_ino j" "j \<noteq> p" "j \<noteq> 1" for j
    proof -
      have b: "smap0 sb + unat (nr_smap_sects sb) \<le> iblock sb j" "3 \<le> iblock sb j" "iblock sb j \<noteq> start + k div 32"
        using iblock_area [OF that(1), of sb] im area(1) by auto
      have "dinode part sb s2 j = dinode part sb s j"
      proof (rule dinode_cong)
        fix i :: nat assume i: "i < 512"
        have "blk part s2 (iblock sb j) i = blk part s1 (iblock sb j) i" using only_map_blk [OF om2 _ i] b(1) by simp
        also have "\<dots> = blk part s (iblock sb j) i" using only_map_blk [OF om1 _ i] b(2) by simp
        finally show "blk part s2 (iblock sb j) i = blk part s (iblock sb j) i" .
      qed
      then show ?thesis using d4 [OF that(1,3) b(3)] d3 [OF that(1,2)] by simp
    qed
    show "inode_table s4 r = (if k < nr then inode_table s r else (inode_table s r)\<lparr>i_size := i_size (inode_table s r) + 16\<rparr>)"
      using qr by (simp add: t4 t3')
  qed (use e4 rg4 sd4 f1 f2 f3 f4 in simp_all)
qed

end
