(* ===== verification/FsUnlink.thy ===== *)
theory FsUnlink
  imports FsCreate
begin

unbundle bit_operations_syntax

text \<open>
  Removing a file: \<open>unlink_entry\<close> on the root directory and \<open>do_unlink\<close> as a whole.
\<close>

section \<open>The entry is found\<close>

text \<open>The entries in use among the \<open>n\<close> from \<open>a\<close> on.\<close>

fun live :: "(nat \<Rightarrow> int) \<Rightarrow> nat \<Rightarrow> nat \<Rightarrow> nat" where
  "live f a 0 = 0"
| "live f a (Suc n) = (if f a \<noteq> 0 then 1 else 0) + live f (Suc a) n"

lemma live_cong: "(\<And>i. a \<le> i \<Longrightarrow> i < a + n \<Longrightarrow> f i = g i) \<Longrightarrow> live f a n = live g a n"
proof (induction n arbitrary: a)
  case (Suc n)
  have "live f (Suc a) n = live g (Suc a) n" by (rule Suc.IH) (use Suc.prems in simp)
  then show ?case using Suc.prems [of a] by simp
qed simp

lemma live_shift: "live (\<lambda>i. f (i + d)) a n = live f (a + d) n"
  by (induction n arbitrary: a) simp_all

lemma live_add: "live f a (n + m) = live f a n + live f (a + n) m"
  by (induction n arbitrary: a) simp_all

lemma live_le: "live f a n \<le> n"
proof (induction n arbitrary: a)
  case (Suc n)
  then have "live f (Suc a) n \<le> n" by blast
  then show ?case by simp
qed simp

lemma unlink_entries_hit:
  "k < n \<Longrightarrow> m + k < nr \<Longrightarrow> de_inode b (j + k) = num \<Longrightarrow> \<forall>i < k. de_inode b (j + i) \<noteq> num \<Longrightarrow>
   unlink_entries b num nr n j m sz = (Some (j + k), m + k + 1, sz + 16 * live (de_inode b) j k)"
proof (induction n arbitrary: j m sz k)
  case (Suc n)
  show ?case
  proof (cases k)
    case (Suc k')
    have "unlink_entries b num nr n (Suc j) (m + 1) sz' = (Some (Suc j + k'), m + 1 + k' + 1, sz' + 16 * live (de_inode b) (Suc j) k')" for sz'
      by (rule Suc.IH) (use Suc.prems Suc in auto)
    moreover have "de_inode b j \<noteq> num" "\<not> m + 1 > nr" using Suc.prems(2) Suc.prems(4) [rule_format, of 0] Suc by auto
    ultimately show ?thesis using Suc by simp
  qed (use Suc.prems in simp)
qed simp

lemma unlink_entries_miss:
  "m + n \<le> nr \<Longrightarrow> \<forall>i < n. de_inode b (j + i) \<noteq> num \<Longrightarrow>
   unlink_entries b num nr n j m sz = (None, m + n, sz + 16 * live (de_inode b) j n)"
proof (induction n arbitrary: j m sz)
  case (Suc n)
  have "unlink_entries b num nr n (Suc j) (m + 1) sz' = (None, m + 1 + n, sz' + 16 * live (de_inode b) (Suc j) n)" for sz'
    by (rule Suc.IH) (use Suc.prems in auto)
  moreover have "de_inode b j \<noteq> num" "\<not> m + 1 > nr" using Suc.prems(1) Suc.prems(2) [rule_format, of 0] by auto
  ultimately show ?case by simp
qed simp

text \<open>Entry \<open>j\<close> of a sector of the directory.\<close>

lemma entry_in_block:
  assumes "j < 32"
  shows "dir_ino part s start (i * 32 + j) = de_inode (fsbuf (read_blk part (start + i) s)) j"
    and "dir_name part s start (i * 32 + j) = de_name (fsbuf (read_blk part (start + i) s)) j"
  using assms by (simp_all add: dir_ino_def dir_name_def entries_read)

definition clear_entry :: "nat \<Rightarrow> (nat \<Rightarrow> u8) \<Rightarrow> nat \<Rightarrow> u8" where
  "clear_entry j b = blit b (j * DIR_ENTRY_SIZE) (\<lambda>_. 0) DIR_ENTRY_SIZE"

lemma div_le_mult: "a \<le> k div 32 \<longleftrightarrow> a * 32 \<le> (k :: nat)"
  by (simp add: less_eq_div_iff_mult_less_eq)

lemma unlink_blocks_eq:
  assumes "\<forall>j \<le> k div 32. reach part (start + j)" and "fs_dev s dev part" and "i * 32 \<le> k" and "k < nr"
    and "k div 32 < i + n" and "dir_ino part s start k = num" and "\<forall>j < k. i * 32 \<le> j \<longrightarrow> dir_ino part s start j \<noteq> num"
  shows "\<exists>b. unlink_blocks dev (int start) num nr n i (i * 32) sz s =
    Inr ((True, k + 1, sz + 16 * live (dir_ino part s start) (i * 32) (k - i * 32)),
      edit_blk part (start + k div 32) (clear_entry (k mod 32) (fsbuf (read_blk part (start + k div 32) (s\<lparr>fsbuf := b\<rparr>)))) (s\<lparr>fsbuf := b\<rparr>))"
  using assms
proof (induction n arbitrary: i sz s)
  case 0
  then show ?case by simp
next
  case (Suc n)
  let ?s1 = "read_blk part (start + i) s"
  have i: "i \<le> k div 32" using Suc.prems(3) by linarith
  have rd: "RD_SECT s dev (int start + int i) = Inr ?s1"
    using RD_SECT_eq [OF Suc.prems(2), of "start + i"] Suc.prems(1) i by simp
  have en: "de_inode (fsbuf ?s1) j = dir_ino part s start (i * 32 + j)" if "j < 32" for j
    using entry_in_block(1) [OF that] by simp
  have lv: "live (de_inode (fsbuf ?s1)) 0 m = live (dir_ino part s start) (i * 32) m" if "m \<le> 32" for m
  proof -
    have "live (de_inode (fsbuf ?s1)) 0 m = live (\<lambda>j. dir_ino part s start (j + i * 32)) 0 m"
      by (rule live_cong) (use that en in \<open>simp add: add.commute\<close>)
    then show ?thesis by (simp add: live_shift)
  qed
  show ?case
  proof (cases "k div 32 = i")
    case True
    define j where "j = k mod 32"
    have j: "j < 32" "k = i * 32 + j" using True div_mult_mod_eq [of k 32] by (simp_all add: j_def)
    have hit: "unlink_entries (fsbuf ?s1) num nr 32 0 (i * 32) sz = (Some j, k + 1, sz + 16 * live (dir_ino part s start) (i * 32) j)"
      using unlink_entries_hit [of j 32 "i * 32" nr "fsbuf ?s1" 0 num sz] Suc.prems(4,6,7) j en lv [of j] by simp
    have "WR_SECT (?s1\<lparr>fsbuf := clear_entry j (fsbuf ?s1)\<rparr>) dev (int start + int i) =
      Inr (write_blk part (start + i) (?s1\<lparr>fsbuf := clear_entry j (fsbuf ?s1)\<rparr>))"
    proof -
      have "fs_dev (?s1\<lparr>fsbuf := clear_entry j (fsbuf ?s1)\<rparr>) dev part" using Suc.prems(2) by simp
      from WR_SECT_eq [OF this, of "start + i"] show ?thesis using Suc.prems(1) i by simp
    qed
    moreover have "k - i * 32 = j" "k mod 32 = j" using j by simp_all
    ultimately show ?thesis using True hit
      by (intro exI [of _ "fsbuf s"]) (simp add: rd clear_entry_def edit_blk_def)
  next
    case False
    have "Suc i \<le> k div 32" using i False by simp
    then have k: "Suc i * 32 \<le> k" by (rule div_le_mult [THEN iffD1])
    have miss: "unlink_entries (fsbuf ?s1) num nr 32 0 (i * 32) sz = (None, i * 32 + 32, sz + 16 * live (dir_ino part s start) (i * 32) 32)"
      using unlink_entries_miss [of "i * 32" 32 nr "fsbuf ?s1" 0 num sz] Suc.prems(4,7) k en lv [of 32] by simp
    let ?z = "sz + 16 * live (dir_ino part s start) (i * 32) 32"
    have same: "dir_ino part ?s1 start = dir_ino part s start" using dir_cong [of ?s1 s part start] by (simp add: fun_eq_iff)
    have "\<exists>b. unlink_blocks dev (int start) num nr n (Suc i) (Suc i * 32) ?z ?s1 =
      Inr ((True, k + 1, ?z + 16 * live (dir_ino part ?s1 start) (Suc i * 32) (k - Suc i * 32)),
        edit_blk part (start + k div 32) (clear_entry (k mod 32) (fsbuf (read_blk part (start + k div 32) (?s1\<lparr>fsbuf := b\<rparr>)))) (?s1\<lparr>fsbuf := b\<rparr>))"
      by (rule Suc.IH) (use Suc.prems k in \<open>simp_all add: same\<close>)
    then obtain b where b: "unlink_blocks dev (int start) num nr n (Suc i) (i * 32 + 32) ?z ?s1 =
      Inr ((True, k + 1, ?z + 16 * live (dir_ino part s start) (Suc i * 32) (k - Suc i * 32)),
        edit_blk part (start + k div 32) (clear_entry (k mod 32) (fsbuf (read_blk part (start + k div 32) (s\<lparr>fsbuf := b\<rparr>)))) (s\<lparr>fsbuf := b\<rparr>))"
      unfolding same by (auto simp: add.commute read_blk_def)
    have d: "k - i * 32 = 32 + (k - Suc i * 32)" "i * 32 + 32 = Suc i * 32" using k by simp_all
    have "?z + 16 * live (dir_ino part s start) (Suc i * 32) (k - Suc i * 32) = sz + 16 * live (dir_ino part s start) (i * 32) (k - i * 32)"
      unfolding d(1) live_add d(2) by (simp only: distrib_left add.assoc)
    moreover have "\<not> nr < i * 32 + 32" using k Suc.prems(4) by simp
    ultimately show ?thesis using b by (intro exI [of _ b]) (simp only: unlink_blocks.simps rd miss sum.case prod.case option.case if_False)
  qed
qed

section \<open>The entry is cleared\<close>

lemma clear_entry_same:
  assumes "j < 32"
  shows "de_inode (clear_entry j b) j = 0" and "de_name (clear_entry j b) j = replicate 12 0"
proof -
  have z: "clear_entry j b (j * 16 + i) = 0" if "i < 16" for i using that by (simp add: clear_entry_def blit_def)
  have "le32 (clear_entry j b) (j * 16) = le32 (\<lambda>_. 0) (j * 16)" by (rule le32_cong) (use z in simp)
  then show "de_inode (clear_entry j b) j = 0" by (simp add: de_inode_def le32_def)
  show "de_name (clear_entry j b) j = replicate 12 0"
    by (rule nth_equalityI) (simp_all add: de_name_def add.assoc z)
qed

lemma clear_entry_other:
  assumes "j' \<noteq> j"
  shows "de_inode (clear_entry j b) j' = de_inode b j'" and "de_name (clear_entry j b) j' = de_name b j'"
proof -
  have *: "clear_entry j b (j' * 16 + k) = b (j' * 16 + k)" if "k < 16" for k
  proof -
    have "j' * 16 + k < j * 16 \<or> j * 16 + 16 \<le> j' * 16 + k" using assms that by (cases "j' < j") auto
    then show ?thesis by (auto simp: clear_entry_def blit_def)
  qed
  show "de_inode (clear_entry j b) j' = de_inode b j'"
    unfolding de_inode_def using * by (intro arg_cong [where f = sint] le32_cong) simp
  show "de_name (clear_entry j b) j' = de_name b j'" using * by (auto simp: de_name_def add.assoc)
qed

lemma dir_after_clear:
  assumes b: "\<And>i. i < SECTOR_SIZE \<Longrightarrow> blk part s' (start + k div 32) i =
      clear_entry (k mod 32) (fsbuf (read_blk part (start + k div 32) s)) i"
    and o: "\<And>l. l \<noteq> start + k div 32 \<Longrightarrow> start \<le> l \<Longrightarrow> blk part s' l = blk part s l"
  shows "dir_ino part s' start k = 0" and "dir_name part s' start k = replicate 12 0"
    and "k' \<noteq> k \<Longrightarrow> dir_ino part s' start k' = dir_ino part s start k'"
    and "k' \<noteq> k \<Longrightarrow> dir_name part s' start k' = dir_name part s start k'"
proof -
  let ?b = "clear_entry (k mod 32) (fsbuf (read_blk part (start + k div 32) s))"
  have here: "de_inode (blk part s' (start + k div 32)) j = de_inode ?b j"
    "de_name (blk part s' (start + k div 32)) j = de_name ?b j" if "j < 32" for j
    using that b by (auto intro: de_inode_cong de_name_cong)
  show "dir_ino part s' start k = 0" "dir_name part s' start k = replicate 12 0"
    using here [of "k mod 32"] clear_entry_same [of "k mod 32"] by (simp_all add: dir_ino_def dir_name_def)
  have "dir_ino part s' start k' = dir_ino part s start k' \<and> dir_name part s' start k' = dir_name part s start k'"
    if ne: "k' \<noteq> k"
  proof (cases "k' div 32 = k div 32")
    case True
    then have "k' mod 32 \<noteq> k mod 32" using ne by (metis div_mult_mod_eq)
    then show ?thesis using here [of "k' mod 32"] clear_entry_other True by (simp add: dir_ino_def dir_name_def entries_read)
  next
    case False
    then show ?thesis using o [of "start + k' div 32"] by (simp add: dir_ino_def dir_name_def)
  qed
  then show "k' \<noteq> k \<Longrightarrow> dir_ino part s' start k' = dir_ino part s start k'"
    "k' \<noteq> k \<Longrightarrow> dir_name part s' start k' = dir_name part s start k'" by simp_all
qed

text \<open>
  The size of the directory after the removal of entry \<open>k\<close>: when it was the last
  one, the number of entries in use before it, whatever gaps there are between them.
\<close>

definition shrunk :: "part_info \<Rightarrow> fs_state \<Rightarrow> nat \<Rightarrow> nat \<Rightarrow> nat \<Rightarrow> nat" where
  "shrunk part s start nr k = (if k + 1 = nr then live (dir_ino part s start) 0 k else nr)"

lemma shrunk_le: "k < nr \<Longrightarrow> shrunk part s start nr k \<le> nr"
  using live_le [of "dir_ino part s start" 0 k] by (auto simp: shrunk_def)

lemma unlink_entry_spec:
  assumes g: "root_good s r dev part sb start nr" and k: "k < nr" "dir_ino part s start k = num"
    "\<forall>j < k. dir_ino part s start j \<noteq> num"
  obtains s' where "unlink_entry s r num = Inr s'"
    and "root_good s' r dev part sb start (shrunk part s start nr k)"
    and "dir_ino part s' start k = 0" "dir_name part s' start k = replicate 12 0"
    and "\<And>k'. k' \<noteq> k \<Longrightarrow> dir_ino part s' start k' = dir_ino part s start k' \<and> dir_name part s' start k' = dir_name part s start k'"
    and "inode_table s' = (if k + 1 = nr
           then (inode_table s)(r := (inode_table s r)\<lparr>i_size := of_nat (16 * shrunk part s start nr k)\<rparr>) else inode_table s)"
    and "\<And>l. l \<noteq> start + k div 32 \<Longrightarrow> l \<noteq> iblock sb 1 \<or> k + 1 \<noteq> nr \<Longrightarrow> blk part s' l = blk part s l"
    and "k + 1 = nr \<Longrightarrow> same_disk (dinode part sb s' 1) (inode_table s' r)"
    and "\<And>j. valid_ino j \<Longrightarrow> j \<noteq> 1 \<Longrightarrow> iblock sb j \<noteq> start + k div 32 \<Longrightarrow> dinode part sb s' j = dinode part sb s j"
    and "f_desc_table s' = f_desc_table s" "fprocs s' = fprocs s" "umem s' = umem s"
proof -
  let ?d = "inode_table s r" and ?n = "start + k div 32" and ?nr' = "shrunk part s start nr k"
  have rk: "root_ok s r dev part start nr" and ge: "geom s dev part sb" and rn: "i_num ?d = int 1"
    and st: "iblock sb 1 < start" using g by (simp_all add: root_good_def)
  have dv: "fs_dev s dev part" "i_dev ?d = dev" and start: "start < 2 ^ 31" and nr: "nr \<le> 2 ^ 14"
    and rch: "\<And>j. j \<le> nr div 32 \<Longrightarrow> reach part (start + j)" and isz: "i_size ?d = of_nat (nr * 16)"
    and ist: "i_start_sect ?d = of_nat start"
    using rk by (auto simp: root_ok_def)
  have usz: "unat (i_size ?d) = nr * 16" using isz nr by (simp add: unat_of_nat del: of_nat_mult)
  have n1: "unat (i_size ?d div 16) = nr" by (simp add: unat_div usz)
  have "unat (i_size ?d + 512) = nr * 16 + 512"
    using nr by (subst unat_add_lem [THEN iffD1]) (simp_all add: usz)
  then have n2: "unat ((i_size ?d + SECTOR_SIZE) div SECTOR_SIZE) = nr div 32 + 1" by (simp add: unat_div)
  have n3: "sint (i_start_sect ?d) = int start" using ist start by (simp add: sint_word_of_nat)
  have kd: "k div 32 \<le> nr div 32" using k(1) by (simp add: div_le_mono)
  obtain b where ub: "unlink_blocks dev (int start) num nr (nr div 32 + 1) 0 0 0 s =
      Inr ((True, k + 1, 16 * live (dir_ino part s start) 0 k),
        edit_blk part ?n (clear_entry (k mod 32) (fsbuf (read_blk part ?n (s\<lparr>fsbuf := b\<rparr>)))) (s\<lparr>fsbuf := b\<rparr>))"
    using unlink_blocks_eq [of k part start s dev 0 nr "nr div 32 + 1" num 0] rch dv(1) k kd by auto
  define f where "f = clear_entry (k mod 32) (fsbuf (read_blk part ?n (s\<lparr>fsbuf := b\<rparr>)))"
  define s1 where "s1 = edit_blk part ?n f (s\<lparr>fsbuf := b\<rparr>)"
  have sf: "same_fs s s1" unfolding s1_def edit_blk_def
    by (intro same_fs_trans [OF same_fs_rw(4) same_fs_trans [OF same_fs_rw(1) same_fs_rw(2)]])
  note fr1 = same_fsD [OF sf]
  have b1: "blk part s1 ?n i = f i" if "i < 512" for i using that by (simp add: s1_def blk_edit)
  have o1: "blk part s1 l = blk part s l" if "l \<noteq> ?n" for l using that by (simp add: s1_def blk_edit_other)
  have g1: "geom s1 dev part sb" by (rule same_fs_geom [OF sf ge])
  have run: "unlink_entry s r num = (if k + 1 = nr then sync_inode (upd_inode r (\<lambda>n. n\<lparr>i_size := of_nat (16 * live (dir_ino part s start) 0 k)\<rparr>) s1) r else Inr s1)"
    using ub unfolding f_def [symmetric] s1_def [symmetric]
    by (simp add: unlink_entry_def Let_def dv n1 n2 n3 del: unlink_blocks.simps)
  note result = that
  have fin: thesis if s': "unlink_entry s r num = Inr s'"
    and it: "inode_table s' = (if k + 1 = nr then (inode_table s)(r := ?d\<lparr>i_size := of_nat (16 * ?nr')\<rparr>) else inode_table s)"
    and bl: "\<And>l. l \<noteq> iblock sb 1 \<or> k + 1 \<noteq> nr \<Longrightarrow> blk part s' l = blk part s1 l"
    and sz: "k + 1 = nr \<Longrightarrow> same_disk (dinode part sb s' 1) (inode_table s' r)" and gs: "geom s' dev part sb"
    and od: "\<And>j. valid_ino j \<Longrightarrow> j \<noteq> 1 \<Longrightarrow> dinode part sb s' j = dinode part sb s1 j"
    and fr: "f_desc_table s' = f_desc_table s1" "fprocs s' = fprocs s1" "umem s' = umem s1" "root_inode s' = root_inode s1" for s'
  proof -
    have bl1: "blk part s' ?n i = clear_entry (k mod 32) (fsbuf (read_blk part ?n (s\<lparr>fsbuf := b\<rparr>))) i" if "i < 512" for i
      using bl [of ?n] b1 [OF that] st by (simp add: f_def)
    have bo: "blk part s' l = blk part (s\<lparr>fsbuf := b\<rparr>) l" if "l \<noteq> ?n" "start \<le> l" for l
      using bl [of l] o1 [of l] st that by simp
    note after = dir_after_clear [OF bl1 bo]
    have old: "dir_ino part (s\<lparr>fsbuf := b\<rparr>) start j = dir_ino part s start j"
      "dir_name part (s\<lparr>fsbuf := b\<rparr>) start j = dir_name part s start j" for j by (simp_all add: dir_ino_def dir_name_def)
    have le: "?nr' \<le> nr" by (rule shrunk_le [OF k(1)])
    have nn: "k + 1 \<noteq> nr \<Longrightarrow> ?nr' = nr" by (simp add: shrunk_def)
    have "reach part (start + j)" if "j \<le> ?nr' div 32" for j
      by (rule rch) (use that div_le_mono [OF le, of 32] in linarith)
    then have "root_good s' r dev part sb start ?nr'"
      using rn st dv nr le nn ist isz start gs geom_dev [OF gs] rk fr(4) fr1(5)
      by (auto simp: root_good_def root_ok_def it mult.commute)
    then show thesis
      by (rule result [OF s']) (use after old bl o1 od fr fr1 it sz in \<open>simp_all add: dinode_def\<close>)
  qed
  show thesis
  proof (cases "k + 1 = nr")
    case False
    show thesis by (rule fin [of s1]) (use False run fr1 g1 in simp_all)
  next
    case True
    let ?s2 = "upd_inode r (\<lambda>n. n\<lparr>i_size := of_nat (16 * live (dir_ino part s start) 0 k)\<rparr>) s1"
    have g2: "geom ?s2 dev part sb" using g1 by simp
    have n: "i_dev (inode_table ?s2 r) = dev" "i_num (inode_table ?s2 r) = int 1" using dv(2) rn fr1(1) by simp_all
    obtain s' where sy: "sync_inode ?s2 r = Inr s'"
      and s': "s' = write_blk part (iblock sb 1) (?s2\<lparr>fsbuf := store_inode (inode_table ?s2 r) (ioffset 1) (fsbuf (read_blk part (iblock sb 1) ?s2))\<rparr>)"
      and sd: "same_disk (dinode part sb s' 1) (inode_table ?s2 r)"
      and od: "\<And>j. valid_ino j \<Longrightarrow> j \<noteq> 1 \<Longrightarrow> dinode part sb s' j = dinode part sb ?s2 j"
      and ob: "\<And>l. l \<noteq> iblock sb 1 \<Longrightarrow> blk part s' l = blk part ?s2 l"
      by (rule sync_inode_eq [OF g2 n]) simp_all
    show thesis
    proof (rule fin [of s'])
      show "unlink_entry s r num = Inr s'" using run sy True by simp
      show "inode_table s' = (if k + 1 = nr then (inode_table s)(r := ?d\<lparr>i_size := of_nat (16 * ?nr')\<rparr>) else inode_table s)"
        using True fr1(1) by (simp add: s' shrunk_def)
      show "same_disk (dinode part sb s' 1) (inode_table s' r)" using sd by (simp add: s')
    qed (use True od ob g2 in \<open>simp_all add: s' dinode_def\<close>)
  qed
qed

section \<open>Removing a file\<close>

lemma icache_ok_sub:
  assumes "icache_ok s" and "\<And>j. i_cnt (inode_table s' j) = i_cnt (inode_table s j)"
    and "\<And>d m j. cached s' d m j \<Longrightarrow> cached s d m j"
  shows "icache_ok s'"
proof -
  have "i = j" if "cached s' d m i" "cached s' d m j" for i j d m
    using assms(1) assms(3) [OF that(1)] assms(3) [OF that(2)] unfolding icache_ok_def by blast
  moreover have "0 \<le> i_cnt (inode_table s' i)" if "i < NR_INODE" for i
    using assms(1) that unfolding icache_ok_def assms(2) by blast
  ultimately show ?thesis unfolding icache_ok_def by blast
qed

text \<open>
  Entry \<open>k\<close> names inode \<open>p\<close>, a regular file that is not in the cache and whose
  \<open>ns\<close> sectors have the positions from \<open>x\<close> on in the sector map; the bits of both
  are set.
\<close>

definition can_unlink :: "fs_state \<Rightarrow> nat \<Rightarrow> int \<Rightarrow> part_info \<Rightarrow> super_block \<Rightarrow> nat \<Rightarrow> nat \<Rightarrow> nat \<Rightarrow> nat \<Rightarrow> nat \<Rightarrow> nat \<Rightarrow> bool" where
  "can_unlink s r dev part sb start nr k p x ns \<longleftrightarrow>
     root_good s r dev part sb start nr \<and> icache_ok s \<and> r < NR_INODE \<and> i_cnt (inode_table s r) \<noteq> 0 \<and>
     k < nr \<and> dir_ino part s start k = int p \<and> (\<forall>j < k. dir_ino part s start j \<noteq> int p) \<and>
     smap0 sb + unat (nr_smap_sects sb) + 256 \<le> start \<and> nr_imap_sects sb \<noteq> 0 \<and>
     1 \<le> p \<and> p < 4096 \<and> p \<in> map_set part s 2 \<and>
     i_mode (dinode part sb s p) = I_REGULAR \<and>
     i_start_sect (dinode part sb s p) = word_of_nat (x + unat (n_1st_sect sb) - 1) \<and>
     i_nr_sects (dinode part sb s p) = word_of_nat ns \<and> 1 \<le> x + unat (n_1st_sect sb) \<and>
     8 \<le> ns \<and> x + ns \<le> 4096 * unat (nr_smap_sects sb) \<and> x + ns < 2 ^ 31 \<and> {x..<x + ns} \<subseteq> map_set part s (smap0 sb) \<and>
     (\<forall>i. \<not> cached s dev (int p) i) \<and> (\<exists>i < NR_INODE. i_cnt (inode_table s i) = 0)"

lemma can_unlinkD:
  assumes "can_unlink s r dev part sb start nr k p x ns"
  shows cu_good: "root_good s r dev part sb start nr" and cu_cache: "icache_ok s"
    and cu_root: "r < NR_INODE" "i_cnt (inode_table s r) \<noteq> 0"
    and cu_slot: "k < nr" "dir_ino part s start k = int p" "\<forall>j < k. dir_ino part s start j \<noteq> int p"
    and cu_area: "smap0 sb + unat (nr_smap_sects sb) + 256 \<le> start" "nr_imap_sects sb \<noteq> 0"
    and cu_ino: "1 \<le> p" "p < 4096" "p \<in> map_set part s 2"
    and cu_inode: "i_mode (dinode part sb s p) = I_REGULAR" "i_start_sect (dinode part sb s p) = word_of_nat (x + unat (n_1st_sect sb) - 1)"
      "i_nr_sects (dinode part sb s p) = word_of_nat ns"
    and cu_sect: "1 \<le> x + unat (n_1st_sect sb)" "8 \<le> ns" "x + ns \<le> 4096 * unat (nr_smap_sects sb)" "x + ns < 2 ^ 31"
      "{x..<x + ns} \<subseteq> map_set part s (smap0 sb)"
    and cu_room: "\<not> cached s dev (int p) i" "\<exists>i < NR_INODE. i_cnt (inode_table s i) = 0"
  using assms unfolding can_unlink_def by blast+

lemma do_unlink_spec:
  assumes cu: "can_unlink s r dev part sb start nr k p x ns"
    and path: "get_pathname s (nat (source msg)) (m3p1 msg) (m3i2 msg) (AFL 19) = Inr path" "path \<noteq> [slash]"
      "strip_path path = Some fn" "fn \<noteq> []" "lookup part s start nr fn = int p"
  obtains s' where "do_unlink s msg = Inr (0, s')"
    and "root_good s' r dev part sb start (shrunk part s start nr k)" "icache_ok s'"
    and "dir_ino part s' start k = 0" "dir_name part s' start k = replicate 12 0"
    and "\<And>k'. k' \<noteq> k \<Longrightarrow> dir_ino part s' start k' = dir_ino part s start k' \<and> dir_name part s' start k' = dir_name part s start k'"
    and "\<And>y. y < 4096 \<Longrightarrow> y \<in> map_set part s' 2 \<longleftrightarrow> y \<in> map_set part s 2 \<and> y \<noteq> p"
    and "\<And>y. y < 4096 * unat (nr_smap_sects sb) \<Longrightarrow> y \<in> map_set part s' (smap0 sb) \<longleftrightarrow>
      y \<in> map_set part s (smap0 sb) \<and> \<not> (x \<le> y \<and> y < x + ns)"
    and "\<And>b j. start \<le> b \<Longrightarrow> b \<noteq> start + k div 32 \<Longrightarrow> j < SECTOR_SIZE \<Longrightarrow> blk part s' b j = blk part s b j"
    and "i_mode (dinode part sb s' p) = 0"
    and "\<And>b j. b \<notin> {2, iblock sb p, iblock sb 1, start + k div 32} \<union> {smap0 sb..<smap0 sb + unat (nr_smap_sects sb)} \<Longrightarrow>
      j < SECTOR_SIZE \<Longrightarrow> blk part s' b j = blk part s b j"
    and "\<And>j. valid_ino j \<Longrightarrow> j \<noteq> p \<Longrightarrow> j \<noteq> 1 \<Longrightarrow> dinode part sb s' j = dinode part sb s j"
    and "inode_table s' r = (if k + 1 = nr then (inode_table s r)\<lparr>i_size := of_nat (16 * shrunk part s start nr k)\<rparr> else inode_table s r)"
    and "if k + 1 = nr then same_disk (dinode part sb s' 1) (inode_table s' r) else dinode part sb s' 1 = dinode part sb s 1"
    and "\<And>j. i_cnt (inode_table s' j) = i_cnt (inode_table s j)" "\<And>m j. cached s' dev m j = cached s dev m j"
    and "f_desc_table s' = f_desc_table s" "fprocs s' = fprocs s" "umem s' = umem s"
proof -
  note area = cu_area [OF cu] and ino = cu_ino [OF cu] and sect = cu_sect [OF cu]
  have rk: "root_ok s r dev part start nr" and g: "geom s dev part sb"
    and root: "i_dev (inode_table s r) = dev" "root_inode s = Some r" "i_num (inode_table s r) = 1"
    using cu_good [OF cu] by (simp_all add: root_good_def root_ok_def)
  have vp: "valid_ino p" using ino(1,2) by simp
  have im: "unat (nr_imap_sects sb) \<noteq> 0" using area(2) by (simp add: unat_eq_0)
  have p1: "p \<noteq> 1" using cu_room(1) [OF cu, of r] cu_root [OF cu] root by auto
  obtain b where sf: "search_file s path = Inr (int p, s\<lparr>fsbuf := b\<rparr>)" using search_file_eq [OF rk path(3,4)] path(5) by auto
  let ?s1 = "s\<lparr>fsbuf := b\<rparr>"
  have g1: "geom ?s1 dev part sb" and c1: "icache_ok ?s1" and room: "\<exists>i < NR_INODE. i_cnt (inode_table ?s1 i) = 0"
    using g cu_cache [OF cu] cu_room(2) [OF cu] by (simp_all add: icache_ok_def)
  obtain q s2 where s2: "get_inode ?s1 dev (int p) = Inr (Some q, s2)" and ch: "cached s2 dev (int p) q"
    and oth: "\<And>j. j \<noteq> q \<Longrightarrow> inode_table s2 j = inode_table ?s1 j" and cnt: "i_cnt (inode_table s2 q) = i_cnt (inode_table ?s1 q) + 1"
    and f2: "drive s2 = drive ?s1" "f_desc_table s2 = f_desc_table ?s1" "fprocs s2 = fprocs ?s1"
      "super_blocks s2 = super_blocks ?s1" "root_inode s2 = root_inode ?s1" "umem s2 = umem ?s1"
    and ino2: "if \<exists>q. cached ?s1 dev (int p) q
      then cached ?s1 dev (int p) q \<and> inode_table s2 q = (inode_table ?s1 q)\<lparr>i_cnt := i_cnt (inode_table ?s1 q) + 1\<rparr>
      else inode_table s2 q = (dinode part sb ?s1 p)\<lparr>i_dev := dev, i_num := int p, i_cnt := 1\<rparr>"
    by (rule get_inode_total [OF c1 g1 vp room]) (rule that)
  have miss: "\<not> (\<exists>q. cached ?s1 dev (int p) q)" using cu_room(1) [OF cu] by simp
  have n2: "inode_table s2 q = (dinode part sb s p)\<lparr>i_dev := dev, i_num := int p, i_cnt := 1\<rparr>"
    using ino2 unfolding if_not_P [OF miss] by (simp add: dinode_def)
  have q0: "i_cnt (inode_table s q) = 0" using cnt n2 by simp
  have qr: "q \<noteq> r" using q0 cu_root(2) [OF cu] by auto
  have "fs_dev s2 dev part = fs_dev s dev part" by (rule fs_dev_cong) (simp_all add: f2)
  then have g2: "geom s2 dev part sb" using g geom_cong [of s2 dev part s sb] f2(4) by simp
  have map2: "map_set part s2 b0 = map_set part s b0" for b0 by (simp add: set_eq_iff map_set_iff f2)
  obtain s3 where s3: "free_imap_bit s2 dev (int p) = Inr s3" and fr3: "frees part s2 s3 2 3 {p}"
    using free_imap_bit_eq [OF g2 ino(2)] ino(3) map2 by blast
  have om3: "only_map part s2 s3 2 3" using fr3 by (simp add: frees_def)
  note f3 = same_fsD [OF only_map_same [OF om3]]
  have g3: "geom s3 dev part sb" by (rule same_fs_geom [OF only_map_same [OF om3] g2])
  have sm3: "y \<in> map_set part s3 (smap0 sb) \<longleftrightarrow> y \<in> map_set part s (smap0 sb)" for y
    unfolding map2 [symmetric] using im only_map_blk [OF om3] by (intro map_set_cong [of "smap0 sb" "Suc y"]) auto
  let ?n = "inode_table s2 q"
  have n: "i_dev ?n = dev" "i_start_sect ?n = word_of_nat (x + unat (n_1st_sect sb) - 1)" "i_nr_sects ?n = word_of_nat ns"
    using cu_inode [OF cu] by (simp_all add: n2)
  have st: "x + unat (n_1st_sect sb) = x + unat (n_1st_sect sb) - 1 + 1" using sect(1) by simp
  have set3: "{x..<x + ns} \<subseteq> map_set part s3 (smap0 sb)" using sect(5) sm3 by blast
  obtain s4 where s4: "free_sectors s3 sb ?n = Inr s4"
    and fr4: "frees part s3 s4 (smap0 sb) (smap0 sb + unat (nr_smap_sects sb)) {x..<x + ns}"
    using free_sectors_eq [OF g3 n st sect(3,2,4) set3] by blast
  have om4: "only_map part s3 s4 (smap0 sb) (smap0 sb + unat (nr_smap_sects sb))" using fr4 by (simp add: frees_def)
  note f4 = same_fsD [OF only_map_same [OF om4]]
  have g4: "geom s4 dev part sb" by (rule same_fs_geom [OF only_map_same [OF om4] g3])
  let ?s5 = "upd_inode q (\<lambda>n. n\<lparr>i_mode := 0, i_size := 0, i_start_sect := 0, i_nr_sects := 0\<rparr>) s4"
  have g5: "geom ?s5 dev part sb" using g4 by simp
  have n5: "i_dev (inode_table ?s5 q) = dev" "i_num (inode_table ?s5 q) = int p" by (simp_all add: f3(1) f4(1) n2)
  obtain s6 where s6: "sync_inode ?s5 q = Inr s6"
    and s6_eq: "s6 = write_blk part (iblock sb p) (?s5\<lparr>fsbuf := store_inode (inode_table ?s5 q) (ioffset p) (fsbuf (read_blk part (iblock sb p) ?s5))\<rparr>)"
    and sd6: "same_disk (dinode part sb s6 p) (inode_table ?s5 q)"
    and b6: "\<And>b. b \<noteq> iblock sb p \<Longrightarrow> blk part s6 b = blk part ?s5 b"
    and d6: "\<And>j. valid_ino j \<Longrightarrow> j \<noteq> p \<Longrightarrow> dinode part sb s6 j = dinode part sb ?s5 j"
    by (rule sync_inode_eq [OF g5 n5 vp]) (rule that)
  have t6: "inode_table s6 = inode_table ?s5" by (simp add: s6_eq)
  have c6: "i_cnt (inode_table s6 q) = 1" by (simp add: t6 f3(1) f4(1) n2)
  let ?s7 = "upd_inode q (\<lambda>n. n\<lparr>i_cnt := i_cnt n - 1\<rparr>) s6"
  have s7: "put_inode s6 (Some q) = Inr ?s7" using c6 by (simp add: put_inode_def)
  have t7: "inode_table ?s7 j = inode_table s j" if "j \<noteq> q" for j using that oth [OF that] by (simp add: t6 f3(1) f4(1))
  have q7: "i_cnt (inode_table ?s7 q) = 0" using c6 by simp
  have fr7: "f_desc_table ?s7 = f_desc_table s" "fprocs ?s7 = fprocs s" "umem ?s7 = umem s" "root_inode ?s7 = root_inode s"
    using f2 f3 f4 by (simp_all add: s6_eq)
  have g7: "geom ?s7 dev part sb" using g5 by (simp add: s6_eq)
  have low: "blk part ?s7 b j = blk part s b j" if "start \<le> b" "j < 512" for b j
  proof -
    have "b \<noteq> iblock sb p" using iblock_area [OF vp, of sb] area(1) that(1) by linarith
    then have "blk part ?s7 b j = blk part s4 b j" using b6 by simp
    also have "\<dots> = blk part s3 b j" using only_map_blk [OF om4 _ that(2), of b] area(1) that(1) by simp
    also have "\<dots> = blk part s2 b j" using only_map_blk [OF om3 _ that(2), of b] area(1) that(1) by simp
    finally show ?thesis by (simp add: f2(1))
  qed
  have de: "dir_ino part ?s7 start k' = dir_ino part s start k'" "dir_name part ?s7 start k' = dir_name part s start k'" for k'
    by (rule dir_eqI, rule low, assumption+)+
  have rg7: "root_good ?s7 r dev part sb start nr"
    by (rule root_good_cong [OF cu_good [OF cu] g7]) (use qr t7 [of r] fr7 in simp_all)
  have e7: "dir_ino part ?s7 start k = int p" "\<forall>j < k. dir_ino part ?s7 start j \<noteq> int p" unfolding de by (rule cu_slot [OF cu])+
  have shr: "shrunk part ?s7 start nr k = shrunk part s start nr k"
    using live_cong [of 0 k "dir_ino part ?s7 start" "dir_ino part s start", OF de(1)] by (simp only: shrunk_def)
  obtain s8 where s8: "unlink_entry ?s7 r (int p) = Inr s8"
    and rg8: "root_good s8 r dev part sb start (shrunk part ?s7 start nr k)"
    and e8: "dir_ino part s8 start k = 0" "dir_name part s8 start k = replicate 12 0"
    and o8: "\<And>k'. k' \<noteq> k \<Longrightarrow> dir_ino part s8 start k' = dir_ino part ?s7 start k' \<and> dir_name part s8 start k' = dir_name part ?s7 start k'"
    and t8: "inode_table s8 = (if k + 1 = nr
           then (inode_table ?s7)(r := (inode_table ?s7 r)\<lparr>i_size := of_nat (16 * shrunk part ?s7 start nr k)\<rparr>) else inode_table ?s7)"
    and b8: "\<And>l. l \<noteq> start + k div 32 \<Longrightarrow> l \<noteq> iblock sb 1 \<or> k + 1 \<noteq> nr \<Longrightarrow> blk part s8 l = blk part ?s7 l"
    and sd8: "k + 1 = nr \<Longrightarrow> same_disk (dinode part sb s8 1) (inode_table s8 r)"
    and d8: "\<And>j. valid_ino j \<Longrightarrow> j \<noteq> 1 \<Longrightarrow> iblock sb j \<noteq> start + k div 32 \<Longrightarrow> dinode part sb s8 j = dinode part sb ?s7 j"
    and f8: "f_desc_table s8 = f_desc_table ?s7" "fprocs s8 = fprocs ?s7" "umem s8 = umem ?s7"
    by (rule unlink_entry_spec [OF rg7 cu_slot(1) [OF cu] e7]) (rule that)
  have run: "do_unlink s msg = Inr (0, s8)"
  proof -
    have "i_mode ?n = I_REGULAR" "i_cnt ?n = 1" using cu_inode(1) [OF cu] by (simp_all add: n2)
    moreover have "root_dir ?s1 = Inr r" using root(2) by (simp add: root_dir_def)
    moreover have "int p \<noteq> INVALID_INODE" using ino(1) by simp
    moreover have "get_super_block s2 dev = Inr sb" by (rule geom_sb [OF g2])
    ultimately show ?thesis
      using path(1-3) sf s2 s3 s4 s6 s7 s8 root(1) n(1) by (simp add: do_unlink_def Let_def)
  qed
  have cnt8: "i_cnt (inode_table s8 j) = i_cnt (inode_table s j)" for j
    using t7 [of j] q7 q0 qr by (cases "j = q") (auto simp: t8)
  have cch8: "cached s8 d m j = cached s d m j" for d m j
    using t7 [of j] q7 q0 qr by (cases "j = q") (auto simp: t8)
  have i1: "smap0 sb + unat (nr_smap_sects sb) \<le> iblock sb 1" "iblock sb 1 < start" using iblock_area [of 1 sb] area(1) by auto
  have b84: "blk part s8 b = blk part s4 b" if "b < smap0 sb + unat (nr_smap_sects sb)" for b
  proof -
    have "blk part s8 b = blk part ?s7 b" using i1 that by (intro b8) linarith+
    also have "\<dots> = blk part s4 b" using b6 [of b] iblock_area [OF vp, of sb] that by simp
    finally show ?thesis .
  qed
  have imap: "y \<in> map_set part s8 2 \<longleftrightarrow> y \<in> map_set part s 2 \<and> y \<noteq> p" if y: "y < 4096" for y
  proof -
    have "y \<in> map_set part s8 2 \<longleftrightarrow> y \<in> map_set part s3 2"
    proof (rule map_set_cong [of 2 1])
      fix b j :: nat assume b: "2 \<le> b" "b < 2 + 1" "j < SECTOR_SIZE"
      then have "blk part s8 b j = blk part s4 b j" using b84 [of b] im by simp
      then show "blk part s8 b j = blk part s3 b j" using only_map_blk [OF om4 _ b(3), of b] b im by simp
    qed (use y in simp)
    then show ?thesis using fr3 map2 [of 2] by (simp add: frees_def)
  qed
  have smap: "y \<in> map_set part s8 (smap0 sb) \<longleftrightarrow> y \<in> map_set part s (smap0 sb) \<and> \<not> (x \<le> y \<and> y < x + ns)"
    if y: "y < 4096 * unat (nr_smap_sects sb)" for y
  proof -
    have "y \<in> map_set part s8 (smap0 sb) \<longleftrightarrow> y \<in> map_set part s4 (smap0 sb)" by (rule map_set_cong [OF _ y]) (simp add: b84)
    also have "\<dots> \<longleftrightarrow> y \<in> map_set part s3 (smap0 sb) - {x..<x + ns}" using fr4 unfolding frees_def by blast
    finally show ?thesis unfolding Diff_iff sm3 atLeastLessThan_iff .
  qed
  have data: "blk part s8 b j = blk part s b j" if "start \<le> b" "b \<noteq> start + k div 32" "j < 512" for b j
    using b8 [of b] low [OF that(1,3)] that(2) i1(2) that(1) by auto
  have mode: "i_mode (dinode part sb s8 p) = 0"
  proof -
    have "dinode part sb s8 p = dinode part sb ?s7 p" using iblock_area [OF vp, of sb] area(1) by (intro d8 vp p1) linarith
    also have "\<dots> = dinode part sb s6 p" by (simp add: dinode_def)
    finally show ?thesis using sd6 by (simp add: same_disk_def)
  qed
  have frame: "blk part s8 b j = blk part s b j"
    if b: "b \<notin> {2, iblock sb p, iblock sb 1, start + k div 32} \<union> {smap0 sb..<smap0 sb + unat (nr_smap_sects sb)}" and j: "j < 512" for b j
  proof -
    have "blk part s8 b j = blk part ?s7 b j" using b8 [of b] b by simp
    also have "\<dots> = blk part s4 b j" using b6 [of b] b by simp
    also have "\<dots> = blk part s3 b j" using only_map_blk [OF om4 _ j, of b] b by auto
    also have "\<dots> = blk part s2 b j"
    proof (rule only_map_blk [OF om3 _ j])
      have "b \<noteq> 2" using b by simp
      then show "b < 2 \<or> 3 \<le> b" by linarith
    qed
    finally show ?thesis by (simp add: f2(1))
  qed
  have maps: "dinode part sb s4 j = dinode part sb s j" if "valid_ino j" for j
  proof (rule dinode_cong)
    fix i :: nat assume i: "i < 512"
    have b: "smap0 sb + unat (nr_smap_sects sb) \<le> iblock sb j" "3 \<le> iblock sb j" using iblock_area [OF that, of sb] im by auto
    have "blk part s4 (iblock sb j) i = blk part s3 (iblock sb j) i" using only_map_blk [OF om4 _ i] b(1) by simp
    also have "\<dots> = blk part s2 (iblock sb j) i" using only_map_blk [OF om3 _ i] b(2) by simp
    finally show "blk part s4 (iblock sb j) i = blk part s (iblock sb j) i" by (simp add: f2(1))
  qed
  have s7d: "dinode part sb ?s7 j = dinode part sb s j" if "valid_ino j" "j \<noteq> p" for j
    using d6 [OF that] maps [OF that(1)] by (simp add: dinode_def)
  have inodes: "dinode part sb s8 j = dinode part sb s j" if "valid_ino j" "j \<noteq> p" "j \<noteq> 1" for j
  proof -
    have "iblock sb j \<noteq> start + k div 32" using iblock_area [OF that(1), of sb] area(1) by linarith
    then show ?thesis using d8 [OF that(1,3)] s7d [OF that(1,2)] by simp
  qed
  have troot: "inode_table s8 r = (if k + 1 = nr then (inode_table s r)\<lparr>i_size := of_nat (16 * shrunk part s start nr k)\<rparr> else inode_table s r)"
    using t7 [of r] qr by (simp add: t8 shr)
  have droot: "if k + 1 = nr then same_disk (dinode part sb s8 1) (inode_table s8 r) else dinode part sb s8 1 = dinode part sb s 1"
  proof (cases "k + 1 = nr")
    case False
    have "dinode part sb s8 1 = dinode part sb ?s7 1" by (rule dinode_cong) (use b8 [of "iblock sb 1"] i1 False in simp)
    then show ?thesis using False s7d [of 1] p1 by simp
  qed (use sd8 in simp)
  have "icache_ok s8" by (rule icache_ok_sub [OF cu_cache [OF cu] cnt8 cch8 [THEN iffD1]])
  then show thesis
    by (rule that [OF run rg8 [unfolded shr] _ e8 o8 [unfolded de] imap smap data mode frame inodes troot droot cnt8 cch8])
      (simp_all only: f8 fr7 not_False_eq_True)
qed

end
