(* ===== verification/FsAllocProps.thy ===== *)
theory FsAllocProps
  imports FsCreate FsProps
begin

unbundle bit_operations_syntax

text \<open>
  The properties of allocation and of creating files, with witnesses on the small
  disk of \<open>FsProps\<close> after some bits of its two maps are set.
\<close>

section \<open>A sample disk with maps\<close>

text \<open>Inodes 0, 1 and 7 and position 0 of the sector map are taken.\<close>

definition sample_mapped :: "hd_state" where
  "sample_mapped = sample_drive\<lparr>sectors := (sectors sample_drive)(2 := (\<lambda>_. 0)(0 := 0x83), 3 := (\<lambda>_. 0)(0 := 1))\<rparr>"

definition sample_new :: fs_state where
  "sample_new = sample_fs\<lparr>drive := sample_mapped, umem := (\<lambda>_. 0)(0 := 0x63)\<rparr>"

lemma sample_new_simps [simp]:
  "inode_table sample_new = inode_table sample_fs" "f_desc_table sample_new = f_desc_table sample_fs"
  "fprocs sample_new = fprocs sample_fs" "super_blocks sample_new = super_blocks sample_fs"
  "root_inode sample_new = root_inode sample_fs" "umem sample_new = (\<lambda>_. 0)(0 := 0x63)" "drive sample_new = sample_mapped"
  by (simp_all add: sample_new_def)

lemma sample_new_blk: "3 < b \<Longrightarrow> blk sample_part sample_new b = blk sample_part sample_fs b"
  by (simp add: part_block_def sample_mapped_def sample_part_def)

lemma sample_new_geom: "geom sample_new ROOT_DEV sample_part sample_sb"
proof -
  have "fs_dev sample_new ROOT_DEV sample_part"
    by (simp add: fs_dev_def dev_ok_def sample_mapped_def sample_drive_def MAJOR_def MINOR_def DRV_OF_DEV_def part_of_def)
  then show ?thesis
    using sample_geom get_super_block_cong [of sample_new sample_fs ROOT_DEV] by (simp add: geom_def)
qed

lemma bit_at_low: "bit_at ((\<lambda>_. 0)(0 := b)) x \<longleftrightarrow> x < 8 \<and> bit b x"
  by (cases "x < 8") (auto simp: bit_at_def div_eq_0_iff)

lemma bits_83: "x < 8 \<Longrightarrow> bit (0x83 :: u8) x \<longleftrightarrow> x \<in> {0, 1, 7}"
  by (simp add: numeral_eq_Suc less_Suc_eq) (elim disjE; simp)

lemma sample_new_maps:
  "blk sample_part sample_new 2 = (\<lambda>_. 0)(0 := 0x83)" "blk sample_part sample_new 3 = (\<lambda>_. 0)(0 := 1)"
  "4 \<le> b \<Longrightarrow> b < 292 \<Longrightarrow> blk sample_part sample_new b = (\<lambda>_. 0)"
  by (simp_all add: part_block_def sample_mapped_def sample_part_def sample_drive_def)

lemma sample_new_imap: "y < 4096 \<Longrightarrow> y \<in> map_set sample_part sample_new 2 \<longleftrightarrow> y \<in> {0, 1, 7}"
  unfolding map_set_iff using bits_83 [of y]
  by (simp add: sample_new_maps(1) [simplified] bit_at_low) linarith

lemma sample_new_smap: "y < 4096 * 33 \<Longrightarrow> y \<in> map_set sample_part sample_new 3 \<longleftrightarrow> y = 0"
proof (cases "y < 4096")
  case True
  have "bit (1 :: u8) y \<longleftrightarrow> y = 0" by (simp add: bit_1_iff)
  with True show ?thesis unfolding map_set_iff by (auto simp: sample_new_maps(2) [simplified] bit_at_low)
next
  case False
  moreover assume "y < 4096 * 33"
  ultimately have q: "4 \<le> 3 + y div 4096" "3 + y div 4096 < 292" and "y \<noteq> 0" by linarith+
  then show ?thesis unfolding map_set_iff sample_new_maps(3) [OF q] by (simp add: bit_at_def)
qed

lemma sample_new_dir:
  "dir_ino sample_part sample_new 292 k = dir_ino sample_part sample_fs 292 k"
  "dir_name sample_part sample_new 292 k = dir_name sample_part sample_fs 292 k"
  by (rule dir_eqI; simp add: sample_new_blk [simplified])+

lemma sample_can_create: "can_create sample_new 0 ROOT_DEV sample_part sample_sb 292 2 2 2 1"
proof -
  note de = sample_new_dir
  have slot: "free_slot sample_part sample_new 292 2 = 2"
    using sample_entries by (simp add: free_slot_def de numeral_2_eq_2)
  have good: "root_good sample_new 0 ROOT_DEV sample_part sample_sb 292 2"
    by (rule root_good_cong [OF sample_root_good sample_new_geom]) simp_all
  have ic: "icache_ok sample_new" using sample_icache by (simp add: icache_ok_def)
  have cch: "\<not> cached sample_new ROOT_DEV (int 2) i" for i
    by (auto simp: sample_fs_def sample_root_def sample_file_def zero_inode_def)
  have im: "2 \<notin> map_set sample_part sample_new 2" "\<forall>y < 2. y \<in> map_set sample_part sample_new 2"
    using sample_new_imap by auto
  have sm: "1 \<notin> map_set sample_part sample_new 3" "\<forall>y < 1. y \<in> map_set sample_part sample_new 3"
    "clear_run (\<lambda>y. y \<in> map_set sample_part sample_new 3) 1 512"
    using sample_new_smap by (auto simp: clear_run_def)
  have "i_cnt (inode_table sample_new 2) = 0" by (simp add: zero_inode_def)
  then have room: "\<exists>i < NR_INODE. i_cnt (inode_table sample_new i) = 0" by (intro exI [of _ 2]) simp
  have b0: "smap0 sample_sb = 3" by simp
  have "unat (nr_imap_sects sample_sb) = 1" by simp
  then have im0: "nr_imap_sects sample_sb \<noteq> 0" by (metis unat_0 zero_neq_one)
  show ?thesis
    unfolding can_create_def b0
    by (intro conjI good ic im im0 sm room allI cch)
      (use slot sample_reach sample_entries(3) sample_cnt [of 0] in \<open>simp_all add: de\<close>)
qed

section \<open>The sector map\<close>

text \<open>
  C21: \<open>alloc_smap_bit\<close> against the set of the positions in use. It looks only at
  the first free position: when the run behind it is free, the call returns the
  sector of that position and the set grows by exactly that run, no block outside
  the map changes; when it is not, the call stops in the assertion of
  \<open>fs/open.c\<close>:319, however much room there is further on.
\<close>

theorem alloc_sectors_first_fit:
  assumes g: "geom s dev part sb" and nr: "0 < nr"
    and p: "p \<notin> map_set part s (smap0 sb)" "\<forall>x < p. x \<in> map_set part s (smap0 sb)" "p + nr \<le> 4096 * unat (nr_smap_sects sb)"
    and sect: "p + unat (n_1st_sect sb) < 2 ^ 31" "1 < p + unat (n_1st_sect sb)"
  shows "if \<forall>x. p \<le> x \<and> x < p + nr \<longrightarrow> x \<notin> map_set part s (smap0 sb)
    then \<exists>s'. alloc_smap_bit s dev nr = Inr (int (p + unat (n_1st_sect sb)) - 1, s') \<and>
      (\<forall>x. x \<in> map_set part s' (smap0 sb) \<longleftrightarrow> x \<in> map_set part s (smap0 sb) \<or> p \<le> x \<and> x < p + nr) \<and>
      (\<forall>b j. b < smap0 sb \<or> smap0 sb + unat (nr_smap_sects sb) \<le> b \<longrightarrow> j < SECTOR_SIZE \<longrightarrow> blk part s' b j = blk part s b j)
    else alloc_smap_bit s dev nr = Inl (AFO 319)"
  using alloc_smap_bit_eq [OF assms] by (auto simp: allocates_def only_map_def clear_run_def split: if_splits)

theorem alloc_sectors_first_fit_witness:
  "\<exists>s'. alloc_smap_bit sample_new ROOT_DEV 512 = Inr (292, s') \<and> 100 \<in> map_set sample_part s' 3"
proof -
  have sm: "1 \<notin> map_set sample_part sample_new (smap0 sample_sb)" "\<forall>x < 1. x \<in> map_set sample_part sample_new (smap0 sample_sb)"
    "\<forall>x. 1 \<le> x \<and> x < 1 + 512 \<longrightarrow> x \<notin> map_set sample_part sample_new (smap0 sample_sb)"
    using cc_sect [OF sample_can_create] by (auto simp: clear_run_def)
  show ?thesis
    using alloc_sectors_first_fit [OF sample_new_geom _ sm(1,2), of 512] unfolding if_P [OF sm(3)] by (auto simp: numeral_3_eq_3)
qed

text \<open>
  Taking sectors and giving them back is the identity on the sector map:
  \<open>free_sectors\<close> on a file of the run that \<open>alloc_smap_bit\<close> has returned, of at least
  eight sectors, restores the set of the positions in use.
\<close>

theorem free_undoes_alloc:
  assumes g: "geom s dev part sb" and nr: "8 \<le> nr"
    and p: "p \<notin> map_set part s (smap0 sb)" "\<forall>x < p. x \<in> map_set part s (smap0 sb)" "p + nr \<le> 4096 * unat (nr_smap_sects sb)"
    and free: "\<forall>x. p \<le> x \<and> x < p + nr \<longrightarrow> x \<notin> map_set part s (smap0 sb)"
    and sect: "p + unat (n_1st_sect sb) < 2 ^ 31" "1 < p + unat (n_1st_sect sb)" "p + nr < 2 ^ 31"
  shows "\<exists>sn s1. alloc_smap_bit s dev nr = Inr (sn, s1) \<and>
    (\<forall>n. i_dev n = dev \<longrightarrow> i_start_sect n = word_of_int sn \<longrightarrow> i_nr_sects n = word_of_nat nr \<longrightarrow>
      (\<exists>s2. free_sectors s1 sb n = Inr s2 \<and> map_set part s2 (smap0 sb) = map_set part s (smap0 sb)))"
proof -
  have nr0: "0 < nr" using nr by simp
  obtain s1 where s1: "alloc_smap_bit s dev nr = Inr (int (p + unat (n_1st_sect sb)) - 1, s1)"
    and a: "allocates part s s1 (smap0 sb) (smap0 sb + unat (nr_smap_sects sb)) p nr"
    using alloc_smap_bit_eq [OF g nr0 p sect(1,2)] free by (auto simp: clear_run_def split: if_splits)
  have om: "only_map part s s1 (smap0 sb) (smap0 sb + unat (nr_smap_sects sb))" using a by (simp add: allocates_def)
  have g1: "geom s1 dev part sb" by (rule same_fs_geom [OF only_map_same [OF om] g])
  let ?st = "p + unat (n_1st_sect sb) - 1"
  have x0: "0 < p + unat (n_1st_sect sb)" using sect(2) by linarith
  have w: "(word_of_int (int (p + unat (n_1st_sect sb)) - 1) :: u32) = word_of_nat ?st"
    unfolding int_pred [OF x0, symmetric] by (rule of_int_of_nat_eq)
  have am: "x \<in> map_set part s1 (smap0 sb) \<longleftrightarrow> x \<in> map_set part s (smap0 sb) \<or> p \<le> x \<and> x < p + nr" for x
    using a unfolding allocates_def by blast
  have set: "{p..<p + nr} \<subseteq> map_set part s1 (smap0 sb)" by (rule subsetI) (simp only: am atLeastLessThan_iff simp_thms)
  have "\<exists>s2. free_sectors s1 sb n = Inr s2 \<and> map_set part s2 (smap0 sb) = map_set part s (smap0 sb)"
    if n: "i_dev n = dev" "i_start_sect n = word_of_int (int (p + unat (n_1st_sect sb)) - 1)" "i_nr_sects n = word_of_nat nr" for n
  proof -
    have n2: "i_start_sect n = word_of_nat ?st" unfolding n(2) by (rule w)
    have st: "p + unat (n_1st_sect sb) = ?st + 1" using sect(2) by simp
    obtain s2 where s2: "free_sectors s1 sb n = Inr s2"
      "map_set part s2 (smap0 sb) = map_set part s1 (smap0 sb) - {p..<p + nr}"
      using free_sectors_eq [OF g1 n(1) n2 n(3) st p(3) nr sect(3) set] unfolding frees_def by blast
    have "map_set part s1 (smap0 sb) - {p..<p + nr} = map_set part s (smap0 sb)"
      unfolding set_eq_iff Diff_iff am atLeastLessThan_iff using free by blast
    with s2 show ?thesis by simp
  qed
  with s1 show ?thesis by blast
qed

theorem free_undoes_alloc_witness:
  "\<exists>sn s1. alloc_smap_bit sample_new ROOT_DEV 512 = Inr (sn, s1) \<and>
     (\<exists>s2. free_sectors s1 sample_sb (zero_inode\<lparr>i_dev := ROOT_DEV, i_start_sect := word_of_int sn, i_nr_sects := word_of_nat 512\<rparr>) = Inr s2 \<and>
       map_set sample_part s2 (smap0 sample_sb) = map_set sample_part sample_new (smap0 sample_sb))"
proof -
  have sm: "1 \<notin> map_set sample_part sample_new (smap0 sample_sb)" "\<forall>x < 1. x \<in> map_set sample_part sample_new (smap0 sample_sb)"
    "\<forall>x. 1 \<le> x \<and> x < 1 + 512 \<longrightarrow> x \<notin> map_set sample_part sample_new (smap0 sample_sb)"
    using cc_sect [OF sample_can_create] by (auto simp: clear_run_def)
  have "\<exists>sn s1. alloc_smap_bit sample_new ROOT_DEV 512 = Inr (sn, s1) \<and>
    (\<forall>n. i_dev n = ROOT_DEV \<longrightarrow> i_start_sect n = word_of_int sn \<longrightarrow> i_nr_sects n = word_of_nat 512 \<longrightarrow>
      (\<exists>s2. free_sectors s1 sample_sb n = Inr s2 \<and> map_set sample_part s2 (smap0 sample_sb) = map_set sample_part sample_new (smap0 sample_sb)))"
    by (rule free_undoes_alloc [OF sample_new_geom _ sm(1,2) _ sm(3)]) simp_all
  then show ?thesis by force
qed

section \<open>Creating a file\<close>

text \<open>
  C19: \<open>create_file\<close> on a disk with room makes an empty regular file of
  \<open>NR_DEFAULT_FILE_SECTS\<close> sectors: its inode number and its sectors belonged to
  nobody and are now marked in the maps, with nothing else marked or cleared; the
  inode is on disk and in the cache, the name is in the root directory and found
  there, and no other entry changes.  Nothing else changes: of the disk only the maps,
  the sectors of the two inodes and one sector of the directory are written, every
  other inode of the array is as it was, that of the root but for 16 bytes of size when
  the directory grows, the other inodes of the cache, the descriptors, the processes and
  the memory are untouched.
\<close>

theorem create_makes_file:
  assumes cc: "can_create s r dev part sb start nr k p x" and path: "strip_path path = Some fn" "fn \<noteq> []" "length fn \<le> 11"
    and fresh: "\<forall>k' < k. dir_name part s start k' \<noteq> pad_name fn"
  shows "\<exists>q s' b. create_file s path = Inr (Some q, s') \<and> inode_table s' q = new_file dev sb p x \<and>
    same_disk (dinode part sb s' p) (new_file dev sb p x) \<and> search_file s' path = Inr (int p, s'\<lparr>fsbuf := b\<rparr>) \<and>
    (\<forall>k'. k' \<noteq> k \<longrightarrow> dir_ino part s' start k' = dir_ino part s start k' \<and> dir_name part s' start k' = dir_name part s start k') \<and>
    p \<notin> map_set part s 2 \<and> (\<forall>y < 4096. y \<in> map_set part s' 2 \<longleftrightarrow> y \<in> map_set part s 2 \<or> y = p) \<and>
    (\<forall>y. x \<le> y \<and> y < x + NR_DEFAULT_FILE_SECTS \<longrightarrow> y \<notin> map_set part s (smap0 sb)) \<and>
    (\<forall>y < 4096 * unat (nr_smap_sects sb). y \<in> map_set part s' (smap0 sb) \<longleftrightarrow>
       y \<in> map_set part s (smap0 sb) \<or> x \<le> y \<and> y < x + NR_DEFAULT_FILE_SECTS) \<and>
    (\<forall>b j. b \<notin> {2, iblock sb p, iblock sb 1, start + k div 32} \<union> {smap0 sb..<smap0 sb + unat (nr_smap_sects sb)} \<longrightarrow>
       j < SECTOR_SIZE \<longrightarrow> blk part s' b j = blk part s b j) \<and>
    (\<forall>j. valid_ino j \<longrightarrow> j \<noteq> p \<longrightarrow> j \<noteq> 1 \<longrightarrow> dinode part sb s' j = dinode part sb s j) \<and>
    inode_table s' r = (if k < nr then inode_table s r else (inode_table s r)\<lparr>i_size := i_size (inode_table s r) + 16\<rparr>) \<and>
    same_disk (dinode part sb s' 1) (inode_table s' r) \<and>
    (\<forall>j. j \<noteq> q \<longrightarrow> j \<noteq> r \<longrightarrow> inode_table s' j = inode_table s j) \<and> i_cnt (inode_table s q) = 0 \<and>
    f_desc_table s' = f_desc_table s \<and> fprocs s' = fprocs s \<and> umem s' = umem s"
proof -
  obtain q s' where run: "create_file s path = Inr (Some q, s')" and q0: "i_cnt (inode_table s q) = 0" and t: "inode_table s' q = new_file dev sb p x"
    and oth: "\<And>j. j \<noteq> q \<Longrightarrow> j \<noteq> r \<Longrightarrow> inode_table s' j = inode_table s j"
    and good: "root_good s' r dev part sb start (if k < nr then nr else nr + 1)"
    and d: "same_disk (dinode part sb s' p) (new_file dev sb p x)"
    and new: "dir_ino part s' start k = int p" "dir_name part s' start k = pad_name fn"
    and old: "\<And>k'. k' \<noteq> k \<Longrightarrow> dir_ino part s' start k' = dir_ino part s start k' \<and> dir_name part s' start k' = dir_name part s start k'"
    and im: "\<And>y. y < 4096 \<Longrightarrow> y \<in> map_set part s' 2 \<longleftrightarrow> y \<in> map_set part s 2 \<or> y = p"
    and sm: "\<And>y. y < 4096 * unat (nr_smap_sects sb) \<Longrightarrow> y \<in> map_set part s' (smap0 sb) \<longleftrightarrow>
      y \<in> map_set part s (smap0 sb) \<or> x \<le> y \<and> y < x + NR_DEFAULT_FILE_SECTS"
    and fr: "\<And>b j. b \<notin> {2, iblock sb p, iblock sb 1, start + k div 32} \<union> {smap0 sb..<smap0 sb + unat (nr_smap_sects sb)} \<Longrightarrow>
      j < SECTOR_SIZE \<Longrightarrow> blk part s' b j = blk part s b j"
    and di: "\<And>j. valid_ino j \<Longrightarrow> j \<noteq> p \<Longrightarrow> j \<noteq> 1 \<Longrightarrow> dinode part sb s' j = dinode part sb s j"
    and rt: "inode_table s' r = (if k < nr then inode_table s r else (inode_table s r)\<lparr>i_size := i_size (inode_table s r) + 16\<rparr>)"
      "same_disk (dinode part sb s' 1) (inode_table s' r)"
    and same: "f_desc_table s' = f_desc_table s" "fprocs s' = fprocs s" "umem s' = umem s"
    by (rule create_file_spec [OF cc path(1,3)]) (rule that)
  have k: "k \<le> nr" using cc_slot(1) [OF cc] by (auto simp: free_slot_def find_Some_iff split: option.splits)
  have clear: "\<forall>y. x \<le> y \<and> y < x + NR_DEFAULT_FILE_SECTS \<longrightarrow> y \<notin> map_set part s (smap0 sb)"
    using cc_sect(3) [OF cc] unfolding clear_run_def by simp
  have "lookup part s' start (if k < nr then nr else nr + 1) fn = int p"
    by (rule lookup_new [OF k refl new _ fresh]) (use old in blast)
  moreover have "root_ok s' r dev part start (if k < nr then nr else nr + 1)" using good by (simp add: root_good_def)
  ultimately obtain b where sf: "search_file s' path = Inr (int p, s'\<lparr>fsbuf := b\<rparr>)" using search_file_eq [OF _ path(1,2)] by metis
  have all: "\<forall>k'. k' \<noteq> k \<longrightarrow> dir_ino part s' start k' = dir_ino part s start k' \<and> dir_name part s' start k' = dir_name part s start k'"
    "\<forall>y < 4096. y \<in> map_set part s' 2 \<longleftrightarrow> y \<in> map_set part s 2 \<or> y = p"
    "\<forall>y < 4096 * unat (nr_smap_sects sb). y \<in> map_set part s' (smap0 sb) \<longleftrightarrow>
       y \<in> map_set part s (smap0 sb) \<or> x \<le> y \<and> y < x + NR_DEFAULT_FILE_SECTS"
    "\<forall>b j. b \<notin> {2, iblock sb p, iblock sb 1, start + k div 32} \<union> {smap0 sb..<smap0 sb + unat (nr_smap_sects sb)} \<longrightarrow>
       j < SECTOR_SIZE \<longrightarrow> blk part s' b j = blk part s b j"
    "\<forall>j. valid_ino j \<longrightarrow> j \<noteq> p \<longrightarrow> j \<noteq> 1 \<longrightarrow> dinode part sb s' j = dinode part sb s j"
    "\<forall>j. j \<noteq> q \<longrightarrow> j \<noteq> r \<longrightarrow> inode_table s' j = inode_table s j"
    using old im sm fr di oth by blast+
  show ?thesis
    by (rule exI [of _ q], rule exI [of _ s'], rule exI [of _ b], intro conjI run t d sf all clear rt same q0 cc_ino(3) [OF cc])
qed

theorem create_makes_file_witness:
  "\<exists>q s' b. create_file sample_new [0x63] = Inr (Some q, s') \<and> i_start_sect (inode_table s' q) = 292 \<and>
     search_file s' [0x63] = Inr (2, s'\<lparr>fsbuf := b\<rparr>) \<and> 512 \<in> map_set sample_part s' 3 \<and> 513 \<notin> map_set sample_part s' 3"
proof -
  have "\<forall>k' < (2::nat). dir_name sample_part sample_new 292 k' \<noteq> pad_name [0x63]"
    using sample_entries(4,5) sample_new_dir by (auto simp: less_2_cases_iff)
  from create_makes_file [OF sample_can_create sample_strip(2) _ _ this]
  obtain q s' b where r: "create_file sample_new [0x63] = Inr (Some q, s')" "inode_table s' q = new_file ROOT_DEV sample_sb 2 1"
    "search_file s' [0x63] = Inr (int 2, s'\<lparr>fsbuf := b\<rparr>)"
    "\<forall>y < 4096 * unat (nr_smap_sects sample_sb). y \<in> map_set sample_part s' (smap0 sample_sb) \<longleftrightarrow>
       y \<in> map_set sample_part sample_new (smap0 sample_sb) \<or> 1 \<le> y \<and> y < 1 + NR_DEFAULT_FILE_SECTS"
    by auto
  have "y \<in> map_set sample_part s' 3 \<longleftrightarrow> y = 0 \<or> 1 \<le> y \<and> y < 513" if "y < 600" for y
    using r(4) [rule_format, of y] sample_new_smap [of y] that by simp
  from this [of 512] this [of 513] show ?thesis using r by auto
qed

text \<open>
  C7: \<open>open\<close> with \<open>O_CREAT\<close> and a name the directory does not have gives the caller the
  first free file number and the first free descriptor, at position 0, on the
  inode of a new file; it keeps the reference counts and the inode cache right and
  touches no other file slot.
\<close>

theorem open_creates:
  assumes ok: "files_ok all_slots h s" and cc: "can_create s r dev part sb start nr k p x"
    and path: "get_pathname s (nat (source msg)) (m3p1 msg) (m3i2 msg) (AFO 51) = Inr path"
      "strip_path path = Some fn" "fn \<noteq> []" "length fn \<le> 11"
    and n: "lookup part s start nr fn = 0" and flags: "m3i1 msg AND O_CREAT \<noteq> 0"
    and fd: "pc < NPROC" "fd < NR_FILES" "slot s (pc, fd) = None" "\<forall>i < fd. slot s (pc, i) \<noteq> None"
    and d: "d < NR_FILE_DESC" "fd_inode (f_desc_table s d) = None" "\<forall>i < d. fd_inode (f_desc_table s i) \<noteq> None"
  shows "\<exists>q s'. do_open s pc msg = Inr (int fd, s') \<and> files_ok all_slots h s' \<and> icache_ok s' \<and>
    slot s' (pc, fd) = Some d \<and> (\<forall>y. y \<noteq> (pc, fd) \<longrightarrow> slot s' y = slot s y) \<and>
    f_desc_table s' d = \<lparr>fd_mode = m3i1 msg, fd_pos = 0, fd_cnt = 1, fd_inode = Some q\<rparr> \<and>
    inode_table s' q = new_file dev sb p x"
proof -
  have rk: "root_ok s r dev part start nr" using cc_good [OF cc] by (simp add: root_good_def)
  obtain b where sf: "search_file s path = Inr (0, s\<lparr>fsbuf := b\<rparr>)" using search_file_eq [OF rk path(2,3)] n by auto
  let ?s1 = "s\<lparr>fsbuf := b\<rparr>"
  obtain q s2 where s2: "create_file ?s1 path = Inr (Some q, s2)" and q: "q < NR_INODE" "i_cnt (inode_table ?s1 q) = 0"
    and t2: "inode_table s2 q = new_file dev sb p x"
    and oth: "\<And>j. j \<noteq> q \<Longrightarrow> i_cnt (inode_table s2 j) = i_cnt (inode_table ?s1 j) \<and> i_dev (inode_table s2 j) = i_dev (inode_table ?s1 j) \<and>
      i_num (inode_table s2 j) = i_num (inode_table ?s1 j)"
    and ic2: "icache_ok s2" and same: "f_desc_table s2 = f_desc_table ?s1" "fprocs s2 = fprocs ?s1"
    by (rule create_file_spec [OF can_create_buf [OF cc] path(2,4)]) (rule that)
  have ok2: "files_ok all_slots (h(q := h q + 1)) s2"
  proof (rule files_ok_hold [OF ok])
    show "i_cnt (inode_table s2 j) = i_cnt (inode_table s j) + (if j = q then 1 else 0)" for j
      using oth [of j] q(2) t2 by (cases "j = q") simp_all
  qed (use same fo_pos [OF ok, of q] in simp_all)
  let ?s3 = "upd_fd d (\<lambda>_. \<lparr>fd_mode = m3i1 msg, fd_pos = 0, fd_cnt = 1, fd_inode = Some q\<rparr>) (set_filp pc fd (Some d) s2)"
  have ok3: "files_ok all_slots h ?s3"
  proof (rule files_ok_attach [OF ok2 fo_pos [OF ok]])
    show "(pc, fd) \<in> all_slots" using fd by (simp add: all_slots_def)
    show "slot s2 (pc, fd) = None" using fd(3) by (simp add: slot_def same)
  qed (use d q same in auto)
  have att: "attach s2 pc fd d q (m3i1 msg) = Inr (int fd, ?s3)" using t2 by (simp add: attach_def Let_def)
  have "find (\<lambda>i. filp (fprocs s pc) i = None) [0..<NR_FILES] = Some fd"
    using fd by (auto simp: find_upt slot_def)
  moreover have "find (\<lambda>i. fd_inode (f_desc_table s i) = None) [0..<NR_FILE_DESC] = Some d"
    using d by (auto simp: find_upt)
  ultimately have "do_open s pc msg = Inr (int fd, ?s3)"
    using path(1) sf flags s2 att by (simp add: do_open_def Let_def del: upt_Suc)
  moreover have "slot ?s3 y = (if y = (pc, fd) then Some d else slot s y)" for y
    by (cases y) (auto simp: slot_def upd_proc_apply same)
  moreover have "icache_ok ?s3" using ic2 by (simp add: icache_ok_def)
  ultimately show ?thesis using ok3 t2 by (intro exI [of _ q] exI [of _ ?s3]) simp
qed

theorem open_creates_witness:
  "\<exists>q s'. do_open sample_new INIT (sample_msg OPEN (O_CREAT OR O_RDWR) 1) = Inr (1, s') \<and>
     slot s' (INIT, 1) = Some 1 \<and> i_num (inode_table s' q) = 2"
proof -
  let ?m = "sample_msg OPEN (O_CREAT OR O_RDWR) 1"
  have flat: "flat_tasks (fprocs sample_new)"
    using inv_flat [OF good_inv [OF sample_good]]
    by (auto simp: flat_tasks_def sample_fs_def upd_proc_apply ldt_seg_linear_def)
  have lin: "lin (fprocs sample_new) INIT 0 = 0" using flat by (simp add: flat_tasks_def lin_def)
  have path: "get_pathname sample_new (nat (source ?m)) (m3p1 ?m) (m3i2 ?m) (AFO 51) = Inr [0x63]"
    using lin va2la_lin [OF flat] by (simp add: get_pathname_def sample_msg_def upt_rec)
  have ok: "files_ok all_slots (\<lambda>n. if n = 0 then 1 else 0) sample_new"
    using sample_files_ok by (simp add: files_ok_cong [of sample_new sample_fs])
  have blank: "replicate 12 0 \<noteq> pad_name [0x63]" by (auto simp: pad_name_def dest: arg_cong [where f = "\<lambda>xs. xs ! 0"])
  have e: "dir_name sample_part sample_new 292 0 \<noteq> pad_name [0x63]" "dir_name sample_part sample_new 292 1 \<noteq> pad_name [0x63]"
    "dir_name sample_part sample_new 292 2 \<noteq> pad_name [0x63]"
    unfolding sample_new_dir sample_entries(3) by (fact sample_entries(4) sample_entries(5) blank)+
  then have look: "lookup sample_part sample_new 292 2 [0x63] = 0"
    by (simp add: lookup_def dir_blocks_def upt_rec numeral_2_eq_2)
  have "\<exists>q s'. do_open sample_new INIT ?m = Inr (int 1, s') \<and>
    files_ok all_slots (\<lambda>n. if n = 0 then 1 else 0) s' \<and> icache_ok s' \<and>
    slot s' (INIT, 1) = Some 1 \<and> (\<forall>y. y \<noteq> (INIT, 1) \<longrightarrow> slot s' y = slot sample_new y) \<and>
    f_desc_table s' 1 = \<lparr>fd_mode = m3i1 ?m, fd_pos = 0, fd_cnt = 1, fd_inode = Some q\<rparr> \<and>
    inode_table s' q = new_file ROOT_DEV sample_sb 2 1"
    by (rule open_creates [OF ok sample_can_create path sample_strip(2) _ _ look])
      (auto simp: sample_msg_def slot_def sample_fs_def upd_proc_apply zero_fd_def)
  then show ?thesis by (metis new_file_simps(7) of_nat_1 of_nat_numeral)
qed

end
