(* ===== verification/FsUnlinkProps.thy ===== *)
theory FsUnlinkProps
  imports FsUnlink FsAllocProps
begin

unbundle bit_operations_syntax

text \<open>
  The properties of \<open>do_unlink\<close>, its composition with \<open>create_file\<close>, and the name
  that the removal of the last directory entry loses.
\<close>

section \<open>A sample disk with a closed file\<close>

text \<open>Inode 7 of the entry 1 has the eight sectors from position 8 on and is not in the cache.\<close>

definition sample_closed :: fs_state where
  "sample_closed = sample_fs\<lparr>
     drive := sample_drive\<lparr>sectors := (sectors sample_drive)(2 := (\<lambda>_. 0)(0 := 0x83), 3 := (\<lambda>_. 0)(1 := 0xFF),
       36 := store_inode (zero_inode\<lparr>i_mode := I_REGULAR, i_start_sect := 299, i_nr_sects := 8\<rparr>) 192 (\<lambda>_. 0))\<rparr>,
     inode_table := (\<lambda>_. zero_inode)(0 := sample_root), umem := (\<lambda>_. 0)(0 := slash, 1 := 0x62)\<rparr>"

lemma sample_closed_simps [simp]:
  "inode_table sample_closed = (\<lambda>_. zero_inode)(0 := sample_root)" "f_desc_table sample_closed = f_desc_table sample_fs"
  "fprocs sample_closed = fprocs sample_fs" "super_blocks sample_closed = super_blocks sample_fs"
  "root_inode sample_closed = root_inode sample_fs" "umem sample_closed = (\<lambda>_. 0)(0 := slash, 1 := 0x62)"
  by (simp_all add: sample_closed_def)

lemma sample_closed_blk:
  "blk sample_part sample_closed 2 = (\<lambda>_. 0)(0 := 0x83)" "blk sample_part sample_closed 3 = (\<lambda>_. 0)(1 := 0xFF)"
  "blk sample_part sample_closed 36 = store_inode (zero_inode\<lparr>i_mode := I_REGULAR, i_start_sect := 299, i_nr_sects := 8\<rparr>) 192 (\<lambda>_. 0)"
  "36 < b \<Longrightarrow> blk sample_part sample_closed b = blk sample_part sample_fs b"
  by (simp_all add: part_block_def sample_closed_def sample_part_def)

lemma sample_closed_geom: "geom sample_closed ROOT_DEV sample_part sample_sb"
proof -
  have "fs_dev sample_closed ROOT_DEV sample_part"
    by (simp add: fs_dev_def dev_ok_def sample_closed_def sample_drive_def MAJOR_def MINOR_def DRV_OF_DEV_def part_of_def)
  then show ?thesis
    using sample_geom get_super_block_cong [of sample_closed sample_fs ROOT_DEV] by (simp add: geom_def)
qed

lemma sample_closed_dir:
  "dir_ino sample_part sample_closed 292 k = dir_ino sample_part sample_fs 292 k"
  "dir_name sample_part sample_closed 292 k = dir_name sample_part sample_fs 292 k"
  by (rule dir_eqI; simp add: sample_closed_blk(4))+

lemma sample_closed_inode: "dinode sample_part sample_sb sample_closed 7 =
  zero_inode\<lparr>i_mode := I_REGULAR, i_size := 0, i_start_sect := 299, i_nr_sects := 8\<rparr>"
proof -
  have "blk sample_part sample_closed (iblock sample_sb 7) =
    store_inode (zero_inode\<lparr>i_mode := I_REGULAR, i_start_sect := 299, i_nr_sects := 8\<rparr>) (ioffset 7) (\<lambda>_. 0)"
    unfolding sample_iblock by (simp add: sample_closed_blk(3) ioffset_def)
  then show ?thesis unfolding dinode_def by (simp add: load_store_inode) (simp add: zero_inode_def)
qed

lemma sample_can_unlink: "can_unlink sample_closed 0 ROOT_DEV sample_part sample_sb 292 2 1 7 8 8"
proof -
  have good: "root_good sample_closed 0 ROOT_DEV sample_part sample_sb 292 2"
    by (rule root_good_cong [OF sample_root_good sample_closed_geom]) simp_all
  have ic: "icache_ok sample_closed" by (auto simp: icache_ok_def sample_root_def zero_inode_def)
  have cch: "\<not> cached sample_closed ROOT_DEV (int 7) i" for i by (auto simp: sample_root_def zero_inode_def)
  have im: "7 \<in> map_set sample_part sample_closed 2"
    unfolding map_set_iff using bits_83 [of 7] by (simp add: sample_closed_blk(1) bit_at_low)
  have sm: "{8..<8 + 8} \<subseteq> map_set sample_part sample_closed 3"
  proof
    fix y :: nat assume y: "y \<in> {8..<8 + 8}"
    then have "y div 8 = 1" by auto
    then show "y \<in> map_set sample_part sample_closed 3"
      using y bit_FF [of "y mod 8"] by (simp add: map_set_iff sample_closed_blk(2) bit_at_def)
  qed
  have room: "\<exists>i < NR_INODE. i_cnt (inode_table sample_closed i) = 0" by (intro exI [of _ 2]) (simp add: zero_inode_def)
  have b0: "smap0 sample_sb = 3" by simp
  have "unat (nr_imap_sects sample_sb) = 1" by simp
  then have im0: "nr_imap_sects sample_sb \<noteq> 0" by (metis unat_0 zero_neq_one)
  show ?thesis
    unfolding can_unlink_def b0
    by (intro conjI good ic im im0 sm room allI cch)
      (use sample_entries in \<open>simp_all add: sample_closed_dir sample_closed_inode sample_root_def\<close>)
qed

lemma sample_va2la: "va2la (fprocs sample_fs) INIT a = Inr a"
proof -
  have flat: "flat_tasks (fprocs sample_fs)"
    using inv_flat [OF good_inv [OF sample_good]]
    by (auto simp: flat_tasks_def sample_fs_def upd_proc_apply ldt_seg_linear_def)
  then have "lin (fprocs sample_fs) INIT a = a" by (simp add: flat_tasks_def lin_def)
  then show ?thesis using va2la_lin [OF flat] by simp
qed

section \<open>A file is removed\<close>

lemma do_unlink_all:
  assumes cu: "can_unlink s r dev part sb start nr k p x ns"
    and path: "get_pathname s (nat (source msg)) (m3p1 msg) (m3i2 msg) (AFL 19) = Inr path" "path \<noteq> [slash]"
      "strip_path path = Some fn" "fn \<noteq> []" "lookup part s start nr fn = int p"
  shows "\<exists>s'. do_unlink s msg = Inr (0, s') \<and> icache_ok s' \<and> dir_ino part s' start k = 0 \<and> dir_name part s' start k = replicate 12 0 \<and>
    (\<forall>k'. k' \<noteq> k \<longrightarrow> dir_ino part s' start k' = dir_ino part s start k' \<and> dir_name part s' start k' = dir_name part s start k') \<and>
    (\<forall>y < 4096. y \<in> map_set part s' 2 \<longleftrightarrow> y \<in> map_set part s 2 \<and> y \<noteq> p) \<and>
    (\<forall>y < 4096 * unat (nr_smap_sects sb). y \<in> map_set part s' (smap0 sb) \<longleftrightarrow>
       y \<in> map_set part s (smap0 sb) \<and> \<not> (x \<le> y \<and> y < x + ns)) \<and>
    (\<forall>b j. start \<le> b \<longrightarrow> b \<noteq> start + k div 32 \<longrightarrow> j < SECTOR_SIZE \<longrightarrow> blk part s' b j = blk part s b j) \<and>
    i_mode (dinode part sb s' p) = 0 \<and> (\<forall>j. i_cnt (inode_table s' j) = i_cnt (inode_table s j))"
proof -
  obtain s' where "do_unlink s msg = Inr (0, s')" "icache_ok s'" "dir_ino part s' start k = 0" "dir_name part s' start k = replicate 12 0"
    and "\<And>k'. k' \<noteq> k \<Longrightarrow> dir_ino part s' start k' = dir_ino part s start k' \<and> dir_name part s' start k' = dir_name part s start k'"
    and "\<And>y. y < 4096 \<Longrightarrow> y \<in> map_set part s' 2 \<longleftrightarrow> y \<in> map_set part s 2 \<and> y \<noteq> p"
    and "\<And>y. y < 4096 * unat (nr_smap_sects sb) \<Longrightarrow> y \<in> map_set part s' (smap0 sb) \<longleftrightarrow>
      y \<in> map_set part s (smap0 sb) \<and> \<not> (x \<le> y \<and> y < x + ns)"
    and "\<And>b j. start \<le> b \<Longrightarrow> b \<noteq> start + k div 32 \<Longrightarrow> j < SECTOR_SIZE \<Longrightarrow> blk part s' b j = blk part s b j"
    and "i_mode (dinode part sb s' p) = 0" "\<And>j. i_cnt (inode_table s' j) = i_cnt (inode_table s j)"
    by (rule do_unlink_spec [OF cu path]) (rule that)
  then show ?thesis by (intro exI [of _ s'] conjI; blast)
qed

lemma lookup_below:
  assumes "j < nr" and "dir_name part s start j = pad_name fn" and "\<forall>i < j. dir_name part s start i \<noteq> pad_name fn"
  shows "lookup part s start nr fn = dir_ino part s start j"
proof -
  have "j < min (dir_blocks nr * 32) (nr + 1)" using assms(1) unfolding dir_blocks_def by linarith
  then have "find (\<lambda>i. dir_name part s start i = pad_name fn) [0..<min (dir_blocks nr * 32) (nr + 1)] = Some j"
    using assms(2,3) unfolding find_upt by blast
  then show ?thesis by (simp add: lookup_def)
qed

text \<open>
  C20: \<open>do_unlink\<close> on the name of a regular file that nobody has open returns 0 and
  gives back what the file had: its inode number and its sectors leave the maps and
  nothing else does, the inode on disk is cleared, the entry is blank.  The directory
  keeps its size, unless the entry was its last one: then the size becomes that of the
  entries in use before it, however they lie, in memory and on disk.  A name whose
  entry lies below the new size is found as before.  All other entries, inodes and
  sectors, the counts of the inode cache, the descriptors, the processes and the memory
  are as they were.
\<close>

theorem unlink_frees:
  assumes cu: "can_unlink s r dev part sb start nr k p x ns"
    and path: "get_pathname s (nat (source msg)) (m3p1 msg) (m3i2 msg) (AFL 19) = Inr path" "path \<noteq> [slash]"
      "strip_path path = Some fn" "fn \<noteq> []" "lookup part s start nr fn = int p"
  defines "nr' \<equiv> (if k + 1 = nr then live (dir_ino part s start) 0 k else nr)"
  shows "\<exists>s'. do_unlink s msg = Inr (0, s') \<and> icache_ok s' \<and> dir_ino part s' start k = 0 \<and> dir_name part s' start k = replicate 12 0 \<and>
    (\<forall>k'. k' \<noteq> k \<longrightarrow> dir_ino part s' start k' = dir_ino part s start k' \<and> dir_name part s' start k' = dir_name part s start k') \<and>
    inode_table s' r = (inode_table s r)\<lparr>i_size := of_nat (16 * nr')\<rparr> \<and>
    (if k + 1 = nr then same_disk (dinode part sb s' 1) (inode_table s' r) else dinode part sb s' 1 = dinode part sb s 1) \<and>
    (\<forall>path' fn' j. strip_path path' = Some fn' \<and> fn' \<noteq> [] \<and> pad_name fn' \<noteq> replicate 12 0 \<and> j < nr' \<and> j \<noteq> k \<and>
       dir_name part s start j = pad_name fn' \<and> (\<forall>i < j. dir_name part s start i \<noteq> pad_name fn') \<longrightarrow>
       (\<exists>b. search_file s' path' = Inr (dir_ino part s start j, s'\<lparr>fsbuf := b\<rparr>))) \<and>
    (\<forall>y < 4096. y \<in> map_set part s' 2 \<longleftrightarrow> y \<in> map_set part s 2 \<and> y \<noteq> p) \<and>
    (\<forall>y < 4096 * unat (nr_smap_sects sb). y \<in> map_set part s' (smap0 sb) \<longleftrightarrow>
       y \<in> map_set part s (smap0 sb) \<and> \<not> (x \<le> y \<and> y < x + ns)) \<and>
    (\<forall>b j. b \<notin> {2, iblock sb p, iblock sb 1, start + k div 32} \<union> {smap0 sb..<smap0 sb + unat (nr_smap_sects sb)} \<longrightarrow>
       j < SECTOR_SIZE \<longrightarrow> blk part s' b j = blk part s b j) \<and>
    i_mode (dinode part sb s' p) = 0 \<and> (\<forall>j. valid_ino j \<longrightarrow> j \<noteq> p \<longrightarrow> j \<noteq> 1 \<longrightarrow> dinode part sb s' j = dinode part sb s j) \<and>
    (\<forall>j. i_cnt (inode_table s' j) = i_cnt (inode_table s j)) \<and>
    f_desc_table s' = f_desc_table s \<and> fprocs s' = fprocs s \<and> umem s' = umem s"
proof -
  obtain s' where run: "do_unlink s msg = Inr (0, s')" and good: "root_good s' r dev part sb start (shrunk part s start nr k)"
    and ic: "icache_ok s'" and e: "dir_ino part s' start k = 0" "dir_name part s' start k = replicate 12 0"
    and old: "\<And>k'. k' \<noteq> k \<Longrightarrow> dir_ino part s' start k' = dir_ino part s start k' \<and> dir_name part s' start k' = dir_name part s start k'"
    and im: "\<And>y. y < 4096 \<Longrightarrow> y \<in> map_set part s' 2 \<longleftrightarrow> y \<in> map_set part s 2 \<and> y \<noteq> p"
    and sm: "\<And>y. y < 4096 * unat (nr_smap_sects sb) \<Longrightarrow> y \<in> map_set part s' (smap0 sb) \<longleftrightarrow>
      y \<in> map_set part s (smap0 sb) \<and> \<not> (x \<le> y \<and> y < x + ns)"
    and mode: "i_mode (dinode part sb s' p) = 0"
    and fr: "\<And>b j. b \<notin> {2, iblock sb p, iblock sb 1, start + k div 32} \<union> {smap0 sb..<smap0 sb + unat (nr_smap_sects sb)} \<Longrightarrow>
      j < SECTOR_SIZE \<Longrightarrow> blk part s' b j = blk part s b j"
    and di: "\<And>j. valid_ino j \<Longrightarrow> j \<noteq> p \<Longrightarrow> j \<noteq> 1 \<Longrightarrow> dinode part sb s' j = dinode part sb s j"
    and rt: "inode_table s' r = (if k + 1 = nr then (inode_table s r)\<lparr>i_size := of_nat (16 * shrunk part s start nr k)\<rparr> else inode_table s r)"
    and rd: "if k + 1 = nr then same_disk (dinode part sb s' 1) (inode_table s' r) else dinode part sb s' 1 = dinode part sb s 1"
    and cnt: "\<And>j. i_cnt (inode_table s' j) = i_cnt (inode_table s j)"
    and same: "f_desc_table s' = f_desc_table s" "fprocs s' = fprocs s" "umem s' = umem s"
    by (rule do_unlink_spec [OF cu path]) (rule that)
  have nr': "shrunk part s start nr k = nr'" by (simp add: shrunk_def nr'_def)
  have "root_ok s r dev part start nr" using cu_good [OF cu] by (simp add: root_good_def)
  then have "i_size (inode_table s r) = of_nat (16 * nr)" by (simp add: root_ok_def mult.commute)
  then have size: "inode_table s' r = (inode_table s r)\<lparr>i_size := of_nat (16 * nr')\<rparr>"
    using rt unfolding nr' by (cases "k + 1 = nr") (simp_all add: nr'_def del: of_nat_mult)
  have rk: "root_ok s' r dev part start nr'" using good unfolding nr' by (simp add: root_good_def)
  have found: "\<exists>b. search_file s' path' = Inr (dir_ino part s start j, s'\<lparr>fsbuf := b\<rparr>)"
    if h: "strip_path path' = Some fn' \<and> fn' \<noteq> [] \<and> pad_name fn' \<noteq> replicate 12 0 \<and> j < nr' \<and> j \<noteq> k \<and>
       dir_name part s start j = pad_name fn' \<and> (\<forall>i < j. dir_name part s start i \<noteq> pad_name fn')" for path' fn' j
  proof -
    have "dir_name part s' start i \<noteq> pad_name fn'" if "i < j" for i
      using h old [of i] e(2) that by (cases "i = k") auto
    then have "lookup part s' start nr' fn' = dir_ino part s' start j"
      using h old [of j] by (intro lookup_below) auto
    then show ?thesis using search_file_eq [OF rk, of path' fn'] h old [of j] by metis
  qed
  have all: "\<forall>k'. k' \<noteq> k \<longrightarrow> dir_ino part s' start k' = dir_ino part s start k' \<and> dir_name part s' start k' = dir_name part s start k'"
    "\<forall>y < 4096. y \<in> map_set part s' 2 \<longleftrightarrow> y \<in> map_set part s 2 \<and> y \<noteq> p"
    "\<forall>y < 4096 * unat (nr_smap_sects sb). y \<in> map_set part s' (smap0 sb) \<longleftrightarrow>
       y \<in> map_set part s (smap0 sb) \<and> \<not> (x \<le> y \<and> y < x + ns)"
    "\<forall>b j. b \<notin> {2, iblock sb p, iblock sb 1, start + k div 32} \<union> {smap0 sb..<smap0 sb + unat (nr_smap_sects sb)} \<longrightarrow>
       j < SECTOR_SIZE \<longrightarrow> blk part s' b j = blk part s b j"
    "\<forall>j. valid_ino j \<longrightarrow> j \<noteq> p \<longrightarrow> j \<noteq> 1 \<longrightarrow> dinode part sb s' j = dinode part sb s j"
    "\<forall>j. i_cnt (inode_table s' j) = i_cnt (inode_table s j)"
    using old im sm fr di cnt by blast+
  show ?thesis
    by (rule exI [of _ s'], intro conjI run ic e all size rd mode same) (use found in blast)
qed

theorem unlink_frees_witness:
  "\<exists>s'. do_unlink sample_closed (sample_msg UNLINK 0 2) = Inr (0, s') \<and> 7 \<notin> map_set sample_part s' 2 \<and>
     dir_ino sample_part s' 292 1 = 0"
proof -
  have path: "get_pathname sample_closed (nat (source (sample_msg UNLINK 0 2))) (m3p1 (sample_msg UNLINK 0 2))
      (m3i2 (sample_msg UNLINK 0 2)) (AFL 19) = Inr [slash, 0x62]"
    using sample_va2la by (simp add: get_pathname_def sample_msg_def upt_rec)
  have look: "lookup sample_part sample_closed 292 2 [0x62] = int 7"
    using sample_lookup by (simp add: lookup_def sample_closed_dir cong: option.case_cong)
  have *: "(7 :: nat) < 4096" by simp
  from unlink_frees [OF sample_can_unlink path _ sample_strip(1) _ look] * show ?thesis by auto
qed

section \<open>Creating and removing\<close>

lemma get_pathname_cong:
  "umem s' = umem s \<Longrightarrow> fprocs s' = fprocs s \<Longrightarrow> get_pathname s' src p n e = get_pathname s src p n e"
  by (simp add: get_pathname_def cong: sum.case_cong)

text \<open>After a file is created and closed its name can be removed; the state against the one before.\<close>

lemma create_then_close:
  assumes cc: "can_create s r dev part sb start nr k p x" and path: "strip_path path = Some fn" "fn \<noteq> []" "length fn \<le> 11"
    and fresh: "\<forall>k' < k. dir_name part s start k' \<noteq> pad_name fn" "\<forall>k' < k. dir_ino part s start k' \<noteq> int p"
  obtains q s1 s2 nr' where "create_file s path = Inr (Some q, s1)" and "put_inode s1 (Some q) = Inr s2"
    and "can_unlink s2 r dev part sb start nr' k p x NR_DEFAULT_FILE_SECTS" and "lookup part s2 start nr' fn = int p"
    and "\<And>j. i_cnt (inode_table s2 j) = i_cnt (inode_table s j)"
    and "\<And>k'. k' \<noteq> k \<Longrightarrow> dir_ino part s2 start k' = dir_ino part s start k' \<and> dir_name part s2 start k' = dir_name part s start k'"
    and "\<And>y. y < 4096 \<Longrightarrow> y \<in> map_set part s2 2 \<longleftrightarrow> y \<in> map_set part s 2 \<or> y = p"
    and "\<And>y. y < 4096 * unat (nr_smap_sects sb) \<Longrightarrow> y \<in> map_set part s2 (smap0 sb) \<longleftrightarrow>
      y \<in> map_set part s (smap0 sb) \<or> x \<le> y \<and> y < x + NR_DEFAULT_FILE_SECTS"
    and "\<And>b j. start \<le> b \<Longrightarrow> b \<noteq> start + k div 32 \<Longrightarrow> j < SECTOR_SIZE \<Longrightarrow> blk part s2 b j = blk part s b j"
    and "fprocs s2 = fprocs s" "umem s2 = umem s"
proof -
  let ?nr = "if k < nr then nr else nr + 1"
  have k: "k \<le> nr" using cc_slot(1) [OF cc] by (auto simp: free_slot_def find_Some_iff split: option.splits)
  obtain q s1 where s1: "create_file s path = Inr (Some q, s1)" and q: "q < NR_INODE" "i_cnt (inode_table s q) = 0" "q \<noteq> r"
    and t1: "inode_table s1 q = new_file dev sb p x"
    and o1: "\<And>j. j \<noteq> q \<Longrightarrow> i_cnt (inode_table s1 j) = i_cnt (inode_table s j) \<and> i_dev (inode_table s1 j) = i_dev (inode_table s j) \<and>
      i_num (inode_table s1 j) = i_num (inode_table s j)"
    and good: "root_good s1 r dev part sb start ?nr" and sd: "same_disk (dinode part sb s1 p) (new_file dev sb p x)"
    and new: "dir_ino part s1 start k = int p" "dir_name part s1 start k = pad_name fn"
    and old: "\<And>k'. k' \<noteq> k \<Longrightarrow> dir_ino part s1 start k' = dir_ino part s start k' \<and> dir_name part s1 start k' = dir_name part s start k'"
    and im: "\<And>y. y < 4096 \<Longrightarrow> y \<in> map_set part s1 2 \<longleftrightarrow> y \<in> map_set part s 2 \<or> y = p"
    and sm: "\<And>y. y < 4096 * unat (nr_smap_sects sb) \<Longrightarrow> y \<in> map_set part s1 (smap0 sb) \<longleftrightarrow>
      y \<in> map_set part s (smap0 sb) \<or> x \<le> y \<and> y < x + NR_DEFAULT_FILE_SECTS"
    and bl: "\<And>b j. start \<le> b \<Longrightarrow> b \<noteq> start + k div 32 \<Longrightarrow> j < SECTOR_SIZE \<Longrightarrow> blk part s1 b j = blk part s b j"
    and f1: "fprocs s1 = fprocs s" "umem s1 = umem s"
    by (rule create_file_spec [OF cc path(1,3)]) (rule that)
  let ?s2 = "upd_inode q (\<lambda>n. n\<lparr>i_cnt := i_cnt n - 1\<rparr>) s1"
  have s2: "put_inode s1 (Some q) = Inr ?s2" using t1 by (simp add: put_inode_def)
  have cnt2: "i_cnt (inode_table ?s2 j) = i_cnt (inode_table s j)" for j using o1 [of j] t1 q(2) by (cases "j = q") simp_all
  have d2: "dir_ino part ?s2 = dir_ino part s1" "dir_name part ?s2 = dir_name part s1" "map_set part ?s2 = map_set part s1"
    "dinode part sb ?s2 = dinode part sb s1"
    by (simp_all add: fun_eq_iff set_eq_iff dir_ino_def dir_name_def map_set_iff dinode_def)
  have cch2: "cached ?s2 d m j \<Longrightarrow> cached s d m j" for d m j using o1 [of j] t1 by (cases "j = q") simp_all
  have look: "lookup part ?s2 start ?nr fn = int p"
    by (rule lookup_new [OF k refl _ _ _ fresh(1)]) (use new old in \<open>simp_all add: d2\<close>)
  have cu: "can_unlink ?s2 r dev part sb start ?nr k p x NR_DEFAULT_FILE_SECTS"
    unfolding can_unlink_def d2
  proof (intro conjI allI impI)
    show "root_good ?s2 r dev part sb start ?nr" using good q(3) by (simp add: root_good_def root_ok_def)
    show "icache_ok ?s2" by (rule icache_ok_sub [OF cc_cache [OF cc] cnt2 cch2])
    show "dir_ino part s1 start j \<noteq> int p" if "j < k" for j using fresh(2) that old [of j] by simp
    show "\<not> cached ?s2 dev (int p) i" for i using cch2 cc_room(1) [OF cc] by blast
    show "\<exists>i < NR_INODE. i_cnt (inode_table ?s2 i) = 0" unfolding cnt2 by (rule cc_room(2) [OF cc])
    show "p \<in> map_set part s1 2" using im cc_ino(2) [OF cc] by simp
    show "{x..<x + NR_DEFAULT_FILE_SECTS} \<subseteq> map_set part s1 (smap0 sb)"
      using sm cc_sect(4) [OF cc] by (intro subsetI) simp
  qed (use cc_root [OF cc] cc_area [OF cc] cc_ino [OF cc] cc_sect [OF cc] new(1) sd k cnt2 [of r] in \<open>simp_all add: same_disk_def\<close>)
  show thesis
    by (rule that [OF s1 s2 cu look cnt2]) (use old im sm bl f1 in \<open>simp_all add: d2\<close>)
qed

text \<open>
  C6: removing a file that was just created and closed undoes the creation: both
  maps, the other directory entries, the data blocks and the counts of the inode
  cache are what they were before the file was made.
\<close>

theorem unlink_undoes_create:
  assumes cc: "can_create s r dev part sb start nr k p x"
    and path: "get_pathname s (nat (source msg)) (m3p1 msg) (m3i2 msg) (AFL 19) = Inr path" "path \<noteq> [slash]"
      "strip_path path = Some fn" "fn \<noteq> []" "length fn \<le> 11"
    and fresh: "\<forall>k' < k. dir_name part s start k' \<noteq> pad_name fn" "\<forall>k' < k. dir_ino part s start k' \<noteq> int p"
  shows "\<exists>q s1 s2 s3. create_file s path = Inr (Some q, s1) \<and> put_inode s1 (Some q) = Inr s2 \<and> do_unlink s2 msg = Inr (0, s3) \<and>
    (\<forall>y < 4096. y \<in> map_set part s3 2 \<longleftrightarrow> y \<in> map_set part s 2) \<and>
    (\<forall>y < 4096 * unat (nr_smap_sects sb). y \<in> map_set part s3 (smap0 sb) \<longleftrightarrow> y \<in> map_set part s (smap0 sb)) \<and>
    (\<forall>k'. k' \<noteq> k \<longrightarrow> dir_ino part s3 start k' = dir_ino part s start k' \<and> dir_name part s3 start k' = dir_name part s start k') \<and>
    dir_ino part s3 start k = 0 \<and> dir_name part s3 start k = dir_name part s start k \<and>
    (\<forall>b j. start \<le> b \<longrightarrow> b \<noteq> start + k div 32 \<longrightarrow> j < SECTOR_SIZE \<longrightarrow> blk part s3 b j = blk part s b j) \<and>
    (\<forall>j. i_cnt (inode_table s3 j) = i_cnt (inode_table s j))"
proof -
  obtain q s1 s2 nr' where s1: "create_file s path = Inr (Some q, s1)" and s2: "put_inode s1 (Some q) = Inr s2"
    and cu: "can_unlink s2 r dev part sb start nr' k p x NR_DEFAULT_FILE_SECTS" and look: "lookup part s2 start nr' fn = int p"
    and cnt: "\<And>j. i_cnt (inode_table s2 j) = i_cnt (inode_table s j)"
    and old: "\<And>k'. k' \<noteq> k \<Longrightarrow> dir_ino part s2 start k' = dir_ino part s start k' \<and> dir_name part s2 start k' = dir_name part s start k'"
    and im: "\<And>y. y < 4096 \<Longrightarrow> y \<in> map_set part s2 2 \<longleftrightarrow> y \<in> map_set part s 2 \<or> y = p"
    and sm: "\<And>y. y < 4096 * unat (nr_smap_sects sb) \<Longrightarrow> y \<in> map_set part s2 (smap0 sb) \<longleftrightarrow>
      y \<in> map_set part s (smap0 sb) \<or> x \<le> y \<and> y < x + NR_DEFAULT_FILE_SECTS"
    and bl: "\<And>b j. start \<le> b \<Longrightarrow> b \<noteq> start + k div 32 \<Longrightarrow> j < SECTOR_SIZE \<Longrightarrow> blk part s2 b j = blk part s b j"
    and f: "fprocs s2 = fprocs s" "umem s2 = umem s"
    by (rule create_then_close [OF cc path(3-5) fresh]) (rule that)
  have path2: "get_pathname s2 (nat (source msg)) (m3p1 msg) (m3i2 msg) (AFL 19) = Inr path"
    using path(1) get_pathname_cong [OF f(2,1)] by simp
  have clear: "x \<le> y \<and> y < x + NR_DEFAULT_FILE_SECTS \<Longrightarrow> y \<notin> map_set part s (smap0 sb)" for y
    using cc_sect(3) [OF cc] unfolding clear_run_def by simp
  obtain s3 where s3: "do_unlink s2 msg = Inr (0, s3)" and e3: "dir_ino part s3 start k = 0" "dir_name part s3 start k = replicate 12 0"
    and o3: "\<forall>k'. k' \<noteq> k \<longrightarrow> dir_ino part s3 start k' = dir_ino part s2 start k' \<and> dir_name part s3 start k' = dir_name part s2 start k'"
    and im3: "\<forall>y < 4096. y \<in> map_set part s3 2 \<longleftrightarrow> y \<in> map_set part s2 2 \<and> y \<noteq> p"
    and sm3: "\<forall>y < 4096 * unat (nr_smap_sects sb). y \<in> map_set part s3 (smap0 sb) \<longleftrightarrow>
      y \<in> map_set part s2 (smap0 sb) \<and> \<not> (x \<le> y \<and> y < x + NR_DEFAULT_FILE_SECTS)"
    and bl3: "\<forall>b j. start \<le> b \<longrightarrow> b \<noteq> start + k div 32 \<longrightarrow> j < SECTOR_SIZE \<longrightarrow> blk part s3 b j = blk part s2 b j"
    and cnt3: "\<forall>j. i_cnt (inode_table s3 j) = i_cnt (inode_table s2 j)"
    using do_unlink_all [OF cu path2 path(2-4) look] by blast
  have imap: "\<forall>y < 4096. y \<in> map_set part s3 2 \<longleftrightarrow> y \<in> map_set part s 2" using im3 im cc_ino(3) [OF cc] by metis
  have smap: "\<forall>y < 4096 * unat (nr_smap_sects sb). y \<in> map_set part s3 (smap0 sb) \<longleftrightarrow> y \<in> map_set part s (smap0 sb)"
    using sm3 sm clear by metis
  show ?thesis
    by (rule exI [of _ q], rule exI [of _ s1], rule exI [of _ s2], rule exI [of _ s3], intro conjI s1 s2 s3 imap smap e3(1))
      (use e3(2) cc_slot(3) [OF cc] o3 old bl3 bl cnt3 cnt in simp_all)
qed

theorem unlink_undoes_create_witness:
  "\<exists>q s1 s2 s3. create_file sample_new [0x63] = Inr (Some q, s1) \<and> put_inode s1 (Some q) = Inr s2 \<and>
     do_unlink s2 (sample_msg UNLINK 0 1) = Inr (0, s3) \<and> (2 \<in> map_set sample_part s3 2 \<longleftrightarrow> 2 \<in> map_set sample_part sample_new 2)"
proof -
  have path: "get_pathname sample_new (nat (source (sample_msg UNLINK 0 1))) (m3p1 (sample_msg UNLINK 0 1))
      (m3i2 (sample_msg UNLINK 0 1)) (AFL 19) = Inr [0x63]"
    using sample_va2la by (simp add: get_pathname_def sample_msg_def upt_rec)
  have n: "\<forall>k' < (2::nat). dir_name sample_part sample_new 292 k' \<noteq> pad_name [0x63]"
    "\<forall>k' < (2::nat). dir_ino sample_part sample_new 292 k' \<noteq> int 2"
    using sample_entries sample_new_dir by (auto simp: less_2_cases_iff)
  obtain q s1 s2 s3 where "create_file sample_new [0x63] = Inr (Some q, s1)" "put_inode s1 (Some q) = Inr s2"
    "do_unlink s2 (sample_msg UNLINK 0 1) = Inr (0, s3)" "\<forall>y < 4096. y \<in> map_set sample_part s3 2 \<longleftrightarrow> y \<in> map_set sample_part sample_new 2"
    using unlink_undoes_create [OF sample_can_create path _ sample_strip(2) _ _ n] by auto
  moreover from this(4) have "2 \<in> map_set sample_part s3 2 \<longleftrightarrow> 2 \<in> map_set sample_part sample_new 2" by simp
  ultimately show ?thesis by blast
qed

section \<open>The last entry\<close>

text \<open>
  C22: removing the last entry of a directory with gaps loses names: the new size is
  that of the entries still in use, and a file whose entry lies beyond it, though
  untouched, is no longer found.
\<close>

theorem unlink_last_loses_name:
  assumes g: "root_good s r dev part sb start nr" and k: "k + 1 = nr" "dir_ino part s start k = num"
    "\<forall>j < k. dir_ino part s start j \<noteq> num"
    and j: "live (dir_ino part s start) 0 k < j" "j < k" and path: "strip_path path = Some fn" "fn \<noteq> []"
    and name: "dir_name part s start j = pad_name fn" "\<forall>i < j. dir_name part s start i \<noteq> pad_name fn"
  shows "\<exists>b s' b'. search_file s path = Inr (dir_ino part s start j, s\<lparr>fsbuf := b\<rparr>) \<and> unlink_entry s r num = Inr s' \<and>
    dir_ino part s' start j = dir_ino part s start j \<and> search_file s' path = Inr (0, s'\<lparr>fsbuf := b'\<rparr>)"
proof -
  have rk: "root_ok s r dev part start nr" using g by (simp add: root_good_def)
  have "k < nr" using k(1) by simp
  obtain s' where s': "unlink_entry s r num = Inr s'" and g': "root_good s' r dev part sb start (shrunk part s start nr k)"
    and old: "\<And>k'. k' \<noteq> k \<Longrightarrow> dir_ino part s' start k' = dir_ino part s start k' \<and> dir_name part s' start k' = dir_name part s start k'"
    by (rule unlink_entry_spec [OF g \<open>k < nr\<close> k(2,3)]) (rule that)
  have sh: "shrunk part s start nr k = live (dir_ino part s start) 0 k" using k(1) by (simp add: shrunk_def)
  let ?n = "shrunk part s start nr k"
  have "dir_name part s' start i \<noteq> pad_name fn" if "i < min (dir_blocks ?n * 32) (?n + 1)" for i
  proof -
    have "i < j" using that j(1) sh by simp
    then show ?thesis using name(2) old [of i] j(2) by simp
  qed
  then have "find (\<lambda>i. dir_name part s' start i = pad_name fn) [0..<min (dir_blocks ?n * 32) (?n + 1)] = None"
    unfolding find_upt_None by blast
  then have "lookup part s' start ?n fn = 0" by (simp add: lookup_def)
  moreover have "root_ok s' r dev part start ?n" using g' by (simp add: root_good_def)
  ultimately obtain b' where b': "search_file s' path = Inr (0, s'\<lparr>fsbuf := b'\<rparr>)" using search_file_eq [OF _ path] by metis
  have "j < min (dir_blocks nr * 32) (nr + 1)" using j(2) k(1) unfolding dir_blocks_def by linarith
  then have "find (\<lambda>i. dir_name part s start i = pad_name fn) [0..<min (dir_blocks nr * 32) (nr + 1)] = Some j"
    using name unfolding find_upt by blast
  then have "lookup part s start nr fn = dir_ino part s start j" by (simp add: lookup_def)
  then obtain b where "search_file s path = Inr (dir_ino part s start j, s\<lparr>fsbuf := b\<rparr>)" using search_file_eq [OF rk path] by metis
  then show ?thesis using s' b' old [of j] j(2) by blast
qed

text \<open>A directory of five entries, of which the second and third are free.\<close>

definition sample_gap :: fs_state where
  "sample_gap = sample_fs\<lparr>
     drive := sample_drive\<lparr>sectors := (sectors sample_drive)(292 := store_entry 4 9 [0x63] (store_entry 3 7 [0x62] (store_entry 0 1 [0x2E] (\<lambda>_. 0))))\<rparr>,
     inode_table := (inode_table sample_fs)(0 := sample_root\<lparr>i_size := 80\<rparr>)\<rparr>"

lemma sample_gap_good: "root_good sample_gap 0 ROOT_DEV sample_part sample_sb 292 5"
proof -
  have d: "fs_dev sample_gap ROOT_DEV sample_part"
    by (simp add: fs_dev_def dev_ok_def sample_gap_def sample_drive_def MAJOR_def MINOR_def DRV_OF_DEV_def part_of_def)
  then have "geom sample_gap ROOT_DEV sample_part sample_sb"
    using sample_geom get_super_block_cong [of sample_gap sample_fs ROOT_DEV] by (simp add: geom_def sample_gap_def)
  then show ?thesis
    using d sample_reach by (simp add: root_good_def root_ok_def sample_iblock) (simp add: sample_gap_def sample_root_def)
qed

lemma sample_gap_entries:
  "k < 32 \<Longrightarrow> dir_ino sample_part sample_gap 292 k = (if k = 0 then 1 else if k = 3 then 7 else if k = 4 then 9 else 0)"
  "dir_name sample_part sample_gap 292 3 = pad_name [0x62]"
  "i < 3 \<Longrightarrow> dir_name sample_part sample_gap 292 i \<noteq> pad_name [0x62]"
proof -
  let ?b0 = "store_entry 0 1 [0x2E] (\<lambda>_. 0)" let ?b1 = "store_entry 3 7 [0x62] ?b0"
  have b: "blk sample_part sample_gap 292 = store_entry 4 9 [0x63] ?b1"
    by (simp add: part_block_def sample_gap_def sample_part_def)
  have d: "dir_ino sample_part sample_gap 292 k = de_inode (store_entry 4 9 [0x63] ?b1) k"
    "dir_name sample_part sample_gap 292 k = de_name (store_entry 4 9 [0x63] ?b1) k" if "k < 32" for k
    using that b by (simp_all add: dir_ino_def dir_name_def)
  have z: "de_inode (\<lambda>_. 0) k = 0" for k by (simp add: de_inode_def le32_def)
  show "dir_ino sample_part sample_gap 292 k = (if k = 0 then 1 else if k = 3 then 7 else if k = 4 then 9 else 0)" if "k < 32"
    using store_entry_same(1) [of "[0x63]" 9 4 ?b1] store_entry_same(1) [of "[0x62]" 7 3 ?b0] store_entry_same(1) [of "[0x2E]" 1 0 "\<lambda>_. 0"]
    unfolding d(1) [OF that] by (cases "k = 4"; cases "k = 3"; cases "k = 0") (simp_all add: store_entry_other z)
  have r: "replicate 11 (0 :: u8) = [0, 0, 0, 0, 0, 0, 0, 0, 0, 0, 0]" by (simp add: eval_nat_numeral)
  show "dir_name sample_part sample_gap 292 3 = pad_name [0x62]"
    by (simp add: d store_entry_other) (simp add: r de_name_def store_entry_def blit_def put32_def pad_name_def upt_rec nth_append)
  have h: "de_name (store_entry 4 9 [0x63] ?b1) i ! 0 \<noteq> pad_name [0x62] ! 0" if "i < 3" for i
    using store_entry_same(2) [of "[0x2E]" 1 0 0 "\<lambda>_. 0"] that
    by (cases "i = 0") (simp_all add: store_entry_other pad_name_def, simp add: de_name_def)
  show "dir_name sample_part sample_gap 292 i \<noteq> pad_name [0x62]" if "i < 3" using h [OF that] that d(2) [of i] by auto
qed

theorem unlink_last_loses_name_witness:
  "\<exists>b s' b'. search_file sample_gap [slash, 0x62] = Inr (7, sample_gap\<lparr>fsbuf := b\<rparr>) \<and> unlink_entry sample_gap 0 9 = Inr s' \<and>
     dir_ino sample_part s' 292 3 = 7 \<and> search_file s' [slash, 0x62] = Inr (0, s'\<lparr>fsbuf := b'\<rparr>)"
proof -
  have four: "(4 :: nat) = Suc (Suc (Suc (Suc 0)))" by simp
  have "live (dir_ino sample_part sample_gap 292) 0 4 = 2" unfolding four by (simp add: sample_gap_entries)
  moreover have "\<forall>j < (4::nat). dir_ino sample_part sample_gap 292 j \<noteq> 9" by (simp add: sample_gap_entries)
  ultimately show ?thesis
    using unlink_last_loses_name [OF sample_gap_good _ _ _ _ _ sample_strip(1), of 4 9 3] sample_gap_entries by simp
qed

end
