(* ===== verification/Fmt.thy ===== *)
theory Fmt
  imports Consts "HOL-Library.Char_ord"
begin

unbundle bit_operations_syntax

text \<open>
  Strings and formatting: \<open>i2a\<close> and \<open>vsprintf\<close> of \<open>lib/vsprintf.c\<close>, \<open>itoa\<close> of
  \<open>kernel/klib.c\<close>, \<open>strcmp\<close> and \<open>memcmp\<close> of \<open>lib/misc.c\<close>.  A C string is the list
  of its characters before the terminating 0; a variable argument is an int or a
  string.
\<close>

section \<open>Numbers\<close>

definition digit :: "int \<Rightarrow> char" where
  "digit m = char_of (if m < 10 then m + 48 else m - 10 + 65)"

lemma sdiv_smaller: "2 \<le> b \<Longrightarrow> a sdiv b \<noteq> 0 \<Longrightarrow> \<bar>a sdiv b\<bar> < \<bar>a :: int\<bar>"
proof -
  assume b: "2 \<le> b" and q: "a sdiv b \<noteq> 0"
  have "\<bar>a sdiv b\<bar> = \<bar>a\<bar> div b"
    using b pos_imp_zdiv_nonneg_iff [of b a] pos_imp_zdiv_nonneg_iff [of b "- a"]
    by (auto simp: signed_divide_int_def abs_mult sgn_if)
  moreover have "a \<noteq> 0" using q by (auto simp: signed_divide_int_def)
  ultimately show ?thesis using b by (simp add: int_div_less_self)
qed

text \<open>\<open>i2a\<close> is called with the bases 10 and 16; for the recursion to end the base must be at least 2.\<close>

function i2a :: "int \<Rightarrow> int \<Rightarrow> string" where
  "i2a val base =
    (let m = val smod base; q = val sdiv base in
     (if q \<noteq> 0 \<and> 2 \<le> base then i2a q base else []) @ [digit m])"
  by pat_completeness auto

termination
  by (relation "measure (\<lambda>(val, base). nat \<bar>val\<bar>)") (auto simp: sdiv_smaller nat_less_iff)

declare i2a.simps [simp del]

text \<open>\<open>itoa\<close>: eight hexadecimal digits without the leading zeros.  Shifts left, \<open>flag\<close>.\<close>

fun itoa_loop :: "u32 \<Rightarrow> nat list \<Rightarrow> bool \<Rightarrow> string" where
  "itoa_loop num [] flag = []"
| "itoa_loop num (i # is) flag =
    (let ch = uint (drop_bit i num AND 0xf) in
     if flag \<or> ch > 0
     then char_of (if ch + 48 > 57 then ch + 48 + 7 else ch + 48) # itoa_loop num is True
     else itoa_loop num is flag)"

definition itoa :: "int \<Rightarrow> string" where
  "itoa num = ''0x'' @ (if num = 0 then ''0''
     else itoa_loop (word_of_int num) [28, 24, 20, 16, 12, 8, 4, 0] False)"

section \<open>\<open>vsprintf\<close>\<close>

datatype va_arg = VInt int | VStr string

fun scan_width :: "int \<Rightarrow> string \<Rightarrow> int \<times> string" where
  "scan_width w [] = (w, [])"
| "scan_width w (c # fmt) =
    (if CHR ''0'' \<le> c \<and> c \<le> CHR ''9''
     then scan_width (cint (cint (w * 10) + (of_char c - 48))) fmt else (w, c # fmt))"

lemma length_scan_width: "length (snd (scan_width w fmt)) \<le> length fmt"
  by (induction w fmt rule: scan_width.induct) (auto intro: le_SucI)

abbreviation (input) STR_DEFAULT_LEN :: nat where "STR_DEFAULT_LEN \<equiv> 1024"

text \<open>What one conversion leaves in \<open>inner_buf\<close>, with the arguments that remain.\<close>

definition convert :: "char \<Rightarrow> va_arg list \<Rightarrow> (string \<times> va_arg list) kres" where
  "convert k args =
    (if k = CHR ''c'' then
       (case args of VInt v # as \<Rightarrow> Inr (takeWhile (\<lambda>c. c \<noteq> CHR 0x00) [char_of v], as)
        | _ \<Rightarrow> Inl (Bad_access ''va_arg''))
     else if k = CHR ''x'' then
       (case args of VInt v # as \<Rightarrow> Inr (i2a v 16, as) | _ \<Rightarrow> Inl (Bad_access ''va_arg''))
     else if k = CHR ''d'' then
       (case args of VInt v # as \<Rightarrow>
          Inr (if v < 0 then CHR ''-'' # i2a (cint (v * (-1))) 10 else i2a v 10, as)
        | _ \<Rightarrow> Inl (Bad_access ''va_arg''))
     else if k = CHR ''s'' then
       (case args of VStr t # as \<Rightarrow> ensure (length t < STR_DEFAULT_LEN) (Bad_access ''inner_buf'') (Inr (t, as))
        | _ \<Rightarrow> Inl (Bad_access ''va_arg''))
     else Inr ([], args))"

text \<open>The loop over the format.  A \<open>%\<close> with nothing behind it makes it run past the end of the string.\<close>

function vsprintf :: "string \<Rightarrow> va_arg list \<Rightarrow> string kres" where
  "vsprintf [] args = Inr []"
| "vsprintf (c # fmt) args =
    (if c \<noteq> CHR ''%'' then rbind (vsprintf fmt args) (\<lambda>r. Inr (c # r))
     else case fmt of
       [] \<Rightarrow> Inl (Bad_access ''fmt'')
     | d # fmt1 \<Rightarrow>
        if d = CHR ''%'' then rbind (vsprintf fmt1 args) (\<lambda>r. Inr (d # r))
        else let cs = (if d = CHR ''0'' then CHR ''0'' else CHR '' '');
                 (align_nr, fmt2) = scan_width 0 (if d = CHR ''0'' then fmt1 else d # fmt1) in
          (case fmt2 of
             [] \<Rightarrow> Inl (Bad_access ''fmt'')
           | k # fmt3 \<Rightarrow>
               rbind (convert k args) (\<lambda>(txt, args').
               rbind (vsprintf fmt3 args') (\<lambda>r.
               Inr (replicate (nat align_nr - length txt) cs @ txt @ r)))))"
  by pat_completeness auto
termination
proof (relation "measure (\<lambda>(fmt, args). length fmt)", goal_cases)
  case (4 c fmt args d fmt1 cs sw align_nr fmt2 k fmt3 x t args')
  have "length fmt2 \<le> length (if d = CHR ''0'' then fmt1 else d # fmt1)"
    using length_scan_width [of 0 "if d = CHR ''0'' then fmt1 else d # fmt1"] 4 by (metis snd_conv)
  then show ?case using 4 by (auto split: if_splits)
qed auto

declare vsprintf.simps [simp del]

section \<open>Conversions\<close>

text \<open>A format without a \<open>%\<close> is copied.\<close>

lemma vsprintf_plain: "CHR ''%'' \<notin> set fmt \<Longrightarrow> vsprintf fmt args = Inr fmt"
  by (induction fmt) (auto simp: vsprintf.simps)

lemma scan_width_stop: "\<not> (CHR ''0'' \<le> c \<and> c \<le> CHR ''9'') \<Longrightarrow> scan_width w (c # fmt) = (w, c # fmt)"
  by auto

lemma vsprintf_cons: "c \<noteq> CHR ''%'' \<Longrightarrow> vsprintf (c # fmt) args = rbind (vsprintf fmt args) (\<lambda>r. Inr (c # r))"
  by (simp add: vsprintf.simps)

text \<open>A conversion without a width.\<close>

lemma vsprintf_conv:
  assumes "d \<noteq> CHR ''%''" and "\<not> (CHR ''0'' \<le> d \<and> d \<le> CHR ''9'')"
  shows "vsprintf (CHR ''%'' # d # fmt) args = rbind (convert d args) (\<lambda>(t, args').
    rbind (vsprintf fmt args') (\<lambda>r. Inr (t @ r)))"
proof -
  have "d \<noteq> CHR ''0''" using assms(2) by auto
  moreover have "scan_width 0 (d # fmt) = (0, d # fmt)" by (rule scan_width_stop [OF assms(2)])
  ultimately show ?thesis
    using assms(1) by (simp add: vsprintf.simps(2) [of "CHR ''%''"] del: scan_width.simps split: sum.split)
qed

lemma vsprintf_s: "vsprintf (CHR ''%'' # CHR ''s'' # fmt) (VStr t # args) =
    (if length t < STR_DEFAULT_LEN then rbind (vsprintf fmt args) (\<lambda>r. Inr (t @ r)) else Inl (Bad_access ''inner_buf''))"
  by (subst vsprintf_conv) (simp_all add: convert_def less_eq_char_def)

lemma vsprintf_d: "vsprintf (CHR ''%'' # CHR ''d'' # fmt) (VInt v # args) =
    rbind (vsprintf fmt args) (\<lambda>r. Inr ((if v < 0 then CHR ''-'' # i2a (cint (v * (-1))) 10 else i2a v 10) @ r))"
  by (subst vsprintf_conv) (simp_all add: convert_def less_eq_char_def split: sum.split)

section \<open>Comparison\<close>

text \<open>\<open>char\<close> is signed: the difference of two bytes is that of their signed values.\<close>

definition schar :: "char \<Rightarrow> int" where
  "schar c = (let n = of_char c in if n < 128 then n else n - 256)"

text \<open>The byte under a pointer into a string: its first character, or the terminating 0.\<close>

definition first :: "string \<Rightarrow> int" where
  "first s = (case s of [] \<Rightarrow> 0 | c # _ \<Rightarrow> schar c)"

fun strcmp :: "string \<Rightarrow> string \<Rightarrow> int" where
  "strcmp (a # s) (b # t) = (if a \<noteq> b then schar a - schar b else strcmp s t)"
| "strcmp s t = first s - first t"

fun memcmp :: "string \<Rightarrow> string \<Rightarrow> nat \<Rightarrow> int kres" where
  "memcmp s t 0 = Inr 0"
| "memcmp (a # s) (b # t) (Suc n) = (if a \<noteq> b then Inr (schar a - schar b) else memcmp s t n)"
| "memcmp s t (Suc n) = Inl (Bad_access ''memcmp'')"

end
