(* ===== verification/FsLog.thy ===== *)
theory FsLog
  imports FsFile Fmt
begin

unbundle bit_operations_syntax

text \<open>
  The log on the disk, \<open>fs/disklog.c\<close>: the last \<open>NR_SECTS_FOR_LOG\<close> sectors of the root
  device hold a header of 64 bytes and the text that was logged.  The static variable
  \<open>pos\<close> of \<open>disklog\<close> is an argument and the result.
\<close>

abbreviation (input) ADL :: "nat \<Rightarrow> kfail" where "ADL \<equiv> Assertion ''fs/disklog.c''"
abbreviation (input) MAX_IO_BYTES :: nat where "MAX_IO_BYTES \<equiv> 256"

definition log_blk0 :: "super_block \<Rightarrow> int" where
  "log_blk0 sb = sint (sb_nr_sects sb - NR_SECTS_FOR_LOG)"

section \<open>Reserving the sectors\<close>

text \<open>The bits of a byte: steps left, bit, byte, bits left to set.\<close>

fun log_bits :: "nat \<Rightarrow> nat \<Rightarrow> u8 \<Rightarrow> nat \<Rightarrow> (u8 \<times> nat) kres" where
  "log_bits 0 k b bits_left = Inr (b, bits_left)"
| "log_bits (Suc n) k b bits_left =
    ensure (\<not> bit b k) (ADL 89)
      (if bits_left - 1 = 0 then Inr (b OR push_bit k 1, 0)
       else log_bits n (Suc k) (b OR push_bit k 1) (bits_left - 1))"

text \<open>The bytes of a sector: steps left, \<open>byte_off\<close>, \<open>bit_off\<close>, buffer, bits left.\<close>

fun log_bytes :: "nat \<Rightarrow> nat \<Rightarrow> nat \<Rightarrow> (nat \<Rightarrow> u8) \<Rightarrow> nat \<Rightarrow> ((nat \<Rightarrow> u8) \<times> nat) kres" where
  "log_bytes 0 byte_off bit_off buf bits_left = Inr (buf, bits_left)"
| "log_bytes (Suc n) byte_off bit_off buf bits_left =
    (if bits_left = 0 then Inr (buf, bits_left)
     else rbind (log_bits (8 - bit_off) bit_off (buf byte_off) bits_left) (\<lambda>(b, left).
       log_bytes n (Suc byte_off) 0 (buf(byte_off := b)) left))"

text \<open>The sectors of the map: steps left, \<open>i\<close>.\<close>

fun log_sects :: "int \<Rightarrow> int \<Rightarrow> nat \<Rightarrow> nat \<Rightarrow> nat \<Rightarrow> nat \<Rightarrow> nat \<Rightarrow> fs_state \<Rightarrow> nat fs_res" where
  "log_sects dv sect_nr 0 i byte_off bit_off bits_left s = Inr (bits_left, s)"
| "log_sects dv sect_nr (Suc n) i byte_off bit_off bits_left s =
    rbind (RD_SECT s dv (sect_nr + int i)) (\<lambda>s1.
    rbind (log_bytes (SECTOR_SIZE - byte_off) byte_off bit_off (fsbuf s1) bits_left) (\<lambda>(buf, left).
    rbind (WR_SECT (s1\<lparr>fsbuf := buf\<rparr>) dv (sect_nr + int i)) (\<lambda>s2.
    if left = 0 then Inr (left, s2) else log_sects dv sect_nr n (Suc i) 0 0 left s2)))"

definition reserve_log :: "int \<Rightarrow> super_block \<Rightarrow> fs_state \<Rightarrow> fs_state kres" where
  "reserve_log dv sb s =
    (let bits_per_sect = SECTOR_SIZE * 8; blk0 = log_blk0 sb;
         smap_blk0_nr = sint (1 + 1 + nr_imap_sects sb);
         sect_nr = smap_blk0_nr + blk0 sdiv bits_per_sect;
         byte_off = (blk0 smod bits_per_sect) sdiv 8; bit_off = (blk0 smod bits_per_sect) smod 8 in
     ensure (0 \<le> byte_off \<and> 0 \<le> bit_off) (Bad_access ''fsbuf'') (
     rbind (log_sects dv sect_nr (NR_SECTS_FOR_LOG div (SECTOR_SIZE * 8) + 2) 0 (nat byte_off) (nat bit_off) NR_SECTS_FOR_LOG s) (\<lambda>(left, s1).
     ensure (left = 0) (ADL 104) (Inr s1))))"

text \<open>The padding of the sectors: chunks left, \<open>i\<close>.\<close>

fun pad_log :: "int \<Rightarrow> nat \<Rightarrow> int \<Rightarrow> fs_state \<Rightarrow> fs_state kres" where
  "pad_log dv 0 i s = Inr s"
| "pad_log dv (Suc n) i s =
    rbind (rw_sector (s\<lparr>fsbuf := blit (fsbuf s) 0 (\<lambda>_. 0x20) (MAX_IO_BYTES * SECTOR_SIZE)\<rparr>) DEV_WRITE dv
      (word_of_int (cint (i * SECTOR_SIZE))) (int MAX_IO_BYTES * SECTOR_SIZE)) (\<lambda>s1.
    pad_log dv n (i + int MAX_IO_BYTES) s1)"

definition first_log :: "int \<Rightarrow> super_block \<Rightarrow> fs_state \<Rightarrow> fs_state kres" where
  "first_log dv sb s =
    rbind (reserve_log dv sb s) (\<lambda>s1.
    ensure (cmin MAX_IO_BYTES (FSBUF_SIZE div SECTOR_SIZE) = 256) (ADL 112)
      (pad_log dv (NR_SECTS_FOR_LOG div MAX_IO_BYTES) (log_blk0 sb) s1))"

section \<open>Writing\<close>

text \<open>The loop over the sectors the text reaches.\<close>

function log_write :: "int \<Rightarrow> int \<Rightarrow> nat \<Rightarrow> u8 list \<Rightarrow> fs_state \<Rightarrow> nat fs_res" where
  "log_write dv sect_nr pos p s =
    (if p = [] then Inr (pos, s)
     else
      (let off = pos mod SECTOR_SIZE; bytes = cmin (length p) (SECTOR_SIZE - off) in
       rbind (RD_SECT s dv sect_nr) (\<lambda>s1.
       rbind (WR_SECT (s1\<lparr>fsbuf := blit (fsbuf s1) off (\<lambda>k. p ! k) bytes\<rparr>) dv sect_nr) (\<lambda>s2.
       log_write dv (sect_nr + 1) (pos + bytes) (drop bytes p) s2))))"
  by pat_completeness auto
termination
  by (relation "measure (\<lambda>(dv, sect_nr, pos, p, s). length p)") auto

declare log_write.simps [simp del]

text \<open>The header: the position, padded with blanks to two lines of 32 characters.\<close>

definition log_header :: "nat \<Rightarrow> (nat \<Rightarrow> u8) \<Rightarrow> (nat \<Rightarrow> u8) kres" where
  "log_header pos b =
    rbind (vsprintf ''%8d\<newline>'' [VInt (int pos)]) (\<lambda>t.
    let b1 = blit b 0 (\<lambda>k. (cstr t @ [0]) ! k) (length t + 1);
        b2 = (blit b1 9 (\<lambda>_. 0x20) 22)(31 := 0x0A) in
    Inr ((blit b2 32 (\<lambda>_. 0x20) 31)(63 := 0x0A)))"

definition disklog :: "nat \<Rightarrow> u8 list \<Rightarrow> fs_state \<Rightarrow> nat fs_res" where
  "disklog pos0 logstr s =
    rbind (root_dir s) (\<lambda>r.
    let dv = i_dev (inode_table s r) in
    rbind (get_super_block s dv) (\<lambda>sb.
    rbind (if pos0 = 0 then first_log dv sb s else Inr s) (\<lambda>s1.
    let pos = (if pos0 = 0 then 0x40 else pos0); blk0 = log_blk0 sb in
    rbind (log_write dv (blk0 + int (pos div SECTOR_SIZE)) pos logstr s1) (\<lambda>(pos1, s2).
    rbind (RD_SECT s2 dv blk0) (\<lambda>s3.
    rbind (log_header pos1 (fsbuf s3)) (\<lambda>b.
    rbind (WR_SECT (s3\<lparr>fsbuf := b\<rparr>) dv blk0) (\<lambda>s4.
    rbind (WR_SECT (s4\<lparr>fsbuf := blit (fsbuf s4) 64 (\<lambda>_. fsbuf s4 (32 + 19)) (512 - 64)\<rparr>) dv (blk0 + NR_SECTS_FOR_LOG - 1)) (\<lambda>s5.
    Inr (pos1, s5)))))))))"

definition do_disklog :: "nat \<Rightarrow> fs_state \<Rightarrow> message \<Rightarrow> nat fs_res" where
  "do_disklog pos s msg =
    (let str_len = m3i2 msg; src = nat (source msg) in
     ensure (str_len < int STR_DEFAULT_LEN) (ADL 43) (
     ensure (0 \<le> str_len) (Bad_access ''buf'') (
     rbind (va2la (fprocs s) src (m3p2 msg)) (\<lambda>la.
     disklog pos (takeWhile (\<lambda>c. c \<noteq> 0) (map (\<lambda>k. umem s (la + of_nat k)) [0..<nat str_len])) s))))"

end
