(* ===== verification/FsLogMap.thy ===== *)
theory FsLogMap
  imports FsLog FsCreate
begin

unbundle bit_operations_syntax

text \<open>
  The first call of \<open>disklog\<close>: the run of bits it sets in the sector map, and the
  sectors of the log filled with blanks.
\<close>

section \<open>The bits\<close>

lemma log_bits_smap:
  "log_bits n k b nr = (case smap_bits n k b nr of Inl _ \<Rightarrow> Inl (ADL 89) | Inr r \<Rightarrow> Inr r)"
  by (induction n arbitrary: k b nr) simp_all

lemma log_bytes_smap:
  "log_bytes n j 0 f nr = (case smap_bytes sb i n j f nr 1 of Inl _ \<Rightarrow> Inl (ADL 89) | Inr (g, nr', _) \<Rightarrow> Inr (g, nr'))"
proof (induction n arbitrary: j f nr)
  case (Suc n)
  show ?case using Suc.IH by (cases "smap_bits 8 0 (f j) nr") (auto simp: log_bits_smap)
qed simp

lemma first_byte:
  fixes k n nr :: nat
  assumes "k \<le> 8"
  shows "min (8 * Suc n - k) nr = min (8 - k) nr + min (8 * n) (nr - min (8 - k) nr)"
proof (cases "nr \<le> 8 - k")
  case True
  have "8 - k \<le> 8 * Suc n - k" by (intro diff_le_mono) simp
  with True have "nr \<le> 8 * Suc n - k" by (rule le_trans)
  then have "min (8 * Suc n - k) nr = nr" by (rule min_absorb2)
  moreover have "min (8 - k) nr = nr" using True by (rule min_absorb2)
  ultimately show ?thesis by simp
next
  case False
  have e: "8 * Suc n - k = (8 - k) + 8 * n" using assms by simp
  have m: "min (8 - k) nr = 8 - k" "nr = (8 - k) + (nr - (8 - k))" using False by simp_all
  have "min (8 * Suc n - k) nr = min ((8 - k) + 8 * n) ((8 - k) + (nr - (8 - k)))" using e m(2) by simp
  also have "\<dots> = (8 - k) + min (8 * n) (nr - (8 - k))" by (rule min_add_distrib_right [symmetric])
  finally show ?thesis unfolding m(1) .
qed

lemma log_bytes_fill:
  assumes k: "k < 8" and nr: "0 < nr" and m: "m = min (8 * Suc n - k) nr" and c: "clear_run (bit_at f) (8 * j + k) m"
  shows "\<exists>g. log_bytes (Suc n) j k f nr = Inr (g, nr - m) \<and> filled f g (8 * j + k) m"
proof -
  define l where "l = min (8 - k) nr"
  define g1 where "g1 = f(j := with_bits k l (f j))"
  define m' where "m' = min (8 * n) (nr - l)"
  have "l \<le> 8 - k" by (simp add: l_def)
  then have l1: "k + l \<le> 8" using k by linarith
  have l2: "m = l + m'" unfolding l_def m'_def m by (rule first_byte) (use k in simp)
  have l3: "nr - l - m' = nr - m" unfolding l2 by simp
  note l = l1 l2 l3
  have cl: "clear_run (bit (f j)) k l" "clear_run (bit_at f) (8 * j + k + l) m'"
    using c clear_byte [OF l(1), of f j] unfolding l(2) clear_run_add by simp_all
  have fl: "filled f g1 (8 * j + k) l" unfolding g1_def by (rule filled_byte [OF l(1)])
  have step: "log_bytes (Suc n) j k f nr = log_bytes n (Suc j) 0 g1 (nr - l)"
    using nr k cl(1) smap_bits_eq [of k "8 - k" nr "f j"] by (simp add: log_bits_smap g1_def l_def)
  show ?thesis
  proof (cases "nr \<le> 8 - k")
    case True
    then have z: "nr - l = 0" "m = l" "nr - m = 0" using l by (auto simp: l_def m'_def)
    then have "log_bytes n (Suc j) 0 g1 (nr - l) = Inr (g1, nr - m)" by (cases n) simp_all
    then show ?thesis using step fl z by auto
  next
    case False
    then have l8: "8 * j + k + l = 8 * Suc j" using k by (simp add: l_def)
    have c': "clear_run (bit_at g1) (8 * Suc j) m'"
      unfolding filled_clear [OF fl eq_refl [OF l8]] by (rule cl(2) [unfolded l8])
    obtain g where g: "smap_bytes undefined 0 n (Suc j) g1 (nr - l) 1 = Inr (g, nr - l - m', 1)" "filled g1 g (8 * Suc j) m'"
      using smap_bytes_run [of 1 m' n "nr - l" g1 "Suc j" undefined 0] c' unfolding m'_def by auto
    have "filled f g (8 * j + k) m" using filled_trans [OF fl, of g m'] g(2) unfolding l8 l(2) .
    then show ?thesis using step log_bytes_smap [of n "Suc j" g1 "nr - l" undefined 0] g(1) l(3) by simp
  qed
qed

text \<open>One sector of the map, from position \<open>a\<close> on.\<close>

lemma log_sect_step:
  assumes d: "fs_dev s dv part" and r: "reach part (b + (q + i))" and a: "a < 4096" and nr: "0 < nr"
    and m: "m = min (4096 - a) nr" and c: "clear_run (\<lambda>x. x \<in> map_set part s b) (4096 * (q + i) + a) m" and hi: "b + (q + i) < hi"
  shows "\<exists>t. log_sects dv (int (b + q)) (Suc n) i (a div 8) (a mod 8) nr s =
      (if nr - m = 0 then Inr (0, t) else log_sects dv (int (b + q)) n (Suc i) 0 0 (nr - m) t) \<and>
    allocates part s t b hi (4096 * (q + i) + a) m"
proof -
  let ?f = "fsbuf (read_blk part (b + (q + i)) s)"
  have byte: "a div 8 < 512" "8 * (a div 8) + a mod 8 = a" using a by simp_all
  then obtain w where w: "512 - a div 8 = Suc w" by (cases "512 - a div 8") simp_all
  have "Suc w + a div 8 = 512" using w byte(1) by simp
  then have "8 * Suc w = 4096 - 8 * (a div 8)" by simp
  then have "8 * Suc w - a mod 8 = 4096 - a" unfolding diff_diff_left byte(2) by (simp only: diff_diff_left byte(2))
  then have m8: "m = min (8 * Suc w - a mod 8) nr" using m by (simp only:)
  have am: "a + m \<le> 4096" using m a by simp
  have "clear_run (bit_at ?f) (8 * (a div 8) + a mod 8) m" unfolding byte(2) buf_clear [OF am] by (rule c)
  then obtain g where g: "log_bytes (Suc w) (a div 8) (a mod 8) ?f nr = Inr (g, nr - m)" "filled ?f g a m"
    using log_bytes_fill [OF _ nr m8, of ?f "a div 8"] byte(2) by auto
  define t where "t = edit_blk part (b + (q + i)) g s"
  have dt: "fs_dev ((read_blk part (b + (q + i)) s)\<lparr>fsbuf := g\<rparr>) dv part" by (rule same_fs_dev [OF same_fs_rw(1) d])
  have "log_sects dv (int (b + q)) (Suc n) i (a div 8) (a mod 8) nr s =
      (if nr - m = 0 then Inr (0, t) else log_sects dv (int (b + q)) n (Suc i) 0 0 (nr - m) t)"
    using RD_SECT_eq [OF d r] WR_SECT_eq [OF dt r] g(1) w by (simp add: t_def edit_blk_def add.assoc)
  moreover have "allocates part s t b hi (4096 * (q + i) + a) m"
    unfolding t_def by (rule fill_allocates [OF g(2) am hi])
  ultimately show ?thesis by blast
qed

declare log_sects.simps [simp del]

lemma next_sector: "4096 * q + a = b \<Longrightarrow> m + a = 4096 \<Longrightarrow> 4096 * (q + Suc 0) = (b :: nat) + m"
  by simp

lemma reserve_log_eq:
  assumes g: "geom s dv part sb" and b0: "log_blk0 sb = int b0" and fits: "b0 + 512 \<le> 4096 * unat (nr_smap_sects sb)"
    and c: "clear_run (\<lambda>x. x \<in> map_set part s (smap0 sb)) b0 NR_SECTS_FOR_LOG"
  shows "\<exists>t. reserve_log dv sb s = Inr t \<and> allocates part s t (smap0 sb) (smap0 sb + unat (nr_smap_sects sb)) b0 NR_SECTS_FOR_LOG"
proof -
  let ?q = "b0 div 4096" and ?a = "b0 mod 4096" and ?hi = "smap0 sb + unat (nr_smap_sects sb)"
  have sm: "sint (1 + 1 + nr_imap_sects sb) = int (smap0 sb)"
  proof -
    have "1 + 1 + nr_imap_sects sb = (word_of_nat (smap0 sb) :: u32)" by simp
    moreover have "smap0 sb < 2 ^ 31" using sb_bounds [OF g] by simp
    ultimately show ?thesis by (simp only: sint_word_of_nat)
  qed
  have off: "4096 * ?q + ?a = b0" by simp
  have d: "int b0 sdiv (512 * 8) = int ?q" "int b0 smod (512 * 8) = int ?a" "int ?a sdiv 8 = int (?a div 8)" "int ?a smod 8 = int (?a mod 8)"
    by (simp_all add: zdiv_int zmod_int)
  have two: "512 div (512 * 8) + 2 = Suc (Suc 0)" by simp
  have run: "reserve_log dv sb s = rbind (log_sects dv (int (smap0 sb + ?q)) (Suc (Suc 0)) 0 (?a div 8) (?a mod 8) 512 s)
      (\<lambda>(left, s1). ensure (left = 0) (ADL 104) (Inr s1))"
    unfolding reserve_log_def Let_def b0 sm d two of_nat_add [symmetric] nat_int by (simp only: of_nat_0_le_iff simp_thms if_True)
  define m where "m = min (4096 - ?a) 512"
  have m: "m \<le> 512" "0 < m" "?a < 4096" by (simp_all add: m_def)
  have "4096 * ?q < 4096 * unat (nr_smap_sects sb)" using fits off by linarith
  then have q: "smap0 sb + (?q + 0) < ?hi" by simp
  have q1: "smap0 sb + (?q + Suc 0) < ?hi \<and> 4096 * (?q + Suc 0) = b0 + m" if "m < 512"
  proof -
    have "m = 4096 - ?a" using that by (simp add: m_def min_def split: if_splits)
    then have "m + ?a = 4096" using m(3) by simp
    then have e: "4096 * (?q + Suc 0) = b0 + m" by (rule next_sector [OF off])
    then have "4096 * (?q + Suc 0) < 4096 * unat (nr_smap_sects sb)" using fits that by linarith
    with e show ?thesis by simp
  qed
  have reach: "reach part (smap0 sb + x)" if "smap0 sb + x < ?hi" for x using that by (intro geom_reach [OF g]) simp
  have cl: "clear_run (\<lambda>x. x \<in> map_set part s (smap0 sb)) b0 m" "clear_run (\<lambda>x. x \<in> map_set part s (smap0 sb)) (b0 + m) (512 - m)"
    using c clear_run_add [of "\<lambda>x. x \<in> map_set part s (smap0 sb)" b0 m "512 - m"] m(1) by simp_all
  obtain t where t: "log_sects dv (int (smap0 sb + ?q)) (Suc (Suc 0)) 0 (?a div 8) (?a mod 8) 512 s =
      (if 512 - m = 0 then Inr (0, t) else log_sects dv (int (smap0 sb + ?q)) (Suc 0) (Suc 0) 0 0 (512 - m) t)"
    "allocates part s t (smap0 sb) ?hi b0 m"
    using log_sect_step [OF geom_dev [OF g] reach [OF q] m(3) _ m_def _ q, where n = "Suc 0"] cl(1) off by auto
  show ?thesis
  proof (cases "m = 512")
    case True
    then show ?thesis using t run by auto
  next
    case False
    then have lt: "m < 512" using m(1) by simp
    note q2 = q1 [OF lt]
    have "only_map part s t (smap0 sb) ?hi" using t(2) unfolding allocates_def by blast
    note td = same_fs_dev [OF only_map_same [OF this] geom_dev [OF g]]
    have ct: "clear_run (\<lambda>x. x \<in> map_set part t (smap0 sb)) (b0 + m) (512 - m) = clear_run (\<lambda>x. x \<in> map_set part s (smap0 sb)) (b0 + m) (512 - m)"
      by (rule clear_run_cong) (use t(2) in \<open>auto simp: allocates_def\<close>)
    have mm: "512 - m = min (4096 - 0) (512 - m)" by simp
    have q2a: "smap0 sb + (?q + Suc 0) < ?hi" and q2b: "4096 * (?q + Suc 0) + 0 = b0 + m" using q2 by simp_all
    have cl2: "clear_run (\<lambda>x. x \<in> map_set part t (smap0 sb)) (4096 * (?q + Suc 0) + 0) (512 - m)"
      unfolding q2b ct by (rule cl(2))
    have "\<exists>u. log_sects dv (int (smap0 sb + ?q)) (Suc 0) (Suc 0) (0 div 8) (0 mod 8) (512 - m) t =
        (if 512 - m - (512 - m) = 0 then Inr (0, u) else log_sects dv (int (smap0 sb + ?q)) 0 (Suc (Suc 0)) 0 0 (512 - m - (512 - m)) u) \<and>
      allocates part t u (smap0 sb) ?hi (4096 * (?q + Suc 0) + 0) (512 - m)"
      by (rule log_sect_step [OF td reach [OF q2a] _ _ mm cl2 q2a]) (use lt in simp_all)
    then obtain u where u: "log_sects dv (int (smap0 sb + ?q)) (Suc 0) (Suc 0) 0 0 (512 - m) t = Inr (0, u)"
      "allocates part t u (smap0 sb) ?hi (b0 + m) (512 - m)"
      unfolding q2b diff_self_eq_0 div_0 mod_0 by auto
    have "allocates part s u (smap0 sb) ?hi b0 512" using allocates_trans [OF t(2) u(2)] m(1) by simp
    then show ?thesis using t(1) u(1) run lt by auto
  qed
qed

section \<open>The padding\<close>

text \<open>The sectors from \<open>b\<close> on are filled with blanks.\<close>

definition blanked :: "part_info \<Rightarrow> fs_state \<Rightarrow> fs_state \<Rightarrow> nat \<Rightarrow> nat \<Rightarrow> bool" where
  "blanked part s s' b n \<longleftrightarrow> same_fs s s' \<and> (\<forall>x i. i < SECTOR_SIZE \<longrightarrow>
     blk part s' x i = (if b \<le> x \<and> x < b + n then 0x20 else blk part s x i))"

lemma blanked_trans: "blanked part s t b m \<Longrightarrow> blanked part t u (b + m) n \<Longrightarrow> blanked part s u b (m + n)"
  using same_fs_trans [of s t u] by (auto simp: blanked_def)

lemma pad_step:
  assumes d: "fs_dev s dv part" and r: "reach part (b + 255)"
  shows "\<exists>t. rw_sector (s\<lparr>fsbuf := blit (fsbuf s) 0 (\<lambda>_. 0x20) (MAX_IO_BYTES * SECTOR_SIZE)\<rparr>) DEV_WRITE dv
      (word_of_int (cint (int b * SECTOR_SIZE))) (int MAX_IO_BYTES * SECTOR_SIZE) = Inr t \<and> blanked part s t b 256"
proof -
  let ?f = "blit (fsbuf s) 0 (\<lambda>_. 0x20 :: u8) (256 * 512)"
  let ?t = "s\<lparr>fsbuf := ?f, drive := chunk_put part b 256 ?f (drive s)\<rparr>"
  have ir: "in_reach part b 256" "b * 512 < 2 ^ 31" using r by (simp_all add: reach_def in_reach_def)
  have "fs_dev (s\<lparr>fsbuf := ?f\<rparr>) dv part" using d by simp
  from rw_write [OF this ir] have run: "rw_sector (s\<lparr>fsbuf := ?f\<rparr>) DEV_WRITE dv
      (word_of_int (cint (int b * 512))) (int 256 * 512) = Inr ?t" by simp
  have "same_fs s ?t" unfolding same_fs_def by (intro exI [of _ ?f] exI [of _ "chunk_put part b 256 ?f (drive s)"]) (simp add: chunk_put_def)
  moreover have "part_block part (drive ?t) x i = (if b \<le> x \<and> x < b + 256 then 0x20 else blk part s x i)" if "i < 512" for x i
  proof -
    have "(x - b) * 512 + i < 256 * 512" if "b \<le> x" "x < b + 256"
      using that \<open>i < 512\<close> by linarith
    then show ?thesis using that by (auto simp: blk_chunk_put blit_def)
  qed
  ultimately have "blanked part s ?t b 256" by (simp add: blanked_def)
  with run show ?thesis by (intro exI [of _ ?t]) simp
qed

lemma pad_log_eq:
  assumes d: "fs_dev s dv part" and r: "reach part (b0 + 511)"
  shows "\<exists>t. pad_log dv 2 (int b0) s = Inr t \<and> blanked part s t b0 512"
proof -
  obtain t where t: "rw_sector (s\<lparr>fsbuf := blit (fsbuf s) 0 (\<lambda>_. 0x20) (256 * 512)\<rparr>) DEV_WRITE dv
      (word_of_int (cint (int b0 * 512))) (int 256 * 512) = Inr t" "blanked part s t b0 256"
    using pad_step [OF d reach_le [OF r], of "b0 + 255"] pad_step [OF d, of b0] reach_le [OF r, of "b0 + 255"] by auto
  have "fs_dev t dv part" by (rule same_fs_dev [OF _ d]) (use t(2) in \<open>simp add: blanked_def\<close>)
  then obtain u where u: "rw_sector (t\<lparr>fsbuf := blit (fsbuf t) 0 (\<lambda>_. 0x20) (256 * 512)\<rparr>) DEV_WRITE dv
      (word_of_int (cint (int (b0 + 256) * 512))) (int 256 * 512) = Inr u" "blanked part t u (b0 + 256) 256"
    using pad_step [of t dv part "b0 + 256"] r by (auto simp: add.assoc)
  have i: "int b0 + int 256 = int (b0 + 256)" by simp
  have "pad_log dv (Suc (Suc 0)) (int b0) s = Inr u"
    unfolding pad_log.simps t(1) sum.case i u(1) ..
  moreover have "blanked part s u b0 512" using blanked_trans [OF t(2) u(2)] by simp
  ultimately show ?thesis by (simp add: numeral_2_eq_2)
qed

text \<open>
  What the first call does before it writes: the bits \<open>b0\<close> to \<open>b0 + 511\<close> of the map
  are set, and the sectors \<open>b0\<close> to \<open>b0 + 511\<close> are blank.
\<close>

lemma first_log_eq:
  assumes g: "geom s dv part sb" and b0: "log_blk0 sb = int b0" and fits: "b0 + 512 \<le> 4096 * unat (nr_smap_sects sb)"
    and r: "reach part (b0 + 511)" and c: "clear_run (\<lambda>x. x \<in> map_set part s (smap0 sb)) b0 NR_SECTS_FOR_LOG"
    and below: "smap0 sb + unat (nr_smap_sects sb) \<le> b0"
  shows "\<exists>t. first_log dv sb s = Inr t \<and> same_fs s t \<and>
    (\<forall>x. x \<in> map_set part t (smap0 sb) \<and> x < 4096 * unat (nr_smap_sects sb) \<longleftrightarrow>
       (x \<in> map_set part s (smap0 sb) \<or> b0 \<le> x \<and> x < b0 + 512) \<and> x < 4096 * unat (nr_smap_sects sb)) \<and>
    (\<forall>x i. i < SECTOR_SIZE \<longrightarrow> (x < smap0 sb \<or> smap0 sb + unat (nr_smap_sects sb) \<le> x) \<longrightarrow>
       blk part t x i = (if b0 \<le> x \<and> x < b0 + 512 then 0x20 else blk part s x i))"
proof -
  obtain t where t: "reserve_log dv sb s = Inr t" "allocates part s t (smap0 sb) (smap0 sb + unat (nr_smap_sects sb)) b0 512"
    using reserve_log_eq [OF g b0 fits c] by blast
  have om: "only_map part s t (smap0 sb) (smap0 sb + unat (nr_smap_sects sb))" using t(2) unfolding allocates_def by blast
  obtain u where u: "pad_log dv 2 (int b0) t = Inr u" "blanked part t u b0 512"
    using pad_log_eq [OF same_fs_dev [OF only_map_same [OF om] geom_dev [OF g]] r] by blast
  have bl: "blk part u x i = (if b0 \<le> x \<and> x < b0 + 512 then 0x20 else blk part t x i)" if "i < 512" for x i
    using u(2) that by (simp add: blanked_def)
  have "first_log dv sb s = Inr u" using t(1) u(1) by (simp add: first_log_def b0)
  moreover have "same_fs s u" using same_fs_trans [OF only_map_same [OF om]] u(2) by (simp add: blanked_def)
  moreover have "x \<in> map_set part u (smap0 sb) \<longleftrightarrow> x \<in> map_set part t (smap0 sb)" if "x < 4096 * unat (nr_smap_sects sb)" for x
    by (rule map_set_cong [OF _ that]) (use bl below in auto)
  ultimately show ?thesis
    using t(2) bl only_map_blk [OF om] by (intro exI [of _ u]) (auto simp: allocates_def)
qed

end
