(* ===== verification/FmtProps.thy ===== *)
theory FmtProps
  imports Fmt
begin

text \<open>
  The properties of the formatting of numbers.
\<close>

section \<open>Reading a number back\<close>

definition digit_val :: "char \<Rightarrow> int" where
  "digit_val c = (if CHR ''0'' \<le> c \<and> c \<le> CHR ''9'' then of_char c - 48 else of_char c - 55)"

definition read_num :: "int \<Rightarrow> string \<Rightarrow> int" where
  "read_num b ds = foldl (\<lambda>v c. v * b + digit_val c) 0 ds"

definition is_digit :: "int \<Rightarrow> char \<Rightarrow> bool" where
  "is_digit b c \<longleftrightarrow> (CHR ''0'' \<le> c \<and> c \<le> CHR ''9'' \<or> CHR ''A'' \<le> c \<and> c \<le> CHR ''Z'') \<and> digit_val c < b"

lemma digit_code: "0 \<le> m \<Longrightarrow> m < 36 \<Longrightarrow> of_char (digit m) = (if m < 10 then m + 48 else m + 55)"
proof -
  assume m: "0 \<le> m" "m < 36"
  have "of_char (char_of x :: char) = (x :: int)" if "0 \<le> x" "x < 256" for x
    using that by (simp add: take_bit_int_eq_self_iff)
  then show ?thesis using m by (simp add: digit_def)
qed

lemma of_char_int_nat: "(of_char c :: int) = int (of_char c)"
  by (rule of_nat_of_char [symmetric])

lemma char_le_int: "c \<le> d \<longleftrightarrow> (of_char c :: int) \<le> of_char d"
  unfolding less_eq_char_def of_char_int_nat zle_int ..

lemma digit_val_digit: "0 \<le> m \<Longrightarrow> m < 36 \<Longrightarrow> digit_val (digit m) = m \<and> (m < b \<longrightarrow> is_digit b (digit m))"
  using digit_code [of m] by (auto simp: digit_val_def is_digit_def char_le_int)

lemma read_num_snoc: "read_num b (ds @ [c]) = read_num b ds * b + digit_val c"
  by (simp add: read_num_def)

lemma i2a_step: "0 \<le> v \<Longrightarrow> 2 \<le> b \<Longrightarrow> i2a v b = (if v < b then [] else i2a (v div b) b) @ [digit (v mod b)]"
  by (subst i2a.simps) (auto simp: Let_def zdiv_eq_0_iff)

lemma i2a_spec:
  assumes "2 \<le> b" and "b \<le> 36"
  shows "0 \<le> v \<Longrightarrow> read_num b (i2a v b) = v \<and> list_all (is_digit b) (i2a v b) \<and> i2a v b \<noteq> []"
proof (induction "nat v" arbitrary: v rule: less_induct)
  case less
  have m: "0 \<le> v mod b" "v mod b < b" using assms by simp_all
  have dg: "digit_val (digit (v mod b)) = v mod b" "is_digit b (digit (v mod b))"
    using digit_val_digit [of "v mod b" b] m assms by simp_all
  show ?case
  proof (cases "v < b")
    case True
    then show ?thesis using less.prems i2a_step [OF less.prems assms(1)] dg by (simp add: read_num_def)
  next
    case False
    have q: "0 \<le> v div b" "nat (v div b) < nat v"
      using less.prems False assms by (simp_all add: pos_imp_zdiv_nonneg_iff int_div_less_self)
    have "read_num b (i2a (v div b) b) = v div b \<and> list_all (is_digit b) (i2a (v div b) b) \<and> i2a (v div b) b \<noteq> []"
      by (rule less.hyps [OF q(2) q(1)])
    then show ?thesis using False i2a_step [OF less.prems assms(1)] dg by (simp add: read_num_snoc)
  qed
qed

text \<open>
  Formatting with \<open>%d\<close> prints every int but the smallest as a minus sign, if it is
  negative, and decimal digits that read back to its absolute value; and \<open>%x\<close> prints
  an int that is not negative as digits that read back to it in base 16.
\<close>

theorem printed_numbers:
  assumes "- (2 ^ 31) < v" and "v < 2 ^ 31"
  shows "(\<exists>ds. vsprintf ''%d'' [VInt v] = Inr ((if v < 0 then ''-'' else '''') @ ds) \<and> ds \<noteq> [] \<and>
      list_all (is_digit 10) ds \<and> read_num 10 ds = \<bar>v\<bar>) \<and>
    (0 \<le> v \<longrightarrow> (\<exists>ds. vsprintf ''%x'' [VInt v] = Inr ds \<and> list_all (is_digit 16) ds \<and> read_num 16 ds = v))"
proof (intro conjI impI)
  have neg: "cint (- v) = - v" using assms by (intro cint_small) simp_all
  have d: "vsprintf ''%d'' [VInt v] = Inr (if v < 0 then CHR ''-'' # i2a (- v) 10 else i2a v 10)"
    using neg by (simp add: vsprintf_d vsprintf_plain)
  show "\<exists>ds. vsprintf ''%d'' [VInt v] = Inr ((if v < 0 then ''-'' else '''') @ ds) \<and> ds \<noteq> [] \<and>
      list_all (is_digit 10) ds \<and> read_num 10 ds = \<bar>v\<bar>"
    unfolding d using i2a_spec [of 10 v] i2a_spec [of 10 "- v"]
    by (intro exI [of _ "i2a \<bar>v\<bar> 10"]) (simp add: abs_if)
  show "\<exists>ds. vsprintf ''%x'' [VInt v] = Inr ds \<and> list_all (is_digit 16) ds \<and> read_num 16 ds = v" if "0 \<le> v"
  proof -
    have "vsprintf ''%x'' [VInt v] = Inr (i2a v 16)"
      by (subst vsprintf_conv) (simp_all add: convert_def less_eq_char_def vsprintf_plain)
    then show ?thesis using i2a_spec [of 16 v] that by simp
  qed
qed

theorem printed_numbers_witness:
  "\<exists>ds. vsprintf ''%d'' [VInt (- 42)] = Inr (''-'' @ ds) \<and> read_num 10 ds = 42"
  using printed_numbers [of "- 42"] by auto

text \<open>
  \<open>%x\<close> does not print the hexadecimal form of a negative int: the remainder in C is
  negative too, and the last character printed is one below the digits.
\<close>

theorem hex_of_negative:
  assumes "v < 0" and "v smod 16 \<noteq> 0"
  shows "\<exists>t c. vsprintf ''%x'' [VInt v] = Inr (t @ [c]) \<and> c < CHR ''0'' \<and> \<not> is_digit 16 c"
proof -
  let ?m = "v smod 16"
  have m: "- 16 < ?m" "?m < 0"
    using assms by (simp_all add: signed_modulo_int_def sgn_if split: if_splits)
  have e: "i2a v 16 = (if v sdiv 16 \<noteq> 0 then i2a (v sdiv 16) 16 else []) @ [digit ?m]"
    by (subst i2a.simps) (simp add: Let_def)
  have "(of_char (char_of (?m + 48) :: char) :: int) = ?m + 48"
    using m by (simp add: take_bit_int_eq_self_iff)
  then have c: "(of_char (digit ?m) :: int) = ?m + 48" using m by (simp add: digit_def)
  have "vsprintf ''%x'' [VInt v] = Inr (i2a v 16)"
    by (subst vsprintf_conv) (simp_all add: convert_def less_eq_char_def vsprintf_plain)
  moreover have "digit ?m < CHR ''0''" using c m by (simp add: not_le [symmetric] char_le_int)
  moreover have "\<not> is_digit 16 (digit ?m)" using c m by (simp add: is_digit_def char_le_int)
  ultimately show ?thesis using e by auto
qed

theorem hex_of_negative_witness:
  "\<exists>t c. vsprintf ''%x'' [VInt (- 1)] = Inr (t @ [c]) \<and> \<not> is_digit 16 c"
proof -
  have "(- 1 :: int) smod 16 \<noteq> 0" by (simp add: signed_modulo_int_def)
  from hex_of_negative [OF _ this] show ?thesis by auto
qed

end
