(* ===== verification/FsLogProps.thy ===== *)
theory FsLogProps
  imports FsLogMap FsProps FmtProps
begin

text \<open>
  The property of the log: logging appends the text and leaves what was logged before.
\<close>

lemma log_write_step:
  assumes d: "fs_dev s dv part" and r: "reach part n" and p: "p \<noteq> []"
    and b: "bytes = min (length p) (SECTOR_SIZE - pos mod SECTOR_SIZE)"
  shows "log_write dv (int n) pos p s = log_write dv (int (n + 1)) (pos + bytes) (drop bytes p)
    (edit_blk part n (blit (fsbuf (read_blk part n s)) (pos mod SECTOR_SIZE) (\<lambda>k. p ! k) bytes) s)"
proof -
  let ?t = "(read_blk part n s)\<lparr>fsbuf := blit (fsbuf (read_blk part n s)) (pos mod SECTOR_SIZE) (\<lambda>k. p ! k) bytes\<rparr>"
  have t: "fs_dev ?t dv part" by (rule same_fs_dev [OF same_fs_rw(1) d])
  have c: "cmin (length p) (512 - pos mod 512) = bytes" using b by auto
  show ?thesis
    using p RD_SECT_eq [OF d r] WR_SECT_eq [OF t r]
    by (subst log_write.simps) (simp add: Let_def c edit_blk_def add.commute)
qed

lemma sector_ends:
  fixes pos b n :: nat
  assumes "q * n + a = pos"
  shows "a + b = n \<Longrightarrow> pos + b = (q + 1) * n" and "x < pos + b \<Longrightarrow> a + b \<le> n \<Longrightarrow> x < (q + 1) * n"
  using assms by auto

lemma file_byte_step:
  assumes b: "pos mod SECTOR_SIZE + bytes \<le> SECTOR_SIZE"
  shows "file_byte part (edit_blk part (b0 + pos div SECTOR_SIZE)
      (blit (fsbuf (read_blk part (b0 + pos div SECTOR_SIZE) s)) (pos mod SECTOR_SIZE) g bytes) s) b0 x =
    (if pos \<le> x \<and> x < pos + bytes then g (x - pos) else file_byte part s b0 x)"
proof (cases "x div 512 = pos div 512")
  case True
  have "pos div 512 * 512 + x mod 512 = x" "pos div 512 * 512 + pos mod 512 = pos"
    using True by (metis div_mult_mod_eq)+
  note sh = shift_iff(1) [OF this, where r = bytes] shift_iff(2) [OF this]
  show ?thesis
    using True unfolding sh [symmetric] by (simp add: file_byte_def blk_edit fsbuf_read blit_def)
next
  case False
  have "\<not> (pos \<le> x \<and> x < pos + bytes)"
  proof
    assume h: "pos \<le> x \<and> x < pos + bytes"
    have "pos div 512 \<le> x div 512" using h by (simp add: div_le_mono)
    moreover have "x div 512 < pos div 512 + 1"
      using sector_ends(2) [OF div_mult_mod_eq, of x pos bytes 512] h b by (simp add: div_less_iff_less_mult)
    ultimately show False using False by linarith
  qed
  with False show ?thesis by (auto simp: file_byte_def blk_edit)
qed

lemma log_write_eq:
  assumes "fs_dev s dv part" and "reach part (b0 + 511)" and "pos + length p \<le> 511 * SECTOR_SIZE"
  obtains s' where "log_write dv (int (b0 + pos div SECTOR_SIZE)) pos p s = Inr (pos + length p, s')"
    and "same_fs s s'"
    and "\<And>x. file_byte part s' b0 x = (if pos \<le> x \<and> x < pos + length p then p ! (x - pos) else file_byte part s b0 x)"
    and "\<And>n. n < b0 \<or> b0 + 511 < n \<Longrightarrow> blk part s' n = blk part s n"
  using assms
proof (induction "length p" arbitrary: pos p s thesis rule: less_induct)
  case less
  show ?case
  proof (cases "p = []")
    case True
    then show ?thesis by (intro less.prems(1) [of s]) (auto simp: log_write.simps same_fs_refl)
  next
    case False
    define n where "n = b0 + pos div 512"
    define bytes where "bytes = min (length p) (512 - pos mod 512)"
    define t where "t = edit_blk part n (blit (fsbuf (read_blk part n s)) (pos mod 512) (\<lambda>k. p ! k) bytes) s"
    have m: "pos mod 512 < 512" by simp
    have b: "pos mod 512 + bytes \<le> 512" "0 < bytes" "bytes \<le> length p"
      using False m by (auto simp: bytes_def)
    have n: "n \<le> b0 + 511" using less.prems(4) by (simp add: n_def)
    note step = log_write_step [OF less.prems(2) reach_le [OF less.prems(3) n] False bytes_def, folded t_def]
    have t: "same_fs s t" unfolding t_def by (rule edit_blk_same)
    have fb: "file_byte part t b0 x = (if pos \<le> x \<and> x < pos + bytes then p ! (x - pos) else file_byte part s b0 x)" for x
      using file_byte_step [OF b(1), of part b0 s "\<lambda>k. p ! k" x] by (simp add: t_def n_def)
    have other: "blk part t k = blk part s k" if "k < b0 \<or> b0 + 511 < k" for k
      unfolding t_def using that n by (intro blk_edit_other) (auto simp: n_def)
    have nx: "drop bytes p = [] \<or> 1 + int n = int b0 + int ((pos + bytes) div 512)"
    proof (cases "bytes = length p")
      case False
      then have "pos mod 512 + bytes = 512" using m by (auto simp: bytes_def)
      from sector_ends(1) [OF div_mult_mod_eq this] have "pos + bytes = (pos div 512 + 1) * 512" .
      then show ?thesis by (simp add: n_def)
    qed simp
    have len: "pos + bytes + length (drop bytes p) = pos + length p" using b(3) by simp
    obtain s' where s': "log_write dv (int (b0 + (pos + bytes) div 512)) (pos + bytes) (drop bytes p) t = Inr (pos + length p, s')"
      "same_fs t s'"
      "\<And>x. file_byte part s' b0 x = (if pos + bytes \<le> x \<and> x < pos + length p then drop bytes p ! (x - (pos + bytes)) else file_byte part t b0 x)"
      "\<And>k. k < b0 \<or> b0 + 511 < k \<Longrightarrow> blk part s' k = blk part t k"
      by (rule less.hyps [where p = "drop bytes p" and pos = "pos + bytes" and s = t, OF _ _ same_fs_dev [OF t less.prems(2)] less.prems(3)])
        (use b less.prems(4) len in auto)
    have "log_write dv (int n) pos p s = Inr (pos + length p, s')"
      using step nx s'(1) by (auto simp: log_write.simps [of _ _ _ "[]"])
    moreover have "file_byte part s' b0 x = (if pos \<le> x \<and> x < pos + length p then p ! (x - pos) else file_byte part s b0 x)" for x
      unfolding s'(3) fb using b(2,3) by auto
    ultimately show ?thesis
      using same_fs_trans [OF t s'(2)] s'(4) other by (intro less.prems(1) [of s']) (auto simp: n_def)
  qed
qed

section \<open>The header\<close>

lemma length_i2a: "0 \<le> v \<Longrightarrow> v < 10 ^ Suc k \<Longrightarrow> length (i2a v 10) \<le> Suc k"
proof (induction k arbitrary: v)
  case 0
  then show ?case by (subst i2a_step) auto
next
  case (Suc k)
  have "v div 10 < 10 ^ Suc k" using Suc.prems by (simp add: div_less_iff_less_mult)
  moreover have "0 \<le> v div 10" using Suc.prems(1) by (simp add: pos_imp_zdiv_nonneg_iff)
  ultimately have "length (i2a (v div 10) 10) \<le> Suc k" by (intro Suc.IH)
  then show ?case using Suc.prems(1) by (subst i2a_step) auto
qed

lemma vsprintf_8d:
  assumes "0 \<le> v"
  shows "vsprintf ''%8d\<newline>'' [VInt v] = Inr (replicate (8 - length (i2a v 10)) CHR '' '' @ i2a v 10 @ ''\<newline>'')"
proof -
  have w: "scan_width 0 ''8d\<newline>'' = (8, ''d\<newline>'')" by (simp add: less_eq_char_def cint_def)
  show ?thesis
    using assms by (simp add: vsprintf.simps(2) [of "CHR ''%''"] w convert_def vsprintf_plain del: scan_width.simps)
qed

lemma log_header_eq:
  assumes "pos < 10 ^ 8"
  obtains b' where "log_header pos b = Inr b'" and "\<And>i. 64 \<le> i \<Longrightarrow> b' i = b i"
proof -
  obtain t where t: "vsprintf ''%8d\<newline>'' [VInt (int pos)] = Inr t" "length t \<le> 9"
    using vsprintf_8d [of "int pos"] length_i2a [of "int pos" 7] assms by simp
  show ?thesis
    by (rule that, simp add: log_header_def t(1), use t(2) in \<open>simp add: blit_def\<close>)
qed

section \<open>Appending\<close>

lemma blk_edit_keep:
  assumes "64 \<le> i" and "i < SECTOR_SIZE" and "\<And>i. 64 \<le> i \<Longrightarrow> f i = fsbuf (read_blk part n s) i"
  shows "blk part (edit_blk part n f s) n' i = blk part s n' i"
  using assms by (simp add: blk_edit fsbuf_read)

lemma disklog_eq:
  assumes root: "root_dir s = Inr r" "i_dev (inode_table s r) = dv" and sb: "get_super_block s dv = Inr sb"
    and dev: "fs_dev s dv part" and area: "log_blk0 sb = int b0" "reach part (b0 + 511)"
    and fit: "64 \<le> pos" "pos + length logstr \<le> 511 * SECTOR_SIZE"
  obtains s' where "disklog pos logstr s = Inr (pos + length logstr, s')" and "same_fs s s'"
    and "\<And>x. 64 \<le> x \<Longrightarrow> x < 511 * SECTOR_SIZE \<Longrightarrow> file_byte part s' b0 x =
       (if pos \<le> x \<and> x < pos + length logstr then logstr ! (x - pos) else file_byte part s b0 x)"
    and "\<And>n. n < b0 \<or> b0 + NR_SECTS_FOR_LOG \<le> n \<Longrightarrow> blk part s' n = blk part s n"
proof -
  obtain s2 where s2: "log_write dv (int (b0 + pos div SECTOR_SIZE)) pos logstr s = Inr (pos + length logstr, s2)"
    and same: "same_fs s s2"
    and txts: "\<And>x. file_byte part s2 b0 x =
      (if pos \<le> x \<and> x < pos + length logstr then logstr ! (x - pos) else file_byte part s b0 x)"
    and other: "\<And>n. n < b0 \<or> b0 + 511 < n \<Longrightarrow> blk part s2 n = blk part s n"
    by (rule log_write_eq [OF dev area(2) fit(2)]) blast
  note d2 = same_fs_dev [OF same dev]
  have r0: "reach part b0" using reach_le [OF area(2), of b0] by simp
  obtain h where h: "log_header (pos + length logstr) (fsbuf (read_blk part b0 s2)) = Inr h"
    "\<And>i. 64 \<le> i \<Longrightarrow> h i = fsbuf (read_blk part b0 s2) i"
    by (rule log_header_eq [of "pos + length logstr" "fsbuf (read_blk part b0 s2)"]) (use fit(2) in auto)
  define s4 where "s4 = edit_blk part b0 h s2"
  have d3: "fs_dev ((read_blk part b0 s2)\<lparr>fsbuf := h\<rparr>) dv part" by (rule same_fs_dev [OF same_fs_rw(1) d2])
  have same4: "same_fs s2 s4" unfolding s4_def by (rule edit_blk_same)
  define g where "g = blit (fsbuf s4) 64 (\<lambda>_. fsbuf s4 (32 + 19)) (512 - 64)"
  define s5 where "s5 = write_blk part (b0 + 511) (s4\<lparr>fsbuf := g\<rparr>)"
  have d4: "fs_dev (s4\<lparr>fsbuf := g\<rparr>) dv part"
    by (rule same_fs_dev [OF same_fs_rw(4) same_fs_dev [OF same4 d2]])
  have w: "WR_SECT ((read_blk part b0 s2)\<lparr>fsbuf := h\<rparr>) dv (int b0) = Inr s4"
    unfolding s4_def edit_blk_def by (rule WR_SECT_eq [OF d3 r0])
  have w5: "WR_SECT (s4\<lparr>fsbuf := g\<rparr>) dv (511 + int b0) = Inr s5"
    using WR_SECT_eq [OF d4 area(2)] by (simp add: s5_def add.commute)
  have same5: "same_fs s2 s5"
    unfolding s5_def by (intro same_fs_trans [OF same4] same_fs_trans [OF same_fs_rw(4) same_fs_rw(2)])
  have run: "disklog pos logstr s = Inr (pos + length logstr, s5)"
    using fit(1) root sb s2 RD_SECT_eq [OF d2 r0] h(1) w w5 [unfolded g_def]
    by (simp add: disklog_def area(1))
  have keep: "blk part s5 n i = blk part s2 n i" if "n \<noteq> b0 + 511" "i < 512" "n = b0 \<longrightarrow> 64 \<le> i" for n i
  proof -
    have "blk part s5 n i = blk part s4 n i" using that(1) by (simp add: s5_def blk_write_other)
    also have "\<dots> = blk part s2 n i"
      using that h(2) by (cases "n = b0") (simp_all add: s4_def blk_edit fsbuf_read)
    finally show ?thesis .
  qed
  have "file_byte part s5 b0 x = file_byte part s2 b0 x" if "64 \<le> x" "x < 511 * 512" for x
    unfolding file_byte_def
  proof (rule keep)
    show "b0 + x div 512 \<noteq> b0 + 511" using that(2) by simp
    show "b0 + x div 512 = b0 \<longrightarrow> 64 \<le> x mod 512" using that(1) by auto
  qed simp
  moreover have "blk part s5 n = blk part s n" if "n < b0 \<or> b0 + 512 \<le> n" for n
    using that other [of n] by (auto simp: s5_def s4_def blk_write_other blk_edit_other)
  ultimately show thesis using run txts same_fs_trans [OF same same5] by (intro that [of s5]) simp_all
qed

text \<open>The first call: the log is set up, and then it goes on like any other.\<close>

lemma disklog_first:
  assumes "root_dir s = Inr r" "i_dev (inode_table s r) = dv" "get_super_block s dv = Inr sb"
    and "first_log dv sb s = Inr t" and "same_fs s t"
  shows "disklog 0 logstr s = disklog 64 logstr t"
proof -
  have "root_inode t = root_inode s" "inode_table t = inode_table s" "super_blocks t = super_blocks s"
    using assms(5) by (auto simp: same_fs_def)
  then have "root_dir t = root_dir s" "i_dev (inode_table t r) = dv" "get_super_block t dv = get_super_block s dv"
    using assms(2) by (simp_all add: root_dir_def get_super_block_def cong: option.case_cong)
  then show ?thesis using assms(1-4) by (simp add: disklog_def)
qed

text \<open>The state of the disk that the first call expects: room for the log behind the maps, its bits clear.\<close>

definition log_room :: "fs_state \<Rightarrow> int \<Rightarrow> part_info \<Rightarrow> super_block \<Rightarrow> nat \<Rightarrow> bool" where
  "log_room s dv part sb b0 \<longleftrightarrow> geom s dv part sb \<and> smap0 sb + unat (nr_smap_sects sb) \<le> b0 \<and>
     b0 + NR_SECTS_FOR_LOG \<le> 4096 * unat (nr_smap_sects sb) \<and>
     clear_run (\<lambda>x. x \<in> map_set part s (smap0 sb)) b0 NR_SECTS_FOR_LOG"

lemma log_room_first:
  assumes "log_room s dv part sb b0" and "log_blk0 sb = int b0" and "reach part (b0 + 511)"
  obtains t where "first_log dv sb s = Inr t" and "same_fs s t"
    and "\<And>x. x < 4096 * unat (nr_smap_sects sb) \<Longrightarrow>
       x \<in> map_set part t (smap0 sb) \<longleftrightarrow> x \<in> map_set part s (smap0 sb) \<or> b0 \<le> x \<and> x < b0 + NR_SECTS_FOR_LOG"
    and "\<And>n i. i < SECTOR_SIZE \<Longrightarrow> n < smap0 sb \<or> smap0 sb + unat (nr_smap_sects sb) \<le> n \<Longrightarrow>
       blk part t n i = (if b0 \<le> n \<and> n < b0 + NR_SECTS_FOR_LOG then 0x20 else blk part s n i)"
  using assms first_log_eq [of s dv part sb b0] unfolding log_room_def by metis

text \<open>
  C37: \<open>disklog\<close> appends to the log, from its first call (\<open>pos\<close> is 0) on: it returns the position behind the
  text, the text is at the old position, or behind the header of 64 bytes at the first
  call, and no sector outside the log is written.  A later call leaves every earlier
  byte behind the header as it is; the first call fills the log with blanks and sets
  the 512 bits from \<open>b0\<close> on in the sector map, and changes no other bit of it.
\<close>

theorem log_appends:
  assumes root: "root_dir s = Inr r" "i_dev (inode_table s r) = dv" and sb: "get_super_block s dv = Inr sb"
    and dev: "fs_dev s dv part" and area: "log_blk0 sb = int b0" "reach part (b0 + 511)"
    and start: "at = (if pos = 0 then 64 else pos)" "64 \<le> at" "at + length logstr \<le> 511 * SECTOR_SIZE"
    and room: "pos = 0 \<Longrightarrow> log_room s dv part sb b0"
  shows "\<exists>s'. disklog pos logstr s = Inr (at + length logstr, s') \<and>
    (\<forall>x. 64 \<le> x \<and> x < 511 * SECTOR_SIZE \<longrightarrow> file_byte part s' b0 x =
       (if at \<le> x \<and> x < at + length logstr then logstr ! (x - at) else if pos = 0 then 0x20 else file_byte part s b0 x)) \<and>
    (\<forall>n. n < b0 \<or> b0 + NR_SECTS_FOR_LOG \<le> n \<longrightarrow>
       (pos = 0 \<longrightarrow> n < smap0 sb \<or> smap0 sb + unat (nr_smap_sects sb) \<le> n) \<longrightarrow> (\<forall>i < SECTOR_SIZE. blk part s' n i = blk part s n i)) \<and>
    (pos = 0 \<longrightarrow> (\<forall>x < 4096 * unat (nr_smap_sects sb).
       x \<in> map_set part s' (smap0 sb) \<longleftrightarrow> x \<in> map_set part s (smap0 sb) \<or> b0 \<le> x \<and> x < b0 + NR_SECTS_FOR_LOG))"
proof (cases "pos = 0")
  case False
  obtain s' where "disklog pos logstr s = Inr (pos + length logstr, s')"
    "\<And>x. 64 \<le> x \<Longrightarrow> x < 511 * SECTOR_SIZE \<Longrightarrow> file_byte part s' b0 x =
       (if pos \<le> x \<and> x < pos + length logstr then logstr ! (x - pos) else file_byte part s b0 x)"
    "\<And>n. n < b0 \<or> b0 + NR_SECTS_FOR_LOG \<le> n \<Longrightarrow> blk part s' n = blk part s n"
    by (rule disklog_eq [OF root sb dev area, of pos logstr]) (use start False in auto)
  then show ?thesis using False start(1) by (intro exI [of _ s']) simp
next
  case True
  note lr = room [OF True]
  obtain t where t: "first_log dv sb s = Inr t" "same_fs s t"
    "\<And>x. x < 4096 * unat (nr_smap_sects sb) \<Longrightarrow>
       x \<in> map_set part t (smap0 sb) \<longleftrightarrow> x \<in> map_set part s (smap0 sb) \<or> b0 \<le> x \<and> x < b0 + NR_SECTS_FOR_LOG"
    "\<And>n i. i < SECTOR_SIZE \<Longrightarrow> n < smap0 sb \<or> smap0 sb + unat (nr_smap_sects sb) \<le> n \<Longrightarrow>
       blk part t n i = (if b0 \<le> n \<and> n < b0 + NR_SECTS_FOR_LOG then 0x20 else blk part s n i)"
    by (rule log_room_first [OF lr area], rule that)
  have below: "smap0 sb + unat (nr_smap_sects sb) \<le> b0" using lr by (simp add: log_room_def)
  have rt: "root_dir t = Inr r" "i_dev (inode_table t r) = dv" "get_super_block t dv = Inr sb"
    using t(2) root sb by (auto simp: same_fs_def root_dir_def get_super_block_def cong: option.case_cong)
  obtain s' where s': "disklog 64 logstr t = Inr (64 + length logstr, s')"
    "\<And>x. 64 \<le> x \<Longrightarrow> x < 511 * SECTOR_SIZE \<Longrightarrow> file_byte part s' b0 x =
       (if 64 \<le> x \<and> x < 64 + length logstr then logstr ! (x - 64) else file_byte part t b0 x)"
    "\<And>n. n < b0 \<or> b0 + NR_SECTS_FOR_LOG \<le> n \<Longrightarrow> blk part s' n = blk part t n"
    by (rule disklog_eq [OF rt same_fs_dev [OF t(2) dev] area, of 64 logstr]) (use start True in auto)
  have blank: "file_byte part t b0 x = 0x20" if "x < 511 * 512" for x
  proof -
    have "x div 512 < 512" using that by (simp add: div_less_iff_less_mult)
    then show ?thesis using t(4) [of "x mod 512" "b0 + x div 512"] below by (simp add: file_byte_def)
  qed
  have map: "x \<in> map_set part s' (smap0 sb) \<longleftrightarrow> x \<in> map_set part t (smap0 sb)" if "x < 4096 * unat (nr_smap_sects sb)" for x
    by (rule map_set_cong [OF _ that]) (use s'(3) below in auto)
  have "disklog 0 logstr s = Inr (64 + length logstr, s')" using disklog_first [OF root sb t(1,2)] s'(1) by simp
  then show ?thesis
    using True start(1) s'(2,3) t(3,4) blank map by (intro exI [of _ s']) simp
qed

text \<open>The sample disk: the maps are clear, and the log starts at sector 130560.\<close>

lemma sample_room: "log_room sample_fs ROOT_DEV sample_part sample_sb 130560"
proof -
  have "x \<notin> map_set sample_part sample_fs 3" if "x < 4096 * 33" for x
  proof -
    have "3 + x div 4096 < 292" using that by linarith
    then have "blk sample_part sample_fs (3 + x div 4096) i = 0" if "i < 512" for i
      using that by (simp add: part_block_def sample_fs_def sample_drive_def sample_part_def)
    moreover have "x mod 4096 div 8 < 512" by simp
    ultimately show ?thesis unfolding map_set_iff by (simp add: bit_at_def)
  qed
  then show ?thesis using sample_geom by (auto simp: log_room_def clear_run_def mkfs_super_def)
qed

theorem log_appends_witness:
  "\<exists>s'. disklog 0 (cstr ''ready'') sample_fs = Inr (69, s') \<and> file_byte sample_part s' 130560 66 = of_char CHR ''a'' \<and>
     file_byte sample_part s' 130560 1000 = 0x20"
proof -
  have root: "root_dir sample_fs = Inr 0" "i_dev (inode_table sample_fs 0) = ROOT_DEV" "get_super_block sample_fs ROOT_DEV = Inr sample_sb"
    and b0: "log_blk0 sample_sb = int 130560" and len: "64 \<le> (64 :: nat)" "64 + length (cstr ''ready'') \<le> 511 * SECTOR_SIZE"
    and reach: "reach sample_part (130560 + 511)"
    using geom_sb [OF sample_geom] by (simp_all add: root_dir_def sample_root_def log_blk0_def mkfs_super_def cstr_def sample_reach)
  have at: "64 = (if 0 = (0 :: nat) then 64 else 0 :: nat)" by simp
  obtain s' where s': "disklog 0 (cstr ''ready'') sample_fs = Inr (64 + length (cstr ''ready''), s')"
    "\<And>x. 64 \<le> x \<Longrightarrow> x < 511 * SECTOR_SIZE \<Longrightarrow> file_byte sample_part s' 130560 x =
       (if 64 \<le> x \<and> x < 64 + length (cstr ''ready'') then cstr ''ready'' ! (x - 64) else 0x20)"
    using log_appends [OF root sample_dev b0 reach at len sample_room] by auto
  have "file_byte sample_part s' 130560 66 = of_char CHR ''a''" "file_byte sample_part s' 130560 1000 = 0x20"
    using s'(2) [of 66] s'(2) [of 1000] by (simp_all add: cstr_def)
  then show ?thesis using s'(1) by (intro exI [of _ s']) (simp add: cstr_def)
qed

text \<open>
  The position \<open>p\<close> of the map stands for the sector \<open>p + n_1st_sect - 1\<close>
  (\<open>alloc_smap_bit\<close>).  The first call counts from sector 0 instead: it leaves the
  positions of the first \<open>n_1st_sect - 1\<close> sectors of the log as they are, so that files
  get these sectors.
\<close>

theorem log_start_unreserved:
  assumes "log_room s dv part sb b0" and "log_blk0 sb = int b0" and "reach part (b0 + 511)"
    and "x + unat (n_1st_sect sb) = b0 + k + 1" and "k + 1 < unat (n_1st_sect sb)" and "x < 4096 * unat (nr_smap_sects sb)"
  shows "\<exists>t. first_log dv sb s = Inr t \<and> (x \<in> map_set part t (smap0 sb) \<longleftrightarrow> x \<in> map_set part s (smap0 sb))"
proof -
  obtain t where t: "first_log dv sb s = Inr t" "\<And>x. x < 4096 * unat (nr_smap_sects sb) \<Longrightarrow>
       x \<in> map_set part t (smap0 sb) \<longleftrightarrow> x \<in> map_set part s (smap0 sb) \<or> b0 \<le> x \<and> x < b0 + NR_SECTS_FOR_LOG"
    by (rule log_room_first [OF assms(1-3)], rule that)
  have "x < b0" using assms(4,5) by linarith
  then show ?thesis using t(1) t(2) [OF assms(6)] by auto
qed

theorem log_start_unreserved_witness:
  "\<exists>t. first_log ROOT_DEV sample_sb sample_fs = Inr t \<and> 130269 \<notin> map_set sample_part t 3"
proof -
  have n: "unat (n_1st_sect sample_sb) = 292" "unat (nr_imap_sects sample_sb) = 1" "unat (nr_smap_sects sample_sb) = 33"
    by (simp_all add: mkfs_super_def)
  have "\<exists>t. first_log ROOT_DEV sample_sb sample_fs = Inr t \<and>
      (130269 \<in> map_set sample_part t (smap0 sample_sb) \<longleftrightarrow> 130269 \<in> map_set sample_part sample_fs (smap0 sample_sb))"
    by (rule log_start_unreserved [OF sample_room, of 130269 0]) (simp_all add: log_blk0_def mkfs_super_def sample_reach)
  moreover have "130269 \<notin> map_set sample_part sample_fs 3"
    by (simp add: map_set_iff bit_at_def part_block_def sample_fs_def sample_drive_def sample_part_def)
  ultimately show ?thesis unfolding n by auto
qed

end
