(* ===== verification/FsDump.thy ===== *)
theory FsDump
  imports FsLog FsMap
begin

unbundle bit_operations_syntax

text \<open>
  \<open>dump_fd_graph\<close> of \<open>fs/disklog.c\<close>: the tables of the file system, its maps and its
  root directory as the text of a graph, line by line into the log on the disk.  The
  static \<open>graph_idx\<close> is an argument and a result, and so is the position of the log.
  The array \<open>_buf\<close> keeps a sector while the log uses \<open>fsbuf\<close>.
\<close>

section \<open>Lines\<close>

abbreviation (input) TAB :: string where "TAB \<equiv> [CHR 0x09]"
abbreviation (input) quo :: "string \<Rightarrow> string" where "quo t \<equiv> CHR 0x22 # t @ [CHR 0x22]"

type_synonym lines = "(string \<times> va_arg list) list"
type_synonym log_state = "nat \<times> fs_state"

text \<open>\<open>syslog\<close> in the file system task: formatted and handed to \<open>disklog\<close>.\<close>

definition slog :: "string \<Rightarrow> va_arg list \<Rightarrow> log_state \<Rightarrow> log_state kres" where
  "slog fmt args st =
    rbind (vsprintf fmt args) (\<lambda>t.
    ensure (length t < STR_DEFAULT_LEN) (Bad_access ''buf'') (
    ensure (CHR 0x00 \<notin> set t) (Assertion ''lib/syslog.c'' 43)
      (disklog (fst st) (cstr t) (snd st))))"

fun slogs :: "lines \<Rightarrow> log_state \<Rightarrow> log_state kres" where
  "slogs [] st = Inr st"
| "slogs ((fmt, args) # ls) st = rbind (slog fmt args st) (slogs ls)"

definition ln :: "nat \<Rightarrow> string \<Rightarrow> va_arg list \<Rightarrow> lines" where
  "ln n t args = [(concat (replicate n TAB) @ t @ ''\<newline>'', args)]"

text \<open>What every box of the graph ends with, and the head and tail of a cluster.\<close>

definition box_end :: lines where
  "box_end = ln 1 [CHR 0x22] [] @ ln 3 (''shape = '' @ quo ''record'') [] @ ln 2 ''];'' []"

definition box :: "string \<Rightarrow> va_arg list \<Rightarrow> string \<Rightarrow> va_arg list \<Rightarrow> lines" where
  "box name nargs label largs = ln 2 (quo name @ '' ['') nargs @
     [(concat (replicate 3 TAB) @ ''label = '' @ [CHR 0x22] @ label, largs)] @ box_end"

definition gray :: lines where
  "gray = [(''\<newline>'' @ TAB @ TAB @ ''style=filled;\<newline>'', []), (''\<newline>'' @ TAB @ TAB @ ''color=lightgrey;\<newline>'', [])]"

definition cluster :: "string \<Rightarrow> lines" where
  "cluster n = [(''\<newline>'' @ TAB @ ''subgraph cluster_'' @ n @ '' {\<newline>'', [])]"

definition cluster_end :: "string \<Rightarrow> va_arg list \<Rightarrow> lines" where
  "cluster_end label args = ln 2 (''label = '' @ quo label @ '';'') args @ ln 1 ''}'' []"

definition graph_head :: "int \<Rightarrow> lines" where
  "graph_head idx = ln 0 ''digraph filedesc%02d {'' [VInt idx] @ ln 1 ''graph ['' [] @ ln 2 (''rankdir = '' @ quo ''LR'') [] @
     ln 1 ''];'' [] @ ln 1 ''node ['' [] @ ln 2 (''fontsize = '' @ quo ''16'') [] @ ln 2 (''shape = '' @ quo ''ellipse'') [] @
     ln 1 ''];'' [] @ ln 1 ''edge ['' [] @ ln 1 ''];'' []"

section \<open>Processes, descriptors, inodes\<close>

text \<open>
  The names of the states; the other elements of the array \<open>proc_flags\<close> are not set,
  and it ends at 31.
\<close>

definition flag_text :: "u32 \<Rightarrow> string kres" where
  "flag_text f = (if f = 0 then Inr ''RUNNING'' else if f = 2 then Inr ''SENDING'' else if f = 4 then Inr ''RECEIVING''
     else if f = 8 then Inr ''WAITING'' else if f = 0x10 then Inr ''FREE_SLOT'' else Inl (Bad_access ''proc_flags''))"

text \<open>The file slots of a process: steps left, \<open>k\<close>, \<open>fnr\<close>; the lines and the entries of \<open>pfm\<close>.\<close>

fun proc_slots :: "(nat \<Rightarrow> nat option) \<Rightarrow> nat \<Rightarrow> nat \<Rightarrow> nat \<Rightarrow> nat \<Rightarrow> lines \<times> (nat \<times> nat \<times> nat) list" where
  "proc_slots fl i 0 k fnr = ([], [])"
| "proc_slots fl i (Suc n) k fnr =
    (case fl k of
       None \<Rightarrow> proc_slots fl i n (Suc k) fnr
     | Some d \<Rightarrow>
         (case proc_slots fl i n (Suc k) (Suc fnr) of (ls, m) \<Rightarrow>
            ((TAB @ ''|<f%d> filp[%d]: %d'', [VInt (int fnr), VInt (int k), VInt (int d)]) # ls, (i, fnr, d) # m)))"

text \<open>The processes that have files open: steps left, \<open>i\<close>.\<close>

fun proc_boxes :: "proctab \<Rightarrow> nat \<Rightarrow> nat \<Rightarrow> (lines \<times> (nat \<times> nat \<times> nat) list) kres" where
  "proc_boxes pt 0 i = Inr ([], [])"
| "proc_boxes pt (Suc n) i =
    (if \<forall>k < NR_FILES. filp (pt i) k = None then proc_boxes pt n (Suc i)
     else rbind (flag_text (p_flags (pt i))) (\<lambda>f.
       rbind (proc_boxes pt n (Suc i)) (\<lambda>(ls, m).
       case proc_slots (filp (pt i)) i NR_FILES 0 3 of (sl, sm) \<Rightarrow>
       Inr (ln 2 (quo ''proc%d'' @ '' ['') [VInt (int i)] @
            [(concat (replicate 3 TAB) @ ''label = '' @ [CHR 0x22] @ ''<f0>%s (%d) |<f1> p_flags:%d(%s)'',
              [VStr (p_name (pt i)), VInt (int i), VInt (sint (p_flags (pt i))), VStr f])] @
            sl @ box_end @ ls, sm @ m))))"

definition desc_box :: "fs_state \<Rightarrow> nat \<Rightarrow> lines" where
  "desc_box s i = (case fd_inode (f_desc_table s i) of
     None \<Rightarrow> []
   | Some n \<Rightarrow> box ''filedesc%d'' [VInt (int i)] ''<f0>filedesc %d|<f1> fd_mode:%d|<f2> fd_pos:%d|<f4> fd_inode:%d''
       [VInt (int i), VInt (fd_mode (f_desc_table s i)), VInt (fd_pos (f_desc_table s i)), VInt (int n)])"

definition inode_box :: "fs_state \<Rightarrow> nat \<Rightarrow> lines" where
  "inode_box s i = (let n = inode_table s i in
     if i_cnt n = 0 then []
     else box ''inode%d'' [VInt (int i)]
       ''<f0>inode %d|<f1> i_mode:0x%x|<f2> i_size:0x%x|<f3> i_start_sect:0x%x|<f4> i_nr_sects:0x%x|<f5> i_dev:0x%x|<f6> i_cnt:%d|<f7> i_num:%d''
       [VInt (i_num n), VInt (sint (i_mode n)), VInt (sint (i_size n)), VInt (sint (i_start_sect n)), VInt (sint (i_nr_sects n)),
        VInt (i_dev n), VInt (i_cnt n), VInt (i_num n)])"

section \<open>The maps\<close>

text \<open>
  The runs of 1 bits of the sector map.  The bits of a byte: steps left, \<open>k\<close>, the
  byte, its first position; \<open>smap_flag\<close> and \<open>bit_start\<close>.
\<close>

fun run_bits :: "nat \<Rightarrow> nat \<Rightarrow> u8 \<Rightarrow> nat \<Rightarrow> bool \<times> nat \<Rightarrow> (nat \<times> nat) list \<times> bool \<times> nat" where
  "run_bits 0 k b x0 st = ([], st)"
| "run_bits (Suc n) k b x0 (flag, bit_start) =
    (if \<not> flag then run_bits n (Suc k) b x0 (if bit b k then (True, x0 + k) else (flag, bit_start))
     else if bit b k then run_bits n (Suc k) b x0 (flag, bit_start)
     else case run_bits n (Suc k) b x0 (False, bit_start) of (rs, st) \<Rightarrow> ((bit_start, x0 + k - 1) # rs, st))"

text \<open>The bytes of sector \<open>i\<close>: steps left, \<open>j\<close>.\<close>

fun run_bytes :: "nat \<Rightarrow> nat \<Rightarrow> nat \<Rightarrow> (nat \<Rightarrow> u8) \<Rightarrow> bool \<times> nat \<Rightarrow> (nat \<times> nat) list \<times> bool \<times> nat" where
  "run_bytes i 0 j buf st = ([], st)"
| "run_bytes i (Suc n) j buf st =
    (case run_bits 8 0 (buf j) ((i * SECTOR_SIZE + j) * 8) st of (rs, st1) \<Rightarrow>
     case run_bytes i n (Suc j) buf st1 of (rs', st2) \<Rightarrow> (rs @ rs', st2))"

definition run_box :: "nat \<times> nat \<Rightarrow> lines" where
  "run_box r = box ''sector %xh'' [VInt (int (fst r))] ''<f0>sect %xh-%xh'' [VInt (int (fst r)), VInt (int (snd r))]"

text \<open>The sectors of the map: steps left, \<open>i\<close>.\<close>

fun dump_smap :: "int \<Rightarrow> int \<Rightarrow> nat \<Rightarrow> nat \<Rightarrow> bool \<times> nat \<Rightarrow> log_state \<Rightarrow> log_state kres" where
  "dump_smap dv blk0 0 i st ps = Inr ps"
| "dump_smap dv blk0 (Suc n) i st (pos, s) =
    rbind (RD_SECT s dv (blk0 + int i)) (\<lambda>s1.
    case run_bytes i SECTOR_SIZE 0 (fsbuf s1) st of (rs, st1) \<Rightarrow>
    rbind (slogs (concat (map run_box rs)) (pos, s1)) (dump_smap dv blk0 n (Suc i) st1))"

text \<open>The bits of the inode map that are set.\<close>

definition set_bits :: "nat \<Rightarrow> (nat \<Rightarrow> u8) \<Rightarrow> nat list" where
  "set_bits i buf = map (\<lambda>x. i * SECTOR_SIZE * 8 + x) (filter (bit_at buf) [0..<SECTOR_SIZE * 8])"

fun dump_imap :: "int \<Rightarrow> nat \<Rightarrow> nat \<Rightarrow> log_state \<Rightarrow> log_state kres" where
  "dump_imap dv 0 i ps = Inr ps"
| "dump_imap dv (Suc n) i (pos, s) =
    rbind (RD_SECT s dv (2 + int i)) (\<lambda>s1.
    rbind (slogs (map (\<lambda>x. (''| %xh '', [VInt (int x)])) (set_bits i (fsbuf s1))) (pos, s1)) (dump_imap dv n (Suc i)))"

section \<open>The inode array and the root directory\<close>

text \<open>
  The first sector of the inode array.  The loop counts in the inodes of the memory,
  of 44 bytes, and so stops after 11 of the 16 inodes of the sector.
\<close>

abbreviation (input) SIZEOF_INODE :: nat where "SIZEOF_INODE \<equiv> 44"

fun array_boxes :: "super_block \<Rightarrow> (nat \<Rightarrow> u8) \<Rightarrow> nat \<Rightarrow> nat \<Rightarrow> lines kres" where
  "array_boxes sb b 0 i = Inr []"
| "array_boxes sb b (Suc n) i =
    (let p = load_inode b (i * INODE_SIZE) zero_inode in
     if i_start_sect p = 0 then array_boxes sb b n (Suc i)
     else if i_nr_sects p \<noteq> 0 then
       (if i_start_sect p < n_1st_sect sb then Inl (Panic ''should not happen: %x < %x.'')
        else let start_sect = i_start_sect p - n_1st_sect sb + 1; end_sect = start_sect + i_nr_sects p - 1 in
          rbind (array_boxes sb b n (Suc i)) (\<lambda>ls.
          Inr (box ''inodearray%d'' [VInt (int i + 1)] ''<f0> %d|<f2> i_size:0x%x|<f3> sect: %xh-%xh''
             [VInt (int i + 1), VInt (sint (i_size p)), VInt (sint start_sect), VInt (sint end_sect)] @ ls)))
     else rbind (array_boxes sb b n (Suc i)) (\<lambda>ls.
          Inr (box ''inodearray%d'' [VInt (int i + 1)] ''<f0> %d|<f2> i_size:0x%x|<f3> dev nr: (%xh,%xh)''
             [VInt (int i + 1), VInt (sint (i_size p)), VInt (MAJOR (sint (i_start_sect p))), VInt (MINOR (sint (i_start_sect p)))] @ ls)))"

text \<open>
  The name of an entry in \<open>filename\<close>, whose last element is never set: a name of 12
  characters has no end.
\<close>

definition entry_text :: "(nat \<Rightarrow> u8) \<Rightarrow> nat \<Rightarrow> string kres" where
  "entry_text b j =
    (let name = de_name b j; name' = (if hd name = 0x2E then 0x2F # tl name else name) in
     ensure (0 \<in> set name') (Bad_access ''filename'')
       (Inr (map (\<lambda>c. char_of (uint c)) (takeWhile (\<lambda>c. c \<noteq> 0) name'))))"

fun dirent_boxes :: "(nat \<Rightarrow> u8) \<Rightarrow> nat \<Rightarrow> nat \<Rightarrow> lines kres" where
  "dirent_boxes b 0 j = Inr []"
| "dirent_boxes b (Suc n) j =
    (if de_inode b j = 0 then dirent_boxes b n (Suc j)
     else rbind (entry_text b j) (\<lambda>t.
       rbind (dirent_boxes b n (Suc j)) (\<lambda>ls.
       Inr (box ''rootdirent%d'' [VInt (de_inode b j)] ''<f0> %d|<f2> %s'' [VInt (de_inode b j), VStr t] @
            ln 1 (quo ''inodearray%d'' @ '':f0 -> '' @ quo ''rootdirent%d'' @ '':f0;'') [VInt (de_inode b j), VInt (de_inode b j)] @ ls))))"

text \<open>The blocks of the directory: steps left, \<open>i\<close>.  The counter \<open>m\<close> stays 0, so all entries of all blocks are shown.\<close>

fun dump_dir :: "int \<Rightarrow> int \<Rightarrow> nat \<Rightarrow> nat \<Rightarrow> log_state \<Rightarrow> log_state kres" where
  "dump_dir dv blk0 0 i ps = Inr ps"
| "dump_dir dv blk0 (Suc n) i (pos, s) =
    rbind (RD_SECT s dv (blk0 + int i)) (\<lambda>s1.
    rbind (dirent_boxes (fsbuf s1) DE_PER_SECT 0) (\<lambda>ls.
    rbind (slogs ls (pos, s1)) (dump_dir dv blk0 n (Suc i))))"

section \<open>The edges and the whole\<close>

definition edges :: "fs_state \<Rightarrow> (nat \<times> nat \<times> nat) list \<Rightarrow> lines" where
  "edges s pfm =
     concat (map (\<lambda>(pid, fnr, d). ln 1 (quo ''proc%d'' @ '':f%d -> '' @ quo ''filedesc%d'' @ '':f0;'')
       [VInt (int pid), VInt (int fnr), VInt (int d)]) pfm) @
     concat (map (\<lambda>d. case fd_inode (f_desc_table s d) of None \<Rightarrow> []
       | Some n \<Rightarrow> ln 1 (quo ''filedesc%d'' @ '':f4 -> '' @ quo ''inode%d'' @ '':f6;'') [VInt (int d), VInt (int n)]) [0..<NR_FILE_DESC]) @
     concat (map (\<lambda>i. if i_cnt (inode_table s i) = 0 then []
       else ln 1 (quo ''inode%d'' @ '':f7 -> '' @ quo ''inodearray%d'' @ '':f0;'') [VInt (int i), VInt (i_num (inode_table s i))]) [0..<NR_INODE])"

text \<open>The clusters 0 to 2 come from the tables in memory.\<close>

definition dump_tables :: "int \<Rightarrow> log_state \<Rightarrow> ((nat \<times> nat \<times> nat) list \<times> log_state) kres" where
  "dump_tables graph_idx ps =
    (let s = snd ps in
     rbind (proc_boxes (fprocs s) NPROC 0) (\<lambda>(pl, pfm).
     ensure (length pfm \<le> 256) (Bad_access ''pfm'') (
     rbind (slogs (graph_head graph_idx @ cluster ''0'' @ pl @ cluster_end ''procs'' [] @
       cluster ''1'' @ concat (map (desc_box s) [0..<NR_FILE_DESC]) @ cluster_end ''filedescs'' [] @
       cluster ''2'' @ concat (map (inode_box s) [0..<NR_INODE]) @ cluster_end ''inodes'' []) ps) (\<lambda>ps1.
     Inr (pfm, ps1)))))"

text \<open>The clusters 3 to 6 come from the disk.\<close>

definition dump_maps :: "int \<Rightarrow> super_block \<Rightarrow> log_state \<Rightarrow> log_state kres" where
  "dump_maps dv sb ps =
    rbind (slogs (cluster ''3'' @ gray) ps) (\<lambda>ps1.
    rbind (dump_smap dv (sint (1 + 1 + nr_imap_sects sb)) (unat (nr_smap_sects sb)) 0 (False, 0) ps1) (\<lambda>ps2.
    rbind (slogs (cluster_end ''sector map (dev size: %xh)'' [VInt (sint (sb_nr_sects sb))] @ cluster ''4'' @ gray @
      ln 2 (quo ''imap'' @ '' ['') [] @ [(concat (replicate 3 TAB) @ ''label = '' @ [CHR 0x22] @ ''<f0>bits'', [])]) ps2) (\<lambda>ps3.
    rbind (dump_imap dv (unat (nr_imap_sects sb)) 0 ps3) (\<lambda>ps4.
    slogs (box_end @ cluster_end ''inode map'' []) ps4))))"

definition dump_inodes :: "int \<Rightarrow> super_block \<Rightarrow> log_state \<Rightarrow> log_state kres" where
  "dump_inodes dv sb ps =
    rbind (slogs (cluster ''5'' @ gray) ps) (\<lambda>(pos, s).
    rbind (RD_SECT s dv (sint (1 + 1 + nr_imap_sects sb + nr_smap_sects sb))) (\<lambda>s1.
    rbind (array_boxes sb (fsbuf s1) (SECTOR_SIZE div SIZEOF_INODE) 0) (\<lambda>ls.
    slogs (ls @ cluster_end ''inode array'' []) (pos, s1))))"

definition dump_root :: "nat \<Rightarrow> log_state \<Rightarrow> log_state kres" where
  "dump_root r ps =
    (let d = inode_table (snd ps) r in
     rbind (slogs (cluster ''6'' @ gray) ps) (\<lambda>ps1.
     rbind (dump_dir (i_dev d) (sint (i_start_sect d)) (unat ((i_size d + SECTOR_SIZE - 1) div SECTOR_SIZE)) 0 ps1) (\<lambda>ps2.
     slogs (cluster_end ''root dir'' []) ps2)))"

text \<open>The new \<open>graph_idx\<close>, what \<open>printl\<close> shows at the end, and the new log.\<close>

definition dump_fd_graph :: "string \<Rightarrow> va_arg list \<Rightarrow> int \<Rightarrow> log_state \<Rightarrow> (int \<times> string \<times> log_state) kres" where
  "dump_fd_graph fmt args graph_idx ps =
    rbind (vsprintf fmt args) (\<lambda>title.
    ensure (length title < STR_DEFAULT_LEN) (Bad_access ''title'') (
    ensure (CHR 0x00 \<notin> set title) (ADL 187) (
    rbind (dump_tables graph_idx ps) (\<lambda>(pfm, ps1).
    rbind (root_dir (snd ps1)) (\<lambda>r.
    let dv = i_dev (inode_table (snd ps1) r) in
    rbind (get_super_block (snd ps1) dv) (\<lambda>sb.
    rbind (dump_maps dv sb ps1) (\<lambda>ps2.
    rbind (dump_inodes dv sb ps2) (\<lambda>ps3.
    rbind (dump_root r ps3) (\<lambda>ps4.
    rbind (slogs (edges (snd ps4) pfm @ ln 1 (''label = '' @ quo ''%s'' @ '';'') [VStr title] @ ln 0 ''}'' [] @
      ln 0 ''--separator--'' []) ps4) (\<lambda>ps5.
    rbind (vsprintf ''dump_fd_graph(%s)::logpos:%d\<newline>'' [VStr title, VInt (int (fst ps5))]) (\<lambda>t.
    Inr (cint (graph_idx + 1), t, ps5))))))))))))"

end
