(* ===== verification/FsDumpProps.thy ===== *)
theory FsDumpProps
  imports FsDump FsAllocProps
begin

text \<open>
  The property of the graph of the file system: the runs of the sector map it shows.
\<close>

section \<open>The runs of the sector map\<close>

text \<open>The scan of a map as one loop: steps left, position.\<close>

fun scan_runs :: "(nat \<Rightarrow> bool) \<Rightarrow> nat \<Rightarrow> nat \<Rightarrow> bool \<times> nat \<Rightarrow> (nat \<times> nat) list \<times> bool \<times> nat" where
  "scan_runs f 0 x st = ([], st)"
| "scan_runs f (Suc n) x (flag, start) =
    (if flag = f x then scan_runs f n (Suc x) (flag, start)
     else if f x then scan_runs f n (Suc x) (True, x)
     else case scan_runs f n (Suc x) (False, start) of (rs, st) \<Rightarrow> ((start, x - 1) # rs, st))"

lemma scan_runs_add: "scan_runs f (n + m) x st =
  (case scan_runs f n x st of (rs, st1) \<Rightarrow> case scan_runs f m (x + n) st1 of (rs', st2) \<Rightarrow> (rs @ rs', st2))"
  by (induction f n x st rule: scan_runs.induct) (auto split: prod.splits)

lemma run_bits_scan: "(\<And>i. k \<le> i \<Longrightarrow> i < k + n \<Longrightarrow> f (x0 + i) = bit b i) \<Longrightarrow> run_bits n k b x0 st = scan_runs f n (x0 + k) st"
proof (induction n k b x0 st rule: run_bits.induct)
  case (2 n k b x0 flag start)
  have "f (x0 + k) = bit b k" using "2.prems" [of k] by simp
  then show ?case using "2.prems" "2.IH" by (auto split: prod.splits)
qed simp

lemma run_bytes_scan: "(\<And>x. x div 4096 = i \<Longrightarrow> f x = bit_at buf (x mod 4096)) \<Longrightarrow> j + n \<le> 512 \<Longrightarrow>
  run_bytes i n j buf st = scan_runs f (8 * n) (i * 4096 + 8 * j) st"
proof (induction i n j buf st rule: run_bytes.induct)
  case (2 i n j buf st)
  have "f ((i * 512 + j) * 8 + k) = bit (buf j) k" if "k < 8" for k
  proof -
    have d: "(i * 512 + j) * 8 + k = i * 4096 + (8 * j + k)" by simp
    have "8 * j + k < 4096" using "2.prems"(2) that by simp
    then have "f (i * 4096 + (8 * j + k)) = bit_at buf (8 * j + k)" using "2.prems"(1) [of "i * 4096 + (8 * j + k)"] by simp
    then show ?thesis unfolding d using bit_at_byte [OF that, of buf j] by simp
  qed
  then have b: "run_bits 8 0 (buf j) ((i * 512 + j) * 8) st = scan_runs f 8 (i * 4096 + 8 * j) st"
    using run_bits_scan [of 0 8 f "(i * 512 + j) * 8" "buf j" st] by (simp add: algebra_simps)
  obtain rs st1 where r: "run_bits 8 0 (buf j) ((i * 512 + j) * 8) st = (rs, st1)"
    by (cases "run_bits 8 0 (buf j) ((i * 512 + j) * 8) st")
  have ih: "run_bytes i n (Suc j) buf st1 = scan_runs f (8 * n) (i * 4096 + 8 * Suc j) st1"
    by (rule "2.IH" [OF r [symmetric]]) (use "2.prems" in auto)
  have e: "8 * Suc n = 8 + 8 * n" "i * 4096 + 8 * j + 8 = i * 4096 + 8 * Suc j" by simp_all
  have r': "scan_runs f 8 (i * 4096 + 8 * j) st = (rs, st1)" using b r by simp
  show ?case unfolding e(1) scan_runs_add e(2) r' run_bytes.simps by (simp only: r ih prod.case)
qed simp

text \<open>What the scan knows before position \<open>x\<close>: whether it is inside a run, and from where.\<close>

definition carry :: "(nat \<Rightarrow> bool) \<Rightarrow> nat \<Rightarrow> bool \<times> nat \<Rightarrow> bool" where
  "carry f x st \<longleftrightarrow> fst st = (0 < x \<and> f (x - 1)) \<and>
     (fst st \<longrightarrow> snd st < x \<and> (\<forall>y. snd st \<le> y \<and> y < x \<longrightarrow> f y) \<and> (snd st = 0 \<or> \<not> f (snd st - 1)))"

text \<open>A maximal run from \<open>a\<close> to \<open>b\<close>, with an end.\<close>

definition full_run :: "(nat \<Rightarrow> bool) \<Rightarrow> nat \<times> nat \<Rightarrow> bool" where
  "full_run f r \<longleftrightarrow> fst r \<le> snd r \<and> (\<forall>y. fst r \<le> y \<and> y \<le> snd r \<longrightarrow> f y) \<and> \<not> f (snd r + 1) \<and> (fst r = 0 \<or> \<not> f (fst r - 1))"

lemma full_run_unique: "full_run f (a, b) \<Longrightarrow> full_run f (a', b) \<Longrightarrow> a = a'"
proof (rule ccontr)
  assume r: "full_run f (a, b)" "full_run f (a', b)" "a \<noteq> a'"
  then have "a < a' \<or> a' < a" using nat_neq_iff by blast
  then show False
  proof
    assume "a < a'"
    then have "a \<le> a' - 1 \<and> a' - 1 \<le> b" "a' \<noteq> 0" using r by (auto simp: full_run_def)
    then show False using r by (auto simp: full_run_def)
  next
    assume "a' < a"
    then have "a' \<le> a - 1 \<and> a - 1 \<le> b" "a \<noteq> 0" using r by (auto simp: full_run_def)
    then show False using r by (auto simp: full_run_def)
  qed
qed

lemma scan_runs_spec: "carry f x st \<Longrightarrow> scan_runs f n x st = (rs, st') \<Longrightarrow>
  carry f (x + n) st' \<and> set rs = {r. full_run f r \<and> x \<le> snd r + 1 \<and> snd r + 1 < x + n}"
proof (induction f n x st arbitrary: rs rule: scan_runs.induct)
  case (2 f n x flag start)
  have step: "{r. full_run f r \<and> x \<le> snd r + 1 \<and> snd r + 1 < x + Suc n} =
    {r. full_run f r \<and> snd r + 1 = x} \<union> {r. full_run f r \<and> Suc x \<le> snd r + 1 \<and> snd r + 1 < Suc x + n}" by auto
  consider "flag = f x" | "\<not> flag" "f x" | "flag" "\<not> f x" by blast
  then show ?case
  proof cases
    case 1
    have "carry f (Suc x) (flag, start)"
      using "2.prems"(1) 1 by (cases "f x") (auto simp: carry_def less_Suc_eq)
    moreover have none: "{r. full_run f r \<and> snd r + 1 = x} = {}"
      using "2.prems"(1) 1 by (auto simp: carry_def full_run_def)
    ultimately show ?thesis using "2.IH"(1) [OF 1] "2.prems"(2) 1 unfolding step none by simp
  next
    case 2
    have "carry f (Suc x) (True, x)" using "2.prems"(1) 2 by (auto simp: carry_def less_Suc_eq)
    moreover have none: "{r. full_run f r \<and> snd r + 1 = x} = {}" using 2 by (auto simp: full_run_def)
    ultimately show ?thesis using "2.IH"(2) "2.prems"(2) 2 unfolding step none by simp
  next
    case 3
    have c: "carry f (Suc x) (False, start)" using 3 by (auto simp: carry_def)
    have r: "full_run f (start, x - 1)" "0 < x" using "2.prems"(1) 3 by (auto simp: carry_def full_run_def)
    have one: "{r. full_run f r \<and> snd r + 1 = x} = {(start, x - 1)}"
    proof (rule set_eqI)
      fix q :: "nat \<times> nat" obtain a b where q: "q = (a, b)" by (cases q)
      have "b + 1 = x \<longleftrightarrow> b = x - 1" using r(2) by linarith
      then show "q \<in> {r. full_run f r \<and> snd r + 1 = x} \<longleftrightarrow> q \<in> {(start, x - 1)}"
        using r(1) full_run_unique [of f a "x - 1" start] unfolding q by auto
    qed
    obtain rs1 where s: "scan_runs f n (Suc x) (False, start) = (rs1, st')" "rs = (start, x - 1) # rs1"
      using "2.prems"(2) 3 by (auto split: prod.splits)
    show ?thesis using "2.IH"(3) [OF _ _ c s(1)] 3 s(2) unfolding step one by simp
  qed
qed auto

text \<open>
  C39: the scan of a sector of the map finds exactly the maximal runs of used
  sectors that end in it, with their first and last positions, and hands over to
  the next sector whether it is inside a run and where that began.
\<close>

theorem sector_map_runs:
  assumes "carry f (i * 4096) st" and "\<forall>x. x div 4096 = i \<longrightarrow> f x = bit_at buf (x mod 4096)"
    and "run_bytes i SECTOR_SIZE 0 buf st = (rs, st')"
  shows "carry f (Suc i * 4096) st' \<and> set rs = {r. full_run f r \<and> i * 4096 \<le> snd r + 1 \<and> snd r + 1 < Suc i * 4096}"
proof -
  have "run_bytes i 512 0 buf st = scan_runs f (8 * 512) (i * 4096 + 8 * 0) st"
    by (rule run_bytes_scan) (use assms(2) in simp_all)
  then have s: "scan_runs f 4096 (i * 4096) st = (rs, st')" using assms(3) by simp
  have "i * 4096 + 4096 = Suc i * 4096" by simp
  then show ?thesis using scan_runs_spec [OF assms(1) s] by (simp only:)
qed

theorem sector_map_runs_witness:
  "\<exists>rs st'. run_bytes 0 SECTOR_SIZE 0 (\<lambda>j. if j = 1 then 0x83 else 0) (False, 0) = (rs, st') \<and> set rs = {(8, 9), (15, 15)}"
proof -
  let ?b = "\<lambda>j :: nat. if j = 1 then 0x83 else 0 :: u8" let ?f = "\<lambda>x. x < 4096 \<and> bit_at ?b x"
  have f: "?f x \<longleftrightarrow> x = 8 \<or> x = 9 \<or> x = 15" for x
  proof (cases "x div 8 = 1")
    case True
    then have "x = 8 + x mod 8" using div_mult_mod_eq [of x 8] by simp
    then show ?thesis using True bits_83 [of "x mod 8"] by (auto simp: bit_at_def)
  next
    case False
    then show ?thesis by (auto simp: bit_at_def)
  qed
  obtain rs st' where r: "run_bytes 0 SECTOR_SIZE 0 ?b (False, 0) = (rs, st')"
    by (cases "run_bytes 0 SECTOR_SIZE 0 ?b (False, 0)")
  have "carry ?f (0 * 4096) (False, 0)" by (simp add: carry_def)
  moreover have "\<forall>x. x div 4096 = 0 \<longrightarrow> ?f x = bit_at ?b (x mod 4096)" by (simp add: div_eq_0_iff)
  ultimately have "set rs = {r. full_run ?f r \<and> 0 * 4096 \<le> snd r + 1 \<and> snd r + 1 < Suc 0 * 4096}"
    using sector_map_runs [OF _ _ r] by blast
  also have "\<dots> = {(8, 9), (15, 15)}"
  proof (rule set_eqI)
    fix q :: "nat \<times> nat" obtain a b where q: "q = (a, b)" by (cases q)
    have "full_run ?f (8, 9)" "full_run ?f (15, 15)" unfolding full_run_def f by auto
    moreover have "b = 9 \<or> b = 15" if "full_run ?f (a, b)" using that unfolding full_run_def f by auto
    ultimately show "q \<in> {r. full_run ?f r \<and> 0 * 4096 \<le> snd r + 1 \<and> snd r + 1 < Suc 0 * 4096} \<longleftrightarrow> q \<in> {(8, 9), (15, 15)}"
      using full_run_unique unfolding q by auto
  qed
  finally show ?thesis using r by blast
qed

end
