(* ===== verification/FsMkfs.thy ===== *)
theory FsMkfs
  imports FsCreate
begin

unbundle bit_operations_syntax

text \<open>
  What \<open>mkfs\<close> leaves on the disk: the super block, the two maps, the inode array and
  the root directory, and that \<open>init_fs\<close> then starts from a file system in which
  files can be opened and created.
\<close>

section \<open>Writing a block\<close>

definition put_blk :: "part_info \<Rightarrow> nat \<Rightarrow> (nat \<Rightarrow> u8) \<Rightarrow> fs_state \<Rightarrow> fs_state" where
  "put_blk part n f s = write_blk part n (s\<lparr>fsbuf := f\<rparr>)"

lemma put_blk_same: "same_fs s (put_blk part n f s)"
  unfolding put_blk_def by (rule same_fs_trans [OF same_fs_rw(4) same_fs_rw(2)])

lemma blk_put: "i < SECTOR_SIZE \<Longrightarrow> blk part (put_blk part n f s) n' i = (if n' = n then f i else blk part s n' i)"
  by (simp add: put_blk_def blk_write)

lemma fsbuf_put [simp]: "fsbuf (put_blk part n f s) = f"
  by (simp add: put_blk_def)

lemma set_fill: "set_buf h (fill_buf c s) = s\<lparr>fsbuf := h (blit (fsbuf s) 0 (\<lambda>_. c) SECTOR_SIZE)\<rparr>"
  by (simp add: set_buf_def fill_buf_def)

lemma WR_put: "fs_dev s dev part \<Longrightarrow> reach part n \<Longrightarrow> WR_SECT (s\<lparr>fsbuf := f\<rparr>) dev (int n) = Inr (put_blk part n f s)"
  unfolding put_blk_def by (rule WR_SECT_eq) simp_all

lemma WR_U_put:
  "fs_dev s dev part \<Longrightarrow> reach part n \<Longrightarrow> unat v = n \<Longrightarrow> WR_SECT_U (s\<lparr>fsbuf := f\<rparr>) dev v = Inr (put_blk part n f s)"
  unfolding put_blk_def by (rule WR_SECT_U_eq) simp_all

text \<open>A sector of the map, as the code computes its number.\<close>

lemma map_sect_u:
  assumes "reach part (smap0 sb + q)"
  shows "unat (2 + nr_imap_sects sb + word_of_nat q) = smap0 sb + q"
proof -
  have "smap0 sb + q < 2 ^ 22" using assms by (simp add: reach_def)
  moreover have "2 + nr_imap_sects sb + word_of_nat q = (word_of_nat (smap0 sb + q) :: u32)" by simp
  ultimately show ?thesis by (simp only: unat_of_nat) (simp add: take_bit_nat_eq_self)
qed

section \<open>The sector map\<close>

text \<open>The sectors behind the first are written with what the buffer holds.\<close>

lemma zero_smap_eq:
  assumes "\<forall>k < i + n. reach part (smap0 sb + k)"
  shows "fs_dev s ROOT_DEV part \<Longrightarrow> \<exists>s'. zero_smap sb n i s = Inr s' \<and> fsbuf s' = fsbuf s \<and>
    only_map part s s' (smap0 sb + i) (smap0 sb + i + n) \<and>
    (\<forall>k j. i \<le> k \<longrightarrow> k < i + n \<longrightarrow> j < SECTOR_SIZE \<longrightarrow> blk part s' (smap0 sb + k) j = fsbuf s j)"
  using assms
proof (induction n arbitrary: i s)
  case 0
  then show ?case using same_fs_refl by (simp add: only_map_def)
next
  case (Suc n)
  have r: "reach part (smap0 sb + i)" using Suc.prems(2) by simp
  let ?t = "write_blk part (smap0 sb + i) s"
  have w: "WR_SECT_U s ROOT_DEV (2 + nr_imap_sects sb + word_of_nat i) = Inr ?t"
    by (rule WR_SECT_U_eq [OF Suc.prems(1) r map_sect_u [OF r]])
  have rs: "\<forall>k < Suc i + n. reach part (smap0 sb + k)" using Suc.prems(2) by simp
  obtain s' where s': "zero_smap sb n (Suc i) ?t = Inr s'" "fsbuf s' = fsbuf s"
    and om: "only_map part ?t s' (smap0 sb + Suc i) (smap0 sb + Suc i + n)"
    and z: "\<And>k j. Suc i \<le> k \<Longrightarrow> k < Suc i + n \<Longrightarrow> j < SECTOR_SIZE \<Longrightarrow> blk part s' (smap0 sb + k) j = fsbuf s j"
    using Suc.IH [OF _ rs, of ?t] Suc.prems(1) by auto
  have om1: "only_map part s s' (smap0 sb + i) (smap0 sb + i + Suc n)"
    using om same_fs_trans [OF same_fs_rw(2)] by (auto simp: only_map_def blk_write)
  have "blk part s' (smap0 sb + k) j = fsbuf s j" if "i \<le> k" "k < i + Suc n" "j < SECTOR_SIZE" for k j
  proof (cases "k = i")
    case True
    then show ?thesis using only_map_blk [OF om, of "smap0 sb + i" j] that(3) by (simp add: blk_write)
  next
    case False
    then show ?thesis using z that by simp
  qed
  then show ?case using w s' om1 by auto
qed

text \<open>Setting one bit of the buffer.\<close>

lemma overlay_set:
  assumes "off < 4096"
  shows "overlay part (s\<lparr>fsbuf := (fsbuf s)(off div 8 := fsbuf s (off div 8) OR push_bit (off mod 8) 1)\<rparr>) b0 q =
    insert (4096 * q + off) (overlay part s b0 q)"
proof (rule set_eqI)
  fix x
  have i: "off div 8 < 512" using assms by (simp add: less_mult_imp_div_less)
  have old: "bit (fsbuf s (off div 8)) (x mod 8) = (x \<in> overlay part s b0 q)" if "x div 8 = 512 * q + off div 8"
  proof -
    have "x div 4096 = q" "x mod 4096 div 8 = off div 8" using byte_of [OF i] that by blast+
    then show ?thesis by (simp add: overlay_def bit_at_def sector_bit(3))
  qed
  have e: "4096 * q + off = 8 * (512 * q + off div 8) + off mod 8" by simp
  have pos: "x = 4096 * q + off \<longleftrightarrow> x div 8 = 512 * q + off div 8 \<and> x mod 8 = off mod 8"
    unfolding e by (rule div_mod_iff) simp
  have "bit (push_bit (off mod 8) 1 :: u8) (x mod 8) \<longleftrightarrow> x mod 8 = off mod 8" by (auto simp: bit_simps)
  then show "x \<in> overlay part (s\<lparr>fsbuf := (fsbuf s)(off div 8 := fsbuf s (off div 8) OR push_bit (off mod 8) 1)\<rparr>) b0 q \<longleftrightarrow>
      x \<in> insert (4096 * q + off) (overlay part s b0 q)"
    unfolding overlay_upd [OF i] insert_iff pos using old by (auto simp: bit_or_iff)
qed

lemma mark_tar_eq:
  assumes r: "\<forall>k < hi. reach part (smap0 sb + k)"
  shows "fs_dev s ROOT_DEV part \<Longrightarrow> off < 4096 \<Longrightarrow> 4096 * q + off + n < 4096 * hi \<Longrightarrow>
    \<exists>q' s'. mark_tar sb n off (word_of_nat q) s = Inr (word_of_nat q', s') \<and> q' < hi \<and>
      overlay part s' (smap0 sb) q' = overlay part s (smap0 sb) q \<union> {4096 * q + off..<4096 * q + off + n} \<and>
      only_map part s s' (smap0 sb) (smap0 sb + hi)"
proof (induction n arbitrary: off q s)
  case 0
  then have "q < hi" by simp
  then show ?case using only_map_refl by auto
next
  case (Suc n)
  let ?t = "s\<lparr>fsbuf := (fsbuf s)(off div 8 := fsbuf s (off div 8) OR push_bit (off mod 8) 1)\<rparr>"
  have sb: "set_buf (\<lambda>b. b(off div 8 := b (off div 8) OR push_bit (off mod 8) 1)) s = ?t" by (simp add: set_buf_def)
  have ov: "overlay part ?t (smap0 sb) q = insert (4096 * q + off) (overlay part s (smap0 sb) q)"
    by (rule overlay_set [OF Suc.prems(2)])
  have dt: "fs_dev ?t ROOT_DEV part" using Suc.prems(1) by simp
  have run: "{4096 * q + off..<4096 * q + off + Suc n} = insert (4096 * q + off) {4096 * q + (off + 1)..<4096 * q + (off + 1) + n}"
    by auto
  show ?case
  proof (cases "off + 1 = 4096")
    case False
    have "off + 1 < 4096" "4096 * q + (off + 1) + n < 4096 * hi" using False Suc.prems(2,3) by auto
    from Suc.IH [OF dt this] obtain q' s' where
      "mark_tar sb n (off + 1) (word_of_nat q) ?t = Inr (word_of_nat q', s')" "q' < hi"
      "overlay part s' (smap0 sb) q' = overlay part ?t (smap0 sb) q \<union> {4096 * q + (off + 1)..<4096 * q + (off + 1) + n}"
      "only_map part ?t s' (smap0 sb) (smap0 sb + hi)" by blast
    then show ?thesis
      using False sb ov only_map_trans [OF only_map_buf] unfolding run by (auto simp: Let_def)
  next
    case True
    have q: "q < hi" "Suc q < hi" using True Suc.prems(3) by auto
    have rq: "reach part (smap0 sb + q)" "reach part (smap0 sb + Suc q)" using r q by blast+
    let ?w = "write_blk part (smap0 sb + q) ?t" and ?u = "read_blk part (smap0 sb + Suc q) (write_blk part (smap0 sb + q) ?t)"
    have io: "WR_SECT_U ?t ROOT_DEV (2 + nr_imap_sects sb + word_of_nat q) = Inr ?w"
      "RD_SECT_U ?w ROOT_DEV (2 + nr_imap_sects sb + word_of_nat (Suc q)) = Inr ?u"
      by (rule WR_SECT_U_eq [OF dt rq(1) map_sect_u [OF rq(1)]], rule RD_SECT_U_eq [OF _ rq(2) map_sect_u [OF rq(2)]])
        (use dt in simp)
    have ovu: "overlay part ?u (smap0 sb) (Suc q) = overlay part ?t (smap0 sb) q"
      unfolding overlay_read overlay_write ..
    have omu: "only_map part s ?u (smap0 sb) (smap0 sb + hi)"
      by (rule only_map_trans [OF only_map_buf only_map_trans [OF only_map_write only_map_read]]) (use q in simp_all)
    have du: "fs_dev ?u ROOT_DEV part" using dt by simp
    have "4096 * Suc q + 0 + n < 4096 * hi" using True Suc.prems(3) by simp
    from Suc.IH [OF du _ this] obtain q' s' where
      "mark_tar sb n 0 (word_of_nat (Suc q)) ?u = Inr (word_of_nat q', s')" "q' < hi"
      "overlay part s' (smap0 sb) q' = overlay part ?u (smap0 sb) (Suc q) \<union> {4096 * Suc q + 0..<4096 * Suc q + 0 + n}"
      "only_map part ?u s' (smap0 sb) (smap0 sb + hi)" by auto
    moreover have "{4096 * q + off..<4096 * q + off + Suc n} = insert (4096 * q + off) {4096 * Suc q + 0..<4096 * Suc q + 0 + n}"
    proof -
      have "4096 * Suc q + 0 = 4096 * q + (off + 1)" using True by simp
      then show ?thesis using run by (simp only:)
    qed
    moreover have "mark_tar sb (Suc n) off (word_of_nat q) s = mark_tar sb n 0 (word_of_nat (Suc q)) ?u"
    proof -
      have w1: "word_of_nat q + 1 = (word_of_nat (Suc q) :: u32)" by simp
      show ?thesis unfolding mark_tar.simps Let_def sb w1 using True io by (simp del: of_nat_Suc)
    qed
    ultimately show ?thesis
      unfolding ovu ov by (intro exI [of _ q'] exI [of _ s'] conjI only_map_trans [OF omu]) simp_all
  qed
qed

section \<open>The contents of the sectors\<close>

lemma super_block_store: "super_block_at (store_super sb b) dev = sb\<lparr>sb_dev := dev\<rparr>"
  by (simp add: super_block_at_def store_super_def super_words_def enumerate_eq_zip upt_conv_Cons)

lemma super_block_cong:
  assumes "\<And>i. i < SECTOR_SIZE \<Longrightarrow> b i = b' i"
  shows "super_block_at b dev = super_block_at b' dev"
proof -
  have "le32 b i = le32 b' i" if "i \<le> 508" for i by (rule le32_cong) (use assms that in simp)
  then show ?thesis by (simp add: super_block_at_def)
qed

lemma load_store_other:
  "off' + 16 \<le> off \<or> off + 16 \<le> off' \<Longrightarrow> load_inode (store_inode p off b) off' q = load_inode b off' q"
  by (rule load_inode_cong) (auto intro: store_inode_other)

definition mkfs_inode :: "super_block \<Rightarrow> nat \<Rightarrow> inode" where
  "mkfs_inode sb n =
    (if n = 1 then disk_inode I_DIRECTORY (DIR_ENTRY_SIZE * 5) (n_1st_sect sb) NR_DEFAULT_FILE_SECTS
     else if n \<le> 4 then disk_inode I_CHAR_SPECIAL 0 (word_of_int (MAKE_DEV DEV_CHAR_TTY (int n - 2))) 0
     else disk_inode I_REGULAR (INSTALL_NR_SECTS * SECTOR_SIZE) INSTALL_START_SECT INSTALL_NR_SECTS)"

lemma load_mkfs_inodes:
  assumes "1 \<le> n" and "n \<le> 5"
  shows "load_inode (mkfs_inodes sb b) (ioffset n) zero_inode = mkfs_inode sb n"
proof -
  consider "n = 1" | "n = 2" | "n = 3" | "n = 4" | "n = 5" using assms by linarith
  then show ?thesis
    by cases (simp_all add: mkfs_inodes_def mkfs_inode_def ioffset_def load_store_inode load_store_other
        upt_conv_Cons disk_inode_def zero_inode_def)
qed

definition mkfs_names :: "u8 list list" where
  "mkfs_names = [cstr ''.'', cstr ''dev_tty0'', cstr ''dev_tty1'', cstr ''dev_tty2'', cstr ''cmd.tar'']"

lemma stored_name:
  assumes "length fn \<le> 11" and "de_name b j = replicate 12 0"
  shows "de_name (store_entry j num fn b) j = pad_name fn"
proof (rule nth_equalityI)
  show "length (de_name (store_entry j num fn b) j) = length (pad_name fn)" by (simp add: de_name_def)
  fix i assume "i < length (de_name (store_entry j num fn b) j)"
  then have i: "i < 12" by (simp add: de_name_def)
  have e: "de_name b j ! i = 0" using assms(2) i by simp
  have nm: "de_name c j ! i = c (j * 16 + 4 + i)" for c using i by (simp add: de_name_def)
  show "de_name (store_entry j num fn b) j ! i = pad_name fn ! i"
    using e i assms(1) unfolding nm
    by (cases "i < length fn"; cases "i = length fn") (auto simp: pad_name_def nth_append store_entry_def array_simps)
qed

lemma stored_ino: "- (2 ^ 31) \<le> num \<Longrightarrow> num < 2 ^ 31 \<Longrightarrow> length fn \<le> 11 \<Longrightarrow> de_inode (store_entry j num fn b) j = num"
  by (rule store_entry_same(1)) simp_all

lemma mkfs_dir_chain:
  "mkfs_dir b = store_entry 4 5 (mkfs_names ! 4) (store_entry 3 4 (mkfs_names ! 3) (store_entry 2 3 (mkfs_names ! 2)
     (store_entry 1 2 (mkfs_names ! 1) (store_entry 0 1 (mkfs_names ! 0) b))))"
  by (simp add: mkfs_dir_def mkfs_names_def cstr_def upt_conv_Cons numeral_eq_Suc)

lemma mkfs_names_length: "k < 5 \<Longrightarrow> length (mkfs_names ! k) \<le> 11"
  by (auto simp: mkfs_names_def cstr_def less_Suc_eq numeral_eq_Suc)

lemma mkfs_dir_entries:
  assumes b: "\<And>i. i < SECTOR_SIZE \<Longrightarrow> b i = 0" and k: "k < 32"
  shows "de_inode (mkfs_dir b) k = (if k < 5 then int k + 1 else 0)"
    and "de_name (mkfs_dir b) k = (if k < 5 then pad_name (mkfs_names ! k) else replicate 12 0)"
proof -
  have z: "de_name b k = replicate 12 0" "de_inode b k = 0"
  proof -
    show "de_name b k = replicate 12 0"
      using b k by (intro nth_equalityI) (simp_all add: de_name_def)
    have "le32 b (k * 16) = le32 (\<lambda>_. 0) (k * 16)" by (rule le32_cong) (use b k in simp)
    then show "de_inode b k = 0" by (simp add: de_inode_def le32_def)
  qed
  have len: "length (mkfs_names ! i) \<le> 11" if "i < 5" for i by (rule mkfs_names_length [OF that])
  consider "k = 0" | "k = 1" | "k = 2" | "k = 3" | "k = 4" | "5 \<le> k" by linarith
  then show "de_inode (mkfs_dir b) k = (if k < 5 then int k + 1 else 0)"
    by cases (simp_all add: mkfs_dir_chain store_entry_other stored_ino len z)
  consider "k = 0" | "k = 1" | "k = 2" | "k = 3" | "k = 4" | "5 \<le> k" by linarith
  then show "de_name (mkfs_dir b) k = (if k < 5 then pad_name (mkfs_names ! k) else replicate 12 0)"
    by cases (use z in \<open>simp_all add: mkfs_dir_chain store_entry_other stored_name len\<close>)
qed

lemma smap_image_bit:
  assumes "\<And>i. i < SECTOR_SIZE \<Longrightarrow> b i = 0" and "x < 4096"
  shows "bit_at (smap_image b) x \<longleftrightarrow> x < 513"
proof -
  have x: "x div 8 < 512" using assms(2) by (simp add: less_mult_imp_div_less)
  have ff: "bit (0xFF :: u8) (x mod 8)" using full_byte [of "\<lambda>_. 0xFF" 0, THEN iffD1, rule_format, of "x mod 8"] by (simp add: bit_at_def)
  consider "x div 8 < 64" | "x div 8 = 64" | "64 < x div 8" by linarith
  then show ?thesis
  proof cases
    case 1
    then have "x < 513" using div_mult_mod_eq [of x 8] mod_less_divisor [of 8 x] by linarith
    with 1 ff show ?thesis by (simp add: bit_at_def smap_image_def)
  next
    case 2
    then have "x < 513 \<longleftrightarrow> x mod 8 = 0" using div_mult_mod_eq [of x 8] by linarith
    with 2 assms(1) show ?thesis by (simp add: bit_at_def smap_image_def bit_1_iff)
  next
    case 3
    then have "\<not> x < 513" using div_mult_mod_eq [of x 8] by linarith
    with 3 assms(1) x show ?thesis by (simp add: bit_at_def smap_image_def)
  qed
qed

lemma imap_image_bit:
  assumes "\<And>i. i < SECTOR_SIZE \<Longrightarrow> b i = 0" and "x < 4096"
  shows "bit_at (b(0 := 0x3F)) x \<longleftrightarrow> x < 6"
proof -
  have x: "x div 8 < 512" using assms(2) by (simp add: less_mult_imp_div_less)
  have m: "(0x3F :: u8) = mask 6" by (simp add: mask_eq_exp_minus_1)
  show ?thesis
  proof (cases "x div 8 = 0")
    case True
    then have "x < 8" by (simp add: div_eq_0_iff)
    then show ?thesis unfolding m by (simp add: bit_at_def bit_simps)
  next
    case False
    then have "\<not> x < 6" by (simp add: div_eq_0_iff)
    with False x assms(1) show ?thesis by (simp add: bit_at_def)
  qed
qed

section \<open>A file system is made\<close>

text \<open>
  The bounds within which \<open>mkfs\<close> works: behind the place of \<open>cmd.tar\<close> there is room for
  the log, the maps and the inode array end before it, and the drive can address them.
\<close>

definition can_mkfs :: "part_info \<Rightarrow> bool" where
  "can_mkfs part \<longleftrightarrow> 0x8A00 < unat (psize part) \<and> unat (psize part) div 4096 + 260 \<le> 0x8001 \<and>
     unat (base part) + unat (psize part) div 4096 + 261 \<le> 2 ^ 28"

abbreviation (input) tar_pos :: "super_block \<Rightarrow> nat" where
  "tar_pos sb \<equiv> 0x8001 - unat (n_1st_sect sb)"

definition made_fs :: "part_info \<Rightarrow> super_block \<Rightarrow> fs_state \<Rightarrow> bool" where
  "made_fs part sb s \<longleftrightarrow>
     (\<forall>dev. super_block_at (blk part s 1) dev = sb\<lparr>sb_dev := dev\<rparr>) \<and>
     (\<forall>x < 4096. x \<in> map_set part s 2 \<longleftrightarrow> x < 6) \<and>
     (\<forall>x < 4096 * unat (nr_smap_sects sb). x \<in> map_set part s 3 \<longleftrightarrow>
        x < NR_DEFAULT_FILE_SECTS + 1 \<or> tar_pos sb \<le> x \<and> x < tar_pos sb + INSTALL_NR_SECTS) \<and>
     (\<forall>n. 1 \<le> n \<longrightarrow> n \<le> 5 \<longrightarrow> dinode part sb s n = mkfs_inode sb n) \<and>
     (\<forall>k < 32. dir_ino part s (unat (n_1st_sect sb)) k = (if k < 5 then int k + 1 else 0) \<and>
        dir_name part s (unat (n_1st_sect sb)) k = (if k < 5 then pad_name (mkfs_names ! k) else replicate 12 0))"

lemma word_of_unat: "unat v = n \<Longrightarrow> v = (word_of_nat n :: u32)"
  by (auto simp: word_unat_eq_iff)

lemma below_next: "n < 4096 * (n div 4096 + 1)" for n :: nat
  using dividend_less_times_div [of 4096 n] by simp

lemma inode_sects: "(131072 :: u32) div 512 = 256"
  by (simp add: word_unat_eq_iff unat_div)

lemma mkfs_super_sizes:
  assumes "can_mkfs part"
  shows "unat (nr_imap_sects (mkfs_super j (psize part))) = 1" "nr_imap_sects (mkfs_super j (psize part)) = 1"
    and "unat (nr_smap_sects (mkfs_super j (psize part))) = unat (psize part) div 4096 + 1"
    and "unat (n_1st_sect (mkfs_super j (psize part))) = unat (psize part) div 4096 + 260"
    and "sb_nr_sects (mkfs_super j (psize part)) = psize part" "magic (mkfs_super j (psize part)) = MAGIC_V1"
proof -
  let ?q = "unat (psize part) div 4096"
  have q: "?q < 40000" using assms by (simp add: can_mkfs_def)
  have d: "psize part div 4096 = word_of_nat ?q" by (rule word_unat_eq_iff [THEN iffD2]) (use q in \<open>simp add: unat_div unat_of_nat take_bit_nat_eq_self\<close>)
  have w: "unat (word_of_nat n :: u32) = n" if "n < 50000" for n using that by (simp add: unat_of_nat take_bit_nat_eq_self)
  have e: "(512 * 8 * 32 :: u32) = 131072" "(512 * 8 :: u32) = 4096" by simp_all
  have f: "nr_smap_sects (mkfs_super j (psize part)) = psize part div 4096 + 1"
    "n_1st_sect (mkfs_super j (psize part)) = 1 + 1 + 1 + (psize part div 4096 + 1) + 256"
    unfolding mkfs_super_def Let_def super_block.select_convs e(1) inode_sects unfolding e(2) by (rule refl)+
  have g: "psize part div 4096 + 1 = word_of_nat (?q + 1)" "1 + 1 + 1 + (psize part div 4096 + 1) + 256 = word_of_nat (?q + 260)"
    unfolding d by simp_all
  show "unat (nr_smap_sects (mkfs_super j (psize part))) = ?q + 1"
    unfolding f(1) g(1) by (rule w) (use q in simp)
  show "unat (n_1st_sect (mkfs_super j (psize part))) = ?q + 260"
    unfolding f(2) g(2) by (rule w) (use q in simp)
qed (simp_all add: mkfs_super_def Let_def)

lemma can_mkfs_reach: "can_mkfs part \<Longrightarrow> n \<le> unat (psize part) div 4096 + 260 \<Longrightarrow> reach part n"
  by (simp add: can_mkfs_def reach_def in_reach_def)

lemma mkfs_eq:
  assumes d: "fs_dev s ROOT_DEV part" and c: "can_mkfs part"
  shows "\<exists>s'. mkfs junk s = Inr s' \<and> same_fs s s' \<and> made_fs part (mkfs_super junk (psize part)) s'"
proof -
  define sb where "sb = mkfs_super junk (psize part)"
  define q where "q = unat (psize part) div 4096"
  note sz [simp] = mkfs_super_sizes [OF c, of junk, folded sb_def, folded q_def]
  have rc: "reach part n" if "n \<le> q + 260" for n using can_mkfs_reach [OF c] that by (simp add: q_def)
  have r: "reach part 1" "reach part 2" "reach part 3" "reach part (q + 4)" "reach part (q + 260)" by (rule rc; simp)+
  define z :: "fs_state \<Rightarrow> nat \<Rightarrow> u8" where "z = (\<lambda>t. blit (fsbuf t) 0 (\<lambda>_. 0) SECTOR_SIZE)"
  have z0: "z t i = 0" if "i < SECTOR_SIZE" for t i using that by (simp add: z_def array_simps)
  define f1 where "f1 = store_super sb (blit (fsbuf s) 0 (\<lambda>_. 0x90) SECTOR_SIZE)"
  define s1 where "s1 = put_blk part 1 f1 s"
  define s3 where "s3 = put_blk part 2 ((z s1)(0 := 0x3F)) s1"
  define s4 where "s4 = put_blk part 3 (smap_image (z s3)) s3"
  have d1: "fs_dev s1 ROOT_DEV part" unfolding s1_def by (rule same_fs_dev [OF put_blk_same d])
  have d3: "fs_dev s3 ROOT_DEV part" unfolding s3_def by (rule same_fs_dev [OF put_blk_same d1])
  have d4: "fs_dev s4 ROOT_DEV part" unfolding s4_def by (rule same_fs_dev [OF put_blk_same d3])
  have geo: "hd_ioctl (drive s) (MINOR ROOT_DEV) DIOCTL_GET_GEO = Inr part"
    using d by (simp add: hd_ioctl_def fs_dev_def dev_ok_def)
  have w1: "WR_SECT (set_buf (store_super sb) (fill_buf 0x90 s)) ROOT_DEV 1 = Inr s1"
    using WR_put [OF d r(1)] by (simp add: set_fill s1_def f1_def)
  have or: "(fold (\<lambda>i x. x OR push_bit i 1) [0..<6] (0 :: u8)) = 0x3F" by (simp add: upt_conv_Cons)
  have b0: "blit f 0 (\<lambda>_. x) SECTOR_SIZE 0 = x" for f and x :: u8 by (simp add: array_simps)
  have w3: "set_buf (\<lambda>b. b(0 := fold (\<lambda>i x. x OR push_bit i 1) [0..<NR_CONSOLES + 3] (b 0))) (fill_buf 0 s1) = s1\<lparr>fsbuf := (z s1)(0 := 0x3F)\<rparr>"
    unfolding set_fill z_def using or by (simp add: b0)
  have w3': "WR_SECT (s1\<lparr>fsbuf := (z s1)(0 := 0x3F)\<rparr>) ROOT_DEV 2 = Inr s3"
    using WR_put [OF d1 r(2)] by (simp add: s3_def)
  have w4: "WR_SECT_U (set_buf smap_image (fill_buf 0 s3)) ROOT_DEV (2 + nr_imap_sects sb) = Inr s4"
    unfolding set_fill s4_def z_def by (rule WR_U_put [OF d3 r(3)]) simp
  have d4': "fs_dev (fill_buf 0 s4) ROOT_DEV part" using d4 by simp
  have rs: "\<forall>k < 1 + q. reach part (smap0 sb + k)" by (auto intro: rc)
  obtain s5 where s5: "zero_smap sb q 1 (fill_buf 0 s4) = Inr s5"
    and om5: "only_map part (fill_buf 0 s4) s5 (smap0 sb + 1) (smap0 sb + 1 + q)"
    and z5: "\<And>k j. 1 \<le> k \<Longrightarrow> k < 1 + q \<Longrightarrow> j < SECTOR_SIZE \<Longrightarrow> blk part s5 (smap0 sb + k) j = fsbuf (fill_buf 0 s4) j"
    using zero_smap_eq [OF rs d4'] by blast
  have f4: "fill_buf 0 s4 = s4\<lparr>fsbuf := z s4\<rparr>" by (simp add: fill_buf_def z_def)
  have d5: "fs_dev s5 ROOT_DEV part" by (rule same_fs_dev [OF only_map_same [OF om5] d4'])
  have room: "(0x8000 :: u32) + 0x800 < sb_nr_sects sb - 512"
  proof -
    have p: "0x8A00 < unat (psize part)" using c by (simp add: can_mkfs_def)
    then have "unat (psize part - 512) = unat (psize part) - 512"
      by (subst unat_sub) (simp_all add: word_le_nat_alt)
    with p show ?thesis by (simp add: word_less_nat_alt)
  qed
  define bo where "bo = tar_pos sb"
  have n1: "q + 260 \<le> 0x8001" using c by (simp add: can_mkfs_def q_def)
  have bo: "bo = 0x8001 - (q + 260)" by (simp add: bo_def)
  have off: "sint (0x8000 - n_1st_sect sb + 1) = int bo"
  proof -
    have "n_1st_sect sb = word_of_nat (q + 260)" using sz(4) by (rule word_of_unat)
    moreover have "(word_of_nat bo :: u32) = 0x8001 - word_of_nat (q + 260)"
      unfolding bo by (subst of_nat_diff [OF n1]) simp
    ultimately have "0x8000 - n_1st_sect sb + 1 = (word_of_nat bo :: u32)" by simp
    then show ?thesis by (simp only:) (rule sint_word_of_nat, simp add: bo)
  qed
  have cur: "word_of_int (int bo sdiv 4096) = (word_of_nat (bo div 4096) :: u32)" "nat (int bo smod 4096) = bo mod 4096"
  proof -
    have "int bo sdiv 4096 = int (bo div 4096)" "int bo smod 4096 = int (bo mod 4096)" by (simp_all add: zdiv_int zmod_int)
    then show "word_of_int (int bo sdiv 4096) = (word_of_nat (bo div 4096) :: u32)" "nat (int bo smod 4096) = bo mod 4096"
      by (simp_all only: of_int_of_nat_eq nat_int)
  qed
  have span: "bo + 2048 < 4096 * (q + 1)"
  proof -
    have "unat (psize part) < 4096 * (q + 1)" unfolding q_def by (rule below_next)
    then show ?thesis using c unfolding bo can_mkfs_def by linarith
  qed
  have bq: "bo div 4096 < q + 1" using span by (simp add: less_mult_imp_div_less)
  have r6: "reach part (smap0 sb + bo div 4096)" by (rule rc) (use bq in simp)
  define s6 where "s6 = read_blk part (smap0 sb + bo div 4096) s5"
  have rd6: "RD_SECT_U s5 ROOT_DEV (2 + nr_imap_sects sb + word_of_nat (bo div 4096)) = Inr s6"
    unfolding s6_def by (rule RD_SECT_U_eq [OF d5 r6 map_sect_u [OF r6]])
  have d6: "fs_dev s6 ROOT_DEV part" using d5 by (simp add: s6_def)
  have rh: "\<forall>k < q + 1. reach part (smap0 sb + k)" by (auto intro: rc)
  have e: "4096 * (bo div 4096) + bo mod 4096 = bo" by simp
  have "4096 * (bo div 4096) + bo mod 4096 + 2048 < 4096 * (q + 1)" using span by simp
  from mark_tar_eq [OF rh d6 _ this, unfolded e] obtain q7 s7 where
    m7: "mark_tar sb 2048 (bo mod 4096) (word_of_nat (bo div 4096)) s6 = Inr (word_of_nat q7, s7)" and q7: "q7 < q + 1"
    and ov7: "overlay part s7 (smap0 sb) q7 = overlay part s6 (smap0 sb) (bo div 4096) \<union> {bo..<bo + 2048}"
    and om7: "only_map part s6 s7 (smap0 sb) (smap0 sb + (q + 1))" by auto
  have d7: "fs_dev s7 ROOT_DEV part" by (rule same_fs_dev [OF only_map_same [OF om7] d6])
  have r7: "reach part (smap0 sb + q7)" using rh q7 by blast
  define s8 where "s8 = write_blk part (smap0 sb + q7) s7"
  have w8: "WR_SECT_U s7 ROOT_DEV (2 + nr_imap_sects sb + word_of_nat q7) = Inr s8"
    unfolding s8_def by (rule WR_SECT_U_eq [OF d7 r7 map_sect_u [OF r7]])
  have d8: "fs_dev s8 ROOT_DEV part" using d7 by (simp add: s8_def)
  define s9 where "s9 = put_blk part (q + 4) (mkfs_inodes sb (z s8)) s8"
  define s' where "s' = put_blk part (q + 260) (mkfs_dir (z s9)) s9"
  have d9: "fs_dev s9 ROOT_DEV part" unfolding s9_def by (rule same_fs_dev [OF put_blk_same d8])
  have w9: "WR_SECT_U (set_buf (mkfs_inodes sb) (fill_buf 0 s8)) ROOT_DEV (2 + nr_imap_sects sb + nr_smap_sects sb) = Inr s9"
    unfolding set_fill s9_def z_def
  proof (rule WR_U_put [OF d8 r(4)])
    have e: "nr_smap_sects sb = word_of_nat (q + 1)" using sz(3) by (rule word_of_unat)
    have p: "smap0 sb + (q + 1) = q + 4" by simp
    show "unat (2 + nr_imap_sects sb + nr_smap_sects sb) = q + 4"
      unfolding e using map_sect_u [of part sb "q + 1", unfolded p, OF r(4)] .
  qed
  have w': "WR_SECT_U (set_buf mkfs_dir (fill_buf 0 s9)) ROOT_DEV (n_1st_sect sb) = Inr s'"
    unfolding set_fill s'_def z_def by (rule WR_U_put [OF d9 r(5)]) simp
  have run: "mkfs junk s = Inr s'"
    unfolding mkfs_def geo sum.case sb_def [symmetric] Let_def w1 w3
    using w3' w4 s5 room off cur rd6 m7 w8 w9 w' by (simp add: dd_map_def MAJOR_def sz)
  have same: "same_fs s s'"
  proof -
    have "same_fs s s4" unfolding s4_def s3_def s1_def by (intro same_fs_trans [OF _ put_blk_same] put_blk_same)
    moreover have "same_fs s4 s5" using same_fs_trans [OF same_fs_rw(4) only_map_same [OF om5 [unfolded f4]]] .
    moreover have "same_fs s5 s7" using same_fs_trans [OF same_fs_rw(3) only_map_same [OF om7 [unfolded s6_def]]] .
    moreover have "same_fs s7 s'" unfolding s'_def s9_def s8_def by (intro same_fs_trans [OF _ put_blk_same] same_fs_rw(2))
    ultimately show ?thesis using same_fs_trans by blast
  qed
  have bm: "blk part s8 b i = blk part s4 b i" if "b < 3 \<or> q + 4 \<le> b" "i < SECTOR_SIZE" for b i
  proof -
    have "blk part s8 b i = blk part s7 b i" using that q7 by (auto simp: s8_def blk_write)
    also have "\<dots> = blk part s5 b i" using only_map_blk [OF om7, of b i] that by (auto simp: s6_def)
    also have "\<dots> = blk part s4 b i" using only_map_blk [OF om5, of b i] that by (auto simp: f4)
    finally show ?thesis .
  qed
  have b4: "blk part s4 b i = (if b = 3 then smap_image (z s3) i else if b = 2 then ((z s1)(0 := 0x3F)) i
      else if b = 1 then f1 i else blk part s b i)" if "i < SECTOR_SIZE" for b i
    using that by (simp add: s4_def s3_def s1_def blk_put)
  have b': "blk part s' b i = (if b = q + 260 then mkfs_dir (z s9) i else if b = q + 4 then mkfs_inodes sb (z s8) i
      else blk part s8 b i)" if "i < SECTOR_SIZE" for b i
    using that by (simp add: s'_def s9_def blk_put)
  have "super_block_at (blk part s' 1) dev = sb\<lparr>sb_dev := dev\<rparr>" for dev
  proof -
    have "super_block_at (blk part s' 1) dev = super_block_at f1 dev"
      by (rule super_block_cong) (simp add: b' bm b4)
    then show ?thesis by (simp add: f1_def super_block_store)
  qed
  moreover have "x \<in> map_set part s' 2 \<longleftrightarrow> x < 6" if "x < 4096" for x
  proof -
    have "bit_at (blk part s' 2) x = bit_at ((z s1)(0 := 0x3F)) x"
      by (rule bit_at_cong [OF _ that]) (simp add: b' bm b4)
    then show ?thesis unfolding map_set_iff using imap_image_bit [of "z s1" x] z0 that by simp
  qed
  moreover have "x \<in> map_set part s' 3 \<longleftrightarrow> x < 513 \<or> bo \<le> x \<and> x < bo + 2048" if x: "x < 4096 * (q + 1)" for x
  proof -
    have "x \<in> map_set part s' 3 \<longleftrightarrow> x \<in> map_set part s8 3"
      by (rule map_set_cong [OF _ x]) (simp add: b')
    moreover have "map_set part s8 3 = map_set part s5 3 \<union> {bo..<bo + 2048}"
      using ov7 overlay_write [of part 3 q7 s7] overlay_read [of part 3 "bo div 4096" s5] by (simp add: s8_def s6_def)
    moreover have "x \<in> map_set part s5 3 \<longleftrightarrow> x < 513"
    proof (cases "x < 4096")
      case True
      have "bit_at (blk part s5 3) x = bit_at (smap_image (z s3)) x"
        using only_map_blk [OF om5, of 3] by (intro bit_at_cong [OF _ True]) (simp add: f4 b4)
      then show ?thesis unfolding map_set_iff using smap_image_bit [of "z s3" x] z0 True by simp
    next
      case False
      have k: "1 \<le> x div 4096" "x div 4096 < 1 + q"
        using False x by (simp_all add: less_mult_imp_div_less Suc_le_eq div_greater_zero_iff)
      have "bit_at (blk part s5 (3 + x div 4096)) (x mod 4096) = bit_at (\<lambda>_. 0) (x mod 4096)"
        using z5 [OF k] by (intro bit_at_cong) (simp_all add: f4 z0)
      then show ?thesis unfolding map_set_iff using False by (simp add: bit_at_def)
    qed
    ultimately show ?thesis by auto
  qed
  moreover have "dinode part sb s' n = mkfs_inode sb n" if n: "1 \<le> n" "n \<le> 5" for n
  proof -
    have ib: "iblock sb n = q + 4" using n by (simp add: iblock_def)
    have "dinode part sb s' n = load_inode (mkfs_inodes sb (z s8)) (ioffset n) zero_inode"
      unfolding dinode_def ib using ioffset_bound [of n] by (intro load_inode_cong) (simp add: b')
    then show ?thesis by (simp add: load_mkfs_inodes [OF n])
  qed
  moreover have "dir_ino part s' (q + 260) k = (if k < 5 then int k + 1 else 0) \<and>
      dir_name part s' (q + 260) k = (if k < 5 then pad_name (mkfs_names ! k) else replicate 12 0)" if k: "k < 32" for k
  proof -
    have "de_inode (blk part s' (q + 260)) k = de_inode (mkfs_dir (z s9)) k" "de_name (blk part s' (q + 260)) k = de_name (mkfs_dir (z s9)) k"
      by (intro de_inode_cong de_name_cong; simp add: b' k)+
    then show ?thesis using mkfs_dir_entries [where b = "z s9", OF z0 k] k by (simp add: dir_ino_def dir_name_def)
  qed
  ultimately show ?thesis
    using run same unfolding made_fs_def sb_def [symmetric] bo_def [symmetric] by (intro exI [of _ s'] conjI) simp_all
qed

section \<open>The file system starts\<close>

text \<open>The super block of the made file system, as it is in the table.\<close>

abbreviation (input) made_sb :: "u32 \<Rightarrow> part_info \<Rightarrow> super_block" where
  "made_sb junk part \<equiv> (mkfs_super junk (psize part))\<lparr>sb_dev := ROOT_DEV\<rparr>"

abbreviation (input) data_start :: "part_info \<Rightarrow> nat" where
  "data_start part \<equiv> unat (psize part) div 4096 + 260"

lemma made_fs_dev: "made_fs part (sb\<lparr>sb_dev := d\<rparr>) s = made_fs part sb s"
proof -
  have "dinode part (sb\<lparr>sb_dev := d\<rparr>) s n = dinode part sb s n" for n by (simp add: dinode_def iblock_def)
  moreover have "mkfs_inode (sb\<lparr>sb_dev := d\<rparr>) n = mkfs_inode sb n" for n by (simp add: mkfs_inode_def)
  ultimately show ?thesis by (simp add: made_fs_def)
qed

lemma made_fs_cong: "drive s' = drive s \<Longrightarrow> made_fs part sb s' = made_fs part sb s"
  by (simp add: made_fs_def map_set_iff dinode_def dir_ino_def dir_name_def)

lemma made_fsD:
  assumes "made_fs part sb s"
  shows made_super: "super_block_at (blk part s 1) dev = sb\<lparr>sb_dev := dev\<rparr>"
    and made_imap: "x < 4096 \<Longrightarrow> x \<in> map_set part s 2 \<longleftrightarrow> x < 6"
    and made_smap: "x < 4096 * unat (nr_smap_sects sb) \<Longrightarrow> x \<in> map_set part s 3 \<longleftrightarrow>
        x < NR_DEFAULT_FILE_SECTS + 1 \<or> tar_pos sb \<le> x \<and> x < tar_pos sb + INSTALL_NR_SECTS"
    and made_inode: "1 \<le> n \<Longrightarrow> n \<le> 5 \<Longrightarrow> dinode part sb s n = mkfs_inode sb n"
    and made_dir: "k < 32 \<Longrightarrow> dir_ino part s (unat (n_1st_sect sb)) k = (if k < 5 then int k + 1 else 0)"
      "k < 32 \<Longrightarrow> dir_name part s (unat (n_1st_sect sb)) k = (if k < 5 then pad_name (mkfs_names ! k) else replicate 12 0)"
  using assms unfolding made_fs_def by blast+

text \<open>The empty tables.\<close>

definition fresh_tables :: "fs_state \<Rightarrow> bool" where
  "fresh_tables s \<longleftrightarrow> (\<forall>i < NR_INODE. inode_table s i = zero_inode) \<and> (\<forall>d < NR_FILE_DESC. f_desc_table s d = zero_fd) \<and>
     (\<forall>i < NR_SUPER_BLOCK. sb_dev (super_blocks s i) = NO_DEV)"

lemma init_tables_fresh: "fresh_tables (init_tables s)"
  by (simp add: fresh_tables_def init_tables_def)

lemma fresh_same: "same_fs s s' \<Longrightarrow> fresh_tables s \<Longrightarrow> fresh_tables s'"
  by (simp add: fresh_tables_def same_fsD)

text \<open>The super block is read into the first entry of the table.\<close>

lemma read_super_eq:
  assumes d: "fs_dev s ROOT_DEV part" and r: "reach part 1" and fr: "fresh_tables s"
  shows "read_super_block s ROOT_DEV = Inr ((read_blk part 1 s)\<lparr>super_blocks :=
    (super_blocks s)(0 := super_block_at (blk part s 1) ROOT_DEV)\<rparr>)"
proof -
  have rd: "rw_sector s DEV_READ ROOT_DEV SECTOR_SIZE SECTOR_SIZE = Inr (read_blk part 1 s)"
    using RD_SECT_eq [OF d r] by (simp add: RD_SECT_def cint_small)
  have "sb_dev (super_blocks s 0) = NO_DEV" using fr by (simp add: fresh_tables_def)
  then have f: "find (\<lambda>i. sb_dev (super_blocks s i) = NO_DEV) [0..<NR_SUPER_BLOCK] = Some 0"
    by (simp add: find_upt)
  have "super_block_at (fsbuf (read_blk part 1 s)) ROOT_DEV = super_block_at (blk part s 1) ROOT_DEV"
    by (rule super_block_cong) (simp add: fsbuf_read)
  then show ?thesis unfolding read_super_block_def rd by (simp add: f)
qed

lemma made_geom:
  assumes d: "fs_dev s ROOT_DEV part" and c: "can_mkfs part" and sb: "super_blocks s 0 = made_sb junk part"
  shows "geom s ROOT_DEV part (made_sb junk part)"
proof -
  have "find (\<lambda>i. sb_dev (super_blocks s i) = ROOT_DEV) [0..<NR_SUPER_BLOCK] = Some 0" by (simp add: find_upt sb)
  then have "get_super_block s ROOT_DEV = Inr (made_sb junk part)" by (simp add: get_super_block_def sb)
  then show ?thesis
    unfolding geom_def using d can_mkfs_reach [OF c] by (simp add: mkfs_super_sizes [OF c])
qed

text \<open>The state behind \<open>init_fs\<close>: the tables, and the root directory in the inode cache.\<close>

definition root_entry :: "u32 \<Rightarrow> part_info \<Rightarrow> inode" where
  "root_entry junk part = (mkfs_inode (mkfs_super junk (psize part)) 1)\<lparr>i_dev := ROOT_DEV, i_num := 1, i_cnt := 1\<rparr>"

definition started :: "u32 \<Rightarrow> part_info \<Rightarrow> fs_state \<Rightarrow> bool" where
  "started junk part s \<longleftrightarrow> made_fs part (made_sb junk part) s \<and> fs_dev s ROOT_DEV part \<and>
     super_blocks s 0 = made_sb junk part \<and> root_inode s = Some 0 \<and> inode_table s 0 = root_entry junk part \<and>
     (\<forall>i. 0 < i \<longrightarrow> i < NR_INODE \<longrightarrow> inode_table s i = zero_inode) \<and> (\<forall>d < NR_FILE_DESC. f_desc_table s d = zero_fd)"

lemma init_fs_eq:
  assumes opn: "hd_open (drive s) (MINOR ROOT_DEV) = Inr h" and dev: "dev_ok h (MINOR ROOT_DEV) part" and c: "can_mkfs part"
  shows "\<exists>s'. init_fs junk s = Inr s' \<and> started junk part s' \<and> fprocs s' = fprocs s \<and> umem s' = umem s"
proof -
  let ?s1 = "(init_tables s)\<lparr>drive := h\<rparr>" and ?sb = "made_sb junk part"
  have d1: "fs_dev ?s1 ROOT_DEV part" using dev by (simp add: fs_dev_def MAJOR_def)
  obtain s2 where s2: "mkfs junk ?s1 = Inr s2" and sm: "same_fs ?s1 s2" and md: "made_fs part (mkfs_super junk (psize part)) s2"
    using mkfs_eq [OF d1 c] by blast
  have d2: "fs_dev s2 ROOT_DEV part" by (rule same_fs_dev [OF sm d1])
  have "fresh_tables ?s1" using init_tables_fresh [of s] by (simp add: fresh_tables_def)
  then have f2: "fresh_tables s2" by (rule fresh_same [OF sm])
  define s3 where "s3 = (read_blk part 1 s2)\<lparr>super_blocks := (super_blocks s2)(0 := ?sb)\<rparr>"
  have rs: "read_super_block s2 ROOT_DEV = Inr s3"
    using read_super_eq [OF d2 can_mkfs_reach [OF c] f2] made_super [OF md] by (simp add: s3_def)
  have d3: "fs_dev s3 ROOT_DEV part" using d2 by (subst fs_dev_cong [of s3 s2]) (simp_all add: s3_def)
  have g3: "geom s3 ROOT_DEV part ?sb" by (rule made_geom [OF d3 c]) (simp add: s3_def)
  have it3: "inode_table s3 i = zero_inode" if "i < NR_INODE" for i using f2 that by (simp add: s3_def fresh_tables_def)
  have z: "i_cnt zero_inode = 0" by (simp add: zero_inode_def)
  define s4 where "s4 = upd_inode 0 (\<lambda>m. (dinode part ?sb s3 1)\<lparr>i_dev := ROOT_DEV, i_num := 1, i_cnt := 1\<rparr>)
    (read_blk part (iblock ?sb 1) s3)"
  have gi: "get_inode s3 ROOT_DEV 1 = Inr (Some 0, s4)"
    unfolding s4_def using get_inode_miss [OF g3, of 1 0] it3 z by simp
  have dr: "drive (s4\<lparr>root_inode := Some 0\<rparr>) = drive s2" by (simp add: s4_def s3_def)
  have mk: "made_fs part ?sb (s4\<lparr>root_inode := Some 0\<rparr>)" unfolding made_fs_dev made_fs_cong [OF dr] by (rule md)
  have "made_fs part ?sb s3" using md unfolding made_fs_dev by (subst made_fs_cong [of _ s2]) (simp_all add: s3_def)
  then have di: "dinode part ?sb s3 1 = mkfs_inode ?sb 1" by (rule made_inode) simp_all
  have "started junk part (s4\<lparr>root_inode := Some 0\<rparr>)"
    unfolding started_def
  proof (intro conjI allI impI mk)
    show "fs_dev (s4\<lparr>root_inode := Some 0\<rparr>) ROOT_DEV part"
      using d2 by (subst fs_dev_cong [of _ s2]) (simp_all add: dr)
    show "inode_table (s4\<lparr>root_inode := Some 0\<rparr>) 0 = root_entry junk part"
      unfolding s4_def di root_entry_def by (simp add: mkfs_inode_def)
    show "f_desc_table (s4\<lparr>root_inode := Some 0\<rparr>) d = zero_fd" if "d < NR_FILE_DESC" for d
      using f2 that by (simp add: s4_def s3_def fresh_tables_def)
    show "inode_table (s4\<lparr>root_inode := Some 0\<rparr>) i = zero_inode" if "0 < i" "i < NR_INODE" for i
      using it3 that by (simp add: s4_def)
  qed (simp_all add: s4_def s3_def)
  moreover have "init_fs junk s = Inr (s4\<lparr>root_inode := Some 0\<rparr>)"
    using opn s2 rs geom_sb [OF g3] gi by (simp add: init_fs_def init_tables_def dd_map_def MAJOR_def Let_def mkfs_super_sizes [OF c])
  moreover have "fprocs (s4\<lparr>root_inode := Some 0\<rparr>) = fprocs s" "umem (s4\<lparr>root_inode := Some 0\<rparr>) = umem s"
    using same_fsD [OF sm] by (simp_all add: s4_def s3_def init_tables_def)
  ultimately show ?thesis by blast
qed

section \<open>What can be done with it\<close>

lemma startedD:
  assumes "started junk part s"
  shows started_made: "made_fs part (made_sb junk part) s" and started_dev: "fs_dev s ROOT_DEV part"
    and started_sb: "super_blocks s 0 = made_sb junk part" and started_root: "root_inode s = Some 0"
    and started_entry: "inode_table s 0 = root_entry junk part"
    and started_inodes: "0 < i \<Longrightarrow> i < NR_INODE \<Longrightarrow> inode_table s i = zero_inode"
    and started_fds: "d < NR_FILE_DESC \<Longrightarrow> f_desc_table s d = zero_fd"
  using assms unfolding started_def by blast+

lemma started_cnt:
  assumes "started junk part s" and "i < NR_INODE"
  shows "i_cnt (inode_table s i) = (if i = 0 then 1 else 0)"
proof (cases "i = 0")
  case True
  then show ?thesis using started_entry [OF assms(1)] by (simp add: root_entry_def)
next
  case False
  then show ?thesis using started_inodes [OF assms(1) _ assms(2)] by (simp add: zero_inode_def)
qed

lemma started_good:
  assumes st: "started junk part s" and c: "can_mkfs part"
  shows "root_good s 0 ROOT_DEV part (made_sb junk part) (data_start part) 5"
proof -
  note sz = mkfs_super_sizes [OF c, of junk]
  have ds: "data_start part < 2 ^ 31" using c by (simp add: can_mkfs_def)
  have "n_1st_sect (mkfs_super junk (psize part)) = word_of_nat (data_start part)" by (rule word_of_unat [OF sz(4)])
  then have re: "i_dev (root_entry junk part) = ROOT_DEV" "i_num (root_entry junk part) = 1" "i_size (root_entry junk part) = 80"
    "i_start_sect (root_entry junk part) = word_of_nat (data_start part)"
    by (simp_all add: root_entry_def mkfs_inode_def disk_inode_def)
  have rk: "root_ok s 0 ROOT_DEV part (data_start part) 5"
    unfolding root_ok_def started_entry [OF st] re
    using started_dev [OF st] started_root [OF st] ds can_mkfs_reach [OF c] by simp
  have "iblock (made_sb junk part) 1 < data_start part" by (simp add: iblock_def sz(1,3))
  then show ?thesis
    unfolding root_good_def started_entry [OF st] re(2)
    using rk made_geom [OF started_dev [OF st] c started_sb [OF st]] by simp
qed

lemma started_dir:
  assumes st: "started junk part s" and c: "can_mkfs part" and k: "k < 32"
  shows "dir_ino part s (data_start part) k = (if k < 5 then int k + 1 else 0)"
    and "dir_name part s (data_start part) k = (if k < 5 then pad_name (mkfs_names ! k) else replicate 12 0)"
  using made_dir [OF started_made [OF st] k] by (simp_all add: mkfs_super_sizes(4) [OF c])

lemma mkfs_names_distinct: "j < 5 \<Longrightarrow> k < 5 \<Longrightarrow> pad_name (mkfs_names ! j) = pad_name (mkfs_names ! k) \<Longrightarrow> j = k"
proof -
  have "distinct (map pad_name mkfs_names)" by code_simp
  moreover have "length mkfs_names = 5" by (simp add: mkfs_names_def)
  ultimately show "j < 5 \<Longrightarrow> k < 5 \<Longrightarrow> pad_name (mkfs_names ! j) = pad_name (mkfs_names ! k) \<Longrightarrow> j = k"
    by (simp add: distinct_conv_nth) metis
qed

lemma started_lookup:
  assumes st: "started junk part s" and c: "can_mkfs part" and k: "k < 5"
  shows "lookup part s (data_start part) 5 (mkfs_names ! k) = int k + 1"
proof -
  have "pad_name (mkfs_names ! j) \<noteq> pad_name (mkfs_names ! k)" if "j < k" for j
    using mkfs_names_distinct [of j k] that k by auto
  then have "find (\<lambda>j. dir_name part s (data_start part) j = pad_name (mkfs_names ! k)) [0..<min (dir_blocks 5 * 32) (5 + 1)] = Some k"
    unfolding find_upt using k started_dir(2) [OF st c] by (auto simp: dir_blocks_def)
  then show ?thesis using started_dir(1) [OF st c] k by (simp add: lookup_def)
qed

lemma started_files_ok:
  assumes st: "started junk part s" and sl: "\<forall>x \<in> all_slots. slot s x = None"
  shows "files_ok all_slots (\<lambda>n. if n = 0 then 1 else 0) s"
proof -
  have fd: "fd_inode (f_desc_table s d) = None" if "d < NR_FILE_DESC" for d
    using started_fds [OF st that] by (simp add: zero_fd_def)
  then have "users s n = {}" for n by (auto simp: users_def)
  then show ?thesis using fd sl started_cnt [OF st] by (auto simp: files_ok_def)
qed

lemma started_icache: "started junk part s \<Longrightarrow> icache_ok s"
  using started_cnt unfolding icache_ok_def by (metis (mono_tags) order_refl zero_le_one)

text \<open>Behind the root directory there is room for a file, when \<open>cmd.tar\<close> is far enough away.\<close>

lemma started_create:
  assumes st: "started junk part s" and c: "can_mkfs part" and tar: "data_start part + 2 * NR_DEFAULT_FILE_SECTS \<le> INSTALL_START_SECT"
  shows "can_create s 0 ROOT_DEV part (made_sb junk part) (data_start part) 5 5 6 (NR_DEFAULT_FILE_SECTS + 1)"
proof -
  let ?sb = "made_sb junk part"
  note sz = mkfs_super_sizes [OF c, of junk]
  have big: "0x8A00 < unat (psize part)" using c by (simp add: can_mkfs_def)
  have room: "0x8A00 < 4096 * (unat (psize part) div 4096 + 1)" using big below_next [of "unat (psize part)"] by (rule order.strict_trans)
  have im: "x \<in> map_set part s 2 \<longleftrightarrow> x < 6" if "x < 4096" for x by (rule made_imap [OF started_made [OF st] that])
  have sm: "x \<in> map_set part s 3 \<longleftrightarrow> x < 513" if "x < 1025" for x
  proof -
    have "1025 \<le> tar_pos ?sb" using tar by (simp add: sz(4))
    moreover have "x < 4096 * unat (nr_smap_sects ?sb)" using that room by (simp add: sz(3))
    ultimately show ?thesis using made_smap [OF started_made [OF st], of x] that by auto
  qed
  have slot: "free_slot part s (data_start part) 5 = 5"
  proof -
    have "find (\<lambda>k. dir_ino part s (data_start part) k = 0) [0..<5] = None"
      unfolding find_None_iff using started_dir(1) [OF st c] by auto
    then show ?thesis by (simp add: free_slot_def)
  qed
  have cch: "\<forall>i. \<not> cached s ROOT_DEV (int 6) i"
  proof (intro allI notI)
    fix i assume a: "cached s ROOT_DEV (int 6) i"
    then have "i = 0" using started_cnt [OF st, of i] by (simp split: if_splits)
    with a show False using started_entry [OF st] by (simp add: root_entry_def)
  qed
  have "i_cnt (inode_table s 1) = 0" using started_cnt [OF st, of 1] by simp
  then have free: "\<exists>i < NR_INODE. i_cnt (inode_table s i) = 0" by (intro exI [of _ 1]) simp
  have b0: "smap0 ?sb = 3" by (simp add: sz)
  show ?thesis
    unfolding can_create_def b0
  proof (intro conjI started_good [OF st c] started_icache [OF st] free cch)
    show "i_cnt (inode_table s 0) \<noteq> 0" using started_cnt [OF st, of 0] by simp
    show "5 = free_slot part s (data_start part) 5" using slot by simp
    show "reach part (data_start part + (5 + 1) div 32)" using can_mkfs_reach [OF c] by simp
    show "dir_name part s (data_start part) 5 = replicate 12 0" using started_dir(2) [OF st c, of 5] by simp
    show "6 \<notin> map_set part s 2" "\<forall>y < 6. y \<in> map_set part s 2" using im by simp_all
    show "NR_DEFAULT_FILE_SECTS + 1 \<notin> map_set part s 3" "\<forall>y < NR_DEFAULT_FILE_SECTS + 1. y \<in> map_set part s 3" using sm by simp_all
    show "clear_run (\<lambda>y. y \<in> map_set part s 3) (NR_DEFAULT_FILE_SECTS + 1) NR_DEFAULT_FILE_SECTS" using sm by (simp add: clear_run_def)
    show "(NR_DEFAULT_FILE_SECTS + 1) + NR_DEFAULT_FILE_SECTS \<le> 4096 * unat (nr_smap_sects ?sb)" using room by (simp add: sz(3))
    show "(NR_DEFAULT_FILE_SECTS + 1) + unat (n_1st_sect ?sb) + NR_DEFAULT_FILE_SECTS < 2 ^ 31" using tar by (simp add: sz(4))
  qed (simp_all add: sz)
qed

end
