(* ===== verification/FsMkfsProps.thy ===== *)
theory FsMkfsProps
  imports FsMkfs FsAllocProps
begin

unbundle bit_operations_syntax

text \<open>
  The properties of \<open>mkfs\<close> and \<open>init_fs\<close>, with witnesses on the sample disk.
\<close>

text \<open>
  C23: \<open>mkfs\<close> succeeds on every partition with room for \<open>cmd.tar\<close> and the log, whose
  maps and inodes end before \<open>cmd.tar\<close>, and leaves on it: a super block that reads back,
  the inodes 0 to 5 marked, the sectors of the root directory and of \<open>cmd.tar\<close> marked and no
  others, the inodes of the root, the three terminals and \<open>cmd.tar\<close>, and a directory with
  exactly their five names.
\<close>

theorem mkfs_layout:
  assumes dev: "fs_dev s ROOT_DEV part" and fits: "can_mkfs part" and sb: "sb = mkfs_super junk (psize part)"
  shows "\<exists>s'. mkfs junk s = Inr s' \<and> super_block_at (blk part s' 1) d = sb\<lparr>sb_dev := d\<rparr> \<and>
    (\<forall>x < 4096. x \<in> map_set part s' 2 \<longleftrightarrow> x < 6) \<and>
    (\<forall>x < 4096 * unat (nr_smap_sects sb). x \<in> map_set part s' (smap0 sb) \<longleftrightarrow>
       x = 0 \<or> (let b = x + unat (n_1st_sect sb) - 1 in
         unat (n_1st_sect sb) \<le> b \<and> b < unat (n_1st_sect sb) + NR_DEFAULT_FILE_SECTS \<or>
         INSTALL_START_SECT \<le> b \<and> b < INSTALL_START_SECT + INSTALL_NR_SECTS)) \<and>
    (\<forall>n. 1 \<le> n \<longrightarrow> n \<le> 5 \<longrightarrow> dinode part sb s' n = mkfs_inode sb n) \<and>
    (\<forall>k < 32. dir_ino part s' (unat (n_1st_sect sb)) k = (if k < 5 then int k + 1 else 0) \<and>
       dir_name part s' (unat (n_1st_sect sb)) k = (if k < 5 then pad_name (mkfs_names ! k) else replicate 12 0))"
proof -
  obtain s' where s': "mkfs junk s = Inr s'" "made_fs part sb s'" using mkfs_eq [OF dev fits] unfolding sb by blast
  have n1: "unat (n_1st_sect sb) \<le> 0x8001" "1 \<le> unat (n_1st_sect sb)" and b0: "smap0 sb = 3"
    using fits by (simp_all add: sb mkfs_super_sizes [OF fits] can_mkfs_def)
  have pos: "x < NR_DEFAULT_FILE_SECTS + 1 \<or> tar_pos sb \<le> x \<and> x < tar_pos sb + INSTALL_NR_SECTS \<longleftrightarrow>
       x = 0 \<or> (let b = x + unat (n_1st_sect sb) - 1 in
         unat (n_1st_sect sb) \<le> b \<and> b < unat (n_1st_sect sb) + NR_DEFAULT_FILE_SECTS \<or>
         INSTALL_START_SECT \<le> b \<and> b < INSTALL_START_SECT + INSTALL_NR_SECTS)" for x
    unfolding Let_def using n1 by linarith
  show ?thesis
    using s'(1) made_fsD [OF s'(2)] unfolding b0 pos by (intro exI [of _ s'] conjI allI impI) blast+
qed

lemma sample_can_mkfs: "can_mkfs sample_part"
  by (simp add: can_mkfs_def sample_part_def)

theorem mkfs_layout_witness:
  "\<exists>s'. mkfs 0 sample_fs = Inr s' \<and> 600 \<notin> map_set sample_part s' 3 \<and> dir_ino sample_part s' 292 4 = 5"
proof -
  have p: "mkfs_super 0 0x20000 = mkfs_super 0 (psize sample_part)" by (simp add: sample_part_def)
  obtain s' where s': "mkfs 0 sample_fs = Inr s'"
    "\<forall>x < 4096 * unat (nr_smap_sects (mkfs_super 0 0x20000)). x \<in> map_set sample_part s' (smap0 (mkfs_super 0 0x20000)) \<longleftrightarrow>
       x = 0 \<or> (let b = x + unat (n_1st_sect (mkfs_super 0 0x20000)) - 1 in
         unat (n_1st_sect (mkfs_super 0 0x20000)) \<le> b \<and> b < unat (n_1st_sect (mkfs_super 0 0x20000)) + NR_DEFAULT_FILE_SECTS \<or>
         INSTALL_START_SECT \<le> b \<and> b < INSTALL_START_SECT + INSTALL_NR_SECTS)"
    "\<forall>k < 32. dir_ino sample_part s' (unat (n_1st_sect (mkfs_super 0 0x20000))) k = (if k < 5 then int k + 1 else 0) \<and>
       dir_name sample_part s' (unat (n_1st_sect (mkfs_super 0 0x20000))) k = (if k < 5 then pad_name (mkfs_names ! k) else replicate 12 0)"
    using mkfs_layout [OF sample_dev sample_can_mkfs p, of 0] by blast
  have u: "unat (292 :: u32) = 292" by simp
  have "600 \<notin> map_set sample_part s' 3" using s'(2) [rule_format, of 600] by (simp add: u)
  moreover have "dir_ino sample_part s' 292 4 = 5" using s'(3) [rule_format, of 4] by (simp add: u)
  ultimately show ?thesis using s'(1) by blast
qed

text \<open>
  C18: \<open>init_fs\<close> on a disk that opens returns a state from which every other property of
  the file system starts: the reference counts and the inode cache are right, the root
  directory is loaded, each of the five names is found with its inode, and, when \<open>cmd.tar\<close> lies
  far enough behind the inode array, a sixth file can be created.
\<close>

theorem init_fs_ready:
  assumes opn: "hd_open (drive s) (MINOR ROOT_DEV) = Inr h" and dev: "dev_ok h (MINOR ROOT_DEV) part"
    and fits: "can_mkfs part" and closed: "\<forall>x \<in> all_slots. slot s x = None"
    and sb: "sb = (mkfs_super junk (psize part))\<lparr>sb_dev := ROOT_DEV\<rparr>" and start: "start = unat (n_1st_sect sb)"
  shows "\<exists>s'. init_fs junk s = Inr s' \<and> files_ok all_slots (\<lambda>n. if n = 0 then 1 else 0) s' \<and> icache_ok s' \<and>
    root_good s' 0 ROOT_DEV part sb start 5 \<and> (\<forall>k < 5. lookup part s' start 5 (mkfs_names ! k) = int k + 1) \<and>
    (start + 2 * NR_DEFAULT_FILE_SECTS \<le> INSTALL_START_SECT \<longrightarrow>
       can_create s' 0 ROOT_DEV part sb start 5 5 6 (NR_DEFAULT_FILE_SECTS + 1))"
proof -
  obtain s' where s': "init_fs junk s = Inr s'" "started junk part s'" "fprocs s' = fprocs s"
    using init_fs_eq [OF opn dev fits] by blast
  have st: "start = data_start part" by (simp add: start sb mkfs_super_sizes [OF fits])
  have "\<forall>x \<in> all_slots. slot s' x = None" using closed s'(3) by (simp add: slot_def)
  then show ?thesis
    unfolding st sb using s' started_files_ok [OF s'(2)] started_icache [OF s'(2)] started_good [OF s'(2) fits]
      started_lookup [OF s'(2) fits] started_create [OF s'(2) fits] by blast
qed

text \<open>The sample file system before it is started, with no open file.\<close>

definition sample_cold :: fs_state where
  "sample_cold = sample_fs\<lparr>fprocs := (\<lambda>i. (proc_table sample_boot i)\<lparr>filp := (\<lambda>_. None)\<rparr>)\<rparr>"

theorem init_fs_ready_witness:
  "\<exists>s' b. init_fs 0 sample_cold = Inr s' \<and> search_file s' (slash # cstr ''cmd.tar'') = Inr (5, s'\<lparr>fsbuf := b\<rparr>) \<and>
     can_create s' 0 ROOT_DEV sample_part sample_sb 292 5 5 6 513"
proof -
  let ?h = "sample_drive\<lparr>hd_info := \<lparr>open_cnt = 2, primary = (\<lambda>_. sample_part)(0 := \<lparr>base = 0, psize = 0\<rparr>), logical = (\<lambda>_. sample_part)\<rparr>\<rparr>"
  have o: "hd_open (drive sample_cold) (MINOR ROOT_DEV) = Inr ?h"
    by (simp add: sample_cold_def hd_open_def hd_identify_def hd_cmd_out_def sample_drive_def MINOR_def DRV_OF_DEV_def)
  have d: "dev_ok ?h (MINOR ROOT_DEV) sample_part"
    by (simp add: dev_ok_def sample_drive_def MINOR_def DRV_OF_DEV_def part_of_def)
  have c: "\<forall>x \<in> all_slots. slot sample_cold x = None" by (simp add: sample_cold_def slot_def)
  have sb: "sample_sb = (mkfs_super 0 (psize sample_part))\<lparr>sb_dev := ROOT_DEV\<rparr>" by (simp add: sample_part_def)
  have st: "292 = unat (n_1st_sect sample_sb)" by simp
  obtain s' where s': "init_fs 0 sample_cold = Inr s'" "root_good s' 0 ROOT_DEV sample_part sample_sb 292 5"
    "\<forall>k < 5. lookup sample_part s' 292 5 (mkfs_names ! k) = int k + 1"
    "can_create s' 0 ROOT_DEV sample_part sample_sb 292 5 5 6 (NR_DEFAULT_FILE_SECTS + 1)"
    using init_fs_ready [OF o d sample_can_mkfs c sb st] by auto
  have p: "strip_path (slash # cstr ''cmd.tar'') = Some (mkfs_names ! 4)" by code_simp
  have "mkfs_names ! 4 \<noteq> []" by (simp add: mkfs_names_def cstr_def)
  moreover have "root_ok s' 0 ROOT_DEV sample_part 292 5" using s'(2) by (simp add: root_good_def)
  ultimately obtain b where "search_file s' (slash # cstr ''cmd.tar'') = Inr (lookup sample_part s' 292 5 (mkfs_names ! 4), s'\<lparr>fsbuf := b\<rparr>)"
    using search_file_eq [OF _ p] by metis
  then show ?thesis using s' by auto
qed

end
