(* ===== verification/HdProbe.thy ===== *)
theory HdProbe
  imports Hd Fmt Ipc
begin

unbundle bit_operations_syntax

text \<open>
  The rest of \<open>kernel/hd.c\<close>: the polling of the status register, the registers of a
  command, the interrupt handler, the start of the driver and what it prints about
  the drive.  The flag \<open>responds\<close> of \<open>Hd\<close> stands for the answer of \<open>waitfor\<close>.
\<close>

section \<open>Polling\<close>

abbreviation (input) HD_TIMEOUT :: int where "HD_TIMEOUT \<equiv> 10000"
abbreviation (input) STATUS_BSY :: int where "STATUS_BSY \<equiv> 0x80"
abbreviation (input) STATUS_DRQ :: int where "STATUS_DRQ \<equiv> 0x08"

text \<open>
  \<open>tk n\<close> is what call \<open>n\<close> of \<open>get_ticks\<close> returns, \<open>st n\<close> what read \<open>n\<close> of the status
  register does; 100 is \<open>HZ\<close>.
\<close>

definition elapsed :: "(nat \<Rightarrow> int) \<Rightarrow> int \<Rightarrow> nat \<Rightarrow> int" where
  "elapsed tk t n = cint (cint (tk n - t) * 1000) sdiv 100"

partial_function (option) wait_loop :: "(nat \<Rightarrow> int) \<Rightarrow> (nat \<Rightarrow> u8) \<Rightarrow> int \<Rightarrow> int \<Rightarrow> int \<Rightarrow> int \<Rightarrow> nat \<Rightarrow> bool option" where
  "wait_loop tk st msk val timeout t n =
    (if elapsed tk t n < timeout
     then (if uint (st n) AND msk = val then Some True else wait_loop tk st msk val timeout t (Suc n))
     else Some False)"

definition waitfor :: "(nat \<Rightarrow> int) \<Rightarrow> (nat \<Rightarrow> u8) \<Rightarrow> int \<Rightarrow> int \<Rightarrow> int \<Rightarrow> bool option" where
  "waitfor tk st msk val timeout = wait_loop (\<lambda>n. tk (Suc n)) st msk val timeout (tk 0) 0"

text \<open>The polling stops at sample \<open>n\<close>: the time is up or the status is the one wanted.\<close>

definition stops :: "(nat \<Rightarrow> int) \<Rightarrow> (nat \<Rightarrow> u8) \<Rightarrow> int \<Rightarrow> int \<Rightarrow> int \<Rightarrow> nat \<Rightarrow> bool" where
  "stops tk st msk val timeout n \<longleftrightarrow> timeout \<le> elapsed (\<lambda>n. tk (Suc n)) (tk 0) n \<or> uint (st n) AND msk = val"

lemma wait_loop_stops:
  assumes "n \<le> m" and "\<forall>k. n \<le> k \<and> k < m \<longrightarrow> elapsed tk t k < timeout \<and> uint (st k) AND msk \<noteq> val"
    and "timeout \<le> elapsed tk t m \<or> uint (st m) AND msk = val"
  shows "wait_loop tk st msk val timeout t n = Some (elapsed tk t m < timeout)"
  using assms
proof (induction "m - n" arbitrary: n)
  case 0
  then have "n = m" by simp
  then show ?case using 0(4) by (subst wait_loop.simps) auto
next
  case (Suc d)
  have n: "d = m - Suc n" "n < m" using Suc(2) by simp_all
  have "wait_loop tk st msk val timeout t (Suc n) = Some (elapsed tk t m < timeout)"
    by (rule Suc(1) [OF n(1)]) (use n Suc(4,5) in simp_all)
  then show ?case using Suc(4) n(2) by (subst wait_loop.simps) auto
qed

text \<open>
  \<open>waitfor\<close> ends at the first sample that stops it, and says whether the status came
  in time.
\<close>

lemma waitfor_ends:
  assumes "stops tk st msk val timeout m" and "\<forall>k < m. \<not> stops tk st msk val timeout k"
  shows "waitfor tk st msk val timeout = Some (elapsed (\<lambda>n. tk (Suc n)) (tk 0) m < timeout)"
  unfolding waitfor_def by (rule wait_loop_stops) (use assms in \<open>auto simp: stops_def\<close>)

lemma wait_loop_Some: "wait_loop tk st msk val timeout t n = Some r \<Longrightarrow>
  \<exists>m. timeout \<le> elapsed tk t m \<or> uint (st m) AND msk = val"
proof (induction rule: wait_loop.raw_induct [rotated 1, consumes 1, case_names step])
  case (step f tk st msk val timeout t n r)
  then show ?case by (auto split: if_splits simp: not_less)
qed

text \<open>It does not end when no sample stops it: with interrupts off the ticks stand still.\<close>

lemma waitfor_hangs: "(\<forall>n. \<not> stops tk st msk val timeout n) \<Longrightarrow> waitfor tk st msk val timeout = None"
proof (rule ccontr)
  assume s: "\<forall>n. \<not> stops tk st msk val timeout n" and "waitfor tk st msk val timeout \<noteq> None"
  then obtain r where "wait_loop (\<lambda>n. tk (Suc n)) st msk val timeout (tk 0) 0 = Some r" by (auto simp: waitfor_def)
  from wait_loop_Some [OF this] show False using s by (auto simp: stops_def)
qed

section \<open>The registers of a command\<close>

abbreviation (input) REG_FEATURES :: u16 where "REG_FEATURES \<equiv> 0x1F1"
abbreviation (input) REG_NSECTOR :: u16 where "REG_NSECTOR \<equiv> 0x1F2"
abbreviation (input) REG_LBA_LOW :: u16 where "REG_LBA_LOW \<equiv> 0x1F3"
abbreviation (input) REG_LBA_MID :: u16 where "REG_LBA_MID \<equiv> 0x1F4"
abbreviation (input) REG_LBA_HIGH :: u16 where "REG_LBA_HIGH \<equiv> 0x1F5"
abbreviation (input) REG_DEVICE :: u16 where "REG_DEVICE \<equiv> 0x1F6"
abbreviation (input) REG_CMD :: u16 where "REG_CMD \<equiv> 0x1F7"
abbreviation (input) REG_DEV_CTRL :: u16 where "REG_DEV_CTRL \<equiv> 0x3F6"

text \<open>The bytes \<open>hd_cmd_out\<close> writes to the ports, in order; \<open>None\<close> when the polling does not end.\<close>

definition cmd_ports :: "(nat \<Rightarrow> int) \<Rightarrow> (nat \<Rightarrow> u8) \<Rightarrow> hd_cmd \<Rightarrow> (u16 \<times> u8) list kres option" where
  "cmd_ports tk st cmd =
    (case waitfor tk st STATUS_BSY 0 HD_TIMEOUT of
       None \<Rightarrow> None
     | Some ready \<Rightarrow> Some (ensure ready (Panic ''hd error'') (Inr
         [(REG_DEV_CTRL, 0), (REG_FEATURES, features cmd), (REG_NSECTOR, count cmd), (REG_LBA_LOW, lba_low cmd),
          (REG_LBA_MID, lba_mid cmd), (REG_LBA_HIGH, lba_high cmd), (REG_DEVICE, device cmd), (REG_CMD, command cmd)])))"

text \<open>The command a drive finds in its registers after these bytes: the one that was sent.\<close>

definition port_value :: "(u16 \<times> u8) list \<Rightarrow> u16 \<Rightarrow> u8" where
  "port_value ps r = (case map_of (rev ps) r of None \<Rightarrow> 0 | Some b \<Rightarrow> b)"

lemma cmd_ports_decode:
  assumes "cmd_ports tk st cmd = Some (Inr ps)"
  shows "cmd = \<lparr>features = port_value ps REG_FEATURES, count = port_value ps REG_NSECTOR, lba_low = port_value ps REG_LBA_LOW,
    lba_mid = port_value ps REG_LBA_MID, lba_high = port_value ps REG_LBA_HIGH, device = port_value ps REG_DEVICE,
    command = port_value ps REG_CMD\<rparr>"
  using assms by (auto simp: cmd_ports_def port_value_def split: option.splits if_splits)

section \<open>Start and interrupt\<close>

text \<open>\<open>init_hd\<close> with the number of drives the BIOS has counted; the lines of the interrupt controllers are in \<open>Gates\<close>.\<close>

definition init_hd :: "u8 \<Rightarrow> hd_state \<Rightarrow> hd_state kres" where
  "init_hd nr_drives s =
    ensure (nr_drives \<noteq> 0) (AH 68)
      (Inr (s\<lparr>hd_info := \<lparr>open_cnt = 0, primary = (\<lambda>_. \<lparr>base = 0, psize = 0\<rparr>), logical = (\<lambda>_. \<lparr>base = 0, psize = 0\<rparr>)\<rparr>\<rparr>))"

text \<open>\<open>hd_handler\<close>: the new \<open>hd_status\<close> and the kernel after the task is informed.\<close>

definition hd_handler :: "u8 \<Rightarrow> kstate \<Rightarrow> (u8 \<times> kstate) kres" where
  "hd_handler status k = rbind (inform_int k TASK_HD) (\<lambda>k'. Inr (status, k'))"

section \<open>What the driver prints\<close>

fun print_lines :: "(string \<times> va_arg list) list \<Rightarrow> string list kres" where
  "print_lines [] = Inr []"
| "print_lines ((fmt, args) # ls) = rbind (vsprintf fmt args) (\<lambda>t. rbind (print_lines ls) (\<lambda>ts. Inr (t # ts)))"

text \<open>A text of the identification: the two bytes of every word are swapped.\<close>

definition iden_text :: "(nat \<Rightarrow> u16) \<Rightarrow> nat \<Rightarrow> nat \<Rightarrow> string" where
  "iden_text hdinfo idx len =
    takeWhile (\<lambda>c. c \<noteq> CHR 0x00) (concat (map (\<lambda>i.
      [char_of (uint (drop_bit 8 (hdinfo (idx + i)))), char_of (uint (hdinfo (idx + i) AND 0xFF))]) [0..<len div 2]))"

definition print_identify_info :: "(nat \<Rightarrow> u16) \<Rightarrow> string list kres" where
  "print_identify_info hdinfo =
    (let sects = cint (uint (hdinfo 61) * 2 ^ 16) + uint (hdinfo 60) in
     print_lines [(''%s: %s\<newline>'', [VStr ''HD SN'', VStr (iden_text hdinfo 10 20)]),
              (''%s: %s\<newline>'', [VStr ''HD Model'', VStr (iden_text hdinfo 27 40)]),
              (''LBA supported: %s\<newline>'', [VStr (if hdinfo 49 AND 0x0200 \<noteq> 0 then ''Yes'' else ''No'')]),
              (''LBA48 supported: %s\<newline>'', [VStr (if hdinfo 83 AND 0x0400 \<noteq> 0 then ''Yes'' else ''No'')]),
              (''HD size: %dMB\<newline>'', [VInt (cint (sects * 512) sdiv 1000000)])])"

definition print_hdinfo :: "hd_info \<Rightarrow> string list kres" where
  "print_hdinfo hdi =
    print_lines (map (\<lambda>i. (''%sPART_%d: base %d(0x%x), size %d(0x%x) (in sector)\<newline>'',
       [VStr (if i = 0 then '' '' else ''     ''), VInt (int i), VInt (sint (base (primary hdi i))), VInt (sint (base (primary hdi i))),
        VInt (sint (psize (primary hdi i))), VInt (sint (psize (primary hdi i)))])) [0..<NR_PART_PER_DRIVE + 1] @
     map (\<lambda>i. (''         %d: base %d(0x%x), size %d(0x%x) (in sector)\<newline>'',
       [VInt (int i), VInt (sint (base (logical hdi i))), VInt (sint (base (logical hdi i))),
        VInt (sint (psize (logical hdi i))), VInt (sint (psize (logical hdi i)))]))
       (filter (\<lambda>i. psize (logical hdi i) \<noteq> 0) [0..<NR_SUB_PER_DRIVE]))"

end
