(* ===== verification/Console.thy ===== *)
theory Console
  imports Memory
begin

unbundle bit_operations_syntax

text \<open>
  The consoles, \<open>kernel/console.c\<close>: each of them has a third of the video memory, a
  cursor and the address of the first line on the screen, in units of a character
  cell of two bytes.  Of the CRT controller the state has its registers.
\<close>

record console =
  current_start_addr :: u32
  original_addr :: u32
  v_mem_limit :: u32
  cursor :: u32

record screen =
  console_table :: "nat \<Rightarrow> console"
  nr_current_console :: nat
  crtc :: "u8 \<Rightarrow> u8"
  cmem :: memory

abbreviation (input) NR_CONSOLES :: "'a::numeral" where "NR_CONSOLES \<equiv> 3"
abbreviation (input) V_MEM_BASE :: u32 where "V_MEM_BASE \<equiv> 0xB8000"
abbreviation (input) V_MEM_SIZE :: "'a::numeral" where "V_MEM_SIZE \<equiv> 0x8000"
abbreviation (input) START_ADDR_H :: u8 where "START_ADDR_H \<equiv> 0xC"
abbreviation (input) START_ADDR_L :: u8 where "START_ADDR_L \<equiv> 0xD"
abbreviation (input) CURSOR_H :: u8 where "CURSOR_H \<equiv> 0xE"
abbreviation (input) CURSOR_L :: u8 where "CURSOR_L \<equiv> 0xF"
abbreviation (input) SCR_UP :: int where "SCR_UP \<equiv> 1"
abbreviation (input) SCR_DN :: int where "SCR_DN \<equiv> -1"
abbreviation (input) SCREEN_SIZE :: "'a::numeral" where "SCREEN_SIZE \<equiv> 2000"
abbreviation (input) SCREEN_WIDTH :: "'a::numeral" where "SCREEN_WIDTH \<equiv> 80"
abbreviation (input) DEFAULT_CHAR_COLOR :: u8 where "DEFAULT_CHAR_COLOR \<equiv> 7"
abbreviation (input) newline :: u8 where "newline \<equiv> 10"
abbreviation (input) backspace :: u8 where "backspace \<equiv> 8"
abbreviation (input) blank :: u8 where "blank \<equiv> 32"

section \<open>The code\<close>

definition upd_con :: "nat \<Rightarrow> (console \<Rightarrow> console) \<Rightarrow> 'a screen_scheme \<Rightarrow> 'a screen_scheme" where
  "upd_con c f s = s\<lparr>console_table := (console_table s)(c := f (console_table s c))\<rparr>"

definition is_current_console :: "'a screen_scheme \<Rightarrow> nat \<Rightarrow> bool" where
  "is_current_console s c \<longleftrightarrow> c = nr_current_console s"

definition set_cursor :: "u32 \<Rightarrow> 'a screen_scheme \<Rightarrow> 'a screen_scheme" where
  "set_cursor position s = s\<lparr>crtc := (crtc s)(CURSOR_H := ucast (drop_bit 8 position AND 0xFF),
     CURSOR_L := ucast (position AND 0xFF))\<rparr>"

definition set_video_start_addr :: "u32 \<Rightarrow> 'a screen_scheme \<Rightarrow> 'a screen_scheme" where
  "set_video_start_addr addr s = s\<lparr>crtc := (crtc s)(START_ADDR_H := ucast (drop_bit 8 addr AND 0xFF),
     START_ADDR_L := ucast (addr AND 0xFF))\<rparr>"

definition flush :: "nat \<Rightarrow> 'a screen_scheme \<Rightarrow> 'a screen_scheme" where
  "flush c s =
    (if is_current_console s c
     then set_video_start_addr (current_start_addr (console_table s c)) (set_cursor (cursor (console_table s c)) s)
     else s)"

definition select_console :: "int \<Rightarrow> 'a screen_scheme \<Rightarrow> 'a screen_scheme" where
  "select_console nr s =
    (if nr < 0 \<or> NR_CONSOLES \<le> nr then s else flush (nat nr) (s\<lparr>nr_current_console := nat nr\<rparr>))"

definition scroll_screen :: "nat \<Rightarrow> int \<Rightarrow> 'a screen_scheme \<Rightarrow> 'a screen_scheme" where
  "scroll_screen c direction s =
    (let p = console_table s c in
     flush c
      (if direction = SCR_UP then
         (if current_start_addr p > original_addr p
          then upd_con c (\<lambda>p. p\<lparr>current_start_addr := current_start_addr p - SCREEN_WIDTH\<rparr>) s else s)
       else if direction = SCR_DN then
         (if current_start_addr p + SCREEN_SIZE < original_addr p + v_mem_limit p
          then upd_con c (\<lambda>p. p\<lparr>current_start_addr := current_start_addr p + SCREEN_WIDTH\<rparr>) s else s)
       else s))"

text \<open>The loop that brings the cursor onto the screen; it would not end on a console that cannot scroll that far.\<close>

partial_function (option) scroll_loop :: "nat \<Rightarrow> 'a screen_scheme \<Rightarrow> 'a screen_scheme option" where
  "scroll_loop c s =
    (if cursor (console_table s c) \<ge> current_start_addr (console_table s c) + SCREEN_SIZE
     then scroll_loop c (scroll_screen c SCR_DN s) else Some s)"

definition put_cell :: "u32 \<Rightarrow> u8 \<Rightarrow> 'a screen_scheme \<Rightarrow> 'a screen_scheme" where
  "put_cell a ch s = s\<lparr>cmem := (cmem s)(a := ch, a + 1 := DEFAULT_CHAR_COLOR)\<rparr>"

definition put_char :: "nat \<Rightarrow> u8 \<Rightarrow> 'a screen_scheme \<Rightarrow> 'a screen_scheme" where
  "put_char c ch s =
    (let p = console_table s c; p_vmem = V_MEM_BASE + cursor p * 2 in
     if ch = newline then
       (if cursor p < original_addr p + v_mem_limit p - SCREEN_WIDTH
        then upd_con c (\<lambda>p. p\<lparr>cursor := original_addr p +
               SCREEN_WIDTH * ((cursor p - original_addr p) div SCREEN_WIDTH + 1)\<rparr>) s else s)
     else if ch = backspace then
       (if cursor p > original_addr p
        then put_cell (p_vmem - 2) blank (upd_con c (\<lambda>p. p\<lparr>cursor := cursor p - 1\<rparr>) s) else s)
     else
       (if cursor p < original_addr p + v_mem_limit p - 1
        then upd_con c (\<lambda>p. p\<lparr>cursor := cursor p + 1\<rparr>) (put_cell p_vmem ch s) else s))"

definition out_char :: "nat \<Rightarrow> u8 \<Rightarrow> 'a screen_scheme \<Rightarrow> 'a screen_scheme kres" where
  "out_char c ch s = run_loop (scroll_loop c (put_char c ch s)) (\<lambda>s'. Inr (flush c s'))"

text \<open>\<open>init_screen\<close>; the position the kernel has printed to, \<open>disp_pos\<close>, is passed and set to 0 by the caller.\<close>

definition init_screen :: "nat \<Rightarrow> int \<Rightarrow> 'a screen_scheme \<Rightarrow> 'a screen_scheme kres" where
  "init_screen nr disp_pos s =
    (let size = word_of_int ((V_MEM_SIZE div 2) div NR_CONSOLES); orig = of_nat nr * size;
         s1 = upd_con nr (\<lambda>p. \<lparr>current_start_addr = orig, original_addr = orig, v_mem_limit = size,
                cursor = (if nr = 0 then word_of_int (disp_pos sdiv 2) else orig)\<rparr>) s in
     rbind (if nr = 0 then Inr s1
            else rbind (out_char nr (of_nat (nr + 48)) s1) (\<lambda>s2. out_char nr 0x23 s2)) (\<lambda>s3.
     Inr (set_cursor (cursor (console_table s3 nr)) s3)))"

section \<open>The invariant\<close>

text \<open>
  The cursor is inside the console's part of the video memory, and the first line
  shown is a whole number of lines from its start.
\<close>

definition con_ok :: "nat \<Rightarrow> console \<Rightarrow> bool" where
  "con_ok c p \<longleftrightarrow> (\<exists>k l. original_addr p = of_nat (c * 5461) \<and> v_mem_limit p = 5461 \<and>
     cursor p = of_nat (c * 5461 + k) \<and> k < 5461 \<and>
     current_start_addr p = of_nat (c * 5461 + l * 80) \<and> l \<le> 44)"

definition screen_ok :: "'a screen_scheme \<Rightarrow> bool" where
  "screen_ok s \<longleftrightarrow> nr_current_console s < NR_CONSOLES \<and> (\<forall>c < NR_CONSOLES. con_ok c (console_table s c))"

text \<open>The bytes of the video memory that belong to a console.\<close>

definition con_area :: "nat \<Rightarrow> u32 set" where
  "con_area c = {V_MEM_BASE + of_nat (2 * c * 5461 + i) | i. i < 2 * 5461}"

lemma upd_con_simps [simp]:
  "console_table (upd_con c f s) = (console_table s)(c := f (console_table s c))"
  "nr_current_console (upd_con c f s) = nr_current_console s" "cmem (upd_con c f s) = cmem s"
  "screen.more (upd_con c f s) = screen.more s"
  "console_table (put_cell a ch s) = console_table s" "nr_current_console (put_cell a ch s) = nr_current_console s"
  "cmem (put_cell a ch s) = (cmem s)(a := ch, a + 1 := DEFAULT_CHAR_COLOR)"
  "screen.more (put_cell a ch s) = screen.more s"
  "console_table (flush c s) = console_table s" "nr_current_console (flush c s) = nr_current_console s"
  "cmem (flush c s) = cmem s" "screen.more (flush c s) = screen.more s"
  "console_table (set_cursor x s) = console_table s" "nr_current_console (set_cursor x s) = nr_current_console s"
  "cmem (set_cursor x s) = cmem s" "screen.more (set_cursor x s) = screen.more s"
  by (simp_all add: upd_con_def put_cell_def flush_def set_cursor_def set_video_start_addr_def)

lemma screen_ok_cong:
  "console_table s' = console_table s \<Longrightarrow> nr_current_console s' = nr_current_console s \<Longrightarrow>
   screen_ok s' = screen_ok s"
  by (simp add: screen_ok_def)

lemma screen_ok_upd:
  "screen_ok s \<Longrightarrow> c < NR_CONSOLES \<Longrightarrow> con_ok c (f (console_table s c)) \<Longrightarrow> screen_ok (upd_con c f s)"
  by (simp add: screen_ok_def)

lemma word_small:
  "a < 2 ^ 31 \<Longrightarrow> b < 2 ^ 31 \<Longrightarrow> (of_nat a < (of_nat b :: u32)) = (a < b)"
  "a < 2 ^ 31 \<Longrightarrow> b < 2 ^ 31 \<Longrightarrow> (of_nat a \<le> (of_nat b :: u32)) = (a \<le> b)"
  by (simp_all add: word_less_nat_alt word_le_nat_alt unat_of_nat)

text \<open>A console with its cursor at cell \<open>k\<close> and its screen from line \<open>l\<close> on.\<close>

definition con_at :: "nat \<Rightarrow> nat \<Rightarrow> nat \<Rightarrow> console" where
  "con_at c k l = \<lparr>current_start_addr = of_nat (c * 5461 + l * 80), original_addr = of_nat (c * 5461),
     v_mem_limit = 5461, cursor = of_nat (c * 5461 + k)\<rparr>"

lemma con_ok_at: "con_ok c p \<longleftrightarrow> (\<exists>k l. p = con_at c k l \<and> k < 5461 \<and> l \<le> 44)"
  unfolding con_ok_def con_at_def by (cases p) auto

lemma con_at_conds:
  assumes "c < 3" and "k < 5461" and "l \<le> 44"
  shows "current_start_addr (con_at c k l) > original_addr (con_at c k l) \<longleftrightarrow> 0 < l"
    and "current_start_addr (con_at c k l) + SCREEN_SIZE < original_addr (con_at c k l) + v_mem_limit (con_at c k l)
      \<longleftrightarrow> l < 44"
    and "cursor (con_at c k l) \<ge> current_start_addr (con_at c k l) + SCREEN_SIZE \<longleftrightarrow> l * 80 + 2000 \<le> k"
    and "cursor (con_at c k l) < original_addr (con_at c k l) + v_mem_limit (con_at c k l) - SCREEN_WIDTH \<longleftrightarrow> k < 5381"
    and "cursor (con_at c k l) > original_addr (con_at c k l) \<longleftrightarrow> 0 < k"
    and "cursor (con_at c k l) < original_addr (con_at c k l) + v_mem_limit (con_at c k l) - 1 \<longleftrightarrow> k < 5460"
proof -
  let ?p = "con_at c k l"
  have s: "current_start_addr ?p = of_nat (c * 5461 + l * 80)" and o: "original_addr ?p = of_nat (c * 5461)"
    and k: "cursor ?p = of_nat (c * 5461 + k)"
    and s': "current_start_addr ?p + SCREEN_SIZE = of_nat (c * 5461 + l * 80 + 2000)"
    and o': "original_addr ?p + v_mem_limit ?p = of_nat (c * 5461 + 5461)"
    and o1: "original_addr ?p + v_mem_limit ?p - 1 = of_nat (c * 5461 + 5460)"
    and o80: "original_addr ?p + v_mem_limit ?p - SCREEN_WIDTH = of_nat (c * 5461 + 5381)"
    by (simp_all add: con_at_def)
  note w = word_small
  show "current_start_addr ?p > original_addr ?p \<longleftrightarrow> 0 < l"
    unfolding s o using assms by (subst w) auto
  show "current_start_addr ?p + SCREEN_SIZE < original_addr ?p + v_mem_limit ?p \<longleftrightarrow> l < 44"
    unfolding s' o' using assms by (subst w) auto
  show "cursor ?p \<ge> current_start_addr ?p + SCREEN_SIZE \<longleftrightarrow> l * 80 + 2000 \<le> k"
    unfolding s' k using assms by (subst w) auto
  show "cursor ?p < original_addr ?p + v_mem_limit ?p - SCREEN_WIDTH \<longleftrightarrow> k < 5381"
    unfolding o80 k using assms by (subst w) auto
  show "cursor ?p > original_addr ?p \<longleftrightarrow> 0 < k"
    unfolding o k using assms by (subst w) auto
  show "cursor ?p < original_addr ?p + v_mem_limit ?p - 1 \<longleftrightarrow> k < 5460"
    unfolding o1 k using assms by (subst w) auto
qed

lemma screen_okE:
  assumes "screen_ok s" and "c < 3"
  obtains k l where "console_table s c = con_at c k l" and "k < 5461" and "l \<le> 44"
  using assms con_ok_at by (auto simp: screen_ok_def)

lemma screen_ok_at:
  "screen_ok s \<Longrightarrow> c < 3 \<Longrightarrow> console_table s' = (console_table s)(c := con_at c k l) \<Longrightarrow> k < 5461 \<Longrightarrow> l \<le> 44 \<Longrightarrow>
   nr_current_console s' = nr_current_console s \<Longrightarrow> screen_ok s'"
  by (auto simp: screen_ok_def con_ok_at)

section \<open>Scrolling\<close>

lemma scroll_screen_at:
  assumes "console_table s c = con_at c k l" and "c < 3" and "k < 5461" and "l \<le> 44"
  shows "console_table (scroll_screen c dir s) = (console_table s)(c := con_at c k
      (if dir = SCR_UP then l - 1 else if dir = SCR_DN \<and> l < 44 then l + 1 else l))"
    and "nr_current_console (scroll_screen c dir s) = nr_current_console s"
    and "cmem (scroll_screen c dir s) = cmem s" and "screen.more (scroll_screen c dir s) = screen.more s"
proof -
  note conds = con_at_conds [OF assms(2-4)]
  have up: "0 < l \<Longrightarrow> (con_at c k l)\<lparr>current_start_addr := current_start_addr (con_at c k l) - SCREEN_WIDTH\<rparr> =
      con_at c k (l - 1)"
    by (cases l) (simp_all add: con_at_def)
  have dn: "(con_at c k l)\<lparr>current_start_addr := current_start_addr (con_at c k l) + SCREEN_WIDTH\<rparr> = con_at c k (l + 1)"
    by (simp add: con_at_def add_ac)
  show "console_table (scroll_screen c dir s) = (console_table s)(c := con_at c k
      (if dir = SCR_UP then l - 1 else if dir = SCR_DN \<and> l < 44 then l + 1 else l))"
    using assms(1) up dn
    by (simp only: scroll_screen_def Let_def assms(1) conds) (auto simp: fun_eq_iff assms(1))
  show "nr_current_console (scroll_screen c dir s) = nr_current_console s"
    "cmem (scroll_screen c dir s) = cmem s" "screen.more (scroll_screen c dir s) = screen.more s"
    by (auto simp: scroll_screen_def Let_def)
qed

lemma scroll_screen_ok:
  assumes "screen_ok s" and "c < 3"
  shows "screen_ok (scroll_screen c dir s)"
proof -
  obtain k l where p: "console_table s c = con_at c k l" "k < 5461" "l \<le> 44"
    using screen_okE [OF assms] .
  note sc = scroll_screen_at [OF p(1) assms(2) p(2,3), of dir]
  show ?thesis by (rule screen_ok_at [OF assms sc(1) p(2) _ sc(2)]) (use p(3) in auto)
qed

lemma scroll_loop_ends:
  assumes "console_table s c = con_at c k l" and "c < 3" and "k < 5461" and "l \<le> 44"
  shows "\<exists>s' l'. scroll_loop c s = Some s' \<and> console_table s' = (console_table s)(c := con_at c k l') \<and> l' \<le> 44 \<and>
    l \<le> l' \<and> k < l' * 80 + 2000 \<and> nr_current_console s' = nr_current_console s \<and> cmem s' = cmem s \<and>
    screen.more s' = screen.more s"
  using assms
proof (induction "44 - l" arbitrary: l s)
  case 0
  then have "\<not> l * 80 + 2000 \<le> k" by simp
  then have "scroll_loop c s = Some s"
    using 0 con_at_conds(3) [of c k l] by (simp add: scroll_loop.simps [of c s])
  then show ?case using 0 by (intro exI [of _ s] exI [of _ l]) auto
next
  case (Suc m)
  note conds = con_at_conds(3) [OF Suc.prems(2-4)]
  show ?case
  proof (cases "l * 80 + 2000 \<le> k")
    case False
    then have "scroll_loop c s = Some s"
      using Suc.prems conds by (simp add: scroll_loop.simps [of c s])
    then show ?thesis using Suc.prems False by (intro exI [of _ s] exI [of _ l]) auto
  next
    case True
    have l: "l < 44" using Suc.hyps(2) by simp
    let ?s1 = "scroll_screen c SCR_DN s"
    note sc = scroll_screen_at [OF Suc.prems, of SCR_DN]
    have c1: "console_table ?s1 = (console_table s)(c := con_at c k (l + 1))" using sc(1) l by simp
    have "\<exists>s' l'. scroll_loop c ?s1 = Some s' \<and> console_table s' = (console_table ?s1)(c := con_at c k l') \<and>
      l' \<le> 44 \<and> l + 1 \<le> l' \<and> k < l' * 80 + 2000 \<and> nr_current_console s' = nr_current_console ?s1 \<and>
      cmem s' = cmem ?s1 \<and> screen.more s' = screen.more ?s1"
      using Suc.hyps(2) Suc.prems c1 l by (intro Suc.hyps(1)) auto
    moreover have "scroll_loop c s = scroll_loop c ?s1"
      using True Suc.prems(1) conds by (simp add: scroll_loop.simps [of c s])
    ultimately show ?thesis using sc c1 by (auto intro: Suc_leD)
  qed
qed

section \<open>Printing a character\<close>

text \<open>The cell after printing a character at cell \<open>k\<close>.\<close>

definition next_cell :: "u8 \<Rightarrow> nat \<Rightarrow> nat" where
  "next_cell ch k = (if ch = newline then if k < 5381 then 80 * (k div 80 + 1) else k
     else if ch = backspace then k - 1 else if k < 5460 then k + 1 else k)"

lemma next_cell_bound: "k < 5461 \<Longrightarrow> next_cell ch k < 5461"
  by (auto simp: next_cell_def)

lemma put_char_at:
  assumes "console_table s c = con_at c k l" and "c < 3" and "k < 5461" and "l \<le> 44"
  shows "console_table (put_char c ch s) = (console_table s)(c := con_at c (next_cell ch k) l)"
    and "nr_current_console (put_char c ch s) = nr_current_console s"
    and "screen.more (put_char c ch s) = screen.more s"
    and "a \<notin> con_area c \<Longrightarrow> cmem (put_char c ch s) a = cmem s a"
    and "ch \<noteq> newline \<Longrightarrow> ch \<noteq> backspace \<Longrightarrow> k < 5460 \<Longrightarrow>
       cmem (put_char c ch s) (V_MEM_BASE + of_nat (2 * (c * 5461 + k))) = ch \<and>
       cmem (put_char c ch s) (V_MEM_BASE + of_nat (2 * (c * 5461 + k)) + 1) = DEFAULT_CHAR_COLOR"
proof -
  note conds = con_at_conds [OF assms(2-4)]
  let ?p = "con_at c k l"
  have div: "(cursor ?p - original_addr ?p) div SCREEN_WIDTH + 1 = of_nat (k div 80 + 1)"
  proof -
    have "cursor ?p - original_addr ?p = of_nat k" by (simp add: con_at_def)
    moreover have "(of_nat k :: u32) div SCREEN_WIDTH = of_nat (k div 80)"
      using assms(3) by (simp add: word_eq_iff_unsigned unat_div unat_of_nat word_unat_eq_iff)
    ultimately show ?thesis by simp
  qed
  have nl: "?p\<lparr>cursor := original_addr ?p + SCREEN_WIDTH * ((cursor ?p - original_addr ?p) div SCREEN_WIDTH + 1)\<rparr> =
      con_at c (80 * (k div 80 + 1)) l"
    unfolding div by (simp add: con_at_def algebra_simps)
  have bs: "0 < k \<Longrightarrow> ?p\<lparr>cursor := cursor ?p - 1\<rparr> = con_at c (k - 1) l"
    by (cases k) (simp_all add: con_at_def)
  have nx: "?p\<lparr>cursor := cursor ?p + 1\<rparr> = con_at c (k + 1) l" by (simp add: con_at_def add_ac)
  show "console_table (put_char c ch s) = (console_table s)(c := con_at c (next_cell ch k) l)"
    using assms(1) nl bs nx
    by (simp only: put_char_def Let_def assms(1) conds next_cell_def) (auto simp: fun_eq_iff assms(1))
  show "nr_current_console (put_char c ch s) = nr_current_console s"
    "screen.more (put_char c ch s) = screen.more s"
    by (auto simp: put_char_def Let_def)
  have cell: "V_MEM_BASE + cursor ?p * 2 = V_MEM_BASE + of_nat (2 * (c * 5461 + k))"
    by (simp add: con_at_def algebra_simps)
  have in_area: "V_MEM_BASE + of_nat (2 * (c * 5461 + j)) \<in> con_area c"
    "V_MEM_BASE + of_nat (2 * (c * 5461 + j)) + 1 \<in> con_area c" if "j < 5461" for j
  proof -
    have e: "V_MEM_BASE + of_nat (2 * (c * 5461 + j)) = V_MEM_BASE + of_nat (2 * c * 5461 + 2 * j)"
      "V_MEM_BASE + of_nat (2 * (c * 5461 + j)) + 1 = V_MEM_BASE + of_nat (2 * c * 5461 + (2 * j + 1))"
      by simp_all
    have j: "2 * j < 2 * 5461" "2 * j + 1 < 2 * 5461" using that by simp_all
    show "V_MEM_BASE + of_nat (2 * (c * 5461 + j)) \<in> con_area c"
      unfolding e(1) con_area_def using j(1) by blast
    show "V_MEM_BASE + of_nat (2 * (c * 5461 + j)) + 1 \<in> con_area c"
      unfolding e(2) con_area_def using j(2) by blast
  qed
  have prev: "0 < k \<Longrightarrow> V_MEM_BASE + cursor ?p * 2 - 2 = V_MEM_BASE + of_nat (2 * (c * 5461 + (k - 1)))"
    by (cases k) (simp_all add: con_at_def algebra_simps)
  show "cmem (put_char c ch s) a = cmem s a" if "a \<notin> con_area c"
  proof -
    have "k - 1 < 5461" using assms(3) by simp
    with that in_area [of k] in_area [of "k - 1"] assms(3)
    have "a \<noteq> V_MEM_BASE + cursor ?p * 2" "a \<noteq> V_MEM_BASE + cursor ?p * 2 + 1"
      unfolding cell by metis+
    moreover have "a \<noteq> V_MEM_BASE + cursor ?p * 2 - 2" "a \<noteq> V_MEM_BASE + cursor ?p * 2 - 2 + 1" if "0 < k"
      unfolding prev [OF that] using in_area [OF \<open>k - 1 < 5461\<close>] \<open>a \<notin> con_area c\<close> by metis+
    ultimately have n: "(m(V_MEM_BASE + cursor ?p * 2 := x, V_MEM_BASE + cursor ?p * 2 + 1 := y)) a = m a"
      "0 < k \<Longrightarrow> (m(V_MEM_BASE + cursor ?p * 2 - 2 := x, V_MEM_BASE + cursor ?p * 2 - 2 + 1 := y)) a = m a"
      for m :: memory and x y
      by (simp_all only: fun_upd_other not_False_eq_True)
    show ?thesis
      by (simp only: put_char_def Let_def assms(1) conds)
        (simp only: upd_con_simps n simp_thms split: if_split, intro impI conjI, (rule n(2), assumption)+)
  qed
  show "cmem (put_char c ch s) (V_MEM_BASE + of_nat (2 * (c * 5461 + k))) = ch \<and>
       cmem (put_char c ch s) (V_MEM_BASE + of_nat (2 * (c * 5461 + k)) + 1) = DEFAULT_CHAR_COLOR"
    if "ch \<noteq> newline" "ch \<noteq> backspace" "k < 5460"
    using that by (simp only: put_char_def Let_def assms(1) conds) (auto simp: cell)
qed

lemma out_char_at:
  assumes "console_table s c = con_at c k l" and "c < 3" and "k < 5461" and "l \<le> 44"
  obtains s' l' where "out_char c ch s = Inr s'"
    and "console_table s' = (console_table s)(c := con_at c (next_cell ch k) l')" and "l' \<le> 44" and "l \<le> l'"
    and "next_cell ch k < l' * 80 + 2000" and "nr_current_console s' = nr_current_console s"
    and "cmem s' = cmem (put_char c ch s)" and "screen.more s' = screen.more s"
proof -
  note pc = put_char_at [OF assms, where ch = ch]
  have "console_table (put_char c ch s) c = con_at c (next_cell ch k) l" using pc(1) by simp
  from scroll_loop_ends [OF this assms(2) next_cell_bound [OF assms(3)] assms(4)] pc
  show thesis using that by (auto simp: out_char_def)
qed

end
