(* ===== verification/Ring.thy ===== *)
theory Ring
  imports Consts
begin

text \<open>
  The interface of a bounded first-in-first-out buffer that drops what does not
  fit, as the keyboard driver and the terminals rely on it, and the circular
  array behind both implementations.
\<close>

section \<open>The interface\<close>

locale bounded_fifo =
  fixes contents :: "'s \<Rightarrow> 'a list"
    and put :: "'a \<Rightarrow> 's \<Rightarrow> 's"
    and get :: "'s \<Rightarrow> 'a \<times> 's"
    and valid :: "'s \<Rightarrow> bool"
    and cap :: nat
  assumes length_contents: "valid s \<Longrightarrow> length (contents s) \<le> cap"
    and valid_put: "valid s \<Longrightarrow> valid (put x s)"
    and contents_put: "valid s \<Longrightarrow>
      contents (put x s) = (if length (contents s) < cap then contents s @ [x] else contents s)"
    and valid_get: "valid s \<Longrightarrow> contents s \<noteq> [] \<Longrightarrow> valid (snd (get s))"
    and contents_get: "valid s \<Longrightarrow> contents s \<noteq> [] \<Longrightarrow> contents s = fst (get s) # contents (snd (get s))"
begin

definition puts :: "'a list \<Rightarrow> 's \<Rightarrow> 's" where
  "puts xs s = fold put xs s"

primrec gets :: "nat \<Rightarrow> 's \<Rightarrow> 'a list \<times> 's" where
  "gets 0 s = ([], s)"
| "gets (Suc n) s = (let (x, s1) = get s; (xs, s2) = gets n s1 in (x # xs, s2))"

lemma puts_simps [simp]: "puts [] s = s" "puts (x # xs) s = puts xs (put x s)"
  by (simp_all add: puts_def)

text \<open>What arrives first is kept, up to the capacity.\<close>

lemma contents_puts: "valid s \<Longrightarrow> valid (puts xs s) \<and> contents (puts xs s) = take cap (contents s @ xs)"
proof (induction xs arbitrary: s)
  case Nil
  then show ?case using length_contents by simp
next
  case (Cons x xs)
  have IH: "valid (puts xs (put x s)) \<and> contents (puts xs (put x s)) = take cap (contents (put x s) @ xs)"
    by (rule Cons.IH [OF valid_put [OF Cons.prems]])
  show ?case
  proof (cases "length (contents s) < cap")
    case True
    then show ?thesis using IH contents_put [OF Cons.prems, of x] by simp
  next
    case False
    then have "length (contents s) = cap" using length_contents [OF Cons.prems] by simp
    then show ?thesis using IH contents_put [OF Cons.prems, of x] by simp
  qed
qed

lemma gets_contents:
  "valid s \<Longrightarrow> n \<le> length (contents s) \<Longrightarrow> fst (gets n s) = take n (contents s) \<and>
   contents (snd (gets n s)) = drop n (contents s) \<and> valid (snd (gets n s))"
proof (induction n arbitrary: s)
  case (Suc n)
  have ne: "contents s \<noteq> []" using Suc.prems(2) by auto
  obtain x s1 where x: "get s = (x, s1)" by (cases "get s")
  have c: "contents s = x # contents s1" and v: "valid s1"
    using contents_get [OF Suc.prems(1) ne] valid_get [OF Suc.prems(1) ne] by (simp_all add: x)
  have "n \<le> length (contents s1)" using Suc.prems(2) c by simp
  from Suc.IH [OF v this] show ?case using c by (simp add: x split: prod.split) (metis fst_conv snd_conv)
qed simp

text \<open>A buffer that was empty gives back what was put into it, in order.\<close>

lemma gets_puts:
  assumes "valid s" and "contents s = []" and "length xs \<le> cap"
  shows "fst (gets (length xs) (puts xs s)) = xs \<and> contents (snd (gets (length xs) (puts xs s))) = []"
  using contents_puts [OF assms(1), of xs] gets_contents [of "puts xs s" "length xs"] assms(2,3) by simp

end

section \<open>Circular arrays\<close>

text \<open>The \<open>n\<close> elements from index \<open>t\<close> on in an array of \<open>N\<close> elements.\<close>

definition ring_list :: "nat \<Rightarrow> (nat \<Rightarrow> 'a) \<Rightarrow> nat \<Rightarrow> nat \<Rightarrow> 'a list" where
  "ring_list N b t n = map (\<lambda>k. b ((t + k) mod N)) [0..<n]"

text \<open>A pointer that is incremented and set back to the start when it reaches the end.\<close>

abbreviation (input) wrap :: "nat \<Rightarrow> nat \<Rightarrow> nat" where
  "wrap N p \<equiv> (if p + 1 = N then 0 else p + 1)"

lemma wrap_mod: "p < N \<Longrightarrow> wrap N p = (p + 1) mod N"
  by auto

lemma length_ring [simp]: "length (ring_list N b t n) = n"
  by (simp add: ring_list_def)

lemma ring_0 [simp]: "ring_list N b t 0 = []"
  by (simp add: ring_list_def)

lemma ring_put:
  assumes "n < N" and "h = (t + n) mod N"
  shows "ring_list N (b(h := x)) t (Suc n) = ring_list N b t n @ [x]"
proof -
  have "(t + k) mod N \<noteq> h" if "k < n" for k
  proof
    assume "(t + k) mod N = h"
    then have "(t + n) mod N = (t + k) mod N" using assms(2) by simp
    then have "N dvd (t + n) - (t + k)" using that by (subst (asm) mod_eq_dvd_iff_nat) simp_all
    then have "N dvd n - k" by simp
    then show False using that assms(1) by (simp add: nat_dvd_not_less)
  qed
  then show ?thesis using assms(2) by (simp add: ring_list_def)
qed

lemma ring_get: "ring_list N b t (Suc n) = b (t mod N) # ring_list N b ((t + 1) mod N) n"
proof -
  have "((t + 1) mod N + k) mod N = (t + Suc k) mod N" for k by (simp add: mod_add_left_eq)
  then show ?thesis by (simp add: ring_list_def map_upt_Suc del: upt_Suc)
qed

text \<open>A ring of \<open>N\<close> cells with its head, its tail and the number of elements, as an int.\<close>

definition ring_ok :: "nat \<Rightarrow> nat \<Rightarrow> nat \<Rightarrow> int \<Rightarrow> bool" where
  "ring_ok N h t n \<longleftrightarrow> t < N \<and> 0 \<le> n \<and> n \<le> int N \<and> h = (t + nat n) mod N"

lemma ring_ok_bounds: "ring_ok N h t n \<Longrightarrow> t < N \<and> h < N \<and> 0 \<le> n \<and> n \<le> int N"
  by (auto simp: ring_ok_def)

lemma ring_ok_put:
  assumes "ring_ok N h t n" and "n < int N"
  shows "ring_ok N (wrap N h) t (n + 1)"
    and "ring_list N (b(h := x)) t (nat (n + 1)) = ring_list N b t (nat n) @ [x]"
proof -
  have n: "nat (n + 1) = Suc (nat n)" "nat n < N" and h: "h < N" "h = (t + nat n) mod N"
    using assms by (auto simp: ring_ok_def nat_add_distrib)
  show "ring_ok N (wrap N h) t (n + 1)"
    unfolding wrap_mod [OF h(1)] using assms n(1) by (simp add: ring_ok_def mod_simps)
  show "ring_list N (b(h := x)) t (nat (n + 1)) = ring_list N b t (nat n) @ [x]"
    unfolding n(1) by (rule ring_put [OF n(2) h(2)])
qed

lemma ring_ok_get:
  assumes "ring_ok N h t n" and "0 < n"
  shows "ring_ok N h (wrap N t) (n - 1)"
    and "ring_list N b t (nat n) = b t # ring_list N b (wrap N t) (nat (n - 1))"
proof -
  have n: "nat n = Suc (nat (n - 1))" and t: "t < N" using assms by (auto simp: ring_ok_def)
  show "ring_ok N h (wrap N t) (n - 1)"
    unfolding wrap_mod [OF t] using assms n by (simp add: ring_ok_def mod_simps)
  show "ring_list N b t (nat n) = b t # ring_list N b (wrap N t) (nat (n - 1))"
    unfolding n wrap_mod [OF t] using ring_get [of N b t "nat (n - 1)"] t by simp
qed

end
