(* ===== verification/Keyboard.thy ===== *)
theory Keyboard
  imports Ring
begin

unbundle bit_operations_syntax

text \<open>
  The keyboard driver, \<open>kernel/keyboard.c\<close>: the interrupt handler that puts scan
  codes into a circular buffer, the decoder that turns them into keys, and the
  keymap of \<open>include/sys/keymap.h\<close>.  Of the hardware the model has the bytes that
  reads of the ports return: \<open>status\<close> for \<open>KB_CMD\<close>, \<open>answers\<close> for the answers of the
  controller on \<open>KB_DATA\<close>; \<open>coming\<close> are the scan codes that interrupts deliver while
  the driver waits for a byte.  The flags the code keeps as ints 0 and 1 are
  booleans.
\<close>

section \<open>Constants of \<open>include/sys/keyboard.h\<close>\<close>

abbreviation (input) KB_IN_BYTES :: nat where "KB_IN_BYTES \<equiv> 32"
abbreviation (input) MAP_COLS :: nat where "MAP_COLS \<equiv> 3"
abbreviation (input) NR_SCAN_CODES :: nat where "NR_SCAN_CODES \<equiv> 0x80"
abbreviation (input) FLAG_BREAK :: u8 where "FLAG_BREAK \<equiv> 0x0080"
abbreviation (input) FLAG_EXT :: u32 where "FLAG_EXT \<equiv> 0x0100"
abbreviation (input) FLAG_SHIFT_L :: u32 where "FLAG_SHIFT_L \<equiv> 0x0200"
abbreviation (input) FLAG_SHIFT_R :: u32 where "FLAG_SHIFT_R \<equiv> 0x0400"
abbreviation (input) FLAG_CTRL_L :: u32 where "FLAG_CTRL_L \<equiv> 0x0800"
abbreviation (input) FLAG_CTRL_R :: u32 where "FLAG_CTRL_R \<equiv> 0x1000"
abbreviation (input) FLAG_ALT_L :: u32 where "FLAG_ALT_L \<equiv> 0x2000"
abbreviation (input) FLAG_ALT_R :: u32 where "FLAG_ALT_R \<equiv> 0x4000"
abbreviation (input) FLAG_PAD :: u32 where "FLAG_PAD \<equiv> 0x8000"
abbreviation (input) MASK_RAW :: u32 where "MASK_RAW \<equiv> 0x01FF"
abbreviation (input) ESC :: u32 where "ESC \<equiv> 0x101"
abbreviation (input) TAB :: u32 where "TAB \<equiv> 0x102"
abbreviation (input) ENTER :: u32 where "ENTER \<equiv> 0x103"
abbreviation (input) BACKSPACE :: u32 where "BACKSPACE \<equiv> 0x104"
abbreviation (input) GUI_L :: u32 where "GUI_L \<equiv> 0x105"
abbreviation (input) GUI_R :: u32 where "GUI_R \<equiv> 0x106"
abbreviation (input) APPS :: u32 where "APPS \<equiv> 0x107"
abbreviation (input) SHIFT_L :: u32 where "SHIFT_L \<equiv> 0x108"
abbreviation (input) SHIFT_R :: u32 where "SHIFT_R \<equiv> 0x109"
abbreviation (input) CTRL_L :: u32 where "CTRL_L \<equiv> 0x10A"
abbreviation (input) CTRL_R :: u32 where "CTRL_R \<equiv> 0x10B"
abbreviation (input) ALT_L :: u32 where "ALT_L \<equiv> 0x10C"
abbreviation (input) ALT_R :: u32 where "ALT_R \<equiv> 0x10D"
abbreviation (input) CAPS_LOCK :: u32 where "CAPS_LOCK \<equiv> 0x10E"
abbreviation (input) NUM_LOCK :: u32 where "NUM_LOCK \<equiv> 0x10F"
abbreviation (input) SCROLL_LOCK :: u32 where "SCROLL_LOCK \<equiv> 0x110"
abbreviation (input) F1 :: u32 where "F1 \<equiv> 0x111"
abbreviation (input) F2 :: u32 where "F2 \<equiv> 0x112"
abbreviation (input) F3 :: u32 where "F3 \<equiv> 0x113"
abbreviation (input) F4 :: u32 where "F4 \<equiv> 0x114"
abbreviation (input) F5 :: u32 where "F5 \<equiv> 0x115"
abbreviation (input) F6 :: u32 where "F6 \<equiv> 0x116"
abbreviation (input) F7 :: u32 where "F7 \<equiv> 0x117"
abbreviation (input) F8 :: u32 where "F8 \<equiv> 0x118"
abbreviation (input) F9 :: u32 where "F9 \<equiv> 0x119"
abbreviation (input) F10 :: u32 where "F10 \<equiv> 0x11A"
abbreviation (input) F11 :: u32 where "F11 \<equiv> 0x11B"
abbreviation (input) F12 :: u32 where "F12 \<equiv> 0x11C"
abbreviation (input) PRINTSCREEN :: u32 where "PRINTSCREEN \<equiv> 0x11D"
abbreviation (input) PAUSEBREAK :: u32 where "PAUSEBREAK \<equiv> 0x11E"
abbreviation (input) INSERT :: u32 where "INSERT \<equiv> 0x11F"
abbreviation (input) DELETE :: u32 where "DELETE \<equiv> 0x120"
abbreviation (input) HOME :: u32 where "HOME \<equiv> 0x121"
abbreviation (input) END :: u32 where "END \<equiv> 0x122"
abbreviation (input) PAGEUP :: u32 where "PAGEUP \<equiv> 0x123"
abbreviation (input) PAGEDOWN :: u32 where "PAGEDOWN \<equiv> 0x124"
abbreviation (input) UP :: u32 where "UP \<equiv> 0x125"
abbreviation (input) DOWN :: u32 where "DOWN \<equiv> 0x126"
abbreviation (input) LEFT :: u32 where "LEFT \<equiv> 0x127"
abbreviation (input) RIGHT :: u32 where "RIGHT \<equiv> 0x128"
abbreviation (input) POWER :: u32 where "POWER \<equiv> 0x129"
abbreviation (input) SLEEP :: u32 where "SLEEP \<equiv> 0x12A"
abbreviation (input) WAKE :: u32 where "WAKE \<equiv> 0x12B"
abbreviation (input) PAD_SLASH :: u32 where "PAD_SLASH \<equiv> 0x12C"
abbreviation (input) PAD_STAR :: u32 where "PAD_STAR \<equiv> 0x12D"
abbreviation (input) PAD_MINUS :: u32 where "PAD_MINUS \<equiv> 0x12E"
abbreviation (input) PAD_PLUS :: u32 where "PAD_PLUS \<equiv> 0x12F"
abbreviation (input) PAD_ENTER :: u32 where "PAD_ENTER \<equiv> 0x130"
abbreviation (input) PAD_DOT :: u32 where "PAD_DOT \<equiv> 0x131"
abbreviation (input) PAD_0 :: u32 where "PAD_0 \<equiv> 0x132"
abbreviation (input) PAD_1 :: u32 where "PAD_1 \<equiv> 0x133"
abbreviation (input) PAD_2 :: u32 where "PAD_2 \<equiv> 0x134"
abbreviation (input) PAD_3 :: u32 where "PAD_3 \<equiv> 0x135"
abbreviation (input) PAD_4 :: u32 where "PAD_4 \<equiv> 0x136"
abbreviation (input) PAD_5 :: u32 where "PAD_5 \<equiv> 0x137"
abbreviation (input) PAD_6 :: u32 where "PAD_6 \<equiv> 0x138"
abbreviation (input) PAD_7 :: u32 where "PAD_7 \<equiv> 0x139"
abbreviation (input) PAD_8 :: u32 where "PAD_8 \<equiv> 0x13A"
abbreviation (input) PAD_9 :: u32 where "PAD_9 \<equiv> 0x13B"
abbreviation (input) PAD_UP :: u32 where "PAD_UP \<equiv> PAD_8"
abbreviation (input) PAD_DOWN :: u32 where "PAD_DOWN \<equiv> PAD_2"
abbreviation (input) PAD_LEFT :: u32 where "PAD_LEFT \<equiv> PAD_4"
abbreviation (input) PAD_RIGHT :: u32 where "PAD_RIGHT \<equiv> PAD_6"
abbreviation (input) PAD_HOME :: u32 where "PAD_HOME \<equiv> PAD_7"
abbreviation (input) PAD_END :: u32 where "PAD_END \<equiv> PAD_1"
abbreviation (input) PAD_PAGEUP :: u32 where "PAD_PAGEUP \<equiv> PAD_9"
abbreviation (input) PAD_PAGEDOWN :: u32 where "PAD_PAGEDOWN \<equiv> PAD_3"
abbreviation (input) PAD_INS :: u32 where "PAD_INS \<equiv> PAD_0"
abbreviation (input) PAD_MID :: u32 where "PAD_MID \<equiv> PAD_5"
abbreviation (input) PAD_DEL :: u32 where "PAD_DEL \<equiv> PAD_DOT"

abbreviation (input) LED_CODE :: u8 where "LED_CODE \<equiv> 0xED"
abbreviation (input) KB_ACK :: u8 where "KB_ACK \<equiv> 0xFA"

text \<open>Three columns to a scan code: plain, with shift, after \<open>0xE0\<close>.\<close>

definition keymap :: "u32 list" where
  "keymap = [
     0, 0, 0,   ESC, ESC, 0,   49, 33, 0,   50, 64, 0,
     51, 35, 0,   52, 36, 0,   53, 37, 0,   54, 94, 0,
     55, 38, 0,   56, 42, 0,   57, 40, 0,   48, 41, 0,
     45, 95, 0,   61, 43, 0,   BACKSPACE, BACKSPACE, 0,   TAB, TAB, 0,
     113, 81, 0,   119, 87, 0,   101, 69, 0,   114, 82, 0,
     116, 84, 0,   121, 89, 0,   117, 85, 0,   105, 73, 0,
     111, 79, 0,   112, 80, 0,   91, 123, 0,   93, 125, 0,
     ENTER, ENTER, PAD_ENTER,   CTRL_L, CTRL_L, CTRL_R,   97, 65, 0,   115, 83, 0,
     100, 68, 0,   102, 70, 0,   103, 71, 0,   104, 72, 0,
     106, 74, 0,   107, 75, 0,   108, 76, 0,   59, 58, 0,
     39, 34, 0,   96, 126, 0,   SHIFT_L, SHIFT_L, 0,   92, 124, 0,
     122, 90, 0,   120, 88, 0,   99, 67, 0,   118, 86, 0,
     98, 66, 0,   110, 78, 0,   109, 77, 0,   44, 60, 0,
     46, 62, 0,   47, 63, PAD_SLASH,   SHIFT_R, SHIFT_R, 0,   42, 42, 0,
     ALT_L, ALT_L, ALT_R,   32, 32, 0,   CAPS_LOCK, CAPS_LOCK, 0,   F1, F1, 0,
     F2, F2, 0,   F3, F3, 0,   F4, F4, 0,   F5, F5, 0,
     F6, F6, 0,   F7, F7, 0,   F8, F8, 0,   F9, F9, 0,
     F10, F10, 0,   NUM_LOCK, NUM_LOCK, 0,   SCROLL_LOCK, SCROLL_LOCK, 0,   PAD_HOME, 55, HOME,
     PAD_UP, 56, UP,   PAD_PAGEUP, 57, PAGEUP,   PAD_MINUS, 45, 0,   PAD_LEFT, 52, LEFT,
     PAD_MID, 53, 0,   PAD_RIGHT, 54, RIGHT,   PAD_PLUS, 43, 0,   PAD_END, 49, END,
     PAD_DOWN, 50, DOWN,   PAD_PAGEDOWN, 51, PAGEDOWN,   PAD_INS, 48, INSERT,   PAD_DOT, 46, DELETE,
     0, 0, 0,   0, 0, 0,   0, 0, 0,   F11, F11, 0,
     F12, F12, 0,   0, 0, 0,   0, 0, 0,   0, 0, GUI_L,
     0, 0, GUI_R,   0, 0, APPS,   0, 0, 0,   0, 0, 0,
     0, 0, 0,   0, 0, 0,   0, 0, 0,   0, 0, 0,
     0, 0, 0,   0, 0, 0,   0, 0, 0,   0, 0, 0,
     0, 0, 0,   0, 0, 0,   0, 0, 0,   0, 0, 0,
     0, 0, 0,   0, 0, 0,   0, 0, 0,   0, 0, 0,
     0, 0, 0,   0, 0, 0,   0, 0, 0,   0, 0, 0,
     0, 0, 0,   0, 0, 0,   0, 0, 0,   0, 0, 0,
     0, 0, 0,   0, 0, 0,   0, 0, 0,   0, 0, 0,
     0, 0, 0,   0, 0, 0,   0, 0, 0,   0, 0, 0]"

section \<open>State\<close>

record kb_input =
  p_head :: nat
  p_tail :: nat
  kb_count :: int
  kbuf :: "nat \<Rightarrow> u8"

record kbd =
  kb_in :: kb_input
  code_with_E0 :: bool
  shift_l :: bool
  shift_r :: bool
  alt_l :: bool
  alt_r :: bool
  ctrl_l :: bool
  ctrl_r :: bool
  caps_lock :: bool
  num_lock :: bool
  scroll_lock :: bool
  column :: nat
  key_pressed :: bool
  coming :: "u8 list"
  status :: "u8 list"
  answers :: "u8 list"
  kb_written :: "u8 list"

section \<open>The buffer\<close>

text \<open>\<open>keyboard_handler\<close>, with the byte it reads from the port, and the locked part of \<open>get_byte_from_kbuf\<close>.\<close>

definition kb_put :: "u8 \<Rightarrow> kb_input \<Rightarrow> kb_input" where
  "kb_put scan_code b =
    (if kb_count b < int KB_IN_BYTES
     then b\<lparr>kbuf := (kbuf b)(p_head b := scan_code), p_head := wrap KB_IN_BYTES (p_head b), kb_count := kb_count b + 1\<rparr>
     else b)"

definition keyboard_handler :: "u8 \<Rightarrow> kbd \<Rightarrow> kbd" where
  "keyboard_handler scan_code s = s\<lparr>kb_in := kb_put scan_code (kb_in s), key_pressed := True\<rparr>"

definition kb_get :: "kb_input \<Rightarrow> u8 \<times> kb_input" where
  "kb_get b = (kbuf b (p_tail b), b\<lparr>p_tail := wrap KB_IN_BYTES (p_tail b), kb_count := kb_count b - 1\<rparr>)"

text \<open>The wait for the next byte, in which interrupts deliver what is coming; nothing more coming, it never ends.\<close>

fun kb_await :: "kb_input \<Rightarrow> u8 list \<Rightarrow> (kb_input \<times> u8 list) kres" where
  "kb_await b cs =
    (if kb_count b \<le> 0
     then (case cs of [] \<Rightarrow> Inl Hang | c # cs' \<Rightarrow> kb_await (kb_put c b) cs')
     else Inr (b, cs))"

declare kb_await.simps [simp del]

definition get_byte_from_kbuf :: "kbd \<Rightarrow> (u8 \<times> kbd) kres" where
  "get_byte_from_kbuf s =
    rbind (kb_await (kb_in s) (coming s)) (\<lambda>(b, cs).
      let (c, b') = kb_get b in
      Inr (c, s\<lparr>kb_in := b', coming := cs, key_pressed := key_pressed s \<or> cs \<noteq> coming s\<rparr>))"

section \<open>The lights\<close>

text \<open>
  \<open>kb_wait\<close> polls until bit 1 of the status is clear.  \<open>kb_ack\<close> reads the answer once,
  before its loop: an answer other than \<open>KB_ACK\<close> makes the loop run for ever.
\<close>

fun kb_wait :: "u8 list \<Rightarrow> u8 list kres" where
  "kb_wait [] = Inl Hang"
| "kb_wait (kb_stat # r) = (if kb_stat AND 2 \<noteq> 0 then kb_wait r else Inr r)"

fun kb_ack :: "u8 list \<Rightarrow> u8 list kres" where
  "kb_ack [] = Inl Hang"
| "kb_ack (kb_read # r) = (if kb_read \<noteq> KB_ACK then Inl Hang else Inr r)"

definition kb_command :: "u8 \<Rightarrow> kbd \<Rightarrow> kbd kres" where
  "kb_command x s =
    rbind (kb_wait (status s)) (\<lambda>st.
    rbind (kb_ack (answers s)) (\<lambda>an.
      Inr (s\<lparr>status := st, answers := an, kb_written := kb_written s @ [x]\<rparr>)))"

definition set_leds :: "kbd \<Rightarrow> kbd kres" where
  "set_leds s =
    (let leds = push_bit 2 (of_bool (caps_lock s)) OR push_bit 1 (of_bool (num_lock s)) OR of_bool (scroll_lock s) in
     rbind (kb_command LED_CODE s) (kb_command leds))"

definition init_keyboard :: "kbd \<Rightarrow> kbd kres" where
  "init_keyboard s =
    set_leds (s\<lparr>kb_in := (kb_in s)\<lparr>kb_count := 0, p_head := 0, p_tail := 0\<rparr>,
      shift_l := False, shift_r := False, alt_l := False, alt_r := False, ctrl_l := False, ctrl_r := False,
      caps_lock := False, num_lock := True, scroll_lock := False\<rparr>)"

section \<open>Decoding\<close>

text \<open>The five bytes after \<open>0xE1\<close> are compared with those of Pause until one differs.\<close>

fun is_pausebreak :: "u8 list \<Rightarrow> kbd \<Rightarrow> (bool \<times> kbd) kres" where
  "is_pausebreak [] s = Inr (True, s)"
| "is_pausebreak (p # ps) s =
    rbind (get_byte_from_kbuf s) (\<lambda>(c, s1). if c \<noteq> p then Inr (False, s1) else is_pausebreak ps s1)"

text \<open>Two bytes are read, the second only if the first is \<open>0xE0\<close>.\<close>

definition is_printscreen :: "u8 \<Rightarrow> kbd \<Rightarrow> (bool \<times> kbd) kres" where
  "is_printscreen p s =
    rbind (get_byte_from_kbuf s) (\<lambda>(c, s1).
      if c = 0xE0 then rbind (get_byte_from_kbuf s1) (\<lambda>(d, s2). Inr (d = p, s2)) else Inr (False, s1))"

text \<open>The first part of \<open>keyboard_read\<close>: the key, 0 if it is still to be looked up, and the scan code.\<close>

definition read_scan :: "kbd \<Rightarrow> (u32 \<times> u8 \<times> kbd) kres" where
  "read_scan s =
    rbind (get_byte_from_kbuf (s\<lparr>code_with_E0 := False\<rparr>)) (\<lambda>(scan_code, s1).
      if scan_code = 0xE1 then
        rbind (is_pausebreak [0x1D, 0x45, 0xE1, 0x9D, 0xC5] s1) (\<lambda>(yes, s2).
          Inr (if yes then PAUSEBREAK else 0, scan_code, s2))
      else if scan_code = 0xE0 then
        rbind (get_byte_from_kbuf s1) (\<lambda>(scan_code, s2).
        rbind (if scan_code = 0x2A then is_printscreen 0x37 s2 else Inr (False, s2)) (\<lambda>(yes1, s3).
        rbind (if scan_code = 0xB7 then is_printscreen 0xAA s3 else Inr (False, s3)) (\<lambda>(yes2, s4).
          if yes1 \<or> yes2 then Inr (PRINTSCREEN, scan_code, s4)
          else Inr (0, scan_code, s4\<lparr>code_with_E0 := True\<rparr>))))
      else Inr (0, scan_code, s1))"

text \<open>The row and the column of the keymap.\<close>

definition find_key :: "u8 \<Rightarrow> kbd \<Rightarrow> u32 \<times> kbd" where
  "find_key scan_code s =
    (let keyrow = unat (scan_code AND 0x7F) * MAP_COLS;
         caps = (shift_l s \<or> shift_r s);
         caps = (if caps_lock s \<and> 97 \<le> keymap ! keyrow \<and> keymap ! keyrow \<le> 122 then \<not> caps else caps);
         col = (if code_with_E0 s then 2 else if caps then 1 else 0) in
     (keymap ! (keyrow + col), s\<lparr>column := col\<rparr>))"

text \<open>The keys that change the state of the driver.  The right Alt key sets the flag of the left one.\<close>

definition set_modifiers :: "u32 \<Rightarrow> bool \<Rightarrow> kbd \<Rightarrow> kbd kres" where
  "set_modifiers key mk s =
    (if key = SHIFT_L then Inr (s\<lparr>shift_l := mk\<rparr>)
     else if key = SHIFT_R then Inr (s\<lparr>shift_r := mk\<rparr>)
     else if key = CTRL_L then Inr (s\<lparr>ctrl_l := mk\<rparr>)
     else if key = CTRL_R then Inr (s\<lparr>ctrl_r := mk\<rparr>)
     else if key = ALT_L then Inr (s\<lparr>alt_l := mk\<rparr>)
     else if key = ALT_R then Inr (s\<lparr>alt_l := mk\<rparr>)
     else if key = CAPS_LOCK \<and> mk then set_leds (s\<lparr>caps_lock := \<not> caps_lock s\<rparr>)
     else if key = NUM_LOCK \<and> mk then set_leds (s\<lparr>num_lock := \<not> num_lock s\<rparr>)
     else if key = SCROLL_LOCK \<and> mk then set_leds (s\<lparr>scroll_lock := \<not> scroll_lock s\<rparr>)
     else Inr s)"

text \<open>The keys of the number pad.\<close>

definition pad_key :: "bool \<Rightarrow> u32 \<Rightarrow> u32" where
  "pad_key numlock key =
    (if key = PAD_SLASH then 47 else if key = PAD_STAR then 42 else if key = PAD_MINUS then 45
     else if key = PAD_PLUS then 43 else if key = PAD_ENTER then ENTER
     else if numlock \<and> PAD_0 \<le> key \<and> key \<le> PAD_9 then key - PAD_0 + 48
     else if numlock \<and> key = PAD_DOT then 46
     else if key = PAD_HOME then HOME else if key = PAD_END then END
     else if key = PAD_PAGEUP then PAGEUP else if key = PAD_PAGEDOWN then PAGEDOWN
     else if key = PAD_INS then INSERT else if key = PAD_UP then UP else if key = PAD_DOWN then DOWN
     else if key = PAD_LEFT then LEFT else if key = PAD_RIGHT then RIGHT
     else if key = PAD_DOT then DELETE else key)"

definition flag :: "bool \<Rightarrow> u32 \<Rightarrow> u32" where
  "flag c x = (if c then x else 0)"

definition key_flags :: "kbd \<Rightarrow> u32" where
  "key_flags s = flag (shift_l s) FLAG_SHIFT_L OR flag (shift_r s) FLAG_SHIFT_R OR
     flag (ctrl_l s) FLAG_CTRL_L OR flag (ctrl_r s) FLAG_CTRL_R OR
     flag (alt_l s) FLAG_ALT_L OR flag (alt_r s) FLAG_ALT_R"

text \<open>\<open>keyboard_read\<close>: the key it passes to \<open>in_process\<close>, if any.\<close>

definition keyboard_read :: "kbd \<Rightarrow> (u32 option \<times> kbd) kres" where
  "keyboard_read s =
    (if kb_count (kb_in s) > 0 then
       rbind (read_scan s) (\<lambda>(key, scan_code, s1).
         if key \<noteq> PAUSEBREAK \<and> key \<noteq> PRINTSCREEN then
           (let mk = (scan_code AND FLAG_BREAK = 0); (key, s2) = find_key scan_code s1 in
            rbind (set_modifiers key mk s2) (\<lambda>s3.
              if mk then
                (let pad = (PAD_SLASH \<le> key \<and> key \<le> PAD_9);
                     key' = (if pad then pad_key (num_lock s3) key else key) in
                 Inr (Some (key' OR key_flags s3 OR flag pad FLAG_PAD), s3))
              else Inr (None, s3)))
         else Inr (None, s1))
     else Inr (None, s))"

section \<open>The buffer is a bounded queue\<close>

definition kb_contents :: "kb_input \<Rightarrow> u8 list" where
  "kb_contents b = ring_list KB_IN_BYTES (kbuf b) (p_tail b) (nat (kb_count b))"

definition kb_ok :: "kb_input \<Rightarrow> bool" where
  "kb_ok b \<longleftrightarrow> ring_ok KB_IN_BYTES (p_head b) (p_tail b) (kb_count b)"

lemma kb_count_pos: "kb_ok b \<Longrightarrow> 0 < kb_count b \<longleftrightarrow> kb_contents b \<noteq> []"
  by (auto simp: kb_contents_def kb_ok_def ring_list_def ring_ok_def)

interpretation kq: bounded_fifo kb_contents kb_put kb_get kb_ok 32
proof unfold_locales
  fix b x
  assume ok: "kb_ok b"
  then have ring: "ring_ok KB_IN_BYTES (p_head b) (p_tail b) (kb_count b)" by (simp add: kb_ok_def)
  show "length (kb_contents b) \<le> 32" using ok by (auto simp: kb_ok_def kb_contents_def ring_ok_def)
  show "kb_ok (kb_put x b)"
    using ring ring_ok_put(1) [OF ring] by (simp add: kb_put_def kb_ok_def)
  show "kb_contents (kb_put x b) = (if length (kb_contents b) < 32 then kb_contents b @ [x] else kb_contents b)"
    using ring_ok_put(2) [OF ring, of "kbuf b" x] ring_ok_bounds [OF ring]
    by (auto simp: kb_put_def kb_contents_def)
  assume "kb_contents b \<noteq> []"
  with ok have "0 < kb_count b" by (simp add: kb_count_pos)
  note get = ring_ok_get [OF ring this]
  show "kb_ok (snd (kb_get b))" "kb_contents b = fst (kb_get b) # kb_contents (snd (kb_get b))"
    using get(1) get(2) [of "kbuf b"] by (simp_all add: kb_get_def kb_ok_def kb_contents_def)
qed

lemma kb_contents_empty: "kb_ok b \<Longrightarrow> kb_contents b = [] \<longleftrightarrow> kb_count b = 0"
  by (auto simp: kb_contents_def kb_ok_def ring_list_def ring_ok_def)

text \<open>The next byte: from the buffer, or the first that comes.\<close>

lemma get_byte_buffered:
  assumes "kb_ok (kb_in s)" and "kb_contents (kb_in s) = c # r"
  obtains b where "get_byte_from_kbuf s = Inr (c, s\<lparr>kb_in := b\<rparr>)" and "kb_ok b" and "kb_contents b = r"
proof -
  have ne: "kb_contents (kb_in s) \<noteq> []" using assms(2) by simp
  have "0 < kb_count (kb_in s)" using ne kb_count_pos [OF assms(1)] by simp
  then have "get_byte_from_kbuf s = Inr (fst (kb_get (kb_in s)), s\<lparr>kb_in := snd (kb_get (kb_in s))\<rparr>)"
    by (simp add: get_byte_from_kbuf_def kb_await.simps [of "kb_in s"] split: prod.split)
  then show thesis
    using that kq.valid_get [OF assms(1) ne] kq.contents_get [OF assms(1) ne] assms(2) by simp
qed

lemma get_byte_awaited:
  assumes "kb_ok (kb_in s)" and "kb_contents (kb_in s) = []" and "coming s = c # cs"
  obtains b where "get_byte_from_kbuf s = Inr (c, s\<lparr>kb_in := b, coming := cs, key_pressed := True\<rparr>)"
    and "kb_ok b" and "kb_contents b = []"
proof -
  let ?b = "kb_put c (kb_in s)"
  have b: "kb_ok ?b" "kb_contents ?b = [c]"
    using kq.valid_put [OF assms(1), of c] kq.contents_put [OF assms(1), of c] assms(2) by simp_all
  have "kb_count (kb_in s) = 0" using kb_contents_empty assms(1,2) by blast
  moreover have "0 < kb_count ?b" using b kb_count_pos [OF b(1)] by simp
  ultimately have "get_byte_from_kbuf s =
      Inr (fst (kb_get ?b), s\<lparr>kb_in := snd (kb_get ?b), coming := cs, key_pressed := True\<rparr>)"
    using assms(3) by (simp add: get_byte_from_kbuf_def kb_await.simps [of "kb_in s"] kb_await.simps [of ?b]
      split: prod.split)
  then show thesis using that kq.valid_get [OF b(1)] kq.contents_get [OF b(1)] b(2) by simp
qed

section \<open>What the reader leaves alone\<close>

text \<open>The state of the modifier keys, and all of the driver's tables in order.\<close>

definition kbd_ok :: "kbd \<Rightarrow> bool" where
  "kbd_ok s \<longleftrightarrow> kb_ok (kb_in s) \<and> column s < MAP_COLS \<and> \<not> alt_r s"

definition same_keys :: "kbd \<Rightarrow> kbd \<Rightarrow> bool" where
  "same_keys s s' \<longleftrightarrow> shift_l s' = shift_l s \<and> shift_r s' = shift_r s \<and> ctrl_l s' = ctrl_l s \<and> ctrl_r s' = ctrl_r s \<and>
     alt_l s' = alt_l s \<and> alt_r s' = alt_r s \<and> caps_lock s' = caps_lock s \<and> num_lock s' = num_lock s \<and>
     scroll_lock s' = scroll_lock s \<and> column s' = column s"

lemma same_keys_refl [simp]: "same_keys s s"
  by (simp add: same_keys_def)

lemma same_keys_trans: "same_keys s s1 \<Longrightarrow> same_keys s1 s2 \<Longrightarrow> same_keys s s2"
  by (simp add: same_keys_def)

lemma same_keys_ok: "kbd_ok s \<Longrightarrow> same_keys s s' \<Longrightarrow> kb_ok (kb_in s') \<Longrightarrow> kbd_ok s'"
  by (simp add: same_keys_def kbd_ok_def)

lemma kb_await_ok: "kb_ok b \<Longrightarrow> kb_await b cs = Inr (b', cs') \<Longrightarrow> kb_ok b' \<and> kb_contents b' \<noteq> []"
proof (induction cs arbitrary: b)
  case Nil
  then show ?case by (auto simp: kb_await.simps [of b] kb_contents_empty split: if_splits)
next
  case (Cons c cs)
  show ?case
  proof (cases "kb_count b \<le> 0")
    case True
    then show ?thesis using Cons.prems(2) Cons.IH [OF kq.valid_put [OF Cons.prems(1), of c]]
      by (simp add: kb_await.simps [of b])
  next
    case False
    then show ?thesis using Cons.prems by (simp add: kb_await.simps [of b] kb_contents_empty)
  qed
qed

lemma get_byte_ok:
  assumes "kb_ok (kb_in s)" and "get_byte_from_kbuf s = Inr (c, s')"
  shows "kb_ok (kb_in s')" and "same_keys s s'"
proof -
  obtain b cs where a: "kb_await (kb_in s) (coming s) = Inr (b, cs)"
    using assms(2) by (auto simp: get_byte_from_kbuf_def split: sum.splits)
  then show "kb_ok (kb_in s')" "same_keys s s'"
    using assms(2) kb_await_ok [OF assms(1) a] kq.valid_get [of b]
    by (auto simp: get_byte_from_kbuf_def same_keys_def split: prod.splits)
qed

lemma is_pausebreak_ok:
  "kb_ok (kb_in s) \<Longrightarrow> is_pausebreak ps s = Inr (y, s') \<Longrightarrow> kb_ok (kb_in s') \<and> same_keys s s'"
proof (induction ps arbitrary: s)
  case (Cons p ps)
  obtain c s1 where g: "get_byte_from_kbuf s = Inr (c, s1)"
    using Cons.prems(2) by (auto split: sum.splits)
  note ok = get_byte_ok [OF Cons.prems(1) g]
  show ?case using Cons.prems(2) g ok Cons.IH [OF ok(1)] same_keys_trans [OF ok(2)]
    by (auto split: if_splits)
qed simp

lemma is_printscreen_ok:
  assumes "kb_ok (kb_in s)" and "is_printscreen p s = Inr (y, s')"
  shows "kb_ok (kb_in s') \<and> same_keys s s'"
proof -
  obtain c s1 where g: "get_byte_from_kbuf s = Inr (c, s1)"
    using assms(2) by (auto simp: is_printscreen_def split: sum.splits)
  note ok = get_byte_ok [OF assms(1) g]
  show ?thesis
    using assms(2) g ok get_byte_ok [OF ok(1)] same_keys_trans [OF ok(2)]
    by (auto simp: is_printscreen_def split: if_splits sum.splits)
qed

lemma read_scan_ok:
  assumes "kb_ok (kb_in s)" and "read_scan s = Inr (k, c, s')"
  shows "kb_ok (kb_in s')" and "same_keys s s'"
proof -
  let ?s = "s\<lparr>code_with_E0 := False\<rparr>"
  obtain c1 s1 where g: "get_byte_from_kbuf ?s = Inr (c1, s1)"
    using assms(2) by (auto simp: read_scan_def split: sum.splits)
  have ok: "kb_ok (kb_in s1)" "same_keys s s1"
    using get_byte_ok [OF _ g] assms(1) by (simp_all add: same_keys_def)
  have "kb_ok (kb_in s') \<and> same_keys s1 s'"
  proof (cases "c1 = 0xE0")
    case False
    then show ?thesis using assms(2) g ok is_pausebreak_ok [OF ok(1), of _ _ s']
      by (auto simp: read_scan_def simp del: is_pausebreak.simps split: if_splits sum.splits)
  next
    case True
    obtain c2 s2 where g2: "get_byte_from_kbuf s1 = Inr (c2, s2)"
      using assms(2) g True by (auto simp: read_scan_def split: sum.splits)
    note ok2 = get_byte_ok [OF ok(1) g2]
    have fin: "same_keys s1 (s3\<lparr>code_with_E0 := x\<rparr>)" "same_keys s1 s3" if "same_keys s2 s3" for s3 x
      using that ok2(2) by (simp_all add: same_keys_def)
    show ?thesis
      using assms(2) g g2 True ok2 is_printscreen_ok [OF ok2(1)] fin
      by (auto simp: read_scan_def split: if_splits sum.splits)
  qed
  then show "kb_ok (kb_in s')" "same_keys s s'" using same_keys_trans [OF ok(2)] by auto
qed

lemma length_keymap [simp]: "length keymap = NR_SCAN_CODES * MAP_COLS"
  by (simp add: keymap_def)

lemma row_bound: "unat (c AND 0x7F :: u8) < NR_SCAN_CODES"
proof -
  have "c AND 0x7F \<le> 0x7F" by (rule word_and_le1)
  then have "unat (c AND 0x7F) \<le> unat (0x7F :: u8)" by (simp only: word_le_nat_alt)
  then show ?thesis by simp
qed

lemma find_key_ok:
  "column (snd (find_key c s)) < MAP_COLS"
  "unat (c AND 0x7F) * MAP_COLS + column (snd (find_key c s)) < length keymap"
  "kb_in (snd (find_key c s)) = kb_in s" "alt_r (snd (find_key c s)) = alt_r s"
  using row_bound [of c] by (auto simp: find_key_def Let_def)

lemma set_leds_ok: "set_leds s = Inr s' \<Longrightarrow> kb_in s' = kb_in s \<and> same_keys s s'"
  by (auto simp: set_leds_def kb_command_def same_keys_def Let_def split: sum.splits)

lemma set_modifiers_ok:
  "set_modifiers k mk s = Inr s' \<Longrightarrow> kb_in s' = kb_in s \<and> alt_r s' = alt_r s \<and> column s' = column s"
  unfolding set_modifiers_def by (auto simp: same_keys_def dest!: set_leds_ok split: if_split_asm)

lemma keyboard_handler_ok: "kbd_ok s \<Longrightarrow> kbd_ok (keyboard_handler c s)"
  by (simp add: kbd_ok_def keyboard_handler_def kq.valid_put)

lemma init_keyboard_ok: "init_keyboard s = Inr s' \<Longrightarrow> column s < MAP_COLS \<Longrightarrow> kbd_ok s'"
  unfolding init_keyboard_def by (drule set_leds_ok) (simp add: kbd_ok_def kb_ok_def same_keys_def ring_ok_def)

lemma keyboard_read_ok:
  assumes "kbd_ok s" and "keyboard_read s = Inr (k, s')"
  shows "kbd_ok s'"
proof (cases "kb_count (kb_in s) > 0")
  case False
  then show ?thesis using assms by (simp add: keyboard_read_def)
next
  case True
  obtain k0 c s1 where r: "read_scan s = Inr (k0, c, s1)"
    using assms(2) True by (auto simp: keyboard_read_def split: sum.splits)
  have ok: "kb_ok (kb_in s)" using assms(1) by (simp add: kbd_ok_def)
  have s1: "kbd_ok s1" by (rule same_keys_ok [OF assms(1) read_scan_ok(2) [OF ok r] read_scan_ok(1) [OF ok r]])
  have s2: "kbd_ok (snd (find_key c s1))" using s1 find_key_ok [of c s1] by (simp add: kbd_ok_def)
  have s3: "kbd_ok s3" if "set_modifiers x y (snd (find_key c s1)) = Inr s3" for x y s3
    using s2 set_modifiers_ok [OF that] by (simp add: kbd_ok_def)
  show ?thesis
    using assms(2) True r s1 s3
    by (cases "find_key c s1") (auto simp: keyboard_read_def Let_def split: sum.splits if_splits)
qed

section \<open>Ordinary scan codes\<close>

text \<open>A buffered scan code that is not a prefix is decoded by itself.\<close>

lemma keyboard_read_simple:
  assumes "kb_ok (kb_in s)" and "kb_contents (kb_in s) = c # r" and "c \<noteq> 0xE0" and "c \<noteq> 0xE1"
  obtains b where "kb_ok b" and "kb_contents b = r" and
    "keyboard_read s = (let s1 = s\<lparr>code_with_E0 := False, kb_in := b\<rparr>; mk = (c AND FLAG_BREAK = 0);
        key = fst (find_key c s1) in
      rbind (set_modifiers key mk (snd (find_key c s1))) (\<lambda>s3.
        Inr (if mk then Some ((if PAD_SLASH \<le> key \<and> key \<le> PAD_9 then pad_key (num_lock s3) key else key) OR
               key_flags s3 OR flag (PAD_SLASH \<le> key \<and> key \<le> PAD_9) FLAG_PAD) else None, s3)))"
proof -
  let ?s = "s\<lparr>code_with_E0 := False\<rparr>"
  from assms(1,2) obtain b where b: "get_byte_from_kbuf ?s = Inr (c, ?s\<lparr>kb_in := b\<rparr>)" "kb_ok b" "kb_contents b = r"
    using get_byte_buffered [of ?s c r] by auto
  have "kb_contents (kb_in s) \<noteq> []" using assms(2) by simp
  then have "0 < kb_count (kb_in s)" using kb_count_pos [OF assms(1)] by simp
  moreover have "read_scan s = Inr (0, c, ?s\<lparr>kb_in := b\<rparr>)"
    using assms(3,4) b(1) by (simp add: read_scan_def)
  ultimately show thesis
    by (intro that [OF b(2,3)])
      (cases "find_key c (s\<lparr>code_with_E0 := False, kb_in := b\<rparr>)",
        auto simp: keyboard_read_def Let_def split: sum.split)
qed

text \<open>The rows of the keymap.\<close>

fun rows3 :: "'a list \<Rightarrow> ('a \<times> 'a \<times> 'a) list" where
  "rows3 (a # b # c # r) = (a, b, c) # rows3 r"
| "rows3 _ = []"

lemma rows3_nth: "3 * i + 2 < length xs \<Longrightarrow> rows3 xs ! i = (xs ! (3 * i), xs ! (3 * i + 1), xs ! (3 * i + 2)) \<and> i < length (rows3 xs)"
proof (induction xs arbitrary: i rule: rows3.induct)
  case (1 a b c r)
  then show ?case by (cases i) (simp_all add: numeral_eq_Suc)
qed auto

text \<open>Every row whose first column is a character has a character in its second column.\<close>

lemma keymap_table: "list_all (\<lambda>(a, b, c). a < 256 \<longrightarrow> b < 256) (rows3 keymap)"
  by code_simp

lemma keymap_chars:
  assumes "r < NR_SCAN_CODES" and "keymap ! (r * 3) < 256"
  shows "keymap ! (r * 3 + 1) < 256"
  using keymap_table rows3_nth [of r keymap] assms by (fastforce simp: list_all_length mult.commute)

lemma set_modifiers_char: "k < 256 \<Longrightarrow> set_modifiers k mk s = Inr s"
proof -
  assume k: "k < 256"
  have "k \<noteq> x" if "256 \<le> x" for x using k that by auto
  then have "k \<noteq> 264" "k \<noteq> 265" "k \<noteq> 266" "k \<noteq> 267" "k \<noteq> 268" "k \<noteq> 269" "k \<noteq> 270" "k \<noteq> 271" "k \<noteq> 272"
    by simp_all
  then show ?thesis by (simp add: set_modifiers_def)
qed

lemma char_not_pad: "k < 256 \<Longrightarrow> \<not> (PAD_SLASH \<le> k \<and> k \<le> PAD_9)"
  unfolding word_less_nat_alt word_le_nat_alt by simp

text \<open>A key that types a character: what \<open>keyboard_read\<close> hands on, and the state it leaves.\<close>

definition shifted :: "kbd \<Rightarrow> u32 \<Rightarrow> bool" where
  "shifted s k \<longleftrightarrow> (shift_l s \<or> shift_r s) \<noteq> (caps_lock s \<and> 97 \<le> k \<and> k \<le> 122)"

lemma keyboard_read_char:
  assumes "kb_ok (kb_in s)" and "kb_contents (kb_in s) = c # r" and "c \<noteq> 0xE0" and "c \<noteq> 0xE1"
    and "c AND FLAG_BREAK = 0" and "keymap ! (unat (c AND 0x7F) * 3) = k" and "k < 256"
  obtains b where "kb_ok b" and "kb_contents b = r" and
    "keyboard_read s = Inr (Some (keymap ! (unat (c AND 0x7F) * 3 + of_bool (shifted s k)) OR key_flags s),
       s\<lparr>code_with_E0 := False, kb_in := b, column := of_bool (shifted s k)\<rparr>)"
proof -
  obtain b where b: "kb_ok b" "kb_contents b = r" and
    e: "keyboard_read s = (let s1 = s\<lparr>code_with_E0 := False, kb_in := b\<rparr>; mk = (c AND FLAG_BREAK = 0);
        key = fst (find_key c s1) in
      rbind (set_modifiers key mk (snd (find_key c s1))) (\<lambda>s3.
        Inr (if mk then Some ((if PAD_SLASH \<le> key \<and> key \<le> PAD_9 then pad_key (num_lock s3) key else key) OR
               key_flags s3 OR flag (PAD_SLASH \<le> key \<and> key \<le> PAD_9) FLAG_PAD) else None, s3)))"
    by (rule keyboard_read_simple [OF assms(1-4)])
  let ?n = "unat (c AND 0x7F) * 3 + of_bool (shifted s k)"
  let ?s = "s\<lparr>code_with_E0 := False, kb_in := b, column := of_bool (shifted s k)\<rparr>"
  have f: "find_key c (s\<lparr>code_with_E0 := False, kb_in := b\<rparr>) = (keymap ! ?n, ?s)"
    using assms(6) by (auto simp: find_key_def shifted_def Let_def)
  have k: "keymap ! ?n < 256"
    using assms(6,7) keymap_chars [OF row_bound, of c] by (cases "shifted s k") simp_all
  define K s3 where "K = keymap ! ?n" and "s3 = ?s"
  have p: "(PAD_SLASH \<le> K \<and> K \<le> PAD_9) = False" using char_not_pad [OF k] by (simp add: K_def)
  have "keyboard_read s = Inr (Some (keymap ! ?n OR key_flags ?s), ?s)"
    unfolding e Let_def f fst_conv snd_conv K_def [symmetric] s3_def [symmetric]
    using assms(5) set_modifiers_char [OF k, folded K_def] by (simp only: p if_False flag_def) simp
  then show thesis using that b by (simp add: key_flags_def)
qed

end
