(* ===== verification/Tty.thy ===== *)
theory Tty
  imports Console Keyboard Proc
begin

unbundle bit_operations_syntax

text \<open>
  The terminal task, \<open>kernel/tty.c\<close>: a terminal is a queue of typed keys, a pending
  read request and a console.  The task takes keys from the keyboard driver, edits
  the line of the pending request, and answers the messages of the file system.
  The address of a local variable of the task is written 0 where only the check of
  \<open>va2la\<close> depends on it; \<open>stack_msg\<close> is what an uninitialised local \<open>MESSAGE\<close> holds.
\<close>

section \<open>State\<close>

abbreviation (input) TTY_IN_BYTES :: nat where "TTY_IN_BYTES \<equiv> 256"
abbreviation (input) TTY_OUT_BUF_LEN :: nat where "TTY_OUT_BUF_LEN \<equiv> 2"
abbreviation (input) MAG_CH_PANIC :: u8 where "MAG_CH_PANIC \<equiv> 2"
abbreviation (input) MAG_CH_ASSERT :: u8 where "MAG_CH_ASSERT \<equiv> 3"
abbreviation (input) RED_CHAR :: u8 where "RED_CHAR \<equiv> 0x0D"
abbreviation (input) GRAY_CHAR :: u8 where "GRAY_CHAR \<equiv> 0x08"

abbreviation (input) ATT :: "nat \<Rightarrow> kfail" where "ATT \<equiv> Assertion ''kernel/tty.c''"

record tty =
  in_buf :: "nat \<Rightarrow> u32"
  p_inbuf_head :: nat
  p_inbuf_tail :: nat
  inbuf_count :: int
  tty_caller :: int
  tty_procnr :: int
  tty_req_buf :: u32
  tty_left_cnt :: int
  tty_trans_cnt :: int
  p_console :: nat

record terminals = screen +
  tty_table :: "nat \<Rightarrow> tty"
  kboard :: kbd
  procs :: proctab
  disp_pos :: int
  stack_msg :: message
  tty_sent :: "(int \<times> message) list"

definition upd_tty :: "nat \<Rightarrow> (tty \<Rightarrow> tty) \<Rightarrow> terminals \<Rightarrow> terminals" where
  "upd_tty c f s = s\<lparr>tty_table := (tty_table s)(c := f (tty_table s c))\<rparr>"

definition send_msg :: "int \<Rightarrow> message \<Rightarrow> terminals \<Rightarrow> terminals" where
  "send_msg dest m s = s\<lparr>tty_sent := tty_sent s @ [(dest, m)]\<rparr>"

section \<open>The queue of keys\<close>

definition put_key :: "u32 \<Rightarrow> tty \<Rightarrow> tty" where
  "put_key key t =
    (if inbuf_count t < int TTY_IN_BYTES
     then t\<lparr>in_buf := (in_buf t)(p_inbuf_head t := key), p_inbuf_head := wrap TTY_IN_BYTES (p_inbuf_head t),
            inbuf_count := inbuf_count t + 1\<rparr>
     else t)"

text \<open>The head of the loop of \<open>tty_dev_write\<close>.\<close>

definition get_key :: "tty \<Rightarrow> u32 \<times> tty" where
  "get_key t = (in_buf t (p_inbuf_tail t),
     t\<lparr>p_inbuf_tail := wrap TTY_IN_BYTES (p_inbuf_tail t), inbuf_count := inbuf_count t - 1\<rparr>)"

section \<open>Keys\<close>

definition in_process :: "nat \<Rightarrow> u32 \<Rightarrow> terminals \<Rightarrow> terminals" where
  "in_process c key s =
    (if key AND FLAG_EXT = 0 then upd_tty c (put_key key) s
     else
      (let raw_code = key AND MASK_RAW; con = p_console (tty_table s c);
           shifted = (key AND FLAG_SHIFT_L \<noteq> 0 \<or> key AND FLAG_SHIFT_R \<noteq> 0);
           ctrl = (key AND FLAG_CTRL_L \<noteq> 0 \<or> key AND FLAG_CTRL_R \<noteq> 0) in
       if raw_code = ENTER then upd_tty c (put_key 10) s
       else if raw_code = BACKSPACE then upd_tty c (put_key 8) s
       else if raw_code = UP then (if shifted then scroll_screen con SCR_DN s else s)
       else if raw_code = DOWN then (if shifted then scroll_screen con SCR_UP s else s)
       else if F1 \<le> raw_code \<and> raw_code \<le> F12 then
         (if ctrl then select_console (uint (raw_code - F1)) s else s)
       else s))"

text \<open>\<open>keyboard_read\<close> with its last step, the call of \<open>in_process\<close>.\<close>

definition tty_keyboard_read :: "nat \<Rightarrow> terminals \<Rightarrow> terminals kres" where
  "tty_keyboard_read c s =
    rbind (keyboard_read (kboard s)) (\<lambda>(k, kb).
      let s1 = s\<lparr>kboard := kb\<rparr> in
      Inr (case k of None \<Rightarrow> s1 | Some key \<Rightarrow> in_process c key s1))"

definition tty_dev_read :: "nat \<Rightarrow> terminals \<Rightarrow> terminals kres" where
  "tty_dev_read c s =
    (if is_current_console s (p_console (tty_table s c)) then tty_keyboard_read c s else Inr s)"

section \<open>Line editing\<close>

text \<open>The end of a request: \<open>RESUME_PROC\<close> to the caller.\<close>

definition resume_msg :: "message \<Rightarrow> tty \<Rightarrow> message" where
  "resume_msg m t = m\<lparr>msgtype := RESUME_PROC, m3i3 := tty_procnr t, m3i2 := tty_trans_cnt t\<rparr>"

definition finish_read :: "nat \<Rightarrow> terminals \<Rightarrow> terminals kres" where
  "finish_read c s =
    (let t = tty_table s c in
     rbind (out_char (p_console t) newline s) (\<lambda>s1.
     ensure (tty_procnr t \<noteq> NO_TASK) (ATT 279) (
     Inr (upd_tty c (\<lambda>t. t\<lparr>tty_left_cnt := 0\<rparr>) (send_msg (tty_caller t) (resume_msg (stack_msg s) t) s1)))))"

text \<open>A printable character is echoed and stored, a backspace takes the last one back.\<close>

definition edit_line :: "nat \<Rightarrow> u8 \<Rightarrow> terminals \<Rightarrow> terminals kres" where
  "edit_line c ch s =
    (let t = tty_table s c in
     if 32 \<le> ch \<and> ch \<le> 126 then
       rbind (out_char (p_console t) ch s) (\<lambda>s1.
       ensure (tty_req_buf t \<noteq> 0) (ATT 262) (
       rbind (va2la (procs s1) TASK_TTY 0) (\<lambda>_.
       Inr (upd_tty c (\<lambda>t. t\<lparr>tty_trans_cnt := tty_trans_cnt t + 1, tty_left_cnt := tty_left_cnt t - 1\<rparr>)
         (s1\<lparr>cmem := (cmem s1)(tty_req_buf t + word_of_int (tty_trans_cnt t) := ch)\<rparr>)))))
     else if ch = backspace \<and> tty_trans_cnt t \<noteq> 0 then
       rbind (out_char (p_console t) ch s) (\<lambda>s1.
       Inr (upd_tty c (\<lambda>t. t\<lparr>tty_trans_cnt := tty_trans_cnt t - 1, tty_left_cnt := tty_left_cnt t + 1\<rparr>) s1))
     else Inr s)"

definition write_key :: "nat \<Rightarrow> terminals \<Rightarrow> terminals kres" where
  "write_key c s =
    (let (key, t) = get_key (tty_table s c); ch = ucast key; s1 = upd_tty c (\<lambda>_. t) s in
     if tty_left_cnt t \<noteq> 0 then
       rbind (edit_line c ch s1) (\<lambda>s2.
         if ch = newline \<or> tty_left_cnt (tty_table s2 c) = 0 then finish_read c s2 else Inr s2)
     else Inr s1)"

text \<open>The loop of \<open>tty_dev_write\<close>: each iteration takes one key off the queue.\<close>

fun drain_keys :: "nat \<Rightarrow> nat \<Rightarrow> terminals \<Rightarrow> terminals kres" where
  "drain_keys c 0 s = Inr s"
| "drain_keys c (Suc n) s = rbind (write_key c s) (drain_keys c n)"

definition tty_dev_write :: "nat \<Rightarrow> terminals \<Rightarrow> terminals kres" where
  "tty_dev_write c s =
    ensure (0 \<le> inbuf_count (tty_table s c)) Hang (drain_keys c (nat (inbuf_count (tty_table s c))) s)"

section \<open>Requests\<close>

definition tty_do_read :: "nat \<Rightarrow> message \<Rightarrow> terminals \<Rightarrow> terminals kres" where
  "tty_do_read c msg s =
    rbind (va2la (procs s) (nat (m3i3 msg)) (m3p2 msg)) (\<lambda>la.
    Inr (send_msg (source msg) (msg\<lparr>msgtype := SUSPEND_PROC, m3i2 := m3i2 msg\<rparr>)
      (upd_tty c (\<lambda>t. t\<lparr>tty_caller := source msg, tty_procnr := m3i3 msg, tty_req_buf := la,
         tty_left_cnt := m3i2 msg, tty_trans_cnt := 0\<rparr>) s)))"

fun out_chars :: "nat \<Rightarrow> u8 list \<Rightarrow> terminals \<Rightarrow> terminals kres" where
  "out_chars con [] s = Inr s"
| "out_chars con (ch # r) s = rbind (out_char con ch s) (out_chars con r)"

text \<open>At most \<open>TTY_OUT_BUF_LEN\<close> bytes are fetched at a time; \<open>i\<close> bytes are left.\<close>

function write_chunks :: "nat \<Rightarrow> u32 \<Rightarrow> nat \<Rightarrow> terminals \<Rightarrow> terminals kres" where
  "write_chunks con p i s =
    (if i = 0 then Inr s
     else
      (let bytes = cmin TTY_OUT_BUF_LEN i; buf = map (\<lambda>j. cmem s (p + of_nat j)) [0..<bytes] in
       rbind (va2la (procs s) TASK_TTY 0) (\<lambda>_.
       rbind (out_chars con buf s) (\<lambda>s1. write_chunks con (p + of_nat bytes) (i - bytes) s1))))"
  by pat_completeness auto
termination by (relation "measure (\<lambda>(con, p, i, s). i)") auto

declare write_chunks.simps [simp del]

definition tty_do_write :: "nat \<Rightarrow> message \<Rightarrow> terminals \<Rightarrow> terminals kres" where
  "tty_do_write c msg s =
    rbind (va2la (procs s) (nat (m3i3 msg)) (m3p2 msg)) (\<lambda>p.
    ensure (0 \<le> m3i2 msg) (Bad_access ''phys_copy'') (
    rbind (write_chunks (p_console (tty_table s c)) p (nat (m3i2 msg)) s) (\<lambda>s1.
    Inr (send_msg (source msg) (msg\<lparr>msgtype := SYSCALL_RET\<rparr>) s1))))"

text \<open>\<open>tty_write\<close>, from an address of the kernel.\<close>

fun tty_write :: "nat \<Rightarrow> u32 \<Rightarrow> nat \<Rightarrow> terminals \<Rightarrow> terminals kres" where
  "tty_write c p 0 s = Inr s"
| "tty_write c p (Suc i) s =
    rbind (out_char (p_console (tty_table s c)) (cmem s p) s) (tty_write c (p + 1) i)"

section \<open>\<open>printx\<close>\<close>

text \<open>The two loops that fill the screen with the message of a panic.\<close>

partial_function (option) gray_loop :: "u32 \<Rightarrow> memory \<Rightarrow> (u32 \<times> memory) option" where
  "gray_loop v m =
    (if sint (v - V_MEM_BASE) smod (SCREEN_WIDTH * 16) \<noteq> 0
     then gray_loop (v + 2) (m(v + 1 := GRAY_CHAR)) else Some (v, m))"

partial_function (option) panic_fill :: "u32 \<Rightarrow> u32 \<Rightarrow> u32 \<Rightarrow> memory \<Rightarrow> memory option" where
  "panic_fill p v q m =
    (if v < V_MEM_BASE + V_MEM_SIZE then
       (let m1 = m(v := m q); m2 = m1(v + 1 := RED_CHAR) in
        if m2 (q + 1) = 0 then
          (case gray_loop (v + 2) m2 of None \<Rightarrow> None | Some (v', m3) \<Rightarrow> panic_fill p v' (p + 1) m3)
        else panic_fill p (v + 2) (q + 1) m2)
     else Some m)"

text \<open>The loop that prints the string, up to its terminating 0.\<close>

partial_function (option) print_loop :: "u32 \<Rightarrow> terminals \<Rightarrow> terminals kres option" where
  "print_loop p s =
    (let ch = cmem s p in
     if ch = 0 then Some (Inr s)
     else if ch = MAG_CH_PANIC \<or> ch = MAG_CH_ASSERT then print_loop (p + 1) s
     else (case out_char (p_console (tty_table s 0)) ch s of
             Inl e \<Rightarrow> Some (Inl e) | Inr s1 \<Rightarrow> print_loop (p + 1) s1))"

definition reenter_err :: "u8 list" where
  "reenter_err = MAG_CH_PANIC # map of_char (tl ''? k_reenter is incorrect for unknown reason'') @ [0]"

text \<open>
  \<open>err\<close> is the address of the local copy of \<open>reenter_err\<close>.  The flag of the result is
  \<open>the machine has stopped\<close>, the \<open>hlt\<close> with interrupts disabled.
\<close>

definition sys_printx :: "int \<Rightarrow> nat \<Rightarrow> u32 \<Rightarrow> u32 \<Rightarrow> nat \<Rightarrow> terminals \<Rightarrow> (bool \<times> terminals) kres" where
  "sys_printx reenter ready err str p_proc s0 =
    (let s = s0\<lparr>cmem := \<lambda>a. if unat (a - err) < length reenter_err then reenter_err ! unat (a - err) else cmem s0 a\<rparr> in
     rbind (if reenter = 0 then va2la (procs s) p_proc str else if reenter > 0 then Inr str else Inr err) (\<lambda>p.
     if cmem s p = MAG_CH_PANIC \<or> cmem s p = MAG_CH_ASSERT \<and> ready < NR_TASKS then
       run_loop (panic_fill p V_MEM_BASE (p + 1) (cmem s)) (\<lambda>m. Inr (True, s\<lparr>cmem := m\<rparr>))
     else
       run_loop (print_loop p s) (\<lambda>r. rbind r (\<lambda>s1. Inr (False, s1)))))"

section \<open>The task\<close>

definition init_tty :: "nat \<Rightarrow> terminals \<Rightarrow> terminals kres" where
  "init_tty c s =
    rbind (init_screen c (disp_pos s)
      (upd_tty c (\<lambda>t. t\<lparr>inbuf_count := 0, p_inbuf_head := 0, p_inbuf_tail := 0, tty_caller := NO_TASK,
         tty_procnr := NO_TASK, tty_req_buf := 0, tty_left_cnt := 0, tty_trans_cnt := 0, p_console := c\<rparr>) s)) (\<lambda>s1.
    Inr (if c = 0 then s1\<lparr>disp_pos := 0\<rparr> else s1))"

definition tty_start :: "terminals \<Rightarrow> terminals kres" where
  "tty_start s =
    rbind (init_keyboard (kboard s)) (\<lambda>kb.
    rbind (init_tty 0 (s\<lparr>kboard := kb\<rparr>)) (\<lambda>s1.
    rbind (init_tty 1 s1) (\<lambda>s2.
    rbind (init_tty 2 s2) (\<lambda>s3.
    Inr (select_console 0 s3)))))"

partial_function (option) tty_poll :: "nat \<Rightarrow> terminals \<Rightarrow> terminals kres option" where
  "tty_poll c s =
    (case rbind (tty_dev_read c s) (tty_dev_write c) of
       Inl e \<Rightarrow> Some (Inl e)
     | Inr s1 \<Rightarrow> if inbuf_count (tty_table s1 c) \<noteq> 0 then tty_poll c s1 else Some (Inr s1))"

definition zero_msg :: message where
  "zero_msg = \<lparr>source = 0, msgtype = 0, m3i1 = 0, m3i2 = 0, m3i3 = 0, m3i4 = 0, m3l1 = 0, m3l2 = 0, m3p1 = 0, m3p2 = 0\<rparr>"

definition tty_dispatch :: "message \<Rightarrow> terminals \<Rightarrow> terminals kres" where
  "tty_dispatch msg s =
    (let src = source msg; c = nat (m3i4 msg); t = msgtype msg;
         guard = (\<lambda>k. ensure (0 \<le> m3i4 msg \<and> m3i4 msg < NR_CONSOLES) (Bad_access ''tty_table'') k) in
     ensure (src \<noteq> TASK_TTY) (ATT 46) (
     if t = DEV_OPEN then Inr (send_msg src (zero_msg\<lparr>msgtype := SYSCALL_RET\<rparr>) s)
     else if t = DEV_READ then guard (tty_do_read c msg s)
     else if t = DEV_WRITE then guard (tty_do_write c msg s)
     else if t = HARD_INT then Inr (s\<lparr>kboard := (kboard s)\<lparr>kbd.key_pressed := False\<rparr>\<rparr>)
     else Inr s))"

text \<open>One round of the loop of \<open>task_tty\<close>, with the message it receives.\<close>

definition task_tty :: "message \<Rightarrow> terminals \<Rightarrow> terminals kres" where
  "task_tty msg s =
    run_loop (tty_poll 0 s) (\<lambda>r0. rbind r0 (\<lambda>s0.
    run_loop (tty_poll 1 s0) (\<lambda>r1. rbind r1 (\<lambda>s1.
    run_loop (tty_poll 2 s1) (\<lambda>r2. rbind r2 (\<lambda>s2.
    tty_dispatch msg s2))))))"

end
