(* ===== verification/TtyLine.thy ===== *)
theory TtyLine
  imports Tty
begin

unbundle bit_operations_syntax

text \<open>
  The terminals against their specification: the queue of keys is a bounded
  first-in-first-out buffer, and \<open>tty_dev_write\<close> implements a line editor whose
  state is the text typed so far.
\<close>

section \<open>The queue of keys\<close>

definition tty_keys :: "tty \<Rightarrow> u32 list" where
  "tty_keys t = ring_list TTY_IN_BYTES (in_buf t) (p_inbuf_tail t) (nat (inbuf_count t))"

definition keys_ok :: "tty \<Rightarrow> bool" where
  "keys_ok t \<longleftrightarrow> ring_ok TTY_IN_BYTES (p_inbuf_head t) (p_inbuf_tail t) (inbuf_count t)"

lemma keys_count: "keys_ok t \<Longrightarrow> inbuf_count t = int (length (tty_keys t))"
  by (simp add: tty_keys_def keys_ok_def ring_ok_def)

interpretation tq: bounded_fifo tty_keys put_key get_key keys_ok 256
proof unfold_locales
  fix t x
  assume ok: "keys_ok t"
  then have ring: "ring_ok TTY_IN_BYTES (p_inbuf_head t) (p_inbuf_tail t) (inbuf_count t)" by (simp add: keys_ok_def)
  show "length (tty_keys t) \<le> 256" using keys_count [OF ok] ring_ok_bounds [OF ring] by simp
  show "keys_ok (put_key x t)"
    using ring ring_ok_put(1) [OF ring] by (simp add: put_key_def keys_ok_def)
  show "tty_keys (put_key x t) = (if length (tty_keys t) < 256 then tty_keys t @ [x] else tty_keys t)"
    using ring_ok_put(2) [OF ring, of "in_buf t" x] ring_ok_bounds [OF ring]
    by (auto simp: put_key_def tty_keys_def)
  assume "tty_keys t \<noteq> []"
  then have "0 < inbuf_count t" using keys_count [OF ok] by simp
  note get = ring_ok_get [OF ring this]
  show "keys_ok (snd (get_key t))" "tty_keys t = fst (get_key t) # tty_keys (snd (get_key t))"
    using get(1) get(2) [of "in_buf t"] by (simp_all add: get_key_def keys_ok_def tty_keys_def)
qed

lemma put_key_fields [simp]:
  "tty_caller (put_key k t) = tty_caller t" "tty_procnr (put_key k t) = tty_procnr t"
  "tty_req_buf (put_key k t) = tty_req_buf t" "tty_left_cnt (put_key k t) = tty_left_cnt t"
  "tty_trans_cnt (put_key k t) = tty_trans_cnt t" "p_console (put_key k t) = p_console t"
  by (simp_all add: put_key_def)

section \<open>Output\<close>

lemma more_fields:
  fixes s :: terminals
  assumes "screen.more s' = screen.more s"
  shows "tty_table s' = tty_table s" "kboard s' = kboard s" "procs s' = procs s" "disp_pos s' = disp_pos s"
    "stack_msg s' = stack_msg s" "tty_sent s' = tty_sent s"
  using assms by (cases s; cases s'; simp)+

lemma out_char_ok:
  assumes "screen_ok s" and "c < 3"
  obtains s' where "out_char c ch s = Inr s'" and "screen_ok s'" and "screen.more s' = screen.more s"
    and "\<And>a. a \<notin> con_area c \<Longrightarrow> cmem s' a = cmem s a" and "nr_current_console s' = nr_current_console s"
proof -
  obtain k l where p: "console_table s c = con_at c k l" "k < 5461" "l \<le> 44"
    using screen_okE [OF assms] by metis
  obtain s' l' where o: "out_char c ch s = Inr s'"
    "console_table s' = (console_table s)(c := con_at c (next_cell ch k) l')" "l' \<le> 44"
    "nr_current_console s' = nr_current_console s"
    "cmem s' = cmem (put_char c ch s)" "screen.more s' = screen.more s"
    using out_char_at [OF p(1) assms(2) p(2,3)] by metis
  then show thesis
    using that screen_ok_at [OF assms o(2) next_cell_bound [OF p(2)] o(3,4)]
      put_char_at(4) [OF p(1) assms(2) p(2,3)] by metis
qed

text \<open>Printing on a console, as what it leaves of a terminal state.\<close>

definition printed :: "nat \<Rightarrow> terminals \<Rightarrow> terminals \<Rightarrow> bool" where
  "printed c s s' \<longleftrightarrow> screen_ok s' \<and> screen.more s' = screen.more s \<and>
     nr_current_console s' = nr_current_console s \<and> (\<forall>a. a \<notin> con_area c \<longrightarrow> cmem s' a = cmem s a)"

lemma printed_trans: "printed c s s1 \<Longrightarrow> printed c s1 s2 \<Longrightarrow> printed c s s2"
  by (auto simp: printed_def)

lemma printed_fields:
  assumes "printed c s s'"
  shows "tty_table s' = tty_table s" "kboard s' = kboard s" "procs s' = procs s" "disp_pos s' = disp_pos s"
    "stack_msg s' = stack_msg s" "tty_sent s' = tty_sent s"
  using more_fields [of s' s] assms by (simp_all add: printed_def)

lemma out_char_printed:
  assumes "screen_ok s" and "c < 3"
  obtains s' where "out_char c ch s = Inr s'" and "printed c s s'"
  using out_char_ok [OF assms, of ch] unfolding printed_def by metis

lemma out_chars_printed:
  assumes "screen_ok s" and "c < 3"
  shows "\<exists>s'. out_chars c chs s = Inr s' \<and> printed c s s'"
  using assms(1)
proof (induction chs arbitrary: s)
  case (Cons ch r)
  obtain s1 where s1: "out_char c ch s = Inr s1" "printed c s s1" by (rule out_char_printed [OF Cons.prems assms(2)])
  then have "screen_ok s1" by (simp add: printed_def)
  from Cons.IH [OF this] s1 show ?case using printed_trans [OF s1(2)] by auto
qed (simp add: printed_def)

lemma write_chunks_printed:
  assumes "screen_ok s" and "c < 3" and "flat_tasks (procs s)"
  shows "\<exists>s'. write_chunks c p i s = Inr s' \<and> printed c s s'"
  using assms(1,3)
proof (induction i arbitrary: p s rule: less_induct)
  case (less i)
  show ?case
  proof (cases "i = 0")
    case True
    then show ?thesis using less.prems by (auto simp: write_chunks.simps [of c p 0 s] printed_def)
  next
    case False
    let ?n = "cmin TTY_OUT_BUF_LEN i"
    let ?buf = "map (\<lambda>j. cmem s (p + of_nat j)) [0..<?n]"
    obtain s1 where s1: "out_chars c ?buf s = Inr s1" "printed c s s1"
      using out_chars_printed [OF less.prems(1) assms(2)] by blast
    have "\<exists>s'. write_chunks c (p + of_nat ?n) (i - ?n) s1 = Inr s' \<and> printed c s1 s'"
      using False s1(2) less.prems(2) printed_fields(3) [OF s1(2)]
      by (intro less.IH) (auto simp: printed_def)
    moreover have "write_chunks c p i s = write_chunks c (p + of_nat ?n) (i - ?n) s1"
      using False s1(1) va2la_lin [OF less.prems(2)] by (subst write_chunks.simps) (simp add: Let_def del: upt_Suc)
    ultimately show ?thesis using printed_trans [OF s1(2)] by metis
  qed
qed

section \<open>The invariant\<close>

text \<open>
  A terminal writes to its own console; a request that is pending has a buffer and a
  process to answer to.
\<close>

definition tty_ok :: "nat \<Rightarrow> tty \<Rightarrow> bool" where
  "tty_ok c t \<longleftrightarrow> keys_ok t \<and> p_console t = c \<and> 0 \<le> tty_left_cnt t \<and> 0 \<le> tty_trans_cnt t \<and>
     (tty_left_cnt t \<noteq> 0 \<longrightarrow> tty_procnr t \<noteq> NO_TASK \<and> tty_req_buf t \<noteq> 0)"

definition term_ok :: "terminals \<Rightarrow> bool" where
  "term_ok s \<longleftrightarrow> screen_ok s \<and> (\<forall>c < NR_CONSOLES. tty_ok c (tty_table s c)) \<and> kbd_ok (kboard s) \<and> flat_tasks (procs s)"

lemma upd_tty_simps [simp]:
  "tty_table (upd_tty c f s) = (tty_table s)(c := f (tty_table s c))" "kboard (upd_tty c f s) = kboard s"
  "procs (upd_tty c f s) = procs s" "tty_sent (upd_tty c f s) = tty_sent s" "cmem (upd_tty c f s) = cmem s"
  "stack_msg (upd_tty c f s) = stack_msg s" "screen_ok (upd_tty c f s) = screen_ok s"
  "nr_current_console (upd_tty c f s) = nr_current_console s"
  "tty_table (send_msg d m s) = tty_table s" "kboard (send_msg d m s) = kboard s"
  "procs (send_msg d m s) = procs s" "tty_sent (send_msg d m s) = tty_sent s @ [(d, m)]" "cmem (send_msg d m s) = cmem s"
  "stack_msg (send_msg d m s) = stack_msg s" "screen_ok (send_msg d m s) = screen_ok s"
  "nr_current_console (send_msg d m s) = nr_current_console s"
  by (simp_all add: upd_tty_def send_msg_def screen_ok_def)

lemma screen_ok_mem [simp]: "screen_ok (s\<lparr>cmem := m\<rparr>) = screen_ok s"
  by (simp add: screen_ok_def)

lemma term_ok_upd:
  "term_ok s \<Longrightarrow> c < NR_CONSOLES \<Longrightarrow> tty_ok c (f (tty_table s c)) \<Longrightarrow> term_ok (upd_tty c f s)"
  by (simp add: term_ok_def)

lemma term_ok_printed: "term_ok s \<Longrightarrow> printed c s s' \<Longrightarrow> term_ok s'"
  using printed_fields [of c s s'] by (simp add: term_ok_def printed_def)

lemma term_okD:
  assumes "term_ok s" and "c < NR_CONSOLES"
  shows "screen_ok s" "tty_ok c (tty_table s c)" "p_console (tty_table s c) = c" "flat_tasks (procs s)"
    "keys_ok (tty_table s c)" "kbd_ok (kboard s)"
  using assms by (auto simp: term_ok_def tty_ok_def)

section \<open>The line editor\<close>

text \<open>
  One character on a line of at most \<open>n\<close>: a printable character is appended, a
  backspace removes the last one; the line is complete with a newline or when it
  is full.
\<close>

definition edit :: "u8 \<Rightarrow> u8 list \<Rightarrow> u8 list" where
  "edit ch typed = (if 32 \<le> ch \<and> ch \<le> 126 then typed @ [ch] else if ch = backspace then butlast typed else typed)"

definition complete :: "nat \<Rightarrow> u8 \<Rightarrow> u8 list \<Rightarrow> bool" where
  "complete n ch typed \<longleftrightarrow> ch = newline \<or> length typed = n"

fun read_line :: "nat \<Rightarrow> u8 list \<Rightarrow> u8 list \<Rightarrow> u8 list option" where
  "read_line n typed [] = None"
| "read_line n typed (ch # chs) =
    (let t = edit ch typed in if complete n ch t then Some t else read_line n t chs)"

text \<open>The line as the request of terminal \<open>c\<close> has it: its characters in the buffer at \<open>req\<close>.\<close>

definition line_in :: "memory \<Rightarrow> u32 \<Rightarrow> u8 list \<Rightarrow> bool" where
  "line_in m req typed \<longleftrightarrow> (\<forall>j < length typed. m (req + of_nat j) = typed ! j)"

definition pending_line :: "nat \<Rightarrow> nat \<Rightarrow> u8 list \<Rightarrow> terminals \<Rightarrow> bool" where
  "pending_line c n typed s \<longleftrightarrow> tty_trans_cnt (tty_table s c) = int (length typed) \<and>
     tty_left_cnt (tty_table s c) = int n - int (length typed) \<and> length typed < n \<and>
     line_in (cmem s) (tty_req_buf (tty_table s c)) typed"

text \<open>The request buffer does not meet the video memory of the console.\<close>

definition clear_of :: "nat \<Rightarrow> nat \<Rightarrow> u32 \<Rightarrow> bool" where
  "clear_of c n req \<longleftrightarrow> n \<le> 2 ^ 31 \<and> (\<forall>j < n. req + of_nat j \<notin> con_area c)"

lemma line_in_append:
  "line_in m req typed \<Longrightarrow> length typed < 2 ^ 31 \<Longrightarrow>
   line_in (m(req + of_nat (length typed) := ch)) req (typed @ [ch])"
proof -
  assume l: "line_in m req typed" "length typed < 2 ^ 31"
  have "(of_nat j :: u32) \<noteq> of_nat (length typed)" if "j < length typed" for j
    using that l(2) by (auto simp: word_unat_eq_iff unat_of_nat)
  then show ?thesis using l(1) by (auto simp: line_in_def nth_append less_Suc_eq)
qed

lemma line_in_printed:
  "line_in (cmem s) req typed \<Longrightarrow> printed c s s' \<Longrightarrow> clear_of c n req \<Longrightarrow> length typed \<le> n \<Longrightarrow>
   line_in (cmem s') req typed"
  by (simp add: line_in_def printed_def clear_of_def)

lemma line_in_butlast: "line_in m req typed \<Longrightarrow> line_in m req (butlast typed)"
  by (simp add: line_in_def nth_butlast)

text \<open>One character of a pending request, in the code and in the specification.\<close>

lemma edit_line_refines:
  assumes "term_ok s" and "c < NR_CONSOLES" and "pending_line c n typed s" and "clear_of c n (tty_req_buf (tty_table s c))"
  obtains s' t' where "edit_line c ch s = Inr s'" and "screen_ok s'" and "procs s' = procs s" and "kboard s' = kboard s"
    and "tty_sent s' = tty_sent s" and "stack_msg s' = stack_msg s" and "tty_table s' = (tty_table s)(c := t')"
    and "t' = (tty_table s c)\<lparr>tty_trans_cnt := int (length (edit ch typed)), tty_left_cnt := int n - int (length (edit ch typed))\<rparr>"
    and "length (edit ch typed) \<le> n" and "line_in (cmem s') (tty_req_buf t') (edit ch typed)"
proof -
  note ok = term_okD [OF assms(1,2)]
  let ?t = "tty_table s c"
  have p: "tty_trans_cnt ?t = int (length typed)" "tty_left_cnt ?t = int n - int (length typed)" "length typed < n"
    "line_in (cmem s) (tty_req_buf ?t) typed"
    using assms(3) by (simp_all add: pending_line_def)
  have req: "tty_req_buf ?t \<noteq> 0" using ok(2) p(2,3) by (simp add: tty_ok_def)
  have small: "length typed < 2 ^ 31" using p(3) assms(4) by (simp add: clear_of_def)
  obtain s1 where s1: "out_char c ch s = Inr s1" "printed c s s1" by (rule out_char_printed [OF ok(1) assms(2)])
  note f = printed_fields [OF s1(2)]
  have l1: "line_in (cmem s1) (tty_req_buf ?t) typed"
    using line_in_printed [OF p(4) s1(2) assms(4)] p(3) by simp
  have sc: "screen_ok s1" using s1(2) by (simp add: printed_def)
  have va: "va2la (procs s1) TASK_TTY 0 = Inr (lin (procs s1) TASK_TTY 0)"
    using va2la_lin ok(4) f(3) by simp
  let ?t' = "?t\<lparr>tty_trans_cnt := int (length (edit ch typed)), tty_left_cnt := int n - int (length (edit ch typed))\<rparr>"
  consider (plain) "32 \<le> ch \<and> ch \<le> 126" | (rub) "\<not> (32 \<le> ch \<and> ch \<le> 126)" "ch = backspace" "typed \<noteq> []"
    | (none) "\<not> (32 \<le> ch \<and> ch \<le> 126)" "ch \<noteq> backspace \<or> typed = []" by blast
  then show thesis
  proof cases
    case plain
    then show thesis
      using s1(1) f p sc va req ok(3) line_in_append [OF l1 small, of ch]
      by (intro that [of "upd_tty c (\<lambda>t. t\<lparr>tty_trans_cnt := tty_trans_cnt t + 1, tty_left_cnt := tty_left_cnt t - 1\<rparr>)
           (s1\<lparr>cmem := (cmem s1)(tty_req_buf ?t + word_of_int (tty_trans_cnt ?t) := ch)\<rparr>)" ?t'])
        (simp_all add: edit_line_def edit_def Let_def diff_diff_eq add.commute)
  next
    case rub
    then obtain ts x where "typed = ts @ [x]" by (cases typed rule: rev_cases) auto
    then show thesis
      using rub s1(1) f p sc ok(3) line_in_butlast [OF l1]
      by (intro that [of "upd_tty c (\<lambda>t. t\<lparr>tty_trans_cnt := tty_trans_cnt t - 1, tty_left_cnt := tty_left_cnt t + 1\<rparr>) s1" ?t'])
        (simp_all add: edit_line_def edit_def Let_def)
  next
    case none
    then have "edit ch typed = typed" by (auto simp: edit_def)
    then show thesis using none p ok(1)
      by (intro that [of s ?t']) (auto simp: edit_line_def Let_def)
  qed
qed

lemma finish_read_refines:
  assumes "screen_ok s" and "c < NR_CONSOLES" and "p_console (tty_table s c) = c" and "tty_procnr (tty_table s c) \<noteq> NO_TASK"
  obtains s1 where "finish_read c s = Inr (upd_tty c (\<lambda>t. t\<lparr>tty_left_cnt := 0\<rparr>)
      (send_msg (tty_caller (tty_table s c)) (resume_msg (stack_msg s) (tty_table s c)) s1))" and "printed c s s1"
proof -
  obtain s1 where "out_char c newline s = Inr s1" "printed c s s1" by (rule out_char_printed [OF assms(1,2)])
  then show thesis using assms(3,4) that by (simp add: finish_read_def Let_def)
qed

text \<open>What the answer to the request says: the number of characters, for the process that reads.\<close>

definition answered :: "nat \<Rightarrow> terminals \<Rightarrow> u8 list \<Rightarrow> terminals \<Rightarrow> bool" where
  "answered c s line s' \<longleftrightarrow> tty_left_cnt (tty_table s' c) = 0 \<and>
     line_in (cmem s') (tty_req_buf (tty_table s c)) line \<and>
     (\<exists>m. tty_sent s' = tty_sent s @ [(tty_caller (tty_table s c), m)] \<and> msgtype m = RESUME_PROC \<and>
        m3i3 m = tty_procnr (tty_table s c) \<and> m3i2 m = int (length line))"

definition same_request :: "nat \<Rightarrow> terminals \<Rightarrow> terminals \<Rightarrow> bool" where
  "same_request c s s' \<longleftrightarrow> tty_caller (tty_table s' c) = tty_caller (tty_table s c) \<and>
     tty_procnr (tty_table s' c) = tty_procnr (tty_table s c) \<and> tty_req_buf (tty_table s' c) = tty_req_buf (tty_table s c)"

lemma get_key_fields [simp]:
  "tty_caller (snd (get_key t)) = tty_caller t" "tty_procnr (snd (get_key t)) = tty_procnr t"
  "tty_req_buf (snd (get_key t)) = tty_req_buf t" "tty_left_cnt (snd (get_key t)) = tty_left_cnt t"
  "tty_trans_cnt (snd (get_key t)) = tty_trans_cnt t" "p_console (snd (get_key t)) = p_console t"
  by (simp_all add: get_key_def)

lemma keys_ok_upd [simp]:
  "keys_ok (t\<lparr>tty_left_cnt := x\<rparr>) = keys_ok t" "keys_ok (t\<lparr>tty_trans_cnt := x\<rparr>) = keys_ok t"
  "tty_keys (t\<lparr>tty_left_cnt := x\<rparr>) = tty_keys t" "tty_keys (t\<lparr>tty_trans_cnt := x\<rparr>) = tty_keys t"
  by (simp_all add: keys_ok_def tty_keys_def)

text \<open>What working on terminal \<open>c\<close> leaves alone.\<close>

abbreviation (input) others :: "nat \<Rightarrow> terminals \<Rightarrow> terminals \<Rightarrow> bool" where
  "others c s s' \<equiv> (\<forall>d. d \<noteq> c \<longrightarrow> tty_table s' d = tty_table s d) \<and> procs s' = procs s \<and> kboard s' = kboard s"

text \<open>Taking a key off the queue of a terminal that has no request: the key is dropped.\<close>

lemma write_key_idle:
  assumes "term_ok s" and "c < NR_CONSOLES" and "tty_keys (tty_table s c) = k # ks" and "tty_left_cnt (tty_table s c) = 0"
  obtains s' where "write_key c s = Inr s'" and "term_ok s'" and "tty_keys (tty_table s' c) = ks"
    and "tty_left_cnt (tty_table s' c) = 0" and "tty_sent s' = tty_sent s" and "cmem s' = cmem s"
    and "others c s s'"
proof -
  note ok = term_okD [OF assms(1,2)]
  let ?t = "snd (get_key (tty_table s c))"
  have ne: "tty_keys (tty_table s c) \<noteq> []" using assms(3) by simp
  have q: "keys_ok ?t" "tty_keys ?t = ks"
    using tq.valid_get [OF ok(5) ne] tq.contents_get [OF ok(5) ne] assms(3) by simp_all
  have "tty_ok c ?t" using ok(2) q(1) by (simp add: tty_ok_def)
  then have "term_ok (upd_tty c (\<lambda>_. ?t) s)" by (intro term_ok_upd assms)
  moreover have "write_key c s = Inr (upd_tty c (\<lambda>_. ?t) s)"
    using assms(4) by (simp add: write_key_def case_prod_beta Let_def)
  ultimately show thesis using that [of "upd_tty c (\<lambda>_. ?t) s"] q(2) assms(4) by simp
qed

lemma write_key_refines:
  assumes "term_ok s" and "c < NR_CONSOLES" and "tty_keys (tty_table s c) = k # ks"
    and "pending_line c n typed s" and "clear_of c n (tty_req_buf (tty_table s c))"
  obtains s' where "write_key c s = Inr s'" and "term_ok s'" and "tty_keys (tty_table s' c) = ks"
    and "if complete n (ucast k) (edit (ucast k) typed) then answered c s (edit (ucast k) typed) s'
         else pending_line c n (edit (ucast k) typed) s' \<and> tty_sent s' = tty_sent s \<and> same_request c s s'"
    and "others c s s'"
proof -
  note ok = term_okD [OF assms(1,2)]
  let ?t = "snd (get_key (tty_table s c))" and ?ch = "ucast k :: u8"
  let ?line = "edit ?ch typed"
  have ne: "tty_keys (tty_table s c) \<noteq> []" using assms(3) by simp
  have q: "fst (get_key (tty_table s c)) = k" "keys_ok ?t" "tty_keys ?t = ks"
    using tq.valid_get [OF ok(5) ne] tq.contents_get [OF ok(5) ne] assms(3) by simp_all
  define s1 where "s1 = upd_tty c (\<lambda>_. ?t) s"
  have t1: "tty_table s1 c = ?t" by (simp add: s1_def)
  have ok1: "term_ok s1"
    using ok(2) q(2) unfolding s1_def by (intro term_ok_upd assms) (simp add: tty_ok_def)
  have p1: "pending_line c n typed s1" "clear_of c n (tty_req_buf (tty_table s1 c))"
    using assms(4,5) by (simp_all add: s1_def pending_line_def)
  have left: "tty_left_cnt ?t \<noteq> 0" using assms(4) by (simp add: pending_line_def)
  then have proc: "tty_procnr ?t \<noteq> NO_TASK" "tty_req_buf ?t \<noteq> 0" using ok(2) by (simp_all add: tty_ok_def)
  obtain s2 t2 where s2: "edit_line c ?ch s1 = Inr s2" "screen_ok s2" "procs s2 = procs s1" "kboard s2 = kboard s1"
    "tty_sent s2 = tty_sent s1" "stack_msg s2 = stack_msg s1" "tty_table s2 = (tty_table s1)(c := t2)"
    and t2: "t2 = (tty_table s1 c)\<lparr>tty_trans_cnt := int (length ?line), tty_left_cnt := int n - int (length ?line)\<rparr>"
    and len: "length ?line \<le> n" and line: "line_in (cmem s2) (tty_req_buf t2) ?line"
    by (rule edit_line_refines [OF ok1 assms(2) p1])
  have t2f: "tty_table s2 c = t2" "p_console t2 = c" "tty_procnr t2 = tty_procnr ?t" "tty_caller t2 = tty_caller ?t"
    "tty_req_buf t2 = tty_req_buf ?t" "keys_ok t2" "tty_keys t2 = ks" "tty_trans_cnt t2 = int (length ?line)"
    "tty_left_cnt t2 = int n - int (length ?line)"
    using s2(7) ok(3) q(2,3) by (simp_all add: t2 t1)
  have ok2: "term_ok s2"
    using ok1 s2 t2f len proc by (auto simp: term_ok_def tty_ok_def t1)
  have w: "write_key c s = (if complete n ?ch ?line then finish_read c s2 else Inr s2)"
    using left q(1) s2(1) t2f(1,9) len
    by (simp add: write_key_def case_prod_beta Let_def s1_def [symmetric] complete_def)
  show thesis
  proof (cases "complete n ?ch ?line")
    case False
    then have "length ?line < n" using len by (simp add: complete_def)
    then have "pending_line c n ?line s2 \<and> tty_sent s2 = tty_sent s \<and> same_request c s s2"
      using t2f line s2(5) by (simp add: pending_line_def same_request_def s1_def)
    then show thesis using that [of s2] w False ok2 t2f s2(3,4,7) by (simp add: s1_def)
  next
    case True
    have "p_console (tty_table s2 c) = c" "tty_procnr (tty_table s2 c) \<noteq> NO_TASK" using t2f proc by simp_all
    from finish_read_refines [OF s2(2) assms(2) this] obtain s3 where
      s3: "finish_read c s2 = Inr (upd_tty c (\<lambda>t. t\<lparr>tty_left_cnt := 0\<rparr>)
        (send_msg (tty_caller (tty_table s2 c)) (resume_msg (stack_msg s2) (tty_table s2 c)) s3))" "printed c s2 s3" .
    let ?s = "upd_tty c (\<lambda>t. t\<lparr>tty_left_cnt := 0\<rparr>)
        (send_msg (tty_caller (tty_table s2 c)) (resume_msg (stack_msg s2) (tty_table s2 c)) s3)"
    note f = printed_fields [OF s3(2)]
    have ok3: "term_ok (send_msg d m s3)" for d m using term_ok_printed [OF ok2 s3(2)] by (simp add: term_ok_def)
    have "term_ok ?s"
      using term_okD [OF ok2 assms(2)] f(1) by (intro term_ok_upd ok3 assms) (simp add: tty_ok_def)
    moreover have "line_in (cmem s3) (tty_req_buf t2) ?line"
      using line_in_printed [OF line s3(2) _ len] assms(5) t2f(5) by simp
    then have "answered c s ?line ?s"
      using f t2f s2(5) by (simp add: answered_def resume_msg_def s1_def)
    ultimately show thesis using that [of ?s] w s3(1) True t2f f s2(3,4,7) by (simp add: s1_def)
  qed
qed

section \<open>A whole queue of keys\<close>

lemma drain_idle:
  "term_ok s \<Longrightarrow> c < NR_CONSOLES \<Longrightarrow> tty_keys (tty_table s c) = ks \<Longrightarrow> tty_left_cnt (tty_table s c) = 0 \<Longrightarrow>
   \<exists>s'. drain_keys c (length ks) s = Inr s' \<and> term_ok s' \<and> tty_keys (tty_table s' c) = [] \<and>
     tty_left_cnt (tty_table s' c) = 0 \<and> tty_sent s' = tty_sent s \<and> cmem s' = cmem s \<and>
     others c s s'"
proof (induction ks arbitrary: s)
  case (Cons k ks)
  obtain s1 where "write_key c s = Inr s1" "term_ok s1" "tty_keys (tty_table s1 c) = ks"
    "tty_left_cnt (tty_table s1 c) = 0" "tty_sent s1 = tty_sent s" "cmem s1 = cmem s"
    "others c s s1"
    by (rule write_key_idle [OF Cons.prems])
  with Cons.IH [of s1] Cons.prems(2) show ?case by simp
qed simp

lemma drain_line:
  "term_ok s \<Longrightarrow> c < NR_CONSOLES \<Longrightarrow> tty_keys (tty_table s c) = ks \<Longrightarrow> pending_line c n typed s \<Longrightarrow>
   clear_of c n (tty_req_buf (tty_table s c)) \<Longrightarrow>
   \<exists>s'. drain_keys c (length ks) s = Inr s' \<and> term_ok s' \<and> tty_keys (tty_table s' c) = [] \<and>
     others c s s' \<and>
     (case read_line n typed (map ucast ks) of
        Some line \<Rightarrow> answered c s line s'
      | None \<Rightarrow> pending_line c n (fold edit (map ucast ks) typed) s' \<and> tty_sent s' = tty_sent s \<and> same_request c s s')"
proof (induction ks arbitrary: s typed)
  case Nil
  then show ?case by (simp add: same_request_def)
next
  case (Cons k ks)
  let ?line = "edit (ucast k) typed"
  obtain s1 where w: "write_key c s = Inr s1" and ok: "term_ok s1" and keys: "tty_keys (tty_table s1 c) = ks"
    and r: "if complete n (ucast k) ?line then answered c s ?line s1
      else pending_line c n ?line s1 \<and> tty_sent s1 = tty_sent s \<and> same_request c s s1"
    and oth: "others c s s1"
    by (rule write_key_refines [OF Cons.prems])
  show ?case
  proof (cases "complete n (ucast k) ?line")
    case False
    then have s1: "pending_line c n ?line s1" "tty_sent s1 = tty_sent s" "same_request c s s1" using r by simp_all
    have "clear_of c n (tty_req_buf (tty_table s1 c))"
      using s1(3) Cons.prems(5) by (simp add: same_request_def)
    from Cons.IH [OF ok Cons.prems(2) keys s1(1) this] show ?thesis
      using w False s1(2,3) oth by (auto simp: answered_def same_request_def split: option.splits)
  next
    case True
    then have a: "answered c s ?line s1" using r by simp
    then have "tty_left_cnt (tty_table s1 c) = 0" by (simp add: answered_def)
    from drain_idle [OF ok Cons.prems(2) keys this] show ?thesis
      using w True a oth by (auto simp: answered_def)
  qed
qed

lemma tty_dev_write_keys:
  assumes "term_ok s" and "c < NR_CONSOLES"
  shows "tty_dev_write c s = drain_keys c (length (tty_keys (tty_table s c))) s"
  using keys_count [OF term_okD(5) [OF assms]] by (simp add: tty_dev_write_def)

text \<open>A request that is pending has some text typed, and so every state is one of the two.\<close>

lemma pending_line_exists:
  assumes "term_ok s" and "c < NR_CONSOLES" and "tty_left_cnt (tty_table s c) \<noteq> 0"
  shows "\<exists>n typed. pending_line c n typed s"
proof -
  let ?t = "tty_table s c"
  let ?typed = "map (\<lambda>j. cmem s (tty_req_buf ?t + of_nat j)) [0..<nat (tty_trans_cnt ?t)]"
  have "pending_line c (nat (tty_left_cnt ?t + tty_trans_cnt ?t)) ?typed s"
    using term_okD(2) [OF assms(1,2)] assms(3) by (auto simp: pending_line_def line_in_def tty_ok_def)
  then show ?thesis by blast
qed

end
