(* ===== verification/TtyTask.thy ===== *)
theory TtyTask
  imports TtyLine
begin

unbundle bit_operations_syntax

text \<open>
  The terminal task as a whole: its start establishes the invariant of the terminals,
  keys keep it, and a polling of a terminal ends.
\<close>

section \<open>Keys\<close>

lemma scroll_screen_printed:
  assumes "screen_ok s" and "c < NR_CONSOLES"
  shows "printed c s (scroll_screen c d s)"
proof -
  obtain k l where p: "console_table s c = con_at c k l" "k < 5461" "l \<le> 44"
    using screen_okE [OF assms] by metis
  note sc = scroll_screen_at [OF p(1) assms(2) p(2,3), of d]
  show ?thesis
    using sc(2-4) scroll_screen_ok [OF assms, of d] by (simp add: printed_def)
qed

lemma select_console_fields [simp]:
  "console_table (select_console n s) = console_table s" "cmem (select_console n s) = cmem s"
  "screen.more (select_console n s) = screen.more s"
  by (simp_all add: select_console_def)

lemma select_console_ok: "screen_ok s \<Longrightarrow> screen_ok (select_console n s)"
  by (auto simp: select_console_def screen_ok_def)

definition reqs_clear :: "terminals \<Rightarrow> bool" where
  "reqs_clear s \<longleftrightarrow> (\<forall>c < NR_CONSOLES. let t = tty_table s c in
     tty_left_cnt t \<noteq> 0 \<longrightarrow> clear_of c (nat (tty_left_cnt t + tty_trans_cnt t)) (tty_req_buf t))"

lemma term_ok_cong:
  "screen_ok s' \<Longrightarrow> screen.more s' = screen.more s \<Longrightarrow> term_ok s \<Longrightarrow> term_ok s'"
  using more_fields [of s' s] by (simp add: term_ok_def)

lemma reqs_clear_cong: "screen.more s' = screen.more s \<Longrightarrow> reqs_clear s' = reqs_clear s"
  using more_fields [of s' s] by (simp add: reqs_clear_def)

lemma reqs_clear_step:
  assumes "reqs_clear s" and "\<forall>d. d \<noteq> c \<longrightarrow> tty_table s' d = tty_table s d"
    and "tty_left_cnt (tty_table s' c) \<noteq> 0 \<longrightarrow>
      clear_of c (nat (tty_left_cnt (tty_table s' c) + tty_trans_cnt (tty_table s' c))) (tty_req_buf (tty_table s' c))"
  shows "reqs_clear s'"
  unfolding reqs_clear_def Let_def
proof (intro allI impI)
  fix d :: nat assume "d < 3" "tty_left_cnt (tty_table s' d) \<noteq> 0"
  then show "clear_of d (nat (tty_left_cnt (tty_table s' d) + tty_trans_cnt (tty_table s' d))) (tty_req_buf (tty_table s' d))"
    using assms by (cases "d = c") (auto simp: reqs_clear_def Let_def)
qed

lemma put_key_ok: "term_ok s \<Longrightarrow> c < NR_CONSOLES \<Longrightarrow> term_ok (upd_tty c (put_key k) s)"
  using term_okD [of s c] tq.valid_put [of "tty_table s c" k] by (intro term_ok_upd) (auto simp: tty_ok_def)

lemma put_key_clear: "reqs_clear s \<Longrightarrow> reqs_clear (upd_tty c (put_key k) s)"
  by (auto simp: reqs_clear_def Let_def)

lemma in_process_ok:
  assumes "term_ok s" and "c < NR_CONSOLES" and "reqs_clear s"
  shows "term_ok (in_process c key s) \<and> reqs_clear (in_process c key s)"
proof -
  note ok = term_okD [OF assms(1,2)]
  have put: "term_ok (upd_tty c (put_key k) s) \<and> reqs_clear (upd_tty c (put_key k) s)" for k
    using put_key_ok put_key_clear assms by simp
  have scroll: "term_ok (scroll_screen c d s) \<and> reqs_clear (scroll_screen c d s)" for d
    using term_ok_printed [OF assms(1) scroll_screen_printed [OF ok(1) assms(2), of d]]
      scroll_screen_printed [OF ok(1) assms(2), of d] reqs_clear_cong [of "scroll_screen c d s" s] assms(3)
    by (simp add: printed_def)
  have sel: "term_ok (select_console n s) \<and> reqs_clear (select_console n s)" for n
    using term_ok_cong [OF select_console_ok [OF ok(1)] _ assms(1), of n]
      reqs_clear_cong [of "select_console n s" s] assms(3) by simp
  show ?thesis
    unfolding in_process_def Let_def ok(3) using put scroll sel assms by (simp split: if_split)
qed

lemma tty_dev_read_ok:
  assumes "term_ok s" and "c < NR_CONSOLES" and "reqs_clear s" and "tty_dev_read c s = Inr s'"
  shows "term_ok s' \<and> reqs_clear s'"
proof -
  have keys: "term_ok (s\<lparr>kboard := kb\<rparr>) \<and> reqs_clear (s\<lparr>kboard := kb\<rparr>)" if "keyboard_read (kboard s) = Inr (k, kb)" for k kb
    using keyboard_read_ok [OF _ that] assms(1,3) by (simp add: term_ok_def reqs_clear_def screen_ok_def)
  show ?thesis
    using assms(4) keys in_process_ok [OF _ assms(2)] assms(1,3)
    by (auto simp: tty_dev_read_def tty_keyboard_read_def Let_def split: if_splits sum.splits option.splits)
qed

section \<open>Polling\<close>

lemma tty_dev_write_ok:
  assumes "term_ok s" and "c < NR_CONSOLES" and "reqs_clear s"
  shows "\<exists>s'. tty_dev_write c s = Inr s' \<and> term_ok s' \<and> tty_keys (tty_table s' c) = [] \<and> reqs_clear s' \<and>
    others c s s'"
proof (cases "tty_left_cnt (tty_table s c) = 0")
  case True
  from drain_idle [OF assms(1,2) refl True] obtain s' where
    "drain_keys c (length (tty_keys (tty_table s c))) s = Inr s'" "term_ok s'" "tty_keys (tty_table s' c) = []"
    "tty_left_cnt (tty_table s' c) = 0" "others c s s'" by blast
  then show ?thesis
    using tty_dev_write_keys [OF assms(1,2)] reqs_clear_step [OF assms(3), of c s'] by simp
next
  case False
  then obtain n typed where p: "pending_line c n typed s" using pending_line_exists [OF assms(1,2)] by blast
  then have n: "n = nat (tty_left_cnt (tty_table s c) + tty_trans_cnt (tty_table s c))" by (simp add: pending_line_def)
  then have cl: "clear_of c n (tty_req_buf (tty_table s c))"
    using assms(2,3) False by (simp add: reqs_clear_def Let_def)
  from drain_line [OF assms(1,2) refl p cl] obtain s' where s':
    "drain_keys c (length (tty_keys (tty_table s c))) s = Inr s'" "term_ok s'" "tty_keys (tty_table s' c) = []"
    "others c s s'"
    "case read_line n typed (map ucast (tty_keys (tty_table s c))) of Some line \<Rightarrow> answered c s line s'
      | None \<Rightarrow> pending_line c n (fold edit (map ucast (tty_keys (tty_table s c))) typed) s' \<and> tty_sent s' = tty_sent s \<and>
          same_request c s s'" by blast
  have "tty_left_cnt (tty_table s' c) \<noteq> 0 \<longrightarrow>
      clear_of c (nat (tty_left_cnt (tty_table s' c) + tty_trans_cnt (tty_table s' c))) (tty_req_buf (tty_table s' c))"
    using s'(5) cl by (auto simp: answered_def pending_line_def same_request_def split: option.splits)
  then show ?thesis
    using tty_dev_write_keys [OF assms(1,2)] reqs_clear_step [OF assms(3) conjunct1 [OF s'(4)]] s' by simp
qed

lemma tty_poll_once:
  assumes "term_ok s" and "c < NR_CONSOLES" and "reqs_clear s"
  shows "tty_poll c s = Some (rbind (tty_dev_read c s) (tty_dev_write c))"
    and "tty_dev_read c s = Inr s1 \<Longrightarrow> \<exists>s'. tty_poll c s = Some (Inr s') \<and> term_ok s' \<and> reqs_clear s' \<and> tty_keys (tty_table s' c) = []"
proof -
  have w: "\<exists>s'. tty_dev_write c s1 = Inr s' \<and> term_ok s' \<and> reqs_clear s' \<and> tty_keys (tty_table s' c) = [] \<and> inbuf_count (tty_table s' c) = 0"
    if "tty_dev_read c s = Inr s1" for s1
  proof -
    have "term_ok s1 \<and> reqs_clear s1" by (rule tty_dev_read_ok [OF assms that])
    with tty_dev_write_ok [OF _ assms(2)] obtain s' where
      s': "tty_dev_write c s1 = Inr s'" "term_ok s'" "tty_keys (tty_table s' c) = []" "reqs_clear s'" by blast
    then show ?thesis using keys_count [OF term_okD(5) [OF s'(2) assms(2)]] by simp
  qed
  show p: "tty_poll c s = Some (rbind (tty_dev_read c s) (tty_dev_write c))"
    using w by (subst tty_poll.simps) (auto split: sum.split)
  show "\<exists>s'. tty_poll c s = Some (Inr s') \<and> term_ok s' \<and> reqs_clear s' \<and> tty_keys (tty_table s' c) = []"
    if "tty_dev_read c s = Inr s1" using w [OF that] that by (auto simp: p)
qed

section \<open>The start\<close>

lemma init_screen_ok:
  assumes "c < NR_CONSOLES" and "0 \<le> disp" and "disp < 2 * 5461"
  obtains s' where "init_screen c disp s = Inr s'" and "con_ok c (console_table s' c)"
    and "\<And>d. d \<noteq> c \<Longrightarrow> console_table s' d = console_table s d" and "screen.more s' = screen.more s"
    and "nr_current_console s' = nr_current_console s"
proof -
  define k where "k = (if c = 0 then nat (disp div 2) else 0)"
  have k: "k < 5461" using assms(2,3) by (auto simp: k_def)
  define s1 where "s1 = upd_con c (\<lambda>_. con_at c k 0) s"
  have start: "upd_con c (\<lambda>p. \<lparr>current_start_addr = of_nat c * 5461, original_addr = of_nat c * 5461, v_mem_limit = 5461,
      cursor = (if c = 0 then word_of_int (disp sdiv 2) else of_nat c * 5461)\<rparr>) s = s1"
    using assms(2) by (simp add: s1_def con_at_def k_def upd_con_def)
  show thesis
  proof (cases "c = 0")
    case True
    then have "init_screen c disp s = Inr (set_cursor (cursor (console_table s1 c)) s1)"
      unfolding init_screen_def Let_def using start by simp
    then show thesis
      using that [of "set_cursor (cursor (console_table s1 c)) s1"] k by (auto simp: s1_def con_ok_at)
  next
    case False
    have c1: "console_table s1 c = con_at c k 0" by (simp add: s1_def)
    obtain s2 l2 where s2: "out_char c (of_nat (c + 48)) s1 = Inr s2"
      "console_table s2 = (console_table s1)(c := con_at c (next_cell (of_nat (c + 48)) k) l2)" "l2 \<le> 44"
      "nr_current_console s2 = nr_current_console s1" "screen.more s2 = screen.more s1"
      by (rule out_char_at [OF c1 assms(1) k, of "of_nat (c + 48)"]) simp_all
    have c2: "console_table s2 c = con_at c (next_cell (of_nat (c + 48)) k) l2" using s2(2) by simp
    obtain s3 l3 where s3: "out_char c 0x23 s2 = Inr s3"
      "console_table s3 = (console_table s2)(c := con_at c (next_cell 0x23 (next_cell (of_nat (c + 48)) k)) l3)" "l3 \<le> 44"
      "nr_current_console s3 = nr_current_console s2" "screen.more s3 = screen.more s2"
      by (rule out_char_at [OF c2 assms(1) next_cell_bound [OF k] s2(3), of "0x23"]) simp_all
    have "init_screen c disp s = Inr (set_cursor (cursor (console_table s3 c)) s3)"
      unfolding init_screen_def Let_def using start s2(1) s3(1) False by simp
    moreover have "next_cell 0x23 (next_cell (of_nat (c + 48)) k) < 5461" using next_cell_bound k by blast
    ultimately show thesis
      using that [of "set_cursor (cursor (console_table s3 c)) s3"] s2 s3 by (auto simp: s1_def con_ok_at)
  qed
qed

lemma init_tty_ok:
  assumes "c < NR_CONSOLES" and "0 \<le> disp_pos s" and "disp_pos s < 2 * 5461"
  obtains s' t where "init_tty c s = Inr s'" and "con_ok c (console_table s' c)"
    and "\<forall>d. d \<noteq> c \<longrightarrow> console_table s' d = console_table s d" and "tty_table s' = (tty_table s)(c := t)"
    and "tty_ok c t" and "tty_left_cnt t = 0" and "tty_keys t = []" and "kboard s' = kboard s" and "procs s' = procs s"
    and "tty_sent s' = tty_sent s" and "disp_pos s' = (if c = 0 then 0 else disp_pos s)"
    and "nr_current_console s' = nr_current_console s"
proof -
  define t where "t = (tty_table s c)\<lparr>inbuf_count := 0, p_inbuf_head := 0, p_inbuf_tail := 0, tty_caller := NO_TASK,
     tty_procnr := NO_TASK, tty_req_buf := 0, tty_left_cnt := 0, tty_trans_cnt := 0, p_console := c\<rparr>"
  define s0 where "s0 = upd_tty c (\<lambda>_. t) s"
  have u: "upd_tty c (\<lambda>t. t\<lparr>inbuf_count := 0, p_inbuf_head := 0, p_inbuf_tail := 0, tty_caller := NO_TASK,
     tty_procnr := NO_TASK, tty_req_buf := 0, tty_left_cnt := 0, tty_trans_cnt := 0, p_console := c\<rparr>) s = s0"
    by (simp add: s0_def t_def upd_tty_def)
  have t: "tty_ok c t" "tty_left_cnt t = 0" "tty_keys t = []"
    by (simp_all add: t_def tty_ok_def keys_ok_def ring_ok_def tty_keys_def)
  obtain s1 where s1: "init_screen c (disp_pos s) s0 = Inr s1" "con_ok c (console_table s1 c)"
    "\<forall>d. d \<noteq> c \<longrightarrow> console_table s1 d = console_table s0 d" "screen.more s1 = screen.more s0"
    "nr_current_console s1 = nr_current_console s0"
    using init_screen_ok [OF assms, of s0] by metis
  note f = more_fields [OF s1(4)]
  have f0: "console_table s0 = console_table s" "disp_pos s0 = disp_pos s" by (simp_all add: s0_def upd_tty_def)
  show thesis
    by (rule that [of "if c = 0 then s1\<lparr>disp_pos := 0\<rparr> else s1" t])
      (use s1 f f0 t in \<open>simp_all add: init_tty_def u, auto simp: s0_def\<close>)
qed

lemma tty_start_ok:
  assumes "init_keyboard (kboard s) = Inr kb" and "column (kboard s) < MAP_COLS" and "flat_tasks (procs s)"
    and "0 \<le> disp_pos s" and "disp_pos s < 2 * 5461"
  shows "\<exists>s'. tty_start s = Inr s' \<and> term_ok s' \<and> reqs_clear s' \<and> nr_current_console s' = 0 \<and> tty_sent s' = tty_sent s \<and>
     (\<forall>c < NR_CONSOLES. tty_keys (tty_table s' c) = [] \<and> tty_left_cnt (tty_table s' c) = 0)"
proof -
  let ?s = "s\<lparr>kboard := kb\<rparr>"
  obtain s0 t0 where s0: "init_tty 0 ?s = Inr s0" "con_ok 0 (console_table s0 0)"
    "tty_table s0 = (tty_table s)(0 := t0)" "tty_ok 0 t0" "tty_left_cnt t0 = 0" "tty_keys t0 = []"
    "kboard s0 = kb" "procs s0 = procs s" "tty_sent s0 = tty_sent s" "disp_pos s0 = 0"
    by (rule init_tty_ok [of 0 ?s]) (use assms in auto)
  obtain s1 t1 where s1: "init_tty 1 s0 = Inr s1" "con_ok 1 (console_table s1 1)"
    "\<forall>d. d \<noteq> 1 \<longrightarrow> console_table s1 d = console_table s0 d"
    "tty_table s1 = (tty_table s0)(1 := t1)" "tty_ok 1 t1" "tty_left_cnt t1 = 0" "tty_keys t1 = []"
    "kboard s1 = kboard s0" "procs s1 = procs s0" "tty_sent s1 = tty_sent s0" "disp_pos s1 = 0"
    by (rule init_tty_ok [of 1 s0]) (use s0 in auto)
  obtain s2 t2 where s2: "init_tty 2 s1 = Inr s2" "con_ok 2 (console_table s2 2)"
    "\<forall>d. d \<noteq> 2 \<longrightarrow> console_table s2 d = console_table s1 d"
    "tty_table s2 = (tty_table s1)(2 := t2)" "tty_ok 2 t2" "tty_left_cnt t2 = 0" "tty_keys t2 = []"
    "kboard s2 = kboard s1" "procs s2 = procs s1" "tty_sent s2 = tty_sent s1"
    by (rule init_tty_ok [of 2 s1]) (use s1 in auto)
  have less3: "P c" if "P 0" "P 1" "P 2" "c < 3" for P and c :: nat
    using that by (auto simp: less_Suc_eq numeral_3_eq_3 numeral_2_eq_2)
  let ?e = "select_console 0 s2"
  note f = more_fields [of ?e s2, OF select_console_fields(3)]
  have cons: "con_ok c (console_table ?e c)" if "c < 3" for c
    by (rule less3 [OF _ _ _ that]) (use s0 s1 s2 in simp_all)
  have ttys: "tty_ok c (tty_table s2 c) \<and> tty_left_cnt (tty_table s2 c) = 0 \<and> tty_keys (tty_table s2 c) = []" if "c < 3" for c
    by (rule less3 [OF _ _ _ that]) (use s0 s1 s2 in simp_all)
  have sel: "nr_current_console ?e = 0" by (simp add: select_console_def)
  have "term_ok ?e"
    using cons ttys f s0 s1 s2 sel init_keyboard_ok [OF assms(1,2)] assms(3) by (simp add: term_ok_def screen_ok_def)
  moreover have "reqs_clear ?e" using ttys f by (simp add: reqs_clear_def Let_def)
  moreover have "tty_start s = Inr ?e" using assms(1) s0(1) s1(1) s2(1) by (simp add: tty_start_def)
  ultimately show ?thesis using sel f ttys s0 s1 s2 by auto
qed

section \<open>One round\<close>

text \<open>A message of the file system: a request for a terminal that exists, with a buffer that is clear of the console.\<close>

definition sane_msg :: "message \<Rightarrow> terminals \<Rightarrow> bool" where
  "sane_msg msg s \<longleftrightarrow> source msg \<noteq> TASK_TTY \<and> 0 \<le> m3i4 msg \<and> m3i4 msg < NR_CONSOLES \<and> 0 \<le> m3i2 msg \<and>
     (msgtype msg = DEV_READ \<longrightarrow> m3i3 msg \<noteq> NO_TASK \<and> lin (procs s) (nat (m3i3 msg)) (m3p2 msg) \<noteq> 0 \<and>
        clear_of (nat (m3i4 msg)) (nat (m3i2 msg)) (lin (procs s) (nat (m3i3 msg)) (m3p2 msg)))"

lemma send_msg_ok [simp]: "term_ok (send_msg d m s) = term_ok s" "reqs_clear (send_msg d m s) = reqs_clear s"
  by (simp_all add: term_ok_def reqs_clear_def)

lemma tty_dispatch_ok:
  assumes "term_ok s" and "reqs_clear s" and "sane_msg msg s"
  shows "\<exists>s'. tty_dispatch msg s = Inr s' \<and> term_ok s' \<and> reqs_clear s'"
proof -
  let ?c = "nat (m3i4 msg)"
  have c: "?c < 3" and va: "\<And>p v. va2la (procs s) p v = Inr (lin (procs s) p v)"
    using assms(1,3) va2la_lin by (auto simp: sane_msg_def term_ok_def)
  note ok = term_okD [OF assms(1) c]
  consider (read) "msgtype msg = DEV_READ" | (wr) "msgtype msg = DEV_WRITE" | (hard) "msgtype msg = HARD_INT"
    | (other) "msgtype msg \<noteq> DEV_READ" "msgtype msg \<noteq> DEV_WRITE" "msgtype msg \<noteq> HARD_INT" by blast
  then show ?thesis
  proof cases
    case read
    let ?f = "\<lambda>t. t\<lparr>tty_caller := source msg, tty_procnr := m3i3 msg,
      tty_req_buf := lin (procs s) (nat (m3i3 msg)) (m3p2 msg), tty_left_cnt := m3i2 msg, tty_trans_cnt := 0\<rparr>"
    have "term_ok (upd_tty ?c ?f s)"
      using ok assms(3) read by (intro term_ok_upd [OF assms(1) c]) (auto simp: tty_ok_def sane_msg_def keys_ok_def)
    moreover have "reqs_clear (upd_tty ?c ?f s)"
      using assms(3) read by (intro reqs_clear_step [OF assms(2), of ?c]) (simp_all add: sane_msg_def)
    ultimately show ?thesis
      using read va assms(3) by (simp add: tty_dispatch_def tty_do_read_def Let_def sane_msg_def)
  next
    case wr
    obtain s1 where s1: "write_chunks ?c (lin (procs s) (nat (m3i3 msg)) (m3p2 msg)) (nat (m3i2 msg)) s = Inr s1"
      "printed ?c s s1"
      using write_chunks_printed [OF ok(1) c ok(4)] by blast
    have "term_ok s1" "reqs_clear s1"
      using term_ok_printed [OF assms(1) s1(2)] reqs_clear_cong [of s1 s] s1(2) assms(2) by (simp_all add: printed_def)
    then show ?thesis
      using wr va assms(3) s1(1) ok(3) by (simp add: tty_dispatch_def tty_do_write_def Let_def sane_msg_def)
  next
    case hard
    have "term_ok (s\<lparr>kboard := (kboard s)\<lparr>kbd.key_pressed := False\<rparr>\<rparr>)"
      using assms(1) by (simp add: term_ok_def kbd_ok_def screen_ok_def)
    then show ?thesis using hard assms(2,3) by (simp add: tty_dispatch_def sane_msg_def reqs_clear_def)
  next
    case other
    then show ?thesis using assms by (auto simp: tty_dispatch_def sane_msg_def Let_def)
  qed
qed

end
