(* ===== verification/TtyProps.thy ===== *)
theory TtyProps
  imports TtyTask Boot "HOL-Library.Char_ord"
begin

unbundle bit_operations_syntax

text \<open>
  The properties of the keyboard driver, the consoles and the terminals.
\<close>

section \<open>A sample terminal\<close>

definition sample_kbd :: kbd where
  "sample_kbd = \<lparr>kb_in = \<lparr>p_head = 0, p_tail = 0, kb_count = 0, kbuf = (\<lambda>_. 0)\<rparr>, code_with_E0 = False,
     shift_l = False, shift_r = False, alt_l = False, alt_r = False, ctrl_l = False, ctrl_r = False,
     caps_lock = False, num_lock = True, scroll_lock = False, column = 0, key_pressed = False, coming = [],
     status = [0, 0], answers = [KB_ACK, KB_ACK], kb_written = []\<rparr>"

definition sample_tty :: "nat \<Rightarrow> tty" where
  "sample_tty c = \<lparr>in_buf = (\<lambda>_. 0), p_inbuf_head = 0, p_inbuf_tail = 0, inbuf_count = 0, tty_caller = NO_TASK,
     tty_procnr = NO_TASK, tty_req_buf = 0, tty_left_cnt = 0, tty_trans_cnt = 0, p_console = c\<rparr>"

definition sample_term :: terminals where
  "sample_term = \<lparr>console_table = (\<lambda>c. con_at c 0 0), nr_current_console = 0, crtc = (\<lambda>_. 0), cmem = (\<lambda>_. 0),
     tty_table = sample_tty, kboard = sample_kbd, procs = init_prot_proc, disp_pos = 0, stack_msg = zero_msg, tty_sent = []\<rparr>"

text \<open>Process 9 reads at most 4 characters into its buffer at 0x100, and has typed nothing.\<close>

definition sample_reading :: "u32 list \<Rightarrow> terminals" where
  "sample_reading ks = upd_tty 0 (\<lambda>t. fold put_key ks (t\<lparr>tty_caller := TASK_FS, tty_procnr := 9, tty_req_buf := 0x100,
     tty_left_cnt := 4\<rparr>)) sample_term"

lemma sample_kbd_ok: "kbd_ok sample_kbd" "kb_ok (kb_in sample_kbd)" "kb_contents (kb_in sample_kbd) = []"
  by (simp_all add: sample_kbd_def kbd_ok_def kb_ok_def ring_ok_def kb_contents_def)

lemma sample_flat: "flat_tasks init_prot_proc"
  by (simp add: flat_tasks_def ldt_seg_linear_def desc_base_def init_prot_proc_def zero_desc_def)

lemma sample_tty_ok: "tty_ok c (sample_tty c)" "keys_ok (sample_tty c)" "tty_keys (sample_tty c) = []"
  by (simp_all add: sample_tty_def tty_ok_def keys_ok_def ring_ok_def tty_keys_def)

lemma sample_screen: "con_ok c (con_at c 0 0)"
  unfolding con_ok_at by (intro exI [of _ 0]) simp

lemma sample_term_ok: "term_ok sample_term" "reqs_clear sample_term"
  using sample_screen sample_tty_ok sample_kbd_ok sample_flat
  by (simp_all add: sample_term_def term_ok_def screen_ok_def reqs_clear_def) (simp add: sample_tty_def)

lemma con_area_bound: "c < NR_CONSOLES \<Longrightarrow> a \<in> con_area c \<Longrightarrow> V_MEM_BASE \<le> a"
proof -
  assume c: "c < NR_CONSOLES" and a: "a \<in> con_area c"
  then obtain i where i: "a = V_MEM_BASE + of_nat (2 * c * 5461 + i)" "i < 2 * 5461" unfolding con_area_def by blast
  have "2 * c * 5461 + i < 32768" using c i(2) by simp
  then have "unat a = 0xB8000 + (2 * c * 5461 + i)"
    unfolding i(1) by (subst unat_plus_if') (simp add: unat_of_nat del: of_nat_mult of_nat_add)
  then show ?thesis by (simp add: word_le_nat_alt)
qed

lemma sample_clear: "c < NR_CONSOLES \<Longrightarrow> clear_of c 4 0x100"
proof -
  assume c: "c < NR_CONSOLES"
  have "(0x100 :: u32) + of_nat j \<notin> con_area c" if "j < 4" for j
  proof
    assume "(0x100 :: u32) + of_nat j \<in> con_area c"
    then have "V_MEM_BASE \<le> of_nat (256 + j)" using con_area_bound [OF c] by simp
    then show False using that by (simp add: word_le_nat_alt unat_of_nat del: of_nat_add)
  qed
  then show ?thesis by (simp add: clear_of_def)
qed

lemma sample_reading_ok:
  assumes "length ks \<le> 256"
  shows "term_ok (sample_reading ks)" "pending_line 0 4 [] (sample_reading ks)" "tty_keys (tty_table (sample_reading ks) 0) = ks"
    "tty_req_buf (tty_table (sample_reading ks) 0) = 0x100" "tty_caller (tty_table (sample_reading ks) 0) = TASK_FS"
    "tty_sent (sample_reading ks) = []" "reqs_clear (sample_reading ks)"
proof -
  define t where "t = (sample_tty 0)\<lparr>tty_caller := TASK_FS, tty_procnr := 9, tty_req_buf := 0x100, tty_left_cnt := 4\<rparr>"
  have t0: "keys_ok t" "tty_keys t = []" by (simp_all add: t_def sample_tty_def keys_ok_def ring_ok_def tty_keys_def)
  have puts: "keys_ok (fold put_key ks t)" "tty_keys (fold put_key ks t) = ks"
    using tq.contents_puts [OF t0(1), of ks] t0(2) assms by (simp_all add: tq.puts_def)
  have f: "tty_req_buf (fold put_key ks t) = 0x100" "tty_caller (fold put_key ks t) = TASK_FS"
    "tty_procnr (fold put_key ks t) = 9" "tty_left_cnt (fold put_key ks t) = 4" "tty_trans_cnt (fold put_key ks t) = 0"
    "p_console (fold put_key ks t) = 0" for ks
    by (induction ks rule: rev_induct) (simp_all add: t_def sample_tty_def)
  have e: "sample_reading ks = upd_tty 0 (\<lambda>_. fold put_key ks t) sample_term"
    by (simp add: sample_reading_def upd_tty_def t_def sample_term_def)
  show "term_ok (sample_reading ks)"
    unfolding e using puts f [of ks] by (intro term_ok_upd sample_term_ok) (simp_all add: tty_ok_def)
  show "pending_line 0 4 [] (sample_reading ks)" "tty_keys (tty_table (sample_reading ks) 0) = ks"
    "tty_req_buf (tty_table (sample_reading ks) 0) = 0x100" "tty_caller (tty_table (sample_reading ks) 0) = TASK_FS"
    "tty_sent (sample_reading ks) = []"
    unfolding e using puts f [of ks] by (simp_all add: pending_line_def line_in_def) (simp add: sample_term_def)
  show "reqs_clear (sample_reading ks)"
    unfolding e using f [of ks] sample_clear
    by (intro reqs_clear_step [OF sample_term_ok(2), of 0]) simp_all
qed

section \<open>The keyboard\<close>

text \<open>The keys of a US keyboard that type a character: the scan code of the first of a row, plain and shifted.\<close>

definition us_rows :: "(nat \<times> string \<times> string) list" where
  "us_rows =
    [(0x02, ''1234567890-='', ''!@#$%^&*()_+''),
     (0x10, ''qwertyuiop[]'', ''QWERTYUIOP{}''),
     (0x1E, ''asdfghjkl;'' @ [CHR 0x27, CHR 0x60], ''ASDFGHJKL:'' @ [CHR 0x22, CHR 0x7E]),
     (0x2B, [CHR 0x5C] @ ''zxcvbnm,./'', ''|ZXCVBNM<>?''),
     (0x39, '' '', '' '')]"

definition key_of :: "char \<Rightarrow> u32" where
  "key_of c = of_nat (of_char c)"

lemma us_keymap:
  "list_all (\<lambda>(first, lo, up). first + length lo \<le> 64 \<and> length up = length lo \<and>
     map (\<lambda>(a, b, c). (a, b)) (take (length lo) (drop first (rows3 keymap))) = zip (map key_of lo) (map key_of up)) us_rows"
  by code_simp

lemma us_keys:
  assumes "(first, lo, up) \<in> set us_rows" and "i < length lo"
  shows "keymap ! ((first + i) * 3) = key_of (lo ! i)" and "keymap ! ((first + i) * 3 + 1) = key_of (up ! i)"
    and "first + i < 64"
proof -
  have r: "first + length lo \<le> 64" "length up = length lo"
    "map (\<lambda>(a, b, c). (a, b)) (take (length lo) (drop first (rows3 keymap))) = zip (map key_of lo) (map key_of up)"
    using us_keymap assms(1) by (auto simp: list_all_iff)
  show n: "first + i < 64" using r(1) assms(2) by simp
  have k: "rows3 keymap ! (first + i) = (keymap ! (3 * (first + i)), keymap ! (3 * (first + i) + 1), keymap ! (3 * (first + i) + 2))"
    "first + i < length (rows3 keymap)"
    using rows3_nth [of "first + i" keymap] n by simp_all
  have "map (\<lambda>(a, b, c). (a, b)) (take (length lo) (drop first (rows3 keymap))) ! i = zip (map key_of lo) (map key_of up) ! i"
    using r(3) by simp
  then have "(keymap ! (3 * (first + i)), keymap ! (3 * (first + i) + 1)) = (key_of (lo ! i), key_of (up ! i))"
    using assms(2) r(2) k by simp
  then show "keymap ! ((first + i) * 3) = key_of (lo ! i)" "keymap ! ((first + i) * 3 + 1) = key_of (up ! i)"
    by (simp_all add: mult.commute)
qed

lemma key_of_char: "key_of c < 256" "97 \<le> key_of c \<and> key_of c \<le> 122 \<longleftrightarrow> CHR ''a'' \<le> c \<and> c \<le> CHR ''z''"
proof -
  have n: "of_char c < (256 :: nat)" by (rule nat_of_char_less_256)
  then have m: "of_char c mod (4294967296 :: nat) = of_char c" by (intro mod_less) linarith
  then show "key_of c < 256" using n unfolding key_of_def by (simp add: word_less_nat_alt unat_of_nat m)
  show "97 \<le> key_of c \<and> key_of c \<le> 122 \<longleftrightarrow> CHR ''a'' \<le> c \<and> c \<le> CHR ''z''"
    unfolding key_of_def by (simp add: word_le_nat_alt unat_of_nat less_eq_char_def m)
qed

lemma make_code: "n < 64 \<Longrightarrow> (of_nat n :: u8) AND 0x7F = of_nat n \<and> (of_nat n :: u8) AND 0x80 = 0 \<and> unat (of_nat n :: u8) = n"
proof -
  assume n: "n < 64"
  have a: "list_all (\<lambda>n. (of_nat n :: u8) AND 0x7F = of_nat n \<and> (of_nat n :: u8) AND 0x80 = 0) [0..<64]" by code_simp
  then show ?thesis using n by (auto simp: list_all_iff unat_of_nat)
qed

text \<open>
  C28: pressing a key that types a character, the driver hands on exactly the
  character a US keyboard gives: the upper one of the key when a shift key is down,
  the other case for a letter when caps lock is on, together with the flags of the
  modifier keys that are down.  One byte is taken off the buffer and the state of
  the modifier keys does not change.
\<close>

theorem typed_character:
  assumes "kb_ok (kb_in s)" and "kb_contents (kb_in s) = of_nat (first + i) # r"
    and "(first, lo, up) \<in> set us_rows" and "i < length lo"
  shows "\<exists>s'. keyboard_read s = Inr (Some (key_of
      (if (shift_l s \<or> shift_r s) \<noteq> (caps_lock s \<and> CHR ''a'' \<le> lo ! i \<and> lo ! i \<le> CHR ''z'') then up ! i else lo ! i)
        OR key_flags s), s') \<and>
    kb_ok (kb_in s') \<and> kb_contents (kb_in s') = r \<and> key_flags s' = key_flags s \<and> caps_lock s' = caps_lock s"
proof -
  let ?c = "of_nat (first + i) :: u8" and ?k = "key_of (lo ! i)"
  note row = us_keys [OF assms(3,4)]
  note code = make_code [OF row(3)]
  have n: "unat (?c AND 0x7F) = first + i" using code by simp
  have pre: "?c \<noteq> 0xE0" "?c \<noteq> 0xE1" using code row(3) by (auto simp: word_unat_eq_iff)
  have k: "keymap ! (unat (?c AND 0x7F) * 3) = ?k" using row(1) n by simp
  obtain b where b: "kb_ok b" "kb_contents b = r" and
    e: "keyboard_read s = Inr (Some (keymap ! (unat (?c AND 0x7F) * 3 + of_bool (shifted s ?k)) OR key_flags s),
       s\<lparr>code_with_E0 := False, kb_in := b, column := of_bool (shifted s ?k)\<rparr>)"
    by (rule keyboard_read_char [OF assms(1,2) pre _ k key_of_char(1)]) (use code in simp)
  have "keymap ! (unat (?c AND 0x7F) * 3 + of_bool (shifted s ?k)) = key_of (if shifted s ?k then up ! i else lo ! i)"
    unfolding n using row(1,2) by simp
  moreover have "shifted s ?k \<longleftrightarrow>
      (shift_l s \<or> shift_r s) \<noteq> (caps_lock s \<and> CHR ''a'' \<le> lo ! i \<and> lo ! i \<le> CHR ''z'')"
    using key_of_char(2) [of "lo ! i"] by (simp add: shifted_def)
  ultimately show ?thesis using b e by (simp add: key_flags_def)
qed

theorem typed_character_witness:
  "\<exists>s'. keyboard_read (keyboard_handler 0x1E (sample_kbd\<lparr>shift_l := True\<rparr>)) = Inr (Some (65 OR FLAG_SHIFT_L), s') \<and>
    kb_contents (kb_in s') = []"
proof -
  let ?s = "keyboard_handler 0x1E (sample_kbd\<lparr>shift_l := True\<rparr>)"
  have c: "kb_ok (kb_in ?s)" "kb_contents (kb_in ?s) = of_nat (0x1E + 0) # []"
    using kq.valid_put [OF sample_kbd_ok(2), of "0x1E"] kq.contents_put [OF sample_kbd_ok(2), of "0x1E"] sample_kbd_ok(3)
    by (simp_all add: keyboard_handler_def)
  have row: "(0x1E, ''asdfghjkl;'' @ [CHR 0x27, CHR 0x60], ''ASDFGHJKL:'' @ [CHR 0x22, CHR 0x7E]) \<in> set us_rows"
    by (simp add: us_rows_def)
  have fl: "key_flags ?s = FLAG_SHIFT_L" "shift_l ?s" "\<not> caps_lock ?s"
    by (simp_all add: keyboard_handler_def sample_kbd_def key_flags_def flag_def)
  have "key_of CHR ''A'' = 65" by (simp add: key_of_def)
  then show ?thesis using typed_character [OF c row] fl by auto
qed

text \<open>
  The keyboard interrupt keeps what arrives first and drops what does not fit:
  after any burst of scan codes on an empty buffer of the driver the first 32 of
  them are in the buffer, and reading gives them back from the first on.
\<close>

lemma handler_puts: "kb_in (fold keyboard_handler codes s) = kq.puts codes (kb_in s)"
  by (induction codes arbitrary: s) (simp_all add: keyboard_handler_def)

theorem keyboard_burst:
  assumes "kb_ok (kb_in s)" and "kb_contents (kb_in s) = []"
  shows "kb_contents (kb_in (fold keyboard_handler codes s)) = take 32 codes \<and>
    kb_ok (kb_in (fold keyboard_handler codes s)) \<and>
    (codes \<noteq> [] \<longrightarrow> (\<exists>s'. get_byte_from_kbuf (fold keyboard_handler codes s) = Inr (hd codes, s') \<and>
      kb_contents (kb_in s') = tl (take 32 codes)))"
proof (intro conjI impI)
  note c = kq.contents_puts [OF assms(1), of codes]
  show k: "kb_contents (kb_in (fold keyboard_handler codes s)) = take 32 codes" "kb_ok (kb_in (fold keyboard_handler codes s))"
    using c assms(2) by (simp_all add: handler_puts)
  assume "codes \<noteq> []"
  then obtain x r where x: "take 32 codes = x # r" "hd codes = x" by (cases codes) auto
  obtain b where "get_byte_from_kbuf (fold keyboard_handler codes s) = Inr (x, (fold keyboard_handler codes s)\<lparr>kb_in := b\<rparr>)"
    "kb_contents b = r" by (rule get_byte_buffered [OF k(2), of x r]) (use k(1) x in simp_all)
  then show "\<exists>s'. get_byte_from_kbuf (fold keyboard_handler codes s) = Inr (hd codes, s') \<and>
      kb_contents (kb_in s') = tl (take 32 codes)"
    using x by simp
qed

theorem keyboard_burst_witness:
  "kb_contents (kb_in (fold keyboard_handler (replicate 33 0x1E) sample_kbd)) = replicate 32 0x1E \<and>
   (\<exists>s'. get_byte_from_kbuf (fold keyboard_handler [0x1E, 0x9E] sample_kbd) = Inr (0x1E, s') \<and> kb_contents (kb_in s') = [0x9E])"
  using keyboard_burst [OF sample_kbd_ok(2,3), of "replicate 33 0x1E"]
    keyboard_burst [OF sample_kbd_ok(2,3), of "[0x1E, 0x9E]"] by simp

text \<open>
  Whatever bytes arrive, the driver keeps its tables in order: the buffer
  indices stay inside the buffer, the keymap is never read outside its 128 rows of
  3 columns, and the flag of the right Alt key is never set, so that no key is ever
  reported with \<open>FLAG_ALT_R\<close>.
\<close>

theorem keyboard_in_order:
  assumes "kbd_ok s"
  shows "kbd_ok (keyboard_handler c s) \<and>
    unat (c AND 0x7F) * MAP_COLS + column (snd (find_key c s)) < length keymap \<and>
    (keyboard_read s = Inr (k, s') \<longrightarrow> kbd_ok s' \<and> column s' < MAP_COLS \<and> \<not> alt_r s' \<and>
      p_head (kb_in s') < KB_IN_BYTES \<and> p_tail (kb_in s') < KB_IN_BYTES) \<and>
    (init_keyboard s = Inr s' \<longrightarrow> kbd_ok s')"
proof -
  have h: "kbd_ok (keyboard_handler c s)" by (rule keyboard_handler_ok [OF assms])
  have i: "unat (c AND 0x7F) * MAP_COLS + column (snd (find_key c s)) < length keymap" by (rule find_key_ok)
  have r: "kbd_ok s' \<and> column s' < MAP_COLS \<and> \<not> alt_r s' \<and> p_head (kb_in s') < KB_IN_BYTES \<and> p_tail (kb_in s') < KB_IN_BYTES"
    if "keyboard_read s = Inr (k, s')"
    using keyboard_read_ok [OF assms that] ring_ok_bounds by (auto simp: kbd_ok_def kb_ok_def)
  have "kbd_ok s'" if "init_keyboard s = Inr s'"
    using init_keyboard_ok [OF that] assms by (simp add: kbd_ok_def)
  with h i r show ?thesis by blast
qed

theorem keyboard_in_order_witness:
  "kbd_ok (keyboard_handler 0xE0 sample_kbd) \<and>
   (\<exists>s'. init_keyboard sample_kbd = Inr s' \<and> kbd_ok s' \<and> kb_written s' = [LED_CODE, 2])"
proof -
  obtain s' where s': "init_keyboard sample_kbd = Inr s'" "kb_written s' = [LED_CODE, 2]"
    by (simp add: init_keyboard_def set_leds_def kb_command_def sample_kbd_def Let_def)
  show ?thesis using keyboard_in_order [OF sample_kbd_ok(1)] s' by blast
qed

section \<open>The consoles\<close>

lemma con_areas_disjoint: "c < NR_CONSOLES \<Longrightarrow> d < NR_CONSOLES \<Longrightarrow> c \<noteq> d \<Longrightarrow> con_area c \<inter> con_area d = {}"
proof (rule ccontr)
  assume c: "c < NR_CONSOLES" and d: "d < NR_CONSOLES" and ne: "c \<noteq> d" and "con_area c \<inter> con_area d \<noteq> {}"
  then obtain i j where "V_MEM_BASE + of_nat (2 * c * 5461 + i) = (V_MEM_BASE + of_nat (2 * d * 5461 + j) :: u32)"
    and ij: "i < 2 * 5461" "j < 2 * 5461" unfolding con_area_def by blast
  then have e: "(of_nat (2 * c * 5461 + i) :: u32) = of_nat (2 * d * 5461 + j)" by simp
  have "2 * c * 5461 + i < 32768" "2 * d * 5461 + j < 32768" using c d ij by simp_all
  then have "2 * c * 5461 + i = 2 * d * 5461 + j"
    using arg_cong [OF e, of unat] by (simp add: unat_of_nat del: of_nat_add of_nat_mult)
  then have "(i + c * 10922) div 10922 = (j + d * 10922) div 10922" by (simp add: mult.commute)
  then show False using ij ne by simp
qed

text \<open>
  C29: printing a character on a console always returns; it changes no memory outside
  that console's third of the video memory, so nothing of another console, and
  leaves the cursor inside the console and above the bottom of the screen.
\<close>

theorem out_char_stays:
  assumes "screen_ok s" and "c < NR_CONSOLES"
  shows "\<exists>s'. out_char c ch s = Inr s' \<and> screen_ok s' \<and> (\<forall>d. d \<noteq> c \<longrightarrow> console_table s' d = console_table s d) \<and>
    (\<forall>a. a \<notin> con_area c \<longrightarrow> cmem s' a = cmem s a) \<and>
    (\<forall>d < NR_CONSOLES. d \<noteq> c \<longrightarrow> (\<forall>a \<in> con_area d. cmem s' a = cmem s a)) \<and>
    original_addr (console_table s' c) \<le> cursor (console_table s' c) \<and>
    cursor (console_table s' c) < current_start_addr (console_table s' c) + SCREEN_SIZE"
proof -
  obtain k l where p: "console_table s c = con_at c k l" "k < 5461" "l \<le> 44"
    using screen_okE [OF assms] by metis
  obtain s' l' where o: "out_char c ch s = Inr s'"
    "console_table s' = (console_table s)(c := con_at c (next_cell ch k) l')" "l' \<le> 44" "next_cell ch k < l' * 80 + 2000"
    "nr_current_console s' = nr_current_console s" "cmem s' = cmem (put_char c ch s)"
    by (rule out_char_at [OF p(1) assms(2) p(2,3)])
  have mem: "cmem s' a = cmem s a" if "a \<notin> con_area c" for a
    unfolding o(6) by (rule put_char_at(4) [OF p(1) assms(2) p(2,3) that])
  have k': "next_cell ch k < 5461" by (rule next_cell_bound [OF p(2)])
  have "original_addr (con_at c (next_cell ch k) l') \<le> cursor (con_at c (next_cell ch k) l')"
    using con_at_conds(5) [OF assms(2) k' o(3)] by (cases "next_cell ch k = 0") (auto simp: con_at_def)
  moreover have "cursor (con_at c (next_cell ch k) l') < current_start_addr (con_at c (next_cell ch k) l') + SCREEN_SIZE"
    using con_at_conds(3) [OF assms(2) k' o(3)] o(4) by simp
  moreover have "screen_ok s'" by (rule screen_ok_at [OF assms o(2) k' o(3,5)])
  moreover have "\<forall>d < NR_CONSOLES. d \<noteq> c \<longrightarrow> (\<forall>a \<in> con_area d. cmem s' a = cmem s a)"
    using mem con_areas_disjoint [OF assms(2)] by blast
  ultimately show ?thesis using o(1,2) mem by auto
qed

theorem out_char_stays_witness:
  "\<exists>s'. out_char 1 65 sample_term = Inr s' \<and> (\<forall>a \<in> con_area 2. cmem s' a = 0) \<and> cmem s' 0x1000 = 0"
proof -
  have ok: "screen_ok sample_term" using sample_term_ok(1) by (simp add: term_ok_def)
  have "0x1000 \<notin> con_area 1" using con_area_bound [of 1 "0x1000"] by (auto simp: word_le_nat_alt)
  moreover have "cmem sample_term a = 0" for a by (simp add: sample_term_def)
  moreover obtain s' where s': "out_char 1 65 sample_term = Inr s'"
    "\<forall>a. a \<notin> con_area 1 \<longrightarrow> cmem s' a = cmem sample_term a"
    "\<forall>d < NR_CONSOLES. d \<noteq> 1 \<longrightarrow> (\<forall>a \<in> con_area d. cmem s' a = cmem sample_term a)"
    using out_char_stays [OF ok, of 1 65] by auto
  moreover have "\<forall>a \<in> con_area 2. cmem s' a = cmem sample_term a" using s'(3) [rule_format, of 2] by simp
  ultimately show ?thesis by auto
qed

section \<open>The terminals\<close>

text \<open>
  C30: the start of the task, on a keyboard that acknowledges its commands, sets up
  three idle terminals that satisfy the invariant, with the first console selected.
\<close>

theorem terminals_start:
  assumes "init_keyboard (kboard s) = Inr kb" and "column (kboard s) < MAP_COLS" and "flat_tasks (procs s)"
    and "0 \<le> disp_pos s" and "disp_pos s < 2 * 5461"
  shows "\<exists>s'. tty_start s = Inr s' \<and> term_ok s' \<and> reqs_clear s' \<and> nr_current_console s' = 0 \<and> tty_sent s' = tty_sent s \<and>
     (\<forall>c < NR_CONSOLES. tty_keys (tty_table s' c) = [] \<and> tty_left_cnt (tty_table s' c) = 0)"
  by (rule tty_start_ok [OF assms])

theorem terminals_start_witness:
  "\<exists>s'. tty_start (sample_term\<lparr>disp_pos := 160\<rparr>) = Inr s' \<and> term_ok s'"
proof -
  obtain kb where "init_keyboard (kboard (sample_term\<lparr>disp_pos := 160\<rparr>)) = Inr kb"
    by (simp add: sample_term_def init_keyboard_def set_leds_def kb_command_def sample_kbd_def Let_def)
  from terminals_start [OF this] show ?thesis
    using sample_flat by (auto simp: sample_term_def sample_kbd_def)
qed

text \<open>
  C27: \<open>tty_dev_write\<close> implements the line editor.  With a request for at most \<open>n\<close>
  characters pending, of which \<open>typed\<close> are in, the keys of the queue are edited into
  the line: when it is complete, its characters are in the buffer of the process
  that reads and exactly one answer goes to the caller, with their number; else the
  request is still pending with the edited text, and nothing is sent.
\<close>

theorem line_editing:
  assumes "term_ok s" and "c < NR_CONSOLES" and "pending_line c n typed s"
    and "clear_of c n (tty_req_buf (tty_table s c))" and "tty_keys (tty_table s c) = ks"
  shows "\<exists>s'. tty_dev_write c s = Inr s' \<and> term_ok s' \<and> tty_keys (tty_table s' c) = [] \<and>
    (case read_line n typed (map ucast ks) of
       Some line \<Rightarrow> answered c s line s'
     | None \<Rightarrow> pending_line c n (fold edit (map ucast ks) typed) s' \<and> tty_sent s' = tty_sent s)"
  using drain_line [OF assms(1,2,5,3,4)] tty_dev_write_keys [OF assms(1,2)] assms(5)
  by (auto split: option.splits)

theorem line_editing_witness:
  "\<exists>s'. tty_dev_write 0 (sample_reading [104, 105, 8, 111, 10]) = Inr s' \<and> answered 0 (sample_reading [104, 105, 8, 111, 10]) [104, 111] s'"
proof -
  let ?ks = "[104, 105, 8, 111, 10] :: u32 list"
  have ok: "term_ok (sample_reading ?ks)" "pending_line 0 4 [] (sample_reading ?ks)"
    "tty_keys (tty_table (sample_reading ?ks) 0) = ?ks" "clear_of 0 4 (tty_req_buf (tty_table (sample_reading ?ks) 0))"
    using sample_reading_ok [of ?ks] sample_clear [of 0] by simp_all
  have "read_line 4 [] (map ucast ?ks) = Some [104, 111]" by (simp add: edit_def complete_def)
  then show ?thesis using line_editing [OF ok(1) _ ok(2,4,3)] by auto
qed

text \<open>
  The do-while loop that polls a terminal ends after one iteration, because
  \<open>tty_dev_write\<close> always empties the queue of keys; it fails only where the keyboard
  driver does.
\<close>

theorem polling_ends:
  assumes "term_ok s" and "c < NR_CONSOLES" and "reqs_clear s"
  shows "tty_poll c s = Some (rbind (tty_dev_read c s) (tty_dev_write c)) \<and>
    (tty_dev_read c s = Inr s1 \<longrightarrow> (\<exists>s'. tty_poll c s = Some (Inr s') \<and> term_ok s' \<and> reqs_clear s' \<and>
      tty_keys (tty_table s' c) = []))"
  using tty_poll_once [OF assms] by blast

theorem polling_ends_witness:
  "\<exists>s'. tty_poll 1 (sample_reading [104]) = Some (Inr s') \<and> term_ok s'"
proof -
  have "tty_dev_read 1 (sample_reading [104]) = Inr (sample_reading [104])"
    by (simp add: tty_dev_read_def is_current_console_def sample_reading_def upd_tty_def sample_term_def sample_tty_def)
  with polling_ends [OF sample_reading_ok(1) [of "[104]"] _ sample_reading_ok(7), of 1 "sample_reading [104]"] show ?thesis by force
qed

lemma idle_read:
  assumes "kb_count (kb_in (kboard s)) = 0"
  shows "tty_dev_read c s = Inr s"
  using assms by (simp add: tty_dev_read_def tty_keyboard_read_def keyboard_read_def)

lemma idle_poll:
  assumes "term_ok s" and "reqs_clear s" and "kb_count (kb_in (kboard s)) = 0" and "c < NR_CONSOLES"
  shows "\<exists>s'. tty_poll c s = Some (Inr s') \<and> term_ok s' \<and> reqs_clear s' \<and> procs s' = procs s \<and> kboard s' = kboard s"
  using tty_poll_once(1) [OF assms(1,4,2)] tty_dev_write_ok [OF assms(1,4,2)] idle_read [OF assms(3)] by auto

text \<open>
  A round of the task in which no scan code waits, for every message of a request to a
  terminal that exists: no assertion of the task fails and no table is left, as long as the
  kernel takes the messages the task sends (here a send is a record in \<open>tty_sent\<close>; in the
  kernel it can block, or close a cycle of waits).
\<close>

theorem task_round:
  assumes "term_ok s" and "reqs_clear s" and "kb_count (kb_in (kboard s)) = 0" and "sane_msg msg s"
  shows "\<exists>s'. task_tty msg s = Inr s' \<and> term_ok s' \<and> reqs_clear s'"
proof -
  obtain s0 where s0: "tty_poll 0 s = Some (Inr s0)" "term_ok s0" "reqs_clear s0" "procs s0 = procs s" "kboard s0 = kboard s"
    using idle_poll [OF assms(1-3), of 0] by auto
  obtain s1 where s1: "tty_poll 1 s0 = Some (Inr s1)" "term_ok s1" "reqs_clear s1" "procs s1 = procs s" "kboard s1 = kboard s"
    using idle_poll [OF s0(2,3), of 1] assms(3) s0(4,5) by auto
  obtain s2 where s2: "tty_poll 2 s1 = Some (Inr s2)" "term_ok s2" "reqs_clear s2" "procs s2 = procs s"
    using idle_poll [OF s1(2,3), of 2] assms(3) s1(4,5) by auto
  have "sane_msg msg s2" using assms(4) s2(4) by (simp add: sane_msg_def)
  then show ?thesis using tty_dispatch_ok [OF s2(2,3)] s0(1) s1(1) s2(1) by (simp add: task_tty_def)
qed

theorem task_round_witness:
  "\<exists>s'. task_tty (zero_msg\<lparr>source := TASK_FS, msgtype := DEV_READ, m3i2 := 4, m3i3 := 9, m3i4 := 1, m3p2 := 0x100\<rparr>) sample_term =
     Inr s' \<and> term_ok s'"
proof -
  have "sane_msg (zero_msg\<lparr>source := TASK_FS, msgtype := DEV_READ, m3i2 := 4, m3i3 := 9, m3i4 := 1, m3p2 := 0x100\<rparr>) sample_term"
    using sample_clear [of 1]
    by (simp add: sane_msg_def zero_msg_def sample_term_def lin_def ldt_seg_linear_def desc_base_def init_prot_proc_def zero_desc_def)
  then show ?thesis
    using task_round [OF sample_term_ok] by (auto simp: sample_term_def sample_kbd_def)
qed

text \<open>
  A read of 0 characters is suspended and never resumed: after the request the
  terminal is as one without a request, which drops every key that is typed,
  without an echo, and sends nothing.
\<close>

theorem read_of_nothing:
  assumes "term_ok s" and "c < NR_CONSOLES" and "m3i2 msg = 0" and "tty_do_read c msg s = Inr s1"
    and "term_ok s2" and "tty_table s2 c = fold put_key ks (tty_table s1 c)" and "tty_sent s2 = tty_sent s1"
  shows "tty_sent s1 = tty_sent s @ [(source msg, msg\<lparr>msgtype := SUSPEND_PROC\<rparr>)] \<and>
    (\<exists>s3. tty_dev_write c s2 = Inr s3 \<and> tty_sent s3 = tty_sent s1 \<and> cmem s3 = cmem s2 \<and> tty_keys (tty_table s3 c) = [])"
proof (rule conjI)
  have s1: "tty_left_cnt (tty_table s1 c) = 0" "tty_sent s1 = tty_sent s @ [(source msg, msg\<lparr>msgtype := SUSPEND_PROC\<rparr>)]"
    using assms(3,4) by (auto simp: tty_do_read_def split: sum.splits)
  show "tty_sent s1 = tty_sent s @ [(source msg, msg\<lparr>msgtype := SUSPEND_PROC\<rparr>)]" by (rule s1(2))
  have "tty_left_cnt (fold put_key ks t) = tty_left_cnt t" for t by (induction ks arbitrary: t) simp_all
  then have "tty_left_cnt (tty_table s2 c) = 0" using assms(6) s1(1) by simp
  from drain_idle [OF assms(5,2) refl this] show
    "\<exists>s3. tty_dev_write c s2 = Inr s3 \<and> tty_sent s3 = tty_sent s1 \<and> cmem s3 = cmem s2 \<and> tty_keys (tty_table s3 c) = []"
    using tty_dev_write_keys [OF assms(5,2)] assms(7) by auto
qed

theorem read_of_nothing_witness:
  "\<exists>s1. tty_do_read 0 zero_msg sample_term = Inr s1 \<and> tty_sent s1 = [(0, zero_msg\<lparr>msgtype := SUSPEND_PROC\<rparr>)] \<and>
     (\<exists>s3. tty_dev_write 0 (upd_tty 0 (put_key 97) s1) = Inr s3 \<and> tty_sent s3 = tty_sent s1)"
proof -
  have va: "va2la (procs sample_term) 0 0 = Inr (lin (procs sample_term) 0 0)"
    using sample_flat by (intro va2la_lin) (simp add: sample_term_def)
  obtain s1 where s1: "tty_do_read 0 zero_msg sample_term = Inr s1" "tty_table s1 = (tty_table sample_term)(0 :=
      (sample_tty 0)\<lparr>tty_caller := 0, tty_procnr := 0, tty_req_buf := lin (procs sample_term) 0 0, tty_left_cnt := 0, tty_trans_cnt := 0\<rparr>)"
    "screen_ok s1" "kboard s1 = sample_kbd" "procs s1 = init_prot_proc"
    using va sample_screen
    by (simp add: tty_do_read_def zero_msg_def) (simp add: sample_term_def screen_ok_def)
  have "term_ok s1"
    using s1 sample_tty_ok sample_kbd_ok sample_flat
    by (simp add: term_ok_def) (auto simp: sample_term_def tty_ok_def keys_ok_def)
  then have ok: "term_ok (upd_tty 0 (put_key 97) s1)" by (rule put_key_ok) simp
  from read_of_nothing [OF sample_term_ok(1) _ _ s1(1) ok, of "[97]"] show ?thesis
    using s1(1) by (auto simp: zero_msg_def sample_term_def)
qed

end
