(* ===== verification/Syscalls.thy ===== *)
theory Syscalls
  imports Fmt Memory
begin

unbundle bit_operations_syntax

text \<open>
  The system calls a process makes: \<open>send_recv\<close> of \<open>lib/misc.c\<close>, the stubs of \<open>lib/\<close>
  that pack their arguments into a message, \<open>get_ticks\<close> (\<open>kernel/main.c\<close>), \<open>printf\<close>
  (\<open>lib/printf.c\<close>) and \<open>syslog\<close> (\<open>lib/syslog.c\<close>), and the task that answers two of them
  (\<open>kernel/systask.c\<close>).  The trap \<open>sendrec\<close> is an argument: it takes the state of
  everything else, \<open>'w\<close>, and returns it with the message it leaves in the buffer.
\<close>

type_synonym 'w port = "int \<Rightarrow> int \<Rightarrow> message \<Rightarrow> 'w \<Rightarrow> (int \<times> message \<times> 'w) kres"

section \<open>\<open>send_recv\<close>\<close>

definition zero_message :: message where
  "zero_message = \<lparr>source = 0, msgtype = 0, m3i1 = 0, m3i2 = 0, m3i3 = 0, m3i4 = 0, m3l1 = 0, m3l2 = 0, m3p1 = 0, m3p2 = 0\<rparr>"

definition send_recv :: "'w port \<Rightarrow> int \<Rightarrow> int \<Rightarrow> message \<Rightarrow> 'w \<Rightarrow> (int \<times> message \<times> 'w) kres" where
  "send_recv sendrec f src_dest msg w =
    (let msg1 = (if f = RECEIVE then zero_message else msg) in
     if f = BOTH then
       rbind (sendrec SEND src_dest msg1 w) (\<lambda>(ret, msg2, w1).
       if ret = 0 then sendrec RECEIVE src_dest msg2 w1 else Inr (ret, msg2, w1))
     else if f = SEND \<or> f = RECEIVE then sendrec f src_dest msg1 w
     else Inl (Assertion ''lib/misc.c'' 30))"

section \<open>The stubs\<close>

text \<open>\<open>junk\<close> is the message variable before it is filled.\<close>

definition lib_fork :: "'w port \<Rightarrow> message \<Rightarrow> 'w \<Rightarrow> (int \<times> 'w) kres" where
  "lib_fork sendrec junk w =
    rbind (send_recv sendrec BOTH TASK_MM (junk\<lparr>msgtype := FORK\<rparr>) w) (\<lambda>(_, msg, w1).
    ensure (msgtype msg = SYSCALL_RET) (Assertion ''lib/fork.c'' 18) (
    ensure (m3i1 msg = 0) (Assertion ''lib/fork.c'' 19) (Inr (m3i2 msg, w1))))"

definition lib_exit :: "'w port \<Rightarrow> message \<Rightarrow> int \<Rightarrow> 'w \<Rightarrow> (unit \<times> 'w) kres" where
  "lib_exit sendrec junk status w =
    rbind (send_recv sendrec BOTH TASK_MM (junk\<lparr>msgtype := EXIT, m3i1 := status\<rparr>) w) (\<lambda>(_, msg, w1).
    ensure (msgtype msg = SYSCALL_RET) (Assertion ''lib/exit.c'' 38) (Inr ((), w1)))"

text \<open>\<open>wait\<close> returns the pid and the status it stores.\<close>

definition lib_wait :: "'w port \<Rightarrow> message \<Rightarrow> 'w \<Rightarrow> ((int \<times> int) \<times> 'w) kres" where
  "lib_wait sendrec junk w =
    rbind (send_recv sendrec BOTH TASK_MM (junk\<lparr>msgtype := WAIT\<rparr>) w) (\<lambda>(_, msg, w1).
    Inr ((if m3i2 msg = NO_TASK then -1 else m3i2 msg, m3i1 msg), w1))"

text \<open>A path is its address and its length.\<close>

definition lib_open :: "'w port \<Rightarrow> message \<Rightarrow> u32 \<times> int \<Rightarrow> int \<Rightarrow> 'w \<Rightarrow> (int \<times> 'w) kres" where
  "lib_open sendrec junk path flag w =
    rbind (send_recv sendrec BOTH TASK_FS
      (junk\<lparr>msgtype := OPEN, m3p1 := fst path, m3i1 := flag, m3i2 := snd path\<rparr>) w) (\<lambda>(_, msg, w1).
    ensure (msgtype msg = SYSCALL_RET) (Assertion ''lib/open.c'' 20) (Inr (m3i1 msg, w1)))"

definition lib_read :: "'w port \<Rightarrow> message \<Rightarrow> int \<Rightarrow> u32 \<Rightarrow> int \<Rightarrow> 'w \<Rightarrow> (int \<times> 'w) kres" where
  "lib_read sendrec junk fd buf cnt w =
    rbind (send_recv sendrec BOTH TASK_FS
      (junk\<lparr>msgtype := READ, m3i1 := fd, m3p2 := buf, m3i2 := cnt\<rparr>) w) (\<lambda>(_, msg, w1). Inr (m3i2 msg, w1))"

definition lib_write :: "'w port \<Rightarrow> message \<Rightarrow> int \<Rightarrow> u32 \<Rightarrow> int \<Rightarrow> 'w \<Rightarrow> (int \<times> 'w) kres" where
  "lib_write sendrec junk fd buf cnt w =
    rbind (send_recv sendrec BOTH TASK_FS
      (junk\<lparr>msgtype := WRITE, m3i1 := fd, m3p2 := buf, m3i2 := cnt\<rparr>) w) (\<lambda>(_, msg, w1). Inr (m3i2 msg, w1))"

definition lib_close :: "'w port \<Rightarrow> message \<Rightarrow> int \<Rightarrow> 'w \<Rightarrow> (int \<times> 'w) kres" where
  "lib_close sendrec junk fd w =
    rbind (send_recv sendrec BOTH TASK_FS (junk\<lparr>msgtype := CLOSE, m3i1 := fd\<rparr>) w) (\<lambda>(_, msg, w1). Inr (m3i1 msg, w1))"

definition lib_unlink :: "'w port \<Rightarrow> message \<Rightarrow> u32 \<times> int \<Rightarrow> 'w \<Rightarrow> (int \<times> 'w) kres" where
  "lib_unlink sendrec junk path w =
    rbind (send_recv sendrec BOTH TASK_FS (junk\<lparr>msgtype := UNLINK, m3p1 := fst path, m3i2 := snd path\<rparr>) w)
      (\<lambda>(_, msg, w1). Inr (m3i1 msg, w1))"

definition lib_stat :: "'w port \<Rightarrow> message \<Rightarrow> u32 \<times> int \<Rightarrow> u32 \<Rightarrow> 'w \<Rightarrow> (int \<times> 'w) kres" where
  "lib_stat sendrec junk path buf w =
    rbind (send_recv sendrec BOTH TASK_FS
      (junk\<lparr>msgtype := STAT, m3p1 := fst path, m3p2 := buf, m3i2 := snd path\<rparr>) w) (\<lambda>(_, msg, w1).
    ensure (msgtype msg = SYSCALL_RET) (Assertion ''lib/stat.c'' 44) (Inr (m3i1 msg, w1)))"

definition lib_exec :: "'w port \<Rightarrow> message \<Rightarrow> u32 \<times> int \<Rightarrow> 'w \<Rightarrow> (int \<times> 'w) kres" where
  "lib_exec sendrec junk path w =
    rbind (send_recv sendrec BOTH TASK_MM
      (junk\<lparr>msgtype := EXEC, m3p1 := fst path, m3i2 := snd path, m3p2 := 0, m3i3 := 0\<rparr>) w) (\<lambda>(_, msg, w1).
    ensure (msgtype msg = SYSCALL_RET) (Assertion ''lib/exec.c'' 22) (Inr (m3i1 msg, w1)))"

definition lib_getpid :: "'w port \<Rightarrow> message \<Rightarrow> 'w \<Rightarrow> (int \<times> 'w) kres" where
  "lib_getpid sendrec junk w =
    rbind (send_recv sendrec BOTH TASK_SYS (junk\<lparr>msgtype := GET_PID\<rparr>) w) (\<lambda>(_, msg, w1).
    ensure (msgtype msg = SYSCALL_RET) (Assertion ''lib/getpid.c'' 37) (Inr (m3i2 msg, w1)))"

definition get_ticks :: "'w port \<Rightarrow> 'w \<Rightarrow> (int \<times> 'w) kres" where
  "get_ticks sendrec w =
    rbind (send_recv sendrec BOTH TASK_SYS (zero_message\<lparr>msgtype := GET_TICKS\<rparr>) w) (\<lambda>(_, msg, w1). Inr (m3i1 msg, w1))"

text \<open>The busy wait of \<open>kernel/clock.c\<close>: None when the ticks never get far enough.\<close>

partial_function (option) delay_loop :: "'w port \<Rightarrow> int \<Rightarrow> int \<Rightarrow> 'w \<Rightarrow> 'w kres option" where
  "delay_loop sendrec t milli_sec w =
    (case get_ticks sendrec w of
       Inl e \<Rightarrow> Some (Inl e)
     | Inr (n, w1) \<Rightarrow>
         if cint (cint (n - t) * 1000) sdiv 100 < milli_sec then delay_loop sendrec t milli_sec w1 else Some (Inr w1))"

definition milli_delay :: "'w port \<Rightarrow> int \<Rightarrow> 'w \<Rightarrow> 'w kres option" where
  "milli_delay sendrec milli_sec w =
    (case get_ticks sendrec w of Inl e \<Rightarrow> Some (Inl e) | Inr (t, w1) \<Rightarrow> delay_loop sendrec t milli_sec w1)"

text \<open>
  The programs that print: \<open>put\<close> stores a string at an address of the process, where
  the local array of \<open>printf\<close> and \<open>syslog\<close> is.  \<open>disklog\<close>, which the file system calls
  directly, is an argument.
\<close>

definition printf :: "'w port \<Rightarrow> (u32 \<Rightarrow> string \<Rightarrow> 'w \<Rightarrow> 'w) \<Rightarrow> message \<Rightarrow> u32 \<Rightarrow> string \<Rightarrow> va_arg list \<Rightarrow> 'w \<Rightarrow> (int \<times> 'w) kres" where
  "printf sendrec put junk buf fmt args w =
    rbind (vsprintf fmt args) (\<lambda>t.
    ensure (length t < STR_DEFAULT_LEN) (Bad_access ''buf'') (
    rbind (lib_write sendrec junk 1 buf (int (length t)) (put buf t w)) (\<lambda>(c, w1).
    ensure (c = int (length t)) (Assertion ''lib/printf.c'' 80) (Inr (int (length t), w1)))))"

text \<open>\<open>printl\<close> passes the text to the kernel by the system call \<open>printx\<close>.\<close>

definition printl :: "(string \<Rightarrow> 'w \<Rightarrow> 'w kres) \<Rightarrow> string \<Rightarrow> va_arg list \<Rightarrow> 'w \<Rightarrow> (int \<times> 'w) kres" where
  "printl printx fmt args w =
    rbind (vsprintf fmt args) (\<lambda>t.
    ensure (length t < STR_DEFAULT_LEN) (Bad_access ''buf'') (
    rbind (printx t w) (\<lambda>w1. Inr (int (length t), w1))))"

definition syslog ::
    "'w port \<Rightarrow> (u32 \<Rightarrow> string \<Rightarrow> 'w \<Rightarrow> 'w) \<Rightarrow> (string \<Rightarrow> 'w \<Rightarrow> (int \<times> 'w) kres) \<Rightarrow> message \<Rightarrow> u32 \<Rightarrow> string \<Rightarrow> va_arg list \<Rightarrow> 'w \<Rightarrow>
     (int \<times> 'w) kres" where
  "syslog sendrec put disklog junk buf fmt args w =
    rbind (vsprintf fmt args) (\<lambda>t.
    ensure (length t < STR_DEFAULT_LEN) (Bad_access ''buf'') (
    ensure (CHR 0x00 \<notin> set t) (Assertion ''lib/syslog.c'' 43) (
    rbind (lib_getpid sendrec junk (put buf t w)) (\<lambda>(pid, w1).
    if pid = TASK_FS then disklog t w1
    else
      rbind (send_recv sendrec BOTH TASK_FS (junk\<lparr>msgtype := DISK_LOG, m3p2 := buf, m3i2 := int (length t)\<rparr>) w1) (\<lambda>(_, msg, w2).
      if int (length t) \<noteq> m3i2 msg then Inl (Panic ''failed to write log'') else Inr (m3i1 msg, w2))))))"

section \<open>The system task\<close>

text \<open>One round of \<open>task_sys\<close>: the destination of the answer and the answer; the ticks are the kernel's.\<close>

definition task_sys_step :: "int \<Rightarrow> message \<Rightarrow> (int \<times> message) kres" where
  "task_sys_step ticks msg =
    (let src = source msg in
     if msgtype msg = GET_TICKS then Inr (src, msg\<lparr>m3i1 := ticks\<rparr>)
     else if msgtype msg = GET_PID then Inr (src, msg\<lparr>msgtype := SYSCALL_RET, m3i2 := src\<rparr>)
     else Inl (Panic ''unknown msg type''))"

section \<open>The interface of a task\<close>

text \<open>
  What the stubs rely on: for a request \<open>m\<close> that the task is \<open>ready\<close> for in a state, the
  trap that sends it and the trap that receives both return, with an answer and a
  state that are in the relation \<open>answered\<close> to the request.
\<close>

locale rpc =
  fixes sendrec :: "'w port"
    and server :: int
    and ready :: "message \<Rightarrow> 'w \<Rightarrow> bool"
    and answered :: "message \<Rightarrow> 'w \<Rightarrow> message \<Rightarrow> 'w \<Rightarrow> bool"
  assumes rendezvous: "ready m w \<Longrightarrow>
    \<exists>m1 w1 r w'. sendrec SEND server m w = Inr (0, m1, w1) \<and> sendrec RECEIVE server m1 w1 = Inr (0, r, w') \<and> answered m w r w'"
begin

lemma both: "ready m w \<Longrightarrow> \<exists>r w'. send_recv sendrec BOTH server m w = Inr (0, r, w') \<and> answered m w r w'"
  using rendezvous [of m w] by (auto simp: send_recv_def)

lemma getpid:
  assumes "server = TASK_SYS" and "ready (junk\<lparr>msgtype := GET_PID\<rparr>) w"
    and "\<And>r w'. answered (junk\<lparr>msgtype := GET_PID\<rparr>) w r w' \<Longrightarrow> msgtype r = SYSCALL_RET"
  shows "\<exists>r w'. lib_getpid sendrec junk w = Inr (m3i2 r, w') \<and> answered (junk\<lparr>msgtype := GET_PID\<rparr>) w r w'"
  using both [OF assms(2)] assms(1,3) by (fastforce simp: lib_getpid_def)

lemma ticks_call:
  assumes "server = TASK_SYS" and "ready (zero_message\<lparr>msgtype := GET_TICKS\<rparr>) w"
  shows "\<exists>r w'. get_ticks sendrec w = Inr (m3i1 r, w') \<and> answered (zero_message\<lparr>msgtype := GET_TICKS\<rparr>) w r w'"
  using both [OF assms(2)] assms(1) by (fastforce simp: get_ticks_def)

lemma open_call:
  assumes "server = TASK_FS" and "ready (junk\<lparr>msgtype := OPEN, m3p1 := fst path, m3i1 := flag, m3i2 := snd path\<rparr>) w"
    and "\<And>r w'. answered (junk\<lparr>msgtype := OPEN, m3p1 := fst path, m3i1 := flag, m3i2 := snd path\<rparr>) w r w' \<Longrightarrow> msgtype r = SYSCALL_RET"
  shows "\<exists>r w'. lib_open sendrec junk path flag w = Inr (m3i1 r, w') \<and>
    answered (junk\<lparr>msgtype := OPEN, m3p1 := fst path, m3i1 := flag, m3i2 := snd path\<rparr>) w r w'"
  using both [OF assms(2)] assms(1,3) by (fastforce simp: lib_open_def)

lemma read_call:
  assumes "server = TASK_FS" and "ready (junk\<lparr>msgtype := READ, m3i1 := fd, m3p2 := buf, m3i2 := cnt\<rparr>) w"
  shows "\<exists>r w'. lib_read sendrec junk fd buf cnt w = Inr (m3i2 r, w') \<and>
    answered (junk\<lparr>msgtype := READ, m3i1 := fd, m3p2 := buf, m3i2 := cnt\<rparr>) w r w'"
  using both [OF assms(2)] assms(1) by (fastforce simp: lib_read_def)

lemma write_call:
  assumes "server = TASK_FS" and "ready (junk\<lparr>msgtype := WRITE, m3i1 := fd, m3p2 := buf, m3i2 := cnt\<rparr>) w"
  shows "\<exists>r w'. lib_write sendrec junk fd buf cnt w = Inr (m3i2 r, w') \<and>
    answered (junk\<lparr>msgtype := WRITE, m3i1 := fd, m3p2 := buf, m3i2 := cnt\<rparr>) w r w'"
  using both [OF assms(2)] assms(1) by (fastforce simp: lib_write_def)

lemma close_call:
  assumes "server = TASK_FS" and "ready (junk\<lparr>msgtype := CLOSE, m3i1 := fd\<rparr>) w"
  shows "\<exists>r w'. lib_close sendrec junk fd w = Inr (m3i1 r, w') \<and> answered (junk\<lparr>msgtype := CLOSE, m3i1 := fd\<rparr>) w r w'"
  using both [OF assms(2)] assms(1) by (fastforce simp: lib_close_def)

end

end
