(* ===== verification/Panic.thy ===== *)
theory Panic
  imports Syscalls Tty
begin

unbundle bit_operations_syntax

text \<open>
  How the system stops: \<open>panic\<close> (\<open>kernel/main.c\<close>), \<open>spin\<close> and \<open>assertion_failure\<close>
  (\<open>lib/misc.c\<close>), and the text \<open>dump_msg\<close> (\<open>kernel/proc.c\<close>) prints before one of them.
  All print with \<open>printl\<close>, whose first character tells \<open>sys_printx\<close> to stop the machine.
\<close>

section \<open>The routines\<close>

text \<open>
  How a routine that never returns ends: the processor halts in \<open>sys_printx\<close>, executes
  the invalid instruction \<open>ud2\<close>, or loops for ever.
\<close>

datatype 'w ending = Halted 'w | Trapped 'w | Spinning 'w

text \<open>\<open>printx\<close> says whether the processor has halted; after that nothing more happens.\<close>

definition while_running :: "(string \<Rightarrow> 'w \<Rightarrow> (bool \<times> 'w) kres) \<Rightarrow> string \<Rightarrow> bool \<times> 'w \<Rightarrow> (bool \<times> 'w) kres" where
  "while_running printx t hw = (if fst hw then Inr hw else printx t (snd hw))"

definition panic :: "(string \<Rightarrow> 'w \<Rightarrow> (bool \<times> 'w) kres) \<Rightarrow> string \<Rightarrow> va_arg list \<Rightarrow> 'w \<Rightarrow> 'w ending kres" where
  "panic printx fmt args w =
    rbind (vsprintf fmt args) (\<lambda>t.
    ensure (length t < 256) (Bad_access ''buf'') (
    rbind (printl (while_running printx) ''%c !!panic!! %s'' [VInt 2, VStr t] (False, w)) (\<lambda>(_, halted, w1).
    Inr (if halted then Halted w1 else Trapped w1))))"

definition spin :: "(string \<Rightarrow> 'w \<Rightarrow> (bool \<times> 'w) kres) \<Rightarrow> string \<Rightarrow> bool \<times> 'w \<Rightarrow> 'w ending kres" where
  "spin printx func_name hw =
    rbind (printl (while_running printx) (CHR 0x0A # ''spinning in %s ...'' @ [CHR 0x0A]) [VStr func_name] hw) (\<lambda>(_, halted, w1).
    Inr (if halted then Halted w1 else Spinning w1))"

definition assertion_failure ::
    "(string \<Rightarrow> 'w \<Rightarrow> (bool \<times> 'w) kres) \<Rightarrow> string \<Rightarrow> string \<Rightarrow> string \<Rightarrow> int \<Rightarrow> 'w \<Rightarrow> 'w ending kres" where
  "assertion_failure printx exp file base_file line w =
    rbind (printl (while_running printx) ''%c assert(%s) failed: file: %s, base_file: %s, ln%d''
      [VInt 3, VStr exp, VStr file, VStr base_file, VInt line] (False, w)) (\<lambda>(_, hw).
    spin printx ''assertion_failure()'' hw)"

text \<open>\<open>dump_msg\<close>: the message at address \<open>m\<close>; \<open>packed\<close> is 0.\<close>

definition dump_msg :: "(string \<Rightarrow> 'w \<Rightarrow> 'w kres) \<Rightarrow> proctab \<Rightarrow> string \<Rightarrow> int \<Rightarrow> message \<Rightarrow> 'w \<Rightarrow> (int \<times> 'w) kres" where
  "dump_msg printx pt title m msg w =
    ensure (0 \<le> source msg \<and> source msg < int NPROC) (Bad_access ''proc_table'') (
    (let nl = [CHR 0x0A]; indent = CHR 0x0A # ''        '' in
     printl printx ''{%s}<0x%x>{%ssrc:%s(%d),%stype:%d,%s(0x%x, 0x%x, 0x%x, 0x%x, 0x%x, 0x%x)%s}%s''
       [VStr title, VInt m, VStr indent, VStr (p_name (pt (nat (source msg)))), VInt (source msg), VStr indent, VInt (msgtype msg),
        VStr indent, VInt (m3i1 msg), VInt (m3i2 msg), VInt (m3i3 msg), VInt (m3i4 msg),
        VInt (sint (m3p1 msg)), VInt (sint (m3p2 msg)), VStr nl, VStr nl] w))"

text \<open>
  The system call \<open>printx\<close> on the terminals: the buffer of \<open>printl\<close>, at the linear address
  \<open>la\<close>, holds the text and a 0.
\<close>

definition printx_call :: "int \<Rightarrow> nat \<Rightarrow> u32 \<Rightarrow> u32 \<Rightarrow> u32 \<Rightarrow> nat \<Rightarrow> string \<Rightarrow> terminals \<Rightarrow> (bool \<times> terminals) kres" where
  "printx_call reenter ready err buf la p_proc t s = sys_printx reenter ready err buf p_proc (s\<lparr>cmem := store_str (cmem s) la t\<rparr>)"

section \<open>Addresses of the video memory\<close>

abbreviation (input) cell :: "nat \<Rightarrow> u32" where "cell x \<equiv> V_MEM_BASE + word_of_nat x"
abbreviation (input) voff :: "u32 \<Rightarrow> nat" where "voff a \<equiv> unat (a - V_MEM_BASE)"

lemma voff_cell: "x < 40000 \<Longrightarrow> voff (cell x) = x"
  by (simp add: unat_of_nat take_bit_nat_eq_self)

lemma cell_iff: "x < 40000 \<Longrightarrow> a = cell x \<longleftrightarrow> voff a = x"
proof
  assume "x < 40000" and v: "voff a = x"
  have "a - V_MEM_BASE = word_of_nat x" unfolding v [symmetric] by simp
  then show "a = cell x" by (simp add: diff_eq_eq add.commute)
qed (simp add: unat_of_nat take_bit_nat_eq_self)

lemma cell_in: "x < 40000 \<Longrightarrow> cell x < V_MEM_BASE + V_MEM_SIZE \<longleftrightarrow> x < 0x8000"
proof -
  assume x: "x < 40000"
  have "cell x = word_of_nat (0xB8000 + x)" by simp
  moreover have "unat (word_of_nat (0xB8000 + x) :: u32) = 0xB8000 + x" using x by (subst unat_of_nat) (simp add: take_bit_nat_eq_self)
  ultimately show ?thesis by (simp add: word_less_nat_alt)
qed

lemma cell_mod: "x < 40000 \<Longrightarrow> sint (cell x - V_MEM_BASE) smod (SCREEN_WIDTH * 16) = int (x mod 1280)"
proof -
  assume x: "x < 40000"
  have "sint (word_of_nat x :: u32) = int x" using x by (simp add: signed_of_nat signed_take_bit_int_eq_self)
  then show ?thesis by (simp add: zmod_int)
qed

lemma cell_Suc: "cell x + 1 = cell (x + 1)" "cell x + 2 = cell (x + 2)"
  by simp_all

section \<open>The screen of a panic\<close>

lemma odd_gap:
  assumes "even x" and "odd v" and "x \<le> v" and "v \<noteq> x + 1"
  shows "x + 2 \<le> (v :: nat)"
proof -
  have "v \<noteq> x" using assms(1,2) by blast
  then show ?thesis using assms(3,4) by linarith
qed

lemma gray_loop_eq:
  "x + 2 * n = 1280 * c \<Longrightarrow> c \<le> 26 \<Longrightarrow> n < 640 \<Longrightarrow> gray_loop (cell x) m =
    Some (cell (1280 * c), \<lambda>a. if x \<le> voff a \<and> voff a < 1280 * c \<and> odd (voff a) then GRAY_CHAR else m a)"
proof (induction n arbitrary: x m)
  case 0
  then have x: "x = 1280 * c" "x < 40000" by simp_all
  have "sint (cell x - V_MEM_BASE) smod (SCREEN_WIDTH * 16) = 0" unfolding cell_mod [OF x(2)] by (simp add: x(1))
  moreover have "(\<lambda>a. if x \<le> voff a \<and> voff a < 1280 * c \<and> odd (voff a) then GRAY_CHAR else m a) = m"
    by (rule ext) (auto simp: x(1))
  ultimately show ?case using x(1) by (subst gray_loop.simps) simp
next
  case (Suc n)
  then have x: "x < 40000" "x + 2 * Suc n = 1280 * c" by simp_all
  have "x mod 1280 \<noteq> 0"
  proof
    assume "x mod 1280 = 0"
    then obtain d where "x = 1280 * d" by blast
    then have "d < c" and "1280 * c < 1280 * Suc d" using x(2) Suc.prems(3) by simp_all
    then show False by simp
  qed
  then have ne: "sint (cell x - V_MEM_BASE) smod (SCREEN_WIDTH * 16) \<noteq> 0" unfolding cell_mod [OF x(1)] by linarith
  have "even (x + 2 * Suc n)" unfolding x(2) by simp
  then have ev: "even x" by simp
  have "gray_loop (cell x) m = gray_loop (cell (x + 2)) (m(cell (x + 1) := GRAY_CHAR))"
    using ne by (subst gray_loop.simps) (simp only: if_True not_False_eq_True cell_Suc)
  also have "\<dots> = Some (cell (1280 * c), \<lambda>a. if x + 2 \<le> voff a \<and> voff a < 1280 * c \<and> odd (voff a) then GRAY_CHAR
      else (m(cell (x + 1) := GRAY_CHAR)) a)"
    using Suc.prems by (intro Suc.IH) simp_all
  also have "(\<lambda>a. if x + 2 \<le> voff a \<and> voff a < 1280 * c \<and> odd (voff a) then GRAY_CHAR else (m(cell (x + 1) := GRAY_CHAR)) a) =
      (\<lambda>a. if x \<le> voff a \<and> voff a < 1280 * c \<and> odd (voff a) then GRAY_CHAR else m a)"
  proof (rule ext)
    fix a
    have "x + 1 < 40000" using x Suc.prems(2) by linarith
    note here = cell_iff [OF this, of a]
    have "x + 1 < 1280 * c" using x(2) by simp
    moreover have "odd (voff a) \<Longrightarrow> x \<le> voff a \<Longrightarrow> voff a \<noteq> x + 1 \<Longrightarrow> x + 2 \<le> voff a" by (rule odd_gap [OF ev])
    ultimately show "(if x + 2 \<le> voff a \<and> voff a < 1280 * c \<and> odd (voff a) then GRAY_CHAR else (m(cell (x + 1) := GRAY_CHAR)) a) =
      (if x \<le> voff a \<and> voff a < 1280 * c \<and> odd (voff a) then GRAY_CHAR else m a)"
      unfolding fun_upd_apply here using ev by auto
  qed
  finally show ?case .
qed

text \<open>The text at \<open>q\<close>, outside of the video memory the loops write to.\<close>

definition text_at :: "memory \<Rightarrow> u32 \<Rightarrow> u8 list \<Rightarrow> bool" where
  "text_at m q t \<longleftrightarrow> (\<forall>i < length t. m (q + word_of_nat i) = t ! i) \<and> m (q + word_of_nat (length t)) = 0 \<and> 0 \<notin> set t \<and>
     (\<forall>i \<le> length t. 33280 \<le> voff (q + word_of_nat i))"

lemma text_at_cong:
  assumes "text_at m q t" and "\<And>a. 33280 \<le> voff a \<Longrightarrow> m' a = m a"
  shows "text_at m' q t"
  using assms by (simp add: text_at_def)

text \<open>The characters from number \<open>j\<close> on, into the cells from offset \<open>x\<close> on.\<close>

definition put_cells :: "u8 list \<Rightarrow> nat \<Rightarrow> nat \<Rightarrow> memory \<Rightarrow> memory" where
  "put_cells t j x m = (\<lambda>a. if x \<le> voff a \<and> voff a < x + 2 * (length t - j)
     then if even (voff a - x) then t ! (j + (voff a - x) div 2) else RED_CHAR else m a)"

lemma put_cells_step:
  assumes j: "j < length t" and x: "x < 39000"
  shows "put_cells t (j + 1) (x + 2) (m(cell x := t ! j, cell (x + 1) := RED_CHAR)) = put_cells t j x m"
proof (rule ext)
  fix a
  have c: "a = cell x \<longleftrightarrow> voff a = x" "a = cell (x + 1) \<longleftrightarrow> voff a = x + 1" by (rule cell_iff; use x in simp)+
  consider "voff a < x" | "voff a = x" | "voff a = x + 1" | "x + 2 \<le> voff a" by linarith
  then show "put_cells t (j + 1) (x + 2) (m(cell x := t ! j, cell (x + 1) := RED_CHAR)) a = put_cells t j x m a"
    unfolding put_cells_def fun_upd_apply c
  proof cases
    case 4
    then obtain d where d: "voff a = x + 2 + d" using le_Suc_ex by blast
    have "x + 2 + d < x + 2 + 2 * (length t - (j + 1)) \<longleftrightarrow> x + 2 + d < x + 2 * (length t - j)" using j by linarith
    then show "(if x + 2 \<le> voff a \<and> voff a < x + 2 + 2 * (length t - (j + 1))
         then if even (voff a - (x + 2)) then t ! (j + 1 + (voff a - (x + 2)) div 2) else RED_CHAR
         else if voff a = x + 1 then RED_CHAR else if voff a = x then t ! j else m a) =
       (if x \<le> voff a \<and> voff a < x + 2 * (length t - j)
         then if even (voff a - x) then t ! (j + (voff a - x) div 2) else RED_CHAR else m a)"
      unfolding d by simp
  qed (use j in auto)
qed

text \<open>One round of the loop.\<close>

lemma panic_fill_cell:
  assumes t: "text_at m (p + 1) t" and j: "j < length t" and x: "x + 2 \<le> 0x8000"
    and m2: "m2 = m(cell x := t ! j, cell (x + 1) := RED_CHAR)"
  shows "text_at m2 (p + 1) t"
    and "panic_fill p (cell x) (p + 1 + word_of_nat j) m = (if j + 1 = length t
      then (case gray_loop (cell (x + 2)) m2 of None \<Rightarrow> None | Some (v', m3) \<Rightarrow> panic_fill p v' (p + 1) m3)
      else panic_fill p (cell (x + 2)) (p + 1 + word_of_nat (j + 1)) m2)"
proof -
  have c: "a = cell x \<longleftrightarrow> voff a = x" "a = cell (x + 1) \<longleftrightarrow> voff a = x + 1" for a by (rule cell_iff; use x in simp)+
  have o: "m2 a = m a" if "33280 \<le> voff a" for a unfolding m2 fun_upd_apply c using that x by simp
  show t2: "text_at m2 (p + 1) t" by (rule text_at_cong [OF t o])
  have v: "cell x < V_MEM_BASE + V_MEM_SIZE" by (subst cell_in) (use x in simp_all)
  have q: "p + 1 + word_of_nat j + 1 = p + 1 + word_of_nat (j + 1)" by simp
  have z: "m2 (p + 1 + word_of_nat (j + 1)) = 0 \<longleftrightarrow> j + 1 = length t"
  proof (cases "j + 1 = length t")
    case False
    then have l: "j + 1 < length t" using j by simp
    have "m2 (p + 1 + word_of_nat (j + 1)) = t ! (j + 1)" "t ! (j + 1) \<in> set t"
      by (rule t2 [unfolded text_at_def, THEN conjunct1, rule_format, OF l], rule nth_mem [OF l])
    then show ?thesis using False t by (metis text_at_def)
  qed (use t2 in \<open>simp add: text_at_def\<close>)
  have f: "m (p + 1 + word_of_nat j) = t ! j" using t j by (simp add: text_at_def)
  show "panic_fill p (cell x) (p + 1 + word_of_nat j) m = (if j + 1 = length t
      then (case gray_loop (cell (x + 2)) m2 of None \<Rightarrow> None | Some (v', m3) \<Rightarrow> panic_fill p v' (p + 1) m3)
      else panic_fill p (cell (x + 2)) (p + 1 + word_of_nat (j + 1)) m2)"
    by (subst panic_fill.simps) (simp only: v if_True Let_def q f cell_Suc m2 [symmetric] z)
qed

lemma panic_fill_text:
  "text_at m (p + 1) t \<Longrightarrow> length t = j + Suc n \<Longrightarrow> x + 2 * Suc n \<le> 0x8000 \<Longrightarrow>
   panic_fill p (cell x) (p + 1 + word_of_nat j) m =
     (case gray_loop (cell (x + 2 * Suc n)) (put_cells t j x m) of
        None \<Rightarrow> None | Some (v', m3) \<Rightarrow> panic_fill p v' (p + 1) m3)"
proof (induction n arbitrary: j x m)
  case (0 j x m)
  define m2 where "m2 = m(cell x := t ! j, cell (x + 1) := RED_CHAR)"
  have "put_cells t (j + 1) (x + 2) m2 = put_cells t j x m" unfolding m2_def by (rule put_cells_step) (use 0 in simp_all)
  moreover have "put_cells t (j + 1) (x + 2) m2 = m2" using 0(2) by (auto simp: put_cells_def fun_eq_iff)
  moreover have "j < length t" "x + 2 \<le> 0x8000" using 0 by simp_all
  ultimately show ?case using panic_fill_cell(2) [OF 0(1) _ _ m2_def] 0(2) by simp
next
  case (Suc n j x m)
  define m2 where "m2 = m(cell x := t ! j, cell (x + 1) := RED_CHAR)"
  have j: "j < length t" "x + 2 \<le> 0x8000" "j + 1 \<noteq> length t" using Suc.prems by simp_all
  note step = panic_fill_cell [OF Suc.prems(1) j(1,2) m2_def]
  have "panic_fill p (cell x) (p + 1 + word_of_nat j) m = panic_fill p (cell (x + 2)) (p + 1 + word_of_nat (j + 1)) m2"
    unfolding step(2) using j(3) by (simp only: if_False)
  also have "\<dots> = (case gray_loop (cell (x + 2 + 2 * Suc n)) (put_cells t (j + 1) (x + 2) m2) of
        None \<Rightarrow> None | Some (v', m3) \<Rightarrow> panic_fill p v' (p + 1) m3)"
    by (rule Suc.IH [OF step(1)]) (use Suc.prems in simp_all)
  also have "put_cells t (j + 1) (x + 2) m2 = put_cells t j x m"
    unfolding m2_def by (rule put_cells_step) (use Suc.prems in simp_all)
  also have "x + 2 + 2 * Suc n = x + 2 * Suc (Suc n)" by simp
  finally show ?case .
qed

text \<open>Sixteen lines of the screen: the text in red, the rest grey.\<close>

definition put_rows :: "u8 list \<Rightarrow> nat \<Rightarrow> memory \<Rightarrow> memory" where
  "put_rows t k m = (\<lambda>a. if 1280 * k \<le> voff a \<and> voff a < 1280 * k + 1280
     then let r = voff a - 1280 * k in
       if r < 2 * length t then (if even r then t ! (r div 2) else RED_CHAR)
       else if odd r then GRAY_CHAR else m a
     else m a)"

lemma panic_fill_rows:
  assumes t: "text_at m (p + 1) t" and len: "0 < length t" "length t \<le> 384" and k: "k < 26"
  shows "panic_fill p (cell (1280 * k)) (p + 1) m = panic_fill p (cell (1280 * (k + 1))) (p + 1) (put_rows t k m)"
proof -
  define n where "n = length t - 1"
  have n: "length t = 0 + Suc n" using len by (simp add: n_def)
  have fit: "1280 * k + 2 * Suc n \<le> 0x8000" using n len k by simp
  have "panic_fill p (cell (1280 * k)) (p + 1) m =
     (case gray_loop (cell (1280 * k + 2 * Suc n)) (put_cells t 0 (1280 * k) m) of
        None \<Rightarrow> None | Some (v', m3) \<Rightarrow> panic_fill p v' (p + 1) m3)"
    using panic_fill_text [OF t n fit] by simp
  moreover have "gray_loop (cell (1280 * k + 2 * Suc n)) (put_cells t 0 (1280 * k) m) =
      Some (cell (1280 * (k + 1)), \<lambda>a. if 1280 * k + 2 * Suc n \<le> voff a \<and> voff a < 1280 * (k + 1) \<and> odd (voff a)
        then GRAY_CHAR else put_cells t 0 (1280 * k) m a)"
    by (rule gray_loop_eq [where n = "640 - Suc n"]) (use n len k in simp_all)
  moreover have "(\<lambda>a. if 1280 * k + 2 * Suc n \<le> voff a \<and> voff a < 1280 * (k + 1) \<and> odd (voff a)
        then GRAY_CHAR else put_cells t 0 (1280 * k) m a) = put_rows t k m"
  proof (rule ext)
    fix a
    show "(if 1280 * k + 2 * Suc n \<le> voff a \<and> voff a < 1280 * (k + 1) \<and> odd (voff a)
        then GRAY_CHAR else put_cells t 0 (1280 * k) m a) = put_rows t k m a"
    proof (cases "1280 * k \<le> voff a \<and> voff a < 1280 * k + 1280")
      case True
      then obtain r where r: "voff a = 1280 * k + r" "r < 1280" using le_Suc_ex by fastforce
      have "2 * Suc n < 1280" using n len by simp
      then show ?thesis unfolding put_rows_def put_cells_def r using r(2) n by (auto simp: Let_def)
    next
      case False
      have "2 * Suc n < 1280" using n len by simp
      then show ?thesis unfolding put_rows_def put_cells_def using False n by auto
    qed
  qed
  ultimately show ?thesis by simp
qed

text \<open>The whole screen, 26 times the text; the loop ends.\<close>

definition panic_screen :: "u8 list \<Rightarrow> nat \<Rightarrow> memory \<Rightarrow> memory \<Rightarrow> bool" where
  "panic_screen t k m m' \<longleftrightarrow> (\<forall>a. voff a < 1280 * k \<or> 33280 \<le> voff a \<longrightarrow> m' a = m a) \<and>
     (\<forall>c < 26. k \<le> c \<longrightarrow> (\<forall>i < 640.
        (i < length t \<longrightarrow> m' (cell (1280 * c + 2 * i)) = t ! i \<and> m' (cell (1280 * c + 2 * i + 1)) = RED_CHAR) \<and>
        (length t \<le> i \<longrightarrow> m' (cell (1280 * c + 2 * i)) = m (cell (1280 * c + 2 * i)) \<and>
           m' (cell (1280 * c + 2 * i + 1)) = GRAY_CHAR)))"

lemma put_rows_outside: "voff a < 1280 * k \<or> 1280 * (k + 1) \<le> voff a \<Longrightarrow> put_rows t k m a = m a"
  by (auto simp: put_rows_def)

lemma put_rows_inside:
  assumes "c < 26" and "i < 640"
  shows "put_rows t c m (cell (1280 * c + 2 * i)) = (if i < length t then t ! i else m (cell (1280 * c + 2 * i)))"
    and "put_rows t c m (cell (1280 * c + 2 * i + 1)) = (if i < length t then RED_CHAR else GRAY_CHAR)"
proof -
  have v: "voff (cell (1280 * c + 2 * i)) = 1280 * c + 2 * i" "voff (cell (1280 * c + 2 * i + 1)) = 1280 * c + 2 * i + 1"
    by (rule voff_cell; use assms in simp)+
  show "put_rows t c m (cell (1280 * c + 2 * i)) = (if i < length t then t ! i else m (cell (1280 * c + 2 * i)))"
    unfolding put_rows_def v using assms by (simp add: Let_def)
  show "put_rows t c m (cell (1280 * c + 2 * i + 1)) = (if i < length t then RED_CHAR else GRAY_CHAR)"
    unfolding put_rows_def v using assms by (simp add: Let_def)
qed

lemma panic_fill_screen:
  assumes len: "0 < length t" "length t \<le> 384"
  shows "text_at m (p + 1) t \<Longrightarrow> k + n = 26 \<Longrightarrow>
    \<exists>m'. panic_fill p (cell (1280 * k)) (p + 1) m = Some m' \<and> panic_screen t k m m'"
proof (induction n arbitrary: k m)
  case 0
  then have k: "k = 26" by simp
  have "\<not> cell (1280 * k) < V_MEM_BASE + V_MEM_SIZE" by (subst cell_in) (simp_all add: k)
  then have "panic_fill p (cell (1280 * k)) (p + 1) m = Some m" by (subst panic_fill.simps) (simp only: if_False)
  then show ?case using k by (auto simp: panic_screen_def)
next
  case (Suc n)
  then have k: "k < 26" "k + 1 + n = 26" by simp_all
  have o: "put_rows t k m a = m a" if "33280 \<le> voff a" for a by (rule put_rows_outside) (use that k in simp)
  have "text_at (put_rows t k m) (p + 1) t" by (rule text_at_cong [OF Suc.prems(1) o])
  from Suc.IH [OF this k(2)] obtain m' where
    m': "panic_fill p (cell (1280 * (k + 1))) (p + 1) (put_rows t k m) = Some m'" and ps: "panic_screen t (k + 1) (put_rows t k m) m'"
    by blast
  have fr: "m' a = put_rows t k m a" if "voff a < 1280 * (k + 1) \<or> 33280 \<le> voff a" for a
    using ps that unfolding panic_screen_def by blast
  have "panic_screen t k m m'"
    unfolding panic_screen_def
  proof (intro conjI allI impI)
    fix a assume a: "voff a < 1280 * k \<or> 33280 \<le> voff a"
    then have "m' a = put_rows t k m a" by (intro fr) auto
    also have "\<dots> = m a" by (rule put_rows_outside) (use a k in auto)
    finally show "m' a = m a" .
  next
    fix c i assume c: "c < 26" "k \<le> c" and i: "i < (640 :: nat)"
    have v: "voff (cell (1280 * c + 2 * i)) = 1280 * c + 2 * i" "voff (cell (1280 * c + 2 * i + 1)) = 1280 * c + 2 * i + 1"
      by (rule voff_cell; use c i in simp)+
    have row: "m' (cell (1280 * c + 2 * i)) = (if i < length t then t ! i else m (cell (1280 * c + 2 * i))) \<and>
      m' (cell (1280 * c + 2 * i + 1)) = (if i < length t then RED_CHAR else GRAY_CHAR)"
    proof (cases "c = k")
      case True
      then show ?thesis
        using fr [of "cell (1280 * c + 2 * i)"] fr [of "cell (1280 * c + 2 * i + 1)"] put_rows_inside [OF c(1) i, of t m] i
        unfolding v by simp
    next
      case False
      then have ck: "k + 1 \<le> c" using c(2) by simp
      have "put_rows t k m (cell (1280 * c + 2 * i)) = m (cell (1280 * c + 2 * i))"
        by (rule put_rows_outside) (use v(1) ck in simp)
      then show ?thesis using ps [unfolded panic_screen_def] c(1) ck i by auto
    qed
    show "i < length t \<Longrightarrow> m' (cell (1280 * c + 2 * i)) = t ! i" "i < length t \<Longrightarrow> m' (cell (1280 * c + 2 * i + 1)) = RED_CHAR"
      "length t \<le> i \<Longrightarrow> m' (cell (1280 * c + 2 * i)) = m (cell (1280 * c + 2 * i))"
      "length t \<le> i \<Longrightarrow> m' (cell (1280 * c + 2 * i + 1)) = GRAY_CHAR"
      using row by simp_all
  qed
  then show ?case using m' panic_fill_rows [OF Suc.prems(1) len k(1)] by simp
qed

end
