(* ===== verification/PanicProps.thy ===== *)
theory PanicProps
  imports Panic TtyProps
begin

unbundle bit_operations_syntax

text \<open>
  The properties of \<open>panic\<close> and \<open>assertion_failure\<close> on the terminals.
\<close>

section \<open>\<open>printx\<close> with a magic character\<close>

lemma of_char_0: "(of_char c :: u8) = 0 \<longleftrightarrow> c = CHR 0x00"
  by (cases c) (simp add: of_char_def)

text \<open>
  The call finds the buffer of \<open>printl\<close> at \<open>la\<close>; the text and its 0 lie outside of the
  cells the screen is filled in and of the local array of \<open>sys_printx\<close>.
\<close>

definition buffer_ok :: "int \<Rightarrow> u32 \<Rightarrow> u32 \<Rightarrow> u32 \<Rightarrow> nat \<Rightarrow> nat \<Rightarrow> terminals \<Rightarrow> bool" where
  "buffer_ok reenter err buf la p_proc n s \<longleftrightarrow> 0 \<le> reenter \<and>
     (if reenter = 0 then va2la (procs s) p_proc buf = Inr la else buf = la) \<and>
     (\<forall>i \<le> n. 33280 \<le> voff (la + word_of_nat i) \<and> length reenter_err \<le> unat (la + word_of_nat i - err))"

lemma buffer_le: "buffer_ok reenter err buf la p_proc n s \<Longrightarrow> m \<le> n \<Longrightarrow> buffer_ok reenter err buf la p_proc m s"
  by (auto simp: buffer_ok_def)

lemma printx_cases:
  assumes b: "buffer_ok reenter err buf la p_proc (length t) s" and t: "t \<noteq> []" "length t < 2 ^ 20"
  obtains s1 where "procs s1 = procs s" and "\<forall>i < length t. cmem s1 (la + word_of_nat i) = of_char (t ! i)"
    and "cmem s1 (la + word_of_nat (length t)) = 0"
    and "printx_call reenter ready err buf la p_proc t s =
      (if of_char (hd t) = MAG_CH_PANIC \<or> of_char (hd t) = MAG_CH_ASSERT \<and> ready < NR_TASKS
       then run_loop (panic_fill la V_MEM_BASE (la + 1) (cmem s1)) (\<lambda>m. Inr (True, s1\<lparr>cmem := m\<rparr>))
       else run_loop (print_loop la s1) (\<lambda>r. rbind r (\<lambda>s2. Inr (False, s2))))"
proof -
  define s0 where "s0 = s\<lparr>cmem := store_str (cmem s) la t\<rparr>"
  define s1 where "s1 = s0\<lparr>cmem := \<lambda>a. if unat (a - err) < length reenter_err then reenter_err ! unat (a - err) else cmem s0 a\<rparr>"
  have idx: "unat (la + word_of_nat i - la) = i" if "i \<le> length t" for i
    using that t(2) by (simp add: unat_of_nat take_bit_nat_eq_self)
  have chars: "cmem s1 (la + word_of_nat i) = (if i < length t then of_char (t ! i) else 0)" if i: "i \<le> length t" for i
  proof -
    have "\<not> unat (la + word_of_nat i - err) < length reenter_err" using b i by (auto simp: buffer_ok_def not_less)
    then show ?thesis using idx [OF i] i by (auto simp: s1_def s0_def store_str_def)
  qed
  have hd: "cmem s1 la = of_char (hd t)" using chars [of 0] t(1) by (simp add: hd_conv_nth)
  have ad: "(if reenter = 0 then va2la (procs s1) p_proc buf else if 0 < reenter then Inr buf else Inr err) = Inr la"
    using b by (auto simp: buffer_ok_def s1_def s0_def)
  show thesis
  proof (rule that [of s1])
    show "printx_call reenter ready err buf la p_proc t s =
      (if of_char (hd t) = MAG_CH_PANIC \<or> of_char (hd t) = MAG_CH_ASSERT \<and> ready < NR_TASKS
       then run_loop (panic_fill la V_MEM_BASE (la + 1) (cmem s1)) (\<lambda>m. Inr (True, s1\<lparr>cmem := m\<rparr>))
       else run_loop (print_loop la s1) (\<lambda>r. rbind r (\<lambda>s2. Inr (False, s2))))"
      unfolding printx_call_def sys_printx_def Let_def s0_def [symmetric] s1_def [symmetric] ad sum.case hd ..
  qed (use chars in \<open>simp_all add: s1_def s0_def\<close>)
qed

text \<open>What is on the screen when the machine has halted.\<close>

definition shows_text :: "string \<Rightarrow> terminals \<Rightarrow> bool" where
  "shows_text t s \<longleftrightarrow> (\<forall>k < 26. \<forall>i < length t.
     cmem s (V_MEM_BASE + word_of_nat (1280 * k + 2 * i)) = of_char (t ! i) \<and>
     cmem s (V_MEM_BASE + word_of_nat (1280 * k + 2 * i + 1)) = RED_CHAR)"

lemma printx_halts:
  assumes b: "buffer_ok reenter err buf la p_proc (length r + 1) s"
    and c: "of_char c = MAG_CH_PANIC \<or> of_char c = MAG_CH_ASSERT \<and> ready < NR_TASKS"
    and r: "r \<noteq> []" "length r \<le> 384" "CHR 0x00 \<notin> set r"
  shows "\<exists>s'. printx_call reenter ready err buf la p_proc (c # r) s = Inr (True, s') \<and> shows_text r s'"
proof -
  have bt: "buffer_ok reenter err buf la p_proc (length (c # r)) s" using b by simp
  obtain s1 where tx: "\<forall>i < length (c # r). cmem s1 (la + word_of_nat i) = of_char ((c # r) ! i)"
      "cmem s1 (la + word_of_nat (length (c # r))) = 0"
    and run: "printx_call reenter ready err buf la p_proc (c # r) s =
      (if of_char (hd (c # r)) = MAG_CH_PANIC \<or> of_char (hd (c # r)) = MAG_CH_ASSERT \<and> ready < NR_TASKS
       then run_loop (panic_fill la V_MEM_BASE (la + 1) (cmem s1)) (\<lambda>m. Inr (True, s1\<lparr>cmem := m\<rparr>))
       else run_loop (print_loop la s1) (\<lambda>r. rbind r (\<lambda>s2. Inr (False, s2))))"
    by (rule printx_cases [OF bt, where ready = ready]) (use r(2) in simp_all)
  let ?t = "map of_char r :: u8 list"
  have sh: "la + 1 + word_of_nat i = la + word_of_nat (Suc i)" for i by simp
  have "text_at (cmem s1) (la + 1) ?t"
    unfolding text_at_def sh
  proof (intro conjI allI impI)
    show "cmem s1 (la + word_of_nat (Suc i)) = ?t ! i" if "i < length ?t" for i
      using tx(1) [rule_format, of "Suc i"] that by simp
    show "cmem s1 (la + word_of_nat (Suc (length ?t))) = 0" using tx(2) by simp
    show "0 \<notin> set ?t" using r(3) of_char_0 by (metis (no_types, lifting) imageE list.set_map)
    show "33280 \<le> voff (la + word_of_nat (Suc i))" if "i \<le> length ?t" for i
      using b that by (simp add: buffer_ok_def del: of_nat_Suc)
  qed
  from panic_fill_screen [OF _ _ this, of 0 26] r(1,2) obtain m' where
    m': "panic_fill la (V_MEM_BASE + word_of_nat (1280 * 0)) (la + 1) (cmem s1) = Some m'" "panic_screen ?t 0 (cmem s1) m'" by auto
  have "shows_text r (s1\<lparr>cmem := m'\<rparr>)"
    unfolding shows_text_def
  proof (intro allI impI)
    fix k i :: nat assume k: "k < 26" and i: "i < length r"
    have "i < 640" using i r(2) by simp
    then show "cmem (s1\<lparr>cmem := m'\<rparr>) (V_MEM_BASE + word_of_nat (1280 * k + 2 * i)) = of_char (r ! i) \<and>
       cmem (s1\<lparr>cmem := m'\<rparr>) (V_MEM_BASE + word_of_nat (1280 * k + 2 * i + 1)) = RED_CHAR"
      using m'(2) [unfolded panic_screen_def, THEN conjunct2, rule_format, OF k _ \<open>i < 640\<close>] i by simp
  qed
  moreover have "printx_call reenter ready err buf la p_proc (c # r) s = Inr (True, s1\<lparr>cmem := m'\<rparr>)"
    unfolding run using c m'(1) by simp
  ultimately show ?thesis by blast
qed

text \<open>Printing leaves the process table alone, and so the place of the buffer.\<close>

lemma scroll_loop_more: "scroll_loop c s = Some s' \<Longrightarrow> screen.more s' = screen.more s"
proof (induct rule: scroll_loop.raw_induct [rotated 1, consumes 1, case_names step])
  case (step f c s s')
  then show ?case by (auto simp: scroll_screen_def Let_def split: if_splits)
qed

lemma out_char_procs: "out_char c ch s = Inr s' \<Longrightarrow> procs s' = procs s"
proof -
  assume "out_char c ch s = Inr s'"
  then have "screen.more s' = screen.more s"
    by (auto simp: out_char_def put_char_def Let_def split: option.splits if_splits dest: scroll_loop_more)
  then show ?thesis by (cases s; cases s') simp
qed

lemma print_loop_procs: "print_loop p s = Some (Inr s') \<Longrightarrow> procs s' = procs s"
proof -
  have "print_loop p s = Some r \<Longrightarrow> r = Inr s' \<longrightarrow> procs s' = procs s" for p s r s'
  proof (induct arbitrary: s' rule: print_loop.raw_induct [rotated 1, consumes 1, case_names step])
    case (step f p s r)
    show ?case
    proof (cases "out_char (p_console (tty_table s 0)) (cmem s p) s")
      case (Inr s1)
      then show ?thesis using step out_char_procs [OF Inr] by (auto simp: Let_def split: if_splits)
    qed (use step in \<open>auto simp: Let_def split: if_splits\<close>)
  qed
  then show "print_loop p s = Some (Inr s') \<Longrightarrow> procs s' = procs s" by blast
qed

lemma printx_goes_on:
  assumes b: "buffer_ok reenter err buf la p_proc (length t) s" and t: "t \<noteq> []" "length t < 2 ^ 20"
    and c: "of_char (hd t) \<noteq> MAG_CH_PANIC" "of_char (hd t) = MAG_CH_ASSERT \<longrightarrow> NR_TASKS \<le> ready"
    and run: "printx_call reenter ready err buf la p_proc t s = Inr hw"
  shows "\<exists>s'. hw = (False, s') \<and> procs s' = procs s"
proof -
  obtain s1 where p1: "procs s1 = procs s" and "printx_call reenter ready err buf la p_proc t s =
      (if of_char (hd t) = MAG_CH_PANIC \<or> of_char (hd t) = MAG_CH_ASSERT \<and> ready < NR_TASKS
       then run_loop (panic_fill la V_MEM_BASE (la + 1) (cmem s1)) (\<lambda>m. Inr (True, s1\<lparr>cmem := m\<rparr>))
       else run_loop (print_loop la s1) (\<lambda>r. rbind r (\<lambda>s2. Inr (False, s2))))"
    by (rule printx_cases [OF b t, where ready = ready]) simp
  then show ?thesis using c run print_loop_procs [of la s1] p1 by (auto split: option.splits sum.splits)
qed

section \<open>The texts\<close>

lemma vsprintf_c: "v \<noteq> CHR 0x00 \<Longrightarrow> vsprintf (CHR ''%'' # CHR ''c'' # fmt) (VInt (of_char v) # args) =
    rbind (vsprintf fmt args) (\<lambda>r. Inr (v # r))"
  by (subst vsprintf_conv) (simp_all add: convert_def less_eq_char_def split: sum.split)

text \<open>The number of a line, as \<open>%d\<close> prints it.\<close>

definition dec :: "int \<Rightarrow> string" where
  "dec v = (if v < 0 then CHR ''-'' # i2a (cint (v * (-1))) 10 else i2a v 10)"

lemma vsprintf_dec: "vsprintf (CHR ''%'' # CHR ''d'' # fmt) (VInt v # args) = rbind (vsprintf fmt args) (\<lambda>r. Inr (dec v @ r))"
  unfolding dec_def by (rule vsprintf_d)

lemma vsprintf_lit: "CHR ''%'' \<notin> set lit \<Longrightarrow> vsprintf (lit @ fmt) args = rbind (vsprintf fmt args) (\<lambda>r. Inr (lit @ r))"
proof (induction lit)
  case (Cons a lit)
  then have "a \<noteq> CHR ''%''" by auto
  with Cons show ?case by (simp add: vsprintf_cons split: sum.split)
qed (simp split: sum.split)

lemma panic_text:
  "length t < 1024 \<Longrightarrow> vsprintf ''%c !!panic!! %s'' [VInt 2, VStr t] = Inr (CHR 0x02 # '' !!panic!! '' @ t)"
  using vsprintf_c [of "CHR 0x02"] by (simp add: vsprintf_cons vsprintf_s vsprintf_plain)

lemma assertion_text:
  "length exp < 1024 \<Longrightarrow> length file < 1024 \<Longrightarrow> length base_file < 1024 \<Longrightarrow>
   vsprintf ''%c assert(%s) failed: file: %s, base_file: %s, ln%d'' [VInt 3, VStr exp, VStr file, VStr base_file, VInt line] =
     Inr (CHR 0x03 # '' assert('' @ exp @ '') failed: file: '' @ file @ '', base_file: '' @ base_file @ '', ln'' @ dec line)"
proof -
  assume l: "length exp < 1024" "length file < 1024" "length base_file < 1024"
  have 1: "vsprintf ('', ln'' @ ''%d'') [VInt line] = Inr ('', ln'' @ dec line)"
    by (subst vsprintf_lit) (simp_all add: vsprintf_dec vsprintf_plain)
  have 2: "vsprintf ('', base_file: '' @ CHR ''%'' # CHR ''s'' # '', ln'' @ ''%d'') [VStr base_file, VInt line] =
      Inr ('', base_file: '' @ base_file @ '', ln'' @ dec line)"
    by (subst vsprintf_lit) (simp, simp only: vsprintf_s 1 l(3) if_True sum.case)
  have 3: "vsprintf ('') failed: file: '' @ CHR ''%'' # CHR ''s'' # '', base_file: '' @ CHR ''%'' # CHR ''s'' # '', ln'' @ ''%d'')
      [VStr file, VStr base_file, VInt line] = Inr ('') failed: file: '' @ file @ '', base_file: '' @ base_file @ '', ln'' @ dec line)"
    by (subst vsprintf_lit) (simp, simp only: vsprintf_s 2 l(2) if_True sum.case)
  have 4: "vsprintf ('' assert('' @ CHR ''%'' # CHR ''s'' # '') failed: file: '' @ CHR ''%'' # CHR ''s'' # '', base_file: '' @ CHR ''%'' # CHR ''s'' # '', ln'' @ ''%d'')
      [VStr exp, VStr file, VStr base_file, VInt line] =
      Inr ('' assert('' @ exp @ '') failed: file: '' @ file @ '', base_file: '' @ base_file @ '', ln'' @ dec line)"
    by (subst vsprintf_lit) (simp, simp only: vsprintf_s 3 l(1) if_True sum.case)
  show ?thesis
    using vsprintf_c [of "CHR 0x03"] 4 by simp
qed

lemma spin_text: "length f < 1024 \<Longrightarrow>
  vsprintf (CHR 0x0A # ''spinning in %s ...'' @ [CHR 0x0A]) [VStr f] = Inr (CHR 0x0A # ''spinning in '' @ f @ '' ...'' @ [CHR 0x0A])"
  by (simp add: vsprintf_cons vsprintf_s vsprintf_plain)

section \<open>The properties\<close>

text \<open>
  C34: a panic stops the machine, from a process as well as from the kernel: \<open>panic\<close> with
  any message of less than 256 characters halts the processor, after \<open>sys_printx\<close> has
  filled the whole video memory with the message, in red, eight lines apart; it never
  returns to its caller and never reaches the \<open>ud2\<close>.
\<close>

theorem panic_halts:
  assumes msg: "vsprintf fmt args = Inr t" "length t < 256" "CHR 0x00 \<notin> set t"
    and buf: "buffer_ok reenter err buf la p_proc 268 s"
  shows "\<exists>s'. panic (printx_call reenter ready err buf la p_proc) fmt args s = Inr (Halted s') \<and>
    shows_text ('' !!panic!! '' @ t) s'"
proof -
  let ?r = "'' !!panic!! '' @ t"
  have "buffer_ok reenter err buf la p_proc (length ?r + 1) s" by (rule buffer_le [OF buf]) (use msg(2) in simp)
  then obtain s' where "printx_call reenter ready err buf la p_proc (CHR 0x02 # ?r) s = Inr (True, s')" "shows_text ?r s'"
    using printx_halts [of reenter err buf la p_proc ?r s "CHR 0x02" ready] msg by auto
  then show ?thesis
    using msg panic_text [of t] by (simp add: panic_def printl_def while_running_def)
qed

lemma sample_buffer: "n < 0x10000 \<Longrightarrow> buffer_ok 1 0xF0000 0x100000 0x100000 0 n s"
proof -
  have u: "\<And>k i. k + i < 2 ^ 31 \<Longrightarrow> unat (word_of_nat (k + i) :: u32) = k + i"
    by (simp only: unat_of_nat) (simp add: take_bit_nat_eq_self)
  assume "n < 0x10000"
  then have "33280 \<le> voff (0x100000 + word_of_nat i) \<and> length reenter_err \<le> unat (0x100000 + word_of_nat i - (0xF0000 :: u32))" if "i \<le> n" for i
    using u [of "0x48000" i] u [of "0x10000" i] that by (simp add: reenter_err_def add.commute)
  then show ?thesis by (simp add: buffer_ok_def)
qed

theorem panic_halts_witness:
  "\<exists>s'. panic (printx_call 1 0 0xF0000 0x100000 0x100000 0) ''no'' [] sample_term = Inr (Halted s') \<and>
     cmem s' 0xB8002 = 0x21 \<and> cmem s' 0xB8003 = RED_CHAR"
proof -
  have "\<exists>s'. panic (printx_call 1 0 0xF0000 0x100000 0x100000 0) ''no'' [] sample_term = Inr (Halted s') \<and>
    shows_text ('' !!panic!! '' @ ''no'') s'"
    by (rule panic_halts [OF _ _ _ sample_buffer]) (simp_all add: vsprintf_plain)
  then obtain s' where s': "panic (printx_call 1 0 0xF0000 0x100000 0x100000 0) ''no'' [] sample_term = Inr (Halted s')"
    "shows_text ('' !!panic!! '' @ ''no'') s'" by blast
  have "cmem s' (V_MEM_BASE + word_of_nat (1280 * 0 + 2 * 1)) = of_char (('' !!panic!! '' @ ''no'') ! 1) \<and>
     cmem s' (V_MEM_BASE + word_of_nat (1280 * 0 + 2 * 1 + 1)) = RED_CHAR"
    by (rule s'(2) [unfolded shows_text_def, rule_format]) simp_all
  then show ?thesis using s'(1) by (simp add: of_char_def)
qed

text \<open>
  A failed assertion stops the machine when a task runs, with the expression, the files and
  the line on the screen; when a user process runs it only prints, and the process
  loops for ever: it is never the machine that halts.
\<close>

theorem assertion_halts_tasks:
  assumes names: "CHR 0x00 \<notin> set (exp @ file @ base_file @ dec line)"
    and t: "t = '' assert('' @ exp @ '') failed: file: '' @ file @ '', base_file: '' @ base_file @ '', ln'' @ dec line"
    and len: "length t \<le> 384" and buf: "buffer_ok reenter err buf la p_proc 386 s"
  shows "if ready < NR_TASKS
    then \<exists>s'. assertion_failure (printx_call reenter ready err buf la p_proc) exp file base_file line s = Inr (Halted s') \<and> shows_text t s'
    else \<forall>s'. assertion_failure (printx_call reenter ready err buf la p_proc) exp file base_file line s \<noteq> Inr (Halted s')"
proof -
  let ?f = "CHR 0x0A # ''spinning in assertion_failure() ...'' @ [CHR 0x0A]"
  have l: "length exp < 1024" "length file < 1024" "length base_file < 1024" "t \<noteq> []" "CHR 0x00 \<notin> set t" using len names by (simp_all add: t)
  note tx = assertion_text [OF l(1-3), of line, folded t]
  have pr: "printl (while_running (printx_call reenter ready err buf la p_proc)) ''%c assert(%s) failed: file: %s, base_file: %s, ln%d''
      [VInt 3, VStr exp, VStr file, VStr base_file, VInt line] (False, s) =
    rbind (printx_call reenter ready err buf la p_proc (CHR 0x03 # t) s) (\<lambda>w1. Inr (int (length t) + 1, w1))"
    using len by (simp add: printl_def tx while_running_def add.commute split: sum.split)
  have sp: "spin (printx_call reenter ready err buf la p_proc) ''assertion_failure()'' hw =
    rbind (while_running (printx_call reenter ready err buf la p_proc) ?f hw) (\<lambda>(h, w). Inr (if h then Halted w else Spinning w))" for hw
    using spin_text [of "''assertion_failure()''"] by (simp add: spin_def printl_def split: sum.split)
  have bt: "buffer_ok reenter err buf la p_proc (length t + 1) s" by (rule buffer_le [OF buf]) (use len in simp)
  show ?thesis
  proof (cases "ready < NR_TASKS")
    case True
    obtain s' where "printx_call reenter ready err buf la p_proc (CHR 0x03 # t) s = Inr (True, s')" "shows_text t s'"
      using printx_halts [OF bt _ l(4) len l(5), of "CHR 0x03" ready] True by auto
    then show ?thesis using True by (simp add: assertion_failure_def pr sp while_running_def)
  next
    case False
    have goes: "\<exists>s2. hw = (False, s2) \<and> procs s2 = procs s1"
      if "printx_call reenter ready err buf la p_proc u s1 = Inr hw" "buffer_ok reenter err buf la p_proc (length u) s1"
        "u \<noteq> []" "length u < 2 ^ 20" "of_char (hd u) \<noteq> MAG_CH_PANIC" for u s1 hw
      using printx_goes_on [OF that(2-5) _ that(1)] False by simp
    have "assertion_failure (printx_call reenter ready err buf la p_proc) exp file base_file line s \<noteq> Inr (Halted s')" for s'
    proof (cases "printx_call reenter ready err buf la p_proc (CHR 0x03 # t) s")
      case (Inl e)
      then show ?thesis by (simp add: assertion_failure_def pr)
    next
      case (Inr hw)
      then obtain s2 where s2: "hw = (False, s2)" "procs s2 = procs s"
        using goes [OF Inr] bt len by auto
      have b2: "buffer_ok reenter err buf la p_proc (length ?f) s2"
        using buffer_le [OF buf, of "length ?f"] s2(2) by (simp add: buffer_ok_def)
      have "\<nexists>w. printx_call reenter ready err buf la p_proc ?f s2 = Inr (True, w)"
        using goes [OF _ b2] by auto
      then show ?thesis
        using Inr by (auto simp: assertion_failure_def pr s2(1) sp while_running_def split: sum.splits)
    qed
    with False show ?thesis by simp
  qed
qed

theorem assertion_halts_tasks_witness:
  "\<exists>s'. assertion_failure (printx_call 1 3 0xF0000 0x100000 0x100000 0) ''m'' ''a.c'' ''b.c'' 7 sample_term = Inr (Halted s') \<and>
     cmem s' 0xB8002 = 0x61 \<and> cmem s' 0xB8003 = RED_CHAR"
proof -
  have d: "dec 7 = ''7''" by code_simp
  have "if (3 :: nat) < NR_TASKS
    then \<exists>s'. assertion_failure (printx_call 1 3 0xF0000 0x100000 0x100000 0) ''m'' ''a.c'' ''b.c'' 7 sample_term = Inr (Halted s') \<and>
      shows_text '' assert(m) failed: file: a.c, base_file: b.c, ln7'' s'
    else \<forall>s'. assertion_failure (printx_call 1 3 0xF0000 0x100000 0x100000 0) ''m'' ''a.c'' ''b.c'' 7 sample_term \<noteq> Inr (Halted s')"
    by (rule assertion_halts_tasks [OF _ _ _ sample_buffer]) (simp_all add: d)
  then obtain s' where s': "assertion_failure (printx_call 1 3 0xF0000 0x100000 0x100000 0) ''m'' ''a.c'' ''b.c'' 7 sample_term = Inr (Halted s')"
    "shows_text '' assert(m) failed: file: a.c, base_file: b.c, ln7'' s'" by auto
  have "cmem s' (V_MEM_BASE + word_of_nat (1280 * 0 + 2 * 1)) = of_char ('' assert(m) failed: file: a.c, base_file: b.c, ln7'' ! 1) \<and>
     cmem s' (V_MEM_BASE + word_of_nat (1280 * 0 + 2 * 1 + 1)) = RED_CHAR"
    by (rule s'(2) [unfolded shows_text_def, rule_format]) simp_all
  then show ?thesis using s'(1) by (simp add: of_char_def)
qed

end
