(* ===== verification/Mm.thy ===== *)
theory Mm
  imports Fmt Proc
begin

unbundle bit_operations_syntax

text \<open>
  The memory manager, \<open>mm/main.c\<close>, \<open>mm/forkexit.c\<close> and \<open>mm/exec.c\<close>, with the stubs of
  \<open>lib/fork.c\<close>, \<open>lib/exit.c\<close>, \<open>lib/wait.c\<close> and \<open>lib/exec.c\<close>.  The messages the task
  sends are recorded in \<open>mm_sent\<close>, when the kernel lets them through; the flags \<open>SENDING\<close>
  and \<open>RECEIVING\<close> that it changes on their way are the matter of the theory of message
  passing.
  \<open>mm_junk\<close> is what an uninitialised local \<open>MESSAGE\<close> holds.
\<close>

abbreviation (input) AMM :: "nat \<Rightarrow> kfail" where "AMM \<equiv> Assertion ''mm/main.c''"
abbreviation (input) AFK :: "nat \<Rightarrow> kfail" where "AFK \<equiv> Assertion ''mm/forkexit.c''"
abbreviation (input) AKP :: "nat \<Rightarrow> kfail" where "AKP \<equiv> Assertion ''kernel/proc.c''"
abbreviation (input) AEX :: "nat \<Rightarrow> kfail" where "AEX \<equiv> Assertion ''mm/exec.c''"

abbreviation (input) MMBUF :: u32 where "MMBUF \<equiv> 0x700000"
abbreviation (input) MMBUF_SIZE :: int where "MMBUF_SIZE \<equiv> 0x100000"
abbreviation (input) BOOT_PARAM_ADDR :: u32 where "BOOT_PARAM_ADDR \<equiv> 0x900"
abbreviation (input) BOOT_PARAM_MAGIC :: u32 where "BOOT_PARAM_MAGIC \<equiv> 0xB007"
abbreviation (input) BI_MAG :: u32 where "BI_MAG \<equiv> 0"
abbreviation (input) BI_MEM_SIZE :: u32 where "BI_MEM_SIZE \<equiv> 1"
abbreviation (input) BI_KERNEL_FILE :: u32 where "BI_KERNEL_FILE \<equiv> 2"
abbreviation (input) NAME_SIZE :: nat where "NAME_SIZE \<equiv> 16"
abbreviation (input) MAX_PATH :: "'a::numeral" where "MAX_PATH \<equiv> 128"

section \<open>State\<close>

record mm_state =
  mm_procs :: proctab
  mmem :: memory
  memory_size :: int
  mm_msg :: message
  mm_sent :: "(int \<times> message) list"
  mm_junk :: message

text \<open>
  \<open>send_recv(SEND, dest, m)\<close> of the task, with what \<open>sys_sendrec\<close> and \<open>msg_send\<close> ask of
  the flags of the destination: a destination that is marked as sending must name a
  process, because \<open>deadlock\<close> walks there; delivering clears \<open>RECEIVING\<close> only and asserts
  in \<open>unblock\<close> that no other flag is left; a destination with another flag that does not
  receive from the task never will, and the task waits for ever.
\<close>

definition mm_send :: "int \<Rightarrow> message \<Rightarrow> mm_state \<Rightarrow> mm_state kres" where
  "mm_send dest m s =
    ensure (0 \<le> dest \<and> dest < NPROC) (if dest = ANY \<or> dest = INTERRUPT then Bad_access ''proc_table'' else AKP 277) (
    ensure (dest \<noteq> TASK_MM) (AKP 285) (
    let d = mm_procs s (nat dest) in
    ensure (has_flag d SENDING \<longrightarrow> 0 \<le> p_sendto d \<and> p_sendto d < NPROC) (Bad_access ''proc_table'') (
    ensure (p_flags d AND NOT (SENDING OR RECEIVING) = 0)
      (if has_flag d RECEIVING \<and> (p_recvfrom d = TASK_MM \<or> p_recvfrom d = ANY) then AKP 186 else Hang)
      (Inr (s\<lparr>mm_sent := mm_sent s @ [(dest, m)]\<rparr>)))))"

definition upd_pcb :: "nat \<Rightarrow> (proc \<Rightarrow> proc) \<Rightarrow> mm_state \<Rightarrow> mm_state" where
  "upd_pcb i f s = s\<lparr>mm_procs := upd_proc i f (mm_procs s)\<rparr>"

section \<open>Memory\<close>

text \<open>
  \<open>get_boot_params\<close>, of \<open>kernel/klib.c\<close>: the parameters the loader left; \<open>elf_magic\<close> is
  \<open>ELFMAG\<close> of the system header \<open>elf.h\<close>.
\<close>

definition get_boot_params :: "u8 list \<Rightarrow> memory \<Rightarrow> (int \<times> u32) kres" where
  "get_boot_params elf_magic m =
    (let p = (\<lambda>i. ld32 m (BOOT_PARAM_ADDR + 4 * i)) in
     ensure (p BI_MAG = BOOT_PARAM_MAGIC) (Assertion ''kernel/klib.c'' 24) (
     ensure (map (\<lambda>j. m (p BI_KERNEL_FILE + of_nat j)) [0..<length elf_magic] = elf_magic) (Assertion ''kernel/klib.c'' 33) (
     Inr (sint (p BI_MEM_SIZE), p BI_KERNEL_FILE))))"

definition init_mm :: "u8 list \<Rightarrow> mm_state \<Rightarrow> mm_state kres" where
  "init_mm elf_magic s =
    rbind (get_boot_params elf_magic (mmem s)) (\<lambda>(mem_size, _). Inr (s\<lparr>memory_size := mem_size\<rparr>))"

definition alloc_mem :: "int \<Rightarrow> int \<Rightarrow> mm_state \<Rightarrow> int kres" where
  "alloc_mem pid memsize s =
    ensure (pid \<ge> NR_TASKS + NR_NATIVE_PROCS) (AMM 63) (
    if memsize > PROC_IMAGE_SIZE_DEFAULT then Inl (Panic ''unsupported memory request'')
    else
     (let base = PROCS_BASE + (pid - (NR_TASKS + NR_NATIVE_PROCS)) * PROC_IMAGE_SIZE_DEFAULT in
      if cint (base + memsize) \<ge> memory_size s then Inl (Panic ''memory allocation failed'')
      else Inr base))"

definition free_mem :: "int \<Rightarrow> int" where
  "free_mem pid = 0"

section \<open>Fork\<close>

text \<open>Base, limit and size of a segment, in the words of the code; line 71 takes the limit of the other segment.\<close>

definition seg_limit :: "descriptor \<Rightarrow> u32" where
  "seg_limit d = reassembly 0 0 (ucast (limit_high_attr2 d) AND 0xF) 16 (ucast (limit_low d))"

definition seg_size :: "u32 \<Rightarrow> descriptor \<Rightarrow> int" where
  "seg_size lim d = cint (sint (lim + 1) * (if (ucast (limit_high_attr2 d) :: u32) AND drop_bit 8 DA_LIMIT_4K \<noteq> 0 then 4096 else 1))"

text \<open>\<open>sprintf(p->p_name, ...)\<close>: the name and its terminating 0 must fit.\<close>

definition child_name :: "string \<Rightarrow> int \<Rightarrow> string kres" where
  "child_name name pid =
    rbind (vsprintf ''%s_%d'' [VStr name, VInt pid]) (\<lambda>n. ensure (length n < NAME_SIZE) (Bad_access ''p_name'') (Inr n))"

text \<open>The two descriptors of a process image at \<open>base\<close>.\<close>

definition image_ldts :: "u32 \<Rightarrow> (nat \<Rightarrow> descriptor) \<Rightarrow> nat \<Rightarrow> descriptor" where
  "image_ldts base l = l(
     INDEX_LDT_C := init_descriptor base (drop_bit LIMIT_4K_SHIFT (PROC_IMAGE_SIZE_DEFAULT - 1))
       (DA_LIMIT_4K OR DA_32 OR DA_C OR push_bit 5 3),
     INDEX_LDT_RW := init_descriptor base (drop_bit LIMIT_4K_SHIFT (PROC_IMAGE_SIZE_DEFAULT - 1))
       (DA_LIMIT_4K OR DA_32 OR DA_DRW OR push_bit 5 3))"

definition do_fork :: "mm_state \<Rightarrow> (int \<times> mm_state) kres" where
  "do_fork s =
    (case find (\<lambda>i. p_flags (mm_procs s i) = FREE_SLOT) [0..<NPROC] of
       None \<Rightarrow> Inr (-1, s)
     | Some child \<Rightarrow>
        ensure (NR_TASKS + NR_NATIVE_PROCS \<le> child) (AFK 28) (
        let pid = nat (source (mm_msg s)); parent = mm_procs s pid in
        rbind (child_name (p_name parent) (int child)) (\<lambda>name.
        let c = parent\<lparr>ldt_sel := ldt_sel (mm_procs s child), p_parent := int pid, p_name := name\<rparr>;
            t = ldts parent INDEX_LDT_C; d = ldts parent INDEX_LDT_RW;
            t_base = reassembly (ucast (base_high t)) 24 (ucast (base_mid t)) 16 (ucast (base_low t));
            d_base = reassembly (ucast (base_high d)) 24 (ucast (base_mid d)) 16 (ucast (base_low d));
            t_size = seg_size (seg_limit t) t; d_size = seg_size (seg_limit t) d in
        ensure (t_base = d_base \<and> seg_limit t = seg_limit d \<and> t_size = d_size) (AFK 76) (
        rbind (alloc_mem (int child) t_size s) (\<lambda>base.
        let b = word_of_int base in
        ensure (0 \<le> t_size) (Bad_access ''phys_copy'') (
        let s1 = s\<lparr>mm_procs := (mm_procs s)(child := c\<lparr>ldts := image_ldts b (ldts c)\<rparr>),
                   mmem := memcpy (mmem s) b t_base (nat t_size)\<rparr> in
        rbind (mm_send TASK_FS ((mm_junk s)\<lparr>msgtype := FORK, m3i2 := int child\<rparr>) s1) (\<lambda>s2.
        let s3 = s2\<lparr>mm_msg := (mm_msg s2)\<lparr>m3i2 := int child\<rparr>\<rparr> in
        rbind (mm_send (int child) ((mm_junk s)\<lparr>msgtype := SYSCALL_RET, m3i1 := 0, m3i2 := 0\<rparr>) s3) (\<lambda>s4.
        Inr (0, s4)))))))))"

section \<open>Exit and wait\<close>

text \<open>\<open>cleanup\<close>: the parent gets the pid and the status of its child, the slot is free again.\<close>

definition cleanup_msg :: "nat \<Rightarrow> mm_state \<Rightarrow> message" where
  "cleanup_msg i s = (mm_junk s)\<lparr>msgtype := SYSCALL_RET, m3i2 := int i, m3i1 := exit_status (mm_procs s i)\<rparr>"

definition cleanup :: "nat \<Rightarrow> mm_state \<Rightarrow> mm_state kres" where
  "cleanup i s =
    rbind (mm_send (p_parent (mm_procs s i)) (cleanup_msg i s) s) (\<lambda>s1. Inr (upd_pcb i (\<lambda>p. p\<lparr>p_flags := FREE_SLOT\<rparr>) s1))"

text \<open>
  The loop over the children of a process that exits.  Line 135 assigns \<open>~WAITING\<close> to
  the flags of \<open>INIT\<close>, where line 124 clears the one bit.
\<close>

fun orphan_loop :: "int \<Rightarrow> nat \<Rightarrow> nat \<Rightarrow> mm_state \<Rightarrow> mm_state kres" where
  "orphan_loop pid 0 i s = Inr s"
| "orphan_loop pid (Suc n) i s =
    (if p_parent (mm_procs s i) = pid then
       (let s1 = upd_pcb i (\<lambda>p. p\<lparr>p_parent := INIT\<rparr>) s in
        if has_flag (mm_procs s1 INIT) WAITING \<and> has_flag (mm_procs s1 i) HANGING
        then rbind (cleanup i (upd_pcb INIT (\<lambda>p. p\<lparr>p_flags := NOT WAITING\<rparr>) s1)) (orphan_loop pid n (Suc i))
        else orphan_loop pid n (Suc i) s1)
     else orphan_loop pid n (Suc i) s)"

definition do_exit :: "int \<Rightarrow> mm_state \<Rightarrow> mm_state kres" where
  "do_exit status s =
    (let pid = nat (source (mm_msg s)); parent = p_parent (mm_procs s pid) in
     rbind (mm_send TASK_FS ((mm_junk s)\<lparr>msgtype := EXIT, m3i2 := int pid\<rparr>) s) (\<lambda>s1.
     let s2 = upd_pcb pid (\<lambda>p. p\<lparr>exit_status := status\<rparr>) s1 in
     ensure (0 \<le> parent \<and> parent < NPROC) (Bad_access ''proc_table'') (
     rbind (if has_flag (mm_procs s2 (nat parent)) WAITING
            then cleanup pid (upd_pcb (nat parent) (\<lambda>p. p\<lparr>p_flags := p_flags p AND NOT WAITING\<rparr>) s2)
            else Inr (upd_pcb pid (\<lambda>p. p\<lparr>p_flags := p_flags p OR HANGING\<rparr>) s2)) (\<lambda>s3.
     orphan_loop (int pid) NPROC 0 s3))))"

definition do_wait :: "mm_state \<Rightarrow> mm_state kres" where
  "do_wait s =
    (let pid = nat (source (mm_msg s));
         mine = (\<lambda>i. p_parent (mm_procs s i) = int pid) in
     case find (\<lambda>i. mine i \<and> has_flag (mm_procs s i) HANGING) [0..<NPROC] of
       Some i \<Rightarrow> cleanup i s
     | None \<Rightarrow>
        if (\<exists>i \<in> set [0..<NPROC]. mine i)
        then Inr (upd_pcb pid (\<lambda>p. p\<lparr>p_flags := p_flags p OR WAITING\<rparr>) s)
        else mm_send (int pid) ((mm_junk s)\<lparr>msgtype := SYSCALL_RET, m3i2 := NO_TASK\<rparr>) s)"

section \<open>Exec\<close>

text \<open>
  A program header and the accesses to an ELF file at \<open>mmbuf\<close>: the structures come
  from the system header \<open>elf.h\<close>, so how they read memory is a parameter.
\<close>

record phdr =
  p_load :: bool
  p_offset :: u32
  p_vaddr :: u32
  p_filesz :: u32
  p_memsz :: u32

record elf_reader =
  e_phnum :: "memory \<Rightarrow> nat"
  e_phdr :: "memory \<Rightarrow> nat \<Rightarrow> phdr"
  e_entry :: "memory \<Rightarrow> u32"

text \<open>The answers of the file system to \<open>stat\<close>, \<open>open\<close> and \<open>read\<close>.\<close>

record exec_answers =
  stat_ret :: int
  stat_size :: int
  open_ret :: int
  read_data :: "nat \<Rightarrow> u8"

text \<open>The loop over the program headers; \<open>e_phnum\<close> has 16 bits, so \<open>n\<close> is at most 65535.\<close>

fun load_loop :: "elf_reader \<Rightarrow> proctab \<Rightarrow> nat \<Rightarrow> nat \<Rightarrow> nat \<Rightarrow> memory \<Rightarrow> memory kres" where
  "load_loop elf pt src 0 i m = Inr m"
| "load_loop elf pt src (Suc n) i m =
    (if i < e_phnum elf m then
       (let h = e_phdr elf m i in
        if p_load h then
          ensure (p_vaddr h + p_memsz h < PROC_IMAGE_SIZE_DEFAULT) (AEX 45) (
          rbind (va2la pt src (p_vaddr h)) (\<lambda>dst.
          rbind (va2la pt TASK_MM (MMBUF + p_offset h)) (\<lambda>from.
          load_loop elf pt src n (Suc i) (memcpy m dst from (unat (p_filesz h))))))
        else load_loop elf pt src n (Suc i) m)
     else Inr m)"

text \<open>
  The relocation of the argument vector in the local array \<open>stackcopy\<close>, here a memory
  of its own from address 0 on: words are added \<open>delta\<close> up to the word 0; \<open>n\<close> bounds the
  words that lie in the array.
\<close>

fun relocate :: "u32 \<Rightarrow> nat \<Rightarrow> nat \<Rightarrow> memory \<Rightarrow> (int \<times> memory) kres" where
  "relocate delta 0 k st = Inl (Bad_access ''stackcopy'')"
| "relocate delta (Suc n) k st =
    (let q = of_nat (4 * k); w = ld32 st q in
     if w \<noteq> 0 then relocate delta n (Suc k) (st32 st q (w + delta)) else Inr (int k, st))"

abbreviation (input) ORIG_STACK :: u32 where "ORIG_STACK \<equiv> PROC_IMAGE_SIZE_DEFAULT - PROC_ORIGIN_STACK"

text \<open>\<open>cpy dst d src s n\<close>: a copy between two address spaces.\<close>

definition cpy :: "memory \<Rightarrow> u32 \<Rightarrow> memory \<Rightarrow> u32 \<Rightarrow> nat \<Rightarrow> memory" where
  "cpy dst d src s n = (\<lambda>a. if unat (a - d) < n then src (s + (a - d)) else dst a)"

text \<open>The argument stack: fetched, relocated and put into place.\<close>

definition exec_stack :: "memory \<Rightarrow> proctab \<Rightarrow> nat \<Rightarrow> u32 \<Rightarrow> int \<Rightarrow> memory \<Rightarrow> (int \<times> memory) kres" where
  "exec_stack junk pt src buf len m =
    ensure (0 \<le> len \<and> len \<le> PROC_ORIGIN_STACK) (Bad_access ''stackcopy'') (
    rbind (va2la pt src buf) (\<lambda>la.
    rbind (if len \<noteq> 0 then relocate (ORIG_STACK - buf) (PROC_ORIGIN_STACK div 4) 0 (cpy junk 0 m la (nat len))
           else Inr (0, junk)) (\<lambda>(argc, st).
    rbind (va2la pt src ORIG_STACK) (\<lambda>orig.
    Inr (argc, cpy m orig st 0 (nat len))))))"

definition exec_regs :: "int \<Rightarrow> u32 \<Rightarrow> stackframe \<Rightarrow> stackframe" where
  "exec_regs argc entry r = r\<lparr>ecx := word_of_int argc, eax := ORIG_STACK, eip := entry, esp := ORIG_STACK\<rparr>"

definition exec_path :: "mm_state \<Rightarrow> string kres" where
  "exec_path s =
    (let name_len = m3i2 (mm_msg s); src = nat (source (mm_msg s)) in
     ensure (name_len < MAX_PATH) (AEX 18) (
     ensure (0 \<le> name_len) (Bad_access ''phys_copy'') (
     rbind (va2la (mm_procs s) src (m3p1 (mm_msg s))) (\<lambda>la.
     Inr (takeWhile (\<lambda>c. c \<noteq> CHR 0x00) (map (\<lambda>j. char_of (unat (mmem s (la + of_nat j)))) [0..<nat name_len]))))))"

definition do_exec :: "elf_reader \<Rightarrow> (string \<Rightarrow> exec_answers) \<Rightarrow> memory \<Rightarrow> mm_state \<Rightarrow> (int \<times> mm_state) kres" where
  "do_exec elf answers junk s =
    rbind (exec_path s) (\<lambda>pathname.
    let src = nat (source (mm_msg s)); a = answers pathname; pt = mm_procs s; msg = mm_msg s in
    if stat_ret a \<noteq> 0 then Inr (-1, s)
    else if open_ret a = -1 then Inr (-1, s)
    else
     ensure (stat_size a < MMBUF_SIZE) (AEX 35) (
     let m1 = cpy (mmem s) MMBUF (\<lambda>x. read_data a (unat x)) 0 (nat (stat_size a)) in
     rbind (load_loop elf pt src 65535 0 m1) (\<lambda>m2.
     rbind (exec_stack junk pt src (m3p2 msg) (m3i3 msg) m2) (\<lambda>(argc, m3).
     ensure (length pathname < NAME_SIZE) (Bad_access ''p_name'') (
     Inr (0, upd_pcb src (\<lambda>p. p\<lparr>regs := exec_regs argc (e_entry elf m3) (regs p), p_name := pathname\<rparr>)
       (s\<lparr>mmem := m3\<rparr>)))))))"

section \<open>The task\<close>

definition task_mm_step :: "elf_reader \<Rightarrow> (string \<Rightarrow> exec_answers) \<Rightarrow> memory \<Rightarrow> message \<Rightarrow> mm_state \<Rightarrow> mm_state kres" where
  "task_mm_step elf answers junk msg s0 =
    (let s = s0\<lparr>mm_msg := msg\<rparr>; src = source msg; t = msgtype msg;
         reply = (\<lambda>(r, s1). let m = (mm_msg s1)\<lparr>m3i1 := r, msgtype := SYSCALL_RET\<rparr> in
            mm_send src m (s1\<lparr>mm_msg := m\<rparr>)) in
     if t = FORK then rbind (do_fork s) reply
     else if t = EXIT then do_exit (m3i1 msg) s
     else if t = WAIT then do_wait s
     else if t = EXEC then rbind (do_exec elf answers junk s) reply
     else Inl (AMM 44))"

end
