(* ===== verification/MmFork.thy ===== *)
theory MmFork
  imports Mm
begin

unbundle bit_operations_syntax

text \<open>
  Lemmas on the memory manager: the images of processes, fork, and the states of
  exiting and waiting processes.
\<close>

section \<open>The name of a child\<close>

lemma child_name_eq:
  "0 \<le> pid \<Longrightarrow> length name < STR_DEFAULT_LEN \<Longrightarrow> child_name name pid =
    (if length name + 1 + length (i2a pid 10) < NAME_SIZE then Inr (name @ ''_'' @ i2a pid 10) else Inl (Bad_access ''p_name''))"
  by (simp add: child_name_def vsprintf_s vsprintf_cons vsprintf_d vsprintf_plain)

section \<open>Images\<close>

definition image_base :: "int \<Rightarrow> int" where
  "image_base pid = PROCS_BASE + (pid - (NR_TASKS + NR_NATIVE_PROCS)) * PROC_IMAGE_SIZE_DEFAULT"

lemma alloc_mem_Inr:
  assumes "alloc_mem pid n s = Inr b" and "pid < NPROC" and "0 \<le> n"
  shows "b = image_base pid" "9 \<le> pid" "n \<le> PROC_IMAGE_SIZE_DEFAULT" "b + n < memory_size s" "PROCS_BASE \<le> b"
    "b + PROC_IMAGE_SIZE_DEFAULT \<le> 2 ^ 26"
proof -
  have p: "9 \<le> pid" "n \<le> 0x100000" "b = image_base pid" "cint (b + n) < memory_size s"
    using assms(1) by (auto simp: alloc_mem_def image_base_def Let_def split: if_splits)
  then have b: "PROCS_BASE \<le> b" "b + 0x100000 \<le> 2 ^ 26" using assms(2) by (simp_all add: image_base_def)
  then have "cint (b + n) = b + n" using p(2) assms(3) by (intro cint_small) simp_all
  then show "b = image_base pid" "9 \<le> pid" "n \<le> PROC_IMAGE_SIZE_DEFAULT" "b + n < memory_size s" "PROCS_BASE \<le> b"
    "b + PROC_IMAGE_SIZE_DEFAULT \<le> 2 ^ 26"
    using p b by simp_all
qed

lemma alloc_mem_eq:
  assumes "9 \<le> pid" and "pid < NPROC" and "0 \<le> n" and "n \<le> PROC_IMAGE_SIZE_DEFAULT"
    and "image_base pid + n < memory_size s"
  shows "alloc_mem pid n s = Inr (image_base pid)"
proof -
  have "cint (image_base pid + n) = image_base pid + n"
    using assms by (intro cint_small) (simp_all add: image_base_def)
  then show ?thesis using assms by (simp add: alloc_mem_def image_base_def Let_def)
qed

section \<open>Fields\<close>

lemma mm_simps [simp]:
  "mm_procs (upd_pcb i f s) = upd_proc i f (mm_procs s)" "mmem (upd_pcb i f s) = mmem s"
  "mm_sent (upd_pcb i f s) = mm_sent s" "mm_msg (upd_pcb i f s) = mm_msg s" "mm_junk (upd_pcb i f s) = mm_junk s"
  "memory_size (upd_pcb i f s) = memory_size s"
  by (simp_all add: upd_pcb_def)

text \<open>A process that can be sent to: no flag but those of message passing is set.\<close>

definition hears :: "u32 \<Rightarrow> int \<Rightarrow> bool" where
  "hears flags sendto \<longleftrightarrow> flags AND NOT (SENDING OR RECEIVING) = 0 \<and> (flags AND SENDING \<noteq> 0 \<longrightarrow> 0 \<le> sendto \<and> sendto < NPROC)"

abbreviation (input) listens :: "proc \<Rightarrow> bool" where
  "listens p \<equiv> hears (p_flags p) (p_sendto p)"

lemma mm_send_eq:
  assumes "d < NPROC" and "d \<noteq> TASK_MM" and "listens (mm_procs s d)"
  shows "mm_send (int d) m s = Inr (s\<lparr>mm_sent := mm_sent s @ [(int d, m)]\<rparr>)"
  using assms by (auto simp: mm_send_def Let_def hears_def has_flag_def)

lemma mm_send_deaf: "p_flags (mm_procs s (nat dest)) AND NOT (SENDING OR RECEIVING) \<noteq> 0 \<Longrightarrow> \<exists>e. mm_send dest m s = Inl e"
  by (simp add: mm_send_def Let_def)

lemma cleanup_eq:
  assumes "p_parent (mm_procs s i) = int par" and "par < NPROC" and "par \<noteq> TASK_MM" and "listens (mm_procs s par)"
  shows "cleanup i s = Inr (upd_pcb i (\<lambda>p. p\<lparr>p_flags := FREE_SLOT\<rparr>) (s\<lparr>mm_sent := mm_sent s @ [(int par, cleanup_msg i s)]\<rparr>))"
  using mm_send_eq [OF assms(2-4)] by (simp add: cleanup_def assms(1))

text \<open>Reading a flag after it was set or cleared; \<open>- 9\<close> is \<open>NOT WAITING\<close>.\<close>

lemma flag_bits [simp]:
  fixes x :: u32
  shows "(x AND (- 9)) AND 8 = 0" and "(x AND (- 9)) AND 16 = x AND 16" and "(x OR 16) AND 16 = 16"
    and "(x OR 16) AND 8 = x AND 8" and "(x OR 8) AND 8 = 8" and "(x OR 8) AND 16 = x AND 16"
  by (simp_all add: and.assoc bit.conj_disj_distrib2 word_ao_absorbs)

lemma and_not_off: "x AND a = 0 \<Longrightarrow> x AND NOT a = x" for x a :: u32
  by (auto simp: bit_eq_iff bit_simps)

lemma has_flag_simps [simp]:
  "has_flag (p\<lparr>p_flags := x\<rparr>) f = (x AND f \<noteq> 0)" "has_flag (p\<lparr>p_parent := y\<rparr>) f = has_flag p f"
  "has_flag (p\<lparr>exit_status := z\<rparr>) f = has_flag p f"
  by (simp_all add: has_flag_def)

lemma flag_off: "\<not> has_flag p WAITING \<Longrightarrow> p_flags p AND NOT WAITING = p_flags p"
  unfolding has_flag_def by (rule and_not_off) simp

section \<open>Nobody waits for a child that is already there\<close>

definition zombies_ok :: "proctab \<Rightarrow> bool" where
  "zombies_ok pt \<longleftrightarrow> (\<forall>i < NPROC. has_flag (pt i) HANGING \<longrightarrow>
     (\<forall>j < NPROC. p_parent (pt i) = int j \<longrightarrow> \<not> has_flag (pt j) WAITING))"

lemma zombies_okD: "zombies_ok pt \<Longrightarrow> i < NPROC \<Longrightarrow> j < NPROC \<Longrightarrow> has_flag (pt i) HANGING \<Longrightarrow> p_parent (pt i) = int j \<Longrightarrow>
   \<not> has_flag (pt j) WAITING"
  by (simp add: zombies_ok_def)

lemma zombies_okI:
  "(\<And>i j. i < NPROC \<Longrightarrow> j < NPROC \<Longrightarrow> has_flag (pt i) HANGING \<Longrightarrow> p_parent (pt i) = int j \<Longrightarrow> has_flag (pt j) WAITING \<Longrightarrow> False) \<Longrightarrow>
   zombies_ok pt"
  by (auto simp: zombies_ok_def)

text \<open>The three answers of \<open>do_wait\<close>, to a process that can be answered.\<close>

lemma do_wait_cases:
  assumes "nat (source (mm_msg s)) = pid" and "pid < NPROC" "pid \<noteq> TASK_MM" "listens (mm_procs s pid)"
  obtains (child) i where "i < NPROC" and "p_parent (mm_procs s i) = int pid" and "has_flag (mm_procs s i) HANGING"
      and "\<forall>j < i. \<not> (p_parent (mm_procs s j) = int pid \<and> has_flag (mm_procs s j) HANGING)"
      and "do_wait s = Inr (upd_pcb i (\<lambda>p. p\<lparr>p_flags := FREE_SLOT\<rparr>) (s\<lparr>mm_sent := mm_sent s @ [(int pid, cleanup_msg i s)]\<rparr>))"
    | (block) "\<exists>i < NPROC. p_parent (mm_procs s i) = int pid"
      and "\<forall>i < NPROC. \<not> (p_parent (mm_procs s i) = int pid \<and> has_flag (mm_procs s i) HANGING)"
      and "do_wait s = Inr (upd_pcb pid (\<lambda>p. p\<lparr>p_flags := p_flags p OR WAITING\<rparr>) s)"
    | (none) "\<forall>i < NPROC. p_parent (mm_procs s i) \<noteq> int pid"
      and "do_wait s = Inr (s\<lparr>mm_sent := mm_sent s @ [(int pid, (mm_junk s)\<lparr>msgtype := SYSCALL_RET, m3i2 := NO_TASK\<rparr>)]\<rparr>)"
proof -
  let ?P = "\<lambda>i. p_parent (mm_procs s i) = int pid \<and> has_flag (mm_procs s i) HANGING"
  have w: "do_wait s = (case find ?P [0..<NPROC] of Some i \<Rightarrow> cleanup i s
     | None \<Rightarrow> if \<exists>i < NPROC. p_parent (mm_procs s i) = int pid
        then Inr (upd_pcb pid (\<lambda>p. p\<lparr>p_flags := p_flags p OR WAITING\<rparr>) s)
        else mm_send (int pid) ((mm_junk s)\<lparr>msgtype := SYSCALL_RET, m3i2 := NO_TASK\<rparr>) s)"
    unfolding do_wait_def Let_def assms(1) by (simp add: Bex_def atLeast0LessThan cong: option.case_cong)
  show thesis
  proof (cases "find ?P [0..<NPROC]")
    case (Some i)
    from find_upt [THEN iffD1, OF this] show thesis using child [of i] w Some cleanup_eq [of s i pid] assms(2-4) by simp
  next
    case None
    from find_upt_None [THEN iffD1, OF this] show thesis
      using block none w None mm_send_eq [OF assms(2-4)] by (auto split: if_splits)
  qed
qed

lemma do_wait_zombies:
  assumes "nat (source (mm_msg s)) = pid" and "pid < NPROC" "pid \<noteq> TASK_MM" "listens (mm_procs s pid)" and z: "zombies_ok (mm_procs s)"
  shows "\<exists>s'. do_wait s = Inr s' \<and> zombies_ok (mm_procs s')"
proof (cases rule: do_wait_cases [OF assms(1-4)])
  case (1 i)
  then show ?thesis using z by (simp add: zombies_ok_def upd_proc_apply)
next
  case 2
  let ?pt = "upd_proc pid (\<lambda>p. p\<lparr>p_flags := p_flags p OR WAITING\<rparr>) (mm_procs s)"
  have "zombies_ok ?pt"
  proof (rule zombies_okI)
    fix i j
    assume h: "i < NPROC" "j < NPROC" "has_flag (?pt i) HANGING" "p_parent (?pt i) = int j" "has_flag (?pt j) WAITING"
    have i: "has_flag (mm_procs s i) HANGING" "p_parent (mm_procs s i) = int j"
      using h(3,4) by (auto simp: upd_proc_apply has_flag_def split: if_splits)
    then have "j \<noteq> pid" using 2(2) h(1) by auto
    then have "has_flag (mm_procs s j) WAITING" using h(5) by (simp add: upd_proc_apply)
    then show False using zombies_okD [OF z h(1,2) i] by simp
  qed
  then show ?thesis using 2(3) by simp
next
  case 3
  then show ?thesis using z by simp
qed

section \<open>Exit\<close>

text \<open>What the loop over the orphans makes of the table, when \<open>INIT\<close> need not be told of any.\<close>

definition adopted :: "int \<Rightarrow> nat \<Rightarrow> nat \<Rightarrow> proctab \<Rightarrow> proctab" where
  "adopted pid i n pt = (\<lambda>j. if i \<le> j \<and> j < i + n \<and> p_parent (pt j) = pid then (pt j)\<lparr>p_parent := INIT\<rparr> else pt j)"

definition told_init :: "int \<Rightarrow> nat \<Rightarrow> nat \<Rightarrow> proctab \<Rightarrow> bool" where
  "told_init pid i n pt \<longleftrightarrow> has_flag (pt INIT) WAITING \<and>
     (\<exists>j. i \<le> j \<and> j < i + n \<and> p_parent (pt j) = pid \<and> has_flag (pt j) HANGING)"

lemma adopted_0: "adopted pid i 0 pt = pt"
  by (rule ext) (auto simp: adopted_def)

lemma adopted_Suc:
  "pid \<noteq> INIT \<Longrightarrow> adopted pid i (Suc n) pt =
   adopted pid (Suc i) n (if p_parent (pt i) = pid then upd_proc i (\<lambda>p. p\<lparr>p_parent := INIT\<rparr>) pt else pt)"
  by (rule ext) (auto simp: adopted_def upd_proc_apply)

lemma told_init_Suc:
  assumes "pid \<noteq> INIT" and "p_parent (pt INIT) \<noteq> pid"
  shows "told_init pid i (Suc n) pt \<longleftrightarrow> has_flag (pt INIT) WAITING \<and> p_parent (pt i) = pid \<and> has_flag (pt i) HANGING \<or>
    told_init pid (Suc i) n (if p_parent (pt i) = pid then upd_proc i (\<lambda>p. p\<lparr>p_parent := INIT\<rparr>) pt else pt)"
proof -
  have ex: "(\<exists>j. i \<le> j \<and> j < i + Suc n \<and> P j) \<longleftrightarrow> P i \<or> (\<exists>j. Suc i \<le> j \<and> j < Suc i + n \<and> P j)" for P
    by (metis Suc_leD Suc_leI add_Suc add_Suc_right le_eq_less_or_eq less_add_Suc1)
  have i: "i \<noteq> INIT" if "p_parent (pt i) = pid" using that assms(2) by auto
  show ?thesis unfolding told_init_def ex using i by (auto simp: upd_proc_apply)
qed

text \<open>\<open>INIT\<close> with the flags \<open>~WAITING\<close> cannot be sent to.\<close>

lemma cleanup_init_stops: "p_parent (mm_procs s i) = INIT \<Longrightarrow> p_flags (mm_procs s INIT) = NOT WAITING \<Longrightarrow> \<exists>e. cleanup i s = Inl e"
  using mm_send_deaf [of s INIT "cleanup_msg i s"] by (auto simp: cleanup_def)

lemma orphans:
  assumes "pid \<noteq> INIT"
  shows "p_parent (mm_procs s INIT) \<noteq> pid \<Longrightarrow>
    if told_init pid i n (mm_procs s) then \<exists>e. orphan_loop pid n i s = Inl e
    else orphan_loop pid n i s = Inr (s\<lparr>mm_procs := adopted pid i n (mm_procs s)\<rparr>)"
proof (induction n arbitrary: i s)
  case 0
  then show ?case by (simp add: told_init_def adopted_0)
next
  case (Suc n)
  note told = told_init_Suc [where pt = "mm_procs s", OF assms Suc.prems, of i n]
  let ?s1 = "upd_pcb i (\<lambda>p. p\<lparr>p_parent := INIT\<rparr>) s"
  show ?case
  proof (cases "p_parent (mm_procs s i) = pid")
    case False
    then show ?thesis using Suc.IH [OF Suc.prems, of "Suc i"] told adopted_Suc [OF assms, of i n "mm_procs s"] by simp
  next
    case True
    then have i: "i \<noteq> INIT" using Suc.prems by auto
    have flags: "has_flag (mm_procs ?s1 INIT) WAITING = has_flag (mm_procs s INIT) WAITING"
      "has_flag (mm_procs ?s1 i) HANGING = has_flag (mm_procs s i) HANGING"
      using i by (simp_all add: upd_proc_apply)
    show ?thesis
    proof (cases "has_flag (mm_procs s INIT) WAITING \<and> has_flag (mm_procs s i) HANGING")
      case wait: True
      let ?s2 = "upd_pcb INIT (\<lambda>p. p\<lparr>p_flags := NOT WAITING\<rparr>) ?s1"
      have "\<exists>e. cleanup i ?s2 = Inl e"
        using i by (intro cleanup_init_stops) (simp_all add: upd_proc_apply)
      then have "\<exists>e. orphan_loop pid (Suc n) i s = Inl e"
        using True wait flags by (auto simp: Let_def)
      then show ?thesis using told True wait by simp
    next
      case calm: False
      then have "orphan_loop pid (Suc n) i s = orphan_loop pid n (Suc i) ?s1"
        using True flags by (simp add: Let_def del: mm_simps) blast
      moreover have "p_parent (mm_procs ?s1 INIT) \<noteq> pid" using Suc.prems i by (simp add: upd_proc_apply)
      note IH = Suc.IH [OF this, of "Suc i"]
      have t: "told_init pid i (Suc n) (mm_procs s) = told_init pid (Suc i) n (mm_procs ?s1)" using told True calm by simp
      have ad: "s\<lparr>mm_procs := adopted pid i (Suc n) (mm_procs s)\<rparr> = ?s1\<lparr>mm_procs := adopted pid (Suc i) n (mm_procs ?s1)\<rparr>"
        using True adopted_Suc [OF assms, of i n "mm_procs s"] by (simp add: upd_pcb_def)
      ultimately show ?thesis using IH unfolding t ad by presburger
    qed
  qed
qed

text \<open>
  A process that can exit: its parent is another process of the table and, once it no
  longer waits, can be sent to, as can the file system.
\<close>

definition may_exit :: "proctab \<Rightarrow> nat \<Rightarrow> nat \<Rightarrow> bool" where
  "may_exit pt pid par \<longleftrightarrow> pid < NPROC \<and> pid \<noteq> INIT \<and> par < NPROC \<and> par \<noteq> pid \<and> par \<noteq> TASK_MM \<and> p_parent (pt pid) = int par \<and>
     p_parent (pt INIT) \<noteq> int pid \<and> \<not> has_flag (pt pid) HANGING \<and> \<not> has_flag (pt pid) WAITING \<and>
     listens (pt TASK_FS) \<and> pid \<noteq> TASK_FS \<and> hears (p_flags (pt par) AND NOT WAITING) (p_sendto (pt par))"

text \<open>The table after an exit.\<close>

definition exited :: "int \<Rightarrow> nat \<Rightarrow> nat \<Rightarrow> proctab \<Rightarrow> proctab" where
  "exited status pid par pt =
    (let w = has_flag (pt par) WAITING;
         dead = (pt pid)\<lparr>exit_status := status, p_flags := (if w then FREE_SLOT else p_flags (pt pid) OR HANGING)\<rparr>;
         woken = (if w then (pt par)\<lparr>p_flags := p_flags (pt par) AND NOT WAITING\<rparr> else pt par) in
     adopted (int pid) 0 NPROC (pt(pid := dead, par := woken)))"

definition exit_msgs :: "int \<Rightarrow> nat \<Rightarrow> nat \<Rightarrow> mm_state \<Rightarrow> (int \<times> message) list" where
  "exit_msgs status pid par s = (TASK_FS, (mm_junk s)\<lparr>msgtype := EXIT, m3i2 := int pid\<rparr>) #
     (if has_flag (mm_procs s par) WAITING
      then [(int par, (mm_junk s)\<lparr>msgtype := SYSCALL_RET, m3i2 := int pid, m3i1 := status\<rparr>)] else [])"

text \<open>\<open>INIT\<close> waits, is not the parent, and the process has a child that is hanging.\<close>

definition init_in_way :: "proctab \<Rightarrow> nat \<Rightarrow> nat \<Rightarrow> bool" where
  "init_in_way pt pid par \<longleftrightarrow> par \<noteq> INIT \<and> has_flag (pt INIT) WAITING \<and>
     (\<exists>j < NPROC. p_parent (pt j) = int pid \<and> has_flag (pt j) HANGING)"

lemma do_exit_eq:
  assumes me: "may_exit (mm_procs s) pid par" and src: "nat (source (mm_msg s)) = pid"
  shows "if init_in_way (mm_procs s) pid par then \<exists>e. do_exit status s = Inl e
    else do_exit status s = Inr (s\<lparr>mm_procs := exited status pid par (mm_procs s), mm_sent := mm_sent s @ exit_msgs status pid par s\<rparr>)"
proof -
  let ?pt = "mm_procs s" and ?w = "has_flag (mm_procs s par) WAITING"
  have m: "pid < NPROC" "pid \<noteq> INIT" "par < NPROC" "par \<noteq> pid" "par \<noteq> TASK_MM" "p_parent (?pt pid) = int par"
    "p_parent (?pt INIT) \<noteq> int pid" "\<not> has_flag (?pt pid) HANGING" "\<not> has_flag (?pt pid) WAITING"
    "listens (?pt TASK_FS)" "pid \<noteq> TASK_FS" "hears (p_flags (?pt par) AND NOT WAITING) (p_sendto (?pt par))"
    using me by (simp_all add: may_exit_def)
  define s1 where "s1 = s\<lparr>mm_sent := mm_sent s @ [(TASK_FS, (mm_junk s)\<lparr>msgtype := EXIT, m3i2 := int pid\<rparr>)]\<rparr>"
  have s1: "mm_send TASK_FS ((mm_junk s)\<lparr>msgtype := EXIT, m3i2 := int pid\<rparr>) s = Inr s1"
    using mm_send_eq [of TASK_FS s] m(10) by (simp add: s1_def)
  define s2 where "s2 = upd_pcb pid (\<lambda>p. p\<lparr>exit_status := status\<rparr>) s1"
  define dead where "dead = (?pt pid)\<lparr>exit_status := status, p_flags := (if ?w then FREE_SLOT else p_flags (?pt pid) OR HANGING)\<rparr>"
  define pt3 where "pt3 = ?pt(pid := dead, par := if ?w then (?pt par)\<lparr>p_flags := p_flags (?pt par) AND NOT WAITING\<rparr> else ?pt par)"
  define s3 where "s3 = s\<lparr>mm_procs := pt3, mm_sent := mm_sent s @ exit_msgs status pid par s\<rparr>"
  have same: "has_flag (mm_procs s2 par) WAITING = ?w" using m(4) by (simp add: s2_def s1_def upd_proc_apply)
  have step: "(if has_flag (mm_procs s2 par) WAITING
      then cleanup pid (upd_pcb par (\<lambda>p. p\<lparr>p_flags := p_flags p AND NOT WAITING\<rparr>) s2)
      else Inr (upd_pcb pid (\<lambda>p. p\<lparr>p_flags := p_flags p OR HANGING\<rparr>) s2)) = Inr s3"
  proof (cases ?w)
    case True
    let ?s = "upd_pcb par (\<lambda>p. p\<lparr>p_flags := p_flags p AND NOT WAITING\<rparr>) s2"
    have "cleanup pid ?s = Inr (upd_pcb pid (\<lambda>p. p\<lparr>p_flags := FREE_SLOT\<rparr>) (?s\<lparr>mm_sent := mm_sent ?s @ [(int par, cleanup_msg pid ?s)]\<rparr>))"
      using m(3-6,12) by (intro cleanup_eq) (simp_all add: s2_def s1_def upd_proc_apply)
    also have "\<dots> = Inr s3"
      using True m(4) by (simp add: s3_def s2_def s1_def upd_pcb_def exit_msgs_def cleanup_msg_def pt3_def dead_def upd_proc_def fun_upd_twist)
    finally show ?thesis using True same by simp
  next
    case False
    have "upd_pcb pid (\<lambda>p. p\<lparr>p_flags := p_flags p OR HANGING\<rparr>) s2 = s3"
      using False m(4) by (simp add: s3_def s2_def s1_def upd_pcb_def exit_msgs_def pt3_def dead_def upd_proc_def fun_upd_twist)
    then show ?thesis using False same by simp
  qed
  have rng: "(0 \<le> int par \<and> int par < NPROC) = True" using m(3) by simp
  have e: "do_exit status s = orphan_loop (int pid) NPROC 0 s3"
    unfolding do_exit_def Let_def src s1 m(6) nat_int sum.case s2_def [symmetric] rng step if_True ..
  have pp: "p_parent (mm_procs s3 j) = p_parent (?pt j)" for j by (simp add: s3_def pt3_def dead_def)
  have told: "told_init (int pid) 0 NPROC (mm_procs s3) \<longleftrightarrow> init_in_way ?pt pid par"
  proof -
    have w: "has_flag (pt3 INIT) WAITING \<longleftrightarrow> par \<noteq> INIT \<and> has_flag (?pt INIT) WAITING"
      using m(2,4) by (auto simp: pt3_def)
    have h: "p_parent (pt3 j) = int pid \<and> has_flag (pt3 j) HANGING \<longleftrightarrow> p_parent (?pt j) = int pid \<and> has_flag (?pt j) HANGING" for j
      using m(4,6) by (cases "j = pid"; cases "j = par") (auto simp: pt3_def dead_def has_flag_def)
    show ?thesis unfolding told_init_def init_in_way_def using w h by (simp add: s3_def)
  qed
  have i3: "int pid \<noteq> INIT" "p_parent (mm_procs s3 INIT) \<noteq> int pid" using m(2,7) pp by auto
  show ?thesis
    using orphans [OF i3, of 0 NPROC] unfolding told e
    by (simp add: s3_def exited_def Let_def pt3_def [unfolded dead_def, symmetric] dead_def split: if_splits)
qed

lemma exit_zombies:
  assumes me: "may_exit pt pid par" and z: "zombies_ok pt" and way: "\<not> init_in_way pt pid par"
  shows "zombies_ok (exited status pid par pt)"
proof (rule zombies_okI)
  fix i j
  let ?pt = "exited status pid par pt" and ?w = "has_flag (pt par) WAITING"
  assume h: "i < NPROC" "j < NPROC" "has_flag (?pt i) HANGING" "p_parent (?pt i) = int j" "has_flag (?pt j) WAITING"
  have m: "par \<noteq> pid" "p_parent (pt pid) = int par" "\<not> has_flag (pt pid) HANGING" "\<not> has_flag (pt pid) WAITING" "pid \<noteq> INIT"
    using me by (simp_all add: may_exit_def)
  have wait: "has_flag (?pt k) WAITING \<longleftrightarrow> has_flag (pt k) WAITING \<and> k \<noteq> par" for k
    using m(1,4) by (auto simp: exited_def adopted_def Let_def split: if_splits) (simp_all add: has_flag_def)
  have hang: "has_flag (?pt k) HANGING \<longleftrightarrow> (if k = pid then \<not> ?w else has_flag (pt k) HANGING)" for k
    using m(1,3) by (auto simp: exited_def adopted_def Let_def split: if_splits) (simp_all add: has_flag_def)
  have par: "p_parent (?pt k) = (if p_parent (pt k) = int pid then INIT else p_parent (pt k))" if "k < NPROC" for k
    using that m(1) by (auto simp: exited_def adopted_def Let_def)
  have wj: "has_flag (pt j) WAITING" "j \<noteq> par" using h(5) wait by simp_all
  have i: "i \<noteq> pid" using h(4) par [OF h(1)] m(1,2) wj(2) by auto
  then have hi: "has_flag (pt i) HANGING" using h(3) hang by simp
  show False
  proof (cases "p_parent (pt i) = int pid")
    case True
    then have "j = INIT" using h(4) par [OF h(1)] by simp
    then show False using way wj hi True h(1) by (auto simp: init_in_way_def)
  next
    case False
    then show False using zombies_okD [OF z h(1,2) hi] h(4) par [OF h(1)] wj(1) by simp
  qed
qed

lemma exited_fields:
  assumes "may_exit pt pid par"
  defines "w \<equiv> has_flag (pt par) WAITING"
  shows "w \<Longrightarrow> p_flags (exited status pid par pt pid) = FREE_SLOT" "w \<Longrightarrow> \<not> has_flag (exited status pid par pt par) WAITING"
    "\<not> w \<Longrightarrow> has_flag (exited status pid par pt pid) HANGING" "exit_status (exited status pid par pt pid) = status"
    "p_parent (exited status pid par pt pid) = int par"
  using assms(1) by (auto simp: exited_def adopted_def Let_def w_def may_exit_def has_flag_def)

section \<open>The segments of a process image\<close>

lemma image_ldts_simps:
  "desc_base (image_ldts b l INDEX_LDT_C) = b" "desc_base (image_ldts b l INDEX_LDT_RW) = b"
  "desc_limit (image_ldts b l INDEX_LDT_C) = 0xFF" "desc_limit (image_ldts b l INDEX_LDT_RW) = 0xFF"
  by (simp_all add: image_ldts_def desc_limit_init)

lemma image_attrs:
  "attr1 (image_ldts b l INDEX_LDT_C) = 0xF8" "attr1 (image_ldts b l INDEX_LDT_RW) = 0xF2"
  "bit (limit_high_attr2 (image_ldts b l INDEX_LDT_C)) 7" "bit (limit_high_attr2 (image_ldts b l INDEX_LDT_RW)) 7"
  by (simp_all add: image_ldts_def init_descriptor_def)

lemma image_gran:
  "(ucast (limit_high_attr2 (image_ldts b l INDEX_LDT_C)) :: u32) AND drop_bit 8 DA_LIMIT_4K \<noteq> 0"
  "(ucast (limit_high_attr2 (image_ldts b l INDEX_LDT_RW)) :: u32) AND drop_bit 8 DA_LIMIT_4K \<noteq> 0"
  by (simp_all add: image_ldts_def init_descriptor_def)

lemma seg_limit_desc: "seg_limit d = desc_limit d"
  by (simp add: seg_limit_def desc_limit_def)

lemma image_size:
  "seg_size (seg_limit (image_ldts b l INDEX_LDT_C)) (image_ldts b l INDEX_LDT_C) = PROC_IMAGE_SIZE_DEFAULT"
  "seg_size (seg_limit (image_ldts b l INDEX_LDT_C)) (image_ldts b l INDEX_LDT_RW) = PROC_IMAGE_SIZE_DEFAULT"
  using image_gran [of b l] by (simp_all add: seg_size_def seg_limit_desc image_ldts_simps cint_def)

section \<open>Fork\<close>

text \<open>A process that can be forked into slot \<open>child\<close>: \<open>n\<close> bytes from \<open>base\<close> on.\<close>

definition may_fork :: "mm_state \<Rightarrow> nat \<Rightarrow> nat \<Rightarrow> nat \<Rightarrow> bool" where
  "may_fork s pid child n \<longleftrightarrow>
    (let parent = mm_procs s pid; t = ldts parent INDEX_LDT_C; d = ldts parent INDEX_LDT_RW in
     nat (source (mm_msg s)) = pid \<and> find (\<lambda>i. p_flags (mm_procs s i) = FREE_SLOT) [0..<NPROC] = Some child \<and>
     NR_TASKS + NR_NATIVE_PROCS \<le> child \<and> length (p_name parent) + 1 + length (i2a (int child) 10) < NAME_SIZE \<and>
     desc_base t = desc_base d \<and> seg_limit t = seg_limit d \<and> seg_size (seg_limit t) t = int n \<and> seg_size (seg_limit t) d = int n \<and>
     n \<le> PROC_IMAGE_SIZE_DEFAULT \<and> image_base (int child) + int n < memory_size s \<and>
     n \<le> unat (word_of_int (image_base (int child)) - desc_base t) \<and>
     listens (mm_procs s TASK_FS) \<and> listens parent)"

lemma do_fork_eq:
  assumes "may_fork s pid child n"
  shows "do_fork s = (let parent = mm_procs s pid; b = word_of_int (image_base (int child)) in
    Inr (0, s\<lparr>mm_procs := (mm_procs s)(child := parent\<lparr>ldt_sel := ldt_sel (mm_procs s child), p_parent := int pid,
        p_name := p_name parent @ ''_'' @ i2a (int child) 10, ldts := image_ldts b (ldts parent)\<rparr>),
      mmem := memcpy (mmem s) b (desc_base (ldts parent INDEX_LDT_C)) n,
      mm_msg := (mm_msg s)\<lparr>m3i2 := int child\<rparr>,
      mm_sent := mm_sent s @ [(TASK_FS, (mm_junk s)\<lparr>msgtype := FORK, m3i2 := int child\<rparr>),
        (int child, (mm_junk s)\<lparr>msgtype := SYSCALL_RET, m3i1 := 0, m3i2 := 0\<rparr>)]\<rparr>))"
proof -
  let ?p = "mm_procs s pid"
  have f: "nat (source (mm_msg s)) = pid" "find (\<lambda>i. p_flags (mm_procs s i) = FREE_SLOT) [0..<NPROC] = Some child"
    "NR_TASKS + NR_NATIVE_PROCS \<le> child" "length (p_name ?p) + 1 + length (i2a (int child) 10) < NAME_SIZE"
    "desc_base (ldts ?p INDEX_LDT_C) = desc_base (ldts ?p INDEX_LDT_RW)"
    "seg_limit (ldts ?p INDEX_LDT_C) = seg_limit (ldts ?p INDEX_LDT_RW)"
    "seg_size (seg_limit (ldts ?p INDEX_LDT_C)) (ldts ?p INDEX_LDT_C) = int n"
    "seg_size (seg_limit (ldts ?p INDEX_LDT_C)) (ldts ?p INDEX_LDT_RW) = int n"
    "n \<le> PROC_IMAGE_SIZE_DEFAULT" "image_base (int child) + int n < memory_size s" "listens (mm_procs s TASK_FS)" "listens ?p"
    using assms unfolding may_fork_def Let_def by blast+
  have child: "child < NPROC" using f(2) unfolding find_upt by blast
  have name: "child_name (p_name ?p) (int child) = Inr (p_name ?p @ ''_'' @ i2a (int child) 10)"
    using f(4) by (subst child_name_eq) simp_all
  have mem: "alloc_mem (int child) (int n) s = Inr (image_base (int child))"
    using f(3,9,10) child by (intro alloc_mem_eq) simp_all
  have ch: "child \<noteq> TASK_MM" "child \<noteq> TASK_FS" using f(3) by auto
  have fs: "mm_send TASK_FS m t = Inr (t\<lparr>mm_sent := mm_sent t @ [(TASK_FS, m)]\<rparr>)" if "listens (mm_procs t TASK_FS)" for m t
    using mm_send_eq [of TASK_FS t m] that by simp
  show ?thesis
    unfolding do_fork_def f(1,2) Let_def reassembly_base
    using f(3,5-8,11,12) name mem ch child by (simp add: fs mm_send_eq)
qed

lemma fork_copies:
  assumes "may_fork s pid child n"
  defines "b \<equiv> word_of_int (image_base (int child))" and "a \<equiv> desc_base (ldts (mm_procs s pid) INDEX_LDT_C)"
  shows "memcpy (mmem s) b a n x = (if unat (x - b) < n then mmem s (a + (x - b)) else mmem s x)"
proof (rule memcpy_spec)
  show "n \<le> 2 ^ 32" using assms(1) by (simp add: may_fork_def Let_def)
  show "b = a \<or> n \<le> unat (b - a)" using assms(1) unfolding may_fork_def Let_def b_def a_def by blast
qed

lemma fork_zombies:
  assumes "may_fork s pid child n" and "zombies_ok (mm_procs s)" and "do_fork s = Inr (r, s')"
    and "\<not> has_flag (mm_procs s pid) HANGING" and "\<not> has_flag (mm_procs s pid) WAITING" and "pid < NPROC"
  shows "zombies_ok (mm_procs s')"
proof (rule zombies_okI)
  fix i j assume h: "i < NPROC" "j < NPROC" "has_flag (mm_procs s' i) HANGING" "p_parent (mm_procs s' i) = int j"
    "has_flag (mm_procs s' j) WAITING"
  have p: "mm_procs s' k = mm_procs s k" if "k \<noteq> child" for k
    using assms(3) that do_fork_eq [OF assms(1)] by (auto simp: Let_def)
  have c: "p_flags (mm_procs s' child) = p_flags (mm_procs s pid)"
    using assms(3) do_fork_eq [OF assms(1)] by (auto simp: Let_def)
  have "i \<noteq> child" "j \<noteq> child" using h(3,5) c assms(4,5) by (auto simp: has_flag_def)
  then show False using zombies_okD [OF assms(2) h(1,2)] h(3-5) p by simp
qed

end
