(* ===== verification/MmExec.thy ===== *)
theory MmExec
  imports MmFork
begin

unbundle bit_operations_syntax

text \<open>
  The way of the arguments of a program: \<open>execv\<close> of \<open>lib/exec.c\<close> lays them out in the
  memory of the caller, \<open>do_exec\<close> moves them to the top of the new image and relocates
  the vector of pointers.
\<close>

section \<open>\<open>execv\<close>\<close>

abbreviation (input) ALX :: "nat \<Rightarrow> kfail" where "ALX \<equiv> Assertion ''lib/exec.c''"

text \<open>The loop that makes room for the pointers.\<close>

fun execv_count :: "string list \<Rightarrow> nat \<Rightarrow> nat kres" where
  "execv_count [] len = Inr len"
| "execv_count (_ # r) len = ensure (len + 2 * 4 < PROC_ORIGIN_STACK) (ALX 40) (execv_count r (len + 4))"

text \<open>The loop that copies the strings: pointer number \<open>k\<close>, length so far.\<close>

fun execv_strings :: "u32 \<Rightarrow> string list \<Rightarrow> nat \<Rightarrow> nat \<Rightarrow> memory \<Rightarrow> (nat \<times> memory) kres" where
  "execv_strings buf [] k len st = Inr (len, st)"
| "execv_strings buf (t # r) k len st =
    (let st1 = st32 st (of_nat (4 * k)) (buf + of_nat len) in
     ensure (len + length t + 1 < PROC_ORIGIN_STACK) (ALX 50) (
     execv_strings buf r (Suc k) (len + length t + 1) (store_str st1 (of_nat len) t)))"

text \<open>The array \<open>arg_stack\<close> at \<open>buf\<close>, with its length.\<close>

definition execv_stack :: "u32 \<Rightarrow> string list \<Rightarrow> memory \<Rightarrow> (nat \<times> memory) kres" where
  "execv_stack buf args junk =
    rbind (execv_count args 0) (\<lambda>len. execv_strings buf args 0 (len + 4) (st32 junk (of_nat len) 0))"

definition execv_msg :: "u32 \<Rightarrow> u32 \<Rightarrow> string \<Rightarrow> nat \<Rightarrow> message \<Rightarrow> message" where
  "execv_msg path buf name len m = m\<lparr>msgtype := EXEC, m3p1 := path, m3i2 := int (length name), m3p2 := buf, m3i3 := int len\<rparr>"

section \<open>Arrays of at most 1024 bytes\<close>

lemma idx: "i < 65536 \<Longrightarrow> j < 65536 \<Longrightarrow> unat ((of_nat i :: u32) - of_nat j) = (if j \<le> i then i - j else i + 2 ^ 32 - j)"
  by (simp add: unat_sub_if' unat_of_nat)

lemma st32_idx: "i < 65536 \<Longrightarrow> q < 65536 \<Longrightarrow> i < q \<or> q + 4 \<le> i \<Longrightarrow> st32 st (of_nat q) v (of_nat i) = st (of_nat i)"
  by (rule st32_other) (auto simp: idx)

lemma ld32_idx:
  assumes "q < 65536" and "\<And>i. q \<le> i \<Longrightarrow> i < q + 4 \<Longrightarrow> m (of_nat i) = m' (of_nat i)"
  shows "ld32 m (of_nat q) = ld32 m' (of_nat q)"
  using assms(2) [of q] assms(2) [of "q + 1"] assms(2) [of "q + 2"] assms(2) [of "q + 3"]
  by (intro ld32_cong) (simp_all add: add.commute)

lemma store_str_idx:
  assumes "i < 65536" and "off < 65536" and "length t < 65536"
  shows "store_str st (of_nat off) t (of_nat i) = (if off \<le> i \<and> i < off + length t then of_char (t ! (i - off))
     else if i = off + length t then 0 else st (of_nat i))"
  unfolding store_str_def idx [OF assms(1,2)] using assms by auto

section \<open>The layout\<close>

text \<open>A C string at an index of the array.\<close>

definition str_at :: "memory \<Rightarrow> nat \<Rightarrow> string \<Rightarrow> bool" where
  "str_at st off t \<longleftrightarrow> (\<forall>i < length t. st (of_nat (off + i)) = of_char (t ! i)) \<and> st (of_nat (off + length t)) = 0"

lemma str_at_cong:
  "(\<And>i. off \<le> i \<Longrightarrow> i \<le> off + length t \<Longrightarrow> st' (of_nat i) = st (of_nat i)) \<Longrightarrow> str_at st off t \<Longrightarrow> str_at st' off t"
  by (simp add: str_at_def del: of_nat_add)

lemma execv_count_eq: "execv_count args len = Inr n \<Longrightarrow> n = len + 4 * length args \<and> (args \<noteq> [] \<longrightarrow> n + 4 < PROC_ORIGIN_STACK)"
proof (induction args arbitrary: len)
  case (Cons t r)
  then have r: "len + 8 < PROC_ORIGIN_STACK" "execv_count r (len + 4) = Inr n" by (auto split: if_splits)
  then show ?case using Cons.IH [OF r(2)] by (cases "r = []") auto
qed simp

text \<open>
  The loop over the strings leaves what lies below its pointers, or between the
  pointers and the strings, as it was; each pointer points to its string.
\<close>

lemma execv_strings_layout:
  "execv_strings buf args k len st = Inr (n, st') \<Longrightarrow> 4 * (k + length args) \<le> len \<Longrightarrow> len < PROC_ORIGIN_STACK \<Longrightarrow>
   len \<le> n \<and> n < PROC_ORIGIN_STACK \<and>
   (\<forall>i < len. i < 4 * k \<or> 4 * (k + length args) \<le> i \<longrightarrow> st' (of_nat i) = st (of_nat i)) \<and>
   (\<forall>j < length args. \<exists>off. len \<le> off \<and> off + length (args ! j) < n \<and>
      ld32 st' (of_nat (4 * (k + j))) = buf + of_nat off \<and> str_at st' off (args ! j))"
proof (induction args arbitrary: k len st)
  case Nil
  then show ?case by simp
next
  case (Cons t r)
  let ?st1 = "st32 st (of_nat (4 * k)) (buf + of_nat len)"
  let ?st2 = "store_str ?st1 (of_nat len) t"
  have fit: "len + length t + 1 < PROC_ORIGIN_STACK" and
    rest: "execv_strings buf r (Suc k) (len + length t + 1) ?st2 = Inr (n, st')"
    using Cons.prems(1) by (auto simp: Let_def split: if_splits)
  have room: "4 * (Suc k + length r) \<le> len + length t + 1" "4 * k + 4 \<le> len" using Cons.prems(2) by simp_all
  note IH = Cons.IH [OF rest room(1) fit]
  have st2: "?st2 (of_nat i) = (if len \<le> i \<and> i < len + length t then of_char (t ! (i - len))
     else if i = len + length t then 0 else ?st1 (of_nat i))" if "i < 65536" for i
    using that fit by (intro store_str_idx) simp_all
  have same: "st' (of_nat i) = ?st2 (of_nat i)" if "i < len + length t + 1" "i < 4 * Suc k \<or> 4 * (Suc k + length r) \<le> i" for i
    using IH that by blast
  have ptr: "ld32 st' (of_nat (4 * k)) = buf + of_nat len"
  proof -
    have "ld32 st' (of_nat (4 * k)) = ld32 ?st1 (of_nat (4 * k))"
    proof (rule ld32_idx)
      show "4 * k < 65536" using room(2) Cons.prems(3) by simp
      fix i assume i: "4 * k \<le> i" "i < 4 * k + 4"
      then show "st' (of_nat i) = ?st1 (of_nat i)"
        using same [of i] st2 [of i] room(2) Cons.prems(3) by simp
    qed
    then show ?thesis by simp
  qed
  have str: "str_at st' len t"
    unfolding str_at_def
  proof (intro conjI allI impI)
    fix i assume "i < length t"
    then show "st' (of_nat (len + i)) = of_char (t ! i)"
      using same [of "len + i"] st2 [of "len + i"] room Cons.prems(2) fit by simp
  next
    show "st' (of_nat (len + length t)) = 0"
      using same [of "len + length t"] st2 [of "len + length t"] room Cons.prems(2) fit by simp
  qed
  have low: "st' (of_nat i) = st (of_nat i)" if "i < len" "i < 4 * k \<or> 4 * (k + length (t # r)) \<le> i" for i
  proof -
    have "i < 4 * k \<or> 4 * k + 4 \<le> i" using that(2) by auto
    then have "?st1 (of_nat i) = st (of_nat i)"
      using that(1) Cons.prems(3) room(2) by (intro st32_idx) simp_all
    then show ?thesis using same [of i] st2 [of i] that Cons.prems(3) by auto
  qed
  have all: "\<exists>off. len \<le> off \<and> off + length ((t # r) ! j) < n \<and>
      ld32 st' (of_nat (4 * (k + j))) = buf + of_nat off \<and> str_at st' off ((t # r) ! j)" if "j < length (t # r)" for j
  proof (cases j)
    case 0
    have "len + length t < n" using IH by simp
    then show ?thesis using ptr str 0 by (intro exI [of _ len]) simp
  next
    case (Suc i)
    then have "i < length r" using that by simp
    with IH obtain off where off: "len + length t + 1 \<le> off" "off + length (r ! i) < n"
      "ld32 st' (of_nat (4 * (Suc k + i))) = buf + of_nat off" "str_at st' off (r ! i)" by blast
    have e: "k + j = Suc k + i" "(t # r) ! j = r ! i" using Suc by simp_all
    show ?thesis unfolding e using off by (intro exI [of _ off] conjI) simp_all
  qed
  have "len \<le> n" "n < PROC_ORIGIN_STACK" using IH by simp_all
  then show ?case using low all by blast
qed

section \<open>The relocation\<close>

lemma relocate_words:
  "(\<And>j. k \<le> j \<Longrightarrow> j < k + c \<Longrightarrow> ld32 st (of_nat (4 * j)) \<noteq> 0) \<Longrightarrow> ld32 st (of_nat (4 * (k + c))) = 0 \<Longrightarrow>
   c < n \<Longrightarrow> k + n \<le> 256 \<Longrightarrow>
   \<exists>st'. relocate delta n k st = Inr (int (k + c), st') \<and>
     (\<forall>j. k \<le> j \<and> j < k + c \<longrightarrow> ld32 st' (of_nat (4 * j)) = ld32 st (of_nat (4 * j)) + delta) \<and>
     (\<forall>i < 65536. i < 4 * k \<or> 4 * (k + c) \<le> i \<longrightarrow> st' (of_nat i) = st (of_nat i))"
proof (induction c arbitrary: k n st)
  case 0
  then obtain m where n: "n = Suc m" by (cases n) auto
  then show ?case using 0 by (intro exI [of _ st]) (auto simp: Let_def)
next
  case (Suc c)
  obtain m where n: "n = Suc m" using Suc.prems(3) by (cases n) auto
  let ?w = "ld32 st (of_nat (4 * k))"
  let ?st1 = "st32 st (of_nat (4 * k)) (?w + delta)"
  have keep: "?st1 (of_nat i) = st (of_nat i)" if "i < 65536" "i < 4 * k \<or> 4 * k + 4 \<le> i" for i
    using that Suc.prems(4) by (intro st32_idx) simp_all
  have ld: "ld32 ?st1 (of_nat (4 * j)) = ld32 st (of_nat (4 * j))" if "k < j" "j \<le> 256" for j
    using that by (intro ld32_idx keep) simp_all
  have "\<exists>st'. relocate delta m (Suc k) ?st1 = Inr (int (Suc k + c), st') \<and>
     (\<forall>j. Suc k \<le> j \<and> j < Suc k + c \<longrightarrow> ld32 st' (of_nat (4 * j)) = ld32 ?st1 (of_nat (4 * j)) + delta) \<and>
     (\<forall>i < 65536. i < 4 * Suc k \<or> 4 * (Suc k + c) \<le> i \<longrightarrow> st' (of_nat i) = ?st1 (of_nat i))"
  proof (rule Suc.IH)
    show "ld32 ?st1 (of_nat (4 * j)) \<noteq> 0" if "Suc k \<le> j" "j < Suc k + c" for j
      using that Suc.prems(1) [of j] ld [of j] Suc.prems(3,4) by simp
    show "ld32 ?st1 (of_nat (4 * (Suc k + c))) = 0"
      using Suc.prems(2-4) ld [of "Suc k + c"] by simp
  qed (use Suc.prems n in simp_all)
  then obtain st' where st': "relocate delta m (Suc k) ?st1 = Inr (int (Suc k + c), st')"
    "\<forall>j. Suc k \<le> j \<and> j < Suc k + c \<longrightarrow> ld32 st' (of_nat (4 * j)) = ld32 ?st1 (of_nat (4 * j)) + delta"
    "\<forall>i < 65536. i < 4 * Suc k \<or> 4 * (Suc k + c) \<le> i \<longrightarrow> st' (of_nat i) = ?st1 (of_nat i)" by blast
  have "relocate delta n k st = Inr (int (k + Suc c), st')"
    using st'(1) Suc.prems(1) [of k] n by (simp add: Let_def)
  moreover have "ld32 st' (of_nat (4 * j)) = ld32 st (of_nat (4 * j)) + delta" if j: "k \<le> j" "j < k + Suc c" for j
  proof (cases "j = k")
    case True
    have "ld32 st' (of_nat (4 * k)) = ld32 ?st1 (of_nat (4 * k))"
      using st'(3) Suc.prems(4) by (intro ld32_idx) auto
    then show ?thesis using True by simp
  next
    case False
    then show ?thesis using st'(2) j ld [of j] Suc.prems(3,4) by simp
  qed
  moreover have "st' (of_nat i) = st (of_nat i)" if "i < 65536" "i < 4 * k \<or> 4 * (k + Suc c) \<le> i" for i
    using st'(3) keep [of i] that by auto
  ultimately show ?case by (intro exI [of _ st']) auto
qed

end
