(* ===== verification/MmProps.thy ===== *)
theory MmProps
  imports MmExec Boot
begin

unbundle bit_operations_syntax

text \<open>
  The properties of the memory manager: images, fork, exit and wait, exec.
\<close>

section \<open>A sample state\<close>

text \<open>
  \<open>INIT\<close> is flat and has the child 10, which has the child 11; slot 9 and the slots from
  12 on are free.
\<close>

definition sample_pcb :: "nat \<Rightarrow> proc" where
  "sample_pcb i = (init_prot_proc i)\<lparr>p_name := ''INIT'', p_parent := (if i = 10 then INIT else if i = 11 then 10 else NO_TASK),
     p_flags := (if i = 9 \<or> 12 \<le> i then FREE_SLOT else 0), ldts := image_ldts 0 (ldts (init_prot_proc i))\<rparr>"

definition sample_mmsg :: "int \<Rightarrow> message" where
  "sample_mmsg src = \<lparr>source = src, msgtype = 0, m3i1 = 0, m3i2 = 0, m3i3 = 0, m3i4 = 0, m3l1 = 0, m3l2 = 0, m3p1 = 0, m3p2 = 0\<rparr>"

definition sample_mm :: "int \<Rightarrow> mm_state" where
  "sample_mm src = \<lparr>mm_procs = sample_pcb, mmem = (\<lambda>a. ucast a), memory_size = 0x2000000, mm_msg = sample_mmsg src,
     mm_sent = [], mm_junk = sample_mmsg 0\<rparr>"

lemma sample_mm_fields [simp]:
  "p_flags (sample_pcb i) = (if i = 9 \<or> 12 \<le> i then FREE_SLOT else 0)"
  "p_parent (sample_pcb i) = (if i = 10 then INIT else if i = 11 then 10 else NO_TASK)" "p_name (sample_pcb i) = ''INIT''"
  "ldts (sample_pcb i) = image_ldts 0 (ldts (init_prot_proc i))" "has_flag (sample_pcb i) HANGING = False"
  "has_flag (sample_pcb i) WAITING = False"
  "mm_procs (sample_mm x) = sample_pcb" "memory_size (sample_mm x) = 0x2000000" "source (mm_msg (sample_mm x)) = x"
  "mm_sent (sample_mm x) = []" "mm_junk (sample_mm x) = sample_mmsg 0" "mmem (sample_mm x) a = ucast a"
  by (simp_all add: sample_pcb_def sample_mm_def sample_mmsg_def has_flag_def)



section \<open>Images\<close>

text \<open>
  C13: two processes never get overlapping images: what \<open>alloc_mem\<close> gives to two
  different processes are disjoint ranges above \<open>PROCS_BASE\<close> that end inside the memory
  of the machine, and no address of an image leaves the positive range of an int.
\<close>

theorem images_disjoint:
  assumes "alloc_mem p n s = Inr b" and "alloc_mem q m s = Inr c" and "p \<noteq> q"
    and "p < NPROC" and "q < NPROC" and "0 \<le> n" and "0 \<le> m"
  shows "(b + n \<le> c \<or> c + m \<le> b) \<and> PROCS_BASE \<le> b \<and> b + n < memory_size s \<and>
    b + PROC_IMAGE_SIZE_DEFAULT < 2 ^ 31"
proof (intro conjI)
  note x = alloc_mem_Inr [OF assms(1,4,6)] and y = alloc_mem_Inr [OF assms(2,5,7)]
  show "PROCS_BASE \<le> b" "b + n < memory_size s" by (rule x)+
  show "b + PROC_IMAGE_SIZE_DEFAULT < 2 ^ 31" using x(6) by simp
  show "b + n \<le> c \<or> c + m \<le> b" using x(1,3) y(1,3) assms(3) by (auto simp: image_base_def)
qed

theorem images_disjoint_witness:
  "alloc_mem 9 0x100000 (sample_mm 5) = Inr 0xA00000 \<and> alloc_mem 10 0x100000 (sample_mm 5) = Inr 0xB00000 \<and>
   ((0xA00000 :: int) + 0x100000 \<le> 0xB00000 \<or> (0xB00000 :: int) + 0x100000 \<le> 0xA00000)"
proof -
  have e: "alloc_mem 9 0x100000 (sample_mm 5) = Inr 0xA00000" "alloc_mem 10 0x100000 (sample_mm 5) = Inr 0xB00000"
    using alloc_mem_eq [of 9 "0x100000" "sample_mm 5"] alloc_mem_eq [of 10 "0x100000" "sample_mm 5"]
    by (simp_all add: image_base_def)
  show ?thesis using images_disjoint [OF e] e by simp
qed

section \<open>Fork\<close>



section \<open>Exit and wait\<close>






text \<open>
  When \<open>INIT\<close> waits and a process exits that has a child hanging, the memory
  manager stops: line 135 has made the flags of \<open>INIT\<close> \<open>~WAITING\<close>, and the message about
  the child that \<open>cleanup\<close> then sends to \<open>INIT\<close> is never delivered.
\<close>

theorem exit_stops_when_init_waits:
  assumes "may_exit (mm_procs s) pid par" and "nat (source (mm_msg s)) = pid" and "par \<noteq> INIT"
    and "has_flag (mm_procs s INIT) WAITING"
    and "j < NPROC" and "p_parent (mm_procs s j) = int pid" and "has_flag (mm_procs s j) HANGING"
  shows "\<exists>e. do_exit status s = Inl e"
proof -
  have "init_in_way (mm_procs s) pid par" using assms(3-7) by (auto simp: init_in_way_def)
  with do_exit_eq [OF assms(1,2), of status] show ?thesis by simp
qed

theorem exit_stops_when_init_waits_witness:
  "\<exists>e. do_exit 0 ((sample_mm 11)\<lparr>mm_procs := sample_pcb(INIT := (sample_pcb INIT)\<lparr>p_flags := WAITING\<rparr>,
     12 := (sample_pcb 12)\<lparr>p_flags := HANGING, p_parent := 11\<rparr>)\<rparr>) = Inl e"
proof -
  let ?pt = "sample_pcb(INIT := (sample_pcb INIT)\<lparr>p_flags := WAITING\<rparr>, 12 := (sample_pcb 12)\<lparr>p_flags := HANGING, p_parent := 11\<rparr>)"
  let ?s = "(sample_mm 11)\<lparr>mm_procs := ?pt\<rparr>"
  have f: "may_exit (mm_procs ?s) 11 10" "nat (source (mm_msg ?s)) = 11"
    by (auto simp: may_exit_def hears_def sample_mm_def sample_mmsg_def)
  show ?thesis
    by (rule exit_stops_when_init_waits [OF f, of 12]) (simp_all add: has_flag_def)
qed



text \<open>
  A process that reaped its only child and waits again sleeps for ever: the free
  slot still names it as the parent, so the second wait counts a child, sets
  \<open>WAITING\<close> and sends nothing, although no child is left.
\<close>

theorem wait_after_reap:
  assumes "nat (source (mm_msg s)) = pid" and "pid < NPROC" "pid \<noteq> TASK_MM" "listens (mm_procs s pid)"
    and "i < NPROC" and "i \<noteq> pid" and "\<forall>j < NPROC. p_parent (mm_procs s j) = int pid \<longleftrightarrow> j = i"
    and "has_flag (mm_procs s i) HANGING" and "nat (source msg) = pid"
  shows "\<exists>s1 s2. do_wait s = Inr s1 \<and> do_wait (s1\<lparr>mm_msg := msg\<rparr>) = Inr s2 \<and>
    p_flags (mm_procs s1 i) = FREE_SLOT \<and> has_flag (mm_procs s2 pid) WAITING \<and> mm_sent s2 = mm_sent s1 \<and>
    (\<forall>j < NPROC. p_parent (mm_procs s2 j) = int pid \<longrightarrow> p_flags (mm_procs s2 j) = FREE_SLOT)"
proof -
  let ?s1 = "upd_pcb i (\<lambda>p. p\<lparr>p_flags := FREE_SLOT\<rparr>) (s\<lparr>mm_sent := mm_sent s @ [(int pid, cleanup_msg i s)]\<rparr>)"
  have e1: "do_wait s = Inr ?s1"
  proof (cases rule: do_wait_cases [OF assms(1-4)])
    case (1 j)
    then show ?thesis using assms(7) by simp
  next
    case 2
    then show ?thesis using assms(5,7,8) by blast
  next
    case 3
    then show ?thesis using assms(5,7) by blast
  qed
  let ?t = "?s1\<lparr>mm_msg := msg\<rparr>"
  have par: "p_parent (mm_procs ?t j) = p_parent (mm_procs s j)" for j by (simp add: upd_proc_apply)
  have src: "nat (source (mm_msg ?t)) = pid" using assms(9) by simp
  have lis: "listens (mm_procs ?t pid)" using assms(4,6) by (simp add: upd_proc_apply)
  let ?s2 = "upd_pcb pid (\<lambda>p. p\<lparr>p_flags := p_flags p OR WAITING\<rparr>) ?t"
  have e2: "do_wait ?t = Inr ?s2"
  proof (cases rule: do_wait_cases [OF src assms(2,3) lis])
    case (1 j)
    then have "j = i" using assms(7) par by simp
    then show ?thesis using 1(3) by (simp add: upd_proc_apply)
  next
    case 2
    then show ?thesis by simp
  next
    case 3
    then show ?thesis using assms(5,7) par by auto
  qed
  have w: "has_flag (mm_procs ?s2 pid) WAITING" by (simp only: mm_simps upd_proc_same has_flag_simps flag_bits) simp
  have fr: "\<forall>j < NPROC. p_parent (mm_procs ?s2 j) = int pid \<longrightarrow> p_flags (mm_procs ?s2 j) = FREE_SLOT"
    using assms(6,7) by (auto simp: upd_proc_apply)
  show ?thesis using e1 e2 w fr by (intro exI [of _ ?s1] exI [of _ ?s2] conjI) (simp_all add: upd_proc_apply)
qed

theorem wait_after_reap_witness:
  "\<exists>s s1 s2. do_wait s = Inr s1 \<and> mm_sent s1 \<noteq> mm_sent s \<and> do_wait s1 = Inr s2 \<and> has_flag (mm_procs s2 INIT) WAITING"
proof -
  let ?s = "(sample_mm INIT)\<lparr>mm_procs := upd_proc 10 (\<lambda>p. p\<lparr>p_flags := HANGING\<rparr>) sample_pcb\<rparr>"
  have f: "nat (source (mm_msg ?s)) = INIT" "has_flag (mm_procs ?s 10) HANGING"
    "\<forall>j < NPROC. p_parent (mm_procs ?s j) = int INIT \<longleftrightarrow> j = 10" "listens (mm_procs ?s INIT)"
    by (simp_all add: sample_mm_def sample_mmsg_def has_flag_def upd_proc_apply hears_def)
  obtain s1 where s1: "do_wait ?s = Inr s1" "mm_msg s1 = mm_msg ?s" "mm_sent s1 \<noteq> mm_sent ?s"
    using f(2,3) by (cases rule: do_wait_cases [OF f(1) _ _ f(4)]) auto
  have m: "s1\<lparr>mm_msg := mm_msg ?s\<rparr> = s1" unfolding s1(2) [symmetric] by simp
  obtain s2 where "do_wait s1 = Inr s2" "has_flag (mm_procs s2 INIT) WAITING"
    using wait_after_reap [OF f(1) _ _ f(4) _ _ f(3,2) f(1)] m s1(1) by auto
  with s1 show ?thesis by blast
qed

section \<open>Exec\<close>

lemma execv_stack_layout:
  assumes "execv_stack buf args junk = Inr (n, st)"
  shows "n < PROC_ORIGIN_STACK" and "4 * (length args + 1) \<le> n" and "ld32 st (of_nat (4 * length args)) = 0"
    and "\<forall>j < length args. \<exists>off. 4 * (length args + 1) \<le> off \<and> off + length (args ! j) < n \<and>
      ld32 st (of_nat (4 * j)) = buf + of_nat off \<and> str_at st off (args ! j)"
proof -
  let ?L = "4 * length args"
  obtain len where len: "execv_count args 0 = Inr len"
    using assms by (auto simp: execv_stack_def split: sum.splits)
  have l: "len = ?L" "len + 4 < PROC_ORIGIN_STACK" using execv_count_eq [OF len] by (cases "args = []"; simp)+
  have e: "execv_strings buf args 0 (?L + 4) (st32 junk (of_nat ?L) 0) = Inr (n, st)"
    using assms len l(1) by (simp add: execv_stack_def)
  have pre: "4 * (0 + length args) \<le> ?L + 4" "?L + 4 < PROC_ORIGIN_STACK" using l by simp_all
  note lay = execv_strings_layout [OF e pre]
  show "n < PROC_ORIGIN_STACK" "4 * (length args + 1) \<le> n" using lay by auto
  have "ld32 st (of_nat ?L) = ld32 (st32 junk (of_nat ?L) 0) (of_nat ?L)"
    using lay l(2) l(1) by (intro ld32_idx) auto
  then show "ld32 st (of_nat (4 * length args)) = 0" by simp
  show "\<forall>j < length args. \<exists>off. 4 * (length args + 1) \<le> off \<and> off + length (args ! j) < n \<and>
      ld32 st (of_nat (4 * j)) = buf + of_nat off \<and> str_at st off (args ! j)"
    using lay by (simp add: add.commute)
qed

text \<open>
  C14: the arguments arrive.  When the caller holds the array that \<open>execv\<close> built,
  \<open>do_exec\<close> places a vector of as many pointers as there are arguments at the top of
  the new image, ended by a null pointer; each pointer is an address of the new image
  where the argument's string stands.
\<close>

theorem exec_arguments:
  assumes "execv_stack buf args junk1 = Inr (n, st)" and "flat_tasks pt"
    and "\<forall>i < n. m (lin pt src buf + of_nat i) = st (of_nat i)"
    and "0 < unat buf" and "unat buf + PROC_ORIGIN_STACK \<le> 2 ^ 32"
  shows "\<exists>m'. exec_stack junk2 pt src buf (int n) m = Inr (int (length args), m') \<and>
    ld32 m' (lin pt src (ORIG_STACK + of_nat (4 * length args))) = 0 \<and>
    (\<forall>j < length args. \<exists>off. off + length (args ! j) < n \<and>
       ld32 m' (lin pt src (ORIG_STACK + of_nat (4 * j))) = ORIG_STACK + of_nat off \<and>
       (\<forall>i < length (args ! j). m' (lin pt src (ORIG_STACK + of_nat (off + i))) = of_char (args ! j ! i)) \<and>
       m' (lin pt src (ORIG_STACK + of_nat (off + length (args ! j)))) = 0)"
proof -
  note lay = execv_stack_layout [OF assms(1)]
  let ?L = "length args" and ?d = "ORIG_STACK - buf"
  define st0 where "st0 = cpy junk2 0 m (lin pt src buf) n"
  have n: "n < 1024" "n < 65536" "4 * (?L + 1) \<le> n" using lay(1,2) by simp_all
  have st0: "st0 (of_nat i) = st (of_nat i)" if "i < n" for i
  proof -
    have "unat (of_nat i - 0 :: u32) = i" using that n(1) by (simp add: unat_of_nat)
    then show ?thesis using assms(3) that by (simp add: st0_def cpy_def)
  qed
  have w0: "ld32 st0 (of_nat (4 * j)) = ld32 st (of_nat (4 * j))" if "j \<le> ?L" for j
    using that n by (intro ld32_idx st0) simp_all
  have nz: "buf + of_nat off \<noteq> (0 :: u32)" if "off < 1024" for off
  proof
    assume "buf + of_nat off = 0"
    then have "unat (buf + of_nat off) = 0" by simp
    moreover have "unat (buf + of_nat off) = unat buf + off"
      using that assms(5) by (subst unat_add_lem [THEN iffD1]) (simp_all add: unat_of_nat)
    ultimately show False using assms(4) by simp
  qed
  obtain st1 where st1: "relocate ?d 256 0 st0 = Inr (int (0 + ?L), st1)"
    "\<forall>j. 0 \<le> j \<and> j < 0 + ?L \<longrightarrow> ld32 st1 (of_nat (4 * j)) = ld32 st0 (of_nat (4 * j)) + ?d"
    "\<forall>i < 65536. i < 4 * 0 \<or> 4 * (0 + ?L) \<le> i \<longrightarrow> st1 (of_nat i) = st0 (of_nat i)"
  proof -
    have nzw: "ld32 st0 (of_nat (4 * j)) \<noteq> 0" if "0 \<le> j" "j < 0 + ?L" for j
      using lay(4) that n(1) nz w0 [of j] by fastforce
    have z: "ld32 st0 (of_nat (4 * (0 + ?L))) = 0" using lay(3) w0 [of ?L] by simp
    show thesis using relocate_words [OF nzw z, of 256 ?d] that n by auto
  qed
  let ?m = "cpy m (lin pt src ORIG_STACK) st1 0 n"
  have linadd: "lin pt src (ORIG_STACK + x) = lin pt src ORIG_STACK + x" for x by (simp add: lin_def)
  have byte: "?m (lin pt src ORIG_STACK + of_nat i) = st1 (of_nat i)" if "i < n" for i
    using that n(1) by (simp add: cpy_def unat_of_nat)
  have word: "ld32 ?m (lin pt src ORIG_STACK + of_nat q) = ld32 st1 (of_nat q)" if "q + 4 \<le> n" for q
    using byte [of q] byte [of "q + 1"] byte [of "q + 2"] byte [of "q + 3"] that
    by (intro ld32_cong) (simp_all add: ac_simps)
  have "exec_stack junk2 pt src buf (int n) m = Inr (int ?L, ?m)"
    using n st1(1) va2la_lin [OF assms(2)] by (simp add: exec_stack_def st0_def)
  moreover have "ld32 ?m (lin pt src (ORIG_STACK + of_nat (4 * ?L))) = 0"
  proof -
    have "ld32 st1 (of_nat (4 * ?L)) = ld32 st0 (of_nat (4 * ?L))" using st1(3) n by (intro ld32_idx) auto
    then show ?thesis unfolding linadd using word [of "4 * ?L"] n lay(3) w0 [of ?L] by simp
  qed
  moreover have "\<exists>off. off + length (args ! j) < n \<and>
       ld32 ?m (lin pt src (ORIG_STACK + of_nat (4 * j))) = ORIG_STACK + of_nat off \<and>
       (\<forall>i < length (args ! j). ?m (lin pt src (ORIG_STACK + of_nat (off + i))) = of_char (args ! j ! i)) \<and>
       ?m (lin pt src (ORIG_STACK + of_nat (off + length (args ! j)))) = 0" if j: "j < ?L" for j
  proof -
    obtain off where off: "4 * (?L + 1) \<le> off" "off + length (args ! j) < n" "ld32 st (of_nat (4 * j)) = buf + of_nat off"
      "str_at st off (args ! j)"
      using lay(4) j by blast
    have "ld32 st1 (of_nat (4 * j)) = ORIG_STACK + of_nat off" using st1(2) j w0 [of j] off(3) by simp
    then have p: "ld32 ?m (lin pt src (ORIG_STACK + of_nat (4 * j))) = ORIG_STACK + of_nat off"
      unfolding linadd using word [of "4 * j"] j n by simp
    have b: "?m (lin pt src (ORIG_STACK + of_nat (off + i))) = st (of_nat (off + i))" if "i \<le> length (args ! j)" for i
      unfolding linadd using byte [of "off + i"] st1(3) [rule_format, of "off + i"] st0 [of "off + i"] off(1,2) that n
      by (simp del: of_nat_add)
    show ?thesis
      using p b off(2,4) by (intro exI [of _ off] conjI allI impI) (simp_all add: str_at_def del: of_nat_add)
  qed
  ultimately show ?thesis by blast
qed

theorem exec_arguments_witness:
  "\<exists>m n st m'. execv_stack 0x1000 [''ls'', ''-l''] (\<lambda>_. 0) = Inr (n, st) \<and>
     exec_stack (\<lambda>_. 0) init_prot_proc 9 0x1000 (int n) m = Inr (2, m') \<and> ld32 m' (ORIG_STACK + 8) = 0"
proof -
  have b: "lin init_prot_proc 9 x = x" for x
    by (simp add: lin_def ldt_seg_linear_def desc_base_def init_prot_proc_def zero_desc_def)
  have flat: "flat_tasks init_prot_proc"
    by (simp add: flat_tasks_def ldt_seg_linear_def desc_base_def init_prot_proc_def zero_desc_def)
  obtain n st where e: "execv_stack 0x1000 [''ls'', ''-l''] (\<lambda>_. 0) = Inr (n, st)"
    by (simp add: execv_stack_def Let_def)
  then have n: "n < 1024" using execv_stack_layout(1) by simp
  let ?m = "\<lambda>a. st (a - 0x1000)"
  have "\<forall>i < n. ?m (lin init_prot_proc 9 0x1000 + of_nat i) = st (of_nat i)" by (simp add: b)
  from exec_arguments [OF e flat this, of "\<lambda>_. 0"] obtain m' where
    "exec_stack (\<lambda>_. 0) init_prot_proc 9 0x1000 (int n) ?m = Inr (2, m')" "ld32 m' (ORIG_STACK + 8) = 0"
    by (auto simp: b)
  then show ?thesis using e by blast
qed

end
