(* ===== verification/Gates.thy ===== *)
theory Gates
  imports Boot Fmt
begin

unbundle bit_operations_syntax

text \<open>
  The tables the processor and the interrupt controllers work from: \<open>cstart\<close>
  (\<open>kernel/start.c\<close>), \<open>init_prot\<close> and \<open>exception_handler\<close> (\<open>kernel/protect.c\<close>),
  \<open>init_8259A\<close> and the installation of handlers (\<open>kernel/i8259.c\<close>, \<open>init_clock\<close>
  of \<open>kernel/clock.c\<close>).  A function pointer is the address the linker gives to it.
  The two 8259 controllers are part of the state: an initialisation command starts
  the sequence of the words ICW2 to ICW4 at the data port, which takes masks
  otherwise.
\<close>

section \<open>State\<close>

record tss =
  t_backlink :: u32
  t_esp0 :: u32
  t_ss0 :: u32
  t_esp1 :: u32
  t_ss1 :: u32
  t_esp2 :: u32
  t_ss2 :: u32
  t_cr3 :: u32
  t_eip :: u32
  t_flags :: u32
  t_eax :: u32
  t_ecx :: u32
  t_edx :: u32
  t_ebx :: u32
  t_esp :: u32
  t_ebp :: u32
  t_esi :: u32
  t_edi :: u32
  t_es :: u32
  t_cs :: u32
  t_ss :: u32
  t_ds :: u32
  t_fs :: u32
  t_gs :: u32
  t_ldt :: u32
  t_trap :: u16
  t_iobase :: u16

record pic =
  pic_icw :: nat
  pic_icw1 :: u8
  pic_vector :: u8
  pic_cascade :: u8
  pic_mask :: u8

record tables =
  gdt :: "nat \<Rightarrow> descriptor"
  idt :: "nat \<Rightarrow> gate"
  gdt_ptr :: "u16 \<times> u32"
  idt_ptr :: "u16 \<times> u32"
  tss :: tss
  irq_table :: "nat \<Rightarrow> u32"
  master :: pic
  slave :: pic
  ports :: "(u16 \<times> u8) list"

text \<open>Addresses the linker gives to code and data.\<close>

record links =
  exception_entry :: "nat \<Rightarrow> u32"
  hwint :: "nat \<Rightarrow> u32"
  sys_call :: u32
  spurious :: u32
  clock_entry :: u32
  keyboard_entry :: u32
  hd_entry :: u32
  gdt_at :: u32
  idt_at :: u32
  tss_at :: u32
  ldts_at :: "nat \<Rightarrow> u32"

abbreviation (input) GDT_SIZE :: nat where "GDT_SIZE \<equiv> 128"
abbreviation (input) IDT_SIZE :: nat where "IDT_SIZE \<equiv> 256"
abbreviation (input) NR_IRQ :: nat where "NR_IRQ \<equiv> 16"
abbreviation (input) CLOCK_IRQ :: nat where "CLOCK_IRQ \<equiv> 0"
abbreviation (input) KEYBOARD_IRQ :: nat where "KEYBOARD_IRQ \<equiv> 1"
abbreviation (input) CASCADE_IRQ :: nat where "CASCADE_IRQ \<equiv> 2"
abbreviation (input) AT_WINI_IRQ :: nat where "AT_WINI_IRQ \<equiv> 14"
abbreviation (input) INT_M_CTL :: u16 where "INT_M_CTL \<equiv> 0x20"
abbreviation (input) INT_M_CTLMASK :: u16 where "INT_M_CTLMASK \<equiv> 0x21"
abbreviation (input) INT_S_CTL :: u16 where "INT_S_CTL \<equiv> 0xA0"
abbreviation (input) INT_S_CTLMASK :: u16 where "INT_S_CTLMASK \<equiv> 0xA1"
abbreviation (input) INT_VECTOR_IRQ0 :: "'a::numeral" where "INT_VECTOR_IRQ0 \<equiv> 0x20"
abbreviation (input) INT_VECTOR_IRQ8 :: "'a::numeral" where "INT_VECTOR_IRQ8 \<equiv> 0x28"
abbreviation (input) INT_VECTOR_SYS_CALL :: nat where "INT_VECTOR_SYS_CALL \<equiv> 0x90"
abbreviation (input) PRIVILEGE_KRNL :: u8 where "PRIVILEGE_KRNL \<equiv> 0"
abbreviation (input) PRIVILEGE_USER :: u8 where "PRIVILEGE_USER \<equiv> 3"
abbreviation (input) INDEX_TSS :: nat where "INDEX_TSS \<equiv> 4"
abbreviation (input) DA_386TSS :: u16 where "DA_386TSS \<equiv> 0x89"
abbreviation (input) SIZEOF_TSS :: "'a::numeral" where "SIZEOF_TSS \<equiv> 104"
abbreviation (input) TIMER0 :: u16 where "TIMER0 \<equiv> 0x40"
abbreviation (input) TIMER_MODE :: u16 where "TIMER_MODE \<equiv> 0x43"
abbreviation (input) RATE_GENERATOR :: u8 where "RATE_GENERATOR \<equiv> 0x34"
abbreviation (input) TIMER_FREQ :: int where "TIMER_FREQ \<equiv> 1193182"
abbreviation (input) HZ :: int where "HZ \<equiv> 100"

section \<open>The interrupt controllers\<close>

definition pic_command :: "u8 \<Rightarrow> pic \<Rightarrow> pic" where
  "pic_command v p = (if bit v 4 then p\<lparr>pic_icw := 2, pic_icw1 := v, pic_mask := 0\<rparr> else p)"

text \<open>ICW3 is skipped by a single controller (bit 1 of ICW1), ICW4 when bit 0 is clear.\<close>

definition pic_data :: "u8 \<Rightarrow> pic \<Rightarrow> pic" where
  "pic_data v p =
    (let last = (if bit (pic_icw1 p) 0 then 4 else 0) in
     if pic_icw p = 2 then p\<lparr>pic_vector := v AND 0xF8, pic_icw := if bit (pic_icw1 p) 1 then last else 3\<rparr>
     else if pic_icw p = 3 then p\<lparr>pic_cascade := v, pic_icw := last\<rparr>
     else if pic_icw p = 4 then p\<lparr>pic_icw := 0\<rparr>
     else p\<lparr>pic_mask := v\<rparr>)"

definition out_byte :: "u16 \<Rightarrow> u8 \<Rightarrow> tables \<Rightarrow> tables" where
  "out_byte port v t =
    (if port = INT_M_CTL then t\<lparr>master := pic_command v (master t)\<rparr>
     else if port = INT_M_CTLMASK then t\<lparr>master := pic_data v (master t)\<rparr>
     else if port = INT_S_CTL then t\<lparr>slave := pic_command v (slave t)\<rparr>
     else if port = INT_S_CTLMASK then t\<lparr>slave := pic_data v (slave t)\<rparr>
     else t\<lparr>ports := ports t @ [(port, v)]\<rparr>)"

definition init_8259A :: "links \<Rightarrow> tables \<Rightarrow> tables" where
  "init_8259A L t =
    (let t1 = fold (\<lambda>(port, v). out_byte port v)
       [(INT_M_CTL, 0x11), (INT_S_CTL, 0x11), (INT_M_CTLMASK, INT_VECTOR_IRQ0), (INT_S_CTLMASK, INT_VECTOR_IRQ8),
        (INT_M_CTLMASK, 0x4), (INT_S_CTLMASK, 0x2), (INT_M_CTLMASK, 0x1), (INT_S_CTLMASK, 0x1),
        (INT_M_CTLMASK, 0xFE), (INT_S_CTLMASK, 0xFF)] t in
     t1\<lparr>irq_table := (\<lambda>i. if i < NR_IRQ then spurious L else irq_table t1 i)\<rparr>)"

text \<open>\<open>disable_irq\<close> and \<open>enable_irq\<close> of \<open>kernel/kliba.asm\<close>: one bit of a mask.\<close>

definition disable_irq :: "nat \<Rightarrow> tables \<Rightarrow> tables" where
  "disable_irq irq t =
    (if irq < 8 then out_byte INT_M_CTLMASK (pic_mask (master t) OR push_bit irq 1) t
     else out_byte INT_S_CTLMASK (pic_mask (slave t) OR push_bit (irq mod 8) 1) t)"

definition enable_irq :: "nat \<Rightarrow> tables \<Rightarrow> tables" where
  "enable_irq irq t =
    (if irq < 8 then out_byte INT_M_CTLMASK (pic_mask (master t) AND NOT (push_bit irq 1)) t
     else out_byte INT_S_CTLMASK (pic_mask (slave t) AND NOT (push_bit (irq mod 8) 1)) t)"

definition put_irq_handler :: "nat \<Rightarrow> u32 \<Rightarrow> tables \<Rightarrow> tables" where
  "put_irq_handler irq handler t = (disable_irq irq t)\<lparr>irq_table := (irq_table t)(irq := handler)\<rparr>"

definition init_clock :: "links \<Rightarrow> tables \<Rightarrow> tables" where
  "init_clock L t =
    enable_irq CLOCK_IRQ (put_irq_handler CLOCK_IRQ (clock_entry L)
      (out_byte TIMER0 (word_of_int (drop_bit 8 (TIMER_FREQ sdiv HZ)))
      (out_byte TIMER0 (word_of_int (TIMER_FREQ sdiv HZ))
      (out_byte TIMER_MODE RATE_GENERATOR t))))"

text \<open>The interrupts of the keyboard (\<open>init_keyboard\<close>) and of the disk (\<open>init_hd\<close>).\<close>

definition init_keyboard_irq :: "links \<Rightarrow> tables \<Rightarrow> tables" where
  "init_keyboard_irq L t = enable_irq KEYBOARD_IRQ (put_irq_handler KEYBOARD_IRQ (keyboard_entry L) t)"

definition init_hd_irq :: "links \<Rightarrow> tables \<Rightarrow> tables" where
  "init_hd_irq L t = enable_irq AT_WINI_IRQ (enable_irq CASCADE_IRQ (put_irq_handler AT_WINI_IRQ (hd_entry L) t))"

definition spurious_irq :: "int \<Rightarrow> string list" where
  "spurious_irq irq = [''suprious_irq:'', itoa irq, [CHR 0x0A]]"

section \<open>The tables of \<open>init_prot\<close>\<close>

definition set_gate :: "nat \<Rightarrow> u32 \<Rightarrow> u8 \<Rightarrow> tables \<Rightarrow> tables" where
  "set_gate vector handler privilege t = t\<lparr>idt := (idt t)(vector := init_idt_desc DA_386IGate handler privilege)\<rparr>"

text \<open>The calls of \<open>init_idt_desc\<close>, in order: vector, handler, privilege.\<close>

definition exception_gates :: "links \<Rightarrow> (nat \<times> u32 \<times> u8) list" where
  "exception_gates L =
    [(0x0, exception_entry L 0x0, PRIVILEGE_KRNL), (0x1, exception_entry L 0x1, PRIVILEGE_KRNL),
     (0x2, exception_entry L 0x2, PRIVILEGE_KRNL), (0x3, exception_entry L 0x3, PRIVILEGE_USER),
     (0x4, exception_entry L 0x4, PRIVILEGE_USER), (0x5, exception_entry L 0x5, PRIVILEGE_KRNL),
     (0x6, exception_entry L 0x6, PRIVILEGE_KRNL), (0x7, exception_entry L 0x7, PRIVILEGE_KRNL),
     (0x8, exception_entry L 0x8, PRIVILEGE_KRNL), (0x9, exception_entry L 0x9, PRIVILEGE_KRNL),
     (0xA, exception_entry L 0xA, PRIVILEGE_KRNL), (0xB, exception_entry L 0xB, PRIVILEGE_KRNL),
     (0xC, exception_entry L 0xC, PRIVILEGE_KRNL), (0xD, exception_entry L 0xD, PRIVILEGE_KRNL),
     (0xE, exception_entry L 0xE, PRIVILEGE_KRNL), (0x10, exception_entry L 0x10, PRIVILEGE_KRNL)]"

definition irq_gates :: "links \<Rightarrow> (nat \<times> u32 \<times> u8) list" where
  "irq_gates L =
    [(INT_VECTOR_IRQ0 + 0, hwint L 0, PRIVILEGE_KRNL), (INT_VECTOR_IRQ0 + 1, hwint L 1, PRIVILEGE_KRNL),
     (INT_VECTOR_IRQ0 + 2, hwint L 2, PRIVILEGE_KRNL), (INT_VECTOR_IRQ0 + 3, hwint L 3, PRIVILEGE_KRNL),
     (INT_VECTOR_IRQ0 + 4, hwint L 4, PRIVILEGE_KRNL), (INT_VECTOR_IRQ0 + 5, hwint L 5, PRIVILEGE_KRNL),
     (INT_VECTOR_IRQ0 + 6, hwint L 6, PRIVILEGE_KRNL), (INT_VECTOR_IRQ0 + 7, hwint L 7, PRIVILEGE_KRNL),
     (INT_VECTOR_IRQ8 + 0, hwint L 8, PRIVILEGE_KRNL), (INT_VECTOR_IRQ8 + 1, hwint L 9, PRIVILEGE_KRNL),
     (INT_VECTOR_IRQ8 + 2, hwint L 10, PRIVILEGE_KRNL), (INT_VECTOR_IRQ8 + 3, hwint L 11, PRIVILEGE_KRNL),
     (INT_VECTOR_IRQ8 + 4, hwint L 12, PRIVILEGE_KRNL), (INT_VECTOR_IRQ8 + 5, hwint L 13, PRIVILEGE_KRNL),
     (INT_VECTOR_IRQ8 + 6, hwint L 14, PRIVILEGE_KRNL), (INT_VECTOR_IRQ8 + 7, hwint L 15, PRIVILEGE_KRNL)]"

definition init_idt :: "links \<Rightarrow> tables \<Rightarrow> tables" where
  "init_idt L t = fold (\<lambda>(v, h, p). set_gate v h p)
     (exception_gates L @ irq_gates L @ [(INT_VECTOR_SYS_CALL, sys_call L, PRIVILEGE_USER)]) t"

definition zero_tss :: tss where
  "zero_tss = \<lparr>t_backlink = 0, t_esp0 = 0, t_ss0 = 0, t_esp1 = 0, t_ss1 = 0, t_esp2 = 0, t_ss2 = 0, t_cr3 = 0,
     t_eip = 0, t_flags = 0, t_eax = 0, t_ecx = 0, t_edx = 0, t_ebx = 0, t_esp = 0, t_ebp = 0, t_esi = 0, t_edi = 0,
     t_es = 0, t_cs = 0, t_ss = 0, t_ds = 0, t_fs = 0, t_gs = 0, t_ldt = 0, t_trap = 0, t_iobase = 0\<rparr>"

definition init_tss :: "links \<Rightarrow> tables \<Rightarrow> tables" where
  "init_tss L t = t\<lparr>tss := zero_tss\<lparr>t_ss0 := ucast SELECTOR_KERNEL_DS, t_iobase := SIZEOF_TSS\<rparr>,
     gdt := (gdt t)(INDEX_TSS := init_descriptor (seg2linear (gdt t) SELECTOR_KERNEL_DS + tss_at L) (SIZEOF_TSS - 1) DA_386TSS)\<rparr>"

text \<open>
  The loop over the process table sets a descriptor per LDT of two entries; what
  it stores in the process table is \<open>init_prot_proc\<close>.  Steps left, \<open>i\<close>.
\<close>

fun ldt_loop :: "links \<Rightarrow> nat \<Rightarrow> nat \<Rightarrow> tables \<Rightarrow> tables kres" where
  "ldt_loop L 0 i t = Inr t"
| "ldt_loop L (Suc n) i t =
    ensure (INDEX_LDT_FIRST + i < GDT_SIZE) (Assertion ''kernel/protect.c'' 163)
      (ldt_loop L n (Suc i) (t\<lparr>gdt := (gdt t)(INDEX_LDT_FIRST + i :=
         init_descriptor (seg2linear (gdt t) SELECTOR_KERNEL_DS + ldts_at L i) (2 * 8 - 1) DA_LDT)\<rparr>))"

definition init_prot :: "links \<Rightarrow> tables \<Rightarrow> tables kres" where
  "init_prot L t = ldt_loop L NPROC 0 (init_tss L (init_idt L (init_8259A L t)))"

text \<open>
  \<open>cstart\<close>: the loader's GDT, whose limit and address the assembly code has stored in
  \<open>gdt_ptr\<close>, is copied into the kernel's.  A limit that is not that of whole
  descriptors would copy a part of one.
\<close>

definition cstart :: "links \<Rightarrow> (nat \<Rightarrow> descriptor) \<Rightarrow> tables \<Rightarrow> tables kres" where
  "cstart L loader t =
    (let n = unat (fst (gdt_ptr t)) + 1 in
     ensure (n mod 8 = 0 \<and> n \<le> GDT_SIZE * 8) (Bad_access ''gdt'') (
     init_prot L (t\<lparr>gdt := (\<lambda>i. if i < n div 8 then loader i else gdt t i),
       gdt_ptr := (word_of_nat (GDT_SIZE * 8 - 1), gdt_at L), idt_ptr := (word_of_nat (IDT_SIZE * 8 - 1), idt_at L)\<rparr>)))"

section \<open>Exceptions\<close>

definition err_msg :: "string list" where
  "err_msg =
    [''#DE Divide Error'', ''#DB RESERVED'', ''--  NMI Interrupt'', ''#BP Breakpoint'', ''#OF Overflow'',
     ''#BR BOUND Range Exceeded'', ''#UD Invalid Opcode (Undefined Opcode)'',
     ''#NM Device Not Available (No Math Coprocessor)'', ''#DF Double Fault'',
     ''    Coprocessor Segment Overrun (reserved)'', ''#TS Invalid TSS'', ''#NP Segment Not Present'',
     ''#SS Stack-Segment Fault'', ''#GP General Protection'', ''#PF Page Fault'',
     ''--  (Intel reserved. Do not use.)'', ''#MF x87 FPU Floating-Point Error (Math Fault)'',
     ''#AC Alignment Check'', ''#MC Machine Check'', ''#XF SIMD Floating-Point Exception'']"

text \<open>
  What \<open>exception_handler\<close> displays after it has cleared five lines: strings, those
  with \<open>True\<close> in the colour 0x74.  The code compares the int \<open>err_code\<close> with an
  unsigned constant: an exception without an error code has -1 there.
\<close>

definition exception_handler :: "int \<Rightarrow> int \<Rightarrow> int \<Rightarrow> int \<Rightarrow> int \<Rightarrow> (bool \<times> string) list kres" where
  "exception_handler vec_no err_code at_eip at_cs fl =
    ensure (0 \<le> vec_no \<and> vec_no < int (length err_msg)) (Bad_access ''err_msg'')
      (Inr (replicate (80 * 5) (False, '' '') @
        [(True, ''Exception! --> ''), (True, err_msg ! nat vec_no), (True, [CHR 0x0A, CHR 0x0A]),
         (True, ''EFLAGS:''), (False, itoa fl), (True, ''CS:''), (False, itoa at_cs), (True, ''EIP:''), (False, itoa at_eip)] @
        (if (word_of_int err_code :: u32) \<noteq> 0xFFFFFFFF then [(True, ''Error code:''), (False, itoa err_code)] else [])))"

section \<open>What a gate says\<close>

definition gate_target :: "gate \<Rightarrow> u32" where
  "gate_target g = push_bit 16 (ucast (offset_high g)) OR ucast (offset_low g)"

definition gate_dpl :: "gate \<Rightarrow> u8" where
  "gate_dpl g = drop_bit 5 (attr g) AND 3"

definition gate_present :: "gate \<Rightarrow> bool" where
  "gate_present g \<longleftrightarrow> bit (attr g) 7"

definition gate_type :: "gate \<Rightarrow> u8" where
  "gate_type g = attr g AND 0x1F"

lemma gate_target_init [simp]: "gate_target (init_idt_desc t base p) = base"
  unfolding gate_target_def by (rule gate_offset)

lemma gate_init:
  "gate_present (init_idt_desc DA_386IGate h PRIVILEGE_KRNL)" "gate_present (init_idt_desc DA_386IGate h PRIVILEGE_USER)"
  "gate_dpl (init_idt_desc DA_386IGate h PRIVILEGE_KRNL) = 0" "gate_dpl (init_idt_desc DA_386IGate h PRIVILEGE_USER) = 3"
  "gate_type (init_idt_desc DA_386IGate h PRIVILEGE_KRNL) = 0xE" "gate_type (init_idt_desc DA_386IGate h PRIVILEGE_USER) = 0xE"
  "selector (init_idt_desc DA_386IGate h p) = SELECTOR_KERNEL_CS"
  by (simp_all add: gate_present_def gate_dpl_def gate_type_def init_idt_desc_def)

text \<open>The gate of a vector after a sequence of calls is that of the last call for it.\<close>

lemma fold_set_gate:
  "idt (fold (\<lambda>(v, h, p). set_gate v h p) steps t) v =
    (case map_of (rev steps) v of None \<Rightarrow> idt t v | Some (h, p) \<Rightarrow> init_idt_desc DA_386IGate h p)"
  by (induction steps arbitrary: t) (auto simp: set_gate_def map_add_def split: option.splits)

lemma fold_set_gate_frame:
  "master (fold (\<lambda>(v, h, p). set_gate v h p) steps t) = master t" "slave (fold (\<lambda>(v, h, p). set_gate v h p) steps t) = slave t"
  "gdt (fold (\<lambda>(v, h, p). set_gate v h p) steps t) = gdt t" "irq_table (fold (\<lambda>(v, h, p). set_gate v h p) steps t) = irq_table t"
  "gdt_ptr (fold (\<lambda>(v, h, p). set_gate v h p) steps t) = gdt_ptr t" "idt_ptr (fold (\<lambda>(v, h, p). set_gate v h p) steps t) = idt_ptr t"
  by (induction steps arbitrary: t) (auto simp: set_gate_def)

lemma ldt_loop_ok:
  "i + n \<le> NPROC \<Longrightarrow> \<exists>t'. ldt_loop L n i t = Inr t' \<and> idt t' = idt t \<and> master t' = master t \<and> slave t' = slave t \<and>
     irq_table t' = irq_table t \<and> tss t' = tss t \<and> gdt_ptr t' = gdt_ptr t \<and> idt_ptr t' = idt_ptr t \<and>
     (\<forall>j. gdt t' j = (if 5 + i \<le> j \<and> j < 5 + i + n
        then init_descriptor (seg2linear (gdt t) SELECTOR_KERNEL_DS + ldts_at L (j - 5)) 15 DA_LDT else gdt t j))"
proof (induction n arbitrary: i t)
  case (Suc n)
  let ?t = "t\<lparr>gdt := (gdt t)(5 + i := init_descriptor (seg2linear (gdt t) SELECTOR_KERNEL_DS + ldts_at L i) 15 DA_LDT)\<rparr>"
  have s: "seg2linear (gdt ?t) SELECTOR_KERNEL_DS = seg2linear (gdt t) SELECTOR_KERNEL_DS" by (simp add: seg2linear_def)
  from Suc.IH [of "Suc i" ?t] Suc.prems show ?case unfolding s by (auto simp: less_Suc_eq)
qed auto

end
