(* ===== verification/GateProps.thy ===== *)
theory GateProps
  imports Gates
begin

unbundle bit_operations_syntax

text \<open>
  The properties of the tables of the processor and of the interrupt controllers.
\<close>

section \<open>Interrupts\<close>

lemma init_prot_eq:
  "\<exists>t'. init_prot L t = Inr t' \<and> idt t' = idt (init_idt L t) \<and> master t' = master (init_8259A L t) \<and>
     slave t' = slave (init_8259A L t) \<and> irq_table t' = irq_table (init_8259A L t) \<and>
     gdt_ptr t' = gdt_ptr t \<and> idt_ptr t' = idt_ptr t \<and> tss t' = zero_tss\<lparr>t_ss0 := 0x10, t_iobase := SIZEOF_TSS\<rparr> \<and>
     (\<forall>j. gdt t' j = (if j = 4 then init_descriptor (seg2linear (gdt t) SELECTOR_KERNEL_DS + tss_at L) (SIZEOF_TSS - 1) DA_386TSS
        else if 5 \<le> j \<and> j < 42 then init_descriptor (seg2linear (gdt t) SELECTOR_KERNEL_DS + ldts_at L (j - 5)) 15 DA_LDT
        else gdt t j))"
proof -
  let ?u = "init_tss L (init_idt L (init_8259A L t))"
  have g: "gdt (init_8259A L t) = gdt t" "idt (init_8259A L t) = idt t"
    "gdt_ptr (init_8259A L t) = gdt_ptr t" "idt_ptr (init_8259A L t) = idt_ptr t"
    by (simp_all add: init_8259A_def out_byte_def Let_def)
  have i: "idt (init_idt L (init_8259A L t)) = idt (init_idt L t)"
    unfolding init_idt_def fun_eq_iff fold_set_gate g by simp
  have f: "gdt (init_idt L x) = gdt x" "master (init_idt L x) = master x" "slave (init_idt L x) = slave x"
    "irq_table (init_idt L x) = irq_table x" "gdt_ptr (init_idt L x) = gdt_ptr x" "idt_ptr (init_idt L x) = idt_ptr x" for x
    by (simp_all only: init_idt_def fold_set_gate_frame)
  have b: "seg2linear (gdt ?u) SELECTOR_KERNEL_DS = seg2linear (gdt t) SELECTOR_KERNEL_DS"
    by (simp add: init_tss_def seg2linear_def f g)
  have "0 + NPROC \<le> (NPROC :: nat)" by simp
  from ldt_loop_ok [OF this, of L ?u] show ?thesis
    unfolding init_prot_def b by (auto simp: init_tss_def f g i)
qed

lemma pics_after_init:
  "pic_vector (master (init_8259A L t)) = 0x20" "pic_mask (master (init_8259A L t)) = 0xFE"
  "pic_icw (master (init_8259A L t)) = 0" "pic_vector (slave (init_8259A L t)) = 0x28"
  "pic_mask (slave (init_8259A L t)) = 0xFF" "pic_icw (slave (init_8259A L t)) = 0"
  "irq_table (init_8259A L t) i = (if i < NR_IRQ then spurious L else irq_table t i)"
  by (simp_all add: init_8259A_def out_byte_def pic_command_def pic_data_def Let_def)

lemma irq_below: "n < 16 \<Longrightarrow> n \<in> {0, 1, 2, 3, 4, 5, 6, 7, 8, 9, 10, 11, 12, 13, 14, 15 :: nat}"
  unfolding insert_iff empty_iff by presburger

lemma irq_gate:
  assumes "n < NR_IRQ"
  shows "idt (init_idt L t) (INT_VECTOR_IRQ0 + n) = init_idt_desc DA_386IGate (hwint L n) PRIVILEGE_KRNL"
proof -
  have "map_of (rev (exception_gates L @ irq_gates L @ [(INT_VECTOR_SYS_CALL, sys_call L, PRIVILEGE_USER)])) (32 + n) =
    Some (hwint L n, PRIVILEGE_KRNL)"
    using irq_below [OF assms] by (auto simp: exception_gates_def irq_gates_def)
  then show ?thesis unfolding init_idt_def fold_set_gate by simp
qed

text \<open>
  C36: after \<open>init_prot\<close> and the installation of the three handlers every interrupt
  line reaches its own entry point: the controllers raise line \<open>n\<close> at vector
  \<open>INT_VECTOR_IRQ0 + n\<close>, the gate there leads to \<open>hwint\<close> \<open>n\<close>, and the handler that this
  calls is that of the clock, the keyboard or the disk, or the spurious one; exactly
  the lines 0, 1, 2 and 14 are enabled, and the lines of the handlers are among them.
\<close>

theorem interrupts_wired:
  "\<exists>t1. init_prot L t = Inr t1 \<and>
     (let u = init_hd_irq L (init_keyboard_irq L (init_clock L t1)) in
      \<forall>n \<in> {..<NR_IRQ}. (let p = (if n < 8 then master u else slave u) in
        unat (pic_vector p) + n mod 8 = INT_VECTOR_IRQ0 + n \<and>
        gate_present (idt u (INT_VECTOR_IRQ0 + n)) \<and> gate_target (idt u (INT_VECTOR_IRQ0 + n)) = hwint L n \<and>
        (bit (pic_mask p) (n mod 8) \<longleftrightarrow> n \<notin> {CLOCK_IRQ, KEYBOARD_IRQ, CASCADE_IRQ, AT_WINI_IRQ}) \<and>
        irq_table u n = (if n = CLOCK_IRQ then clock_entry L else if n = KEYBOARD_IRQ then keyboard_entry L
          else if n = AT_WINI_IRQ then hd_entry L else spurious L)))"
proof -
  obtain t1 where t1: "init_prot L t = Inr t1" "idt t1 = idt (init_idt L t)" "master t1 = master (init_8259A L t)"
    "slave t1 = slave (init_8259A L t)" "irq_table t1 = irq_table (init_8259A L t)"
    using init_prot_eq [of L t] by blast
  let ?u = "init_hd_irq L (init_keyboard_irq L (init_clock L t1))"
  note defs = init_hd_irq_def init_keyboard_irq_def init_clock_def put_irq_handler_def enable_irq_def disable_irq_def
    out_byte_def pic_data_def
  have u: "pic_vector (master ?u) = 0x20" "pic_vector (slave ?u) = 0x28" "pic_mask (master ?u) = 0xF8" "pic_mask (slave ?u) = 0xBF"
    "idt ?u = idt t1" "irq_table ?u = (irq_table t1)(0 := clock_entry L, 1 := keyboard_entry L, 14 := hd_entry L)"
    by (simp_all add: defs t1 pics_after_init)
  have "let p = (if n < 8 then master ?u else slave ?u) in
        unat (pic_vector p) + n mod 8 = INT_VECTOR_IRQ0 + n \<and>
        gate_present (idt ?u (INT_VECTOR_IRQ0 + n)) \<and> gate_target (idt ?u (INT_VECTOR_IRQ0 + n)) = hwint L n \<and>
        (bit (pic_mask p) (n mod 8) \<longleftrightarrow> n \<notin> {CLOCK_IRQ, KEYBOARD_IRQ, CASCADE_IRQ, AT_WINI_IRQ}) \<and>
        irq_table ?u n = (if n = CLOCK_IRQ then clock_entry L else if n = KEYBOARD_IRQ then keyboard_entry L
          else if n = AT_WINI_IRQ then hd_entry L else spurious L)" if n: "n < NR_IRQ" for n
    using irq_below [OF n] irq_gate [OF n, of L t] unfolding Let_def
    by (elim insertE emptyE) (simp_all add: u t1(2,5) pics_after_init gate_init)
  then show ?thesis using t1(1) by (auto simp: Let_def)
qed

section \<open>What user processes can reach\<close>

lemma gate_table:
  "map_of (rev (exception_gates L @ irq_gates L @ [(INT_VECTOR_SYS_CALL, sys_call L, PRIVILEGE_USER)])) v = Some (h, p) \<Longrightarrow>
   (p = PRIVILEGE_USER \<or> p = PRIVILEGE_KRNL) \<and> (p = PRIVILEGE_USER \<longleftrightarrow> v \<in> {3, 4, INT_VECTOR_SYS_CALL}) \<and>
   h = (if v = INT_VECTOR_SYS_CALL then sys_call L else if v < 0x20 then exception_entry L v else hwint L (v - 0x20))"
  by (auto simp: exception_gates_def irq_gates_def split: if_splits)

text \<open>
  C35: after \<open>init_prot\<close>, started from a table without gates, the gates a user process
  can call are those of the breakpoint, the overflow and the system call, and no
  others: every gate present is an interrupt gate into the kernel's code segment,
  leads to the entry point of its vector, and all but these three have privilege 0.
\<close>

theorem user_gates:
  assumes "\<forall>v. \<not> gate_present (idt t v)"
  shows "\<exists>t1. init_prot L t = Inr t1 \<and>
    {v. gate_present (idt t1 v) \<and> gate_dpl (idt t1 v) \<noteq> 0} = {3, 4, INT_VECTOR_SYS_CALL} \<and>
    (\<forall>v. gate_present (idt t1 v) \<longrightarrow> gate_type (idt t1 v) = 0xE \<and> selector (idt t1 v) = SELECTOR_KERNEL_CS \<and>
      gate_target (idt t1 v) = (if v = INT_VECTOR_SYS_CALL then sys_call L
        else if v < 0x20 then exception_entry L v else hwint L (v - 0x20)))"
proof -
  obtain t1 where t1: "init_prot L t = Inr t1" "idt t1 = idt (init_idt L t)" using init_prot_eq [of L t] by blast
  define m where "m = map_of (rev (exception_gates L @ irq_gates L @ [(INT_VECTOR_SYS_CALL, sys_call L, PRIVILEGE_USER)]))"
  have g: "idt t1 v = (case m v of None \<Rightarrow> idt t v | Some (h, p) \<Rightarrow> init_idt_desc DA_386IGate h p)" for v
    unfolding t1(2) init_idt_def m_def by (rule fold_set_gate)
  have tab: "m v = Some (h, p) \<Longrightarrow> (p = PRIVILEGE_USER \<or> p = PRIVILEGE_KRNL) \<and> (p = PRIVILEGE_USER \<longleftrightarrow> v \<in> {3, 4, INT_VECTOR_SYS_CALL}) \<and>
      h = (if v = INT_VECTOR_SYS_CALL then sys_call L else if v < 0x20 then exception_entry L v else hwint L (v - 0x20))" for v h p
    unfolding m_def by (rule gate_table)
  have here: "m 3 \<noteq> None" "m 4 \<noteq> None" "m INT_VECTOR_SYS_CALL \<noteq> None"
    by (simp_all add: m_def exception_gates_def irq_gates_def)
  have present: "gate_present (idt t1 v) \<longleftrightarrow> m v \<noteq> None" for v
  proof (cases "m v")
    case (Some hp)
    then show ?thesis using tab [of v "fst hp" "snd hp"] unfolding g by (auto simp: gate_init split: prod.splits)
  qed (use assms in \<open>simp add: g\<close>)
  have facts: "gate_type (idt t1 v) = 0xE \<and> selector (idt t1 v) = SELECTOR_KERNEL_CS \<and>
      (gate_dpl (idt t1 v) \<noteq> 0 \<longleftrightarrow> v \<in> {3, 4, INT_VECTOR_SYS_CALL}) \<and>
      gate_target (idt t1 v) = (if v = INT_VECTOR_SYS_CALL then sys_call L
        else if v < 0x20 then exception_entry L v else hwint L (v - 0x20))" if v: "m v = Some (h, p)" for v h p
  proof -
    have "idt t1 v = init_idt_desc DA_386IGate h p" unfolding g v by simp
    moreover note tab [OF v]
    ultimately show ?thesis by (auto simp: gate_init)
  qed
  have "{v. gate_present (idt t1 v) \<and> gate_dpl (idt t1 v) \<noteq> 0} = {3, 4, INT_VECTOR_SYS_CALL}"
    using here facts unfolding present by (intro set_eqI) fastforce
  moreover have "gate_type (idt t1 v) = 0xE \<and> selector (idt t1 v) = SELECTOR_KERNEL_CS \<and>
      gate_target (idt t1 v) = (if v = INT_VECTOR_SYS_CALL then sys_call L
        else if v < 0x20 then exception_entry L v else hwint L (v - 0x20))" if "gate_present (idt t1 v)" for v
    using facts that unfolding present by fastforce
  ultimately show ?thesis using t1(1) by blast
qed

definition sample_links :: links where
  "sample_links = \<lparr>exception_entry = (\<lambda>v. 0x30500 + of_nat v * 16), hwint = (\<lambda>n. 0x30700 + of_nat n * 16),
     sys_call = 0x30900, spurious = 0x30A00, clock_entry = 0x30B00, keyboard_entry = 0x30C00, hd_entry = 0x30D00,
     gdt_at = 0x40000, idt_at = 0x41000, tss_at = 0x42000, ldts_at = (\<lambda>i. 0x43000 + of_nat i * 0x100)\<rparr>"

definition zero_gate :: gate where
  "zero_gate = \<lparr>offset_low = 0, selector = 0, dcount = 0, attr = 0, offset_high = 0\<rparr>"

definition zero_pic :: pic where
  "zero_pic = \<lparr>pic_icw = 0, pic_icw1 = 0, pic_vector = 0, pic_cascade = 0, pic_mask = 0\<rparr>"

definition sample_tables :: tables where
  "sample_tables = \<lparr>gdt = (\<lambda>_. zero_desc), idt = (\<lambda>_. zero_gate), gdt_ptr = (31, 0x7E00), idt_ptr = (0, 0), tss = zero_tss,
     irq_table = (\<lambda>_. 0), master = zero_pic, slave = zero_pic, ports = []\<rparr>"

theorem interrupts_wired_witness:
  "\<exists>t1. init_prot sample_links sample_tables = Inr t1 \<and>
     (let u = init_hd_irq sample_links (init_keyboard_irq sample_links (init_clock sample_links t1)) in
      gate_target (idt u 0x2E) = 0x307E0 \<and> irq_table u 14 = 0x30D00 \<and> irq_table u 3 = 0x30A00)"
proof -
  have m: "14 \<in> {..<NR_IRQ}" "3 \<in> {..<NR_IRQ}" by simp_all
  obtain t1 where t1: "init_prot sample_links sample_tables = Inr t1"
    and a: "let u = init_hd_irq sample_links (init_keyboard_irq sample_links (init_clock sample_links t1)) in
      \<forall>n \<in> {..<NR_IRQ}. (let p = (if n < 8 then master u else slave u) in
        unat (pic_vector p) + n mod 8 = INT_VECTOR_IRQ0 + n \<and>
        gate_present (idt u (INT_VECTOR_IRQ0 + n)) \<and> gate_target (idt u (INT_VECTOR_IRQ0 + n)) = hwint sample_links n \<and>
        (bit (pic_mask p) (n mod 8) \<longleftrightarrow> n \<notin> {CLOCK_IRQ, KEYBOARD_IRQ, CASCADE_IRQ, AT_WINI_IRQ}) \<and>
        irq_table u n = (if n = CLOCK_IRQ then clock_entry sample_links else if n = KEYBOARD_IRQ then keyboard_entry sample_links
          else if n = AT_WINI_IRQ then hd_entry sample_links else spurious sample_links))"
    using interrupts_wired [of sample_links sample_tables] by blast
  from bspec [OF a [unfolded Let_def] m(1)] bspec [OF a [unfolded Let_def] m(2)] t1 show ?thesis
    by (intro exI [of _ t1]) (simp add: Let_def sample_links_def)
qed

theorem user_gates_witness:
  "\<exists>t1. init_prot sample_links sample_tables = Inr t1 \<and> gate_dpl (idt t1 0xE) = 0 \<and> gate_present (idt t1 0x90)"
proof -
  have "\<forall>v. \<not> gate_present (idt sample_tables v)" by (simp add: sample_tables_def zero_gate_def gate_present_def)
  from user_gates [OF this, of sample_links] obtain t1 where t1: "init_prot sample_links sample_tables = Inr t1"
    and s: "{v. gate_present (idt t1 v) \<and> gate_dpl (idt t1 v) \<noteq> 0} = {3, 4, INT_VECTOR_SYS_CALL}" by blast
  have "(0x90 :: nat) \<in> {v. gate_present (idt t1 v) \<and> gate_dpl (idt t1 v) \<noteq> 0}" unfolding s by simp
  moreover have "(0xE :: nat) \<notin> {v. gate_present (idt t1 v) \<and> gate_dpl (idt t1 v) \<noteq> 0}" unfolding s by simp
  moreover have "gate_present (idt t1 0xE)"
  proof -
    obtain u where "init_prot sample_links sample_tables = Inr u" "idt u = idt (init_idt sample_links sample_tables)"
      using init_prot_eq [of sample_links sample_tables] by blast
    then have "idt t1 0xE = idt (init_idt sample_links sample_tables) 0xE" using t1 by simp
    then show ?thesis by (simp add: init_idt_def exception_gates_def irq_gates_def set_gate_def gate_init)
  qed
  ultimately show ?thesis using t1 by blast
qed

section \<open>Descriptors\<close>

text \<open>
  \<open>cstart\<close> keeps the descriptors of the loader, and every process's LDT selector
  names its own descriptor, which spans the two entries of the process's LDT; the
  TSS has no I\<open>/\<close>O permission map (its base is beyond the limit of the segment), so
  only tasks of privilege 1 reach the ports.
\<close>

theorem descriptors_wired:
  assumes "fst (gdt_ptr t) = word_of_nat (8 * n - 1)" and "4 \<le> n" and "n \<le> 5" and "desc_base (loader 2) = 0"
  shows "\<exists>t1. cstart L loader t = Inr t1 \<and> (\<forall>j \<in> {..<4}. gdt t1 j = loader j) \<and>
    (\<forall>i \<in> {..<NPROC}. (let d = gdt t1 (unat (drop_bit 3 (ldt_sel (init_prot_proc i)))) in
       desc_base d = ldts_at L i \<and> desc_limit d = 2 * 8 - 1 \<and> attr1 d = DA_LDT)) \<and>
    (let d = gdt t1 INDEX_TSS in desc_base d = tss_at L \<and> attr1 d = 0x89 \<and> desc_limit d < ucast (t_iobase (tss t1))) \<and>
    gdt_ptr t1 = (1023, gdt_at L) \<and> idt_ptr t1 = (2047, idt_at L)"
proof -
  have n: "unat (fst (gdt_ptr t)) + 1 = 8 * n"
  proof -
    have "n = 4 \<or> n = 5" using assms(2,3) by linarith
    then show ?thesis using assms(1) by auto
  qed
  let ?t = "t\<lparr>gdt := (\<lambda>i. if i < n then loader i else gdt t i), gdt_ptr := (word_of_nat (GDT_SIZE * 8 - 1), gdt_at L),
    idt_ptr := (word_of_nat (IDT_SIZE * 8 - 1), idt_at L)\<rparr>"
  have c: "cstart L loader t = init_prot L ?t" unfolding cstart_def Let_def n using assms(3) by simp
  have z: "seg2linear (gdt ?t) SELECTOR_KERNEL_DS = 0" using assms(2,4) by (simp add: seg2linear_def)
  obtain t1 where t1: "init_prot L ?t = Inr t1" "gdt_ptr t1 = gdt_ptr ?t" "idt_ptr t1 = idt_ptr ?t"
    "tss t1 = zero_tss\<lparr>t_ss0 := 0x10, t_iobase := SIZEOF_TSS\<rparr>"
    and g: "\<And>j. gdt t1 j = (if j = 4 then init_descriptor (0 + tss_at L) (SIZEOF_TSS - 1) DA_386TSS
        else if 5 \<le> j \<and> j < 42 then init_descriptor (0 + ldts_at L (j - 5)) 15 DA_LDT else gdt ?t j)"
    using init_prot_eq [of L ?t] unfolding z by blast
  have sel: "unat (drop_bit 3 (ldt_sel (init_prot_proc i))) = 5 + i" if "i < 37" for i
  proof -
    have "ldt_sel (init_prot_proc i) = word_of_nat ((5 + i) * 8)" by (simp add: init_prot_proc_def)
    moreover have "unat (word_of_nat ((5 + i) * 8) :: u16) = (5 + i) * 8"
      using that by (simp only: unsigned_of_nat of_nat_id) (rule take_bit_nat_eq_self, simp)
    ultimately have "unat (drop_bit 3 (ldt_sel (init_prot_proc i))) = drop_bit 3 ((5 + i) * 8)"
      by (simp only: unat_drop_bit_eq)
    then show ?thesis by (simp add: drop_bit_eq_div)
  qed
  show ?thesis
    unfolding c using t1 assms(2) by (auto simp: g sel Let_def desc_limit_init attr1_init)
qed

theorem descriptors_wired_witness:
  "\<exists>t1. cstart sample_links (\<lambda>_. zero_desc) sample_tables = Inr t1 \<and> gdt_ptr t1 = (1023, 0x40000)"
  using descriptors_wired [of sample_tables 4 "\<lambda>_. zero_desc" sample_links]
  by (auto simp: sample_tables_def sample_links_def zero_desc_def desc_base_def)

end
