(* ===== verification/Exchange.thy ===== *)
theory Exchange
  imports KernelProps Syscalls
begin

unbundle bit_operations_syntax

text \<open>
  A call of a process to a task, on the kernel: the process stores its message in its
  buffer and traps; when it is blocked, the task, which waits for requests, serves
  the message that it has got and waits again.  Every trap is \<open>sys_sendrec\<close> itself, on the
  process table and the memory of the kernel.
\<close>

section \<open>A message in memory\<close>

definition message_words :: "message \<Rightarrow> u32 list" where
  "message_words m = [word_of_int (source m), word_of_int (msgtype m), word_of_int (m3i1 m), word_of_int (m3i2 m),
     word_of_int (m3i3 m), word_of_int (m3i4 m), ucast (m3l1 m), ucast (drop_bit 32 (m3l1 m)),
     ucast (m3l2 m), ucast (drop_bit 32 (m3l2 m)), m3p1 m, m3p2 m]"

definition write_message :: "memory \<Rightarrow> u32 \<Rightarrow> message \<Rightarrow> memory" where
  "write_message st a m = (\<lambda>b. let i = unat (b - a) in
     if i < MESSAGE_SIZE then ucast (drop_bit (8 * (i mod 4)) (message_words m ! (i div 4))) else st b)"

text \<open>The message with its members as C ints.\<close>

definition as_stored :: "message \<Rightarrow> message" where
  "as_stored m = m\<lparr>source := cint (source m), msgtype := cint (msgtype m), m3i1 := cint (m3i1 m), m3i2 := cint (m3i2 m),
     m3i3 := cint (m3i3 m), m3i4 := cint (m3i4 m)\<rparr>"

lemma write_message_other: "MESSAGE_SIZE \<le> unat (b - a) \<Longrightarrow> write_message st a m b = st b"
  by (simp add: write_message_def Let_def)

lemma write_message_word:
  assumes "k < 12"
  shows "ld32 (write_message st a m) (a + word_of_nat (4 * k)) = message_words m ! k"
proof -
  have byte: "write_message st a m (a + word_of_nat (4 * k) + word_of_nat j) = ucast (drop_bit (8 * j) (message_words m ! k))"
    if "j < 4" for j
  proof -
    have e: "a + word_of_nat (4 * k) + word_of_nat j - a = (word_of_nat (4 * k + j) :: u32)" by simp
    have "4 * k + j < 2 ^ 32" using that assms by simp
    then have "unat (a + word_of_nat (4 * k) + word_of_nat j - a) = 4 * k + j" unfolding e by (simp add: unat_of_nat del: of_nat_add)
    then show ?thesis using that assms by (simp add: write_message_def)
  qed
  show ?thesis
    unfolding ld32_def using byte [of 0] byte [of 1] byte [of 2] byte [of 3] word32_bytes [of "message_words m ! k"] by simp
qed

lemma word64_halves:
  fixes v :: u64
  shows "ucast (ucast v :: u32) OR push_bit 32 (ucast (ucast (drop_bit 32 v) :: u32)) = v"
proof (rule bit_word_eqI)
  fix n assume "n < LENGTH(64)"
  then consider "n < 32" | "32 \<le> n" "n < 64" by fastforce
  then show "bit (ucast (ucast v :: u32) OR push_bit 32 (ucast (ucast (drop_bit 32 v) :: u32)) :: u64) n = bit v n"
    by cases (auto simp: bit_simps)
qed

lemma read_write_message: "read_message (write_message st a m) a = as_stored m"
proof -
  note w = write_message_word [of _ st a m]
  show ?thesis
    using w [of 0] w [of 1] w [of 2] w [of 3] w [of 4] w [of 5] w [of 6] w [of 7] w [of 8] w [of 9] w [of 10] w [of 11]
    by (simp add: read_message_def ld64_def as_stored_def message_words_def cint_def word64_halves add.assoc)
qed

lemma read_message_cong:
  assumes "\<And>b. unat (b - a) < MESSAGE_SIZE \<Longrightarrow> st' b = st b"
  shows "read_message st' a = read_message st a"
proof -
  have "st' (a + word_of_nat k + word_of_nat j) = st (a + word_of_nat k + word_of_nat j)" if "k + j < 48" for k j
  proof (rule assms)
    have "a + word_of_nat k + word_of_nat j - a = (word_of_nat (k + j) :: u32)" by simp
    then show "unat (a + word_of_nat k + word_of_nat j - a) < MESSAGE_SIZE"
      using that by (simp add: unat_of_nat del: of_nat_add)
  qed
  from this [of _ 0] this [of _ 1] this [of _ 2] this [of _ 3]
  have w: "ld32 st' (a + word_of_nat k) = ld32 st (a + word_of_nat k)" if "k + 4 \<le> 48" for k
    using that by (intro ld32_cong) simp_all
  show ?thesis
    using w [of 0] w [of 4] w [of 8] w [of 12] w [of 16] w [of 20] w [of 24] w [of 28] w [of 32] w [of 36] w [of 40] w [of 44]
    by (simp add: read_message_def ld64_def add.assoc)
qed

section \<open>Traps and rounds\<close>

text \<open>Process \<open>p\<close>, which is ready, gets the processor, stores a message in its buffer and traps.\<close>

definition trap :: "nat \<Rightarrow> u32 \<Rightarrow> int \<Rightarrow> int \<Rightarrow> message \<Rightarrow> kstate \<Rightarrow> kstate kres" where
  "trap p buf f src_dest m k =
    ensure (p < NPROC \<and> p_flags (proc_table k p) = 0) Hang
      (sys_sendrec (k\<lparr>p_proc_ready := p, mem := write_message (mem k) (lin (proc_table k) p buf) m\<rparr>) f src_dest buf p)"

text \<open>
  One round of the loop of a task, from \<open>send_recv(RECEIVE, ANY, &msg)\<close> to the next:
  \<open>step\<close> is what the task does with a message, on the kernel's memory and table and on a
  state of its own.
\<close>

type_synonym 's task = "message \<Rightarrow> kstate \<times> 's \<Rightarrow> ((int \<times> message) option \<times> (kstate \<times> 's)) kres"

definition task_round :: "nat \<Rightarrow> u32 \<Rightarrow> 's task \<Rightarrow> kstate \<times> 's \<Rightarrow> (kstate \<times> 's) kres" where
  "task_round q sbuf step ks =
    ensure (p_flags (proc_table (fst ks) q) = 0) Hang (
    rbind (step (read_message (mem (fst ks)) (lin (proc_table (fst ks)) q sbuf)) ks) (\<lambda>(answer, (k1, s1)).
    rbind (case answer of None \<Rightarrow> Inr k1 | Some (dest, r) \<Rightarrow> trap q sbuf SEND dest r k1) (\<lambda>k2.
    rbind (trap q sbuf RECEIVE ANY zero_message k2) (\<lambda>k3. Inr (k3, s1)))))"

text \<open>
  The trap \<open>sendrec\<close> of process \<open>p\<close> as the library sees it: it comes back with the message
  in the buffer when the process is ready again, if need be after a round of the task.
\<close>

definition task_port :: "nat \<Rightarrow> u32 \<Rightarrow> nat \<Rightarrow> u32 \<Rightarrow> 's task \<Rightarrow> (kstate \<times> 's) port" where
  "task_port p buf q sbuf step f src_dest m ks =
    rbind (trap p buf f src_dest m (fst ks)) (\<lambda>k1.
    rbind (if p_flags (proc_table k1 p) = 0 then Inr (k1, snd ks) else task_round q sbuf step (k1, snd ks)) (\<lambda>(k2, s2).
    ensure (p_flags (proc_table k2 p) = 0) Hang
      (Inr (0, read_message (mem k2) (lin (proc_table k2) p buf), (k2, s2)))))"

section \<open>The traps\<close>

lemma good_ready: "good k Q \<Longrightarrow> p < NPROC \<Longrightarrow> p_flags (proc_table k p) = 0 \<Longrightarrow> good (k\<lparr>p_proc_ready := p, mem := st\<rparr>) Q"
  by (simp add: good_def running_ok_def)

lemma trap_eq:
  "p < NPROC \<Longrightarrow> p_flags (proc_table k p) = 0 \<Longrightarrow> trap p buf f sd m k =
    sys_sendrec (k\<lparr>p_proc_ready := p, mem := write_message (mem k) (lin (proc_table k) p buf) m\<rparr>) f sd buf p"
  by (simp add: trap_def)

lemma areas_apart:
  fixes a b x :: u32
  assumes "n \<le> unat (b - a)" and "n \<le> unat (a - b)" and "unat (x - b) < n"
  shows "\<not> unat (x - a) < n"
proof
  assume y: "unat (x - a) < n"
  have "b - a = (x - a) - (x - b)" "a - b = (x - b) - (x - a)" by simp_all
  then show False
    using assms y by (cases "x - b \<le> x - a") (metis not_less unat_sub less_imp_diff_less, metis nle_le not_less unat_sub less_imp_diff_less)
qed

text \<open>A send to a process that waits for it.\<close>

lemma trap_send:
  assumes g: "good k Q" and p: "p < NPROC" "p_flags (proc_table k p) = 0" and d: "d < NPROC" "p \<noteq> d"
    and w: "p_flags (proc_table k d) = RECEIVING" "p_recvfrom (proc_table k d) = int p \<or> p_recvfrom (proc_table k d) = ANY"
    and buf: "buf \<noteq> 0" and a: "a = lin (proc_table k) p buf" and b: "b = lin (proc_table k) d (p_msg (proc_table k d))"
    and apart: "MESSAGE_SIZE \<le> unat (b - a)" "MESSAGE_SIZE \<le> unat (a - b)"
  shows "\<exists>st. trap p buf SEND (int d) m k = Inr (k\<lparr>p_proc_ready := p, mem := st, proc_table := upd_proc d wake_receiver (proc_table k)\<rparr>) \<and>
    read_message st b = (as_stored m)\<lparr>source := int p\<rparr> \<and> read_message st a = (as_stored m)\<lparr>source := int p\<rparr> \<and>
    (\<forall>x. MESSAGE_SIZE \<le> unat (x - a) \<longrightarrow> MESSAGE_SIZE \<le> unat (x - b) \<longrightarrow> st x = mem k x)"
proof -
  let ?k = "k\<lparr>p_proc_ready := p, mem := write_message (mem k) a m\<rparr>"
  let ?s = "stamp ?k p buf"
  have gk: "good ?k Q" by (rule good_ready [OF g p])
  note inv = good_inv [OF gk]
  have "ready_for (proc_table ?s) p d" using w by (simp add: ready_for_def)
  moreover have "(d, p) \<notin> (waits_for (proc_table ?s))\<^sup>+" using w(1) by (auto simp: waits_for_def dest: tranclD)
  ultimately have run: "sys_sendrec ?k SEND (int d) buf p = Inr (?s\<lparr>mem := memcpy (mem ?s) b a MESSAGE_SIZE,
      proc_table := upd_proc d wake_receiver (proc_table k)\<rparr>)"
    using sys_send_eq [OF inv_flat [OF inv] good_enter [OF gk] d, of buf] msg_send_cases [of ?s Q p d buf]
      deliver_eq [of ?s Q p d buf] inv p d w(1) buf by (simp add: a b)
  define st where "st = memcpy (mem ?s) b a MESSAGE_SIZE"
  have s1: "mem ?s = st32 (write_message (mem k) a m) a (word_of_nat p)" by (simp add: stamp_def a)
  have cp: "st x = (if unat (x - b) < 48 then mem ?s (a + (x - b)) else mem ?s x)" for x
    unfolding st_def by (rule memcpy_spec) (use apart(1) in simp_all)
  have src: "read_message (mem ?s) a = (as_stored m)\<lparr>source := int p\<rparr>"
    using p(1) by (simp add: s1 read_message_stamp read_write_message sint_pid)
  have "read_message st b = read_message (mem ?s) a"
    unfolding st_def by (rule read_message_memcpy) (use apart(1) in simp)
  moreover have "read_message st a = read_message (mem ?s) a"
  proof (rule read_message_cong)
    fix x assume x: "unat (x - a) < 48"
    have "\<not> unat (x - b) < 48" using areas_apart [OF apart(2,1) x] .
    then show "st x = mem ?s x" by (simp add: cp)
  qed
  moreover have "st x = mem k x" if "48 \<le> unat (x - a)" "48 \<le> unat (x - b)" for x
    using that by (simp add: cp s1 st32_other write_message_other)
  moreover have "trap p buf SEND (int d) m k = Inr (k\<lparr>p_proc_ready := p, mem := st, proc_table := upd_proc d wake_receiver (proc_table k)\<rparr>)"
    using run p by (simp add: trap_eq a st_def stamp_def)
  ultimately show ?thesis using src by auto
qed

text \<open>A receive that has nobody to receive from.\<close>

lemma wait_to_receive_frame:
  assumes "wait_to_receive s who src m = Inr s'" and "idle_ok (proc_table s)" and "who \<noteq> TEST_A"
  shows "filp (proc_table s' x) = filp (proc_table s x)" and "sys_ticks s' = sys_ticks s" and "mem s' = mem s" and "k_reenter s' = k_reenter s"
proof -
  let ?pt = "upd_proc who (\<lambda>p. p\<lparr>p_flags := p_flags p OR RECEIVING, p_msg := m, p_recvfrom := src\<rparr>) (proc_table s)"
  have idle: "idle_ok (proc_table (s\<lparr>proc_table := ?pt\<rparr>))" using assms(2,3) by (simp add: idle_ok_def upd_proc_apply)
  obtain pt r where sc: "schedule (s\<lparr>proc_table := ?pt\<rparr>) = Some (s\<lparr>proc_table := ?pt, proc_table := pt, p_proc_ready := r\<rparr>)"
    "pt = ?pt \<or> pt = reset_ticks ?pt"
    by (rule schedule_cases [OF idle_can_schedule [OF idle]], rule that) simp_all
  have f: "filp (pt x) = filp (proc_table s x)" for x using sc(2) by (auto simp: reset_ticks_def upd_proc_apply)
  have s': "s' = s\<lparr>proc_table := upd_proc who (\<lambda>p. p\<lparr>p_flags := RECEIVING\<rparr>) pt, p_proc_ready := r\<rparr>"
    using assms(1) sc(1) by (auto simp: wait_to_receive_def block_def Let_def split: if_splits)
  show "filp (proc_table s' x) = filp (proc_table s x)" "sys_ticks s' = sys_ticks s" "mem s' = mem s" "k_reenter s' = k_reenter s"
    using f by (simp_all add: s' upd_proc_apply)
qed

lemma trap_receive:
  assumes g: "good k Q" and p: "p < NPROC" "p \<noteq> TEST_A" "p_flags (proc_table k p) = 0" "has_int_msg (proc_table k p) = 0"
    and src: "(src = ANY \<and> Q p = []) \<or> (src = int f \<and> f < NPROC \<and> f \<notin> set (Q p) \<and> f \<noteq> p)" and buf: "buf \<noteq> 0"
    and a: "a = lin (proc_table k) p buf"
  shows "\<exists>k'. trap p buf RECEIVE src m k = Inr k' \<and> good k' Q \<and>
    p_flags (proc_table k' p) = RECEIVING \<and> p_msg (proc_table k' p) = buf \<and> p_recvfrom (proc_table k' p) = src \<and>
    has_int_msg (proc_table k' p) = 0 \<and> (\<forall>x. x \<noteq> p \<longrightarrow> same_ipc (proc_table k x) (proc_table k' x)) \<and>
    (\<forall>x. filp (proc_table k' x) = filp (proc_table k x) \<and> ldts (proc_table k' x) = ldts (proc_table k x)) \<and>
    sys_ticks k' = sys_ticks k \<and> (\<forall>x. MESSAGE_SIZE \<le> unat (x - a) \<longrightarrow> mem k' x = mem k x)"
proof -
  let ?k = "k\<lparr>p_proc_ready := p, mem := write_message (mem k) a m\<rparr>"
  let ?s = "stamp ?k p buf"
  have gs: "good ?s Q" unfolding good_stamp by (rule good_ready [OF g p(1,3)])
  have ne: "int p \<noteq> src" "src \<noteq> NO_TASK" "src = ANY \<or> src = INTERRUPT \<or> (0 \<le> src \<and> src < NPROC)"
    using src p(1) by auto
  have sel: "select_sender (proc_table ?s) p src = Inr None"
    using src select_any [OF good_inv [OF gs] p(1)] select_named(1) [OF good_inv [OF gs] p(1), of f] p(3) by auto
  have rcv: "msg_receive ?s p src buf = wait_to_receive ?s p src buf"
    using ne(1) sel p(4) by (simp add: msg_receive_def Let_def)
  have run: "trap p buf RECEIVE src m k = wait_to_receive ?s p src buf"
    using sys_receive_eq [of ?k p src buf] inv_flat [OF good_inv [OF gs]] good_enter [OF gs] ne p rcv by (simp add: trap_eq a)
  obtain pt r where w: "wait_to_receive ?s p src buf = Inr (?s\<lparr>proc_table := pt, p_proc_ready := r\<rparr>)"
    and inv: "ipc_inv pt Q" "runnable pt r" "same_ipc (mark_receiver src buf (proc_table ?s p)) (pt p)"
      "\<And>x. x \<noteq> p \<Longrightarrow> same_ipc (proc_table ?s x) (pt x)"
  proof (rule wait_to_receive_cases [OF good_inv [OF gs] p(1,2) _ buf ne(2)], goal_cases)
    case (2 pt r)
    show ?case by (rule 2(1) [OF _ 2(3-6)]) (use 2(2) p(4) in simp)
  qed (use p(3) in simp)
  let ?k' = "?s\<lparr>proc_table := pt, p_proc_ready := r\<rparr>"
  note fr = wait_to_receive_frame [OF w inv_idle [OF good_inv [OF gs]] p(2)]
  have fl: "p_flags (pt p) = RECEIVING" "p_msg (pt p) = buf" "p_recvfrom (pt p) = src" "has_int_msg (pt p) = 0"
    "ldts (pt p) = ldts (proc_table k p)"
    using same_ipcD [OF inv(3)] p(4) by (simp_all add: mark_receiver_def)
  have "plain pt" by (rule plain_step [OF good_plain [OF gs] inv(3,4)], assumption, rule impI, rule plain_marks)
  then have "good ?k' Q" using inv(1,2) good_enter [OF gs] by (simp add: good_def running_ok_def)
  moreover have "ldts (pt x) = ldts (proc_table k x)" for x using fl(5) same_ipcD(6) [OF inv(4), of x] by (cases "x = p") simp_all
  moreover have "mem ?k' x = mem k x" if "48 \<le> unat (x - a)" for x
    using that by (simp add: stamp_def a [symmetric] st32_other write_message_other)
  ultimately show ?thesis using run w fl inv(4) fr by (intro exI [of _ ?k']) (simp add: stamp_def)
qed

section \<open>The exchange\<close>

text \<open>The task waits for any message in its buffer, and nobody is in its queue.\<close>

definition waiting :: "kstate \<Rightarrow> queues \<Rightarrow> nat \<Rightarrow> u32 \<Rightarrow> bool" where
  "waiting k Q q sbuf \<longleftrightarrow> good k Q \<and> q < NPROC \<and> q \<noteq> TEST_A \<and> Q q = [] \<and> has_int_msg (proc_table k q) = 0 \<and>
     p_flags (proc_table k q) = RECEIVING \<and> p_recvfrom (proc_table k q) = ANY \<and> p_msg (proc_table k q) = sbuf \<and> sbuf \<noteq> 0"

text \<open>A process that may call it: it is ready, and the buffers do not overlap.\<close>

definition caller :: "kstate \<Rightarrow> nat \<Rightarrow> u32 \<Rightarrow> nat \<Rightarrow> u32 \<Rightarrow> bool" where
  "caller k p buf q sbuf \<longleftrightarrow> p < NPROC \<and> p \<noteq> TEST_A \<and> p \<noteq> q \<and> p_flags (proc_table k p) = 0 \<and>
     has_int_msg (proc_table k p) = 0 \<and> buf \<noteq> 0 \<and>
     MESSAGE_SIZE \<le> unat (lin (proc_table k) q sbuf - lin (proc_table k) p buf) \<and>
     MESSAGE_SIZE \<le> unat (lin (proc_table k) p buf - lin (proc_table k) q sbuf)"

text \<open>States that differ in the message buffers, the scheduling and the waiting of processes only.\<close>

definition in_buffers :: "kstate \<Rightarrow> nat \<Rightarrow> u32 \<Rightarrow> nat \<Rightarrow> u32 \<Rightarrow> u32 \<Rightarrow> bool" where
  "in_buffers k p buf q sbuf x \<longleftrightarrow>
     unat (x - lin (proc_table k) p buf) < MESSAGE_SIZE \<or> unat (x - lin (proc_table k) q sbuf) < MESSAGE_SIZE"

definition alike :: "(u32 \<Rightarrow> bool) \<Rightarrow> kstate \<Rightarrow> kstate \<Rightarrow> bool" where
  "alike D k k' \<longleftrightarrow> (\<forall>x. filp (proc_table k' x) = filp (proc_table k x) \<and> ldts (proc_table k' x) = ldts (proc_table k x)) \<and>
     sys_ticks k' = sys_ticks k \<and> (\<forall>x. \<not> D x \<longrightarrow> mem k' x = mem k x)"

lemma alike_trans: "alike D k1 k2 \<Longrightarrow> alike D k2 k3 \<Longrightarrow> alike D k1 k3"
  by (simp add: alike_def)

lemma alike_lin: "alike D k k' \<Longrightarrow> lin (proc_table k') p va = lin (proc_table k) p va"
  by (simp add: alike_def lin_def ldt_seg_linear_def)

text \<open>What a task leaves alone: who waits for whom.\<close>

definition task_keeps :: "kstate \<Rightarrow> kstate \<Rightarrow> bool" where
  "task_keeps k k' \<longleftrightarrow> p_proc_ready k' = p_proc_ready k \<and> k_reenter k' = k_reenter k \<and>
     (\<forall>x. same_ipc (proc_table k x) (proc_table k' x) \<and> q_sending (proc_table k' x) = q_sending (proc_table k x) \<and>
        next_sending (proc_table k' x) = next_sending (proc_table k x))"

lemma task_keeps_lin: "task_keeps k k' \<Longrightarrow> lin (proc_table k') p va = lin (proc_table k) p va"
  using same_ipcD(6) [of "proc_table k p" "proc_table k' p"] by (simp add: task_keeps_def lin_def ldt_seg_linear_def)

lemma task_keeps_good:
  assumes t: "task_keeps k k'" and g: "good k Q"
  shows "good k' Q"
proof -
  have same: "same_ipc (proc_table k x) (proc_table k' x)" "q_sending (proc_table k' x) = q_sending (proc_table k x)"
    "next_sending (proc_table k' x) = next_sending (proc_table k x)" for x
    using t by (simp_all add: task_keeps_def)
  note r = ipc_inv_rewrite [OF good_inv [OF g] same]
  have "p_flags (proc_table k' (p_proc_ready k)) = 0" using same_ipcD(1) [OF same(1)] good_run(2) [OF g] by simp
  moreover have "p_proc_ready k' = p_proc_ready k" "k_reenter k' = k_reenter k" using t by (simp_all add: task_keeps_def)
  ultimately show ?thesis
    using r(1) r(2) [OF good_plain [OF g]] good_run(1) [OF g] good_enter [OF g] by (simp add: good_def running_ok_def)
qed

lemma good_wake:
  assumes g: "good k Q" and p: "p < NPROC" "p_flags (proc_table k p) = 0" and d: "d < NPROC" "p_flags (proc_table k d) = RECEIVING"
  shows "good (k\<lparr>p_proc_ready := p, mem := st, proc_table := upd_proc d wake_receiver (proc_table k)\<rparr>) Q"
proof -
  have "plain (upd_proc d wake_receiver (proc_table k))"
    using good_plain [OF g] by (auto simp: plain_def upd_proc_apply wake_receiver_def)
  then show ?thesis
    using ipc_inv_wake [OF good_inv [OF g] d] p d(2) good_enter [OF g] by (auto simp: good_def running_ok_def upd_proc_apply)
qed

lemma receiver_not_queued:
  assumes "good k Q" and "q < NPROC" and "p_flags (proc_table k q) \<noteq> SENDING" and "p < NPROC"
  shows "q \<notin> set (Q p)"
proof
  assume "q \<in> set (Q p)"
  then have "has_flag (proc_table k q) SENDING" using repr_mem [OF inv_repr [OF good_inv [OF assms(1)]] assms(4), of q] by simp
  with inv_ok [OF good_inv [OF assms(1)] assms(2)] assms(3) show False by (simp add: proc_ok_def)
qed

text \<open>The task serves the message of \<open>p\<close>, in every state that the exchange may bring it to.\<close>

definition serves :: "nat \<Rightarrow> u32 \<Rightarrow> nat \<Rightarrow> u32 \<Rightarrow> queues \<Rightarrow> 's task \<Rightarrow> message \<Rightarrow> kstate \<times> 's \<Rightarrow> bool" where
  "serves p buf q sbuf Q step m ks \<longleftrightarrow> waiting (fst ks) Q q sbuf \<and> caller (fst ks) p buf q sbuf \<and>
     (\<forall>k1. alike (in_buffers (fst ks) p buf q sbuf) (fst ks) k1 \<longrightarrow>
        (\<exists>r k2 s2. step ((as_stored m)\<lparr>source := int p\<rparr>) (k1, snd ks) = Inr (Some (int p, r), (k2, s2)) \<and> task_keeps k1 k2))"

definition served :: "nat \<Rightarrow> u32 \<Rightarrow> nat \<Rightarrow> u32 \<Rightarrow> queues \<Rightarrow> 's task \<Rightarrow> message \<Rightarrow> kstate \<times> 's \<Rightarrow> message \<Rightarrow> kstate \<times> 's \<Rightarrow> bool" where
  "served p buf q sbuf Q step m ks r ks' \<longleftrightarrow>
     (\<exists>k1 r0 k2. alike (in_buffers (fst ks) p buf q sbuf) (fst ks) k1 \<and>
        step ((as_stored m)\<lparr>source := int p\<rparr>) (k1, snd ks) = Inr (Some (int p, r0), (k2, snd ks')) \<and>
        task_keeps k1 k2 \<and> r = (as_stored r0)\<lparr>source := int q\<rparr> \<and>
        alike (in_buffers (fst ks) p buf q sbuf) k2 (fst ks')) \<and>
     waiting (fst ks') Q q sbuf \<and>
     (\<forall>x. x \<noteq> q \<longrightarrow> p_flags (proc_table (fst ks') x) = p_flags (proc_table (fst ks) x) \<and>
        has_int_msg (proc_table (fst ks') x) = has_int_msg (proc_table (fst ks) x))"

lemma wake_receiver_fields [simp]:
  "p_flags (wake_receiver x) = 0" "has_int_msg (wake_receiver x) = has_int_msg x" "filp (wake_receiver x) = filp x"
  "ldts (wake_receiver x) = ldts x"
  by (simp_all add: wake_receiver_def)

text \<open>The request arrives, and the process waits for the answer.\<close>

lemma request_taken:
  assumes w: "waiting k Q q sbuf" and c: "caller k p buf q sbuf"
  shows "\<exists>k1. trap p buf SEND (int q) m k = Inr k1 \<and> p_flags (proc_table k1 p) = 0 \<and>
    read_message (mem k1) (lin (proc_table k1) p buf) = (as_stored m)\<lparr>source := int p\<rparr> \<and>
    (\<forall>m1. \<exists>k2. trap p buf RECEIVE (int q) m1 k1 = Inr k2 \<and> good k2 Q \<and> alike (in_buffers k p buf q sbuf) k k2 \<and>
       p_flags (proc_table k2 p) = RECEIVING \<and> p_msg (proc_table k2 p) = buf \<and> p_recvfrom (proc_table k2 p) = int q \<and>
       has_int_msg (proc_table k2 p) = 0 \<and> p_flags (proc_table k2 q) = 0 \<and> has_int_msg (proc_table k2 q) = 0 \<and>
       read_message (mem k2) (lin (proc_table k) q sbuf) = (as_stored m)\<lparr>source := int p\<rparr> \<and>
       (\<forall>x. x \<noteq> p \<longrightarrow> x \<noteq> q \<longrightarrow> same_ipc (proc_table k x) (proc_table k2 x)))"
proof -
  let ?pt = "proc_table k" and ?a = "lin (proc_table k) p buf" and ?b = "lin (proc_table k) q sbuf"
  have g: "good k Q" and q: "q < NPROC" "q \<noteq> TEST_A" "Q q = []" "has_int_msg (?pt q) = 0" "p_flags (?pt q) = RECEIVING"
      "p_recvfrom (?pt q) = ANY" "p_msg (?pt q) = sbuf"
    using w by (simp_all add: waiting_def)
  have p: "p < NPROC" "p \<noteq> TEST_A" "p \<noteq> q" "p_flags (?pt p) = 0" "has_int_msg (?pt p) = 0" "buf \<noteq> 0"
    and apart: "48 \<le> unat (?b - ?a)" "48 \<le> unat (?a - ?b)"
    using c by (simp_all add: caller_def)
  let ?pt1 = "upd_proc q wake_receiver ?pt"
  obtain st where k1: "trap p buf SEND (int q) m k = Inr (k\<lparr>p_proc_ready := p, mem := st, proc_table := ?pt1\<rparr>)"
    and st: "read_message st ?b = (as_stored m)\<lparr>source := int p\<rparr>" "read_message st ?a = (as_stored m)\<lparr>source := int p\<rparr>"
      "\<forall>x. 48 \<le> unat (x - ?a) \<longrightarrow> 48 \<le> unat (x - ?b) \<longrightarrow> st x = mem k x"
    using trap_send [OF g p(1,4) q(1) p(3) q(5) disjI2 [OF q(6)] p(6) refl refl, of m] apart unfolding q(7) by blast
  let ?k1 = "k\<lparr>p_proc_ready := p, mem := st, proc_table := ?pt1\<rparr>"
  have g1: "good ?k1 Q" by (rule good_wake [OF g p(1,4) q(1,5)])
  have l1: "lin (proc_table ?k1) x va = lin ?pt x va" for x va by simp
  have q1: "q \<notin> set (Q p)" by (rule receiver_not_queued [OF g q(1) _ p(1)]) (simp add: q(5))
  have "\<exists>k2. trap p buf RECEIVE (int q) m1 ?k1 = Inr k2 \<and> good k2 Q \<and> alike (in_buffers k p buf q sbuf) k k2 \<and>
       p_flags (proc_table k2 p) = RECEIVING \<and> p_msg (proc_table k2 p) = buf \<and> p_recvfrom (proc_table k2 p) = int q \<and>
       has_int_msg (proc_table k2 p) = 0 \<and> p_flags (proc_table k2 q) = 0 \<and> has_int_msg (proc_table k2 q) = 0 \<and>
       read_message (mem k2) ?b = (as_stored m)\<lparr>source := int p\<rparr> \<and>
       (\<forall>x. x \<noteq> p \<longrightarrow> x \<noteq> q \<longrightarrow> same_ipc (?pt x) (proc_table k2 x))" for m1
  proof -
    have rp: "p_flags (proc_table ?k1 p) = 0" "has_int_msg (proc_table ?k1 p) = 0" using p by simp_all
    have src: "(int q = ANY \<and> Q p = []) \<or> (int q = int q \<and> q < NPROC \<and> q \<notin> set (Q p) \<and> q \<noteq> p)" using q(1) q1 p(3) by simp
    obtain k2 where k2: "trap p buf RECEIVE (int q) m1 ?k1 = Inr k2" "good k2 Q" "p_flags (proc_table k2 p) = RECEIVING"
        "p_msg (proc_table k2 p) = buf" "p_recvfrom (proc_table k2 p) = int q" "has_int_msg (proc_table k2 p) = 0"
        "\<forall>x. x \<noteq> p \<longrightarrow> same_ipc (proc_table ?k1 x) (proc_table k2 x)"
        "\<forall>x. filp (proc_table k2 x) = filp (proc_table ?k1 x) \<and> ldts (proc_table k2 x) = ldts (proc_table ?k1 x)"
        "sys_ticks k2 = sys_ticks ?k1" "\<forall>x. 48 \<le> unat (x - ?a) \<longrightarrow> mem k2 x = mem ?k1 x"
      using trap_receive [OF g1 p(1,2) rp src p(6) l1 [symmetric], of m1] by blast
    have same: "same_ipc (?pt1 x) (proc_table k2 x)" if "x \<noteq> p" for x using k2(7) that by simp
    have "alike (in_buffers k p buf q sbuf) k k2"
      using k2(8-10) st(3) by (simp add: alike_def in_buffers_def upd_proc_apply)
    moreover have "read_message (mem k2) ?b = read_message st ?b"
    proof (rule read_message_cong)
      fix x assume x: "unat (x - ?b) < 48"
      have "\<not> unat (x - ?a) < 48" using areas_apart [OF apart x] by simp
      then show "mem k2 x = st x" using k2(10) by simp
    qed
    moreover have "same_ipc (?pt x) (proc_table k2 x)" if "x \<noteq> p" "x \<noteq> q" for x using same [of x] that by simp
    moreover have "p_flags (proc_table k2 q) = 0" "has_int_msg (proc_table k2 q) = 0"
      using same_ipcD(1,5) [OF same [of q]] p(3) q(4) by simp_all
    ultimately show ?thesis using k2(1-6) st(1) by auto
  qed
  then show ?thesis using k1 st(2) p(3,4) l1 by auto
qed

text \<open>The task answers, and waits again.\<close>

lemma answer_given:
  assumes g: "good k Q" and q: "q < NPROC" "q \<noteq> TEST_A" "Q q = []" "p_flags (proc_table k q) = 0" "has_int_msg (proc_table k q) = 0" "sbuf \<noteq> 0"
    and p: "p < NPROC" "p \<noteq> q" "p_flags (proc_table k p) = RECEIVING" "p_recvfrom (proc_table k p) = int q" "p_msg (proc_table k p) = buf"
      "has_int_msg (proc_table k p) = 0"
    and apart: "MESSAGE_SIZE \<le> unat (lin (proc_table k) q sbuf - lin (proc_table k) p buf)"
      "MESSAGE_SIZE \<le> unat (lin (proc_table k) p buf - lin (proc_table k) q sbuf)"
  shows "\<exists>k1 k2. trap q sbuf SEND (int p) r k = Inr k1 \<and> trap q sbuf RECEIVE ANY zero_message k1 = Inr k2 \<and>
    waiting k2 Q q sbuf \<and> alike (in_buffers k p buf q sbuf) k k2 \<and> p_flags (proc_table k2 p) = 0 \<and> has_int_msg (proc_table k2 p) = 0 \<and>
    read_message (mem k2) (lin (proc_table k) p buf) = (as_stored r)\<lparr>source := int q\<rparr> \<and>
    (\<forall>x. x \<noteq> p \<longrightarrow> x \<noteq> q \<longrightarrow> same_ipc (proc_table k x) (proc_table k2 x))"
proof -
  let ?pt = "proc_table k" and ?a = "lin (proc_table k) p buf" and ?b = "lin (proc_table k) q sbuf"
  let ?pt1 = "upd_proc p wake_receiver ?pt"
  obtain st where k1: "trap q sbuf SEND (int p) r k = Inr (k\<lparr>p_proc_ready := q, mem := st, proc_table := ?pt1\<rparr>)"
    and st: "read_message st ?a = (as_stored r)\<lparr>source := int q\<rparr>"
      "\<forall>x. 48 \<le> unat (x - ?b) \<longrightarrow> 48 \<le> unat (x - ?a) \<longrightarrow> st x = mem k x"
    using trap_send [OF g q(1,4) p(1) _ p(3) disjI1 [OF p(4)] q(6) refl refl, of r] p(2) apart unfolding p(5) by blast
  let ?k1 = "k\<lparr>p_proc_ready := q, mem := st, proc_table := ?pt1\<rparr>"
  have g1: "good ?k1 Q" by (rule good_wake [OF g q(1,4) p(1,3)])
  have rq: "p_flags (proc_table ?k1 q) = 0" "has_int_msg (proc_table ?k1 q) = 0" using q p(2) by simp_all
  have l1: "?b = lin (proc_table ?k1) q sbuf" by simp
  have src: "(ANY = (ANY :: int) \<and> Q q = []) \<or> (ANY = int f \<and> f < NPROC \<and> f \<notin> set (Q q) \<and> f \<noteq> q)" for f using q(3) by simp
  obtain k2 where k2: "trap q sbuf RECEIVE ANY zero_message ?k1 = Inr k2" "good k2 Q" "p_flags (proc_table k2 q) = RECEIVING"
      "p_msg (proc_table k2 q) = sbuf" "p_recvfrom (proc_table k2 q) = ANY" "has_int_msg (proc_table k2 q) = 0"
      "\<forall>x. x \<noteq> q \<longrightarrow> same_ipc (proc_table ?k1 x) (proc_table k2 x)"
      "\<forall>x. filp (proc_table k2 x) = filp (proc_table ?k1 x) \<and> ldts (proc_table k2 x) = ldts (proc_table ?k1 x)"
      "sys_ticks k2 = sys_ticks ?k1" "\<forall>x. 48 \<le> unat (x - ?b) \<longrightarrow> mem k2 x = mem ?k1 x"
    using trap_receive [OF g1 q(1,2) rq src q(6) l1, of zero_message] by blast
  have same: "same_ipc (?pt1 x) (proc_table k2 x)" if "x \<noteq> q" for x using k2(7) that by simp
  have "alike (in_buffers k p buf q sbuf) k k2"
    using k2(8-10) st(2) by (simp add: alike_def in_buffers_def upd_proc_apply)
  moreover have "read_message (mem k2) ?a = read_message st ?a"
  proof (rule read_message_cong)
    fix x assume x: "unat (x - ?a) < 48"
    have "\<not> unat (x - ?b) < 48" using areas_apart [OF apart(2,1) x] by simp
    then show "mem k2 x = st x" using k2(10) by simp
  qed
  moreover have "same_ipc (?pt x) (proc_table k2 x)" if "x \<noteq> p" "x \<noteq> q" for x using same [of x] that by simp
  moreover have "p_flags (proc_table k2 p) = 0" "has_int_msg (proc_table k2 p) = 0"
    using same_ipcD(1,5) [OF same [of p]] p(2,6) by simp_all
  moreover have "waiting k2 Q q sbuf" using k2(2-6) q by (simp add: waiting_def)
  ultimately show ?thesis using k1 k2(1) st(1) by auto
qed

lemma exchange:
  assumes "serves p buf q sbuf Q step m ks"
  shows "\<exists>m1 w1 r w'. task_port p buf q sbuf step SEND (int q) m ks = Inr (0, m1, w1) \<and>
    task_port p buf q sbuf step RECEIVE (int q) m1 w1 = Inr (0, r, w') \<and> served p buf q sbuf Q step m ks r w'"
proof -
  obtain k s where ks: "ks = (k, s)" by (cases ks)
  let ?D = "in_buffers k p buf q sbuf" and ?m = "(as_stored m)\<lparr>source := int p\<rparr>"
  have w: "waiting k Q q sbuf" and c: "caller k p buf q sbuf"
    and step: "\<And>k1. alike ?D k k1 \<Longrightarrow> \<exists>r k2 s2. step ?m (k1, s) = Inr (Some (int p, r), (k2, s2)) \<and> task_keeps k1 k2"
    using assms by (simp_all add: serves_def ks)
  have q: "q < NPROC" "q \<noteq> TEST_A" "Q q = []" "sbuf \<noteq> 0" using w by (simp_all add: waiting_def)
  have p: "p < NPROC" "p \<noteq> q" "p_flags (proc_table k p) = 0" "has_int_msg (proc_table k p) = 0"
    and apart: "48 \<le> unat (lin (proc_table k) q sbuf - lin (proc_table k) p buf)"
      "48 \<le> unat (lin (proc_table k) p buf - lin (proc_table k) q sbuf)"
    using c by (simp_all add: caller_def)
  obtain k1 k2 where k1: "trap p buf SEND (int q) m k = Inr k1" "p_flags (proc_table k1 p) = 0"
      "read_message (mem k1) (lin (proc_table k1) p buf) = ?m"
    and k2: "trap p buf RECEIVE (int q) ?m k1 = Inr k2" "good k2 Q" "alike ?D k k2"
      "p_flags (proc_table k2 p) = RECEIVING" "p_msg (proc_table k2 p) = buf" "p_recvfrom (proc_table k2 p) = int q"
      "has_int_msg (proc_table k2 p) = 0" "p_flags (proc_table k2 q) = 0" "has_int_msg (proc_table k2 q) = 0"
      "read_message (mem k2) (lin (proc_table k) q sbuf) = ?m"
      "\<forall>x. x \<noteq> p \<longrightarrow> x \<noteq> q \<longrightarrow> same_ipc (proc_table k x) (proc_table k2 x)"
    using request_taken [OF w c, of m] by blast
  obtain r k3 s' where k3: "step ?m (k2, s) = Inr (Some (int p, r), (k3, s'))" "task_keeps k2 k3" using step [OF k2(3)] by blast
  have same3: "same_ipc (proc_table k2 x) (proc_table k3 x)" for x using k3(2) by (simp add: task_keeps_def)
  note f3 = same_ipcD [OF same3]
  have l3: "lin (proc_table k3) x va = lin (proc_table k) x va" for x va
    using f3(6) alike_lin [OF k2(3), of x va] by (simp add: lin_def ldt_seg_linear_def)
  have D3: "in_buffers k3 p buf q sbuf = ?D" by (simp add: in_buffers_def l3 fun_eq_iff)
  have g3: "good k3 Q" by (rule task_keeps_good [OF k3(2) k2(2)])
  have "\<exists>k4 k5. trap q sbuf SEND (int p) r k3 = Inr k4 \<and> trap q sbuf RECEIVE ANY zero_message k4 = Inr k5 \<and>
    waiting k5 Q q sbuf \<and> alike (in_buffers k3 p buf q sbuf) k3 k5 \<and> p_flags (proc_table k5 p) = 0 \<and> has_int_msg (proc_table k5 p) = 0 \<and>
    read_message (mem k5) (lin (proc_table k3) p buf) = (as_stored r)\<lparr>source := int q\<rparr> \<and>
    (\<forall>x. x \<noteq> p \<longrightarrow> x \<noteq> q \<longrightarrow> same_ipc (proc_table k3 x) (proc_table k5 x))"
    by (rule answer_given [OF g3 q(1-3) _ _ q(4) p(1,2)]) (use f3 k2 apart in \<open>simp_all add: l3\<close>)
  then obtain k4 k5 where k5: "trap q sbuf SEND (int p) r k3 = Inr k4" "trap q sbuf RECEIVE ANY zero_message k4 = Inr k5"
    "waiting k5 Q q sbuf" "alike ?D k3 k5" "p_flags (proc_table k5 p) = 0" "has_int_msg (proc_table k5 p) = 0"
    "read_message (mem k5) (lin (proc_table k) p buf) = (as_stored r)\<lparr>source := int q\<rparr>"
    "\<forall>x. x \<noteq> p \<longrightarrow> x \<noteq> q \<longrightarrow> same_ipc (proc_table k3 x) (proc_table k5 x)"
    unfolding D3 l3 by blast
  have l5: "lin (proc_table k5) p buf = lin (proc_table k) p buf" using alike_lin [OF k5(4), of p buf] l3 by simp
  have l2: "lin (proc_table k2) q sbuf = lin (proc_table k) q sbuf" by (rule alike_lin [OF k2(3)])
  have "task_round q sbuf step (k2, s) = Inr (k5, s')"
    using k2(8,10) k3(1) k5(1,2) by (simp add: task_round_def l2)
  then have rcv: "task_port p buf q sbuf step RECEIVE (int q) ?m (k1, s) = Inr (0, (as_stored r)\<lparr>source := int q\<rparr>, (k5, s'))"
    using k2(1,4) k5(5,7) by (simp add: task_port_def l5)
  have others: "p_flags (proc_table k5 x) = p_flags (proc_table k x) \<and> has_int_msg (proc_table k5 x) = has_int_msg (proc_table k x)"
    if "x \<noteq> q" for x
  proof (cases "x = p")
    case False
    then have a: "same_ipc (proc_table k x) (proc_table k2 x)" "same_ipc (proc_table k3 x) (proc_table k5 x)" using k2(11) k5(8) that by blast+
    show ?thesis using same_ipcD(1,5) [OF a(1)] same_ipcD(1,5) [OF a(2)] f3(1,5) [of x] by simp
  qed (use k5(5,6) p(3,4) in simp)
  have "served p buf q sbuf Q step m ks ((as_stored r)\<lparr>source := int q\<rparr>) (k5, s')"
    unfolding served_def ks using k2(3) k3 k5(3,4) others by auto
  then show ?thesis using k1 rcv by (auto simp: task_port_def ks)
qed

interpretation kcall: rpc "task_port p buf q sbuf step" "int q" "serves p buf q sbuf Q step" "served p buf q sbuf Q step"
  for p buf q sbuf step Q
  by unfold_locales (rule exchange)

section \<open>The system task\<close>

text \<open>The task reads the ticks of the kernel; it has no state of its own.\<close>

definition sys_task :: "unit task" where
  "sys_task m ks = rbind (task_sys_step (sys_ticks (fst ks)) m) (\<lambda>a. Inr (Some a, ks))"

lemma task_keeps_refl [simp]: "task_keeps k k"
  by (simp add: task_keeps_def)

lemma cint_type [simp]: "0 \<le> x \<Longrightarrow> x < 2 ^ 31 \<Longrightarrow> cint x = x"
  by (rule cint_small) simp_all

lemma sys_serves:
  assumes "waiting k Q TASK_SYS sbuf" and "caller k p buf TASK_SYS sbuf" and "msgtype m = GET_PID \<or> msgtype m = GET_TICKS"
  shows "serves p buf TASK_SYS sbuf Q sys_task m (k, ())"
  using assms by (auto simp: serves_def sys_task_def task_sys_step_def as_stored_def Let_def)

text \<open>After a call the task waits again, and every process that could call it still can.\<close>

lemma served_waiting: "served p buf q sbuf Q step m ks r ks' \<Longrightarrow> waiting (fst ks') Q q sbuf"
  by (simp add: served_def)

lemma served_caller:
  assumes "served p buf q sbuf Q step m ks r ks'" and c: "caller (fst ks) p2 buf2 q sbuf"
  shows "caller (fst ks') p2 buf2 q sbuf"
proof -
  obtain k1 k2 where a: "alike (in_buffers (fst ks) p buf q sbuf) (fst ks) k1" "task_keeps k1 k2"
      "alike (in_buffers (fst ks) p buf q sbuf) k2 (fst ks')"
    and f: "\<forall>x. x \<noteq> q \<longrightarrow> p_flags (proc_table (fst ks') x) = p_flags (proc_table (fst ks) x) \<and>
        has_int_msg (proc_table (fst ks') x) = has_int_msg (proc_table (fst ks) x)"
    using assms(1) unfolding served_def by blast
  have "lin (proc_table (fst ks')) x va = lin (proc_table (fst ks)) x va" for x va
    using alike_lin [OF a(1), of x va] alike_lin [OF a(3), of x va] task_keeps_lin [OF a(2), of x va] by simp
  then show ?thesis using c f by (simp add: caller_def)
qed

text \<open>A process gets its number, and the ticks.\<close>

theorem getpid_and_ticks:
  assumes w: "waiting k Q TASK_SYS sbuf" and c: "caller k p buf TASK_SYS sbuf"
  shows "\<exists>k1 k2. lib_getpid (task_port p buf TASK_SYS sbuf sys_task) junk (k, ()) = Inr (int p, (k1, ())) \<and>
    get_ticks (task_port p buf TASK_SYS sbuf sys_task) (k1, ()) = Inr (cint (sys_ticks k), (k2, ()))"
proof -
  let ?port = "task_port p buf TASK_SYS sbuf sys_task" and ?m = "junk\<lparr>msgtype := GET_PID\<rparr>"
  have p: "cint (int p) = int p" using c by (simp add: caller_def)
  have "\<exists>r w'. lib_getpid ?port junk (k, ()) = Inr (m3i2 r, w') \<and> served p buf TASK_SYS sbuf Q sys_task ?m (k, ()) r w'"
  proof (rule kcall.getpid)
    show "serves p buf TASK_SYS sbuf Q sys_task ?m (k, ())" by (rule sys_serves [OF w c]) simp
  qed (auto simp: served_def sys_task_def task_sys_step_def as_stored_def Let_def)
  then obtain r k1 where r: "lib_getpid ?port junk (k, ()) = Inr (m3i2 r, (k1, ()))" "served p buf TASK_SYS sbuf Q sys_task ?m (k, ()) r (k1, ())" by auto
  have pid: "m3i2 r = int p" and t1: "sys_ticks k1 = sys_ticks k"
    using r(2) p by (auto simp: served_def sys_task_def task_sys_step_def as_stored_def alike_def Let_def)
  have w1: "waiting k1 Q TASK_SYS sbuf" "caller k1 p buf TASK_SYS sbuf" using served_waiting [OF r(2)] served_caller [OF r(2)] c by simp_all
  have "\<exists>r w'. get_ticks ?port (k1, ()) = Inr (m3i1 r, w') \<and> served p buf TASK_SYS sbuf Q sys_task (zero_message\<lparr>msgtype := GET_TICKS\<rparr>) (k1, ()) r w'"
    by (rule kcall.ticks_call) (use sys_serves [OF w1] in simp_all)
  then obtain r2 k2 where r2: "get_ticks ?port (k1, ()) = Inr (m3i1 r2, (k2, ()))"
    "served p buf TASK_SYS sbuf Q sys_task (zero_message\<lparr>msgtype := GET_TICKS\<rparr>) (k1, ()) r2 (k2, ())" by auto
  have "m3i1 r2 = cint (sys_ticks k)"
    using r2(2) t1 by (auto simp: served_def sys_task_def task_sys_step_def as_stored_def alike_def Let_def)
  with r(1) r2(1) pid show ?thesis by auto
qed

end
