(* ===== verification/SysProps.thy ===== *)
theory SysProps
  imports FsFileProps Exchange
begin

unbundle bit_operations_syntax

text \<open>
  System calls end to end: the stubs of the library, the message passing of the
  kernel, and the file system task, on one memory and one process table.
\<close>

section \<open>The file system as a task of the kernel\<close>

text \<open>The file system sees the process table and the memory of the kernel.\<close>

definition synced :: "kstate \<Rightarrow> fs_state \<Rightarrow> fs_state" where
  "synced k s = s\<lparr>fprocs := proc_table k, umem := mem k\<rparr>"

definition fs_task :: "(int \<Rightarrow> int \<Rightarrow> u32 \<Rightarrow> int \<Rightarrow> nat \<Rightarrow> int \<times> int) \<Rightarrow> fs_state task" where
  "fs_task tty m ks =
    rbind (task_fs_step tty (synced (fst ks) (snd ks)) m) (\<lambda>(answer, s').
    Inr (answer, ((fst ks)\<lparr>proc_table := fprocs s', mem := umem s'\<rparr>, s')))"

abbreviation (input) fs_port ::
    "(int \<Rightarrow> int \<Rightarrow> u32 \<Rightarrow> int \<Rightarrow> nat \<Rightarrow> int \<times> int) \<Rightarrow> nat \<Rightarrow> u32 \<Rightarrow> u32 \<Rightarrow> (kstate \<times> fs_state) port" where
  "fs_port tty p ubuf sbuf \<equiv> task_port p ubuf TASK_FS sbuf (fs_task tty)"

lemma synced_simps [simp]:
  "fprocs (synced k s) = proc_table k" "umem (synced k s) = mem k" "inode_table (synced k s) = inode_table s"
  "f_desc_table (synced k s) = f_desc_table s" "drive (synced k s) = drive s" "super_blocks (synced k s) = super_blocks s"
  by (simp_all add: synced_def)

lemma file_at_synced:
  assumes "file_at s0 p dev part sb n start sz nr" and "alike D k k1" and "flat_tasks (proc_table k)"
    and "inode_table s0 = inode_table s" "drive s0 = drive s" "super_blocks s0 = super_blocks s"
  shows "file_at (synced k1 s) p dev part sb n start sz nr"
proof -
  have "geom (synced k1 s) dev part sb = geom s0 dev part sb"
    by (rule geom_cong [OF fs_dev_cong]) (simp_all add: assms)
  moreover have "flat_tasks (proc_table k1) = flat_tasks (proc_table k)"
    by (rule flat_tasks_cong) (use assms(2) in \<open>simp add: alike_def\<close>)
  ultimately show ?thesis using assms(1,3) by (simp add: file_at_def assms(4))
qed

lemma file_byte_cong: "drive s = drive t \<Longrightarrow> file_byte part s start y = file_byte part t start y"
  by (simp add: file_byte_def)

lemma opened_synced:
  "opened s0 pc fd d p pos \<Longrightarrow> filp (proc_table k1 pc) = filp (fprocs s0 pc) \<Longrightarrow> f_desc_table s0 = f_desc_table s \<Longrightarrow>
   opened (synced k1 s) pc fd d p pos"
  by (simp add: opened_def)

text \<open>A transfer that the file system answers at once.\<close>

lemma fs_task_rdwt:
  assumes "msgtype m = READ \<or> msgtype m = WRITE" and "do_rdwt tty (synced k s) (nat (source m)) m = Inr ((t, n), s')"
    and "t \<noteq> SUSPEND_PROC" and "fprocs s' = proc_table k"
  shows "fs_task tty m (k, s) = Inr (Some (source m, m\<lparr>m3i2 := n, msgtype := SYSCALL_RET\<rparr>), (k\<lparr>mem := umem s'\<rparr>, s'))"
  using assms by (auto simp: fs_task_def task_fs_step_def Let_def)

section \<open>Reading and writing\<close>

text \<open>What a served call of the file system leaves: the task waits, and whoever could call it still can.\<close>

definition at_rest :: "kstate \<Rightarrow> queues \<Rightarrow> u32 \<Rightarrow> kstate \<Rightarrow> bool" where
  "at_rest k Q sbuf k' \<longleftrightarrow> waiting k' Q TASK_FS sbuf \<and>
     (\<forall>x b. caller k x b TASK_FS sbuf \<longrightarrow> caller k' x b TASK_FS sbuf) \<and>
     (\<forall>x. filp (proc_table k' x) = filp (proc_table k x)) \<and> (\<forall>x va. lin (proc_table k') x va = lin (proc_table k) x va)"

lemma served_at_rest:
  assumes "served p buf TASK_FS sbuf Q (fs_task tty) m (k, s) r (k', s')"
    and "alike D k k1" and "alike D k2 k'" and "proc_table k2 = proc_table k1"
  shows "at_rest k Q sbuf k'"
  using served_waiting [OF assms(1)] served_caller [OF assms(1)] alike_lin [OF assms(2)] alike_lin [OF assms(3)] assms(2-4)
  by (auto simp: at_rest_def alike_def)

lemma fs_write_served:
  assumes w: "waiting k Q TASK_FS sbuf" and c: "caller k pc ubuf TASK_FS sbuf"
    and f: "file_at (synced k s) p dev part sb n start sz nr" and opn: "opened (synced k s) pc fd d p pos"
    and fit: "pos + len \<le> nr * SECTOR_SIZE" "(pos + len) div SECTOR_SIZE - pos div SECTOR_SIZE < 256"
    and data: "\<forall>j < len. \<not> in_buffers k pc ubuf TASK_FS sbuf (lin (proc_table k) pc buf + of_nat j)"
  shows "\<exists>k1 s1. lib_write (fs_port tty pc ubuf sbuf) junk (int fd) buf (int len) (k, s) = Inr (int len, (k1, s1)) \<and>
    at_rest k Q sbuf k1 \<and>
    (\<forall>y. file_byte part s1 start y = (if pos \<le> y \<and> y < pos + len then mem k (lin (proc_table k) pc buf + of_nat (y - pos))
       else file_byte part s start y)) \<and>
    file_at (synced k1 s1) p dev part sb n start (max sz (pos + len)) nr \<and>
    (\<forall>e. e \<noteq> d \<longrightarrow> f_desc_table s1 e = f_desc_table s e)"
proof -
  let ?D = "in_buffers k pc ubuf TASK_FS sbuf"
  let ?m = "junk\<lparr>msgtype := WRITE, m3i1 := int fd, m3p2 := buf, m3i2 := int len\<rparr>"
  let ?q = "(as_stored ?m)\<lparr>source := int pc\<rparr>"
  have flat: "flat_tasks (proc_table k)" using w inv_flat [OF good_inv] by (auto simp: waiting_def)
  have len: "len < 2 ^ 31" using fit(1) file_atD(13) [OF f] by simp
  have fd: "fd < 64" using opn by (simp add: opened_def)
  have q: "msgtype ?q = WRITE" "m3i1 ?q = int fd" "m3i2 ?q = int len" "source ?q = int pc" "nat (source ?q) = pc" "m3p2 ?q = buf"
    using len fd by (simp_all add: as_stored_def)
  have run: "\<exists>k2 s2. fs_task tty ?q (k1, s) = Inr (Some (int pc, ?q\<lparr>m3i2 := int len, msgtype := SYSCALL_RET\<rparr>), (k2, s2)) \<and>
      proc_table k2 = proc_table k1 \<and> task_keeps k1 k2 \<and>
      (\<forall>y. file_byte part s2 start y = (if pos \<le> y \<and> y < pos + len then mem k (lin (proc_table k) pc buf + of_nat (y - pos))
         else file_byte part s start y)) \<and>
      file_at s2 p dev part sb n start (max sz (pos + len)) nr \<and> (\<forall>e. e \<noteq> d \<longrightarrow> f_desc_table s2 e = f_desc_table s e)"
    if k1: "alike ?D k k1" for k1
  proof -
    have f1: "file_at (synced k1 s) p dev part sb n start sz nr" by (rule file_at_synced [OF f k1 flat]) simp_all
    have o1: "opened (synced k1 s) pc fd d p pos" by (rule opened_synced [OF opn]) (use k1 in \<open>simp_all add: alike_def\<close>)
    obtain s2 where s2: "do_rdwt tty (synced k1 s) pc ?q = Inr ((WRITE, int len), s2)"
      "\<And>y. file_byte part s2 start y = (if pos \<le> y \<and> y < pos + len
        then umem (synced k1 s) (lin (fprocs (synced k1 s)) pc (m3p2 ?q) + of_nat (y - pos)) else file_byte part (synced k1 s) start y)"
      "file_at s2 p dev part sb n start (max sz (pos + len)) nr"
      "fprocs s2 = fprocs (synced k1 s)" "\<And>e. e \<noteq> d \<Longrightarrow> f_desc_table s2 e = f_desc_table (synced k1 s) e"
      by (rule do_write_inside [OF f1 o1 q(1-3,5) fit, of tty]) blast
    have "mem k1 (lin (proc_table k1) pc buf + of_nat j) = mem k (lin (proc_table k) pc buf + of_nat j)" if "j < len" for j
      using data that k1 alike_lin [OF k1, of pc buf] by (simp add: alike_def)
    then have bytes: "file_byte part s2 start y = (if pos \<le> y \<and> y < pos + len then mem k (lin (proc_table k) pc buf + of_nat (y - pos))
         else file_byte part s start y)" for y
      unfolding s2(2) q(6) synced_simps using file_byte_cong [of "synced k1 s" s part start y] by (auto simp: less_diff_conv2 simp del: of_nat_diff)
    have "fs_task tty ?q (k1, s) = Inr (Some (int pc, ?q\<lparr>m3i2 := int len, msgtype := SYSCALL_RET\<rparr>), (k1\<lparr>mem := umem s2\<rparr>, s2))"
      using fs_task_rdwt [of ?q tty k1 s WRITE "int len" s2] q s2(1,4) by simp
    then show ?thesis using bytes s2(3,5) by (intro exI [of _ "k1\<lparr>mem := umem s2\<rparr>"] exI [of _ s2]) (simp add: task_keeps_def)
  qed
  have sv: "serves pc ubuf TASK_FS sbuf Q (fs_task tty) ?m (k, s)"
    using w c run by (simp add: serves_def) blast
  have "\<exists>r w'. lib_write (fs_port tty pc ubuf sbuf) junk (int fd) buf (int len) (k, s) = Inr (m3i2 r, w') \<and>
      served pc ubuf TASK_FS sbuf Q (fs_task tty) ?m (k, s) r w'"
    by (rule kcall.write_call [OF _ sv]) simp
  then obtain r k' s' where r: "lib_write (fs_port tty pc ubuf sbuf) junk (int fd) buf (int len) (k, s) = Inr (m3i2 r, (k', s'))"
    and sd: "served pc ubuf TASK_FS sbuf Q (fs_task tty) ?m (k, s) r (k', s')" by auto
  obtain k1 r0 k2 where st: "alike ?D k k1" "fs_task tty ?q (k1, s) = Inr (Some (int pc, r0), (k2, s'))"
    "r = (as_stored r0)\<lparr>source := int TASK_FS\<rparr>" "alike ?D k2 k'"
    using sd unfolding served_def by auto
  note rn = run [OF st(1)]
  have r0: "r0 = ?q\<lparr>m3i2 := int len, msgtype := SYSCALL_RET\<rparr>" "proc_table k2 = proc_table k1" using rn st(2) by auto
  have rest: "at_rest k Q sbuf k'" by (rule served_at_rest [OF sd st(1,4) r0(2)])
  have fl2: "flat_tasks (proc_table k2)"
    using flat_tasks_cong [of "proc_table k1" "proc_table k"] st(1) flat r0(2) by (simp add: alike_def)
  have "file_at s' p dev part sb n start (max sz (pos + len)) nr" using rn st(2) by auto
  then have "file_at (synced k' s') p dev part sb n start (max sz (pos + len)) nr"
    by (rule file_at_synced [OF _ st(4) fl2]) simp_all
  moreover have "m3i2 r = int len" using st(3) r0(1) len by (simp add: as_stored_def)
  ultimately show ?thesis using r rest rn st(2) by (intro exI [of _ k'] exI [of _ s']) auto
qed

lemma fs_read_served:
  assumes w: "waiting k Q TASK_FS sbuf" and c: "caller k pc ubuf TASK_FS sbuf"
    and f: "file_at (synced k s) p dev part sb n start sz nr" and opn: "opened (synced k s) pc fd d p pos"
    and fit: "pos + len \<le> sz" "(pos + len) div SECTOR_SIZE - pos div SECTOR_SIZE < 256"
    and data: "\<forall>j < len. \<not> in_buffers k pc ubuf TASK_FS sbuf (lin (proc_table k) pc buf + of_nat j)"
  shows "\<exists>k1 s1. lib_read (fs_port tty pc ubuf sbuf) junk (int fd) buf (int len) (k, s) = Inr (int len, (k1, s1)) \<and>
    at_rest k Q sbuf k1 \<and> (\<forall>j < len. mem k1 (lin (proc_table k) pc buf + of_nat j) = file_byte part s start (pos + j))"
proof -
  let ?D = "in_buffers k pc ubuf TASK_FS sbuf"
  let ?m = "junk\<lparr>msgtype := READ, m3i1 := int fd, m3p2 := buf, m3i2 := int len\<rparr>"
  let ?q = "(as_stored ?m)\<lparr>source := int pc\<rparr>"
  have flat: "flat_tasks (proc_table k)" using w inv_flat [OF good_inv] by (auto simp: waiting_def)
  have len: "len < 2 ^ 31" using fit(1) file_atD(10,13) [OF f] by simp
  have fd: "fd < 64" using opn by (simp add: opened_def)
  have q: "msgtype ?q = READ" "m3i1 ?q = int fd" "m3i2 ?q = int len" "source ?q = int pc" "nat (source ?q) = pc" "m3p2 ?q = buf"
    using len fd by (simp_all add: as_stored_def)
  have run: "\<exists>k2 s2. fs_task tty ?q (k1, s) = Inr (Some (int pc, ?q\<lparr>m3i2 := int len, msgtype := SYSCALL_RET\<rparr>), (k2, s2)) \<and>
      proc_table k2 = proc_table k1 \<and> task_keeps k1 k2 \<and>
      (\<forall>j < len. mem k2 (lin (proc_table k) pc buf + of_nat j) = file_byte part s start (pos + j))"
    if k1: "alike ?D k k1" for k1
  proof -
    have f1: "file_at (synced k1 s) p dev part sb n start sz nr" by (rule file_at_synced [OF f k1 flat]) simp_all
    have o1: "opened (synced k1 s) pc fd d p pos" by (rule opened_synced [OF opn]) (use k1 in \<open>simp_all add: alike_def\<close>)
    obtain s2 where s2: "do_rdwt tty (synced k1 s) pc ?q = Inr ((READ, int len), s2)"
      "\<And>j. j < len \<Longrightarrow> umem s2 (lin (fprocs (synced k1 s)) pc (m3p2 ?q) + of_nat j) = file_byte part (synced k1 s) start (pos + j)"
      "fprocs s2 = fprocs (synced k1 s)"
      by (rule do_read_inside [OF f1 o1 q(1-3,5) fit, of tty]) blast
    have bytes: "umem s2 (lin (proc_table k) pc buf + of_nat j) = file_byte part s start (pos + j)" if "j < len" for j
      using s2(2) [OF that] unfolding q(6) synced_simps alike_lin [OF k1] using file_byte_cong [of "synced k1 s" s part start] by simp
    have "fs_task tty ?q (k1, s) = Inr (Some (int pc, ?q\<lparr>m3i2 := int len, msgtype := SYSCALL_RET\<rparr>), (k1\<lparr>mem := umem s2\<rparr>, s2))"
      using fs_task_rdwt [of ?q tty k1 s READ "int len" s2] q s2(1,3) by simp
    then show ?thesis using bytes by (intro exI [of _ "k1\<lparr>mem := umem s2\<rparr>"] exI [of _ s2]) (simp add: task_keeps_def)
  qed
  have sv: "serves pc ubuf TASK_FS sbuf Q (fs_task tty) ?m (k, s)"
    using w c run by (simp add: serves_def) blast
  have "\<exists>r w'. lib_read (fs_port tty pc ubuf sbuf) junk (int fd) buf (int len) (k, s) = Inr (m3i2 r, w') \<and>
      served pc ubuf TASK_FS sbuf Q (fs_task tty) ?m (k, s) r w'"
    by (rule kcall.read_call [OF _ sv]) simp
  then obtain r k' s' where r: "lib_read (fs_port tty pc ubuf sbuf) junk (int fd) buf (int len) (k, s) = Inr (m3i2 r, (k', s'))"
    and sd: "served pc ubuf TASK_FS sbuf Q (fs_task tty) ?m (k, s) r (k', s')" by auto
  obtain k1 r0 k2 where st: "alike ?D k k1" "fs_task tty ?q (k1, s) = Inr (Some (int pc, r0), (k2, s'))"
    "r = (as_stored r0)\<lparr>source := int TASK_FS\<rparr>" "alike ?D k2 k'"
    using sd unfolding served_def by auto
  note rn = run [OF st(1)]
  have r0: "r0 = ?q\<lparr>m3i2 := int len, msgtype := SYSCALL_RET\<rparr>" "proc_table k2 = proc_table k1" using rn st(2) by auto
  have rest: "at_rest k Q sbuf k'" by (rule served_at_rest [OF sd st(1,4) r0(2)])
  have "mem k' (lin (proc_table k) pc buf + of_nat j) = file_byte part s start (pos + j)" if "j < len" for j
    using rn st(2,4) data that by (auto simp: alike_def)
  moreover have "m3i2 r = int len" using st(3) r0(1) len by (simp add: as_stored_def)
  ultimately show ?thesis using r rest by (intro exI [of _ k'] exI [of _ s']) auto
qed

text \<open>
  C11: what one process writes with \<open>write\<close> another process that has the file open
  at the same position reads with \<open>read\<close>, on one kernel: both calls return the number of
  bytes, and the bytes arrive in the reader's buffer.  The messages between
  them and the file system go through \<open>sys_sendrec\<close>, on the process table and the memory of
  the kernel; in between the file system runs its loop, with its dispatch, its cache and
  the disk (whose driver it calls directly, without messages).  The file system waits for requests at the start, no other process runs, and the data buffers and the
  message buffers do not overlap.
\<close>

theorem write_reaches_reader:
  assumes w: "waiting k Q TASK_FS sbuf"
    and c: "caller k pc ubuf TASK_FS sbuf" "caller k pc' ubuf' TASK_FS sbuf"
    and f: "file_at (synced k s) p dev part sb n start sz nr"
    and opn: "opened (synced k s) pc fd d p pos" "opened (synced k s) pc' fd' d' p pos" "d \<noteq> d'"
    and fit: "pos + len \<le> nr * SECTOR_SIZE" "(pos + len) div SECTOR_SIZE - pos div SECTOR_SIZE < 256"
    and apart: "\<forall>j < len. \<not> in_buffers k pc ubuf TASK_FS sbuf (lin (proc_table k) pc buf + of_nat j)"
      "\<forall>j < len. \<not> in_buffers k pc' ubuf' TASK_FS sbuf (lin (proc_table k) pc' buf' + of_nat j)"
  shows "\<exists>k1 s1 k2 s2. lib_write (fs_port tty pc ubuf sbuf) junk (int fd) buf (int len) (k, s) = Inr (int len, (k1, s1)) \<and>
    lib_read (fs_port tty pc' ubuf' sbuf) junk' (int fd') buf' (int len) (k1, s1) = Inr (int len, (k2, s2)) \<and>
    (\<forall>j < len. mem k2 (lin (proc_table k) pc' buf' + of_nat j) = mem k (lin (proc_table k) pc buf + of_nat j))"
proof -
  obtain k1 s1 where s1: "lib_write (fs_port tty pc ubuf sbuf) junk (int fd) buf (int len) (k, s) = Inr (int len, (k1, s1))"
    "at_rest k Q sbuf k1"
    "\<forall>y. file_byte part s1 start y = (if pos \<le> y \<and> y < pos + len then mem k (lin (proc_table k) pc buf + of_nat (y - pos))
       else file_byte part s start y)"
    "file_at (synced k1 s1) p dev part sb n start (max sz (pos + len)) nr"
    "\<forall>e. e \<noteq> d \<longrightarrow> f_desc_table s1 e = f_desc_table s e"
    using fs_write_served [OF w c(1) f opn(1) fit apart(1), of tty junk] by blast
  have rest: "waiting k1 Q TASK_FS sbuf" "caller k1 pc' ubuf' TASK_FS sbuf" "filp (proc_table k1 pc') = filp (proc_table k pc')"
    and l: "lin (proc_table k1) x va = lin (proc_table k) x va" for x va
    using s1(2) c(2) by (simp_all add: at_rest_def)
  have o1: "opened (synced k1 s1) pc' fd' d' p pos" using opn(2,3) s1(5) rest(3) by (simp add: opened_def)
  have fit1: "pos + len \<le> max sz (pos + len)" by simp
  have apart1: "\<forall>j < len. \<not> in_buffers k1 pc' ubuf' TASK_FS sbuf (lin (proc_table k1) pc' buf' + of_nat j)"
    using apart(2) by (simp add: in_buffers_def l)
  obtain k2 s2 where s2: "lib_read (fs_port tty pc' ubuf' sbuf) junk' (int fd') buf' (int len) (k1, s1) = Inr (int len, (k2, s2))"
    "\<forall>j < len. mem k2 (lin (proc_table k1) pc' buf' + of_nat j) = file_byte part s1 start (pos + j)"
    using fs_read_served [OF rest(1,2) s1(4) o1 fit1 fit(2) apart1, of tty junk'] by blast
  show ?thesis
    using s1(1,3) s2 by (intro exI [of _ k1] exI [of _ s1] exI [of _ k2] exI [of _ s2]) (simp add: l)
qed

section \<open>A sample\<close>

text \<open>\<open>Init\<close> and \<open>TestB\<close>, process 7, with the sample file open, and the file system waiting in the buffer at 256.\<close>

definition sample_shared :: fs_state where
  "sample_shared = sample_fs\<lparr>
     f_desc_table := (f_desc_table sample_fs)(1 := \<lparr>fd_mode = O_RDWR, fd_pos = 0, fd_cnt = 1, fd_inode = Some 1\<rparr>)\<rparr>"

definition sample_opens :: kstate where
  "sample_opens = sample_boot\<lparr>mem := (\<lambda>a. ucast a),
     proc_table := upd_proc 7 (\<lambda>p. p\<lparr>filp := (filp p)(0 := Some 1)\<rparr>) (fprocs sample_fs)\<rparr>"

lemma sample_called:
  obtains k where "waiting k (\<lambda>_. []) TASK_FS 256" and "caller k INIT 64 TASK_FS 256" and "caller k 7 128 TASK_FS 256"
    and "file_at (synced k sample_shared) 1 ROOT_DEV sample_part sample_sb 7 3000 1000 2048"
    and "opened (synced k sample_shared) INIT 0 0 1 0" and "opened (synced k sample_shared) 7 0 1 1 0"
    and "\<And>p va. p < 9 \<Longrightarrow> lin (proc_table k) p va = va" and "mem k 0x1009 = 9"
proof -
  let ?D = "\<lambda>x. unat (x - lin (proc_table sample_opens) TASK_FS 256) < MESSAGE_SIZE"
  have f0: "p_flags (proc_table sample_opens x) = p_flags (proc_table sample_boot x)"
    "has_int_msg (proc_table sample_opens x) = has_int_msg (proc_table sample_boot x)" for x
    by (simp_all add: sample_opens_def sample_fs_def upd_proc_apply)
  have "task_keeps sample_boot sample_opens"
    by (simp add: task_keeps_def sample_opens_def sample_fs_def upd_proc_apply same_ipc_def)
  then have g: "good sample_opens (\<lambda>_. [])" by (rule task_keeps_good [OF _ sample_good])
  have src: "(ANY = (ANY :: int) \<and> (\<lambda>_ :: nat. [] :: nat list) TASK_FS = []) \<or>
      (ANY = int f \<and> f < NPROC \<and> f \<notin> set ((\<lambda>_ :: nat. [] :: nat list) TASK_FS) \<and> f \<noteq> TASK_FS)" for f by simp
  obtain k where k: "good k (\<lambda>_. [])" "p_flags (proc_table k TASK_FS) = RECEIVING" "p_msg (proc_table k TASK_FS) = 256"
      "p_recvfrom (proc_table k TASK_FS) = ANY" "has_int_msg (proc_table k TASK_FS) = 0"
      "\<forall>x. x \<noteq> TASK_FS \<longrightarrow> same_ipc (proc_table sample_opens x) (proc_table k x)"
      "\<forall>x. filp (proc_table k x) = filp (proc_table sample_opens x) \<and> ldts (proc_table k x) = ldts (proc_table sample_opens x)"
      "sys_ticks k = sys_ticks sample_opens" "\<forall>x. 48 \<le> unat (x - lin (proc_table sample_opens) TASK_FS 256) \<longrightarrow> mem k x = mem sample_opens x"
    using trap_receive [OF g _ _ _ _ src _ refl, of 256 zero_message] f0 by auto
  have al: "alike ?D sample_opens k" using k(7-9) by (simp add: alike_def)
  have fl0: "flat_tasks (proc_table sample_opens)" by (rule inv_flat [OF good_inv [OF g]])
  have l: "lin (proc_table k) p va = va" if "p < 9" for p va
    using inv_flat [OF good_inv [OF k(1)]] that by (simp add: flat_tasks_def lin_def)
  have ready: "p_flags (proc_table k x) = 0" "has_int_msg (proc_table k x) = 0" if "x < 9" "x \<noteq> TASK_FS" for x
    using same_ipcD(1,5) [of "proc_table sample_opens x" "proc_table k x"] k(6) that f0 by auto
  have w: "waiting k (\<lambda>_. []) TASK_FS 256" using k by (simp add: waiting_def)
  have c: "caller k INIT 64 TASK_FS 256" "caller k 7 128 TASK_FS 256" using ready by (simp_all add: caller_def l)
  have f: "file_at (synced k sample_shared) 1 ROOT_DEV sample_part sample_sb 7 3000 1000 2048"
    by (rule file_at_synced [OF sample_file_at al fl0]) (simp_all add: sample_shared_def)
  have o: "opened (synced k sample_shared) INIT 0 0 1 0" "opened (synced k sample_shared) 7 0 1 1 0"
    using k(7) sample_opened by (simp_all add: opened_def sample_shared_def sample_opens_def upd_proc_apply)
  have "lin (proc_table sample_opens) TASK_FS 256 = 256" using fl0 by (simp add: flat_tasks_def lin_def)
  then have "mem k 0x1009 = 9" using k(9) [rule_format, of "0x1009"] by (simp add: sample_opens_def)
  with w c f o l show thesis by (intro that)
qed

theorem write_reaches_reader_witness:
  "\<exists>k k1 s1 k2 s2. lib_write (fs_port sample_terminal INIT 64 256) zero_message 0 0x1000 600 (k, sample_shared) = Inr (600, (k1, s1)) \<and>
     lib_read (fs_port sample_terminal 7 128 256) zero_message 0 0x2000 600 (k1, s1) = Inr (600, (k2, s2)) \<and> mem k2 0x2009 = 9"
proof (rule sample_called)
  fix k
  assume k: "waiting k (\<lambda>_. []) TASK_FS 256" "caller k INIT 64 TASK_FS 256" "caller k 7 128 TASK_FS 256"
      "file_at (synced k sample_shared) 1 ROOT_DEV sample_part sample_sb 7 3000 1000 2048"
      "opened (synced k sample_shared) INIT 0 0 1 0" "opened (synced k sample_shared) 7 0 1 1 0"
    and l: "\<And>p va. p < 9 \<Longrightarrow> lin (proc_table k) p va = va" and m: "mem k 0x1009 = 9"
  have apart: "\<forall>j < 600. \<not> in_buffers k INIT 64 TASK_FS 256 (lin (proc_table k) INIT 0x1000 + of_nat j)"
    "\<forall>j < 600. \<not> in_buffers k 7 128 TASK_FS 256 (lin (proc_table k) 7 0x2000 + of_nat j)"
    by (auto simp: in_buffers_def l unat_sub_if_size word_size unat_word_ariths unat_of_nat not_less)
  have "\<exists>k1 s1 k2 s2. lib_write (fs_port sample_terminal INIT 64 256) zero_message (int 0) 0x1000 (int 600) (k, sample_shared) = Inr (int 600, (k1, s1)) \<and>
    lib_read (fs_port sample_terminal 7 128 256) zero_message (int 0) 0x2000 (int 600) (k1, s1) = Inr (int 600, (k2, s2)) \<and>
    (\<forall>j < 600. mem k2 (lin (proc_table k) 7 0x2000 + of_nat j) = mem k (lin (proc_table k) INIT 0x1000 + of_nat j))"
    by (rule write_reaches_reader [OF k(1-6) _ _ _ apart]) simp_all
  then obtain k1 s1 k2 s2 where r: "lib_write (fs_port sample_terminal INIT 64 256) zero_message 0 0x1000 600 (k, sample_shared) = Inr (600, (k1, s1))"
    "lib_read (fs_port sample_terminal 7 128 256) zero_message 0 0x2000 600 (k1, s1) = Inr (600, (k2, s2))"
    and b: "\<forall>j < 600. mem k2 (lin (proc_table k) 7 0x2000 + of_nat j) = mem k (lin (proc_table k) INIT 0x1000 + of_nat j)" by auto
  from b [rule_format, of 9] have "mem k2 0x2009 = 9" using m by (simp add: l)
  with r show ?thesis by blast
qed

end
