(* ===== verification/Shell.thy ===== *)
theory Shell
  imports Fmt
begin

unbundle bit_operations_syntax

text \<open>
  The first user programs, of \<open>kernel/main.c\<close>: \<open>untar\<close>, which unpacks the archive of
  commands, the shell \<open>shabby_shell\<close> and \<open>Init\<close>, which starts one shell per terminal.
  The system calls they make are fields of a record, over the state \<open>'w\<close> of the rest
  of the system; a null path is \<open>None\<close>.
\<close>

record 'w os =
  os_open :: "string option \<Rightarrow> int \<Rightarrow> 'w \<Rightarrow> (int \<times> 'w) kres"
  os_close :: "int \<Rightarrow> 'w \<Rightarrow> (int \<times> 'w) kres"
  os_read :: "int \<Rightarrow> (nat \<Rightarrow> char) \<Rightarrow> int \<Rightarrow> 'w \<Rightarrow> ((int \<times> (nat \<Rightarrow> char)) \<times> 'w) kres"
  os_write :: "int \<Rightarrow> (nat \<Rightarrow> char) \<Rightarrow> int \<Rightarrow> 'w \<Rightarrow> (int \<times> 'w) kres"
  os_printf :: "string \<Rightarrow> va_arg list \<Rightarrow> 'w \<Rightarrow> (int \<times> 'w) kres"
  os_fork :: "'w \<Rightarrow> (int \<times> 'w) kres"
  os_getpid :: "'w \<Rightarrow> (int \<times> 'w) kres"
  os_wait :: "'w \<Rightarrow> ((int \<times> int) \<times> 'w) kres"
  os_execv :: "string option \<Rightarrow> string list \<Rightarrow> 'w \<Rightarrow> (int \<times> 'w) kres"

abbreviation (input) AMN :: "nat \<Rightarrow> kfail" where "AMN \<equiv> Assertion ''kernel/main.c''"
abbreviation (input) NUL :: char where "NUL \<equiv> CHR 0x00"

text \<open>The string at index \<open>j\<close> of a buffer of \<open>n\<close> characters.\<close>

definition c_string :: "nat \<Rightarrow> (nat \<Rightarrow> char) \<Rightarrow> nat \<Rightarrow> string" where
  "c_string n buf j = takeWhile (\<lambda>c. c \<noteq> NUL) (map buf [j..<n])"

definition put_string :: "string \<Rightarrow> nat \<Rightarrow> char" where
  "put_string t i = (if i < length t then t ! i else NUL)"

section \<open>\<open>untar\<close>\<close>

text \<open>The header of an archived file: the name at offset 0, the size at 124.\<close>

fun octal :: "int \<Rightarrow> string \<Rightarrow> int" where
  "octal v [] = v"
| "octal v (c # cs) = octal (cint (cint (v * 8) + (schar c - 48))) cs"

definition tar_size :: "(nat \<Rightarrow> char) \<Rightarrow> int" where
  "tar_size buf = octal 0 (c_string (16 * SECTOR_SIZE) buf 124)"

text \<open>The bytes of one pass: to be read, rounded up to sectors, and to be written.\<close>

definition copy_step :: "int \<Rightarrow> int \<times> int" where
  "copy_step bytes_left =
    (let iobytes = cmin (16 * SECTOR_SIZE) bytes_left in
     (((iobytes - 1) sdiv SECTOR_SIZE + 1) * SECTOR_SIZE, iobytes))"

text \<open>The loop \<open>while (bytes_left)\<close>: a negative number is written off in one pass.\<close>

function untar_copy :: "'w os \<Rightarrow> int \<Rightarrow> int \<Rightarrow> int \<Rightarrow> (nat \<Rightarrow> char) \<Rightarrow> 'w \<Rightarrow> ((nat \<Rightarrow> char) \<times> 'w) kres" where
  "untar_copy os fd fdout bytes_left buf w =
    (if bytes_left = 0 then Inr (buf, w)
     else rbind (os_read os fd buf (fst (copy_step bytes_left)) w) (\<lambda>((_, buf1), w1).
       rbind (os_write os fdout buf1 (snd (copy_step bytes_left)) w1) (\<lambda>(_, w2).
       untar_copy os fd fdout (bytes_left - snd (copy_step bytes_left)) buf1 w2)))"
  by pat_completeness auto
termination
  by (relation "measure (\<lambda>(os, fd, fdout, n, _). nat \<bar>n\<bar>)") (auto simp: copy_step_def Let_def)

declare untar_copy.simps [simp del]

text \<open>The loop over the files; \<open>n\<close> bounds their number.\<close>

fun untar_loop :: "'w os \<Rightarrow> int \<Rightarrow> nat \<Rightarrow> (nat \<Rightarrow> char) \<Rightarrow> 'w \<Rightarrow> (bool \<times> 'w) kres" where
  "untar_loop os fd 0 buf w = Inl Hang"
| "untar_loop os fd (Suc n) buf w =
    rbind (os_read os fd buf SECTOR_SIZE w) (\<lambda>((_, buf1), w1).
    if buf1 0 = NUL then Inr (True, w1)
    else
     (let f_len = tar_size buf1; name = c_string (16 * SECTOR_SIZE) buf1 0 in
      rbind (os_open os (Some name) (O_CREAT OR O_RDWR) w1) (\<lambda>(fdout, w2).
      if fdout = -1 then
        rbind (os_printf os ''    failed to extract file: %s\<newline>'' [VStr name] w2) (\<lambda>(_, w3).
        rbind (os_printf os '' aborted]\<newline>'' [] w3) (\<lambda>(_, w4). Inr (False, w4)))
      else
        rbind (os_printf os ''    %s (%d bytes)\<newline>'' [VStr name, VInt f_len] w2) (\<lambda>(_, w3).
        rbind (untar_copy os fd fdout f_len buf1 w3) (\<lambda>(buf2, w4).
        rbind (os_close os fdout w4) (\<lambda>(_, w5). untar_loop os fd n buf2 w5))))))"

definition untar :: "'w os \<Rightarrow> (nat \<Rightarrow> char) \<Rightarrow> nat \<Rightarrow> string \<Rightarrow> 'w \<Rightarrow> 'w kres" where
  "untar os junk n filename w =
    rbind (os_printf os ''[extract `%s'\<newline>'' [VStr filename] w) (\<lambda>(_, w1).
    rbind (os_open os (Some filename) O_RDWR w1) (\<lambda>(fd, w2).
    ensure (fd \<noteq> -1) (AMN 286) (
    rbind (untar_loop os fd n junk w2) (\<lambda>(complete, w3).
    if complete then
      rbind (os_close os fd w3) (\<lambda>(_, w4). rbind (os_printf os '' done]\<newline>'' [] w4) (\<lambda>(_, w5). Inr w5))
    else Inr w3))))"

section \<open>The shell\<close>

text \<open>
  The loop that cuts the command line into words: passes left, \<open>p\<close>, the start of the
  word the loop is in, \<open>rdbuf\<close> and the words found, as indices into \<open>rdbuf\<close>.
\<close>

fun shell_scan :: "nat \<Rightarrow> nat \<Rightarrow> nat option \<Rightarrow> (nat \<Rightarrow> char) \<Rightarrow> nat list \<Rightarrow> (nat list \<times> (nat \<Rightarrow> char)) kres" where
  "shell_scan 0 p s rdbuf argv = Inl (Bad_access ''rdbuf'')"
| "shell_scan (Suc n) p s rdbuf argv =
    (let ch = rdbuf p;
         blank = (ch = CHR '' '' \<or> ch = NUL);
         s1 = (if \<not> blank \<and> s = None then Some p else s);
         (s2, rdbuf2, argv2) = (case s1 of
            Some q \<Rightarrow> if blank then (None, rdbuf(p := NUL), argv @ [q]) else (s1, rdbuf, argv)
          | None \<Rightarrow> (None, rdbuf, argv)) in
     if ch = NUL then Inr (argv2, rdbuf2) else shell_scan n (Suc p) s2 rdbuf2 argv2)"

text \<open>
  One round of the shell.  The child of the fork goes on with the result of \<open>execv\<close>;
  the file system's answer to a null path is up to \<open>os_open\<close>.
\<close>

definition shell_round :: "'w os \<Rightarrow> (nat \<Rightarrow> char) \<Rightarrow> 'w \<Rightarrow> ((nat \<Rightarrow> char) \<times> 'w) kres" where
  "shell_round os rdbuf0 w =
    rbind (os_write os 1 (put_string ''$ '') 2 w) (\<lambda>(_, w1).
    rbind (os_read os 0 rdbuf0 70 w1) (\<lambda>((r, rdbuf1), w2).
    ensure (0 \<le> r \<and> r < 128) (Bad_access ''rdbuf'') (
    rbind (shell_scan 128 0 None (rdbuf1(nat r := NUL)) []) (\<lambda>(words, rdbuf).
    let argv = map (c_string 128 rdbuf) words;
        path = (case argv of [] \<Rightarrow> None | a # _ \<Rightarrow> Some a) in
    rbind (os_open os path O_RDWR w2) (\<lambda>(fd, w3).
    if fd = -1 then
      (if rdbuf 0 \<noteq> NUL then
         rbind (os_write os 1 (put_string ''{'') 1 w3) (\<lambda>(_, w4).
         rbind (os_write os 1 rdbuf r w4) (\<lambda>(_, w5).
         rbind (os_write os 1 (put_string ''}\<newline>'') 2 w5) (\<lambda>(_, w6). Inr (rdbuf, w6))))
       else Inr (rdbuf, w3))
    else
      rbind (os_close os fd w3) (\<lambda>(_, w4).
      rbind (os_fork os w4) (\<lambda>(pid, w5).
      if pid \<noteq> 0 then rbind (os_wait os w5) (\<lambda>(_, w6). Inr (rdbuf, w6))
      else rbind (os_execv os path argv w5) (\<lambda>(_, w6). Inr (rdbuf, w6)))))))))"

text \<open>\<open>shabby_shell\<close> never returns: \<open>n\<close> rounds of it.\<close>

fun shell_rounds :: "'w os \<Rightarrow> nat \<Rightarrow> (nat \<Rightarrow> char) \<Rightarrow> 'w \<Rightarrow> 'w kres" where
  "shell_rounds os 0 rdbuf w = Inr w"
| "shell_rounds os (Suc n) rdbuf w = rbind (shell_round os rdbuf w) (\<lambda>(rdbuf1, w1). shell_rounds os n rdbuf1 w1)"

definition shabby_shell :: "'w os \<Rightarrow> (nat \<Rightarrow> char) \<Rightarrow> nat \<Rightarrow> string \<Rightarrow> 'w \<Rightarrow> 'w kres" where
  "shabby_shell os junk n tty_name w =
    rbind (os_open os (Some tty_name) O_RDWR w) (\<lambda>(fd_stdin, w1).
    ensure (fd_stdin = 0) (AMN 333) (
    rbind (os_open os (Some tty_name) O_RDWR w1) (\<lambda>(fd_stdout, w2).
    ensure (fd_stdout = 1) (AMN 335) (shell_rounds os n junk w2))))"

section \<open>\<open>Init\<close>\<close>

text \<open>The loop that starts the shells; a child does not come back from its shell.\<close>

fun start_shells :: "'w os \<Rightarrow> (nat \<Rightarrow> char) \<Rightarrow> nat \<Rightarrow> int \<times> int \<Rightarrow> string list \<Rightarrow> 'w \<Rightarrow> (bool \<times> 'w) kres" where
  "start_shells os junk n fds [] w = Inr (True, w)"
| "start_shells os junk n fds (tty # ttys) w =
    rbind (os_fork os w) (\<lambda>(pid, w1).
    if pid \<noteq> 0 then
      rbind (os_printf os ''[parent is running, child pid:%d]\<newline>'' [VInt pid] w1) (\<lambda>(_, w2).
      start_shells os junk n fds ttys w2)
    else
      rbind (os_getpid os w1) (\<lambda>(me, w2).
      rbind (os_printf os ''[child is running, pid:%d]\<newline>'' [VInt me] w2) (\<lambda>(_, w3).
      rbind (os_close os (fst fds) w3) (\<lambda>(_, w4).
      rbind (os_close os (snd fds) w4) (\<lambda>(_, w5).
      rbind (shabby_shell os junk n tty w5) (\<lambda>w6. Inr (False, w6)))))))"

fun reap_loop :: "'w os \<Rightarrow> nat \<Rightarrow> 'w \<Rightarrow> 'w kres" where
  "reap_loop os 0 w = Inr w"
| "reap_loop os (Suc n) w =
    rbind (os_wait os w) (\<lambda>((child, s), w1).
    rbind (os_printf os ''child (%d) exited with status: %d.\<newline>'' [VInt child, VInt s] w1) (\<lambda>(_, w2). reap_loop os n w2))"

definition Init :: "'w os \<Rightarrow> (nat \<Rightarrow> char) \<Rightarrow> nat \<Rightarrow> 'w \<Rightarrow> 'w kres" where
  "Init os junk n w =
    rbind (os_open os (Some ''/dev_tty0'') O_RDWR w) (\<lambda>(fd_stdin, w1).
    ensure (fd_stdin = 0) (AMN 394) (
    rbind (os_open os (Some ''/dev_tty0'') O_RDWR w1) (\<lambda>(fd_stdout, w2).
    ensure (fd_stdout = 1) (AMN 396) (
    rbind (os_printf os ''Init() is running ...\<newline>'' [] w2) (\<lambda>(_, w3).
    rbind (untar os junk n ''/cmd.tar'' w3) (\<lambda>w4.
    rbind (start_shells os junk n (fd_stdin, fd_stdout) [''/dev_tty1'', ''/dev_tty2''] w4) (\<lambda>(parent, w5).
    if parent then reap_loop os n w5 else Inr w5)))))))"

end
