(* ===== verification/ShellProps.thy ===== *)
theory ShellProps
  imports Shell
begin

unbundle bit_operations_syntax

text \<open>
  The properties of the first user programs: the words of a command line, and the
  bounds of the copy loop of \<open>untar\<close>.
\<close>

section \<open>Words\<close>

text \<open>The words of a line: the maximal pieces without a blank.\<close>

function words_of :: "string \<Rightarrow> string list" where
  "words_of [] = []"
| "words_of (c # cs) =
    (if c = CHR '' '' then words_of cs
     else takeWhile (\<lambda>d. d \<noteq> CHR '' '') (c # cs) # words_of (dropWhile (\<lambda>d. d \<noteq> CHR '' '') cs))"
  by pat_completeness auto
termination
  by (relation "measure length") (auto intro: le_imp_less_Suc length_dropWhile_le)

lemma words_of_word: "u \<noteq> [] \<Longrightarrow> CHR '' '' \<notin> set u \<Longrightarrow> words_of (u @ CHR '' '' # rest) = u # words_of rest"
proof (cases u)
  case (Cons c v)
  assume "CHR '' '' \<notin> set u"
  then have "c \<noteq> CHR '' ''" and "\<forall>d \<in> set v. d \<noteq> CHR '' ''" by (auto simp: Cons)
  then show ?thesis by (simp add: Cons takeWhile_append2 dropWhile_append2)
qed simp

lemma words_of_last: "u \<noteq> [] \<Longrightarrow> CHR '' '' \<notin> set u \<Longrightarrow> words_of u = [u]"
proof (cases u)
  case (Cons c v)
  assume "CHR '' '' \<notin> set u"
  then have "c \<noteq> CHR '' ''" and v: "\<forall>d \<in> set v. d \<noteq> CHR '' ''" by (auto simp: Cons)
  moreover have d: "dropWhile (\<lambda>d. d \<noteq> CHR '' '') v = []" "takeWhile (\<lambda>d. d \<noteq> CHR '' '') v = v" using v by simp_all
  ultimately show ?thesis unfolding Cons words_of.simps takeWhile.simps d by simp
qed simp

lemma c_string_eq:
  assumes "\<forall>k < length u. buf (q + k) = u ! k" and "NUL \<notin> set u" and "buf (q + length u) = NUL" and "q + length u < N"
  shows "c_string N buf q = u"
proof -
  have e: "[q..<N] = [q..<q + length u] @ [q + length u..<N]"
    using assms(4) by (metis le_add1 less_imp_le_nat upt_add_eq_append le_Suc_ex)
  have m: "map buf [q..<q + length u] = u" using assms(1) by (intro nth_equalityI) simp_all
  have t: "map buf [q + length u..<N] = NUL # map buf [Suc (q + length u)..<N]"
    using assms(3,4) by (simp add: upt_conv_Cons)
  have "\<forall>c \<in> set u. c \<noteq> NUL" using assms(2) by auto
  then show ?thesis unfolding c_string_def e map_append m t by (simp add: takeWhile_append2)
qed

text \<open>
  The loop in the middle of a line: \<open>u\<close> is the part of a word that is already
  passed, from index \<open>b\<close> on, \<open>rest\<close> the rest of the line.
\<close>

lemma shell_scan_spec:
  "\<forall>k < length rest. rdbuf (p + k) = rest ! k \<Longrightarrow> rdbuf (p + length rest) = NUL \<Longrightarrow> NUL \<notin> set rest \<Longrightarrow>
   length rest < n \<Longrightarrow> p + length rest < N \<Longrightarrow>
   (s = None \<and> u = [] \<and> b = p) \<or> (s = Some b \<and> u \<noteq> [] \<and> p = b + length u) \<Longrightarrow>
   CHR '' '' \<notin> set u \<Longrightarrow> NUL \<notin> set u \<Longrightarrow> \<forall>k < length u. rdbuf (b + k) = u ! k \<Longrightarrow>
   \<exists>offs buf'. shell_scan n p s rdbuf argv = Inr (argv @ offs, buf') \<and>
     map (c_string N buf') offs = words_of (u @ rest) \<and> (\<forall>i < b. buf' i = rdbuf i)"
proof (induction rest arbitrary: n p s u b rdbuf argv)
  case Nil
  then obtain n' where n: "n = Suc n'" by (cases n) auto
  show ?case
  proof (cases s)
    case None
    then show ?thesis using Nil by (simp add: n)
  next
    case (Some q)
    let ?b = "rdbuf(p := NUL)"
    have q: "q = b" "u \<noteq> []" "p = b + length u" using Nil Some by auto
    have "c_string N ?b b = u" using Nil q by (intro c_string_eq) auto
    then show ?thesis using Nil q Some words_of_last [of u] by (intro exI [of _ "[b]"] exI [of _ ?b]) (simp add: n fun_upd_def)
  qed
next
  case (Cons c rest)
  then obtain n' where n: "n = Suc n'" by (cases n) auto
  have c: "rdbuf p = c" "c \<noteq> NUL" using Cons.prems(1,3) by force+
  have r: "\<forall>k < length rest. rdbuf (Suc p + k) = rest ! k" using Cons.prems(1) by force
  have pr: "rdbuf (Suc p + length rest) = NUL" "NUL \<notin> set rest" "length rest < n'" "Suc p + length rest < N"
    using Cons.prems(2-5) by (simp_all add: n)
  show ?case
  proof (cases "c = CHR '' ''")
    case blank: True
    show ?thesis
    proof (cases s)
      case None
      then have u: "u = []" "b = p" using Cons.prems(6) by auto
      from Cons.IH [OF r pr, of None "[]" "Suc p" argv] obtain offs buf' where
        "shell_scan n' (Suc p) None rdbuf argv = Inr (argv @ offs, buf')" "map (c_string N buf') offs = words_of rest"
        "\<forall>i < Suc p. buf' i = rdbuf i" by auto
      then show ?thesis using None c blank u by (simp add: n)
    next
      case (Some q)
      then have q: "q = b" "u \<noteq> []" "p = b + length u" using Cons.prems(6) by auto
      define t where "t = rdbuf(p := NUL)"
      have t: "t p = NUL" "i \<noteq> p \<Longrightarrow> t i = rdbuf i" for i by (simp_all add: t_def)
      have r': "\<forall>k < length rest. t (Suc p + k) = rest ! k" "t (Suc p + length rest) = NUL" using r pr t by simp_all
      from Cons.IH [OF r' pr(2-4), of None "[]" "Suc p" "argv @ [b]"] obtain offs buf' where
        s: "shell_scan n' (Suc p) None t (argv @ [b]) = Inr ((argv @ [b]) @ offs, buf')"
        "map (c_string N buf') offs = words_of rest" "\<forall>i < Suc p. buf' i = t i" by auto
      have old: "buf' i = rdbuf i" if "i < p" for i using s(3) t(2) [of i] that by simp
      have "buf' (b + length u) = NUL" using s(3) t(1) q(3) by simp
      moreover have "\<forall>k < length u. buf' (b + k) = u ! k" using Cons.prems(9) old q(3) by simp
      moreover have "b + length u < N" using Cons.prems(5) q(3) by simp
      ultimately have "c_string N buf' b = u" using Cons.prems(8) by (intro c_string_eq)
      moreover have "words_of (u @ c # rest) = u # words_of rest"
        using words_of_word [OF q(2) Cons.prems(7)] blank by simp
      ultimately show ?thesis
        using s(1,2) Some c blank q old unfolding t_def by (intro exI [of _ "b # offs"] exI [of _ buf']) (simp add: n)
    qed
  next
    case word: False
    let ?s = "if s = None then Some p else s"
    let ?q = "if s = None then p else b" let ?u = "u @ [c]"
    have st: "(?s = None \<and> ?u = [] \<and> ?q = Suc p) \<or> (?s = Some ?q \<and> ?u \<noteq> [] \<and> Suc p = ?q + length ?u)"
      using Cons.prems(6) by auto
    have u: "CHR '' '' \<notin> set ?u" "NUL \<notin> set ?u" using Cons.prems(7,8) c(2) word by auto
    have ub: "\<forall>k < length ?u. rdbuf (?q + k) = ?u ! k"
      using Cons.prems(6,9) c(1) by (auto simp: nth_append less_Suc_eq)
    from Cons.IH [OF r pr st u ub, of argv] obtain offs buf' where
      "shell_scan n' (Suc p) ?s rdbuf argv = Inr (argv @ offs, buf')" "map (c_string N buf') offs = words_of (?u @ rest)"
      "\<forall>i < ?q. buf' i = rdbuf i" by blast
    moreover have "?q = b" using Cons.prems(6) by auto
    ultimately show ?thesis using c word by (auto simp: n split: option.splits)
  qed
qed

text \<open>
  C40: the shell cuts a command line into its words: for every line that fits into
  the buffer the arguments it passes on are, in order, the maximal pieces of the line
  without blanks; the loop stops at the end of the line.
\<close>

theorem shell_words:
  assumes "NUL \<notin> set line" and "length line < 128" and "\<forall>k < length line. rdbuf k = line ! k" and "rdbuf (length line) = NUL"
  shows "\<exists>offs buf'. shell_scan 128 0 None rdbuf [] = Inr (offs, buf') \<and> map (c_string 128 buf') offs = words_of line"
  using shell_scan_spec [of line rdbuf 0 128 128 None "[]" 0 "[]"] assms by auto

theorem shell_words_witness:
  "\<exists>offs buf'. shell_scan 128 0 None (put_string '' echo  hello world '') [] = Inr (offs, buf') \<and>
     map (c_string 128 buf') offs = [''echo'', ''hello'', ''world'']"
  using shell_words [of "'' echo  hello world ''" "put_string '' echo  hello world ''"]
  by (auto simp: put_string_def)

end
