(* ===== verification/UntarProps.thy ===== *)
theory UntarProps
  imports ShellProps
begin

unbundle bit_operations_syntax

text \<open>
  Unpacking an archive: the system calls that \<open>untar\<close> makes for a tar file, whatever
  these calls do.
\<close>

section \<open>Archives\<close>

definition number :: "nat list \<Rightarrow> nat" where
  "number ds = foldl (\<lambda>v d. v * 8 + d) 0 ds"

text \<open>
  A header of 512 bytes: the name, ended by a 0, in the first 100, the size in octal
  digits at 124, ended by a 0; the other fields are arbitrary.
\<close>

definition tar_header :: "string \<Rightarrow> string \<Rightarrow> nat \<Rightarrow> bool" where
  "tar_header h name len \<longleftrightarrow> length h = SECTOR_SIZE \<and> name \<noteq> [] \<and> length name < 100 \<and> NUL \<notin> set name \<and>
     (\<exists>mid ds rest. h = (name @ NUL # mid) @ map (\<lambda>d. char_of (48 + d)) ds @ NUL # rest \<and>
        length (name @ NUL # mid) = 124 \<and> (\<forall>d \<in> set ds. d < 8) \<and> number ds = len)"

text \<open>
  An archive is a sequence of files, each with its header and its contents padded to
  whole sectors, and a sector that starts with 0.
\<close>

fun is_tar :: "(string \<times> string) list \<Rightarrow> string \<Rightarrow> bool" where
  "is_tar [] a \<longleftrightarrow> (\<exists>z rest. a = z @ rest \<and> length z = SECTOR_SIZE \<and> hd z = NUL)"
| "is_tar ((name, text) # fs) a \<longleftrightarrow>
    (\<exists>h pad rest. a = h @ (text @ pad) @ rest \<and> tar_header h name (length text) \<and> length text < 2 ^ 31 - SECTOR_SIZE \<and>
       length (text @ pad) = (length text + SECTOR_SIZE - 1) div SECTOR_SIZE * SECTOR_SIZE \<and> is_tar fs rest)"

section \<open>The size of a file\<close>

lemma number_snoc: "number (ds @ [d]) = number ds * 8 + d"
  by (simp add: number_def)

lemma number_mono: "number ds \<le> number (ds @ es)"
proof (induction es rule: rev_induct)
  case (snoc d es)
  then show ?case using number_snoc [of "ds @ es" d] by simp
qed simp

lemma schar_digit: "d < 8 \<Longrightarrow> schar (char_of (48 + d)) - 48 = int d"
proof -
  assume d: "d < 8"
  then have "(of_char (char_of (48 + d)) :: int) = int (48 + d)"
    by (subst of_nat_of_char [symmetric]) (simp add: take_bit_nat_eq_self)
  with d show ?thesis by (simp add: schar_def)
qed

lemma octal_number:
  "\<forall>d \<in> set es. d < 8 \<Longrightarrow> number (ds @ es) < 2 ^ 31 \<Longrightarrow>
   octal (int (number ds)) (map (\<lambda>d. char_of (48 + d)) es) = int (number (ds @ es))"
proof (induction es arbitrary: ds)
  case (Cons d es)
  have n: "number (ds @ [d]) \<le> number (ds @ d # es)" using number_mono [of "ds @ [d]" es] by simp
  have c: "cint (int (number ds) * 8) = int (number ds) * 8"
    "cint (int (number ds) * 8 + int d) = int (number (ds @ [d]))"
    using n Cons.prems(2) by (simp_all add: cint_small number_snoc)
  have "octal (int (number (ds @ [d]))) (map (\<lambda>d. char_of (48 + d)) es) = int (number ((ds @ [d]) @ es))"
    by (rule Cons.IH) (use Cons.prems in simp_all)
  then show ?case using c schar_digit [of d] Cons.prems(1) by simp
qed simp

lemma header_fields:
  assumes h: "tar_header h name len" and len: "len < 2 ^ 31" and b: "\<forall>i < SECTOR_SIZE. buf i = h ! i"
  shows "buf 0 \<noteq> NUL" and "c_string (16 * SECTOR_SIZE) buf 0 = name" and "tar_size buf = int len"
proof -
  obtain mid ds rest where f: "h = (name @ NUL # mid) @ map (\<lambda>d. char_of (48 + d)) ds @ NUL # rest"
      "length (name @ NUL # mid) = 124" "\<forall>d \<in> set ds. d < 8" "number ds = len"
    and l: "length h = 512" "name \<noteq> []" "length name < 100" "NUL \<notin> set name"
    using h by (auto simp: tar_header_def)
  have nm: "buf k = name ! k" if "k < length name" for k using b that l(3) by (simp add: f(1) nth_append)
  show "buf 0 \<noteq> NUL" using nm [of 0] l(2,4) by (metis length_greater_0_conv nth_mem)
  have "buf (length name) = NUL" using b l(3) by (simp add: f(1) nth_append)
  then show "c_string (16 * SECTOR_SIZE) buf 0 = name" using nm l by (intro c_string_eq) simp_all
  let ?u = "map (\<lambda>d. char_of (48 + d)) ds"
  have ld: "124 + length ds < 512" using l(1) f(1,2) by simp
  have dg: "buf (124 + k) = ?u ! k" if "k < length ?u" for k
  proof -
    have "h ! (124 + k) = (?u @ NUL # rest) ! k" unfolding f(1) using nth_append_length_plus [of "name @ NUL # mid"] f(2) by metis
    then show ?thesis using b ld that by (simp add: nth_append)
  qed
  have "buf (124 + length ?u) = NUL"
  proof -
    have "h ! (124 + length ?u) = (?u @ NUL # rest) ! length ?u"
      unfolding f(1) using nth_append_length_plus [of "name @ NUL # mid"] f(2) by metis
    also have "\<dots> = NUL" by (rule nth_append_length)
    finally show ?thesis using b ld by simp
  qed
  moreover have "NUL \<notin> set ?u"
  proof
    assume "NUL \<in> set ?u"
    then obtain d where d: "d \<in> set ds" "char_of (48 + d) = NUL" by auto
    then have "schar (char_of (48 + d)) - 48 = int d" using f(3) by (intro schar_digit) blast
    then show False by (simp add: d(2) schar_def)
  qed
  ultimately have "c_string (16 * SECTOR_SIZE) buf 124 = ?u" using dg ld by (intro c_string_eq) simp_all
  moreover have "octal 0 ?u = int (number ds)" using octal_number [of ds "[]"] f(3,4) len by (simp add: number_def)
  ultimately show "tar_size buf = int len" using f(4) by (simp add: tar_size_def)
qed

section \<open>What is to be done\<close>

text \<open>
  The calls that create one file after the other, in pieces of at most 16 sectors, up
  to the first name that cannot be opened: the specification of \<open>untar\<close>, in which there
  is no archive.
\<close>

function write_all :: "'w os \<Rightarrow> int \<Rightarrow> string \<Rightarrow> 'w \<Rightarrow> 'w kres" where
  "write_all os fdout t w =
    (if t = [] then Inr w
     else rbind (os_write os fdout (put_string (take 8192 t)) (int (min 8192 (length t))) w) (\<lambda>(_, w1).
       write_all os fdout (drop 8192 t) w1))"
  by pat_completeness auto
termination
  by (relation "measure (\<lambda>(os, fdout, t, w). length t)") auto

declare write_all.simps [simp del]

fun unpack :: "'w os \<Rightarrow> (string \<times> string) list \<Rightarrow> 'w \<Rightarrow> (bool \<times> 'w) kres" where
  "unpack os [] w = Inr (True, w)"
| "unpack os ((name, text) # fs) w =
    rbind (os_open os (Some name) (O_CREAT OR O_RDWR) w) (\<lambda>(fdout, w1).
    if fdout = -1 then
      rbind (os_printf os ''    failed to extract file: %s\<newline>'' [VStr name] w1) (\<lambda>(_, w2).
      rbind (os_printf os '' aborted]\<newline>'' [] w2) (\<lambda>(_, w3). Inr (False, w3)))
    else
      rbind (os_printf os ''    %s (%d bytes)\<newline>'' [VStr name, VInt (int (length text))] w1) (\<lambda>(_, w2).
      rbind (write_all os fdout text w2) (\<lambda>w3.
      rbind (os_close os fdout w3) (\<lambda>(_, w4). unpack os fs w4))))"

section \<open>A file that is open for reading\<close>

text \<open>
  The system calls \<open>os\<close> with the descriptor \<open>fd\<close> open on a file that holds \<open>arch\<close>: a read of
  \<open>n\<close> bytes puts the next \<open>n\<close> bytes of the file into the buffer and moves the position, as
  \<open>do_rdwt\<close> does; everything else is left to \<open>os\<close>, errors included.
\<close>

definition lifted :: "('w \<Rightarrow> ('a \<times> 'w) kres) \<Rightarrow> nat \<times> 'w \<Rightarrow> ('a \<times> (nat \<times> 'w)) kres" where
  "lifted call pw = rbind (call (snd pw)) (\<lambda>(r, w1). Inr (r, (fst pw, w1)))"

definition with_file :: "int \<Rightarrow> string \<Rightarrow> 'w os \<Rightarrow> (nat \<times> 'w) os" where
  "with_file fd arch os = \<lparr>
     os_open = (\<lambda>name flags. lifted (os_open os name flags)),
     os_close = (\<lambda>f. lifted (os_close os f)),
     os_read = (\<lambda>f buf n pw. if f = fd \<and> 0 \<le> n \<and> fst pw + nat n \<le> length arch
       then Inr ((n, \<lambda>i. if i < nat n then arch ! (fst pw + i) else buf i), (fst pw + nat n, snd pw))
       else lifted (os_read os f buf n) pw),
     os_write = (\<lambda>f buf n. lifted (os_write os f buf n)),
     os_printf = (\<lambda>fmt args. lifted (os_printf os fmt args)),
     os_fork = lifted (os_fork os), os_getpid = lifted (os_getpid os), os_wait = lifted (os_wait os),
     os_execv = (\<lambda>path argv. lifted (os_execv os path argv))\<rparr>"

lemma with_file_simps [simp]:
  "os_open (with_file fd arch os) name flags (p, w) = rbind (os_open os name flags w) (\<lambda>(r, w1). Inr (r, (p, w1)))"
  "os_close (with_file fd arch os) f (p, w) = rbind (os_close os f w) (\<lambda>(r, w1). Inr (r, (p, w1)))"
  "os_write (with_file fd arch os) f buf n (p, w) = rbind (os_write os f buf n w) (\<lambda>(r, w1). Inr (r, (p, w1)))"
  "os_printf (with_file fd arch os) fmt args (p, w) = rbind (os_printf os fmt args w) (\<lambda>(r, w1). Inr (r, (p, w1)))"
  by (simp_all only: with_file_def lifted_def os.simps fst_conv snd_conv)

lemma with_file_read:
  "p + n \<le> length arch \<Longrightarrow> os_read (with_file fd arch os) fd buf (int n) (p, w) =
     Inr ((int n, \<lambda>i. if i < n then arch ! (p + i) else buf i), (p + n, w))"
  by (auto simp: with_file_def fun_eq_iff)

text \<open>A write depends on the bytes that are to be written only.\<close>

definition writes_bytes :: "'w os \<Rightarrow> bool" where
  "writes_bytes os \<longleftrightarrow> (\<forall>f b c n w. (\<forall>i < n. b i = c i) \<longrightarrow> os_write os f b (int n) w = os_write os f c (int n) w)"

lemma writes_bytesD:
  "writes_bytes os \<Longrightarrow> (\<And>i. i < n \<Longrightarrow> b i = c i) \<Longrightarrow> os_write os f b (int n) w = os_write os f c (int n) w"
  by (simp add: writes_bytes_def)

section \<open>One file\<close>

lemma copy_step_eq:
  "0 < n \<Longrightarrow> copy_step (int n) = (int ((min 8192 n + 511) div 512 * 512), int (min 8192 n))"
proof -
  assume n: "0 < n"
  define m where "m = min 8192 n"
  have m: "0 < m" "cmin (16 * SECTOR_SIZE) (int n) = int m" using n by (simp_all add: m_def)
  have "(int m - 1) sdiv 512 = int ((m - 1) div 512)"
    using m(1) by (simp add: sdiv_nonneg of_nat_diff zdiv_int)
  moreover have "(m + 511) div 512 = (m - 1) div 512 + 1"
  proof -
    have "m + 511 = (m - 1) + 512" using m(1) by simp
    then show ?thesis by (metis div_add_self2 zero_neq_numeral)
  qed
  ultimately show ?thesis unfolding copy_step_def m(2) Let_def m_def [symmetric] by (simp add: algebra_simps)
qed

lemma rounded_rest: "8192 \<le> (n :: nat) \<Longrightarrow> (n + 511) div 512 * 512 = 8192 + (n - 8192 + 511) div 512 * 512"
proof -
  assume "8192 \<le> n"
  then have "n + 511 = (n - 8192 + 511) + 16 * 512" by simp
  then have "(n + 511) div 512 = (n - 8192 + 511) div 512 + 16" by (metis div_mult_self1 add.commute zero_neq_numeral)
  then show ?thesis by simp
qed

text \<open>The bytes the program finds at position \<open>p\<close> of the archive are those of \<open>t\<close>.\<close>

definition holds_at :: "string \<Rightarrow> nat \<Rightarrow> string \<Rightarrow> bool" where
  "holds_at arch p t \<longleftrightarrow> p + length t \<le> length arch \<and> (\<forall>i < length t. arch ! (p + i) = t ! i)"

lemma holds_at_append: "holds_at arch p (t @ u) \<longleftrightarrow> holds_at arch p t \<and> holds_at arch (p + length t) u"
proof -
  have "(\<forall>i < length (t @ u). arch ! (p + i) = (t @ u) ! i) \<longleftrightarrow>
    (\<forall>i < length t. arch ! (p + i) = t ! i) \<and> (\<forall>i < length u. arch ! (p + length t + i) = u ! i)" (is "?l \<longleftrightarrow> ?a \<and> ?b")
  proof
    assume l: ?l
    have ?a using l by (simp add: nth_append)
    moreover have ?b
    proof (intro allI impI)
      fix i assume "i < length u"
      then show "arch ! (p + length t + i) = u ! i" using l [rule_format, of "length t + i"] by (simp add: add.assoc)
    qed
    ultimately show "?a \<and> ?b" ..
  next
    assume ab: "?a \<and> ?b"
    show ?l
    proof (intro allI impI)
      fix i assume "i < length (t @ u)"
      then show "arch ! (p + i) = (t @ u) ! i"
        using ab [THEN conjunct1, rule_format, of i] ab [THEN conjunct2, rule_format, of "i - length t"]
        by (cases "i < length t") (simp_all add: nth_append)
    qed
  qed
  then show ?thesis by (auto simp: holds_at_def)
qed

lemma holds_at_take:
  assumes "holds_at arch p t" and "r \<le> length t"
  shows "holds_at arch p (take r t) \<and> holds_at arch (p + r) (drop r t)"
proof -
  have "length (take r t) = r" using assms(2) by simp
  then show ?thesis using holds_at_append [of arch p "take r t" "drop r t"] assms(1) by (metis append_take_drop_id)
qed

lemma rbind_assoc: "rbind (rbind r f) g = rbind r (\<lambda>x. rbind (f x) g)"
  by (simp split: sum.split)

lemma untar_copy_eq:
  assumes wr: "writes_bytes os"
  shows "holds_at arch p (cont @ pad) \<Longrightarrow> length (cont @ pad) = (length cont + 511) div 512 * 512 \<Longrightarrow>
    \<exists>buf'. untar_copy (with_file fd arch os) fd fdout (int (length cont)) buf (p, w) =
      rbind (write_all os fdout cont w) (\<lambda>w'. Inr (buf', (p + length (cont @ pad), w')))"
proof (induction "length cont" arbitrary: cont buf p w rule: less_induct)
  case less
  show ?case
  proof (cases "cont = []")
    case True
    then show ?thesis using less.prems by (simp add: untar_copy.simps write_all.simps)
  next
    case False
    define m where "m = min 8192 (length cont)"
    define r where "r = (m + 511) div 512 * 512"
    have m: "0 < m" "m \<le> length cont" "m \<le> r" using False by (simp_all add: m_def r_def)
    have "0 < length cont" using False by simp
    note cs = copy_step_eq [OF this, folded m_def, folded r_def]
    have rl: "r \<le> length (cont @ pad)"
      unfolding less.prems(2) r_def by (intro mult_le_mono1 div_le_mono add_le_mono1 m(2))
    have fits: "p + r \<le> length arch" using less.prems(1) rl by (simp add: holds_at_def)
    let ?buf = "\<lambda>i. if i < r then arch ! (p + i) else buf i"
    have "?buf i = put_string (take 8192 cont) i" if "i < m" for i
    proof -
      have i: "i < r" using that m(3) by (rule less_le_trans)
      have j: "i < length cont" "i < 8192" using that by (simp_all add: m_def)
      have "arch ! (p + i) = (cont @ pad) ! i" using less.prems(1) j(1) by (simp add: holds_at_def)
      with i j show ?thesis by (simp add: nth_append put_string_def)
    qed
    then have w1: "os_write os fdout ?buf (int m) w = os_write os fdout (put_string (take 8192 cont)) (int m) w"
      by (intro writes_bytesD [OF wr]) blast
    have step: "untar_copy (with_file fd arch os) fd fdout (int (length cont)) buf (p, w) =
        rbind (os_write os fdout (put_string (take 8192 cont)) (int m) w) (\<lambda>(_, w2).
          untar_copy (with_file fd arch os) fd fdout (int (length (drop m cont))) ?buf (p + r, w2))"
    proof -
      have nz: "int (length cont) \<noteq> 0" and left: "int (length cont) - int m = int (length (drop m cont))"
        using False m(2) by (simp_all add: of_nat_diff)
      show ?thesis
        unfolding untar_copy.simps [of "with_file fd arch os" fd fdout "int (length cont)" buf "(p, w)"] cs fst_conv snd_conv
          if_not_P [OF nz] with_file_read [OF fits] sum.case prod.case with_file_simps w1 left
        by (cases "os_write os fdout (put_string (take 8192 cont)) (int m) w") auto
    qed
    have all: "write_all os fdout cont w =
        rbind (os_write os fdout (put_string (take 8192 cont)) (int m) w) (\<lambda>(_, w2). write_all os fdout (drop 8192 cont) w2)"
      using False by (subst write_all.simps) (simp add: m_def)
    show ?thesis
    proof (cases "length cont \<le> 8192")
      case True
      then have "m = length cont" "r = length (cont @ pad)" using less.prems(2) by (simp_all add: m_def r_def)
      then show ?thesis using step all True by (simp add: untar_copy.simps write_all.simps split: sum.split)
    next
      case False
      then have mr: "m = 8192" "r = 8192" by (simp_all add: m_def r_def)
      have IH: "\<exists>buf'. untar_copy (with_file fd arch os) fd fdout (int (length (drop m cont))) ?buf (p + r, w2) =
          rbind (write_all os fdout (drop m cont) w2) (\<lambda>w'. Inr (buf', (p + r + length (drop m cont @ pad), w')))" for w2
      proof (rule less.hyps)
        show "length (drop m cont) < length cont" using False mr by simp
        show "holds_at arch (p + r) (drop m cont @ pad)" using holds_at_take [OF less.prems(1) rl] False mr by simp
        show "length (drop m cont @ pad) = (length (drop m cont) + 511) div 512 * 512"
          using less.prems(2) rounded_rest [of "length cont"] False mr by simp
      qed
      show ?thesis
      proof (cases "os_write os fdout (put_string (take 8192 cont)) (int m) w")
        case (Inr rw)
        obtain x w2 where rw: "rw = (x, w2)" by (cases rw)
        obtain buf' where "untar_copy (with_file fd arch os) fd fdout (int (length (drop m cont))) ?buf (p + r, w2) =
          rbind (write_all os fdout (drop m cont) w2) (\<lambda>w'. Inr (buf', (p + r + length (drop m cont @ pad), w')))" using IH by blast
        moreover have "p + r + length (drop m cont @ pad) = p + length (cont @ pad)" using False mr by simp
        ultimately show ?thesis using step all Inr rw mr by (intro exI [of _ buf']) (simp split: sum.split)
      qed (use step all in simp)
    qed
  qed
qed

section \<open>All files\<close>

text \<open>A result without the position.\<close>

definition forget :: "('a \<times> (nat \<times> 'w)) kres \<Rightarrow> ('a \<times> 'w) kres" where
  "forget r = rbind r (\<lambda>(x, (p, w)). Inr (x, w))"

lemma forget_simps [simp]: "forget (Inl e) = Inl e" "forget (Inr (x, (p, w))) = Inr (x, w)"
  by (simp_all add: forget_def)

lemma forget_bind: "forget (rbind r f) = rbind r (\<lambda>x. forget (f x))"
  by (simp add: forget_def split: sum.split)

lemma read_sector:
  assumes "holds_at arch p h" and "length h = 512"
  shows "os_read (with_file fd arch os) fd buf 512 (p, w) = Inr ((512, \<lambda>i. if i < 512 then arch ! (p + i) else buf i), (p + 512, w))"
  using with_file_read [of p 512 arch fd os buf w] assms by (simp add: holds_at_def)

lemma untar_loop_eq:
  assumes wr: "writes_bytes os"
  shows "is_tar fs a \<Longrightarrow> holds_at arch p a \<Longrightarrow> length fs < n \<Longrightarrow>
    forget (untar_loop (with_file fd arch os) fd n buf (p, w)) = unpack os fs w"
proof (induction fs arbitrary: a n buf p w)
  case Nil
  then obtain z rest k where a: "a = z @ rest" "length z = 512" "hd z = NUL" and n: "n = Suc k"
    by (auto simp: gr0_conv_Suc)
  have z: "holds_at arch p z" using Nil.prems(2) by (simp add: a(1) holds_at_append)
  have "arch ! p = NUL" using z a(2,3) by (cases z) (force simp: holds_at_def)+
  then show ?case using read_sector [OF z a(2), of fd os buf w] by (simp add: n forget_def)
next
  case (Cons f fs)
  obtain name cont where f: "f = (name, cont)" by (cases f)
  obtain k where n: "n = Suc k" "length fs < k" using Cons.prems(3) by (cases n) simp_all
  obtain h pad rest where a: "a = h @ (cont @ pad) @ rest" and h: "tar_header h name (length cont)" "length cont < 2 ^ 31 - 512"
    and pad: "length (cont @ pad) = (length cont + 511) div 512 * 512" and rest: "is_tar fs rest"
    using Cons.prems(1) [unfolded f is_tar.simps] by auto
  have lh: "length h = 512" using h(1) by (simp add: tar_header_def)
  have parts: "holds_at arch p h" "holds_at arch (p + 512) (cont @ pad)" "holds_at arch (p + 512 + length (cont @ pad)) rest"
    using Cons.prems(2) unfolding a holds_at_append lh by blast+
  let ?os = "with_file fd arch os" and ?buf = "\<lambda>i. if i < 512 then arch ! (p + i) else buf i"
  have fields: "?buf 0 \<noteq> NUL" "c_string (16 * SECTOR_SIZE) ?buf 0 = name" "tar_size ?buf = int (length cont)"
    using header_fields [OF h(1), of ?buf] h(2) parts(1) lh by (simp_all add: holds_at_def)
  have rest_eq: "forget (rbind (untar_copy ?os fd fdout (int (length cont)) ?buf (p + 512, w3)) (\<lambda>(buf2, w4).
        rbind (os_close ?os fdout w4) (\<lambda>(_, w5). untar_loop ?os fd k buf2 w5))) =
      rbind (write_all os fdout cont w3) (\<lambda>w4. rbind (os_close os fdout w4) (\<lambda>(_, w5). unpack os fs w5))" for fdout w3
  proof -
    obtain buf2 where c: "untar_copy ?os fd fdout (int (length cont)) ?buf (p + 512, w3) =
        rbind (write_all os fdout cont w3) (\<lambda>w'. Inr (buf2, (p + 512 + length (cont @ pad), w')))"
      using untar_copy_eq [OF wr parts(2) pad] by blast
    show ?thesis
      using Cons.IH [OF rest parts(3) n(2), of buf2] unfolding c by (simp add: forget_bind split: sum.split)
  qed
  show ?case
    using fields rest_eq
    by (simp add: n(1) f Let_def read_sector [OF parts(1) lh] forget_bind split: sum.split)
qed

section \<open>The property\<close>

definition forget_pos :: "(nat \<times> 'w) kres \<Rightarrow> 'w kres" where
  "forget_pos r = rbind r (\<lambda>(p, w). Inr w)"

lemma forget_pos_simps [simp]: "forget_pos (Inl e) = Inl e" "forget_pos (Inr (p, w)) = Inr w"
  by (simp_all add: forget_pos_def)

text \<open>
  C38: \<open>untar\<close> unpacks an archive: for an archive of any number of files, of any sizes an
  \<open>int\<close> holds, its system calls are, but for the reads of the archive, exactly those of
  \<open>unpack\<close>: for each file, in order, one open with its name, its contents written in pieces of at most 8192
  bytes, and one close, up to the first file that cannot be opened.  This holds whatever
  these calls return or do to the system, errors included, and whatever the unused fields
  of the headers and the padding hold; the reads of the archive return its bytes.
\<close>

theorem untar_unpacks:
  assumes archive: "is_tar fs arch" and wr: "writes_bytes os" and n: "length fs < n"
    and start: "os_printf os ''[extract `%s'\<newline>'' [VStr filename] w = Inr (r, w1)"
      "os_open os (Some filename) O_RDWR w1 = Inr (fd, w2)" "fd \<noteq> - 1"
  shows "forget_pos (untar (with_file fd arch os) junk n filename (0, w)) =
    rbind (unpack os fs w2) (\<lambda>(complete, w3).
      if complete then rbind (os_close os fd w3) (\<lambda>(_, w4). rbind (os_printf os '' done]\<newline>'' [] w4) (\<lambda>(_, w5). Inr w5))
      else Inr w3)"
proof -
  let ?loop = "untar_loop (with_file fd arch os) fd n junk (0, w2)"
  have run: "untar (with_file fd arch os) junk n filename (0, w) = rbind ?loop (\<lambda>(complete, w3).
      if complete then rbind (os_close (with_file fd arch os) fd w3) (\<lambda>(_, w4).
        rbind (os_printf (with_file fd arch os) '' done]\<newline>'' [] w4) (\<lambda>(_, w5). Inr w5)) else Inr w3)"
    using start by (simp add: untar_def)
  have loop: "forget ?loop = unpack os fs w2"
    by (rule untar_loop_eq [OF wr archive _ n]) (simp add: holds_at_def)
  show ?thesis
  proof (cases ?loop)
    case (Inl e)
    then show ?thesis using loop [symmetric] by (simp add: run)
  next
    case (Inr x)
    obtain c p w3 where "x = (c, (p, w3))" by (cases x) auto
    then show ?thesis using Inr loop [symmetric] by (simp add: run split: sum.split)
  qed
qed

text \<open>An archive with one file of two characters, and system calls that record what is asked for.\<close>

definition sample_tar :: string where
  "sample_tar = (''a'' @ NUL # replicate 122 NUL) @ ''2'' @ NUL # replicate 386 NUL @ ''hi'' @ replicate 510 NUL @ replicate 512 NUL"

datatype sample_call = Opened string | Wrote int string | Closed int

definition sample_os :: "sample_call list os" where
  "sample_os = \<lparr>
     os_open = (\<lambda>name flags w. Inr (if flags = O_RDWR then 3 else 4, w @ [Opened (the name)])),
     os_close = (\<lambda>f w. Inr (0, w @ [Closed f])),
     os_read = (\<lambda>f buf n w. Inl Hang),
     os_write = (\<lambda>f buf n w. Inr (n, w @ [Wrote f (map buf [0..<nat n])])),
     os_printf = (\<lambda>fmt args w. Inr (0, w)),
     os_fork = (\<lambda>w. Inl Hang), os_getpid = (\<lambda>w. Inl Hang), os_wait = (\<lambda>w. Inl Hang), os_execv = (\<lambda>p a w. Inl Hang)\<rparr>"

lemma digit_two: "char_of (50 :: nat) = CHR ''2''"
  by code_simp

lemma sample_header: "tar_header ((''a'' @ NUL # replicate 122 NUL) @ ''2'' @ NUL # replicate 386 NUL) ''a'' 2"
  unfolding tar_header_def
  by (rule conjI, simp)+
    (rule exI [of _ "replicate 122 NUL"], rule exI [of _ "[2]"], rule exI [of _ "replicate 386 NUL"], simp add: number_def digit_two)

lemma sample_is_tar: "is_tar [(''a'', ''hi'')] sample_tar"
  unfolding is_tar.simps
proof (intro exI conjI)
  show "sample_tar = ((''a'' @ NUL # replicate 122 NUL) @ ''2'' @ NUL # replicate 386 NUL) @ (''hi'' @ replicate 510 NUL) @ replicate 512 NUL"
    by (simp add: sample_tar_def)
  show "tar_header ((''a'' @ NUL # replicate 122 NUL) @ ''2'' @ NUL # replicate 386 NUL) ''a'' (length ''hi'')"
    using sample_header by (simp add: numeral_2_eq_2)
  show "replicate 512 NUL = replicate 512 NUL @ []" by simp
  show "hd (replicate 512 NUL) = NUL" by (simp add: hd_replicate)
qed simp_all

theorem untar_unpacks_witness:
  "forget_pos (untar (with_file 3 sample_tar sample_os) (\<lambda>_. NUL) 2 ''/cmd.tar'' (0, [])) =
     Inr [Opened ''/cmd.tar'', Opened ''a'', Wrote 4 ''hi'', Closed 4, Closed 3]"
proof -
  have wr: "writes_bytes sample_os" by (simp add: writes_bytes_def sample_os_def cong: map_cong)
  have "map (put_string ''hi'') [0..<2] = ''hi''" by (simp add: put_string_def upt_rec)
  then have "unpack sample_os [(''a'', ''hi'')] [Opened ''/cmd.tar''] = Inr (True, [Opened ''/cmd.tar'', Opened ''a'', Wrote 4 ''hi'', Closed 4])"
    by (simp add: sample_os_def write_all.simps)
  then show ?thesis
    using untar_unpacks [OF sample_is_tar wr, of 2 "''/cmd.tar''" "[]" 0 "[]" 3 "[Opened ''/cmd.tar'']" "\<lambda>_. NUL"]
    by (simp add: sample_os_def)
qed

end
