(* ===== verification/Programs.thy ===== *)
theory Programs
  imports ShellProps
begin

text \<open>
  The programs of \<open>src/command\<close>, which the archive holds: \<open>echo\<close> and \<open>pwd\<close>.  \<open>main\<close> gets
  the arguments as \<open>exec\<close> puts them on the stack, and prints with \<open>printf\<close>.
\<close>

section \<open>The programs\<close>

text \<open>The loop of \<open>echo\<close>: words left, the index of the next one.\<close>

fun echo_loop :: "'w os \<Rightarrow> string list \<Rightarrow> nat \<Rightarrow> nat \<Rightarrow> 'w \<Rightarrow> 'w kres" where
  "echo_loop os argv 0 i w = Inr w"
| "echo_loop os argv (Suc n) i w =
    ensure (i < length argv) (Bad_access ''argv'') (
    rbind (os_printf os ''%s%s'' [VStr (if i = 1 then [] else '' ''), VStr (argv ! i)] w) (\<lambda>(_, w1).
    echo_loop os argv n (Suc i) w1))"

definition echo_main :: "'w os \<Rightarrow> int \<Rightarrow> string list \<Rightarrow> 'w \<Rightarrow> (int \<times> 'w) kres" where
  "echo_main os argc argv w =
    rbind (echo_loop os argv (nat (argc - 1)) 1 w) (\<lambda>w1.
    rbind (os_printf os [CHR 0x0A] [] w1) (\<lambda>(_, w2). Inr (0, w2)))"

definition pwd_main :: "'w os \<Rightarrow> int \<Rightarrow> string list \<Rightarrow> 'w \<Rightarrow> (int \<times> 'w) kres" where
  "pwd_main os argc argv w = rbind (os_printf os [CHR ''/'', CHR 0x0A] [] w) (\<lambda>(_, w1). Inr (0, w1))"

section \<open>What they print\<close>

text \<open>
  What \<open>printf\<close> promises, \<open>out\<close> being the text on the terminal: it appends the formatted
  text, when that fits its buffer.
\<close>

definition appends_text :: "'w os \<Rightarrow> ('w \<Rightarrow> string) \<Rightarrow> bool" where
  "appends_text os out \<longleftrightarrow> (\<forall>fmt args t w. vsprintf fmt args = Inr t \<longrightarrow> length t < 1024 \<longrightarrow>
     (\<exists>w'. os_printf os fmt args w = Inr (int (length t), w') \<and> out w' = out w @ t))"

definition spaced :: "string list \<Rightarrow> string" where
  "spaced us = concat (map (\<lambda>u. CHR '' '' # u) us)"

fun joined :: "string list \<Rightarrow> string" where
  "joined [] = []"
| "joined (u # us) = u @ spaced us"

lemma vsprintf_two: "length s < 1024 \<Longrightarrow> length t < 1024 \<Longrightarrow> vsprintf ''%s%s'' [VStr s, VStr t] = Inr (s @ t)"
  by (simp add: vsprintf_s vsprintf_plain)

lemma appends_two:
  assumes "appends_text os out" and "length s + length t < 1024"
  obtains w' where "os_printf os ''%s%s'' [VStr s, VStr t] w = Inr (int (length (s @ t)), w')" "out w' = out w @ s @ t"
  using assms vsprintf_two [of s t] by (fastforce simp: appends_text_def)

lemma appends_plain:
  assumes "appends_text os out" and "CHR ''%'' \<notin> set t" and "length t < 1024"
  obtains w' where "os_printf os t [] w = Inr (int (length t), w')" "out w' = out w @ t"
  using assms vsprintf_plain [of t "[]"] by (fastforce simp: appends_text_def)

lemma echo_loop_prints:
  assumes p: "appends_text os out" and short: "\<forall>u \<in> set (tl argv). length u < 1023"
  shows "1 < i \<Longrightarrow> i + n = length argv \<Longrightarrow> \<exists>w'. echo_loop os argv n i w = Inr w' \<and> out w' = out w @ spaced (drop i argv)"
proof (induction n arbitrary: i w)
  case (Suc n)
  then have i: "i < length argv" by simp
  then have "argv ! i \<in> set (tl argv)" using Suc.prems(1) nth_mem [of "i - 1" "tl argv"] by (cases i) (simp_all add: nth_tl)
  then have "length (argv ! i) < 1023" using short by blast
  then obtain w1 where w1: "os_printf os ''%s%s'' [VStr '' '', VStr (argv ! i)] w = Inr (int (length ('' '' @ argv ! i)), w1)"
    "out w1 = out w @ '' '' @ argv ! i"
    by (auto intro: appends_two [OF p, of "'' ''" "argv ! i" w])
  obtain w' where w': "echo_loop os argv n (Suc i) w1 = Inr w'" "out w' = out w1 @ spaced (drop (Suc i) argv)"
    using Suc.IH [of "Suc i" w1] Suc.prems by auto
  have "spaced (drop i argv) = '' '' @ argv ! i @ spaced (drop (Suc i) argv)"
    using i by (simp add: spaced_def Cons_nth_drop_Suc [symmetric])
  then show ?case using i Suc.prems(1) w1 w' by simp
qed (simp add: spaced_def)

text \<open>\<open>echo\<close> prints its arguments, with one space between them, and a newline.\<close>

theorem echo_prints:
  assumes p: "appends_text os out" and short: "\<forall>u \<in> set us. length u < 1023"
  shows "\<exists>w'. echo_main os (int (length (prog # us))) (prog # us) w = Inr (0, w') \<and> out w' = out w @ joined us @ [CHR 0x0A]"
proof -
  have "\<exists>w'. echo_loop os (prog # us) (length us) 1 w = Inr w' \<and> out w' = out w @ joined us"
  proof (cases us)
    case (Cons u vs)
    then obtain w1 where w1: "os_printf os ''%s%s'' [VStr [], VStr u] w = Inr (int (length ([] @ u)), w1)" "out w1 = out w @ [] @ u"
      using short by (auto intro: appends_two [OF p, of "[]" u w])
    have "\<exists>w'. echo_loop os (prog # us) (length vs) 2 w1 = Inr w' \<and> out w' = out w1 @ spaced (drop 2 (prog # us))"
      by (rule echo_loop_prints [OF p]) (use short Cons in auto)
    then show ?thesis using w1 Cons by (simp add: numeral_2_eq_2)
  qed simp
  then obtain w1 where w1: "echo_loop os (prog # us) (length us) 1 w = Inr w1" "out w1 = out w @ joined us" by blast
  obtain w2 where "os_printf os [CHR 0x0A] [] w1 = Inr (int (length [CHR 0x0A]), w2)" "out w2 = out w1 @ [CHR 0x0A]"
    by (rule appends_plain [OF p, of "[CHR 0x0A]" w1]) simp_all
  then show ?thesis using w1 by (simp add: echo_main_def)
qed

end
