(* ===== verification/Spec2Isabelle.thy ===== *)
theory Spec2Isabelle
  imports KernelProps FsProps FsFileProps FsUnlinkProps FsLogProps FsDumpProps FsMkfsProps HdProbe TtyProps PanicProps MmProps FmtProps GateProps SysProps UntarProps Programs
begin

text \<open>
  A verification of the operating system in \<open>src/\<close>: a small message-passing kernel
  for the i386 with a file system, a memory manager, terminals and a shell, each of
  them a task that answers messages.

  \<^bold>\<open>The parts and how they work together.\<close>  The kernel (\<open>src/kernel\<close>) keeps the process
  table, schedules by ticks and carries messages: a process calls \<open>sendrec\<close>, the
  kernel copies the message when sender and receiver meet and blocks the one that
  comes first.  Device interrupts are messages to the task that waits for them.
  The tasks are loops around \<open>send_recv(RECEIVE, ANY, ..)\<close>: the system task, the hard
  disk driver, the terminals, the file system (\<open>src/fs\<close>) and the memory manager
  (\<open>src/mm\<close>).  The library (\<open>src/lib\<close>) turns the calls of user programs into such
  messages; the file system in turn sends messages to the drivers, and the memory
  manager to the file system.  Init unpacks an archive and starts the shells.

  \<^bold>\<open>How the C code is read.\<close>  An \<open>int\<close> is an \<open>int\<close> of HOL, with \<open>cint\<close> where it can wrap
  and \<open>sdiv\<close>, \<open>smod\<close> for its truncating division; \<open>u8\<close>, \<open>u16\<close>, \<open>u32\<close>, \<open>u64\<close> are
  words.  A table is a function from indices, a pointer into a table its index, a
  pointer that may be null an option.  A struct is a record with the names of its
  members, an operation a definition with the name of the C function that takes the
  state of its task and returns it.  Everything that can stop returns a \<open>kres\<close>: the
  left side says which assertion failed (file and line), which \<open>panic\<close> was called,
  which access was out of range (\<open>Bad_access\<close>) or that the code waits for ever
  (\<open>Hang\<close>).  A loop with a bound is a recursion on the steps left; a loop that may not
  end is a \<open>partial_function\<close> with result \<open>None\<close> when it does not, and the properties
  state that it ends.

  \<^bold>\<open>The theories.\<close>  \<open>Prelude\<close> has the result type and the lemmas on arrays, options and
  signed arithmetic that all share; \<open>Consts\<close> the constants of \<open>include/sys\<close>;
  \<open>Memory\<close> the linear memory, \<open>memcpy\<close>, \<open>memset\<close> of \<open>lib/string.asm\<close> and the layout of
  a message; \<open>Protect\<close> descriptors and gates (\<open>kernel/protect.c\<close>).

  The kernel: \<open>Proc\<close> (process table and address translation), \<open>Sched\<close> (\<open>schedule\<close>,
  \<open>clock_handler\<close>), \<open>Ipc\<close> (\<open>sys_sendrec\<close>, \<open>msg_send\<close>, \<open>msg_receive\<close>, \<open>deadlock\<close>,
  \<open>inform_int\<close>), \<open>Boot\<close> (\<open>kernel_main\<close>), \<open>Gates\<close> (\<open>cstart\<close>, \<open>init_prot\<close>, the interrupt
  controllers).  \<open>IpcQueue\<close>, \<open>IpcInv\<close> and \<open>IpcRecv\<close> prove that every operation of \<open>Ipc\<close>
  keeps the invariant of the table (queues are duplicate-free lists of senders, the
  flags say who waits for whom) and describe every branch; \<open>IpcSpec\<close> is the abstract
  specification, mailboxes with queues of senders, and the refinement; \<open>KStep\<close> the
  transition system of system calls and interrupts from the boot state.  A step of it is
  a whole call: interrupts come between calls, and the memory manager has not yet
  written into the table.  That an interrupt in the middle of a send breaks it, as
  \<open>kernel.asm\<close> allows, is the theorem \<open>interrupt_breaks_send\<close>.
  \<open>KernelProps\<close> and \<open>GateProps\<close> hold the properties.

  The disk and the file system: \<open>Hd\<close> and \<open>HdProbe\<close> (\<open>kernel/hd.c\<close>) and \<open>BlockDev\<close>, the interface of
  a block device and the driver as its instance; \<open>FsBase\<close> (state of the task, sectors,
  super block, inode cache), \<open>FsPath\<close> (\<open>fs/misc.c\<close>), \<open>FsOpen\<close> (\<open>fs/open.c\<close>), \<open>FsRdwt\<close>
  (\<open>fs/read_write.c\<close>, \<open>fs/link.c\<close>), \<open>FsMain\<close> (\<open>fs/main.c\<close>), \<open>FsLog\<close> and \<open>FsDump\<close>
  (\<open>fs/disklog.c\<close>), \<open>FsLogMap\<close> (how the first call of \<open>disklog\<close> reserves its sectors).
  On them rest \<open>FsIo\<close>, \<open>FsInode\<close>, \<open>FsEdit\<close> (sectors, inodes, changing a sector in
  place), \<open>FsDir\<close> (the directory as a list of entries), \<open>FsRefs\<close> (reference counts),
  \<open>FsFile\<close> (a file as a function from positions to bytes), \<open>FsMap\<close> and \<open>FsFree\<close> (the
  bitmaps as sets of positions), \<open>FsCreate\<close> and \<open>FsUnlink\<close> (creating and removing a
  file as a whole), \<open>FsMkfs\<close> (what \<open>mkfs\<close> and \<open>init_fs\<close> leave).  The properties are in \<open>FsProps\<close>, \<open>FsFileProps\<close>, \<open>FsAllocProps\<close>,
  \<open>FsUnlinkProps\<close>, \<open>FsMkfsProps\<close>, \<open>FsLogProps\<close> and \<open>FsDumpProps\<close>.

  The terminals: \<open>Ring\<close>, the interface of a bounded buffer; \<open>Keyboard\<close>
  (\<open>kernel/keyboard.c\<close>), \<open>Console\<close> (\<open>kernel/console.c\<close>), \<open>Tty\<close> (\<open>kernel/tty.c\<close>); \<open>TtyLine\<close>
  has the line editor that \<open>tty_dev_write\<close> implements, \<open>TtyTask\<close> the invariant of the
  task; \<open>TtyProps\<close> the properties.  \<open>Panic\<close> and \<open>PanicProps\<close>: how \<open>panic\<close>, \<open>spin\<close> and
  \<open>assertion_failure\<close> end, through \<open>printl\<close> and \<open>sys_printx\<close>, and \<open>dump_msg\<close>.

  Processes: \<open>Mm\<close> (\<open>mm/main.c\<close>, \<open>mm/forkexit.c\<close>, \<open>mm/exec.c\<close>, \<open>lib/exec.c\<close>), with lemmas in
  \<open>MmFork\<close> and \<open>MmExec\<close> and properties in \<open>MmProps\<close>.  \<open>Fmt\<close> and \<open>FmtProps\<close>: formatting
  (\<open>lib/vsprintf.c\<close>).  \<open>Syscalls\<close>: the stubs of \<open>src/lib\<close>, over a trap \<open>sendrec\<close> that is an
  argument.  \<open>Exchange\<close> puts the kernel in its place: a message in the memory of its
  process (\<open>write_message\<close>), the trap as \<open>sys_sendrec\<close> (\<open>trap\<close>), one round of the loop of a
  task (\<open>task_round\<close>), and the proof that a call on them is one request and its answer.
  \<open>SysProps\<close> runs the file system as such a task, on the process table and the memory
  of the kernel, with calls end to end.  \<open>Shell\<close> and \<open>ShellProps\<close>: \<open>untar\<close>, \<open>shabby_shell\<close> and \<open>Init\<close> of \<open>kernel/main.c\<close>;
  \<open>UntarProps\<close> has the specification \<open>unpack\<close> of \<open>untar\<close>, \<open>Programs\<close> the programs of \<open>src/command\<close>.
\<close>

text \<open>
  \<^bold>\<open>The interfaces.\<close>  \<open>block_device\<close> (interpreted as \<open>disk\<close> on the driver within a
  partition): what is put is read back and nothing else changes; the file system
  reads and writes sectors only through it.  \<open>bounded_fifo\<close> (\<open>kq\<close> on the ring of scan
  codes, \<open>tq\<close> on the queue of a terminal): what goes in comes out in order, and what
  does not fit is dropped.  \<open>rpc\<close> (\<open>kcall\<close> on the kernel's \<open>sys_sendrec\<close>, for every
  task that serves a message and waits again; the system task and the file system are
  shown to be such tasks): a call of the library is one request and its answer.

  \<^bold>\<open>What the groups of lemmas show.\<close>
  \<^item> Kernel: in every state that whole calls and interrupts reach from boot a call or an
    interrupt succeeds, but for the stops the theorem names; sending and receiving
    refine the mailboxes; the search for a deadlock ends, with 0 when there is none and in
    the assertion of line 276 when there is one; the scheduler terminates exactly when
    some process can get ticks.
  \<^item> Disk: what is written is read back; requests of more than 256 sectors never end.
  \<^item> File system: searching is a lookup in the list of entries; opening, closing,
    fork and exit keep the reference counts; what is written to a file is read back;
    what \<open>mkfs\<close> writes and \<open>init_fs\<close> reads meets the assumptions of all of them;
    allocation and freeing act on the maps as sets, and creating, closing and
    removing a file restores them; the log is appended to, from the first call on.
  \<^item> Terminals: a line editor; output stays inside its console; a round of the task ends,
    with its sends recorded; a panic
    halts with its message on the whole screen.
  \<^item> User programs: \<open>untar\<close> makes exactly the system calls that create the archived files,
    whatever these calls return; the shell cuts its line into
    words, \<open>echo\<close> prints them.
  \<^item> Memory manager: images are disjoint; fork copies the process entry and the image, field
    by field; no process waits while a child hangs; the tables that wait and exit leave;
    the arguments of \<open>exec\<close> arrive.  A send of the memory manager is a record in
    \<open>mm_sent\<close> when the kernel would carry it out at once or when the receiver gets to it;
    it fails where an assertion of the kernel fails, or when the receiver never listens.
  \<^item> Compositions: what one process writes with \<open>write\<close> another reads with \<open>read\<close>,
    through the library, \<open>sys_sendrec\<close> and the file system task; a process gets its number
    and the ticks.
  \<^item> Errors of the code are theorems of their own: the long name that frees the next
    entry, the directory that loses names, reading and writing beyond the end of a
    file, the exit that stops the memory manager while INIT waits, the wait that never
    returns, the sectors of the log that are not reserved, the interrupt that breaks a
    send.

  \<^bold>\<open>Bounds.\<close>  \<open>load_loop\<close> has 65535 steps because the number of program headers has 16
  bits; \<open>relocate\<close> runs over the 256 words of the stack page an \<open>execv\<close> can fill; the
  shell's line has 128 characters; \<open>untar_loop\<close>, \<open>shell_rounds\<close> and \<open>reap_loop\<close> are
  loops without end and run for the number of rounds that is their argument.  The
  directory lemmas need at most 2 ^ 14 entries and inode numbers below 4096, the bits
  of the one sector of the inode map that the code looks at; sectors are below 2 ^ 22,
  where their byte position still fits an \<open>int\<close>.

  \<^bold>\<open>Parameters.\<close>  The accesses to the structures of the system header \<open>elf.h\<close>
  (\<open>elf_reader\<close>), the addresses the linker gives to the handlers and the kernel
  image, the answers of the file system that \<open>exec\<close> reads the program with, the system
  calls of Init and the shell (a record of functions), the trap that \<open>send_recv\<close> enters,
  and the terminal in \<open>do_rdwt\<close>.  Sends of the terminal task are records in \<open>tty_sent\<close>: that
  they can close a cycle of waits with the file system is not part of its theorems.

  \<^bold>\<open>Not modelled.\<close>  The boot sector, the loader, the entry of the kernel and the context
  switch are assembly of the processor's modes and stacks; between two traps the
  operations modelled here run.  The ports of the devices are the lists of bytes they
  return, the disk is the array of its sectors.  The
  test processes are empty loops, and \<open>tmp/f.c\<close> is a program for the host.
\<close>

end
